(* ===== verification/Ruyi_Prelude.thy ===== *)
theory Ruyi_Prelude
  imports Complex_Main "HOL-Library.List_Lexorder"
begin

text \<open>
  Vocabulary shared by every component of the development.

  \<^item> Python strings are lists of Unicode code points (\<open>pystr\<close>); \<open>str ''abc''\<close>
    is the embedding of an ASCII literal.  Equality, length and lexicographic order
    of \<open>pystr\<close> are those of Python's \<open>str\<close> (and of SQLite's BINARY collation, which
    orders UTF-8 text by code point).
  \<^item> Instants (\<open>datetime.now(UTC)\<close>, stored as ISO text) are integers, in
    microseconds; every reading of the clock and every fresh uuid is an argument of
    the operation that takes it.
  \<^item> A SQLite table is the list of its rows.  \<open>rows_update P f\<close> is
    \<open>UPDATE ... SET f WHERE P\<close>, \<open>rows_count P\<close> is the \<open>rowcount\<close> of that update,
    \<open>filter P\<close> is \<open>SELECT ... WHERE P\<close> and \<open>sort_key\<close> is \<open>ORDER BY\<close>.
\<close>

named_theorems row_simps \<open>rewriting of table updates and lookups\<close>

subsection \<open>Strings\<close>

type_synonym pystr = "nat list"

definition str :: "string \<Rightarrow> pystr" where
  "str s = map of_char s"

lemma str_inject [simp]: "str a = str b \<longleftrightarrow> a = b"
proof -
  have "inj (map (of_char :: char \<Rightarrow> nat))"
    by (simp add: inj_def)
  then show ?thesis
    by (simp add: str_def inj_eq)
qed

lemma str_Nil [simp]: "str [] = []"
  by (simp add: str_def)

lemma str_eq_Nil [simp]: "str a = [] \<longleftrightarrow> a = []" "[] = str a \<longleftrightarrow> a = []"
  by (auto simp: str_def)

lemma length_str [simp]: "length (str a) = length a"
  by (simp add: str_def)

definition join :: "pystr \<Rightarrow> pystr list \<Rightarrow> pystr" where
  "join sep xs = (case xs of [] \<Rightarrow> [] | y # ys \<Rightarrow> y @ concat (map (\<lambda>z. sep @ z) ys))"

text \<open>Decimal rendering of a non-negative integer, as in an f-string.\<close>

fun dec_digits :: "nat \<Rightarrow> pystr" where
  "dec_digits n = (if n < 10 then [48 + n] else dec_digits (n div 10) @ [48 + n mod 10])"

declare dec_digits.simps [simp del]

definition dec :: "int \<Rightarrow> pystr" where
  "dec i = (if i < 0 then 45 # dec_digits (nat (- i)) else dec_digits (nat i))"

lemma dec_digits_range: "c \<in> set (dec_digits n) \<Longrightarrow> 48 \<le> c \<and> c \<le> 57"
proof (induction n rule: dec_digits.induct)
  case (1 n)
  then show ?case
    by (subst (asm) dec_digits.simps) (auto split: if_splits)
qed

lemma dec_digits_nonempty [simp]: "dec_digits n \<noteq> []"
  by (subst dec_digits.simps) simp

fun undec :: "pystr \<Rightarrow> nat" where
  "undec cs = foldl (\<lambda>a c. 10 * a + (c - 48)) 0 cs"

lemma undec_dec_digits [simp]: "undec (dec_digits n) = n"
proof (induction n rule: dec_digits.induct)
  case (1 n)
  then show ?case
    by (subst dec_digits.simps) (auto simp: ac_simps)
qed

lemma dec_digits_inject [simp]: "dec_digits m = dec_digits n \<longleftrightarrow> m = n"
  by (metis undec_dec_digits)

lemma dec_chars: "c \<in> set (dec i) \<Longrightarrow> c = 45 \<or> 48 \<le> c \<and> c \<le> 57"
  by (auto simp: dec_def dest: dec_digits_range split: if_splits)

lemma dec_inject [simp]: "dec i = dec j \<longleftrightarrow> i = j"
proof -
  have minus: "45 # xs \<noteq> dec_digits n" for xs n
  proof
    assume "45 # xs = dec_digits n"
    then have "45 \<in> set (dec_digits n)"
      by (metis list.set_intros(1))
    then show False
      by (auto dest: dec_digits_range)
  qed
  show ?thesis
    by (auto simp: dec_def minus minus [symmetric])
qed

subsection \<open>Dynamically typed values\<close>

text \<open>
  The Python values the code inspects with \<open>isinstance\<close>: tool arguments, request and
  message payloads, metadata.  A dict is its list of items in insertion order.  \<open>True\<close> is an
  \<open>int\<close> for \<open>isinstance\<close>, which \<open>is_int\<close> records; \<open>type(x) is int\<close> is \<open>is_exact_int\<close>.
\<close>

datatype pyval =
    PNone
  | PBool bool
  | PInt int
  | PFloat rat
  | PStr pystr
  | PList "pyval list"
  | PDict "(pystr \<times> pyval) list"

type_synonym pydict = "(pystr \<times> pyval) list"

fun is_int :: "pyval \<Rightarrow> bool" where
  "is_int (PInt _) = True"
| "is_int (PBool _) = True"
| "is_int _ = False"

fun is_exact_int :: "pyval \<Rightarrow> bool" where
  "is_exact_int (PInt _) = True"
| "is_exact_int _ = False"

fun truthy :: "pyval \<Rightarrow> bool" where
  "truthy PNone = False"
| "truthy (PBool b) = b"
| "truthy (PInt i) = (i \<noteq> 0)"
| "truthy (PFloat r) = (r \<noteq> 0)"
| "truthy (PStr s) = (s \<noteq> [])"
| "truthy (PList xs) = (xs \<noteq> [])"
| "truthy (PDict xs) = (xs \<noteq> [])"

text \<open>\<open>d.get(key)\<close>: \<open>None\<close> for an absent key.\<close>

definition dict_get :: "pystr \<Rightarrow> pydict \<Rightarrow> pyval" where
  "dict_get k d = (case map_of d k of None \<Rightarrow> PNone | Some v \<Rightarrow> v)"

text \<open>Truth of an optional string (\<open>if x:\<close> with \<open>x: str | None\<close>).\<close>

definition nonempty_opt :: "pystr option \<Rightarrow> bool" where
  "nonempty_opt x = (case x of None \<Rightarrow> False | Some s \<Rightarrow> s \<noteq> [])"

lemma nonempty_opt_simps [simp]:
  "\<not> nonempty_opt None" "nonempty_opt (Some s) \<longleftrightarrow> s \<noteq> []"
  by (auto simp: nonempty_opt_def)

text \<open>The exceptions of the standard library that the components raise.\<close>

datatype py_error =
    ValueError pystr
  | TypeError pystr
  | KeyError pystr
  | RuntimeError pystr
  | IntegrityError

subsection \<open>Tables\<close>

definition rows_update :: "('r \<Rightarrow> bool) \<Rightarrow> ('r \<Rightarrow> 'r) \<Rightarrow> 'r list \<Rightarrow> 'r list" where
  "rows_update P f rs = map (\<lambda>r. if P r then f r else r) rs"

definition rows_count :: "('r \<Rightarrow> bool) \<Rightarrow> 'r list \<Rightarrow> nat" where
  "rows_count P rs = length (filter P rs)"

definition rows_delete :: "('r \<Rightarrow> bool) \<Rightarrow> 'r list \<Rightarrow> 'r list" where
  "rows_delete P rs = filter (\<lambda>r. \<not> P r) rs"

text \<open>The row with a given primary key (\<open>fetchone\<close> on a unique column).\<close>

definition row_at :: "('r \<Rightarrow> 'k) \<Rightarrow> 'k \<Rightarrow> 'r list \<Rightarrow> 'r option" where
  "row_at key k rs = find (\<lambda>r. key r = k) rs"

text \<open>A column declared PRIMARY KEY or UNIQUE NOT NULL.\<close>

definition unique_key :: "('r \<Rightarrow> 'k) \<Rightarrow> 'r list \<Rightarrow> bool" where
  "unique_key key rs \<longleftrightarrow> distinct (map key rs)"

lemma rows_update_Nil [simp]: "rows_update P f [] = []"
  by (simp add: rows_update_def)

lemma rows_update_Cons [simp]:
  "rows_update P f (r # rs) = (if P r then f r else r) # rows_update P f rs"
  by (simp add: rows_update_def)

lemma rows_count_Nil [simp]: "rows_count P [] = 0"
  by (simp add: rows_count_def)

lemma rows_count_Cons [simp]: "rows_count P (r # rs) = (if P r then Suc (rows_count P rs) else rows_count P rs)"
  by (simp add: rows_count_def)

lemma rows_count_0: "rows_count P rs = 0 \<longleftrightarrow> (\<forall>r \<in> set rs. \<not> P r)"
  by (induction rs) auto

lemma rows_count_pos: "0 < rows_count P rs \<longleftrightarrow> (\<exists>r \<in> set rs. P r)"
  using rows_count_0 [of P rs] by (auto simp: not_less [symmetric])

lemma length_rows_update [simp]: "length (rows_update P f rs) = length rs"
  by (simp add: rows_update_def)

lemma in_rows_update:
  "r \<in> set (rows_update P f rs) \<longleftrightarrow> (\<exists>q \<in> set rs. r = (if P q then f q else q))"
  by (auto simp: rows_update_def)

lemma rows_update_id: "(\<And>r. r \<in> set rs \<Longrightarrow> \<not> P r) \<Longrightarrow> rows_update P f rs = rs"
  by (simp add: rows_update_def map_idI)

lemma rows_update_all:
  "(\<And>r. r \<in> set rs \<Longrightarrow> I r) \<Longrightarrow> (\<And>r. I r \<Longrightarrow> P r \<Longrightarrow> J (f r)) \<Longrightarrow> (\<And>r. I r \<Longrightarrow> \<not> P r \<Longrightarrow> J r)
    \<Longrightarrow> r \<in> set (rows_update P f rs) \<Longrightarrow> J r"
  by (auto simp: in_rows_update)

lemma map_key_rows_update:
  "(\<And>r. P r \<Longrightarrow> key (f r) = key r) \<Longrightarrow> map key (rows_update P f rs) = map key rs"
  by (simp add: rows_update_def)

lemma unique_key_rows_update [row_simps]:
  "(\<And>r. P r \<Longrightarrow> key (f r) = key r) \<Longrightarrow> unique_key key (rows_update P f rs) = unique_key key rs"
  by (simp add: unique_key_def map_key_rows_update)

lemma unique_key_delete: "unique_key key rs \<Longrightarrow> unique_key key (rows_delete P rs)"
  by (simp add: unique_key_def rows_delete_def distinct_map_filter)

lemma unique_key_snoc:
  "unique_key key (rs @ [r]) \<longleftrightarrow> unique_key key rs \<and> key r \<notin> key ` set rs"
  by (auto simp: unique_key_def)

lemma row_at_Nil [simp]: "row_at key k [] = None"
  by (simp add: row_at_def)

lemma row_at_Cons [simp]:
  "row_at key k (r # rs) = (if key r = k then Some r else row_at key k rs)"
  by (simp add: row_at_def)

lemma row_at_SomeD: "row_at key k rs = Some r \<Longrightarrow> r \<in> set rs \<and> key r = k"
  by (induction rs) (auto split: if_splits)

lemma row_at_None: "row_at key k rs = None \<longleftrightarrow> k \<notin> key ` set rs"
  by (induction rs) auto

lemma row_at_unique: "unique_key key rs \<Longrightarrow> r \<in> set rs \<Longrightarrow> row_at key (key r) rs = Some r"
  by (induction rs) (auto simp: unique_key_def)

lemma row_at_snoc:
  "row_at key k (rs @ [r]) = (case row_at key k rs of None \<Rightarrow> if key r = k then Some r else None | x \<Rightarrow> x)"
  by (induction rs) auto

lemma row_at_rows_update [row_simps]:
  "(\<And>r. P r \<Longrightarrow> key (f r) = key r) \<Longrightarrow>
    row_at key k (rows_update P f rs) = map_option (\<lambda>r. if P r then f r else r) (row_at key k rs)"
  by (induction rs) auto

lemma unique_key_map [row_simps]:
  "(\<And>r. key (f r) = key r) \<Longrightarrow> unique_key key (map f rs) = unique_key key rs"
  by (simp add: unique_key_def comp_def)

lemma row_at_map [row_simps]:
  "(\<And>r. key (f r) = key r) \<Longrightarrow> row_at key k (map f rs) = map_option f (row_at key k rs)"
  by (induction rs) auto

lemma unique_key_same: "unique_key key rs \<Longrightarrow> a \<in> set rs \<Longrightarrow> b \<in> set rs \<Longrightarrow> key a = key b \<Longrightarrow> a = b"
  by (metis row_at_unique option.inject)

text \<open>An update fenced by the primary key touches at most the row it names.\<close>

lemma rows_count_key:
  assumes "unique_key key rs" and "\<And>r. P r \<Longrightarrow> key r = k"
  shows "rows_count P rs = (case row_at key k rs of None \<Rightarrow> 0 | Some r \<Rightarrow> if P r then 1 else 0)"
  using assms(1)
proof (induction rs)
  case Nil
  then show ?case by simp
next
  case (Cons r rs)
  have "rows_count P rs = 0" if "key r = k"
    using Cons.prems that by (auto simp: rows_count_0 unique_key_def dest!: assms(2)) (metis image_eqI)
  then show ?case
    using Cons assms(2) [of r] by (auto simp: unique_key_def)
qed

subsection \<open>Python's \<open>dict.fromkeys\<close>: duplicates dropped, first occurrences kept in order\<close>

fun dedup :: "'a list \<Rightarrow> 'a list" where
  "dedup [] = []"
| "dedup (x # xs) = x # filter (\<lambda>y. y \<noteq> x) (dedup xs)"

lemma set_dedup [simp]: "set (dedup xs) = set xs"
  by (induction xs) auto

lemma distinct_dedup [simp]: "distinct (dedup xs)"
  by (induction xs) auto

subsection \<open>Steps that may raise\<close>

text \<open>
  \<open>Inl\<close> is the exception raised, \<open>Inr\<close> the value returned; \<open>and_then\<close> runs the rest of a
  block when its first step returned, \<open>each\<close> a fallible step over a list, in order.
\<close>

definition and_then :: "'e + 'a \<Rightarrow> ('a \<Rightarrow> 'e + 'b) \<Rightarrow> 'e + 'b" where
  "and_then r f = (case r of Inl e \<Rightarrow> Inl e | Inr a \<Rightarrow> f a)"

lemma and_then_Inr: "and_then r f = Inr b \<longleftrightarrow> (\<exists>a. r = Inr a \<and> f a = Inr b)"
  by (simp add: and_then_def split: sum.split)

lemma and_then_elim: "and_then r f = Inr b \<Longrightarrow> (\<And>a. r = Inr a \<Longrightarrow> f a = Inr b \<Longrightarrow> P) \<Longrightarrow> P"
  by (auto simp: and_then_Inr)

lemma and_then_simps [simp]: "and_then (Inl e) f = Inl e" "and_then (Inr a) f = f a"
  by (simp_all add: and_then_def)

fun each :: "('a \<Rightarrow> 'e + 'b) \<Rightarrow> 'a list \<Rightarrow> 'e + 'b list" where
  "each f [] = Inr []"
| "each f (x # xs) = and_then (f x) (\<lambda>y. and_then (each f xs) (\<lambda>ys. Inr (y # ys)))"

end
