(* ===== verification/Task_Model.thy ===== *)
theory Task_Model
  imports Ruyi_Prelude
begin

text \<open>
  The persistence-safe models of \<open>task_models.py\<close>: the life cycle states with their
  partition into active and settled, and the records shared by the runtime, the
  stores and the Gateway.  A state is a constructor; \<open>task_state_name\<close> gives the string the
  database and the wire carry.
\<close>

datatype task_state =
    TS_pending | TS_running | TS_waiting_for_human
  | TS_completed | TS_failed | TS_cancelled | TS_interrupted

datatype route_kind = RK_local | RK_remote_ref

datatype route_state = RS_pending | RS_active | RS_failed | RS_uncertain

fun task_state_name :: "task_state \<Rightarrow> pystr" where
  "task_state_name TS_pending = str ''pending''"
| "task_state_name TS_running = str ''running''"
| "task_state_name TS_waiting_for_human = str ''waiting_for_human''"
| "task_state_name TS_completed = str ''completed''"
| "task_state_name TS_failed = str ''failed''"
| "task_state_name TS_cancelled = str ''cancelled''"
| "task_state_name TS_interrupted = str ''interrupted''"

definition active_task_states :: "task_state list" where
  "active_task_states = [TS_pending, TS_running, TS_waiting_for_human]"

definition settled_task_states :: "task_state list" where
  "settled_task_states = [TS_completed, TS_failed, TS_cancelled, TS_interrupted]"

definition task_states :: "task_state list" where
  "task_states = active_task_states @ settled_task_states"

definition executing_task_states :: "task_state list" where
  "executing_task_states = filter (\<lambda>s. s \<noteq> TS_waiting_for_human) active_task_states"

definition resumable_task_states :: "task_state list" where
  "resumable_task_states = settled_task_states"

text \<open>The names order the states, as \<open>sorted(TASK_STATES)\<close> does in the error message.\<close>

lemma task_state_name_inject [simp]: "task_state_name s = task_state_name t \<longleftrightarrow> s = t"
  by (cases s; cases t) auto

instantiation task_state :: linorder
begin

definition less_eq_task_state :: "task_state \<Rightarrow> task_state \<Rightarrow> bool" where
  "s \<le> t \<longleftrightarrow> task_state_name s \<le> task_state_name t"

definition less_task_state :: "task_state \<Rightarrow> task_state \<Rightarrow> bool" where
  "s < t \<longleftrightarrow> task_state_name s < task_state_name t"

instance
  by standard (auto simp: less_eq_task_state_def less_task_state_def less_le)

end

definition task_state_of_name :: "pystr \<Rightarrow> task_state option" where
  "task_state_of_name n = find (\<lambda>s. task_state_name s = n) task_states"

definition parse_task_state :: "pystr \<Rightarrow> pyval \<Rightarrow> py_error + task_state" where
  "parse_task_state path value =
     (let allowed = join (str '', '') (map task_state_name (sort task_states));
          err = ValueError (path @ str '' must be one of: '' @ allowed)
      in case value of
           PStr s \<Rightarrow> (case task_state_of_name s of None \<Rightarrow> Inl err | Some st \<Rightarrow> Inr st)
         | _ \<Rightarrow> Inl err)"

record artifact =
  af_artifact_id :: pystr
  af_path :: pystr
  af_name :: pystr
  af_caption :: "pystr option"
  af_content_type :: pystr
  af_size :: int
  af_run_count :: int

record task_record =
  tk_task_id :: pystr
  tk_agent_name :: pystr
  tk_state :: task_state
  tk_thread_id :: pystr
  tk_parent_task_id :: "pystr option"
  tk_root_task_id :: pystr
  tk_depth :: int
  tk_created_at :: int
  tk_updated_at :: int
  tk_result :: "pystr option"
  tk_error :: "pystr option"
  tk_run_count :: int
  tk_route_kind :: route_kind
  tk_upstream_task_id :: "pystr option"
  tk_parent_thread_id :: "pystr option"
  tk_mailbox_suppressed :: bool
  tk_mailbox_delivered :: bool
  tk_webhook :: "pydict option"
  tk_delegation_root_id :: "pystr option"
  tk_delegation_max_depth :: "int option"
  tk_delegation_max_tasks_per_root :: "int option"
  tk_delegation_visited_nodes :: "pystr list"
  tk_permission_profile :: pystr
  tk_effective_skill_names :: "pystr list"
  tk_skill_view_path :: "pystr option"
  tk_skill_view_hash :: "pystr option"
  tk_pending_review :: "pydict option"
  tk_artifacts :: "artifact list"
  tk_external_operation :: "pystr option"
  tk_external_operation_identity :: "pystr option"
  tk_external_operation_run_count :: "int option"
  tk_external_outcome_uncertain :: bool
  tk_mailbox_wakeup_sequence :: int

record review_record =
  rv_review_id :: pystr
  rv_task_id :: pystr
  rv_root_task_id :: pystr
  rv_payload :: pydict
  rv_created_at :: int
  rv_updated_at :: int
  rv_ingest_sequence :: int
  rv_cursor_order_updated_at :: "int option"

record route_record =
  rt_task_id :: pystr
  rt_agent_name :: pystr
  rt_metadata :: pydict
  rt_route_kind :: route_kind
  rt_upstream_task_id :: "pystr option"
  rt_webhook :: "pydict option"
  rt_route_state :: route_state
  rt_route_error :: "pystr option"
  rt_created_at :: int
  rt_updated_at :: int

subsection \<open>The states are partitioned and their names parse back\<close>

lemma task_states_complete [simp]: "s \<in> set task_states"
  by (cases s) (simp_all add: task_states_def active_task_states_def settled_task_states_def)

lemma settled_iff_not_active: "s \<in> set settled_task_states \<longleftrightarrow> s \<notin> set active_task_states"
  by (cases s) (simp_all add: active_task_states_def settled_task_states_def)

lemma task_state_of_name_name [simp]: "task_state_of_name (task_state_name s) = Some s"
  by (cases s) (simp_all add: task_state_of_name_def task_states_def active_task_states_def
    settled_task_states_def)

lemma task_state_of_name_SomeD: "task_state_of_name n = Some s \<Longrightarrow> task_state_name s = n"
  by (auto simp: task_state_of_name_def find_Some_iff)

text \<open>
  Parsing a persisted or transported task state accepts exactly the seven canonical
  names, returns the state of that name, and rejects every other value (a wrong
  string or a non-string) with a ValueError that names the field.
\<close>

theorem parse_task_state_correct:
  "parse_task_state path v = Inr s \<longleftrightarrow> v = PStr (task_state_name s)"
  by (auto simp: parse_task_state_def Let_def dest: task_state_of_name_SomeD
      split: pyval.splits option.splits)

end
