(* ===== verification/Shell_Lexer.thy ===== *)
theory Shell_Lexer
  imports Ruyi_Prelude
begin

text \<open>
  What \<open>control_plane/permissions.py\<close> uses of the standard library to read a shell command:
  \<open>shlex.split\<close> (POSIX mode, no comment characters, \<open>whitespace_split\<close>) as the
  character machine of \<open>shlex.read_token\<close>, and the search for a pattern in a string.
\<close>

definition backslash :: nat where "backslash = 92"
definition squote :: nat where "squote = 39"
definition dquote :: nat where "dquote = 34"

definition sh_whitespace :: "nat list" where
  "sh_whitespace = [32, 9, 13, 10]"

datatype sh_escape = Esc_word | Esc_quote nat

datatype sh_state = Sh_space | Sh_word | Sh_quote nat | Sh_escape sh_escape

definition emit :: "pystr \<Rightarrow> pystr + pystr list \<Rightarrow> pystr + pystr list" where
  "emit tok r = (case r of Inl e \<Rightarrow> Inl e | Inr toks \<Rightarrow> Inr (tok # toks))"

text \<open>
  \<open>sh_read st tok quoted cs\<close>: the lexer in state \<open>st\<close> with the token read so far, whether
  a quote was seen in it, and the rest of the input.  An error discards the tokens
  already read, since \<open>list(lex)\<close> raises.
\<close>

fun sh_read :: "sh_state \<Rightarrow> pystr \<Rightarrow> bool \<Rightarrow> pystr \<Rightarrow> pystr + pystr list" where
  "sh_read (Sh_quote q) tok quoted [] = Inl (str ''No closing quotation'')"
| "sh_read (Sh_escape e) tok quoted [] = Inl (str ''No escaped character'')"
| "sh_read st tok quoted [] = Inr (if tok \<noteq> [] \<or> quoted then [tok] else [])"
| "sh_read Sh_space tok quoted (c # cs) =
     (if c \<in> set sh_whitespace then
        if tok \<noteq> [] \<or> quoted then emit tok (sh_read Sh_space [] False cs)
        else sh_read Sh_space tok quoted cs
      else if c = backslash then sh_read (Sh_escape Esc_word) tok quoted cs
      else if c = squote \<or> c = dquote then sh_read (Sh_quote c) tok quoted cs
      else sh_read Sh_word [c] quoted cs)"
| "sh_read (Sh_quote q) tok quoted (c # cs) =
     (if c = q then sh_read Sh_word tok True cs
      else if c = backslash \<and> q = dquote then sh_read (Sh_escape (Esc_quote q)) tok True cs
      else sh_read (Sh_quote q) (tok @ [c]) True cs)"
| "sh_read (Sh_escape Esc_word) tok quoted (c # cs) = sh_read Sh_word (tok @ [c]) quoted cs"
| "sh_read (Sh_escape (Esc_quote q)) tok quoted (c # cs) =
     sh_read (Sh_quote q) (if c \<noteq> backslash \<and> c \<noteq> q then tok @ [backslash, c] else tok @ [c])
       quoted cs"
| "sh_read Sh_word tok quoted (c # cs) =
     (if c \<in> set sh_whitespace then
        if tok \<noteq> [] \<or> quoted then emit tok (sh_read Sh_space [] False cs)
        else sh_read Sh_space tok quoted cs
      else if c = squote \<or> c = dquote then sh_read (Sh_quote c) tok quoted cs
      else if c = backslash then sh_read (Sh_escape Esc_word) tok quoted cs
      else sh_read Sh_word (tok @ [c]) quoted cs)"

definition shlex_split :: "pystr \<Rightarrow> pystr + pystr list" where
  "shlex_split s = sh_read Sh_space [] False s"

text \<open>\<open>p in s\<close> for strings.\<close>

fun occurs_in :: "pystr \<Rightarrow> pystr \<Rightarrow> bool" where
  "occurs_in p [] = (p = [])"
| "occurs_in p (c # cs) = (take (length p) (c # cs) = p \<or> occurs_in p cs)"

lemma occurs_in_iff: "occurs_in p s \<longleftrightarrow> (\<exists>u v. s = u @ p @ v)"
proof (induction s)
  case Nil
  then show ?case by auto
next
  case (Cons c s)
  have head: "take (length p) (c # s) = p \<longleftrightarrow> (\<exists>v. c # s = p @ v)"
    by (metis append_eq_conv_conj append_take_drop_id)
  have tail: "(\<exists>u v. c # s = (c # u) @ p @ v) \<longleftrightarrow> (\<exists>u v. s = u @ p @ v)"
    by simp
  show ?case
    unfolding occurs_in.simps head Cons.IH
    by (metis append_Cons append_Nil neq_Nil_conv list.inject)
qed

subsection \<open>Facts about the lexer\<close>

definition plain_char :: "nat \<Rightarrow> bool" where
  "plain_char c \<longleftrightarrow> c \<notin> set sh_whitespace \<and> c \<noteq> backslash \<and> c \<noteq> squote \<and> c \<noteq> dquote"

lemma sh_read_plain:
  "\<forall>c \<in> set w. plain_char c \<Longrightarrow> sh_read Sh_word tok q (w @ cs) = sh_read Sh_word (tok @ w) q cs"
  by (induction w arbitrary: tok) (auto simp: plain_char_def)

text \<open>A command of plain words separated by single spaces splits into exactly those words.\<close>

lemma sh_read_words:
  assumes "\<forall>w \<in> set ws. w \<noteq> [] \<and> (\<forall>c \<in> set w. plain_char c)"
  shows "sh_read Sh_space [] False (join [32] ws) = Inr ws"
  using assms
proof (induction ws)
  case Nil
  then show ?case by (simp add: join_def)
next
  case (Cons w ws)
  obtain c cs where w: "w = c # cs"
    using Cons.prems by (cases w) auto
  have p: "plain_char c" "\<forall>c \<in> set cs. plain_char c"
    using Cons.prems w by auto
  have first: "sh_read Sh_space [] False (w @ rest) = sh_read Sh_word w False rest" for rest
    using p sh_read_plain [of cs "[c]" False rest] by (simp add: w plain_char_def)
  show ?case
  proof (cases ws)
    case Nil
    then show ?thesis
      using first [of "[]"] w by (simp add: join_def)
  next
    case (Cons v vs)
    have split: "join [32] (w # ws) = w @ 32 # join [32] ws"
      by (simp add: Cons join_def)
    have rest: "sh_read Sh_space [] False (join [32] ws) = Inr ws"
      using Cons.IH Cons.prems by simp
    have "w \<noteq> []"
      by (simp add: w)
    then show ?thesis
      unfolding split first by (simp add: rest sh_whitespace_def emit_def)
  qed
qed

end
