(* ===== verification/Permission_Policy.thy ===== *)
theory Permission_Policy
  imports Shell_Lexer
begin

text \<open>
  The permission policy of \<open>control_plane/permissions.py\<close>: the analysis of an \<open>execute\<close>
  command, the risk labels and the three-layer evaluation (deny prefix rules, risks that
  need review, remaining prefix rules and defaults).  The decisions are ordered by
  strictness, allow below require-approval below deny.
\<close>

datatype permission_decision = PD_allow | PD_require_approval | PD_deny

fun decision_value :: "permission_decision \<Rightarrow> pystr" where
  "decision_value PD_allow = str ''allow''"
| "decision_value PD_require_approval = str ''require_approval''"
| "decision_value PD_deny = str ''deny''"

fun strictness :: "permission_decision \<Rightarrow> nat" where
  "strictness PD_allow = 0"
| "strictness PD_require_approval = 1"
| "strictness PD_deny = 2"

instantiation permission_decision :: linorder
begin

definition less_eq_permission_decision :: "permission_decision \<Rightarrow> permission_decision \<Rightarrow> bool" where
  "d \<le> e \<longleftrightarrow> strictness d \<le> strictness e"

definition less_permission_decision :: "permission_decision \<Rightarrow> permission_decision \<Rightarrow> bool" where
  "d < e \<longleftrightarrow> strictness d < strictness e"

instance
proof
  fix d e :: permission_decision
  show "d \<le> e \<Longrightarrow> e \<le> d \<Longrightarrow> d = e"
    by (cases d; cases e) (simp_all add: less_eq_permission_decision_def)
qed (auto simp: less_eq_permission_decision_def less_permission_decision_def)

end

lemma deny_greatest [simp]: "d \<le> PD_deny"
  by (cases d) (simp_all add: less_eq_permission_decision_def)

lemma allow_least [simp]: "PD_allow \<le> d"
  by (cases d) (simp_all add: less_eq_permission_decision_def)

record tool_permission =
  tp_policy :: permission_decision
  tp_allowed_decisions :: "pystr list"
  tp_description :: "pystr option"

record execute_rule =
  er_match :: "pystr list"
  er_policy :: permission_decision
  er_allowed_decisions :: "pystr list"
  er_description :: "pystr option"

record permission_profile =
  pp_name :: pystr
  pp_description :: "pystr option"
  pp_tools :: "(pystr \<times> tool_permission) list"
  pp_execute_rules :: "execute_rule list"
  pp_execute_review_risks :: "pystr list option"

record permission_config =
  pc_default_profile :: pystr
  pc_profiles :: "(pystr \<times> permission_profile) list"

record permission_context =
  px_agent_name :: "pystr option"
  px_profile_name :: "pystr option"
  px_backend_kind :: pystr
  px_workspace_root :: pystr
  px_thread_id :: "pystr option"
  px_task_id :: "pystr option"

record permission_result =
  pr_decision :: permission_decision
  pr_allowed_decisions :: "pystr list"
  pr_reason :: pystr
  pr_risk :: pystr
  pr_profile_name :: "pystr option"

record command_analysis =
  ca_command :: pystr
  ca_tokens :: "pystr list"
  ca_parse_error :: "pystr option"
  ca_has_shell_control :: bool

definition default_allowed_decisions :: "pystr list" where
  "default_allowed_decisions = [str ''approve'', str ''edit'', str ''reject'']"

definition shell_control_patterns :: "pystr list" where
  "shell_control_patterns =
     [str ''||'', str ''&&'', str '';'', str ''|'', str ''>>'', str ''>'', str ''<'', str ''$('', [96]]"

definition shell_control_tokens :: "pystr list" where
  "shell_control_tokens =
     [str ''||'', str ''&&'', str '';'', str ''|'', str ''>>'', str ''>'', str ''<'']"

definition normal_allowed_decisions :: "pystr list \<Rightarrow> pystr list" where
  "normal_allowed_decisions values = (if values = [] then default_allowed_decisions else values)"

definition analyze_command :: "pyval \<Rightarrow> command_analysis" where
  "analyze_command command =
     (case command of
        PStr s \<Rightarrow>
          let has_shell_control = list_ex (\<lambda>p. occurs_in p s) shell_control_patterns
          in (case shlex_split s of
                Inl e \<Rightarrow> \<lparr>ca_command = s, ca_tokens = [], ca_parse_error = Some e,
                          ca_has_shell_control = has_shell_control\<rparr>
              | Inr tokens \<Rightarrow> \<lparr>ca_command = s, ca_tokens = tokens, ca_parse_error = None,
                               ca_has_shell_control = has_shell_control\<rparr>)
      | _ \<Rightarrow> \<lparr>ca_command = [], ca_tokens = [],
              ca_parse_error = Some (str ''command must be a string''),
              ca_has_shell_control = False\<rparr>)"

definition matches_prefix :: "pystr list \<Rightarrow> pystr list \<Rightarrow> bool" where
  "matches_prefix tokens prefix =
     (if prefix = [] \<or> length tokens < length prefix then False
      else take (length prefix) tokens = prefix)"

fun segments_from :: "pystr list \<Rightarrow> pystr list \<Rightarrow> pystr list list" where
  "segments_from current [] = (if current \<noteq> [] then [current] else [])"
| "segments_from current (token # tokens) =
     (if token \<in> set shell_control_tokens then
        if current \<noteq> [] then current # segments_from [] tokens
        else segments_from current tokens
      else segments_from (current @ [token]) tokens)"

definition command_segments :: "pystr list \<Rightarrow> pystr list list" where
  "command_segments tokens = segments_from [] tokens"

definition matches_deny_rule :: "command_analysis \<Rightarrow> execute_rule \<Rightarrow> bool" where
  "matches_deny_rule analysis rule =
     (if matches_prefix (ca_tokens analysis) (er_match rule) then True
      else if \<not> ca_has_shell_control analysis then False
      else list_ex (\<lambda>segment. matches_prefix segment (er_match rule))
             (command_segments (ca_tokens analysis)))"

definition risk_requires_review :: "permission_profile \<Rightarrow> pystr \<Rightarrow> bool" where
  "risk_requires_review profile risk =
     (case pp_execute_review_risks profile of None \<Rightarrow> True | Some risks \<Rightarrow> risk \<in> set risks)"

definition detect_risk :: "command_analysis \<Rightarrow> pystr option" where
  "detect_risk analysis =
     (let tokens = ca_tokens analysis in
      if nonempty_opt (ca_parse_error analysis) then Some (str ''command_parse_error'')
      else if ca_has_shell_control analysis then Some (str ''shell_control_operator'')
      else if tokens = [] then Some (str ''empty_command'')
      else if hd tokens = str ''sudo'' then Some (str ''privilege_escalation'')
      else if take 3 tokens = [str ''git'', str ''reset'', str ''--hard'']
        then Some (str ''git_destructive'')
      else if take 2 tokens = [str ''git'', str ''clean''] then Some (str ''git_destructive'')
      else if hd tokens = str ''rm'' \<or> hd tokens = str ''rmdir''
        then Some (str ''destructive_filesystem'')
      else if (hd tokens = str ''chmod'' \<or> hd tokens = str ''chown'') \<and> str ''-R'' \<in> set tokens
        then Some (str ''recursive_permission_change'')
      else if take 2 tokens \<in> {[str ''pip'', str ''install''], [str ''npm'', str ''install''],
                              [str ''uv'', str ''add'']}
        then Some (str ''dependency_install'')
      else None)"

text \<open>\<open>x.description or fallback\<close>.\<close>

definition or_str :: "pystr option \<Rightarrow> pystr \<Rightarrow> pystr" where
  "or_str x fallback = (case x of None \<Rightarrow> fallback | Some s \<Rightarrow> if s = [] then fallback else s)"

text \<open>The last layer: the first matching prefix rule that is no deny rule, else the default.\<close>

definition evaluate_rules ::
  "command_analysis \<Rightarrow> permission_profile \<Rightarrow> tool_permission \<Rightarrow> pystr \<Rightarrow> permission_result" where
  "evaluate_rules analysis profile tool_config profile_name =
     (case find (\<lambda>rule. er_policy rule \<noteq> PD_deny \<and>
              matches_prefix (ca_tokens analysis) (er_match rule)) (pp_execute_rules profile) of
        Some rule \<Rightarrow>
          \<lparr>pr_decision = er_policy rule,
           pr_allowed_decisions = normal_allowed_decisions
             (if er_allowed_decisions rule \<noteq> [] then er_allowed_decisions rule
              else tp_allowed_decisions tool_config),
           pr_reason = or_str (er_description rule)
             (str ''execute command matched prefix rule: '' @ join (str '' '') (er_match rule)),
           pr_risk = str ''execute_prefix_rule'', pr_profile_name = Some profile_name\<rparr>
      | None \<Rightarrow>
          \<lparr>pr_decision = tp_policy tool_config,
           pr_allowed_decisions = normal_allowed_decisions (tp_allowed_decisions tool_config),
           pr_reason = or_str (tp_description tool_config)
             (str ''execute default policy: '' @ decision_value (tp_policy tool_config)),
           pr_risk = str ''execute_default'', pr_profile_name = Some profile_name\<rparr>)"

definition evaluate_execute ::
  "pydict \<Rightarrow> permission_profile \<Rightarrow> tool_permission \<Rightarrow> pystr \<Rightarrow> permission_result" where
  "evaluate_execute tool_args profile tool_config profile_name =
     (let analysis = analyze_command (dict_get (str ''command'') tool_args) in
      case find (\<lambda>rule. er_policy rule = PD_deny \<and> matches_deny_rule analysis rule)
             (pp_execute_rules profile) of
        Some rule \<Rightarrow>
          \<lparr>pr_decision = PD_deny, pr_allowed_decisions = [],
           pr_reason = or_str (er_description rule)
             (str ''execute command matched a deny prefix rule''),
           pr_risk = str ''execute_deny_rule'', pr_profile_name = Some profile_name\<rparr>
      | None \<Rightarrow>
          (case detect_risk analysis of
             Some risk \<Rightarrow>
               if risk_requires_review profile risk then
                 \<lparr>pr_decision = PD_require_approval,
                  pr_allowed_decisions =
                    normal_allowed_decisions (tp_allowed_decisions tool_config),
                  pr_reason = str ''execute command requires review: '' @ risk,
                  pr_risk = risk, pr_profile_name = Some profile_name\<rparr>
               else evaluate_rules analysis profile tool_config profile_name
           | None \<Rightarrow> evaluate_rules analysis profile tool_config profile_name))"

definition resolve_profile_name :: "permission_config \<Rightarrow> pystr option \<Rightarrow> pystr" where
  "resolve_profile_name config profile_name =
     (case profile_name of
        Some n \<Rightarrow> if n \<noteq> [] \<and> map_of (pc_profiles config) n \<noteq> None then n
                  else pc_default_profile config
      | None \<Rightarrow> pc_default_profile config)"

text \<open>
  \<open>evaluate\<close> raises KeyError when the profile finally chosen is missing: only the default
  profile can be, since any other name was found in the table.
\<close>

definition select_tool_config :: "permission_profile \<Rightarrow> pystr \<Rightarrow> tool_permission" where
  "select_tool_config profile tool_name =
     (case map_of (pp_tools profile) tool_name of
        Some c \<Rightarrow> c
      | None \<Rightarrow>
          (case map_of (pp_tools profile) (str ''default'') of
             Some c \<Rightarrow> c
           | None \<Rightarrow> \<lparr>tp_policy = PD_require_approval,
                       tp_allowed_decisions = default_allowed_decisions,
                       tp_description = None\<rparr>))"

definition evaluate_tool ::
  "permission_config \<Rightarrow> pystr \<Rightarrow> pydict \<Rightarrow> permission_context \<Rightarrow> py_error + permission_result"
where
  "evaluate_tool config tool_name tool_args context =
     (let profile_name = resolve_profile_name config (px_profile_name context) in
      case map_of (pc_profiles config) profile_name of
        None \<Rightarrow> Inl (KeyError profile_name)
      | Some profile \<Rightarrow>
          (let tool_config = select_tool_config profile tool_name in
           if tool_name = str ''execute'' then
             Inr (evaluate_execute tool_args profile tool_config profile_name)
           else
             Inr \<lparr>pr_decision = tp_policy tool_config,
                  pr_allowed_decisions =
                    normal_allowed_decisions (tp_allowed_decisions tool_config),
                  pr_reason = or_str (tp_description tool_config)
                    (str ''tool policy for '' @ tool_name @ str '': ''
                       @ decision_value (tp_policy tool_config)),
                  pr_risk = str ''tool_policy'', pr_profile_name = Some profile_name\<rparr>))"

subsection \<open>Command segments\<close>

lemma concat_segments_from:
  "concat (segments_from cur ts) = cur @ filter (\<lambda>t. t \<notin> set shell_control_tokens) ts"
  by (induction cur ts rule: segments_from.induct) auto

lemma segments_from_parts:
  "list_all (\<lambda>t. t \<notin> set shell_control_tokens) cur \<Longrightarrow>
   list_all (\<lambda>seg. seg \<noteq> [] \<and> list_all (\<lambda>t. t \<notin> set shell_control_tokens) seg)
     (segments_from cur ts)"
  by (induction ts arbitrary: cur) simp_all

lemma segments_from_mid:
  assumes "c \<in> set shell_control_tokens"
  shows "segments_from cur (ts @ c # us) = segments_from cur ts @ segments_from [] us"
  using assms by (induction cur ts rule: segments_from.induct) auto

lemma segments_from_word:
  "\<forall>t \<in> set ts. t \<notin> set shell_control_tokens \<Longrightarrow>
     segments_from cur ts = (if cur @ ts = [] then [] else [cur @ ts])"
  by (induction ts arbitrary: cur) auto

subsection \<open>The layers of the evaluation\<close>

lemma find_None_list_ex: "find P xs = None \<longleftrightarrow> \<not> list_ex P xs"
  by (induction xs) auto

lemma find_Some_list_ex: "find P xs = Some x \<Longrightarrow> list_ex P xs"
  by (induction xs) (auto split: if_splits)

lemma find_SomeD: "find P xs = Some x \<Longrightarrow> x \<in> set xs \<and> P x"
  by (induction xs) (auto split: if_splits)

definition deny_hit :: "permission_profile \<Rightarrow> command_analysis \<Rightarrow> bool" where
  "deny_hit profile analysis =
     list_ex (\<lambda>rule. er_policy rule = PD_deny \<and> matches_deny_rule analysis rule)
       (pp_execute_rules profile)"

definition review_hit :: "permission_profile \<Rightarrow> command_analysis \<Rightarrow> bool" where
  "review_hit profile analysis =
     (case detect_risk analysis of None \<Rightarrow> False | Some risk \<Rightarrow> risk_requires_review profile risk)"

text \<open>The decision of \<open>evaluate_execute\<close>, layer by layer.\<close>

lemma decision_layers:
  "pr_decision (evaluate_execute args profile tc pn) =
     (let a = analyze_command (dict_get (str ''command'') args) in
      if deny_hit profile a then PD_deny
      else if review_hit profile a then PD_require_approval
      else pr_decision (evaluate_rules a profile tc pn))"
  by (simp add: evaluate_execute_def deny_hit_def review_hit_def Let_def find_None_list_ex
        find_Some_list_ex split: option.split)

lemma rules_decision_cases:
  "pr_decision (evaluate_rules a profile tc pn) = tp_policy tc \<or>
   (\<exists>rule \<in> set (pp_execute_rules profile). er_policy rule \<noteq> PD_deny \<and>
      matches_prefix (ca_tokens a) (er_match rule) \<and>
      pr_decision (evaluate_rules a profile tc pn) = er_policy rule)"
  by (auto simp: evaluate_rules_def dest!: find_SomeD split: option.splits)

lemma join_occurs: "w \<in> set ws \<Longrightarrow> occurs_in w (join sep ws)"
proof -
  assume "w \<in> set ws"
  then obtain us vs where "ws = us @ w # vs"
    by (auto simp: in_set_conv_decomp)
  then show ?thesis
  proof (cases us)
    case Nil
    with \<open>ws = us @ w # vs\<close> show ?thesis
      by (auto simp: join_def occurs_in_iff)
  next
    case (Cons u us')
    with \<open>ws = us @ w # vs\<close>
    have "join sep ws = (u @ concat (map (\<lambda>z. sep @ z) us') @ sep) @ w @ concat (map (\<lambda>z. sep @ z) vs)"
      by (simp add: join_def)
    then show ?thesis
      unfolding occurs_in_iff by blast
  qed
qed

definition plain_words :: "pystr list \<Rightarrow> bool" where
  "plain_words ws \<longleftrightarrow> (\<forall>w \<in> set ws. w \<noteq> [] \<and> (\<forall>c \<in> set w. plain_char c))"

text \<open>The analysis of a command made of plain words and single spaces.\<close>

lemma analyze_plain_words:
  assumes "plain_words ws"
  shows "analyze_command (PStr (join [32] ws)) =
    \<lparr>ca_command = join [32] ws, ca_tokens = ws, ca_parse_error = None,
     ca_has_shell_control = list_ex (\<lambda>p. occurs_in p (join [32] ws)) shell_control_patterns\<rparr>"
  using assms sh_read_words [of ws]
  by (simp add: analyze_command_def shlex_split_def plain_words_def Let_def)

lemma control_tokens_are_patterns: "set shell_control_tokens \<subseteq> set shell_control_patterns"
  by (auto simp: shell_control_tokens_def shell_control_patterns_def)

lemma deny_hit_decides:
  assumes "rule \<in> set (pp_execute_rules profile)" and "er_policy rule = PD_deny"
    and "matches_deny_rule (analyze_command (dict_get (str ''command'') args)) rule"
  shows "pr_decision (evaluate_execute args profile tc pn) = PD_deny"
proof -
  have "deny_hit profile (analyze_command (dict_get (str ''command'') args))"
    using assms by (auto simp: deny_hit_def list_ex_iff)
  then show ?thesis
    by (simp add: decision_layers Let_def)
qed

subsection \<open>Properties\<close>

text \<open>
  C9. A matching deny rule decides: whatever the other rules, the risk settings and the
  default of the profile are, an execute command that a deny rule matches (as a whole or,
  with a shell operator, in a segment) is denied and offers the reviewer no decision.
\<close>

theorem deny_rule_precedence:
  assumes "rule \<in> set (pp_execute_rules profile)" and "er_policy rule = PD_deny"
    and "matches_deny_rule (analyze_command (dict_get (str ''command'') args)) rule"
  shows "pr_decision (evaluate_execute args profile tc pn) = PD_deny \<and>
         pr_allowed_decisions (evaluate_execute args profile tc pn) = []"
proof -
  let ?P = "\<lambda>rule. er_policy rule = PD_deny \<and>
    matches_deny_rule (analyze_command (dict_get (str ''command'') args)) rule"
  have "list_ex ?P (pp_execute_rules profile)"
    using assms by (auto simp: list_ex_iff)
  then obtain r where "find ?P (pp_execute_rules profile) = Some r"
    using find_None_list_ex by fastforce
  then show ?thesis
    by (simp add: evaluate_execute_def Let_def)
qed

text \<open>
  C13. Nothing is allowed by accident: an execute command is allowed only when no deny rule
  matches it, every risk found in it is one the profile exempts from review, and the
  permission comes from an allow rule whose tokens start the command or from an
  allowing default.
\<close>

theorem execute_allow_sound:
  assumes "pr_decision (evaluate_execute args profile tc pn) = PD_allow"
    and "a = analyze_command (dict_get (str ''command'') args)"
  shows "(\<forall>rule \<in> set (pp_execute_rules profile).
            er_policy rule = PD_deny \<longrightarrow> \<not> matches_deny_rule a rule)
       \<and> (\<forall>risk. detect_risk a = Some risk \<longrightarrow>
            (\<exists>risks. pp_execute_review_risks profile = Some risks \<and> risk \<notin> set risks))
       \<and> (tp_policy tc = PD_allow \<or>
          (\<exists>rule \<in> set (pp_execute_rules profile). er_policy rule = PD_allow \<and>
             er_match rule \<noteq> [] \<and> take (length (er_match rule)) (ca_tokens a) = er_match rule))"
proof -
  have no_deny: "\<not> deny_hit profile a" and no_review: "\<not> review_hit profile a"
    and rules: "pr_decision (evaluate_rules a profile tc pn) = PD_allow"
    using assms by (auto simp: decision_layers Let_def split: if_splits)
  from no_deny have "\<forall>rule \<in> set (pp_execute_rules profile).
      er_policy rule = PD_deny \<longrightarrow> \<not> matches_deny_rule a rule"
    by (auto simp: deny_hit_def list_ex_iff)
  moreover from no_review have "\<forall>risk. detect_risk a = Some risk \<longrightarrow>
      (\<exists>risks. pp_execute_review_risks profile = Some risks \<and> risk \<notin> set risks)"
    by (auto simp: review_hit_def risk_requires_review_def split: option.splits)
  moreover from rules rules_decision_cases [of a profile tc pn]
  have "tp_policy tc = PD_allow \<or> (\<exists>rule \<in> set (pp_execute_rules profile).
      er_policy rule = PD_allow \<and> matches_prefix (ca_tokens a) (er_match rule))"
    by auto
  ultimately show ?thesis
    by (auto simp: matches_prefix_def split: if_splits)
qed

text \<open>
  Under a profile that reviews every risk, an allowed command is a string that splits
  into at least one token, holds no shell operator anywhere in its text and does not
  start with a privileged or destructive program.
\<close>

theorem strict_profile_allows_only_plain_commands:
  assumes "pr_decision (evaluate_execute args profile tc pn) = PD_allow"
    and "pp_execute_review_risks profile = None"
  shows "\<exists>s t ts. dict_get (str ''command'') args = PStr s \<and> shlex_split s = Inr (t # ts)
       \<and> (\<forall>p \<in> set shell_control_patterns. \<nexists>u v. s = u @ p @ v)
       \<and> t \<notin> {str ''sudo'', str ''rm'', str ''rmdir''}
       \<and> (t = str ''git'' \<longrightarrow> take 1 ts \<noteq> [str ''clean''] \<and>
            take 2 ts \<noteq> [str ''reset'', str ''--hard''])
       \<and> (t \<in> {str ''chmod'', str ''chown''} \<longrightarrow> str ''-R'' \<notin> set ts)"
proof -
  let ?a = "analyze_command (dict_get (str ''command'') args)"
  have "detect_risk ?a = None"
    using execute_allow_sound [OF assms(1) refl] assms(2) by (cases "detect_risk ?a") auto
  then have err: "\<not> nonempty_opt (ca_parse_error ?a)" and ctl: "\<not> ca_has_shell_control ?a"
    and toks: "ca_tokens ?a \<noteq> []"
    and hd: "hd (ca_tokens ?a) \<notin> {str ''sudo'', str ''rm'', str ''rmdir''}"
    and git: "take 3 (ca_tokens ?a) \<noteq> [str ''git'', str ''reset'', str ''--hard'']"
      "take 2 (ca_tokens ?a) \<noteq> [str ''git'', str ''clean'']"
    and mode: "\<not> ((hd (ca_tokens ?a) = str ''chmod'' \<or> hd (ca_tokens ?a) = str ''chown'') \<and>
      str ''-R'' \<in> set (ca_tokens ?a))"
    by (auto simp: detect_risk_def Let_def split: if_splits)
  obtain s where s: "dict_get (str ''command'') args = PStr s"
    using err by (cases "dict_get (str ''command'') args") (auto simp: analyze_command_def)
  have "shlex_split s = Inr (ca_tokens ?a)"
    using s toks by (auto simp: analyze_command_def Let_def split: sum.splits)
  then obtain t ts where split: "shlex_split s = Inr (t # ts)" and t: "ca_tokens ?a = t # ts"
    using toks by (cases "ca_tokens ?a") auto
  have "\<not> list_ex (\<lambda>p. occurs_in p s) shell_control_patterns"
    using ctl s split by (simp add: analyze_command_def Let_def)
  then show ?thesis
    using s split hd git mode unfolding t
    by (intro exI [of _ s] exI [of _ t] exI [of _ ts])
      (auto simp: list_ex_iff occurs_in_iff numeral_eq_Suc)
qed

text \<open>
  Adding a deny rule anywhere in a profile never relaxes a decision.
\<close>

theorem deny_rule_monotone:
  assumes "er_policy rule = PD_deny" and "pp_execute_rules profile = xs @ ys"
  shows "pr_decision (evaluate_execute args profile tc pn)
       \<le> pr_decision (evaluate_execute args (profile\<lparr>pp_execute_rules := xs @ rule # ys\<rparr>) tc pn)"
proof -
  let ?p = "profile\<lparr>pp_execute_rules := xs @ rule # ys\<rparr>"
  have find_skip: "\<not> P rule \<Longrightarrow> find P (xs @ rule # ys) = find P (xs @ ys)" for P
    by (induction xs) auto
  have "evaluate_rules a ?p tc pn = evaluate_rules a profile tc pn" for a
    using assms by (simp add: evaluate_rules_def find_skip)
  moreover have "review_hit ?p a = review_hit profile a" for a
    by (simp add: review_hit_def risk_requires_review_def split: option.split)
  moreover have "deny_hit profile a \<Longrightarrow> deny_hit ?p a" for a
    using assms by (auto simp: deny_hit_def)
  ultimately show ?thesis
    by (auto simp: decision_layers Let_def)
qed

text \<open>
  A deny rule reaches every segment of a command line whose operators stand between
  spaces: for a command of plain words, if the words between two shell control tokens
  start with the rule's tokens the command is denied.
\<close>

theorem spaced_segment_denied:
  assumes "plain_words ws" and "op \<in> set ws" and "op \<in> set shell_control_tokens"
    and "seg \<in> set (command_segments ws)" and "matches_prefix seg (er_match rule)"
    and "rule \<in> set (pp_execute_rules profile)" and "er_policy rule = PD_deny"
  shows "pr_decision (evaluate_execute [(str ''command'', PStr (join [32] ws))] profile tc pn)
       = PD_deny"
proof -
  let ?args = "[(str ''command'', PStr (join [32] ws))]"
  let ?a = "analyze_command (dict_get (str ''command'') ?args)"
  have a: "?a = \<lparr>ca_command = join [32] ws, ca_tokens = ws, ca_parse_error = None,
     ca_has_shell_control = list_ex (\<lambda>p. occurs_in p (join [32] ws)) shell_control_patterns\<rparr>"
    using analyze_plain_words [OF assms(1)] by (simp add: dict_get_def)
  have "list_ex (\<lambda>p. occurs_in p (join [32] ws)) shell_control_patterns"
    using assms(2,3) control_tokens_are_patterns join_occurs [of op ws "[32]"]
    by (auto simp: list_ex_iff)
  then have "matches_deny_rule ?a rule"
    using assms(4,5) unfolding a by (auto simp: matches_deny_rule_def list_ex_iff)
  then show ?thesis
    using deny_hit_decides [of rule profile ?args tc pn] assms(6,7) by blast
qed

text \<open>
  What the policy does not see.  A single ampersand starts a second command in the
  shell, but it is neither a control pattern nor a control token: a command of plain
  words without the listed operators is judged by its first tokens alone, so an allow rule
  for the program before the ampersand allows whatever follows it.
\<close>

theorem ampersand_tail_unreviewed:
  assumes "plain_words (ws @ [str ''&''] @ vs)"
    and "\<forall>p \<in> set shell_control_patterns. \<not> occurs_in p (join [32] (ws @ [str ''&''] @ vs))"
    and "ws = t # us" and "t \<notin> {str ''sudo'', str ''git'', str ''rm'', str ''rmdir'', str ''chmod'',
       str ''chown'', str ''pip'', str ''npm'', str ''uv''}"
    and "pp_execute_rules profile = [rule]" and "er_policy rule = PD_allow"
    and "matches_prefix ws (er_match rule)"
  shows "pr_decision (evaluate_execute
           [(str ''command'', PStr (join [32] (ws @ [str ''&''] @ vs)))] profile tc pn) = PD_allow"
proof -
  let ?ws = "ws @ [str ''&''] @ vs"
  let ?args = "[(str ''command'', PStr (join [32] ?ws))]"
  let ?a = "analyze_command (dict_get (str ''command'') ?args)"
  have a: "?a = \<lparr>ca_command = join [32] ?ws, ca_tokens = ?ws, ca_parse_error = None,
     ca_has_shell_control = False\<rparr>"
    using analyze_plain_words [OF assms(1)] assms(2) by (simp add: dict_get_def list_ex_iff)
  have risk: "detect_risk ?a = None"
    using assms(3,4) unfolding a by (simp add: detect_risk_def numeral_eq_Suc)
  have "matches_prefix ?ws (er_match rule)"
    using assms(7) by (auto simp: matches_prefix_def split: if_splits)
  then have "pr_decision (evaluate_rules ?a profile tc pn) = PD_allow"
    using assms(5,6) unfolding a by (simp add: evaluate_rules_def)
  moreover have "\<not> deny_hit profile ?a"
    using assms(5,6) by (simp add: deny_hit_def)
  ultimately show ?thesis
    using risk by (simp add: decision_layers Let_def review_hit_def)
qed

subsection \<open>Witnesses\<close>

definition wit_rule :: "string list \<Rightarrow> permission_decision \<Rightarrow> execute_rule" where
  "wit_rule ws d = \<lparr>er_match = map str ws, er_policy = d, er_allowed_decisions = [],
     er_description = None\<rparr>"

definition wit_profile :: "execute_rule list \<Rightarrow> permission_profile" where
  "wit_profile rules = \<lparr>pp_name = str ''dev'', pp_description = None, pp_tools = [],
     pp_execute_rules = rules, pp_execute_review_risks = None\<rparr>"

definition wit_tool :: "permission_decision \<Rightarrow> tool_permission" where
  "wit_tool d = \<lparr>tp_policy = d, tp_allowed_decisions = [], tp_description = None\<rparr>"

definition wit_args :: "string \<Rightarrow> pydict" where
  "wit_args cmd = [(str ''command'', PStr (str cmd))]"

theorem deny_rule_precedence_witness:
  "pr_decision (evaluate_execute (wit_args ''git push origin'')
     (wit_profile [wit_rule [''git''] PD_allow, wit_rule [''git'', ''push''] PD_deny])
     (wit_tool PD_allow) (str ''dev'')) = PD_deny"
proof -
  have "matches_deny_rule (analyze_command (dict_get (str ''command'') (wit_args ''git push origin'')))
      (wit_rule [''git'', ''push''] PD_deny)"
    by code_simp
  then show ?thesis
    using deny_rule_precedence [of "wit_rule [''git'', ''push''] PD_deny"
      "wit_profile [wit_rule [''git''] PD_allow, wit_rule [''git'', ''push''] PD_deny]"]
    by (simp add: wit_profile_def wit_rule_def)
qed

theorem execute_allow_sound_witness:
  "\<exists>rule \<in> set (pp_execute_rules (wit_profile [wit_rule [''git'', ''status''] PD_allow])).
     er_policy rule = PD_allow \<and> er_match rule = [str ''git'', str ''status'']"
proof -
  have "pr_decision (evaluate_execute (wit_args ''git status'')
      (wit_profile [wit_rule [''git'', ''status''] PD_allow]) (wit_tool PD_deny) (str ''dev'')) = PD_allow"
    by code_simp
  from execute_allow_sound [OF this refl] show ?thesis
    by (auto simp: wit_profile_def wit_rule_def wit_tool_def)
qed

theorem strict_profile_allows_only_plain_commands_witness:
  "\<exists>t ts. shlex_split (str ''git status'') = Inr (t # ts) \<and> t \<noteq> str ''rm''"
proof -
  have "pr_decision (evaluate_execute (wit_args ''git status'')
      (wit_profile [wit_rule [''git'', ''status''] PD_allow]) (wit_tool PD_deny) (str ''dev'')) = PD_allow"
    by code_simp
  from strict_profile_allows_only_plain_commands [OF this] show ?thesis
    by (auto simp: wit_profile_def wit_args_def dict_get_def)
qed

theorem deny_rule_monotone_witness:
  "pr_decision (evaluate_execute (wit_args ''git push'')
      (wit_profile [wit_rule [''git''] PD_allow]) (wit_tool PD_allow) (str ''dev''))
   \<le> pr_decision (evaluate_execute (wit_args ''git push'')
      (wit_profile [wit_rule [''git''] PD_allow, wit_rule [''git'', ''push''] PD_deny])
      (wit_tool PD_allow) (str ''dev''))"
  using deny_rule_monotone [of "wit_rule [''git'', ''push''] PD_deny"
      "wit_profile [wit_rule [''git''] PD_allow]" "[wit_rule [''git''] PD_allow]" "[]"
      "wit_args ''git push''" "wit_tool PD_allow" "str ''dev''"]
  by (simp add: wit_profile_def wit_rule_def)

theorem spaced_segment_denied_witness:
  "pr_decision (evaluate_execute
     [(str ''command'', PStr (join [32] [str ''ls'', str ''&&'', str ''git'', str ''push'']))]
     (wit_profile [wit_rule [''git'', ''push''] PD_deny]) (wit_tool PD_allow) (str ''dev'')) = PD_deny"
proof (rule spaced_segment_denied [where op = "str ''&&''" and seg = "[str ''git'', str ''push'']"
      and rule = "wit_rule [''git'', ''push''] PD_deny"])
  show "plain_words [str ''ls'', str ''&&'', str ''git'', str ''push'']"
    by code_simp
  show "[str ''git'', str ''push''] \<in> set (command_segments [str ''ls'', str ''&&'', str ''git'', str ''push''])"
    by code_simp
qed (simp_all add: shell_control_tokens_def matches_prefix_def wit_rule_def wit_profile_def)

theorem ampersand_tail_unreviewed_witness:
  "pr_decision (evaluate_execute
     [(str ''command'', PStr (join [32] ([str ''ls''] @ [str ''&''] @ [str ''rm'', str ''-rf'', str ''/''])))]
     (wit_profile [wit_rule [''ls''] PD_allow]) (wit_tool PD_deny) (str ''dev'')) = PD_allow"
proof (rule ampersand_tail_unreviewed [where rule = "wit_rule [''ls''] PD_allow"
      and t = "str ''ls''" and us = "[]"])
  show "plain_words ([str ''ls''] @ [str ''&''] @ [str ''rm'', str ''-rf'', str ''/''])"
    by code_simp
  show "\<forall>p \<in> set shell_control_patterns. \<not> occurs_in p
      (join [32] ([str ''ls''] @ [str ''&''] @ [str ''rm'', str ''-rf'', str ''/'']))"
    by code_simp
qed (simp_all add: matches_prefix_def wit_rule_def wit_profile_def)

end
