(* ===== verification/Lease_Spec.thy ===== *)
theory Lease_Spec
  imports Ruyi_Prelude
begin

text \<open>
  The contract shared by the durable claims of the program: event receipts
  (\<open>channels/event_receipts.py\<close>), Gateway commands (\<open>storage/gateway_command_store.py\<close>) and
  channel deliveries (\<open>storage/channel_delivery_store.py\<close>).  A claim stores a fresh token in the row; the operation
  that ends the claim presents the token and must match it.  Each operation also takes
  what the environment supplies at that moment (\<open>'e\<close>: the clock, the payload).

  The laws are those the clients of the stores rely on; the lemmas proved here
  once say that a stale token is refused without effect, and that one token
  finishes at most once however the operations of other owners interleave.
\<close>

datatype ('e, 'k, 't) lease_op = Acquire 'e 't 'k | Finish 'e 't 'k

fun lease_step ::
  "('e \<Rightarrow> 't \<Rightarrow> 'k \<Rightarrow> 's \<Rightarrow> 's \<times> bool) \<Rightarrow> ('e \<Rightarrow> 't \<Rightarrow> 'k \<Rightarrow> 's \<Rightarrow> 's \<times> bool) \<Rightarrow>
   ('e, 'k, 't) lease_op \<Rightarrow> 's \<Rightarrow> 's \<times> bool" where
  "lease_step acq fin (Acquire e t k) s = acq e t k s"
| "lease_step acq fin (Finish e t k) s = fin e t k s"

fun lease_run ::
  "('e \<Rightarrow> 't \<Rightarrow> 'k \<Rightarrow> 's \<Rightarrow> 's \<times> bool) \<Rightarrow> ('e \<Rightarrow> 't \<Rightarrow> 'k \<Rightarrow> 's \<Rightarrow> 's \<times> bool) \<Rightarrow>
   ('e, 'k, 't) lease_op list \<Rightarrow> 's \<Rightarrow> 's \<times> bool list" where
  "lease_run acq fin [] s = (s, [])"
| "lease_run acq fin (op # ops) s =
     (let (s', ok) = lease_step acq fin op s; (s'', oks) = lease_run acq fin ops s'
      in (s'', ok # oks))"

fun finishes :: "'t \<Rightarrow> 'k \<Rightarrow> ('e, 'k, 't) lease_op \<Rightarrow> bool" where
  "finishes t k (Finish e t' k') = (t' = t \<and> k' = k)"
| "finishes t k (Acquire e t' k') = False"

fun acquires :: "'t \<Rightarrow> 'k \<Rightarrow> ('e, 'k, 't) lease_op \<Rightarrow> bool" where
  "acquires t k (Acquire e t' k') = (t' = t \<and> k' = k)"
| "acquires t k (Finish e t' k') = False"

text \<open>How many operations of a run that satisfy \<open>P\<close> succeeded.\<close>

fun successes :: "('o \<Rightarrow> bool) \<Rightarrow> 'o list \<Rightarrow> bool list \<Rightarrow> nat" where
  "successes P (op # ops) (ok # oks) = (if P op \<and> ok then 1 else 0) + successes P ops oks"
| "successes P _ _ = 0"

locale fenced_lease =
  fixes inv :: "'s \<Rightarrow> bool"
    and owner :: "'s \<Rightarrow> 'k \<Rightarrow> 't option"
    and acquire :: "'e \<Rightarrow> 't \<Rightarrow> 'k \<Rightarrow> 's \<Rightarrow> 's \<times> bool"
    and finish :: "'e \<Rightarrow> 't \<Rightarrow> 'k \<Rightarrow> 's \<Rightarrow> 's \<times> bool"
  assumes inv_acquire: "inv s \<Longrightarrow> inv (fst (acquire e t k s))"
    and inv_finish: "inv s \<Longrightarrow> inv (fst (finish e t k s))"
    and acquire_owner: "inv s \<Longrightarrow> snd (acquire e t k s) \<Longrightarrow> owner (fst (acquire e t k s)) k = Some t"
    and acquire_refused: "inv s \<Longrightarrow> \<not> snd (acquire e t k s) \<Longrightarrow> owner (fst (acquire e t k s)) k = owner s k"
    and acquire_frame: "inv s \<Longrightarrow> k' \<noteq> k \<Longrightarrow> owner (fst (acquire e t k s)) k' = owner s k'"
    and finish_owned: "inv s \<Longrightarrow> snd (finish e t k s) \<Longrightarrow> owner s k = Some t"
    and finish_clears: "inv s \<Longrightarrow> snd (finish e t k s) \<Longrightarrow> owner (fst (finish e t k s)) k = None"
    and finish_refused: "inv s \<Longrightarrow> \<not> snd (finish e t k s) \<Longrightarrow> fst (finish e t k s) = s"
    and finish_frame: "inv s \<Longrightarrow> k' \<noteq> k \<Longrightarrow> owner (fst (finish e t k s)) k' = owner s k'"
begin

lemma stale_finish: "inv s \<Longrightarrow> owner s k \<noteq> Some t \<Longrightarrow> finish e t k s = (s, False)"
  using finish_owned [of s e t k] finish_refused [of s e t k] by (cases "finish e t k s") auto

lemma superseded_finish:
  assumes "inv s" and "snd (acquire e t' k s)" and "t \<noteq> t'"
  shows "finish e' t k (fst (acquire e t' k s)) = (fst (acquire e t' k s), False)"
  using assms by (intro stale_finish) (auto simp: inv_acquire acquire_owner)

lemma finish_twice:
  "inv s \<Longrightarrow> snd (finish e t k s) \<Longrightarrow> finish e' t k (fst (finish e t k s)) = (fst (finish e t k s), False)"
  by (intro stale_finish) (auto simp: inv_finish finish_clears)

lemma inv_step: "inv s \<Longrightarrow> inv (fst (lease_step acquire finish op s))"
  by (cases op) (auto simp: inv_acquire inv_finish)

lemma inv_run: "inv s \<Longrightarrow> inv (fst (lease_run acquire finish ops s))"
  by (induction ops arbitrary: s) (auto simp: case_prod_beta Let_def inv_step)

text \<open>A token that nobody acquires again stays away once it is gone.\<close>

lemma owner_not_regained:
  assumes "inv s" and "owner s k \<noteq> Some t" and "\<not> acquires t k op"
  shows "owner (fst (lease_step acquire finish op s)) k \<noteq> Some t"
proof (cases op)
  case (Acquire e t' k')
  then show ?thesis
    using assms acquire_owner [of s e t' k'] acquire_refused [of s e t' k']
      acquire_frame [of s k k' e t']
    by (cases "k' = k"; cases "snd (acquire e t' k' s)") auto
next
  case (Finish e t' k')
  then show ?thesis
    using assms finish_clears [of s e t' k'] finish_refused [of s e t' k']
      finish_frame [of s k k' e t']
    by (cases "k' = k"; cases "snd (finish e t' k' s)") auto
qed

lemma no_success_without_owner:
  assumes "inv s" and "owner s k \<noteq> Some t" and "\<forall>op \<in> set ops. \<not> acquires t k op"
  shows "successes (finishes t k) ops (snd (lease_run acquire finish ops s)) = 0"
  using assms
proof (induction ops arbitrary: s)
  case Nil
  then show ?case by simp
next
  case (Cons op ops)
  let ?r = "lease_step acquire finish op s"
  have "successes (finishes t k) ops (snd (lease_run acquire finish ops (fst ?r))) = 0"
    using Cons.prems by (intro Cons.IH inv_step owner_not_regained) auto
  moreover have "\<not> (finishes t k op \<and> snd ?r)"
    using Cons.prems stale_finish by (cases op) auto
  ultimately show ?case
    by (auto simp: case_prod_beta Let_def)
qed

lemma finish_at_most_once:
  assumes "inv s" and "\<forall>op \<in> set ops. \<not> acquires t k op"
  shows "successes (finishes t k) ops (snd (lease_run acquire finish ops s)) \<le> 1"
  using assms
proof (induction ops arbitrary: s)
  case Nil
  then show ?case by simp
next
  case (Cons op ops)
  let ?r = "lease_step acquire finish op s"
  have inv: "inv (fst ?r)"
    using Cons.prems by (intro inv_step)
  have none: "successes (finishes t k) ops (snd (lease_run acquire finish ops (fst ?r))) = 0"
    if "finishes t k op" "snd ?r"
    using that Cons.prems inv
    by (intro no_success_without_owner) (auto simp: finish_clears elim!: finishes.elims)
  have le: "successes (finishes t k) ops (snd (lease_run acquire finish ops (fst ?r))) \<le> 1"
    using Cons.prems inv by (intro Cons.IH) auto
  show ?case
    using none le by (auto simp: case_prod_beta Let_def)
qed

end

text \<open>A lease that is also exclusive: while a claim is live nobody else obtains it.\<close>

locale exclusive_lease = fenced_lease inv owner acquire finish
  for inv :: "'s \<Rightarrow> bool"
    and owner :: "'s \<Rightarrow> 'k \<Rightarrow> 't option"
    and acquire :: "'e \<Rightarrow> 't \<Rightarrow> 'k \<Rightarrow> 's \<Rightarrow> 's \<times> bool"
    and finish :: "'e \<Rightarrow> 't \<Rightarrow> 'k \<Rightarrow> 's \<Rightarrow> 's \<times> bool" +
  fixes usable :: "'t \<Rightarrow> bool"
    and busy :: "'e \<Rightarrow> 's \<Rightarrow> 'k \<Rightarrow> bool"
  assumes busy_blocks: "inv s \<Longrightarrow> busy e s k \<Longrightarrow> \<not> snd (acquire e t k s)"
    and acquire_busy: "inv s \<Longrightarrow> usable t \<Longrightarrow> snd (acquire e t k s) \<Longrightarrow> busy e (fst (acquire e t k s)) k"
begin

lemma second_acquire_refused:
  assumes "inv s" and "usable t" and "snd (acquire e t k s)"
    and "busy e (fst (acquire e t k s)) k \<Longrightarrow> busy e' (fst (acquire e t k s)) k"
  shows "\<not> snd (acquire e' t' k (fst (acquire e t k s)))
    \<and> owner (fst (acquire e' t' k (fst (acquire e t k s)))) k = Some t"
proof -
  have i: "inv (fst (acquire e t k s))" and b: "busy e' (fst (acquire e t k s)) k"
    using assms by (auto intro: inv_acquire acquire_busy)
  then have r: "\<not> snd (acquire e' t' k (fst (acquire e t k s)))"
    by (rule busy_blocks)
  then show ?thesis
    using acquire_refused [OF i r] assms by (simp add: acquire_owner)
qed

end

end
