(* ===== verification/Event_Receipts.thy ===== *)
theory Event_Receipts
  imports Lease_Spec
begin

text \<open>
  The ownership leases for idempotent platform events of \<open>channels/event_receipts.py\<close>
  (\<open>ChannelEventReceiptStore\<close>).  A row is one platform event; a claim is a fresh token with
  the instant it was taken, and processing the event closes the row for good.

  A timestamp column holds ISO text: \<open>Iso i\<close> is text that \<open>datetime.fromisoformat\<close> reads as
  the instant \<open>i\<close> (naive text is read as UTC), \<open>Not_iso\<close> any other text.  The claim
  timeout is in microseconds, clipped at 0 by the constructor.
\<close>

datatype receipt_key = Key_text pystr | Key_int int

datatype iso_text = Iso int | Not_iso pystr

fun iso_truthy :: "iso_text option \<Rightarrow> bool" where
  "iso_truthy None = False"
| "iso_truthy (Some (Iso _)) = True"
| "iso_truthy (Some (Not_iso s)) = (s \<noteq> [])"

record event_receipt =
  ev_event_key :: receipt_key
  ev_channel_id :: pystr
  ev_message_id :: pystr

record receipt_row =
  er_key :: receipt_key
  er_chat_id :: pystr
  er_message_id :: pystr
  er_first_seen_at :: int
  er_claimed_at :: "iso_text option"
  er_claim_token :: "pystr option"
  er_processed_at :: "iso_text option"

record receipt_store =
  es_claim_timeout :: int
  es_rows :: "receipt_row list"

datatype receipt_claim =
    Receipt_claimed receipt_key int pystr
  | Receipt_processed receipt_key
  | Receipt_busy receipt_key

text \<open>An SQL identifier: \<open>[A-Za-z_][A-Za-z0-9_]*\<close> over the whole string.\<close>

definition ident_start :: "nat \<Rightarrow> bool" where
  "ident_start c \<longleftrightarrow> 65 \<le> c \<and> c \<le> 90 \<or> 97 \<le> c \<and> c \<le> 122 \<or> c = 95"

definition sql_identifier :: "pystr \<Rightarrow> bool" where
  "sql_identifier s =
     (case s of [] \<Rightarrow> False
      | c # cs \<Rightarrow> ident_start c \<and> list_all (\<lambda>d. ident_start d \<or> 48 \<le> d \<and> d \<le> 57) cs)"

text \<open>\<open>ChannelEventReceiptSchema.__post_init__\<close>: both identifiers are checked, in order.\<close>

definition check_schema :: "pystr \<Rightarrow> pystr \<Rightarrow> py_error + unit" where
  "check_schema table_name key_column =
     (if \<not> sql_identifier table_name then Inl (ValueError table_name)
      else if \<not> sql_identifier key_column then Inl (ValueError key_column)
      else Inr ())"

definition new_receipt_store :: "int \<Rightarrow> receipt_store" where
  "new_receipt_store claim_timeout = \<lparr>es_claim_timeout = max 0 claim_timeout, es_rows = []\<rparr>"

definition claim_expired :: "receipt_store \<Rightarrow> iso_text option \<Rightarrow> int \<Rightarrow> bool" where
  "claim_expired st claimed_at now =
     (case claimed_at of
        None \<Rightarrow> True
      | Some (Not_iso _) \<Rightarrow> True
      | Some (Iso c) \<Rightarrow> now - c \<ge> es_claim_timeout st)"

definition claim_receipt ::
  "event_receipt \<Rightarrow> int \<Rightarrow> pystr \<Rightarrow> receipt_store \<Rightarrow> receipt_store \<times> receipt_claim" where
  "claim_receipt receipt now new_token st =
     (let key = ev_event_key receipt in
      case row_at er_key key (es_rows st) of
        None \<Rightarrow>
          (st\<lparr>es_rows := es_rows st @
              [\<lparr>er_key = key, er_chat_id = ev_channel_id receipt,
                er_message_id = ev_message_id receipt, er_first_seen_at = now,
                er_claimed_at = Some (Iso now), er_claim_token = Some new_token,
                er_processed_at = None\<rparr>]\<rparr>,
           Receipt_claimed key now new_token)
      | Some row \<Rightarrow>
          if iso_truthy (er_processed_at row) then (st, Receipt_processed key)
          else if nonempty_opt (er_claim_token row) \<and> \<not> claim_expired st (er_claimed_at row) now
            then (st, Receipt_busy key)
          else
            (st\<lparr>es_rows := rows_update (\<lambda>r. er_key r = key \<and> er_processed_at r = None)
                (\<lambda>r. r\<lparr>er_chat_id := ev_channel_id receipt,
                        er_message_id := ev_message_id receipt,
                        er_claimed_at := Some (Iso now), er_claim_token := Some new_token\<rparr>)
                (es_rows st)\<rparr>,
             Receipt_claimed key now new_token))"

definition owned_row :: "receipt_key \<Rightarrow> pystr \<Rightarrow> receipt_row \<Rightarrow> bool" where
  "owned_row key token r \<longleftrightarrow>
     er_key r = key \<and> er_claim_token r = Some token \<and> er_processed_at r = None"

definition mark_processed :: "receipt_key \<Rightarrow> pystr \<Rightarrow> int \<Rightarrow> receipt_store \<Rightarrow> receipt_store \<times> bool" where
  "mark_processed key token now st =
     (st\<lparr>es_rows := rows_update (owned_row key token)
         (\<lambda>r. r\<lparr>er_claimed_at := None, er_claim_token := None, er_processed_at := Some (Iso now)\<rparr>)
         (es_rows st)\<rparr>,
      rows_count (owned_row key token) (es_rows st) > 0)"

definition receipt_release :: "receipt_key \<Rightarrow> pystr \<Rightarrow> receipt_store \<Rightarrow> receipt_store \<times> bool" where
  "receipt_release key token st =
     (st\<lparr>es_rows := rows_update (owned_row key token)
         (\<lambda>r. r\<lparr>er_claimed_at := None, er_claim_token := None\<rparr>) (es_rows st)\<rparr>,
      rows_count (owned_row key token) (es_rows st) > 0)"

subsection \<open>The store keeps its table\<close>

definition receipts_ok :: "receipt_store \<Rightarrow> bool" where
  "receipts_ok st \<longleftrightarrow> unique_key er_key (es_rows st) \<and> es_claim_timeout st > 0 \<and>
     (\<forall>r \<in> set (es_rows st). er_processed_at r \<noteq> Some (Not_iso []))"

definition receipt_owner :: "receipt_store \<Rightarrow> receipt_key \<Rightarrow> pystr option" where
  "receipt_owner st key =
     (case row_at er_key key (es_rows st) of
        None \<Rightarrow> None
      | Some r \<Rightarrow> if er_processed_at r = None then er_claim_token r else None)"

text \<open>A claim that \<open>claim\<close> must respect at the given instant.\<close>

definition receipt_live :: "int \<Rightarrow> receipt_store \<Rightarrow> receipt_key \<Rightarrow> bool" where
  "receipt_live now st key =
     (case row_at er_key key (es_rows st) of
        None \<Rightarrow> False
      | Some r \<Rightarrow> er_processed_at r = None \<and> nonempty_opt (er_claim_token r)
                   \<and> \<not> claim_expired st (er_claimed_at r) now)"

text \<open>The lease operations of the store: what the environment gives is the channel, the message, the clock.\<close>

definition receipt_acquire ::
  "pystr \<times> pystr \<times> int \<Rightarrow> pystr \<Rightarrow> receipt_key \<Rightarrow> receipt_store \<Rightarrow> receipt_store \<times> bool" where
  "receipt_acquire e token key st =
     (let (channel, message, now) = e;
          (st', c) = claim_receipt \<lparr>ev_event_key = key, ev_channel_id = channel,
                                    ev_message_id = message\<rparr> now token st
      in (st', c = Receipt_claimed key now token))"

definition receipt_finish ::
  "pystr \<times> pystr \<times> int \<Rightarrow> pystr \<Rightarrow> receipt_key \<Rightarrow> receipt_store \<Rightarrow> receipt_store \<times> bool" where
  "receipt_finish e token key st = mark_processed key token (snd (snd e)) st"

definition receipt_abandon ::
  "pystr \<times> pystr \<times> int \<Rightarrow> pystr \<Rightarrow> receipt_key \<Rightarrow> receipt_store \<Rightarrow> receipt_store \<times> bool" where
  "receipt_abandon e token key st = receipt_release key token st"

lemmas receipt_defs = receipt_acquire_def receipt_finish_def receipt_abandon_def
  claim_receipt_def mark_processed_def receipt_release_def Let_def

lemma owned_row_key: "owned_row key token r \<Longrightarrow> er_key r = key"
  by (simp add: owned_row_def)

lemma owned_count_iff:
  assumes "receipts_ok st"
  shows "rows_count (owned_row key token) (es_rows st) > 0 \<longleftrightarrow> receipt_owner st key = Some token"
proof -
  have "unique_key er_key (es_rows st)"
    using assms by (simp add: receipts_ok_def)
  note rows_count_key [OF this, of "owned_row key token" key, OF owned_row_key]
  then show ?thesis
    by (auto simp: receipt_owner_def owned_row_def dest: row_at_SomeD split: option.splits if_splits)
qed

lemma owned_update_id:
  "receipts_ok st \<Longrightarrow> receipt_owner st key \<noteq> Some token \<Longrightarrow>
     rows_update (owned_row key token) f (es_rows st) = es_rows st"
  using owned_count_iff [of st key token]
  by (intro rows_update_id) (auto simp: rows_count_pos)

lemma receipts_ok_update:
  assumes "receipts_ok st" and "\<And>r. P r \<Longrightarrow> er_key (f r) = er_key r"
    and "\<And>r. P r \<Longrightarrow> er_processed_at r \<noteq> Some (Not_iso []) \<Longrightarrow> er_processed_at (f r) \<noteq> Some (Not_iso [])"
  shows "receipts_ok (st\<lparr>es_rows := rows_update P f (es_rows st)\<rparr>)"
  using assms by (auto simp: receipts_ok_def unique_key_rows_update in_rows_update split: if_splits)

lemma receipts_ok_claim: "receipts_ok st \<Longrightarrow> receipts_ok (fst (claim_receipt rc now tok st))"
proof -
  assume ok: "receipts_ok st"
  show ?thesis
  proof (cases "row_at er_key (ev_event_key rc) (es_rows st)")
    case None
    then have "ev_event_key rc \<notin> er_key ` set (es_rows st)"
      by (simp add: row_at_None)
    then show ?thesis
      using ok None by (auto simp: claim_receipt_def Let_def receipts_ok_def unique_key_snoc)
  next
    case (Some r)
    then show ?thesis
      using ok by (auto simp: claim_receipt_def Let_def intro: receipts_ok_update)
  qed
qed

lemma receipts_ok_mark: "receipts_ok st \<Longrightarrow> receipts_ok (fst (mark_processed key tok now st))"
  by (auto simp: mark_processed_def intro: receipts_ok_update)

lemma receipts_ok_release: "receipts_ok st \<Longrightarrow> receipts_ok (fst (receipt_release key tok st))"
  by (auto simp: receipt_release_def intro: receipts_ok_update)

text \<open>A row that is not closed has no processing text at all, under the invariant.\<close>

lemma open_row:
  "receipts_ok st \<Longrightarrow> row_at er_key key (es_rows st) = Some r \<Longrightarrow>
     iso_truthy (er_processed_at r) \<longleftrightarrow> er_processed_at r \<noteq> None"
  by (cases "er_processed_at r" rule: iso_truthy.cases)
    (auto simp: receipts_ok_def dest!: row_at_SomeD)

lemma acquire_success_iff:
  assumes "receipts_ok st"
  shows "snd (receipt_acquire e tok key st) \<longleftrightarrow>
    \<not> receipt_live (snd (snd e)) st key \<and>
    (\<forall>r. row_at er_key key (es_rows st) = Some r \<longrightarrow> er_processed_at r = None)"
  using assms open_row [OF assms]
  by (auto simp: receipt_acquire_def claim_receipt_def receipt_live_def Let_def case_prod_beta
      split: option.splits)

lemma acquire_owner:
  assumes "receipts_ok st" and "snd (receipt_acquire e tok key st)"
  shows "receipt_owner (fst (receipt_acquire e tok key st)) key = Some tok"
  using assms open_row [OF assms(1)]
  by (auto simp: receipt_acquire_def claim_receipt_def receipt_owner_def Let_def case_prod_beta
      row_at_snoc row_at_rows_update dest: row_at_SomeD split: option.splits if_splits)

lemma acquire_refused_id:
  "receipts_ok st \<Longrightarrow> \<not> snd (receipt_acquire e tok key st) \<Longrightarrow> fst (receipt_acquire e tok key st) = st"
  by (auto simp: receipt_acquire_def claim_receipt_def Let_def case_prod_beta
      split: option.splits if_splits)

lemma acquire_other_row:
  "key' \<noteq> key \<Longrightarrow> row_at er_key key' (es_rows (fst (receipt_acquire e tok key st)))
     = row_at er_key key' (es_rows st)"
  by (auto simp: receipt_acquire_def claim_receipt_def Let_def case_prod_beta row_at_snoc
      row_at_rows_update dest: row_at_SomeD split: option.splits if_splits)

interpretation receipt_done: exclusive_lease receipts_ok receipt_owner receipt_acquire receipt_finish
  "\<lambda>token. token \<noteq> []" "\<lambda>e. receipt_live (snd (snd e))"
proof unfold_locales
  fix s e t k k'
  assume ok: "receipts_ok s"
  show "receipts_ok (fst (receipt_acquire e t k s))"
    using receipts_ok_claim [OF ok] by (simp add: receipt_acquire_def case_prod_beta Let_def)
  show "receipts_ok (fst (receipt_finish e t k s))"
    using receipts_ok_mark [OF ok] by (simp add: receipt_finish_def)
  show "\<not> snd (receipt_acquire e t k s) \<Longrightarrow> receipt_owner (fst (receipt_acquire e t k s)) k = receipt_owner s k"
    using acquire_refused_id [OF ok] by simp
  show "k' \<noteq> k \<Longrightarrow> receipt_owner (fst (receipt_acquire e t k s)) k' = receipt_owner s k'"
    by (simp add: receipt_owner_def acquire_other_row)
  show "snd (receipt_finish e t k s) \<Longrightarrow> receipt_owner s k = Some t"
    using owned_count_iff [OF ok] by (simp add: receipt_finish_def mark_processed_def)
  show "snd (receipt_finish e t k s) \<Longrightarrow> receipt_owner (fst (receipt_finish e t k s)) k = None"
    using owned_count_iff [OF ok]
    by (auto simp: receipt_finish_def mark_processed_def receipt_owner_def row_at_rows_update owned_row_def
        dest: row_at_SomeD split: option.splits if_splits)
  show "\<not> snd (receipt_finish e t k s) \<Longrightarrow> fst (receipt_finish e t k s) = s"
    using owned_count_iff [OF ok] owned_update_id [OF ok]
    by (auto simp: receipt_finish_def mark_processed_def)
  show "k' \<noteq> k \<Longrightarrow> receipt_owner (fst (receipt_finish e t k s)) k' = receipt_owner s k'"
    by (auto simp: receipt_finish_def mark_processed_def receipt_owner_def row_at_rows_update owned_row_def
        dest: row_at_SomeD split: option.splits)
  show "receipt_live (snd (snd e)) s k \<Longrightarrow> \<not> snd (receipt_acquire e t k s)"
    by (simp add: acquire_success_iff [OF ok])
  show "snd (receipt_acquire e t k s) \<Longrightarrow> receipt_owner (fst (receipt_acquire e t k s)) k = Some t"
    by (rule acquire_owner [OF ok])
  show "t \<noteq> [] \<Longrightarrow> snd (receipt_acquire e t k s) \<Longrightarrow>
      receipt_live (snd (snd e)) (fst (receipt_acquire e t k s)) k"
    using ok open_row [OF ok]
    by (auto simp: receipt_acquire_def claim_receipt_def receipt_live_def Let_def case_prod_beta
        row_at_snoc row_at_rows_update claim_expired_def receipts_ok_def dest: row_at_SomeD
        split: option.splits if_splits)
qed

subsection \<open>Runs of the whole store\<close>

datatype receipt_op =
    R_claim event_receipt int pystr
  | R_mark receipt_key pystr int
  | R_release receipt_key pystr

fun receipt_step :: "receipt_op \<Rightarrow> receipt_store \<Rightarrow> receipt_store \<times> bool" where
  "receipt_step (R_claim rc now tok) st =
     (let (st', c) = claim_receipt rc now tok st in (st', c = Receipt_claimed (ev_event_key rc) now tok))"
| "receipt_step (R_mark key tok now) st = mark_processed key tok now st"
| "receipt_step (R_release key tok) st = receipt_release key tok st"

fun receipt_run :: "receipt_op list \<Rightarrow> receipt_store \<Rightarrow> receipt_store \<times> bool list" where
  "receipt_run [] st = (st, [])"
| "receipt_run (op # ops) st =
     (let (st', ok) = receipt_step op st; (st'', oks) = receipt_run ops st' in (st'', ok # oks))"

fun marks :: "receipt_key \<Rightarrow> receipt_op \<Rightarrow> bool" where
  "marks key (R_mark key' tok now) = (key' = key)"
| "marks key _ = False"

definition receipt_closed :: "receipt_store \<Rightarrow> receipt_key \<Rightarrow> bool" where
  "receipt_closed st key \<longleftrightarrow>
     (case row_at er_key key (es_rows st) of None \<Rightarrow> False | Some r \<Rightarrow> er_processed_at r \<noteq> None)"

lemma receipts_ok_step: "receipts_ok st \<Longrightarrow> receipts_ok (fst (receipt_step op st))"
  using receipts_ok_claim receipts_ok_mark receipts_ok_release
  by (cases op) (simp_all add: case_prod_beta Let_def)

lemma receipts_ok_run: "receipts_ok st \<Longrightarrow> receipts_ok (fst (receipt_run ops st))"
  by (induction ops arbitrary: st) (simp_all add: case_prod_beta Let_def receipts_ok_step)

lemma receipt_closed_step: "receipt_closed st key \<Longrightarrow> receipt_closed (fst (receipt_step op st)) key"
  by (cases op) (auto simp: receipt_closed_def claim_receipt_def mark_processed_def receipt_release_def
      Let_def case_prod_beta row_at_snoc row_at_rows_update owned_row_def split: option.splits)

lemma mark_closes:
  "receipts_ok st \<Longrightarrow> snd (mark_processed key tok now st) \<Longrightarrow>
     receipt_closed (fst (mark_processed key tok now st)) key"
  using owned_count_iff [of st key tok]
  by (auto simp: mark_processed_def receipt_closed_def receipt_owner_def row_at_rows_update owned_row_def
      dest: row_at_SomeD split: option.splits if_splits)

lemma mark_closed_fails:
  "receipts_ok st \<Longrightarrow> receipt_closed st key \<Longrightarrow> \<not> snd (mark_processed key tok now st)"
  using owned_count_iff [of st key tok]
  by (auto simp: mark_processed_def receipt_closed_def receipt_owner_def split: option.splits)

lemma no_mark_when_closed:
  "receipts_ok st \<Longrightarrow> receipt_closed st key \<Longrightarrow>
     successes (marks key) ops (snd (receipt_run ops st)) = 0"
proof (induction ops arbitrary: st)
  case Nil
  then show ?case by simp
next
  case (Cons op ops)
  have "\<not> (marks key op \<and> snd (receipt_step op st))"
    using Cons.prems by (cases op) (auto simp: mark_closed_fails)
  moreover have "successes (marks key) ops (snd (receipt_run ops (fst (receipt_step op st)))) = 0"
    using Cons.prems by (intro Cons.IH receipts_ok_step receipt_closed_step)
  ultimately show ?case
    by (auto simp: case_prod_beta Let_def)
qed

subsection \<open>Properties\<close>

text \<open>
  C21. A platform event is processed at most once: in every run of claims, completions and
  releases by any owners, with any clocks and tokens, at most one completion of a given
  event key succeeds.
\<close>

theorem receipt_processed_once:
  assumes "receipts_ok st"
  shows "successes (marks key) ops (snd (receipt_run ops st)) \<le> 1"
  using assms
proof (induction ops arbitrary: st)
  case Nil
  then show ?case by simp
next
  case (Cons op ops)
  have ok: "receipts_ok (fst (receipt_step op st))"
    using Cons.prems by (rule receipts_ok_step)
  have "successes (marks key) ops (snd (receipt_run ops (fst (receipt_step op st)))) = 0"
    if "marks key op" "snd (receipt_step op st)"
    using that Cons.prems ok
    by (intro no_mark_when_closed) (auto simp: mark_closes elim!: marks.elims)
  then show ?case
    using Cons.IH [OF ok] by (auto simp: case_prod_beta Let_def)
qed

text \<open>
  Fencing: once another claim has taken an event over, the previous owner's token can
  neither complete nor release it, at any later time; the store is left as it was.
\<close>

theorem receipt_takeover_fences:
  assumes "receipts_ok st"
    and "snd (claim_receipt rc now tok st) = Receipt_claimed key now tok" and "ev_event_key rc = key"
    and "old \<noteq> tok" and "st' = fst (claim_receipt rc now tok st)"
  shows "mark_processed key old later st' = (st', False) \<and> receipt_release key old st' = (st', False)"
proof -
  let ?e = "(ev_channel_id rc, ev_message_id rc, now)"
  have acq: "receipt_acquire ?e tok key st = (st', True)"
  proof -
    have "rc = \<lparr>ev_event_key = key, ev_channel_id = ev_channel_id rc, ev_message_id = ev_message_id rc\<rparr>"
      using assms(3) by simp
    then have "claim_receipt \<lparr>ev_event_key = key, ev_channel_id = ev_channel_id rc,
        ev_message_id = ev_message_id rc\<rparr> now tok st = (st', Receipt_claimed key now tok)"
      using assms(2,5) by (metis prod.collapse)
    then show ?thesis
      by (simp add: receipt_acquire_def)
  qed
  then have ok': "receipts_ok st'" and own: "receipt_owner st' key \<noteq> Some old"
    using receipt_done.inv_acquire [OF assms(1), of ?e tok key]
      receipt_done.acquire_owner [OF assms(1), of ?e tok key] assms(4) by auto
  have "mark_processed key old later st' = (st', False)"
    using receipt_done.superseded_finish [OF assms(1), of ?e tok key old "([], [], later)"] acq assms(4)
    by (simp add: receipt_finish_def)
  moreover have "receipt_release key old st' = (st', False)"
    using owned_count_iff [OF ok', of key old] owned_update_id [OF ok' own] own
    by (simp add: receipt_release_def)
  ultimately show ?thesis
    by simp
qed

text \<open>
  The answer of a claim: an event already processed is reported processed, one with a
  token younger than the timeout is busy, and every other event (new, released, expired or
  with an unreadable claim time) is handed to the caller, who then owns it.
\<close>

theorem receipt_claim_outcome:
  assumes "receipts_ok st" and "key = ev_event_key rc"
  shows "snd (claim_receipt rc now tok st) =
     (if receipt_closed st key then Receipt_processed key
      else if receipt_live now st key then Receipt_busy key
      else Receipt_claimed key now tok)
   \<and> (snd (claim_receipt rc now tok st) = Receipt_claimed key now tok \<longrightarrow>
        receipt_owner (fst (claim_receipt rc now tok st)) key = Some tok)"
  using assms open_row [OF assms(1)]
  by (auto simp: claim_receipt_def receipt_closed_def receipt_live_def receipt_owner_def Let_def
      row_at_snoc row_at_rows_update dest: row_at_SomeD split: option.splits if_splits)

subsection \<open>Witnesses\<close>

definition wit_receipt :: event_receipt where
  "wit_receipt = \<lparr>ev_event_key = Key_int 7, ev_channel_id = str ''chat'', ev_message_id = str ''m1''\<rparr>"

lemma receipts_ok_new: "0 < n \<Longrightarrow> receipts_ok (new_receipt_store n)"
  by (simp add: receipts_ok_def new_receipt_store_def unique_key_def)

theorem receipt_processed_once_witness:
  "successes (marks (Key_int 7))
     [R_claim wit_receipt 0 (str ''a''), R_mark (Key_int 7) (str ''a'') 1, R_mark (Key_int 7) (str ''a'') 2]
     (snd (receipt_run [R_claim wit_receipt 0 (str ''a''), R_mark (Key_int 7) (str ''a'') 1,
        R_mark (Key_int 7) (str ''a'') 2] (new_receipt_store 300))) \<le> 1"
  by (rule receipt_processed_once) (simp add: receipts_ok_new)

theorem receipt_takeover_fences_witness:
  "\<exists>st'. receipt_owner st' (Key_int 7) = Some (str ''b'') \<and>
     mark_processed (Key_int 7) (str ''a'') 301 st' = (st', False)"
proof -
  let ?s0 = "fst (claim_receipt wit_receipt 0 (str ''a'') (new_receipt_store 300))"
  let ?s1 = "fst (claim_receipt wit_receipt 300 (str ''b'') ?s0)"
  have ok: "receipts_ok ?s0"
    by (intro receipts_ok_claim receipts_ok_new) simp
  have got: "snd (claim_receipt wit_receipt 300 (str ''b'') ?s0)
      = Receipt_claimed (Key_int 7) 300 (str ''b'')"
    by code_simp
  have "mark_processed (Key_int 7) (str ''a'') 301 ?s1 = (?s1, False)"
    using receipt_takeover_fences [OF ok got _ _ refl, of "str ''a''" 301]
    by (simp add: wit_receipt_def)
  moreover have "receipt_owner ?s1 (Key_int 7) = Some (str ''b'')"
    by code_simp
  ultimately show ?thesis by blast
qed

theorem receipt_claim_outcome_witness:
  "snd (claim_receipt wit_receipt 299 (str ''b'')
     (fst (claim_receipt wit_receipt 0 (str ''a'') (new_receipt_store 300)))) = Receipt_busy (Key_int 7)"
proof -
  obtain s0 where s0: "s0 = fst (claim_receipt wit_receipt 0 (str ''a'') (new_receipt_store 300))"
    by simp
  have ok: "receipts_ok s0"
    unfolding s0 by (intro receipts_ok_claim receipts_ok_new) simp
  have "\<not> receipt_closed s0 (Key_int 7)" and "receipt_live 299 s0 (Key_int 7)"
    unfolding s0 by code_simp+
  moreover have "Key_int 7 = ev_event_key wit_receipt"
    by (simp add: wit_receipt_def)
  ultimately show ?thesis
    using receipt_claim_outcome [OF ok, of "Key_int 7" wit_receipt 299 "str ''b''"]
    by (simp add: s0 [symmetric])
qed

end
