(* ===== verification/Json_Text.thy ===== *)
theory Json_Text
  imports Ruyi_Prelude
begin

text \<open>
  The part of Python's \<open>json\<close> module that the program relies on: \<open>json.dumps\<close> with
  \<open>ensure_ascii\<close>, its separators and \<open>sort_keys\<close>.  A document is a \<open>json\<close> value; a
  float is kept as its lexeme.
\<close>

datatype json =
    J_null
  | J_bool bool
  | J_int int
  | J_float pystr
  | J_str pystr
  | J_list "json list"
  | J_obj "(pystr \<times> json) list"

definition hex_digit :: "nat \<Rightarrow> nat" where
  "hex_digit d = (if d < 10 then 48 + d else 87 + d)"

definition u_escape :: "nat \<Rightarrow> pystr" where
  "u_escape n = [92, 117, hex_digit (n div 4096 mod 16), hex_digit (n div 256 mod 16),
                 hex_digit (n div 16 mod 16), hex_digit (n mod 16)]"

text \<open>One character of an ASCII-escaped JSON string; beyond U+FFFF a surrogate pair.\<close>

definition escape_char :: "nat \<Rightarrow> pystr" where
  "escape_char c =
     (if c = 34 then [92, 34]
      else if c = 92 then [92, 92]
      else if c = 10 then [92, 110]
      else if c = 13 then [92, 114]
      else if c = 9 then [92, 116]
      else if c = 12 then [92, 102]
      else if c = 8 then [92, 98]
      else if 32 \<le> c \<and> c \<le> 126 then [c]
      else if c < 65536 then u_escape c
      else u_escape (55296 + (c - 65536) div 1024 mod 1024) @ u_escape (56320 + (c - 65536) mod 1024))"

text \<open>
  The escapes of \<open>ensure_ascii=False\<close>: only the quote, the backslash and the control characters.
  A printer below takes the escape of a character, \<open>escape_char\<close> or \<open>wire_char\<close>, as argument.
\<close>

definition wire_char :: "nat \<Rightarrow> pystr" where
  "wire_char c =
     (if c = 34 then [92, 34]
      else if c = 92 then [92, 92]
      else if c = 10 then [92, 110]
      else if c = 13 then [92, 114]
      else if c = 9 then [92, 116]
      else if c = 12 then [92, 102]
      else if c = 8 then [92, 98]
      else if 32 \<le> c then [c]
      else u_escape c)"

definition quote_json :: "(nat \<Rightarrow> pystr) \<Rightarrow> pystr \<Rightarrow> pystr" where
  "quote_json esc s = [34] @ concat (map esc s) @ [34]"

text \<open>\<open>item_sep\<close> and \<open>key_sep\<close> are the two \<open>separators\<close>; the defaults are \<open>', '\<close> and \<open>': '\<close>.\<close>

fun json_dumps :: "(nat \<Rightarrow> pystr) \<Rightarrow> pystr \<Rightarrow> pystr \<Rightarrow> json \<Rightarrow> pystr" where
  "json_dumps esc item_sep key_sep J_null = str ''null''"
| "json_dumps esc item_sep key_sep (J_bool b) = (if b then str ''true'' else str ''false'')"
| "json_dumps esc item_sep key_sep (J_int i) = dec i"
| "json_dumps esc item_sep key_sep (J_float s) = s"
| "json_dumps esc item_sep key_sep (J_str s) = quote_json esc s"
| "json_dumps esc item_sep key_sep (J_list xs) =
     [91] @ join item_sep (map (json_dumps esc item_sep key_sep) xs) @ [93]"
| "json_dumps esc item_sep key_sep (J_obj kvs) =
     [123] @ join item_sep
       (map (\<lambda>kv. quote_json esc (fst kv) @ key_sep @ json_dumps esc item_sep key_sep (snd kv)) kvs) @ [125]"

fun json_sort_keys :: "json \<Rightarrow> json" where
  "json_sort_keys (J_list xs) = J_list (map json_sort_keys xs)"
| "json_sort_keys (J_obj kvs) =
     J_obj (sort_key fst (map (\<lambda>kv. (fst kv, json_sort_keys (snd kv))) kvs))"
| "json_sort_keys v = v"

definition dumps_sorted :: "json \<Rightarrow> pystr" where
  "dumps_sorted v = json_dumps escape_char (str '', '') (str '': '') (json_sort_keys v)"

definition dumps_compact :: "json \<Rightarrow> pystr" where
  "dumps_compact v = json_dumps escape_char (str '','') (str '':'') v"

definition dumps_compact_sorted :: "json \<Rightarrow> pystr" where
  "dumps_compact_sorted v = dumps_compact (json_sort_keys v)"

text \<open>\<open>ensure_ascii=False\<close> with compact separators, as the Gateway protocol writes it.\<close>

definition dumps_wire :: "json \<Rightarrow> pystr" where
  "dumps_wire v = json_dumps wire_char (str '','') (str '':'') v"

end
