(* ===== verification/Gateway_Commands.thy ===== *)
theory Gateway_Commands
  imports Lease_Spec Json_Text
begin

text \<open>
  The durable idempotency ledger of \<open>storage/gateway_command_store.py\<close>
  (\<open>GatewayCommandStore\<close>).  A row is one command, identified by its principal and
  idempotency key; a claim moves it to processing under a fresh token and the holder
  of the token completes, fails or releases it.  A command whose effect may have
  reached a non-idempotent service is never handed out again.
\<close>

datatype command_state =
    Cmd_pending | Cmd_processing | Cmd_succeeded | Cmd_failed | Cmd_invalid pystr

record command_row =
  gc_command_id :: pystr
  gc_principal_id :: pystr
  gc_idempotency_key :: pystr
  gc_operation :: pystr
  gc_target :: pystr
  gc_request_hash :: pystr
  gc_state :: command_state
  gc_task_id :: pystr
  gc_mailbox_message_id :: "pystr option"
  gc_claim_token :: "pystr option"
  gc_response_json :: "pystr option"
  gc_error_json :: "pystr option"
  gc_effect_started :: bool
  gc_replay_safe :: bool
  gc_created_at :: int
  gc_updated_at :: int

type_synonym command_store = "command_row list"

datatype claim_status = CS_acquired | CS_busy | CS_replay | CS_terminal

record command_claim =
  cc_status :: claim_status
  cc_command_id :: pystr
  cc_task_id :: pystr
  cc_mailbox_message_id :: "pystr option"
  cc_operation :: pystr
  cc_target :: pystr
  cc_claim_token :: "pystr option"
  cc_response_json :: "pystr option"
  cc_error_json :: "pystr option"

datatype command_error =
    Command_conflict
  | Command_state_error pystr
  | Command_integrity

text \<open>What one call of \<open>claim\<close> is given: the request and the clock, the fresh uuids.\<close>

record command_request =
  cq_principal_id :: pystr
  cq_idempotency_key :: pystr
  cq_operation :: pystr
  cq_target :: pystr
  cq_request_hash :: pystr
  cq_proposed_task_id :: pystr
  cq_proposed_mailbox_message_id :: "pystr option"
  cq_now :: int
  cq_new_command_id :: pystr

definition request_key :: "command_request \<Rightarrow> pystr \<times> pystr" where
  "request_key q = (cq_principal_id q, cq_idempotency_key q)"

definition row_key :: "command_row \<Rightarrow> pystr \<times> pystr" where
  "row_key r = (gc_principal_id r, gc_idempotency_key r)"

definition same_command :: "command_request \<Rightarrow> command_row \<Rightarrow> bool" where
  "same_command q r \<longleftrightarrow>
     gc_operation r = cq_operation q \<and> gc_target r = cq_target q
     \<and> gc_request_hash r = cq_request_hash q"

definition new_command_row :: "command_request \<Rightarrow> pystr \<Rightarrow> command_row" where
  "new_command_row q claim_token =
     \<lparr>gc_command_id = cq_new_command_id q, gc_principal_id = cq_principal_id q,
      gc_idempotency_key = cq_idempotency_key q, gc_operation = cq_operation q,
      gc_target = cq_target q, gc_request_hash = cq_request_hash q,
      gc_state = Cmd_processing, gc_task_id = cq_proposed_task_id q,
      gc_mailbox_message_id = cq_proposed_mailbox_message_id q,
      gc_claim_token = Some claim_token, gc_response_json = None, gc_error_json = None,
      gc_effect_started = False, gc_replay_safe = True,
      gc_created_at = cq_now q, gc_updated_at = cq_now q\<rparr>"

text \<open>The \<open>GatewayCommandClaim\<close> of an existing row, with the fields the dataclass defaults.\<close>

definition row_claim :: "command_request \<Rightarrow> command_row \<Rightarrow> claim_status \<Rightarrow> command_claim" where
  "row_claim q r status =
     \<lparr>cc_status = status, cc_command_id = gc_command_id r, cc_task_id = gc_task_id r,
      cc_mailbox_message_id = gc_mailbox_message_id r, cc_operation = cq_operation q,
      cc_target = cq_target q, cc_claim_token = None, cc_response_json = None,
      cc_error_json = None\<rparr>"

text \<open>
  \<open>claim\<close>: an error rolls the transaction back, so the store is unchanged then.
\<close>

definition claim_command ::
  "command_request \<Rightarrow> pystr \<Rightarrow> command_store \<Rightarrow> command_store \<times> (command_error + command_claim)"
where
  "claim_command q claim_token rows =
     (case row_at row_key (request_key q) rows of
        None \<Rightarrow>
          if cq_new_command_id q \<in> gc_command_id ` set rows then (rows, Inl Command_integrity)
          else (rows @ [new_command_row q claim_token],
                Inr \<lparr>cc_status = CS_acquired, cc_command_id = cq_new_command_id q,
                     cc_task_id = cq_proposed_task_id q,
                     cc_mailbox_message_id = cq_proposed_mailbox_message_id q,
                     cc_operation = cq_operation q, cc_target = cq_target q,
                     cc_claim_token = Some claim_token, cc_response_json = None,
                     cc_error_json = None\<rparr>)
      | Some r \<Rightarrow>
          if \<not> same_command q r then (rows, Inl Command_conflict)
          else (case gc_state r of
                  Cmd_succeeded \<Rightarrow>
                    if nonempty_opt (gc_response_json r)
                    then (rows, Inr ((row_claim q r CS_replay)\<lparr>cc_response_json := gc_response_json r\<rparr>))
                    else (rows, Inl (Command_state_error (gc_command_id r)))
                | Cmd_failed \<Rightarrow>
                    if nonempty_opt (gc_error_json r)
                    then (rows, Inr ((row_claim q r CS_terminal)\<lparr>cc_error_json := gc_error_json r\<rparr>))
                    else (rows, Inl (Command_state_error (gc_command_id r)))
                | Cmd_processing \<Rightarrow> (rows, Inr (row_claim q r CS_busy))
                | Cmd_invalid s \<Rightarrow> (rows, Inl (Command_state_error (gc_command_id r)))
                | Cmd_pending \<Rightarrow>
                    (rows_update (\<lambda>x. gc_command_id x = gc_command_id r \<and> gc_state x = Cmd_pending)
                       (\<lambda>x. x\<lparr>gc_state := Cmd_processing, gc_claim_token := Some claim_token,
                               gc_updated_at := cq_now q\<rparr>) rows,
                     Inr ((row_claim q r CS_acquired)\<lparr>cc_claim_token := Some claim_token\<rparr>))))"

definition claimed_by :: "pystr \<Rightarrow> pystr \<Rightarrow> command_row \<Rightarrow> bool" where
  "claimed_by command_id claim_token r \<longleftrightarrow>
     gc_command_id r = command_id \<and> gc_state r = Cmd_processing \<and> gc_claim_token r = Some claim_token"

text \<open>
  The fenced updates commit first and raise when they did not hit exactly one row.
\<close>

definition fenced_command_update ::
  "(command_row \<Rightarrow> bool) \<Rightarrow> (command_row \<Rightarrow> command_row) \<Rightarrow> pystr \<Rightarrow> command_store \<Rightarrow>
   command_store \<times> (command_error + unit)" where
  "fenced_command_update P f command_id rows =
     (rows_update P f rows,
      if rows_count P rows \<noteq> 1 then Inl (Command_state_error command_id) else Inr ())"

definition command_complete ::
  "pystr \<Rightarrow> pystr \<Rightarrow> pystr \<Rightarrow> int \<Rightarrow> command_store \<Rightarrow> command_store \<times> (command_error + unit)" where
  "command_complete command_id claim_token response_json now rows =
     fenced_command_update (claimed_by command_id claim_token)
       (\<lambda>r. r\<lparr>gc_state := Cmd_succeeded, gc_response_json := Some response_json,
               gc_claim_token := None, gc_error_json := None, gc_updated_at := now\<rparr>)
       command_id rows"

definition mark_effect_started ::
  "pystr \<Rightarrow> pystr \<Rightarrow> bool \<Rightarrow> int \<Rightarrow> command_store \<Rightarrow> command_store \<times> (command_error + unit)" where
  "mark_effect_started command_id claim_token replay_safe now rows =
     fenced_command_update (claimed_by command_id claim_token)
       (\<lambda>r. r\<lparr>gc_effect_started := True, gc_replay_safe := replay_safe, gc_updated_at := now\<rparr>)
       command_id rows"

definition command_fail ::
  "pystr \<Rightarrow> pystr \<Rightarrow> pystr \<Rightarrow> int \<Rightarrow> command_store \<Rightarrow> command_store \<times> (command_error + unit)" where
  "command_fail command_id claim_token error_json now rows =
     fenced_command_update (claimed_by command_id claim_token)
       (\<lambda>r. r\<lparr>gc_state := Cmd_failed, gc_error_json := Some error_json,
               gc_claim_token := None, gc_updated_at := now\<rparr>)
       command_id rows"

definition command_release :: "pystr \<Rightarrow> pystr \<Rightarrow> int \<Rightarrow> command_store \<Rightarrow> command_store" where
  "command_release command_id claim_token now rows =
     rows_update (\<lambda>r. claimed_by command_id claim_token r
         \<and> \<not> (gc_effect_started r \<and> \<not> gc_replay_safe r))
       (\<lambda>r. r\<lparr>gc_state := Cmd_pending, gc_claim_token := None, gc_effect_started := False,
               gc_updated_at := now\<rparr>) rows"

definition release_not_dispatched ::
  "pystr \<Rightarrow> pystr \<Rightarrow> int \<Rightarrow> command_store \<Rightarrow> command_store \<times> (command_error + unit)" where
  "release_not_dispatched command_id claim_token now rows =
     fenced_command_update
       (\<lambda>r. claimed_by command_id claim_token r \<and> gc_operation r = str ''create_task'')
       (\<lambda>r. r\<lparr>gc_state := Cmd_pending, gc_claim_token := None, gc_effect_started := False,
               gc_replay_safe := False, gc_error_json := None, gc_updated_at := now\<rparr>)
       command_id rows"

definition reopen_not_dispatched ::
  "pystr \<Rightarrow> pystr \<Rightarrow> int \<Rightarrow> command_store \<Rightarrow> command_store \<times> bool" where
  "reopen_not_dispatched command_id expected_error_json now rows =
     (let P = (\<lambda>r. gc_command_id r = command_id \<and> gc_operation r = str ''create_task''
                 \<and> gc_state r = Cmd_failed \<and> gc_error_json r = Some expected_error_json)
      in (rows_update P
            (\<lambda>r. r\<lparr>gc_state := Cmd_pending, gc_claim_token := None, gc_effect_started := False,
                    gc_replay_safe := False, gc_error_json := None, gc_updated_at := now\<rparr>) rows,
          rows_count P rows = 1))"

definition count_commands :: "command_store \<Rightarrow> nat" where
  "count_commands rows = length rows"

text \<open>The error a crashed, non-replayable command is closed with at the next start.\<close>

definition uncertain_error :: "pystr \<Rightarrow> pystr" where
  "uncertain_error task_id =
     dumps_sorted (J_obj
       [(str ''code'', J_str (str ''idempotency_outcome_uncertain'')),
        (str ''message'', J_str (str ''The previous Gateway command may have reached a ''
           @ str ''non-idempotent downstream service'')),
        (str ''details'', J_obj
           [(str ''task_id'', J_str task_id),
            (str ''create_retryable'', J_bool False),
            (str ''effect_outcome'', J_str (str ''uncertain''))])])"

definition unsafe_started :: "command_row \<Rightarrow> bool" where
  "unsafe_started r \<longleftrightarrow> gc_state r = Cmd_processing \<and> gc_effect_started r \<and> \<not> gc_replay_safe r"

text \<open>\<open>_recover_interrupted_claims\<close>: close the unsafe rows one by one, then release the rest.\<close>

definition recover_interrupted :: "int \<Rightarrow> command_store \<Rightarrow> command_store" where
  "recover_interrupted now rows =
     (let close_row = (\<lambda>x rs. rows_update
             (\<lambda>r. gc_command_id r = gc_command_id x \<and> gc_state r = Cmd_processing)
             (\<lambda>r. r\<lparr>gc_state := Cmd_failed, gc_claim_token := None,
                     gc_error_json := Some (uncertain_error (gc_task_id x)),
                     gc_updated_at := now\<rparr>) rs);
          rows' = fold close_row (filter unsafe_started rows) rows
      in rows_update (\<lambda>r. gc_state r = Cmd_processing)
           (\<lambda>r. r\<lparr>gc_state := Cmd_pending, gc_claim_token := None, gc_effect_started := False,
                   gc_updated_at := now\<rparr>) rows')"

subsection \<open>Invariant\<close>

definition commands_ok :: "command_store \<Rightarrow> bool" where
  "commands_ok rows \<longleftrightarrow> unique_key gc_command_id rows \<and> unique_key row_key rows \<and>
     (\<forall>r \<in> set rows. gc_state r = Cmd_processing \<longleftrightarrow> gc_claim_token r \<noteq> None)"

lemma commands_ok_Nil: "commands_ok []"
  by (simp add: commands_ok_def unique_key_def)

lemma commands_ok_update:
  assumes "commands_ok rows"
    and "\<And>r. P r \<Longrightarrow> gc_command_id (f r) = gc_command_id r \<and> row_key (f r) = row_key r"
    and "\<And>r. P r \<Longrightarrow> gc_state (f r) = Cmd_processing \<longleftrightarrow> gc_claim_token (f r) \<noteq> None"
  shows "commands_ok (rows_update P f rows)"
  using assms by (auto simp: commands_ok_def unique_key_rows_update in_rows_update split: if_splits)

lemma row_key_update [simp]:
  "row_key (r\<lparr>gc_state := s\<rparr>) = row_key r" "row_key (r\<lparr>gc_claim_token := t\<rparr>) = row_key r"
  "row_key (r\<lparr>gc_response_json := x\<rparr>) = row_key r" "row_key (r\<lparr>gc_error_json := x\<rparr>) = row_key r"
  "row_key (r\<lparr>gc_effect_started := b\<rparr>) = row_key r" "row_key (r\<lparr>gc_replay_safe := b\<rparr>) = row_key r"
  "row_key (r\<lparr>gc_updated_at := n\<rparr>) = row_key r"
  by (simp_all add: row_key_def)

lemma commands_ok_claim: "commands_ok rows \<Longrightarrow> commands_ok (fst (claim_command q tok rows))"
proof -
  assume ok: "commands_ok rows"
  show ?thesis
  proof (cases "row_at row_key (request_key q) rows")
    case None
    then have "request_key q \<notin> row_key ` set rows"
      by (simp add: row_at_None)
    then show ?thesis
      using ok None
      by (auto simp: claim_command_def commands_ok_def unique_key_snoc new_command_row_def row_key_def
          request_key_def)
  next
    case (Some r)
    then show ?thesis
      using ok by (auto simp: claim_command_def split: command_state.split intro!: commands_ok_update)
  qed
qed

lemma commands_ok_complete: "commands_ok rows \<Longrightarrow> commands_ok (fst (command_complete c t x n rows))"
  by (auto simp: command_complete_def fenced_command_update_def intro: commands_ok_update)

lemma commands_ok_effect: "commands_ok rows \<Longrightarrow> commands_ok (fst (mark_effect_started c t b n rows))"
  by (auto simp: mark_effect_started_def fenced_command_update_def claimed_by_def
      intro!: commands_ok_update)

lemma commands_ok_fail: "commands_ok rows \<Longrightarrow> commands_ok (fst (command_fail c t x n rows))"
  by (auto simp: command_fail_def fenced_command_update_def intro: commands_ok_update)

lemma commands_ok_release: "commands_ok rows \<Longrightarrow> commands_ok (command_release c t n rows)"
  by (auto simp: command_release_def intro: commands_ok_update)

lemma commands_ok_release_nd: "commands_ok rows \<Longrightarrow> commands_ok (fst (release_not_dispatched c t n rows))"
  by (auto simp: release_not_dispatched_def fenced_command_update_def intro: commands_ok_update)

lemma commands_ok_reopen: "commands_ok rows \<Longrightarrow> commands_ok (fst (reopen_not_dispatched c x n rows))"
  by (auto simp: reopen_not_dispatched_def Let_def intro: commands_ok_update)

subsection \<open>Recovery row by row\<close>

definition close_unsafe :: "int \<Rightarrow> command_row \<Rightarrow> command_row" where
  "close_unsafe now r = r\<lparr>gc_state := Cmd_failed, gc_claim_token := None,
     gc_error_json := Some (uncertain_error (gc_task_id r)), gc_updated_at := now\<rparr>"

definition reopen_safe :: "int \<Rightarrow> command_row \<Rightarrow> command_row" where
  "reopen_safe now r = r\<lparr>gc_state := Cmd_pending, gc_claim_token := None,
     gc_effect_started := False, gc_updated_at := now\<rparr>"

definition recover_row :: "int \<Rightarrow> command_row \<Rightarrow> command_row" where
  "recover_row now r =
     (if unsafe_started r then close_unsafe now r
      else if gc_state r = Cmd_processing then reopen_safe now r else r)"

lemma fold_close:
  assumes "unique_key gc_command_id rows" and "distinct xs" and "set xs \<subseteq> set rows"
    and "\<forall>x \<in> set xs. gc_state x = Cmd_processing"
  shows "fold (\<lambda>x rs. rows_update
             (\<lambda>r. gc_command_id r = gc_command_id x \<and> gc_state r = Cmd_processing)
             (\<lambda>r. r\<lparr>gc_state := Cmd_failed, gc_claim_token := None,
                     gc_error_json := Some (uncertain_error (gc_task_id x)),
                     gc_updated_at := now\<rparr>) rs) xs rows
       = map (\<lambda>r. if r \<in> set xs then close_unsafe now r else r) rows"
  using assms
proof (induction xs rule: rev_induct)
  case Nil
  then show ?case by simp
next
  case (snoc x xs)
  have same: "r = x" if "r \<in> set rows" "gc_command_id r = gc_command_id x" for r
    using that snoc.prems row_at_unique [of gc_command_id rows] by (metis in_set_conv_decomp
      option.inject set_append subsetD)
  show ?case
    using snoc same by (auto simp: rows_update_def close_unsafe_def)
qed

lemma recover_interrupted_eq:
  assumes "commands_ok rows"
  shows "recover_interrupted now rows = map (recover_row now) rows"
proof -
  have d: "distinct (filter unsafe_started rows)"
    using assms by (auto simp: commands_ok_def unique_key_def distinct_map)
  have u: "unique_key gc_command_id rows"
    using assms by (simp add: commands_ok_def)
  show ?thesis
    unfolding recover_interrupted_def Let_def
    by (subst fold_close [OF u d])
      (auto simp: unsafe_started_def rows_update_def recover_row_def close_unsafe_def reopen_safe_def)
qed

lemma recover_row_keys [simp]:
  "gc_command_id (recover_row now r) = gc_command_id r" "row_key (recover_row now r) = row_key r"
  by (simp_all add: recover_row_def close_unsafe_def reopen_safe_def)

lemma commands_ok_recover: "commands_ok rows \<Longrightarrow> commands_ok (recover_interrupted now rows)"
  unfolding recover_interrupted_eq
  by (auto simp: commands_ok_def unique_key_map)
    (auto simp: recover_row_def close_unsafe_def reopen_safe_def unsafe_started_def split: if_splits)

lemma row_at_recover:
  "commands_ok rows \<Longrightarrow> row_at row_key K (recover_interrupted now rows)
     = map_option (recover_row now) (row_at row_key K rows)"
  by (simp add: recover_interrupted_eq row_at_map)

subsection \<open>Runs of the ledger\<close>

datatype command_op =
    C_claim command_request pystr
  | C_complete pystr pystr pystr int
  | C_effect pystr pystr bool int
  | C_fail pystr pystr pystr int
  | C_release pystr pystr int
  | C_release_nd pystr pystr int
  | C_reopen_nd pystr pystr int
  | C_recover int

fun command_step :: "command_op \<Rightarrow> command_store \<Rightarrow> command_store" where
  "command_step (C_claim q tok) rows = fst (claim_command q tok rows)"
| "command_step (C_complete c t x n) rows = fst (command_complete c t x n rows)"
| "command_step (C_effect c t b n) rows = fst (mark_effect_started c t b n rows)"
| "command_step (C_fail c t x n) rows = fst (command_fail c t x n rows)"
| "command_step (C_release c t n) rows = command_release c t n rows"
| "command_step (C_release_nd c t n) rows = fst (release_not_dispatched c t n rows)"
| "command_step (C_reopen_nd c x n) rows = fst (reopen_not_dispatched c x n rows)"
| "command_step (C_recover n) rows = recover_interrupted n rows"

definition acquired :: "command_error + command_claim \<Rightarrow> bool" where
  "acquired res = (case res of Inl _ \<Rightarrow> False | Inr c \<Rightarrow> cc_status c = CS_acquired)"

text \<open>The operations that acquire the command with the given key, in a run.\<close>

fun acquisitions :: "pystr \<times> pystr \<Rightarrow> command_op list \<Rightarrow> command_store \<Rightarrow> nat" where
  "acquisitions K [] rows = 0"
| "acquisitions K (op # ops) rows =
     (case op of
        C_claim q tok \<Rightarrow> if request_key q = K \<and> acquired (snd (claim_command q tok rows)) then 1 else 0
      | _ \<Rightarrow> 0) + acquisitions K ops (command_step op rows)"

fun command_run :: "command_op list \<Rightarrow> command_store \<Rightarrow> command_store" where
  "command_run [] rows = rows"
| "command_run (op # ops) rows = command_run ops (command_step op rows)"

lemma commands_ok_step: "commands_ok rows \<Longrightarrow> commands_ok (command_step op rows)"
  using commands_ok_claim commands_ok_complete commands_ok_effect commands_ok_fail commands_ok_release
    commands_ok_release_nd commands_ok_reopen commands_ok_recover
  by (cases op) simp_all

lemma commands_ok_run: "commands_ok rows \<Longrightarrow> commands_ok (command_run ops rows)"
  by (induction ops arbitrary: rows) (simp_all add: commands_ok_step)

text \<open>
  What a step does to the row of one key: it applies a function to it (claims of other
  keys and updates of other commands apply none).
\<close>

lemma row_at_fenced:
  assumes "commands_ok rows" and "row_at row_key K rows = Some r"
    and "\<And>x. P x \<Longrightarrow> row_key (f x) = row_key x"
  shows "row_at row_key K (rows_update P f rows) = Some (if P r then f r else r)"
  using assms by (simp add: row_at_rows_update)

lemmas command_defs = command_complete_def mark_effect_started_def command_fail_def
  command_release_def release_not_dispatched_def reopen_not_dispatched_def fenced_command_update_def
  Let_def

lemma row_at_claim_other:
  assumes "commands_ok rows" and "row_at row_key K rows = Some r" and "request_key q \<noteq> K"
  shows "row_at row_key K (fst (claim_command q tok rows)) = Some r"
proof (cases "row_at row_key (request_key q) rows")
  case None
  then show ?thesis
    using assms by (simp add: claim_command_def row_at_snoc)
next
  case (Some s)
  then have s: "s \<in> set rows" "row_key s = request_key q" and r: "r \<in> set rows" "row_key r = K"
    using assms(2) by (auto dest: row_at_SomeD)
  then have "gc_command_id r \<noteq> gc_command_id s"
    using assms unique_key_same [of gc_command_id rows r s] by (auto simp: commands_ok_def)
  then show ?thesis
    using assms Some by (simp add: claim_command_def row_at_rows_update split: command_state.split)
qed

lemma row_at_claim_same:
  assumes "row_at row_key (request_key q) rows = Some r"
  shows "row_at row_key (request_key q) (fst (claim_command q tok rows)) =
    Some (if same_command q r \<and> gc_state r = Cmd_pending
          then r\<lparr>gc_state := Cmd_processing, gc_claim_token := Some tok, gc_updated_at := cq_now q\<rparr>
          else r)"
  using assms by (simp add: claim_command_def row_at_rows_update split: command_state.split)

text \<open>A row that no later step may hand out: finished, or started unsafely.\<close>

definition sealed :: "command_row \<Rightarrow> bool" where
  "sealed r \<longleftrightarrow> unsafe_started r \<or> gc_state r = Cmd_succeeded \<or> gc_state r = Cmd_failed"

text \<open>
  The steps by which the workflow takes an unsafe start back: it declares the effect
  replayable, or presents evidence that nothing was dispatched.
\<close>

fun takes_back :: "pystr \<Rightarrow> command_op \<Rightarrow> bool" where
  "takes_back c (C_effect c' t b n) = (c' = c \<and> b)"
| "takes_back c (C_release_nd c' t n) = (c' = c)"
| "takes_back c (C_reopen_nd c' x n) = (c' = c)"
| "takes_back c _ = False"

lemma sealed_step:
  assumes "commands_ok rows" and "row_at row_key K rows = Some r" and "sealed r"
    and "\<not> takes_back (gc_command_id r) op"
  shows "\<exists>r'. row_at row_key K (command_step op rows) = Some r' \<and> sealed r'
    \<and> gc_command_id r' = gc_command_id r"
proof (cases op)
  case (C_claim q tok)
  show ?thesis
  proof (cases "request_key q = K")
    case True
    then show ?thesis
      using assms row_at_claim_same [of q rows r tok] C_claim
      by (auto simp: sealed_def unsafe_started_def)
  next
    case False
    then show ?thesis
      using assms row_at_claim_other [of rows K r q tok] C_claim by simp
  qed
next
  case (C_recover n)
  then show ?thesis
    using assms
    by (auto simp: recover_interrupted_eq row_at_map recover_row_def close_unsafe_def reopen_safe_def
        sealed_def unsafe_started_def)
qed (use assms in \<open>auto simp: command_defs row_at_fenced claimed_by_def sealed_def unsafe_started_def\<close>)

lemma claim_sealed:
  "row_at row_key (request_key q) rows = Some r \<Longrightarrow> sealed r \<Longrightarrow> \<not> acquired (snd (claim_command q tok rows))"
  by (auto simp: claim_command_def acquired_def sealed_def unsafe_started_def row_claim_def
      split: command_state.split)

lemma succeeded_step:
  assumes "commands_ok rows" and "row_at row_key K rows = Some r" and "gc_state r = Cmd_succeeded"
  shows "row_at row_key K (command_step op rows) = Some r"
proof (cases op)
  case (C_claim q tok)
  then show ?thesis
    using assms row_at_claim_same [of q rows r tok] row_at_claim_other [of rows K r q tok]
    by (cases "request_key q = K") auto
next
  case (C_recover n)
  then show ?thesis
    using assms by (simp add: row_at_recover) (simp add: recover_row_def unsafe_started_def)
qed (use assms in \<open>auto simp: command_defs row_at_fenced claimed_by_def\<close>)

lemma succeeded_run:
  assumes "commands_ok rows" and "row_at row_key K rows = Some r" and "gc_state r = Cmd_succeeded"
  shows "row_at row_key K (command_run ops rows) = Some r"
  using assms
  by (induction ops arbitrary: rows) (simp_all add: commands_ok_step succeeded_step)

subsection \<open>The ledger as a lease\<close>

text \<open>
  The environment of an operation is the request (its key replaced by the lease's), the
  response text and the clock; the holder completes the command whose id its claim returned.
\<close>

type_synonym command_env = "command_request \<times> pystr \<times> int"

definition command_owner :: "command_store \<Rightarrow> pystr \<times> pystr \<Rightarrow> pystr option" where
  "command_owner rows K = (case row_at row_key K rows of None \<Rightarrow> None | Some r \<Rightarrow> gc_claim_token r)"

definition command_busy :: "command_env \<Rightarrow> command_store \<Rightarrow> pystr \<times> pystr \<Rightarrow> bool" where
  "command_busy e rows K =
     (case row_at row_key K rows of None \<Rightarrow> False | Some r \<Rightarrow> gc_state r = Cmd_processing)"

definition command_acquire ::
  "command_env \<Rightarrow> pystr \<Rightarrow> pystr \<times> pystr \<Rightarrow> command_store \<Rightarrow> command_store \<times> bool" where
  "command_acquire e tok K rows =
     (let q = (fst e)\<lparr>cq_principal_id := fst K, cq_idempotency_key := snd K\<rparr>;
          (rows', res) = claim_command q tok rows
      in (rows', acquired res))"

definition command_finish ::
  "command_env \<Rightarrow> pystr \<Rightarrow> pystr \<times> pystr \<Rightarrow> command_store \<Rightarrow> command_store \<times> bool" where
  "command_finish e tok K rows =
     (case row_at row_key K rows of
        None \<Rightarrow> (rows, False)
      | Some r \<Rightarrow>
          let (rows', res) = command_complete (gc_command_id r) tok (fst (snd e)) (snd (snd e)) rows
          in (rows', res = Inr ()))"

lemma claimed_count:
  assumes "commands_ok rows" and "row_at row_key K rows = Some r"
  shows "rows_count (claimed_by (gc_command_id r) tok) rows = (if gc_claim_token r = Some tok then 1 else 0)"
proof -
  have u: "unique_key gc_command_id rows" and r: "r \<in> set rows"
    using assms by (auto simp: commands_ok_def dest: row_at_SomeD)
  have "gc_claim_token r = Some tok \<longrightarrow> gc_state r = Cmd_processing"
    using assms r by (auto simp: commands_ok_def)
  then show ?thesis
    using rows_count_key [OF u, of "claimed_by (gc_command_id r) tok" "gc_command_id r"]
      row_at_unique [OF u r] by (simp add: claimed_by_def)
qed

lemma claimed_update_id:
  assumes "commands_ok rows" and "row_at row_key K rows = Some r" and "gc_claim_token r \<noteq> Some tok"
  shows "rows_update (claimed_by (gc_command_id r) tok) f rows = rows"
  using claimed_count [OF assms(1,2), of tok] assms(3)
  by (intro rows_update_id) (auto simp: rows_count_0)

lemma claimed_other_key:
  assumes "commands_ok rows" and "row_at row_key K rows = Some r" and "row_at row_key K' rows = Some r'"
    and "K' \<noteq> K"
  shows "\<not> claimed_by (gc_command_id r) tok r'"
  using assms unique_key_same [of gc_command_id rows r r']
  by (auto simp: claimed_by_def commands_ok_def dest!: row_at_SomeD)

lemma command_finish_cases:
  assumes "commands_ok rows"
  shows "command_finish e tok K rows =
    (case row_at row_key K rows of
       None \<Rightarrow> (rows, False)
     | Some r \<Rightarrow> if gc_claim_token r = Some tok
         then (fst (command_complete (gc_command_id r) tok (fst (snd e)) (snd (snd e)) rows), True)
         else (rows, False))"
  using claimed_count [OF assms] claimed_update_id [OF assms]
  by (auto simp: command_finish_def command_complete_def fenced_command_update_def Let_def
      case_prod_beta split: option.split)

lemma row_at_complete:
  assumes "commands_ok rows" and "row_at row_key K rows = Some r"
  shows "row_at row_key K' (fst (command_complete (gc_command_id r) tok x n rows)) =
    (if K' = K \<and> gc_claim_token r = Some tok
     then Some (r\<lparr>gc_state := Cmd_succeeded, gc_response_json := Some x, gc_claim_token := None,
                  gc_error_json := None, gc_updated_at := n\<rparr>)
     else row_at row_key K' rows)"
proof (cases "row_at row_key K' rows")
  case None
  then show ?thesis
    using assms by (auto simp: command_complete_def fenced_command_update_def row_at_rows_update)
next
  case (Some r')
  have "gc_claim_token r = Some tok \<longrightarrow> gc_state r = Cmd_processing"
    using assms by (auto simp: commands_ok_def dest: row_at_SomeD)
  then show ?thesis
    using assms Some claimed_other_key [OF assms Some, of tok]
    by (cases "K' = K")
      (auto simp: command_complete_def fenced_command_update_def row_at_rows_update claimed_by_def)
qed

lemma command_acquire_cases:
  assumes "commands_ok rows"
  shows "snd (command_acquire e tok K rows) \<Longrightarrow>
      command_owner (fst (command_acquire e tok K rows)) K = Some tok \<and>
      command_busy e' (fst (command_acquire e tok K rows)) K"
    and "\<not> snd (command_acquire e tok K rows) \<Longrightarrow> fst (command_acquire e tok K rows) = rows"
  by (auto simp: command_acquire_def claim_command_def acquired_def command_owner_def command_busy_def
      Let_def case_prod_beta request_key_def row_at_snoc row_at_rows_update new_command_row_def
      row_key_def row_claim_def split: option.splits command_state.splits if_splits
      dest!: row_at_SomeD)

interpretation command_lease: exclusive_lease commands_ok command_owner command_acquire command_finish
  "\<lambda>_. True" command_busy
proof unfold_locales
  fix s :: command_store and e :: command_env and t k k'
  assume ok: "commands_ok s"
  let ?q = "(fst e)\<lparr>cq_principal_id := fst k, cq_idempotency_key := snd k\<rparr>"
  show "commands_ok (fst (command_acquire e t k s))"
    using commands_ok_claim [OF ok] by (simp add: command_acquire_def case_prod_beta Let_def)
  show "commands_ok (fst (command_finish e t k s))"
    using commands_ok_complete [OF ok] ok
    by (simp add: command_finish_cases [OF ok] split: option.split)
  show "snd (command_acquire e t k s) \<Longrightarrow> command_owner (fst (command_acquire e t k s)) k = Some t"
    using command_acquire_cases(1) [OF ok] by blast
  show "\<not> snd (command_acquire e t k s) \<Longrightarrow> command_owner (fst (command_acquire e t k s)) k = command_owner s k"
    using command_acquire_cases(2) [OF ok] by simp
  show "k' \<noteq> k \<Longrightarrow> command_owner (fst (command_acquire e t k s)) k' = command_owner s k'"
  proof -
    assume "k' \<noteq> k"
    then have ne: "request_key ?q \<noteq> k'"
      by (cases k) (simp add: request_key_def)
    show ?thesis
    proof (cases "row_at row_key k' s")
      case None
      then show ?thesis
        using ne by (auto simp: command_acquire_def claim_command_def command_owner_def case_prod_beta
            Let_def row_at_snoc row_at_rows_update new_command_row_def row_key_def request_key_def
            split: option.split command_state.split)
    next
      case (Some r)
      then show ?thesis
        using row_at_claim_other [OF ok Some ne]
        by (simp add: command_acquire_def command_owner_def case_prod_beta Let_def)
    qed
  qed
  show "snd (command_finish e t k s) \<Longrightarrow> command_owner s k = Some t"
    by (auto simp: command_finish_cases [OF ok] command_owner_def split: option.splits if_splits)
  show "snd (command_finish e t k s) \<Longrightarrow> command_owner (fst (command_finish e t k s)) k = None"
    by (auto simp: command_finish_cases [OF ok] command_owner_def row_at_complete [OF ok]
        split: option.splits if_splits)
  show "\<not> snd (command_finish e t k s) \<Longrightarrow> fst (command_finish e t k s) = s"
    by (auto simp: command_finish_cases [OF ok] split: option.splits if_splits)
  show "k' \<noteq> k \<Longrightarrow> command_owner (fst (command_finish e t k s)) k' = command_owner s k'"
    by (auto simp: command_finish_cases [OF ok] command_owner_def row_at_complete [OF ok]
        split: option.splits)
  show "command_busy e s k \<Longrightarrow> \<not> snd (command_acquire e t k s)"
    by (cases k) (auto simp: command_busy_def command_acquire_def claim_command_def acquired_def
        request_key_def row_claim_def case_prod_beta Let_def split: option.splits)
  show "snd (command_acquire e t k s) \<Longrightarrow> command_busy e (fst (command_acquire e t k s)) k"
    using command_acquire_cases(1) [OF ok] by blast
qed

subsection \<open>Properties\<close>

text \<open>
  C1. A command whose non-replayable effect was started, or that has already succeeded or failed, is
  not handed out for execution again by any run of claims, releases, effects, completions, failures
  and restarts in which no operation takes its effect back: no \<open>release_not_dispatched\<close> or
  \<open>reopen_not_dispatched\<close> of this command, by which the workflow states that nothing was dispatched
  (the second reopens a failed command too), and no \<open>mark_effect_started\<close> of it as replayable.
\<close>

theorem unsafe_effect_never_reissued:
  assumes "commands_ok rows" and "row_at row_key K rows = Some r" and "sealed r"
    and "\<forall>op \<in> set ops. \<not> takes_back (gc_command_id r) op"
  shows "acquisitions K ops rows = 0"
  using assms
proof (induction ops arbitrary: rows r)
  case Nil
  then show ?case by simp
next
  case (Cons op ops)
  obtain r' where r': "row_at row_key K (command_step op rows) = Some r'" "sealed r'"
    "gc_command_id r' = gc_command_id r"
    using sealed_step [OF Cons.prems(1-3)] Cons.prems(4) by force
  have "acquisitions K ops (command_step op rows) = 0"
    using Cons.prems r' by (intro Cons.IH [OF commands_ok_step r'(1,2)]) auto
  moreover have "\<not> acquired (snd (claim_command q tok rows))" if "request_key q = K" for q tok
    using claim_sealed Cons.prems(2,3) that by blast
  ultimately show ?case
    by (auto split: command_op.split)
qed

text \<open>
  C40. A completed command answers every repetition with the stored response: whatever runs
  in between, a later claim of the same request changes nothing and returns the response,
  the command and the Task of the first execution.
\<close>

theorem command_response_replayed:
  assumes "commands_ok rows" and "row_at row_key (request_key q) rows = Some r" and "same_command q r"
    and "snd (command_complete (gc_command_id r) holder x n rows) = Inr ()" and "x \<noteq> []"
    and "rows' = command_run ops (fst (command_complete (gc_command_id r) holder x n rows))"
  shows "\<exists>c. claim_command q tok rows' = (rows', Inr c) \<and> cc_status c = CS_replay
    \<and> cc_response_json c = Some x \<and> cc_command_id c = gc_command_id r \<and> cc_task_id c = gc_task_id r"
proof -
  have own: "gc_claim_token r = Some holder"
    using claimed_count [OF assms(1,2), of holder] assms(4)
    by (simp add: command_complete_def fenced_command_update_def split: if_splits)
  have "row_at row_key (request_key q) rows' = Some (r\<lparr>gc_state := Cmd_succeeded,
      gc_response_json := Some x, gc_claim_token := None, gc_error_json := None, gc_updated_at := n\<rparr>)"
    unfolding assms(6)
    by (rule succeeded_run) (simp_all add: commands_ok_complete assms(1) row_at_complete [OF assms(1,2)] own)
  then show ?thesis
    using assms(3,5) by (simp add: claim_command_def same_command_def row_claim_def)
qed

text \<open>
  One execution at a time: while the command a claim acquired is processing, a second
  claim with the same key acquires nothing, and the first token stays the owner.
\<close>

theorem command_single_flight:
  assumes "commands_ok rows" and "acquired (snd (claim_command q tok rows))"
    and "request_key q' = request_key q"
  shows "\<not> acquired (snd (claim_command q' tok' (fst (claim_command q tok rows)))) \<and>
         command_owner (fst (claim_command q' tok' (fst (claim_command q tok rows)))) (request_key q)
           = Some tok"
proof -
  have same: "(fst (p, [], 0))\<lparr>cq_principal_id := fst (request_key p),
      cq_idempotency_key := snd (request_key p)\<rparr> = p" for p :: command_request
    by (simp add: request_key_def)
  have acq: "command_acquire (p, [], 0) t (request_key p) s = (fst (claim_command p t s),
      acquired (snd (claim_command p t s)))" for p t s
    by (simp only: command_acquire_def same Let_def case_prod_beta)
  show ?thesis
    using command_lease.second_acquire_refused [OF assms(1), where t = tok and e = "(q, [], 0)"
      and k = "request_key q" and e' = "(q', [], 0)" and t' = tok'] assms(2,3) acq [of q tok rows] acq [of q' tok' "fst (claim_command q tok rows)"]
    by (simp add: command_busy_def)
qed

text \<open>
  The restart: every command survives it; one caught with a non-replayable effect
  under way becomes failed with the uncertain-outcome error, any other processing command
  becomes pending with its start mark cleared, and all others are unchanged.
\<close>

theorem recovery_outcome:
  assumes "commands_ok rows" and "row_at row_key K rows = Some r"
  shows "\<exists>r'. row_at row_key K (recover_interrupted now rows) = Some r' \<and>
    (if unsafe_started r then gc_state r' = Cmd_failed \<and> gc_claim_token r' = None
         \<and> gc_error_json r' = Some (uncertain_error (gc_task_id r))
     else if gc_state r = Cmd_processing then gc_state r' = Cmd_pending \<and> gc_claim_token r' = None
         \<and> \<not> gc_effect_started r'
     else r' = r)"
  using assms
  by (simp add: row_at_recover) (simp add: recover_row_def close_unsafe_def reopen_safe_def)

text \<open>
  Reusing an idempotency key for a different operation, target or body is refused in
  every state of the first command, and the ledger is not touched.
\<close>

theorem command_key_conflict:
  assumes "row_at row_key (request_key q) rows = Some r" and "\<not> same_command q r"
  shows "claim_command q tok rows = (rows, Inl Command_conflict)"
  using assms by (simp add: claim_command_def)

subsection \<open>Witnesses\<close>

definition wit_request :: "string \<Rightarrow> command_request" where
  "wit_request hash = \<lparr>cq_principal_id = str ''p'', cq_idempotency_key = str ''k'',
     cq_operation = str ''create_task'', cq_target = str ''agent'', cq_request_hash = str hash,
     cq_proposed_task_id = str ''t1'', cq_proposed_mailbox_message_id = None, cq_now = 0,
     cq_new_command_id = str ''c1''\<rparr>"

definition wit_claimed :: command_store where
  "wit_claimed = fst (claim_command (wit_request ''h'') (str ''tok'') [])"

definition wit_unsafe :: command_store where
  "wit_unsafe = fst (mark_effect_started (str ''c1'') (str ''tok'') False 1 wit_claimed)"

lemma wit_claimed_ok: "commands_ok wit_claimed"
  unfolding wit_claimed_def by (intro commands_ok_claim commands_ok_Nil)

lemma wit_unsafe_ok: "commands_ok wit_unsafe"
  unfolding wit_unsafe_def by (intro commands_ok_effect wit_claimed_ok)

lemma wit_row: "row_at row_key (request_key (wit_request ''h'')) wit_claimed
    = Some (new_command_row (wit_request ''h'') (str ''tok''))"
  by (simp add: wit_claimed_def claim_command_def new_command_row_def row_key_def request_key_def)

theorem unsafe_effect_never_reissued_witness:
  "acquisitions (str ''p'', str ''k'')
     [C_release (str ''c1'') (str ''tok'') 2, C_recover 3, C_claim (wit_request ''h'') (str ''tok2'')]
     wit_unsafe = 0"
proof -
  obtain r where r: "row_at row_key (str ''p'', str ''k'') wit_unsafe = Some r"
    "sealed r" "gc_command_id r = str ''c1''"
  proof
    show "row_at row_key (str ''p'', str ''k'') wit_unsafe =
      Some ((new_command_row (wit_request ''h'') (str ''tok''))
        \<lparr>gc_effect_started := True, gc_replay_safe := False, gc_updated_at := 1\<rparr>)"
      by code_simp
  qed (simp_all add: new_command_row_def wit_request_def sealed_def unsafe_started_def)
  show ?thesis
    by (rule unsafe_effect_never_reissued [OF wit_unsafe_ok r(1,2)]) simp
qed

theorem command_response_replayed_witness:
  "\<exists>c rows'. claim_command (wit_request ''h'') (str ''tok2'') rows' = (rows', Inr c)
     \<and> cc_status c = CS_replay \<and> cc_response_json c = Some (str ''{}'')"
proof -
  have "snd (command_complete (gc_command_id (new_command_row (wit_request ''h'') (str ''tok'')))
      (str ''tok'') (str ''{}'') 5 wit_claimed) = Inr ()"
    by code_simp
  from command_response_replayed [OF wit_claimed_ok wit_row _ this _ refl, where ops = "[C_recover 6]" and tok = "str ''tok2''"]
  show ?thesis
    by (auto simp: same_command_def new_command_row_def)
qed

theorem command_single_flight_witness:
  "\<not> acquired (snd (claim_command (wit_request ''h'') (str ''tok2'') wit_claimed))"
proof -
  have "acquired (snd (claim_command (wit_request ''h'') (str ''tok'') []))"
    by code_simp
  from command_single_flight [OF commands_ok_Nil this, of "wit_request ''h''" "str ''tok2''"]
  show ?thesis
    by (simp add: wit_claimed_def)
qed

theorem recovery_outcome_witness:
  "\<exists>r. row_at row_key (request_key (wit_request ''h'')) (recover_interrupted 9 wit_claimed) = Some r
     \<and> gc_state r = Cmd_pending"
  using recovery_outcome [OF wit_claimed_ok wit_row, of 9]
  by (auto simp: unsafe_started_def new_command_row_def)

theorem command_key_conflict_witness:
  "claim_command (wit_request ''other'') (str ''tok2'') wit_claimed = (wit_claimed, Inl Command_conflict)"
proof (rule command_key_conflict)
  show "row_at row_key (request_key (wit_request ''other'')) wit_claimed
      = Some (new_command_row (wit_request ''h'') (str ''tok''))"
    using wit_row by (simp add: request_key_def wit_request_def)
qed (simp add: same_command_def new_command_row_def wit_request_def)

end
