(* ===== verification/Gateway_Routes.thy ===== *)
theory Gateway_Routes
  imports Task_Model
begin

text \<open>
  The durable binding between a Gateway Task and its execution route, with the evidence
  kept about the create effect: \<open>storage/gateway_route_store.py\<close> (\<open>GatewayRouteStore\<close>).

  A route state is a constructor, so \<open>_validate_route_state\<close> holds by typing.  The JSON
  columns hold the value \<open>json.loads\<close> gives back (\<open>sort_keys\<close> orders the items).  An
  operation that raises rolls its transaction back and leaves the table unchanged.
\<close>

record route_row =
  ro_task_id :: pystr
  ro_agent_name :: pystr
  ro_metadata :: pydict
  ro_route_kind :: route_kind
  ro_upstream_task_id :: "pystr option"
  ro_webhook :: "pydict option"
  ro_route_state :: route_state
  ro_route_error :: "pystr option"
  ro_created_at :: int
  ro_updated_at :: int
  ro_key_scope :: pystr
  ro_replay_policy :: pystr
  ro_effect_boundary :: pystr

type_synonym route_table = "route_row list"

datatype route_error =
    Binding_conflict pystr
  | Bad_transition pystr route_state route_state
  | No_upstream_binding pystr
  | Cannot_start_effect pystr
  | Cannot_restore pystr
  | Unknown_route pystr
  | Bad_evidence pystr

fun allowed_route_transitions :: "route_state \<Rightarrow> route_state list" where
  "allowed_route_transitions RS_pending = [RS_pending, RS_active, RS_failed, RS_uncertain]"
| "allowed_route_transitions RS_active = [RS_active, RS_uncertain]"
| "allowed_route_transitions RS_failed = [RS_failed]"
| "allowed_route_transitions RS_uncertain = [RS_uncertain]"

definition legacy_unknown :: pystr where
  "legacy_unknown = str ''legacy_unknown''"

definition create_key_scopes :: "pystr list" where
  "create_key_scopes = [str ''none'', str ''external'', str ''generated'', str ''legacy_unknown'']"

definition create_replay_policies :: "pystr list" where
  "create_replay_policies =
     [str ''never'', str ''local_task_identity'', str ''ruyi_gateway_v1'', str ''legacy_unknown'']"

definition create_effect_boundaries :: "pystr list" where
  "create_effect_boundaries = [str ''reserved'', str ''started'', str ''legacy_unknown'']"

record create_evidence =
  ce_task_id :: pystr
  ce_key_scope :: pystr
  ce_replay_policy :: pystr
  ce_effect_boundary :: pystr

definition permits_remote_replay :: "create_evidence \<Rightarrow> bool" where
  "permits_remote_replay e \<longleftrightarrow>
     ce_key_scope e = str ''external'' \<and> ce_replay_policy e = str ''ruyi_gateway_v1''
     \<and> ce_effect_boundary e = str ''started''"

definition validate_create_evidence :: "pystr \<Rightarrow> pystr \<Rightarrow> pystr \<Rightarrow> route_error + unit" where
  "validate_create_evidence key_scope replay_policy effect_boundary =
     (if key_scope \<notin> set create_key_scopes then Inl (Bad_evidence key_scope)
      else if replay_policy \<notin> set create_replay_policies then Inl (Bad_evidence replay_policy)
      else if effect_boundary \<notin> set create_effect_boundaries then Inl (Bad_evidence effect_boundary)
      else Inr ())"

definition validate_active_binding :: "route_record \<Rightarrow> route_error + unit" where
  "validate_active_binding route =
     (if rt_route_state route = RS_active \<and> rt_route_kind route = RK_remote_ref
         \<and> \<not> nonempty_opt (rt_upstream_task_id route)
      then Inl (No_upstream_binding (rt_task_id route)) else Inr ())"

definition row_to_route :: "route_row \<Rightarrow> route_error + route_record" where
  "row_to_route r =
     (let route = \<lparr>rt_task_id = ro_task_id r, rt_agent_name = ro_agent_name r,
            rt_metadata = ro_metadata r, rt_route_kind = ro_route_kind r,
            rt_upstream_task_id = ro_upstream_task_id r, rt_webhook = ro_webhook r,
            rt_route_state = ro_route_state r, rt_route_error = ro_route_error r,
            rt_created_at = ro_created_at r, rt_updated_at = ro_updated_at r\<rparr>
      in case validate_active_binding route of Inl e \<Rightarrow> Inl e | Inr _ \<Rightarrow> Inr route)"

definition get_route :: "pystr \<Rightarrow> route_table \<Rightarrow> route_error + route_record option" where
  "get_route task_id rows =
     (case row_at ro_task_id task_id rows of
        None \<Rightarrow> Inr None
      | Some r \<Rightarrow> (case row_to_route r of Inl e \<Rightarrow> Inl e | Inr route \<Rightarrow> Inr (Some route)))"

text \<open>\<open>COALESCE(a, b)\<close>.\<close>

definition coalesce :: "'a option \<Rightarrow> 'a option \<Rightarrow> 'a option" where
  "coalesce a b = (case a of None \<Rightarrow> b | Some x \<Rightarrow> Some x)"

definition insert_saved_route :: "route_record \<Rightarrow> route_row" where
  "insert_saved_route route =
     \<lparr>ro_task_id = rt_task_id route, ro_agent_name = rt_agent_name route,
      ro_metadata = sort_key fst (rt_metadata route), ro_route_kind = rt_route_kind route,
      ro_upstream_task_id = rt_upstream_task_id route,
      ro_webhook = map_option (sort_key fst) (rt_webhook route),
      ro_route_state = rt_route_state route, ro_route_error = rt_route_error route,
      ro_created_at = rt_created_at route, ro_updated_at = rt_updated_at route,
      ro_key_scope = legacy_unknown, ro_replay_policy = legacy_unknown,
      ro_effect_boundary = legacy_unknown\<rparr>"

text \<open>
  \<open>save_route\<close> returns the table and the route object, whose \<open>updated_at\<close> (and, for an
  existing row, \<open>created_at\<close>) it sets.
\<close>

definition save_route ::
  "route_record \<Rightarrow> int \<Rightarrow> route_table \<Rightarrow> route_table \<times> (route_error + route_record)" where
  "save_route route0 now rows =
     (case validate_active_binding route0 of
        Inl e \<Rightarrow> (rows, Inl e)
      | Inr _ \<Rightarrow>
          let route = route0\<lparr>rt_updated_at := now\<rparr> in
          (case row_at ro_task_id (rt_task_id route) rows of
             None \<Rightarrow> (rows @ [insert_saved_route route], Inr route)
           | Some ex \<Rightarrow>
               let route = route\<lparr>rt_created_at := ro_created_at ex\<rparr> in
               if (ro_agent_name ex, ro_route_kind ex) \<noteq> (rt_agent_name route, rt_route_kind route)
                 then (rows, Inl (Binding_conflict (rt_task_id route)))
               else if rt_route_state route \<notin> set (allowed_route_transitions (ro_route_state ex))
                 then (rows, Inl (Bad_transition (rt_task_id route) (ro_route_state ex)
                                   (rt_route_state route)))
               else if ro_upstream_task_id ex \<noteq> None \<and> rt_upstream_task_id route \<noteq> None
                   \<and> ro_upstream_task_id ex \<noteq> rt_upstream_task_id route
                 then (rows, Inl (Binding_conflict (rt_task_id route)))
               else
                 (rows_update (\<lambda>r. ro_task_id r = rt_task_id route)
                    (\<lambda>r. r\<lparr>ro_metadata := sort_key fst (rt_metadata route),
                            ro_webhook := map_option (sort_key fst) (rt_webhook route),
                            ro_upstream_task_id :=
                              coalesce (rt_upstream_task_id route) (ro_upstream_task_id r),
                            ro_route_state := rt_route_state route,
                            ro_route_error := rt_route_error route,
                            ro_updated_at := rt_updated_at route\<rparr>) rows,
                  Inr route)))"

definition reserve_route ::
  "route_record \<Rightarrow> pystr \<Rightarrow> pystr \<Rightarrow> int \<Rightarrow> route_table \<Rightarrow>
   route_table \<times> (route_error + route_record)" where
  "reserve_route route create_key_scope create_replay_policy now rows =
     (case validate_create_evidence create_key_scope create_replay_policy (str ''reserved'') of
        Inl e \<Rightarrow> (rows, Inl e)
      | Inr _ \<Rightarrow>
          (case row_at ro_task_id (rt_task_id route) rows of
             Some r \<Rightarrow>
               (case row_to_route r of
                  Inl e \<Rightarrow> (rows, Inl e)
                | Inr existing \<Rightarrow>
                    if rt_agent_name existing \<noteq> rt_agent_name route
                       \<or> rt_route_kind existing \<noteq> rt_route_kind route
                    then (rows, Inl (Binding_conflict (rt_task_id route)))
                    else (rows, Inr existing))
           | None \<Rightarrow>
               let reservation =
                     \<lparr>rt_task_id = rt_task_id route, rt_agent_name = rt_agent_name route,
                      rt_metadata = rt_metadata route, rt_route_kind = rt_route_kind route,
                      rt_upstream_task_id =
                        (if rt_route_kind route = RK_local then Some (rt_task_id route) else None),
                      rt_webhook = rt_webhook route, rt_route_state = RS_pending,
                      rt_route_error = None, rt_created_at = now, rt_updated_at = now\<rparr>
               in (rows @ [(insert_saved_route reservation)
                     \<lparr>ro_key_scope := create_key_scope, ro_replay_policy := create_replay_policy,
                      ro_effect_boundary := str ''reserved''\<rparr>],
                   Inr reservation)))"

definition get_create_evidence :: "pystr \<Rightarrow> route_table \<Rightarrow> route_error + create_evidence option" where
  "get_create_evidence task_id rows =
     (case row_at ro_task_id task_id rows of
        None \<Rightarrow> Inr None
      | Some r \<Rightarrow>
          (case validate_create_evidence (ro_key_scope r) (ro_replay_policy r) (ro_effect_boundary r) of
             Inl e \<Rightarrow> Inl e
           | Inr _ \<Rightarrow> Inr (Some \<lparr>ce_task_id = task_id, ce_key_scope = ro_key_scope r,
                                  ce_replay_policy = ro_replay_policy r,
                                  ce_effect_boundary = ro_effect_boundary r\<rparr>)))"

definition mark_create_effect_started ::
  "pystr \<Rightarrow> int \<Rightarrow> route_table \<Rightarrow> route_table \<times> (route_error + create_evidence)" where
  "mark_create_effect_started task_id now rows =
     (let P = (\<lambda>r. ro_task_id r = task_id \<and> ro_route_state r = RS_pending
                 \<and> ro_effect_boundary r \<in> {str ''reserved'', str ''started''});
          rows' = rows_update P
            (\<lambda>r. r\<lparr>ro_effect_boundary := str ''started'', ro_updated_at := now\<rparr>) rows
      in if rows_count P rows \<noteq> 1 then (rows, Inl (Cannot_start_effect task_id))
         else (rows', case get_create_evidence task_id rows' of
                        Inl e \<Rightarrow> Inl e
                      | Inr None \<Rightarrow> Inl (Unknown_route task_id)
                      | Inr (Some ev) \<Rightarrow> Inr ev))"

definition restore_create_not_dispatched ::
  "pystr \<Rightarrow> int \<Rightarrow> route_table \<Rightarrow> route_table \<times> (route_error + route_record)" where
  "restore_create_not_dispatched task_id now rows =
     (let P = (\<lambda>r. ro_task_id r = task_id \<and> ro_route_state r = RS_pending
                 \<and> ro_effect_boundary r = str ''started'');
          rows' = rows_update P
            (\<lambda>r. r\<lparr>ro_effect_boundary := str ''reserved'', ro_route_error := None,
                    ro_updated_at := now\<rparr>) rows
      in if rows_count P rows \<noteq> 1 then (rows, Inl (Cannot_restore task_id))
         else (rows', case get_route task_id rows' of
                        Inl e \<Rightarrow> Inl e
                      | Inr None \<Rightarrow> Inl (Unknown_route task_id)
                      | Inr (Some route) \<Rightarrow> Inr route))"

definition create_not_dispatched_is_durable ::
  "pystr \<Rightarrow> pystr \<Rightarrow> route_table \<Rightarrow> route_error + bool" where
  "create_not_dispatched_is_durable task_id agent_name rows =
     (case get_route task_id rows of
        Inl e \<Rightarrow> Inl e
      | Inr route \<Rightarrow>
          (case get_create_evidence task_id rows of
             Inl e \<Rightarrow> Inl e
           | Inr evidence \<Rightarrow>
               Inr (case (route, evidence) of
                      (Some rt, Some ev) \<Rightarrow>
                        rt_agent_name rt = agent_name \<and> rt_route_state rt = RS_pending
                        \<and> ce_effect_boundary ev = str ''reserved''
                    | _ \<Rightarrow> False)))"

definition transition_route ::
  "pystr \<Rightarrow> route_state \<Rightarrow> pystr option \<Rightarrow> pystr option \<Rightarrow> int \<Rightarrow> route_table \<Rightarrow>
   route_table \<times> (route_error + route_record)" where
  "transition_route task_id route_state upstream_task_id route_error now rows =
     (case get_route task_id rows of
        Inl e \<Rightarrow> (rows, Inl e)
      | Inr None \<Rightarrow> (rows, Inl (Unknown_route task_id))
      | Inr (Some route) \<Rightarrow>
          if rt_upstream_task_id route \<noteq> None \<and> upstream_task_id \<noteq> None
             \<and> rt_upstream_task_id route \<noteq> upstream_task_id
             \<and> \<not> (rt_route_kind route = RK_remote_ref \<and> rt_route_state route = RS_pending
                    \<and> rt_upstream_task_id route = None)
          then (rows, Inl (Binding_conflict task_id))
          else save_route
                 (route\<lparr>rt_upstream_task_id :=
                          (if nonempty_opt upstream_task_id then upstream_task_id
                           else rt_upstream_task_id route),
                        rt_route_state := route_state, rt_route_error := route_error\<rparr>)
                 now rows)"

text \<open>\<open>list_routes\<close>: the first row that violates its binding raises.\<close>

fun list_routes :: "route_table \<Rightarrow> route_error + route_record list" where
  "list_routes [] = Inr []"
| "list_routes (r # rs) =
     (case row_to_route r of
        Inl e \<Rightarrow> Inl e
      | Inr route \<Rightarrow> (case list_routes rs of Inl e \<Rightarrow> Inl e | Inr routes \<Rightarrow> Inr (route # routes)))"

definition get_route_by_upstream :: "pystr \<Rightarrow> route_table \<Rightarrow> route_error + route_record option" where
  "get_route_by_upstream upstream_task_id rows =
     (case find (\<lambda>r. ro_upstream_task_id r = Some upstream_task_id \<and> ro_route_state r = RS_active) rows of
        None \<Rightarrow> Inr None
      | Some r \<Rightarrow> (case row_to_route r of Inl e \<Rightarrow> Inl e | Inr route \<Rightarrow> Inr (Some route)))"

text \<open>The rewriting of existing rows when the store opens (\<open>_init_db\<close>), after the schema is current.\<close>

definition sql_trim :: "pystr \<Rightarrow> pystr" where
  "sql_trim s = rev (dropWhile (\<lambda>c. c = 32) (rev (dropWhile (\<lambda>c. c = 32) s)))"

definition normalize_create_evidence :: "route_table \<Rightarrow> route_table" where
  "normalize_create_evidence rows =
     rows_update (\<lambda>r. ro_effect_boundary r \<notin> set create_effect_boundaries)
       (\<lambda>r. r\<lparr>ro_effect_boundary := legacy_unknown\<rparr>)
    (rows_update (\<lambda>r. ro_replay_policy r \<notin> set create_replay_policies)
       (\<lambda>r. r\<lparr>ro_replay_policy := legacy_unknown\<rparr>)
    (rows_update (\<lambda>r. ro_key_scope r \<notin> set create_key_scopes)
       (\<lambda>r. r\<lparr>ro_key_scope := legacy_unknown\<rparr>) rows))"

definition startup_routes :: "route_table \<Rightarrow> route_table" where
  "startup_routes rows =
     rows_update (\<lambda>r. ro_route_kind r = RK_remote_ref \<and> ro_route_state r = RS_pending
           \<and> ro_effect_boundary r \<noteq> str ''reserved''
           \<and> \<not> (ro_key_scope r = str ''external'' \<and> ro_replay_policy r = str ''ruyi_gateway_v1''
                  \<and> ro_effect_boundary r = str ''started''))
       (\<lambda>r. r\<lparr>ro_route_state := RS_uncertain,
               ro_route_error := Some (str ''Remote Task creation was interrupted'')\<rparr>)
    (rows_update (\<lambda>r. ro_route_kind r = RK_remote_ref \<and> ro_route_state r \<noteq> RS_active
           \<and> ro_upstream_task_id r = Some (ro_task_id r))
       (\<lambda>r. r\<lparr>ro_upstream_task_id := None\<rparr>)
    (rows_update (\<lambda>r. ro_route_kind r = RK_remote_ref \<and> ro_route_state r = RS_active
           \<and> (case ro_upstream_task_id r of None \<Rightarrow> True | Some u \<Rightarrow> sql_trim u = []))
       (\<lambda>r. r\<lparr>ro_route_state := RS_uncertain,
               ro_route_error := coalesce (ro_route_error r)
                 (Some (str ''Remote route has no durable upstream binding''))\<rparr>)
       (normalize_create_evidence rows)))"

subsection \<open>Invariant and step relation\<close>

definition row_bound :: "route_row \<Rightarrow> bool" where
  "row_bound r \<longleftrightarrow>
     (ro_route_state r = RS_active \<and> ro_route_kind r = RK_remote_ref
       \<longrightarrow> nonempty_opt (ro_upstream_task_id r))
     \<and> ro_key_scope r \<in> set create_key_scopes \<and> ro_replay_policy r \<in> set create_replay_policies
     \<and> ro_effect_boundary r \<in> set create_effect_boundaries"

definition route_inv :: "route_table \<Rightarrow> bool" where
  "route_inv rows \<longleftrightarrow> unique_key ro_task_id rows \<and> (\<forall>r \<in> set rows. row_bound r)"

text \<open>The operations a running Gateway applies to the table, in any order and with any arguments.\<close>

inductive route_step :: "route_table \<Rightarrow> route_table \<Rightarrow> bool" where
  step_save: "route_step rows (fst (save_route route now rows))"
| step_reserve: "route_step rows (fst (reserve_route route scope policy now rows))"
| step_started: "route_step rows (fst (mark_create_effect_started task_id now rows))"
| step_restore: "route_step rows (fst (restore_create_not_dispatched task_id now rows))"
| step_transition: "route_step rows (fst (transition_route task_id st upstream err now rows))"

text \<open>What no operation may change in a row, and how its state and binding may grow.\<close>

definition route_grows :: "route_row \<Rightarrow> route_row \<Rightarrow> bool" where
  "route_grows r r' \<longleftrightarrow>
     ro_task_id r' = ro_task_id r \<and> ro_agent_name r' = ro_agent_name r
     \<and> ro_route_kind r' = ro_route_kind r \<and> ro_created_at r' = ro_created_at r
     \<and> ro_key_scope r' = ro_key_scope r \<and> ro_replay_policy r' = ro_replay_policy r
     \<and> ro_route_state r' \<in> set (allowed_route_transitions (ro_route_state r))
     \<and> (ro_upstream_task_id r = None \<or> ro_upstream_task_id r' = ro_upstream_task_id r)
     \<and> (ro_route_state r = RS_pending \<or> ro_effect_boundary r' = ro_effect_boundary r)"

lemma allowed_refl [simp]: "st \<in> set (allowed_route_transitions st)"
  by (cases st) auto

lemma allowed_trans:
  "b \<in> set (allowed_route_transitions a) \<Longrightarrow> c \<in> set (allowed_route_transitions b)
    \<Longrightarrow> c \<in> set (allowed_route_transitions a)"
  by (cases a; cases b) auto

lemma allowed_pending: "RS_pending \<in> set (allowed_route_transitions a) \<longleftrightarrow> a = RS_pending"
  by (cases a) auto

lemma route_grows_refl [simp]: "route_grows r r"
  by (simp add: route_grows_def)

lemma route_grows_trans: "route_grows a b \<Longrightarrow> route_grows b c \<Longrightarrow> route_grows a c"
  using allowed_trans [of "ro_route_state b" "ro_route_state a" "ro_route_state c"]
    allowed_pending [of "ro_route_state a"]
  unfolding route_grows_def by auto

lemma legacy_in [simp]:
  "legacy_unknown \<in> set create_key_scopes" "legacy_unknown \<in> set create_replay_policies"
  "legacy_unknown \<in> set create_effect_boundaries"
  by (simp_all add: legacy_unknown_def create_key_scopes_def create_replay_policies_def
      create_effect_boundaries_def)

lemma boundary_in [simp]:
  "str ''reserved'' \<in> set create_effect_boundaries" "str ''started'' \<in> set create_effect_boundaries"
  by (simp_all add: create_effect_boundaries_def)

lemma route_inv_update:
  assumes "route_inv rows" and "\<And>r. r \<in> set rows \<Longrightarrow> P r \<Longrightarrow> row_bound r \<Longrightarrow> row_bound (f r)"
    and "\<And>r. P r \<Longrightarrow> ro_task_id (f r) = ro_task_id r"
  shows "route_inv (rows_update P f rows)"
  using assms by (auto simp: route_inv_def in_rows_update row_simps)

lemma route_inv_snoc:
  "route_inv rows \<Longrightarrow> row_at ro_task_id (ro_task_id r) rows = None \<Longrightarrow> row_bound r \<Longrightarrow> route_inv (rows @ [r])"
  by (auto simp: route_inv_def unique_key_snoc row_at_None)

lemma row_bound_insert:
  "validate_active_binding route = Inr u \<Longrightarrow> row_bound (insert_saved_route route)"
  by (auto simp: row_bound_def insert_saved_route_def validate_active_binding_def split: if_splits)

lemma save_route_inv: "route_inv rows \<Longrightarrow> route_inv (fst (save_route route now rows))"
proof (cases "validate_active_binding route")
  case (Inl e)
  then show "route_inv rows \<Longrightarrow> ?thesis" by (simp add: save_route_def)
next
  case (Inr u)
  assume inv: "route_inv rows"
  show ?thesis
  proof (cases "row_at ro_task_id (rt_task_id route) rows")
    case None
    have "row_bound (insert_saved_route (route\<lparr>rt_updated_at := now\<rparr>))"
      using Inr by (intro row_bound_insert) (simp add: validate_active_binding_def split: if_splits)
    then show ?thesis
      using None Inr inv by (simp add: save_route_def route_inv_snoc insert_saved_route_def)
  next
    case (Some ex)
    have ex: "r = ex" if "r \<in> set rows" "ro_task_id r = rt_task_id route" for r
      using that Some inv row_at_unique [of ro_task_id rows r] by (auto simp: route_inv_def)
    show ?thesis
      using Some Inr inv
      by (auto simp: save_route_def Let_def coalesce_def validate_active_binding_def row_bound_def
          intro!: route_inv_update split: if_splits option.splits dest: ex)
  qed
qed

lemma reserve_route_inv: "route_inv rows \<Longrightarrow> route_inv (fst (reserve_route route scope policy now rows))"
  by (auto simp: reserve_route_def Let_def insert_saved_route_def row_bound_def
      validate_create_evidence_def intro!: route_inv_snoc split: sum.splits option.splits if_splits)

lemma mark_started_inv: "route_inv rows \<Longrightarrow> route_inv (fst (mark_create_effect_started task_id now rows))"
  by (auto simp: mark_create_effect_started_def Let_def row_bound_def intro!: route_inv_update)

lemma restore_inv: "route_inv rows \<Longrightarrow> route_inv (fst (restore_create_not_dispatched task_id now rows))"
  by (auto simp: restore_create_not_dispatched_def Let_def row_bound_def intro!: route_inv_update)

lemma transition_route_inv:
  "route_inv rows \<Longrightarrow> route_inv (fst (transition_route task_id st upstream err now rows))"
  by (auto simp: transition_route_def intro!: save_route_inv split: sum.splits option.splits)

lemma route_step_inv: "route_step rows rows' \<Longrightarrow> route_inv rows \<Longrightarrow> route_inv rows'"
  by (induction rule: route_step.induct)
    (auto intro: save_route_inv reserve_route_inv mark_started_inv restore_inv transition_route_inv)

lemma route_steps_inv: "route_step\<^sup>*\<^sup>* rows rows' \<Longrightarrow> route_inv rows \<Longrightarrow> route_inv rows'"
  by (induction rule: rtranclp_induct) (auto intro: route_step_inv)

text \<open>A table whose rows grow.\<close>

definition table_grows :: "route_table \<Rightarrow> route_table \<Rightarrow> bool" where
  "table_grows rows rows' \<longleftrightarrow>
     (\<forall>k r. row_at ro_task_id k rows = Some r
        \<longrightarrow> (case row_at ro_task_id k rows' of None \<Rightarrow> False | Some r' \<Rightarrow> route_grows r r'))"

lemma table_grows_refl [simp]: "table_grows rows rows"
  by (simp add: table_grows_def)

lemma table_grows_snoc [simp]: "table_grows rows (rows @ [r])"
  by (simp add: table_grows_def row_at_snoc)

lemma table_grows_update:
  assumes "\<And>r. r \<in> set rows \<Longrightarrow> row_at ro_task_id (ro_task_id r) rows = Some r \<Longrightarrow> P r \<Longrightarrow> route_grows r (f r)"
    and "\<And>r. P r \<Longrightarrow> ro_task_id (f r) = ro_task_id r"
  shows "table_grows rows (rows_update P f rows)"
  using assms by (auto simp: table_grows_def row_simps dest: row_at_SomeD)

lemma table_grows_trans:
  assumes "table_grows a b" and "table_grows b c"
  shows "table_grows a c"
  unfolding table_grows_def
proof (intro allI impI)
  fix k r
  assume r: "row_at ro_task_id k a = Some r"
  then obtain r' where r': "row_at ro_task_id k b = Some r'" "route_grows r r'"
    using assms(1) by (force simp: table_grows_def split: option.splits)
  then obtain r'' where "row_at ro_task_id k c = Some r''" "route_grows r' r''"
    using assms(2) by (force simp: table_grows_def split: option.splits)
  then show "case row_at ro_task_id k c of None \<Rightarrow> False | Some x \<Rightarrow> route_grows r x"
    using r'(2) route_grows_trans by simp
qed

lemma save_route_grows: "table_grows rows (fst (save_route route now rows))"
proof (cases "validate_active_binding route")
  case (Inl e)
  then show ?thesis by (simp add: save_route_def)
next
  case (Inr u)
  show ?thesis
  proof (cases "row_at ro_task_id (rt_task_id route) rows")
    case None
    then show ?thesis using Inr by (simp add: save_route_def Let_def)
  next
    case (Some ex)
    show ?thesis
      using Some Inr
      by (cases "ro_upstream_task_id ex"; cases "rt_upstream_task_id route")
        (auto simp: save_route_def Let_def coalesce_def route_grows_def intro!: table_grows_update)
  qed
qed

lemma route_step_grows: "route_step rows rows' \<Longrightarrow> table_grows rows rows'"
proof (induction rule: route_step.induct)
  case (step_save rows route now)
  show ?case by (rule save_route_grows)
next
  case (step_reserve rows route scope policy now)
  show ?case
    by (auto simp: reserve_route_def Let_def split: sum.splits option.splits)
next
  case (step_started rows task_id now)
  show ?case
    by (auto simp: mark_create_effect_started_def Let_def route_grows_def intro!: table_grows_update)
next
  case (step_restore rows task_id now)
  show ?case
    by (auto simp: restore_create_not_dispatched_def Let_def route_grows_def intro!: table_grows_update)
next
  case (step_transition rows task_id st upstream err now)
  show ?case
    by (auto simp: transition_route_def save_route_grows split: sum.splits option.splits)
qed

lemma route_steps_grow: "route_step\<^sup>*\<^sup>* rows rows' \<Longrightarrow> table_grows rows rows'"
  by (induction rule: rtranclp_induct) (auto intro: route_step_grows table_grows_trans)

lemma row_bound_readable: "row_bound r \<Longrightarrow> \<exists>route. row_to_route r = Inr route"
  by (auto simp: row_to_route_def validate_active_binding_def row_bound_def Let_def)

lemma list_routes_readable: "\<forall>r \<in> set rows. row_bound r \<Longrightarrow> \<exists>routes. list_routes rows = Inr routes"
  by (induction rows) (auto dest!: row_bound_readable split: sum.splits)

subsection \<open>The restart\<close>

text \<open>One row under \<open>startup_routes\<close>.\<close>

definition blank_binding :: "route_row \<Rightarrow> bool" where
  "blank_binding r = (case ro_upstream_task_id r of None \<Rightarrow> True | Some u \<Rightarrow> sql_trim u = [])"

definition row_evidence :: "route_row \<Rightarrow> create_evidence" where
  "row_evidence r = \<lparr>ce_task_id = ro_task_id r, ce_key_scope = ro_key_scope r,
     ce_replay_policy = ro_replay_policy r, ce_effect_boundary = ro_effect_boundary r\<rparr>"

definition restart_state :: "route_row \<Rightarrow> route_state" where
  "restart_state r =
     (if ro_route_kind r = RK_remote_ref \<and> ro_route_state r = RS_active \<and> blank_binding r
        then RS_uncertain
      else if ro_route_kind r = RK_remote_ref \<and> ro_route_state r = RS_pending
         \<and> ro_effect_boundary r \<noteq> str ''reserved'' \<and> \<not> permits_remote_replay (row_evidence r)
        then RS_uncertain
      else ro_route_state r)"

definition restart_upstream :: "route_row \<Rightarrow> pystr option" where
  "restart_upstream r =
     (if ro_route_kind r = RK_remote_ref \<and> ro_upstream_task_id r = Some (ro_task_id r)
         \<and> (ro_route_state r \<noteq> RS_active \<or> blank_binding r)
      then None else ro_upstream_task_id r)"

lemma normalize_bound: "\<forall>r \<in> set rows. row_bound r \<Longrightarrow> normalize_create_evidence rows = rows"
  by (simp add: normalize_create_evidence_def rows_update_id row_bound_def)

lemma row_at_startup:
  assumes "route_inv rows" and "row_at ro_task_id k rows = Some r"
  shows "\<exists>r'. row_at ro_task_id k (startup_routes rows) = Some r'
    \<and> ro_agent_name r' = ro_agent_name r \<and> ro_route_kind r' = ro_route_kind r
    \<and> ro_route_state r' = restart_state r \<and> ro_upstream_task_id r' = restart_upstream r
    \<and> row_evidence r' = row_evidence r"
proof -
  have "normalize_create_evidence rows = rows"
    using assms(1) by (intro normalize_bound) (simp add: route_inv_def)
  then show ?thesis
    using assms(2)
    by (simp add: startup_routes_def row_at_rows_update)
      (auto simp: restart_state_def restart_upstream_def blank_binding_def row_evidence_def
        permits_remote_replay_def split: option.splits)
qed

lemma startup_inv:
  assumes "route_inv rows"
  shows "route_inv (startup_routes rows)"
proof -
  have "normalize_create_evidence rows = rows"
    using assms by (intro normalize_bound) (simp add: route_inv_def)
  then show ?thesis
    using assms unfolding startup_routes_def
    by (auto intro!: route_inv_update simp: row_bound_def)
qed

lemma get_route_bound:
  "row_bound r \<Longrightarrow> row_at ro_task_id k rows = Some r \<Longrightarrow>
    \<exists>route. get_route k rows = Inr (Some route) \<and> rt_agent_name route = ro_agent_name r
      \<and> rt_route_state route = ro_route_state r"
  by (auto simp: get_route_def row_to_route_def Let_def validate_active_binding_def row_bound_def)

lemma get_evidence_bound:
  "row_bound r \<Longrightarrow> row_at ro_task_id k rows = Some r \<Longrightarrow>
    get_create_evidence k rows = Inr (Some (row_evidence r))"
  using row_at_SomeD [of ro_task_id k rows r]
  by (simp add: get_create_evidence_def validate_create_evidence_def row_bound_def row_evidence_def)

lemma route_inv_at: "route_inv rows \<Longrightarrow> row_at ro_task_id k rows = Some r \<Longrightarrow> row_bound r"
  by (auto simp: route_inv_def dest: row_at_SomeD)

text \<open>The two moves of the effect boundary on the row they name.\<close>

lemma mark_started_row:
  assumes "route_inv rows" and "row_at ro_task_id k rows = Some r"
    and "ro_route_state r = RS_pending" and "ro_effect_boundary r \<in> {str ''reserved'', str ''started''}"
  shows "mark_create_effect_started k now rows =
    (fst (mark_create_effect_started k now rows),
     Inr (row_evidence (r\<lparr>ro_effect_boundary := str ''started'', ro_updated_at := now\<rparr>)))"
    and "row_at ro_task_id k (fst (mark_create_effect_started k now rows)) =
      Some (r\<lparr>ro_effect_boundary := str ''started'', ro_updated_at := now\<rparr>)"
proof -
  let ?P = "\<lambda>r. ro_task_id r = k \<and> ro_route_state r = RS_pending
                 \<and> ro_effect_boundary r \<in> {str ''reserved'', str ''started''}"
  let ?f = "\<lambda>r. r\<lparr>ro_effect_boundary := str ''started'', ro_updated_at := now\<rparr>"
  have k: "ro_task_id r = k" using row_at_SomeD [OF assms(2)] by simp
  have u: "unique_key ro_task_id rows" using assms(1) by (simp add: route_inv_def)
  have one: "rows_count ?P rows = 1"
    using rows_count_key [OF u, of ?P k] assms k by auto
  have at: "row_at ro_task_id k (rows_update ?P ?f rows) = Some (?f r)"
    using assms k by (simp add: row_at_rows_update)
  have b: "row_bound (?f r)"
    using route_inv_at [OF assms(1,2)] by (auto simp: row_bound_def)
  show "row_at ro_task_id k (fst (mark_create_effect_started k now rows)) = Some (?f r)"
    using one at by (simp add: mark_create_effect_started_def Let_def)
  show "mark_create_effect_started k now rows =
    (fst (mark_create_effect_started k now rows), Inr (row_evidence (?f r)))"
    using one get_evidence_bound [OF b at] by (simp add: mark_create_effect_started_def Let_def)
qed

lemma restore_row:
  assumes "route_inv rows" and "row_at ro_task_id k rows = Some r"
    and "ro_route_state r = RS_pending" and "ro_effect_boundary r = str ''started''"
  shows "\<exists>rows' route. restore_create_not_dispatched k now rows = (rows', Inr route)
    \<and> row_at ro_task_id k rows' =
       Some (r\<lparr>ro_effect_boundary := str ''reserved'', ro_route_error := None, ro_updated_at := now\<rparr>)"
proof -
  let ?P = "\<lambda>r. ro_task_id r = k \<and> ro_route_state r = RS_pending \<and> ro_effect_boundary r = str ''started''"
  let ?f = "\<lambda>r. r\<lparr>ro_effect_boundary := str ''reserved'', ro_route_error := None, ro_updated_at := now\<rparr>"
  have k: "ro_task_id r = k" using row_at_SomeD [OF assms(2)] by simp
  have u: "unique_key ro_task_id rows" using assms(1) by (simp add: route_inv_def)
  have one: "rows_count ?P rows = 1"
    using rows_count_key [OF u, of ?P k] assms k by auto
  have at: "row_at ro_task_id k (rows_update ?P ?f rows) = Some (?f r)"
    using assms k by (simp add: row_at_rows_update)
  have "row_bound (?f r)"
    using route_inv_at [OF assms(1,2)] by (auto simp: row_bound_def)
  then show ?thesis
    using one get_route_bound [OF _ at] at
    by (auto simp: restore_create_not_dispatched_def Let_def)
qed

subsection \<open>Properties\<close>

text \<open>
  C31. A reservation is never rebound: whatever operations follow, the route keeps its agent,
  kind, creation time and create evidence, its upstream binding is written once, a failed or
  uncertain route stays so and an active one never returns to pending, and the effect
  boundary moves only while the route is pending.
\<close>

theorem route_never_rebound:
  assumes "route_step\<^sup>*\<^sup>* rows rows'" and "row_at ro_task_id k rows = Some r"
  shows "\<exists>r'. row_at ro_task_id k rows' = Some r'
    \<and> ro_agent_name r' = ro_agent_name r \<and> ro_route_kind r' = ro_route_kind r
    \<and> ro_created_at r' = ro_created_at r
    \<and> ro_key_scope r' = ro_key_scope r \<and> ro_replay_policy r' = ro_replay_policy r
    \<and> (ro_upstream_task_id r = None \<or> ro_upstream_task_id r' = ro_upstream_task_id r)
    \<and> (ro_route_state r = RS_pending
       \<or> ro_route_state r = RS_active \<and> ro_route_state r' \<in> {RS_active, RS_uncertain}
       \<or> ro_route_state r' = ro_route_state r)
    \<and> (ro_route_state r = RS_pending \<or> ro_effect_boundary r' = ro_effect_boundary r)"
proof -
  obtain r' where "row_at ro_task_id k rows' = Some r'" "route_grows r r'"
    using route_steps_grow [OF assms(1)] assms(2) by (force simp: table_grows_def split: option.splits)
  then show ?thesis
    by (cases "ro_route_state r") (auto simp: route_grows_def)
qed

text \<open>
  The route table of a Gateway that started from an empty one can always be read:
  whatever operations ran and whatever restarts came between, no lookup, listing or evidence
  query raises, and an active remote route has a non-empty upstream binding.
\<close>

theorem routes_always_readable:
  assumes "(\<lambda>a b. route_step a b \<or> b = startup_routes a)\<^sup>*\<^sup>* [] rows"
  shows "(\<exists>routes. list_routes rows = Inr routes)
    \<and> (\<exists>route. get_route k rows = Inr route) \<and> (\<exists>ev. get_create_evidence k rows = Inr ev)
    \<and> (case row_at ro_task_id k rows of None \<Rightarrow> True
       | Some r \<Rightarrow> \<not> (ro_route_state r = RS_active \<and> ro_route_kind r = RK_remote_ref)
                     \<or> nonempty_opt (ro_upstream_task_id r))"
proof -
  have inv: "route_inv rows"
    using assms
  proof (induction rule: rtranclp_induct)
    case base
    then show ?case by (simp add: route_inv_def unique_key_def)
  next
    case (step a b)
    then show ?case by (auto intro: route_step_inv startup_inv)
  qed
  show ?thesis
  proof (cases "row_at ro_task_id k rows")
    case None
    then show ?thesis
      using inv list_routes_readable [of rows]
      by (simp add: route_inv_def get_route_def get_create_evidence_def)
  next
    case (Some r)
    then show ?thesis
      using inv list_routes_readable [of rows] route_inv_at [OF inv Some]
        get_route_bound [OF _ Some] get_evidence_bound [OF _ Some]
      by (auto simp: route_inv_def row_bound_def)
  qed
qed

text \<open>
  What a restart makes of a route: an active remote route without a binding and a remote
  create whose effect may have been sent and may not be repeated become uncertain, every
  other route keeps its state; only a binding that repeats the task's own id on a remote
  route that is not active is cleared, and the create evidence is kept.
\<close>

theorem startup_route_outcome:
  assumes "route_inv rows" and "row_at ro_task_id k rows = Some r"
  shows "\<exists>r'. row_at ro_task_id k (startup_routes rows) = Some r'
    \<and> ro_route_state r' =
       (if ro_route_kind r = RK_remote_ref
           \<and> (ro_route_state r = RS_active \<and> blank_binding r
              \<or> ro_route_state r = RS_pending \<and> ro_effect_boundary r \<noteq> str ''reserved''
                \<and> \<not> permits_remote_replay (row_evidence r))
        then RS_uncertain else ro_route_state r)
    \<and> ro_upstream_task_id r' = restart_upstream r \<and> row_evidence r' = row_evidence r"
  using row_at_startup [OF assms] by (auto simp: restart_state_def)

text \<open>
  The create effect of a remote route across a crash: once its start is recorded, a
  restart keeps the route pending exactly when its evidence permits replaying the create (and
  makes it uncertain otherwise); when the transport proves that nothing was sent and the
  boundary is restored, a restart keeps it pending and still reports it as not dispatched.
\<close>

theorem interrupted_create_outcome:
  assumes "route_inv rows" and "row_at ro_task_id k rows = Some r"
    and "ro_route_kind r = RK_remote_ref"
    and "ro_route_state r = RS_pending" and "ro_effect_boundary r = str ''reserved''"
  shows "\<exists>rows1 ev. mark_create_effect_started k t1 rows = (rows1, Inr ev)
    \<and> (\<exists>r1. row_at ro_task_id k (startup_routes rows1) = Some r1
         \<and> ro_route_state r1 = (if permits_remote_replay ev then RS_pending else RS_uncertain))
    \<and> (\<exists>rows2 route. restore_create_not_dispatched k t2 rows1 = (rows2, Inr route)
         \<and> create_not_dispatched_is_durable k (ro_agent_name r) (startup_routes rows2) = Inr True)"
proof -
  let ?s = "r\<lparr>ro_effect_boundary := str ''started'', ro_updated_at := t1\<rparr>"
  let ?rows1 = "fst (mark_create_effect_started k t1 rows)"
  have m: "mark_create_effect_started k t1 rows = (?rows1, Inr (row_evidence ?s))"
    and at1: "row_at ro_task_id k ?rows1 = Some ?s"
    using mark_started_row [OF assms(1,2)] assms(4,5) by simp_all
  have inv1: "route_inv ?rows1" by (rule mark_started_inv [OF assms(1)])
  obtain r1 where r1: "row_at ro_task_id k (startup_routes ?rows1) = Some r1"
      "ro_route_state r1 = restart_state ?s"
    using row_at_startup [OF inv1 at1] by blast
  then have s1: "ro_route_state r1 = (if permits_remote_replay (row_evidence ?s) then RS_pending else RS_uncertain)"
    using assms(3,4) by (simp add: restart_state_def)
  obtain rows2 route where res: "restore_create_not_dispatched k t2 ?rows1 = (rows2, Inr route)"
    and at2: "row_at ro_task_id k rows2 =
       Some (?s\<lparr>ro_effect_boundary := str ''reserved'', ro_route_error := None, ro_updated_at := t2\<rparr>)"
    using restore_row [OF inv1 at1, of t2] assms(4) by auto
  have inv2: "route_inv rows2"
    using restore_inv [OF inv1, of k t2] res by simp
  obtain r2 where r2: "row_at ro_task_id k (startup_routes rows2) = Some r2"
      "ro_agent_name r2 = ro_agent_name r" "ro_route_state r2 = RS_pending"
      "ce_effect_boundary (row_evidence r2) = str ''reserved''"
    using row_at_startup [OF inv2 at2] assms(4)
    by (auto simp: restart_state_def row_evidence_def)
  have b2: "row_bound r2"
    by (rule route_inv_at [OF startup_inv [OF inv2] r2(1)])
  have "create_not_dispatched_is_durable k (ro_agent_name r) (startup_routes rows2) = Inr True"
    using get_route_bound [OF b2 r2(1)] get_evidence_bound [OF b2 r2(1)] r2
    by (auto simp: create_not_dispatched_is_durable_def)
  then show ?thesis
    using m r1(1) s1 res by blast
qed

subsection \<open>Witnesses\<close>

definition demo_route :: route_record where
  "demo_route = \<lparr>rt_task_id = str ''t1'', rt_agent_name = str ''peer'', rt_metadata = [],
     rt_route_kind = RK_remote_ref, rt_upstream_task_id = None, rt_webhook = None,
     rt_route_state = RS_pending, rt_route_error = None, rt_created_at = 0, rt_updated_at = 0\<rparr>"

definition demo_routes :: route_table where
  "demo_routes = fst (reserve_route demo_route (str ''external'') (str ''ruyi_gateway_v1'') 5 [])"

definition demo_row :: route_row where
  "demo_row = \<lparr>ro_task_id = str ''t1'', ro_agent_name = str ''peer'', ro_metadata = [],
     ro_route_kind = RK_remote_ref, ro_upstream_task_id = None, ro_webhook = None,
     ro_route_state = RS_pending, ro_route_error = None, ro_created_at = 5, ro_updated_at = 5,
     ro_key_scope = str ''external'', ro_replay_policy = str ''ruyi_gateway_v1'',
     ro_effect_boundary = str ''reserved''\<rparr>"

lemma demo_routes_eq: "demo_routes = [demo_row]"
  by code_simp

lemma demo_routes_inv: "route_inv demo_routes"
  by (simp add: demo_routes_eq demo_row_def route_inv_def unique_key_def row_bound_def
      create_key_scopes_def create_replay_policies_def create_effect_boundaries_def)

lemma demo_routes_at: "row_at ro_task_id (str ''t1'') demo_routes = Some demo_row"
  by (simp add: demo_routes_eq demo_row_def)

lemma demo_routes_step: "route_step [] demo_routes"
  unfolding demo_routes_def by (rule step_reserve)

definition demo_active :: route_table where
  "demo_active = fst (transition_route (str ''t1'') RS_active (Some (str ''up'')) None 9 demo_routes)"

lemma demo_active_steps: "route_step\<^sup>*\<^sup>* demo_routes demo_active"
  unfolding demo_active_def by (rule r_into_rtranclp) (rule step_transition)

lemma route_never_rebound_witness:
  "\<exists>r'. row_at ro_task_id (str ''t1'') demo_active = Some r' \<and> ro_agent_name r' = str ''peer''
     \<and> ro_created_at r' = 5"
  using route_never_rebound [OF demo_active_steps demo_routes_at] by (auto simp: demo_row_def)

lemma routes_always_readable_witness: "\<exists>routes. list_routes demo_active = Inr routes"
proof -
  have "(\<lambda>a b. route_step a b \<or> b = startup_routes a)\<^sup>*\<^sup>* [] demo_active"
    using demo_routes_step step_transition [of demo_routes "str ''t1''" RS_active "Some (str ''up'')" None 9]
    by (auto simp: demo_active_def intro: rtranclp.rtrancl_into_rtrancl)
  from routes_always_readable [OF this, of "str ''t1''"] show ?thesis by simp
qed

lemma startup_route_outcome_witness:
  "\<exists>r'. row_at ro_task_id (str ''t1'') (startup_routes demo_routes) = Some r'
     \<and> ro_route_state r' = RS_pending"
  using startup_route_outcome [OF demo_routes_inv demo_routes_at] by (auto simp: demo_row_def)

lemma interrupted_create_outcome_witness:
  "\<exists>rows1 ev. mark_create_effect_started (str ''t1'') 6 demo_routes = (rows1, Inr ev)
     \<and> (\<exists>r1. row_at ro_task_id (str ''t1'') (startup_routes rows1) = Some r1)"
  using interrupted_create_outcome [OF demo_routes_inv demo_routes_at, where ?t1.0 = 6 and ?t2.0 = 7]
  by (auto simp: demo_row_def)

end
