(* ===== verification/Channel_Delivery.thy ===== *)
theory Channel_Delivery
  imports Lease_Spec "HOL-Library.Product_Lexorder"
begin

text \<open>
  The durable Task Watch and channel-delivery ledger of
  \<open>storage/channel_delivery_store.py\<close> (\<open>ChannelDeliveryStore\<close>): one intent per channel
  session and task run, worked on under a fenced lease, with the delivered message steps
  beside it.

  Instants are seconds (\<open>time.time\<close>), taken as exact rationals; the clock reading is an
  argument of each operation.  The kind and the state of an intent are constructors, so the
  CHECK constraints on them hold by typing; \<open>parse_delivery_kind\<close> and
  \<open>parse_delivery_state\<close> read them from a Python value.
\<close>

datatype delivery_kind = DK_watch | DK_review | DK_terminal

datatype delivery_state =
    DS_watching | DS_retry_wait | DS_error | DS_delivering
  | DS_review_waiting | DS_terminal_grace | DS_delivered | DS_superseded

definition delivery_kinds :: "(pystr \<times> delivery_kind) list" where
  "delivery_kinds =
     [(str ''watch'', DK_watch), (str ''review'', DK_review), (str ''terminal'', DK_terminal)]"

definition delivery_states :: "(pystr \<times> delivery_state) list" where
  "delivery_states =
     [(str ''watching'', DS_watching), (str ''retry_wait'', DS_retry_wait), (str ''error'', DS_error),
      (str ''delivering'', DS_delivering), (str ''review_waiting'', DS_review_waiting),
      (str ''terminal_grace'', DS_terminal_grace), (str ''delivered'', DS_delivered),
      (str ''superseded'', DS_superseded)]"

definition parse_delivery_value :: "(pystr \<times> 'a) list \<Rightarrow> pystr \<Rightarrow> pyval \<Rightarrow> py_error + 'a" where
  "parse_delivery_value allowed path v =
     (case v of
        PStr s \<Rightarrow> (case map_of allowed s of None \<Rightarrow> Inl (ValueError path) | Some x \<Rightarrow> Inr x)
      | _ \<Rightarrow> Inl (ValueError path))"

definition parse_delivery_kind :: "pyval \<Rightarrow> py_error + delivery_kind" where
  "parse_delivery_kind = parse_delivery_value delivery_kinds (str ''delivery_kind'')"

definition parse_delivery_state :: "pyval \<Rightarrow> py_error + delivery_state" where
  "parse_delivery_state = parse_delivery_value delivery_states (str ''state'')"

definition final_delivery_states :: "delivery_state list" where
  "final_delivery_states = [DS_delivered, DS_superseded]"

definition recoverable_states :: "delivery_state list" where
  "recoverable_states =
     [DS_watching, DS_retry_wait, DS_error, DS_delivering, DS_review_waiting, DS_terminal_grace]"

record delivery_intent =
  di_intent_id :: pystr
  di_platform :: pystr
  di_session_key :: pystr
  di_chat_id :: pystr
  di_task_id :: pystr
  di_run_count :: int
  di_kind :: delivery_kind
  di_review_id :: "pystr option"
  di_state :: delivery_state
  di_cursor :: int
  di_attempt_count :: int
  di_redrive_count :: int
  di_next_attempt_at :: "rat option"
  di_last_error :: "pystr option"
  di_lease_owner :: "pystr option"
  di_lease_token :: "pystr option"
  di_lease_until :: "rat option"
  di_fence :: int
  di_created_at :: rat
  di_updated_at :: rat

record delivery_step_row =
  dt_intent_id :: pystr
  dt_step_key :: pystr
  dt_delivered_at :: rat

record delivery_store =
  ds_intents :: "delivery_intent list"
  ds_steps :: "delivery_step_row list"

record delivery_schedule =
  sc_due_errors :: "delivery_intent list"
  sc_earliest_due_at :: "rat option"
  sc_observed_at :: rat

text \<open>The parts are separated by the unit separator, code point 31.\<close>

definition delivery_intent_id :: "pystr \<Rightarrow> pystr \<Rightarrow> pystr \<Rightarrow> int \<Rightarrow> pystr" where
  "delivery_intent_id platform session_key task_id run_count =
     platform @ [31] @ session_key @ [31] @ task_id @ [31] @ dec run_count"

definition delivery_get :: "pystr \<Rightarrow> delivery_store \<Rightarrow> delivery_intent option" where
  "delivery_get intent_id st = row_at di_intent_id intent_id (ds_intents st)"

definition new_intent :: "pystr \<Rightarrow> pystr \<Rightarrow> pystr \<Rightarrow> pystr \<Rightarrow> int \<Rightarrow> rat \<Rightarrow> delivery_intent" where
  "new_intent platform session_key chat_id task_id run_count now =
     \<lparr>di_intent_id = delivery_intent_id platform session_key task_id run_count,
      di_platform = platform, di_session_key = session_key, di_chat_id = chat_id,
      di_task_id = task_id, di_run_count = run_count, di_kind = DK_watch, di_review_id = None,
      di_state = DS_watching, di_cursor = 0, di_attempt_count = 0, di_redrive_count = 0,
      di_next_attempt_at = None, di_last_error = None, di_lease_owner = None,
      di_lease_token = None, di_lease_until = None, di_fence = 0, di_created_at = now,
      di_updated_at = now\<rparr>"

text \<open>A negative run count violates the CHECK of the table.\<close>

definition ensure_watch ::
  "pystr \<Rightarrow> pystr \<Rightarrow> pystr \<Rightarrow> pystr \<Rightarrow> int \<Rightarrow> rat \<Rightarrow> delivery_store \<Rightarrow>
   delivery_store \<times> (py_error + delivery_intent)" where
  "ensure_watch platform session_key chat_id task_id run_count now st =
     (if run_count < 0 then (st, Inl IntegrityError)
      else
        let intent_id = delivery_intent_id platform session_key task_id run_count;
            st' = (case delivery_get intent_id st of
                     None \<Rightarrow> st\<lparr>ds_intents := ds_intents st @
                               [new_intent platform session_key chat_id task_id run_count now]\<rparr>
                   | Some _ \<Rightarrow> st\<lparr>ds_intents := rows_update (\<lambda>r. di_intent_id r = intent_id)
                               (\<lambda>r. r\<lparr>di_chat_id := chat_id, di_updated_at := now\<rparr>) (ds_intents st)\<rparr>)
        in (st', case delivery_get intent_id st' of
                   None \<Rightarrow> Inl (RuntimeError intent_id)
                 | Some intent \<Rightarrow> Inr intent))"

definition list_recoverable :: "pystr \<Rightarrow> delivery_store \<Rightarrow> delivery_intent list" where
  "list_recoverable platform st =
     sort_key (\<lambda>r. (di_created_at r, di_intent_id r))
       (filter (\<lambda>r. di_platform r = platform \<and> di_state r \<in> set recoverable_states) (ds_intents st))"

text \<open>\<open>lease_owner IS NULL OR lease_until IS NULL OR lease_until <= ?\<close>.\<close>

definition lease_free :: "rat \<Rightarrow> delivery_intent \<Rightarrow> bool" where
  "lease_free now r \<longleftrightarrow>
     di_lease_owner r = None
     \<or> (case di_lease_until r of None \<Rightarrow> True | Some u \<Rightarrow> u \<le> now)"

definition due_at :: "rat \<Rightarrow> delivery_intent \<Rightarrow> bool" where
  "due_at now r = (case di_next_attempt_at r of None \<Rightarrow> False | Some t \<Rightarrow> t \<le> now)"

text \<open>\<open>ORDER BY next_attempt_at, created_at, intent_id\<close>, on rows whose first column is not NULL.\<close>

definition schedule_key :: "delivery_intent \<Rightarrow> rat \<times> rat \<times> pystr" where
  "schedule_key r =
     (case di_next_attempt_at r of None \<Rightarrow> 0 | Some t \<Rightarrow> t, di_created_at r, di_intent_id r)"

definition list_due_errors ::
  "pystr \<Rightarrow> int \<Rightarrow> rat \<Rightarrow> delivery_store \<Rightarrow> py_error + delivery_intent list" where
  "list_due_errors platform limit now st =
     (if limit \<le> 0 then Inl (ValueError (str ''delivery reconciliation limit must be positive''))
      else Inr (take (nat limit) (sort_key schedule_key
        (filter (\<lambda>r. di_platform r = platform \<and> di_state r = DS_error \<and> due_at now r
                   \<and> lease_free now r) (ds_intents st)))))"

text \<open>
  \<open>schedule_snapshot\<close>: the candidates are ranked within their partition (due or not), the
  query keeps the first \<open>limit\<close> due rows and the first of the others, and the loop over the
  ordered result separates them again.
\<close>

definition schedule_candidates :: "pystr \<Rightarrow> rat \<Rightarrow> delivery_store \<Rightarrow> delivery_intent list" where
  "schedule_candidates platform now st =
     filter (\<lambda>r. di_platform r = platform \<and> di_state r = DS_error
               \<and> di_next_attempt_at r \<noteq> None \<and> lease_free now r) (ds_intents st)"

definition schedule_ranked :: "bool \<Rightarrow> delivery_intent list \<Rightarrow> (nat \<times> bool \<times> delivery_intent) list" where
  "schedule_ranked is_due part =
     (let rows = sort_key schedule_key part in zip [1..<Suc (length rows)] (map (Pair is_due) rows))"

fun schedule_loop ::
  "(bool \<times> delivery_intent) list \<Rightarrow> delivery_intent list \<Rightarrow> rat option \<Rightarrow>
   delivery_intent list \<times> rat option" where
  "schedule_loop [] due earliest = (due, earliest)"
| "schedule_loop ((is_due, r) # rows) due earliest =
     (if is_due then schedule_loop rows (due @ [r]) earliest
      else if earliest = None then schedule_loop rows due (di_next_attempt_at r)
      else schedule_loop rows due earliest)"

definition schedule_snapshot ::
  "pystr \<Rightarrow> int \<Rightarrow> rat \<Rightarrow> delivery_store \<Rightarrow> py_error + delivery_schedule" where
  "schedule_snapshot platform limit now st =
     (if limit \<le> 0 then Inl (ValueError (str ''delivery reconciliation limit must be positive''))
      else
        let cands = schedule_candidates platform now st;
            ranked = schedule_ranked True (filter (due_at now) cands)
                     @ schedule_ranked False (filter (\<lambda>r. \<not> due_at now r) cands);
            kept = map snd (filter (\<lambda>(rank, is_due, r).
                      is_due \<and> int rank \<le> limit \<or> \<not> is_due \<and> rank = 1) ranked);
            rows = sort_key (\<lambda>(is_due, r). (\<not> is_due, schedule_key r)) kept;
            (due, earliest) = schedule_loop rows [] None
        in Inr \<lparr>sc_due_errors = due, sc_earliest_due_at = earliest, sc_observed_at = now\<rparr>)"

text \<open>\<open>SELECT MIN(next_attempt_at)\<close>, NULL over no row.\<close>

definition next_due_error_at :: "pystr \<Rightarrow> rat \<Rightarrow> delivery_store \<Rightarrow> rat option" where
  "next_due_error_at platform now st =
     (let times = concat (map (\<lambda>r. case di_next_attempt_at r of None \<Rightarrow> [] | Some t \<Rightarrow> [t])
            (filter (\<lambda>r. di_platform r = platform \<and> di_state r = DS_error
               \<and> (case di_next_attempt_at r of None \<Rightarrow> False | Some t \<Rightarrow> now < t)
               \<and> lease_free now r) (ds_intents st)))
      in case times of [] \<Rightarrow> None | t # ts \<Rightarrow> Some (foldl min t ts))"

text \<open>\<open>f"{owner}:{uuid4().hex}"\<close>.\<close>

definition delivery_token :: "pystr \<Rightarrow> pystr \<Rightarrow> pystr" where
  "delivery_token owner hex = owner @ [58] @ hex"

definition take_lease :: "pystr \<Rightarrow> pystr \<Rightarrow> rat \<Rightarrow> rat \<Rightarrow> delivery_intent \<Rightarrow> delivery_intent" where
  "take_lease owner token lease_seconds now r =
     r\<lparr>di_lease_owner := Some owner, di_lease_token := Some token,
       di_lease_until := Some (now + lease_seconds), di_fence := di_fence r + 1,
       di_updated_at := now\<rparr>"

definition drop_lease :: "delivery_intent \<Rightarrow> delivery_intent" where
  "drop_lease r = r\<lparr>di_lease_owner := None, di_lease_token := None, di_lease_until := None\<rparr>"

text \<open>The transaction of \<open>claim\<close>, for a token already made.\<close>

definition claim_with ::
  "pystr \<Rightarrow> pystr \<Rightarrow> pystr \<Rightarrow> rat \<Rightarrow> rat \<Rightarrow> delivery_store \<Rightarrow>
   delivery_store \<times> (py_error + pystr option)" where
  "claim_with intent_id owner token lease_seconds now st =
     (if lease_seconds \<le> 0 then (st, Inl (ValueError (str ''delivery lease seconds must be positive'')))
      else
        let P = (\<lambda>r. di_intent_id r = intent_id \<and> di_state r \<notin> set final_delivery_states
                   \<and> (lease_free now r \<or> di_lease_owner r = Some owner))
        in if rows_count P (ds_intents st) \<noteq> 1 then (st, Inr None)
           else (st\<lparr>ds_intents := rows_update P (take_lease owner token lease_seconds now) (ds_intents st)\<rparr>,
                 Inr (Some token)))"

definition delivery_claim ::
  "pystr \<Rightarrow> pystr \<Rightarrow> pystr \<Rightarrow> rat \<Rightarrow> rat \<Rightarrow> delivery_store \<Rightarrow>
   delivery_store \<times> (py_error + pystr option)" where
  "delivery_claim intent_id owner hex lease_seconds now st =
     claim_with intent_id owner (delivery_token owner hex) lease_seconds now st"

definition claim_due_error ::
  "pystr \<Rightarrow> pystr \<Rightarrow> pystr \<Rightarrow> rat \<Rightarrow> rat \<Rightarrow> delivery_store \<Rightarrow>
   delivery_store \<times> (py_error + pystr option)" where
  "claim_due_error intent_id owner hex lease_seconds now st =
     (if lease_seconds \<le> 0 then (st, Inl (ValueError (str ''delivery lease seconds must be positive'')))
      else
        case delivery_get intent_id st of
          None \<Rightarrow> (st, Inr None)
        | Some row \<Rightarrow>
            if di_state row \<noteq> DS_error \<or> di_next_attempt_at row = None then (st, Inr None)
            else if \<not> due_at now row then (st, Inr None)
            else if di_lease_owner row \<noteq> None \<and> di_lease_owner row \<noteq> Some owner
                 \<and> (case di_lease_until row of None \<Rightarrow> False | Some u \<Rightarrow> now < u)
              then (st, Inr None)
            else
              let token = delivery_token owner hex;
                  P = (\<lambda>r. di_intent_id r = intent_id \<and> di_state r = DS_error \<and> due_at now r
                         \<and> di_fence r = di_fence row
                         \<and> (lease_free now r \<or> di_lease_owner r = Some owner))
              in if rows_count P (ds_intents st) \<noteq> 1 then (st, Inr None)
                 else (st\<lparr>ds_intents := rows_update P (take_lease owner token lease_seconds now)
                            (ds_intents st)\<rparr>,
                       Inr (Some token)))"

text \<open>\<open>intent_id = ? AND lease_token = ? AND lease_until > ?\<close>.\<close>

definition lease_held :: "pystr \<Rightarrow> pystr \<Rightarrow> rat \<Rightarrow> delivery_intent \<Rightarrow> bool" where
  "lease_held intent_id token now r \<longleftrightarrow>
     di_intent_id r = intent_id \<and> di_lease_token r = Some token
     \<and> (case di_lease_until r of None \<Rightarrow> False | Some u \<Rightarrow> now < u)"

text \<open>\<open>_fenced_update\<close>: the statement, and whether it touched one row.\<close>

definition fenced_update ::
  "(delivery_intent \<Rightarrow> bool) \<Rightarrow> (delivery_intent \<Rightarrow> delivery_intent) \<Rightarrow> delivery_store \<Rightarrow>
   delivery_store \<times> bool" where
  "fenced_update P f st =
     (st\<lparr>ds_intents := rows_update P f (ds_intents st)\<rparr>, rows_count P (ds_intents st) = 1)"

definition delivery_renew :: "pystr \<Rightarrow> pystr \<Rightarrow> rat \<Rightarrow> rat \<Rightarrow> delivery_store \<Rightarrow> delivery_store \<times> bool" where
  "delivery_renew intent_id token lease_seconds now =
     fenced_update (lease_held intent_id token now)
       (\<lambda>r. r\<lparr>di_lease_until := Some (now + lease_seconds), di_updated_at := now\<rparr>)"

definition mark_retry ::
  "pystr \<Rightarrow> pystr \<Rightarrow> int \<Rightarrow> rat \<Rightarrow> pystr \<Rightarrow> rat \<Rightarrow> delivery_store \<Rightarrow> delivery_store \<times> bool" where
  "mark_retry intent_id token attempt delay error now =
     fenced_update (\<lambda>r. lease_held intent_id token now r \<and> di_state r \<in> set recoverable_states)
       (\<lambda>r. r\<lparr>di_state := (if di_state r = DS_terminal_grace then di_state r else DS_retry_wait),
               di_attempt_count := attempt, di_cursor := di_cursor r + 1,
               di_next_attempt_at := Some (now + max 0 delay), di_last_error := Some error,
               di_updated_at := now\<rparr>)"

definition mark_watching :: "pystr \<Rightarrow> pystr \<Rightarrow> rat \<Rightarrow> delivery_store \<Rightarrow> delivery_store \<times> bool" where
  "mark_watching intent_id token now =
     fenced_update (\<lambda>r. lease_held intent_id token now r \<and> di_state r \<in> set recoverable_states)
       (\<lambda>r. r\<lparr>di_state := (if di_state r \<in> {DS_review_waiting, DS_terminal_grace}
                            then di_state r else DS_watching),
               di_attempt_count := 0, di_redrive_count := 0,
               di_next_attempt_at := None, di_last_error := None, di_updated_at := now\<rparr>)"

definition mark_delivering ::
  "pystr \<Rightarrow> pystr \<Rightarrow> delivery_kind \<Rightarrow> pystr option \<Rightarrow> rat \<Rightarrow> delivery_store \<Rightarrow>
   delivery_store \<times> bool" where
  "mark_delivering intent_id token kind review_id now =
     fenced_update (\<lambda>r. lease_held intent_id token now r \<and> di_state r \<in> set recoverable_states)
       (\<lambda>r. r\<lparr>di_kind := kind, di_review_id := review_id, di_state := DS_delivering,
               di_attempt_count := 0, di_next_attempt_at := None, di_last_error := None,
               di_updated_at := now\<rparr>)"

definition mark_error ::
  "pystr \<Rightarrow> pystr \<Rightarrow> pystr \<Rightarrow> rat option \<Rightarrow> rat \<Rightarrow> delivery_store \<Rightarrow>
   delivery_store \<times> (py_error + bool)" where
  "mark_error intent_id token error redrive_delay now st =
     (if (case redrive_delay of None \<Rightarrow> False | Some d \<Rightarrow> d \<le> 0)
      then (st, Inl (ValueError (str ''delivery redrive delay must be positive'')))
      else
        let (st', ok) = fenced_update
              (\<lambda>r. lease_held intent_id token now r \<and> di_state r \<in> set recoverable_states)
              (\<lambda>r. (drop_lease r)\<lparr>di_state := DS_error,
                      di_next_attempt_at := map_option (\<lambda>d. now + d) redrive_delay,
                      di_last_error := Some error,
                      di_redrive_count := di_redrive_count r + (if redrive_delay = None then 0 else 1),
                      di_updated_at := now\<rparr>) st
        in (st', Inr ok))"

definition mark_review_waiting :: "pystr \<Rightarrow> pystr \<Rightarrow> rat \<Rightarrow> delivery_store \<Rightarrow> delivery_store \<times> bool" where
  "mark_review_waiting intent_id token now =
     fenced_update (\<lambda>r. lease_held intent_id token now r
                      \<and> di_state r \<in> {DS_delivering, DS_review_waiting})
       (\<lambda>r. r\<lparr>di_state := DS_review_waiting, di_attempt_count := 0,
               di_next_attempt_at := None, di_last_error := None, di_updated_at := now\<rparr>)"

definition mark_terminal_steps_done ::
  "pystr \<Rightarrow> pystr \<Rightarrow> rat \<Rightarrow> delivery_store \<Rightarrow> delivery_store \<times> bool" where
  "mark_terminal_steps_done intent_id token now =
     fenced_update (\<lambda>r. lease_held intent_id token now r
                      \<and> di_state r \<in> {DS_delivering, DS_terminal_grace})
       (\<lambda>r. r\<lparr>di_state := DS_terminal_grace, di_attempt_count := 0,
               di_next_attempt_at := None, di_last_error := None, di_updated_at := now\<rparr>)"

definition mark_delivered :: "pystr \<Rightarrow> pystr \<Rightarrow> rat \<Rightarrow> delivery_store \<Rightarrow> delivery_store \<times> bool" where
  "mark_delivered intent_id token now =
     fenced_update (\<lambda>r. lease_held intent_id token now r \<and> di_state r = DS_terminal_grace)
       (\<lambda>r. r\<lparr>di_state := DS_delivered, di_attempt_count := 0,
               di_next_attempt_at := None, di_last_error := None, di_updated_at := now\<rparr>)"

definition mark_superseded :: "pystr \<Rightarrow> pystr \<Rightarrow> rat \<Rightarrow> delivery_store \<Rightarrow> delivery_store \<times> bool" where
  "mark_superseded intent_id token now =
     fenced_update (\<lambda>r. lease_held intent_id token now r \<and> di_state r \<in> set recoverable_states)
       (\<lambda>r. (drop_lease r)\<lparr>di_state := DS_superseded, di_updated_at := now\<rparr>)"

definition step_delivered :: "pystr \<Rightarrow> pystr \<Rightarrow> delivery_store \<Rightarrow> bool" where
  "step_delivered intent_id step_key st =
     list_ex (\<lambda>r. dt_intent_id r = intent_id \<and> dt_step_key r = step_key) (ds_steps st)"

definition mark_step_delivered ::
  "pystr \<Rightarrow> pystr \<Rightarrow> pystr \<Rightarrow> rat \<Rightarrow> delivery_store \<Rightarrow> delivery_store \<times> bool" where
  "mark_step_delivered intent_id token step_key now st =
     (if rows_count (lease_held intent_id token now) (ds_intents st) = 0 then (st, False)
      else
        (st\<lparr>ds_steps := (if step_delivered intent_id step_key st then ds_steps st
                        else ds_steps st @ [\<lparr>dt_intent_id = intent_id, dt_step_key = step_key,
                                            dt_delivered_at = now\<rparr>]),
            ds_intents := rows_update (\<lambda>r. di_intent_id r = intent_id \<and> di_lease_token r = Some token)
              (\<lambda>r. r\<lparr>di_cursor := di_cursor r + 1, di_updated_at := now\<rparr>) (ds_intents st)\<rparr>,
         True))"

definition delivery_release :: "pystr \<Rightarrow> pystr \<Rightarrow> rat \<Rightarrow> delivery_store \<Rightarrow> delivery_store \<times> bool" where
  "delivery_release intent_id token now =
     fenced_update (\<lambda>r. di_intent_id r = intent_id \<and> di_lease_token r = Some token)
       (\<lambda>r. (drop_lease r)\<lparr>di_updated_at := now\<rparr>)"

definition release_owner :: "pystr \<Rightarrow> rat \<Rightarrow> delivery_store \<Rightarrow> delivery_store" where
  "release_owner owner now st =
     st\<lparr>ds_intents := rows_update (\<lambda>r. di_lease_owner r = Some owner)
          (\<lambda>r. (drop_lease r)\<lparr>di_updated_at := now\<rparr>) (ds_intents st)\<rparr>"

subsection \<open>The operations as commands\<close>

text \<open>The operations a worker applies under its token, and the others; an operation that raises answers False.\<close>

datatype owned_op =
    O_renew rat | O_retry int rat pystr | O_watching | O_delivering delivery_kind "pystr option"
  | O_error pystr "rat option" | O_review_waiting | O_terminal_done | O_delivered | O_superseded
  | O_step pystr | O_release

datatype delivery_op =
    D_ensure pystr pystr pystr pystr int rat
  | D_claim pystr pystr pystr rat rat
  | D_claim_due pystr pystr pystr rat rat
  | D_owned owned_op pystr pystr rat
  | D_release_owner pystr rat

fun owned_step :: "owned_op \<Rightarrow> pystr \<Rightarrow> pystr \<Rightarrow> rat \<Rightarrow> delivery_store \<Rightarrow> delivery_store \<times> bool" where
  "owned_step (O_renew secs) k token now st = delivery_renew k token secs now st"
| "owned_step (O_retry attempt delay err) k token now st = mark_retry k token attempt delay err now st"
| "owned_step O_watching k token now st = mark_watching k token now st"
| "owned_step (O_delivering kind review) k token now st = mark_delivering k token kind review now st"
| "owned_step (O_error err redrive) k token now st =
     (let (st', r) = mark_error k token err redrive now st in (st', r = Inr True))"
| "owned_step O_review_waiting k token now st = mark_review_waiting k token now st"
| "owned_step O_terminal_done k token now st = mark_terminal_steps_done k token now st"
| "owned_step O_delivered k token now st = mark_delivered k token now st"
| "owned_step O_superseded k token now st = mark_superseded k token now st"
| "owned_step (O_step key) k token now st = mark_step_delivered k token key now st"
| "owned_step O_release k token now st = delivery_release k token now st"

definition claim_ok :: "delivery_store \<times> (py_error + pystr option) \<Rightarrow> delivery_store \<times> bool" where
  "claim_ok x = (fst x, case snd x of Inr (Some _) \<Rightarrow> True | _ \<Rightarrow> False)"

fun delivery_step :: "delivery_op \<Rightarrow> delivery_store \<Rightarrow> delivery_store \<times> bool" where
  "delivery_step (D_ensure platform sk chat task run now) st =
     (let (st', r) = ensure_watch platform sk chat task run now st in (st', \<not> isl r))"
| "delivery_step (D_claim k owner hex secs now) st = claim_ok (delivery_claim k owner hex secs now st)"
| "delivery_step (D_claim_due k owner hex secs now) st = claim_ok (claim_due_error k owner hex secs now st)"
| "delivery_step (D_owned op k token now) st = owned_step op k token now st"
| "delivery_step (D_release_owner owner now) st = (release_owner owner now st, True)"

fun delivery_run :: "delivery_op list \<Rightarrow> delivery_store \<Rightarrow> delivery_store" where
  "delivery_run [] st = st"
| "delivery_run (op # ops) st = delivery_run ops (fst (delivery_step op st))"

text \<open>What an owned operation asks of the row, and what it makes of it.\<close>

fun owned_guard :: "owned_op \<Rightarrow> pystr \<Rightarrow> pystr \<Rightarrow> rat \<Rightarrow> delivery_intent \<Rightarrow> bool" where
  "owned_guard O_release k token now r = (di_intent_id r = k \<and> di_lease_token r = Some token)"
| "owned_guard (O_renew secs) k token now r = lease_held k token now r"
| "owned_guard (O_step key) k token now r = lease_held k token now r"
| "owned_guard (O_error err redrive) k token now r =
     (lease_held k token now r \<and> di_state r \<in> set recoverable_states
      \<and> (case redrive of None \<Rightarrow> True | Some d \<Rightarrow> 0 < d))"
| "owned_guard O_review_waiting k token now r =
     (lease_held k token now r \<and> di_state r \<in> {DS_delivering, DS_review_waiting})"
| "owned_guard O_terminal_done k token now r =
     (lease_held k token now r \<and> di_state r \<in> {DS_delivering, DS_terminal_grace})"
| "owned_guard O_delivered k token now r =
     (lease_held k token now r \<and> di_state r = DS_terminal_grace)"
| "owned_guard _ k token now r = (lease_held k token now r \<and> di_state r \<in> set recoverable_states)"

fun owned_state :: "owned_op \<Rightarrow> delivery_state \<Rightarrow> delivery_state" where
  "owned_state (O_retry _ _ _) s = (if s = DS_terminal_grace then s else DS_retry_wait)"
| "owned_state O_watching s = (if s \<in> {DS_review_waiting, DS_terminal_grace} then s else DS_watching)"
| "owned_state (O_delivering _ _) s = DS_delivering"
| "owned_state (O_error _ _) s = DS_error"
| "owned_state O_review_waiting s = DS_review_waiting"
| "owned_state O_terminal_done s = DS_terminal_grace"
| "owned_state O_delivered s = DS_delivered"
| "owned_state O_superseded s = DS_superseded"
| "owned_state _ s = s"

definition intents_ok :: "delivery_store \<Rightarrow> bool" where
  "intents_ok st \<longleftrightarrow> unique_key di_intent_id (ds_intents st)"

lemma held_key: "lease_held k token now r \<Longrightarrow> di_intent_id r = k"
  by (simp add: lease_held_def)

lemma fenced_update_get:
  assumes "\<And>r. P r \<Longrightarrow> di_intent_id (f r) = di_intent_id r"
  shows "delivery_get k (fst (fenced_update P f st)) = map_option (\<lambda>r. if P r then f r else r) (delivery_get k st)"
  using assms by (simp add: fenced_update_def delivery_get_def row_at_rows_update)

lemma fenced_update_count:
  assumes "intents_ok st" and "\<And>r. P r \<Longrightarrow> di_intent_id r = k"
  shows "snd (fenced_update P f st) \<longleftrightarrow> (case delivery_get k st of None \<Rightarrow> False | Some r \<Rightarrow> P r)"
  using rows_count_key [of di_intent_id "ds_intents st" P k] assms
  by (auto simp: fenced_update_def delivery_get_def intents_ok_def split: option.splits)

lemma intents_ok_fenced:
  "intents_ok st \<Longrightarrow> (\<And>r. P r \<Longrightarrow> di_intent_id (f r) = di_intent_id r) \<Longrightarrow> intents_ok (fst (fenced_update P f st))"
  by (simp add: fenced_update_def intents_ok_def unique_key_rows_update)

lemma drop_lease_key [simp]: "di_intent_id (drop_lease r) = di_intent_id r"
  by (simp add: drop_lease_def)

lemma take_lease_key [simp]: "di_intent_id (take_lease owner token secs now r) = di_intent_id r"
  by (simp add: take_lease_def)

lemmas owned_defs = delivery_renew_def mark_retry_def mark_watching_def mark_delivering_def
  mark_review_waiting_def mark_terminal_steps_done_def mark_delivered_def mark_superseded_def
  delivery_release_def

lemma held_at:
  "intents_ok st \<Longrightarrow> rows_count (lease_held k token now) (ds_intents st) = 0 \<longleftrightarrow>
    \<not> (case delivery_get k st of None \<Rightarrow> False | Some r \<Rightarrow> lease_held k token now r)"
  using rows_count_key [of di_intent_id "ds_intents st" "lease_held k token now" k, OF _ held_key]
  by (auto simp: intents_ok_def delivery_get_def split: option.splits)

lemma owned_step_answer:
  assumes "intents_ok st"
  shows "snd (owned_step op k token now st) \<longleftrightarrow>
    (case delivery_get k st of None \<Rightarrow> False | Some r \<Rightarrow> owned_guard op k token now r)"
proof (cases op)
  case (O_step key)
  then show ?thesis
    using held_at [OF assms, of k token now] by (auto simp: mark_step_delivered_def split: option.splits)
next
  case (O_error err redrive)
  then show ?thesis
    by (auto simp: mark_error_def case_prod_beta Let_def fenced_update_count [OF assms, of _ k] lease_held_def
        split: option.splits)
qed (simp add: owned_defs; subst fenced_update_count [OF assms, of _ k];
    auto simp: lease_held_def split: option.splits)+

lemma owned_step_id:
  assumes "intents_ok st" and "\<not> snd (owned_step op k token now st)"
  shows "fst (owned_step op k token now st) = st"
proof -
  have "\<not> owned_guard op k token now r" if "r \<in> set (ds_intents st)" "di_intent_id r = k" for r
    using assms owned_step_answer [OF assms(1), of op k token now] row_at_unique [of di_intent_id "ds_intents st" r] that
    by (auto simp: delivery_get_def intents_ok_def)
  then have g: "\<not> owned_guard op k token now r" if "r \<in> set (ds_intents st)" for r
    using that by (cases "di_intent_id r = k") (auto simp: lease_held_def elim!: owned_guard.elims)
  show ?thesis
  proof (cases op)
    case (O_error err redrive)
    show ?thesis
    proof (cases "case redrive of None \<Rightarrow> False | Some d \<Rightarrow> d \<le> 0")
      case True
      then show ?thesis by (simp add: O_error mark_error_def)
    next
      case False
      then have "\<not> (lease_held k token now r \<and> di_state r \<in> set recoverable_states)"
        if "r \<in> set (ds_intents st)" for r
        using g [OF that] by (auto simp: O_error not_le split: option.splits)
      then show ?thesis
        using False by (simp add: O_error mark_error_def fenced_update_def case_prod_beta Let_def rows_update_id)
    qed
  next
    case (O_step key)
    then show ?thesis
      using g by (auto simp: mark_step_delivered_def rows_count_0)
  qed (use g in \<open>auto simp: owned_defs fenced_update_def rows_update_id\<close>)
qed

lemma owned_step_ok: "intents_ok st \<Longrightarrow> intents_ok (fst (owned_step op k token now st))"
proof (cases op)
  case (O_error err redrive)
  assume "intents_ok st"
  then show ?thesis
    using O_error intents_ok_fenced by (auto simp: mark_error_def case_prod_beta Let_def intro!: intents_ok_fenced)
next
  case (O_step key)
  assume "intents_ok st"
  then show ?thesis
    using O_step by (auto simp: mark_step_delivered_def intents_ok_def unique_key_rows_update)
qed (auto simp: owned_defs intro!: intents_ok_fenced)

fun owned_effect :: "owned_op \<Rightarrow> rat \<Rightarrow> delivery_intent \<Rightarrow> delivery_intent" where
  "owned_effect (O_renew secs) now r = r\<lparr>di_lease_until := Some (now + secs), di_updated_at := now\<rparr>"
| "owned_effect (O_step key) now r = r\<lparr>di_cursor := di_cursor r + 1, di_updated_at := now\<rparr>"
| "owned_effect O_release now r = (drop_lease r)\<lparr>di_updated_at := now\<rparr>"
| "owned_effect O_superseded now r = (drop_lease r)\<lparr>di_state := DS_superseded, di_updated_at := now\<rparr>"
| "owned_effect (O_error err redrive) now r =
     (drop_lease r)\<lparr>di_state := DS_error, di_next_attempt_at := map_option (\<lambda>d. now + d) redrive,
        di_last_error := Some err,
        di_redrive_count := di_redrive_count r + (if redrive = None then 0 else 1),
        di_updated_at := now\<rparr>"
| "owned_effect (O_retry attempt delay err) now r =
     r\<lparr>di_state := owned_state (O_retry attempt delay err) (di_state r), di_attempt_count := attempt,
        di_cursor := di_cursor r + 1, di_next_attempt_at := Some (now + max 0 delay),
        di_last_error := Some err, di_updated_at := now\<rparr>"
| "owned_effect O_watching now r =
     r\<lparr>di_state := owned_state O_watching (di_state r), di_attempt_count := 0, di_redrive_count := 0,
        di_next_attempt_at := None, di_last_error := None, di_updated_at := now\<rparr>"
| "owned_effect (O_delivering kind review) now r =
     r\<lparr>di_kind := kind, di_review_id := review, di_state := DS_delivering, di_attempt_count := 0,
        di_next_attempt_at := None, di_last_error := None, di_updated_at := now\<rparr>"
| "owned_effect op now r =
     r\<lparr>di_state := owned_state op (di_state r), di_attempt_count := 0, di_next_attempt_at := None,
        di_last_error := None, di_updated_at := now\<rparr>"

lemma get_key: "delivery_get k st = Some r \<Longrightarrow> di_intent_id r = k"
  by (auto simp: delivery_get_def dest: row_at_SomeD)

lemma step_get:
  assumes "intents_ok st"
  shows "delivery_get j (fst (mark_step_delivered k token key now st)) = map_option
    (\<lambda>r. if lease_held k token now r then r\<lparr>di_cursor := di_cursor r + 1, di_updated_at := now\<rparr> else r)
    (delivery_get j st)"
proof (cases "rows_count (lease_held k token now) (ds_intents st) = 0")
  case True
  then have "\<not> lease_held k token now r" if "r \<in> set (ds_intents st)" for r
    using that by (simp add: rows_count_0)
  then show ?thesis
    using True by (cases "delivery_get j st")
      (auto simp: mark_step_delivered_def delivery_get_def dest: row_at_SomeD)
next
  case False
  then obtain q where q: "delivery_get k st = Some q" "lease_held k token now q"
    using held_at [OF assms, of k token now] by (auto split: option.splits)
  show ?thesis
  proof (cases "j = k")
    case True
    then show ?thesis
      using False q
      by (simp add: mark_step_delivered_def delivery_get_def row_at_rows_update) (simp add: lease_held_def)
  next
    case other: False
    then show ?thesis
      using False by (cases "delivery_get j st")
        (auto simp: mark_step_delivered_def delivery_get_def row_at_rows_update lease_held_def
          dest: row_at_SomeD)
  qed
qed

lemma owned_step_row:
  assumes "intents_ok st"
  shows "delivery_get j (fst (owned_step op k token now st)) =
    map_option (\<lambda>r. if owned_guard op k token now r then owned_effect op now r else r) (delivery_get j st)"
proof (cases op)
  case (O_step key)
  show ?thesis
    unfolding O_step by (simp add: step_get [OF assms] cong: if_cong)
next
  case (O_error err redrive)
  show ?thesis
  proof (cases "case redrive of None \<Rightarrow> False | Some d \<Rightarrow> d \<le> 0")
    case True
    then show ?thesis
      by (cases "delivery_get j st") (auto simp: O_error mark_error_def split: option.splits)
  next
    case False
    then show ?thesis
      by (cases "delivery_get j st")
        (auto simp: O_error mark_error_def case_prod_beta Let_def fenced_update_get not_le
          split: option.splits)
  qed
qed (auto simp: owned_defs fenced_update_get intro!: option.map_cong)

lemma owned_step_at:
  "intents_ok st \<Longrightarrow> delivery_get j st = Some r \<Longrightarrow>
    delivery_get j (fst (owned_step op k token now st)) =
      Some (if owned_guard op k token now r then owned_effect op now r else r)"
  by (simp add: owned_step_row)

text \<open>A claim that succeeds takes the lease of the row it names and of no other.\<close>

definition claimable :: "rat \<Rightarrow> pystr \<Rightarrow> delivery_intent \<Rightarrow> bool" where
  "claimable now owner r \<longleftrightarrow>
     di_state r \<notin> set final_delivery_states \<and> (lease_free now r \<or> di_lease_owner r = Some owner)"

lemma claim_update_get:
  assumes "intents_ok st" and "\<And>r. P r \<Longrightarrow> di_intent_id r = k"
  shows "delivery_get j (st\<lparr>ds_intents := rows_update P (take_lease owner token secs now) (ds_intents st)\<rparr>)
    = map_option (\<lambda>r. if P r then take_lease owner token secs now r else r) (delivery_get j st)"
    and "rows_count P (ds_intents st) = 1 \<longleftrightarrow> (case delivery_get k st of None \<Rightarrow> False | Some r \<Rightarrow> P r)"
  using rows_count_key [of di_intent_id "ds_intents st" P k] assms
  by (auto simp: delivery_get_def row_at_rows_update intents_ok_def split: option.splits)

lemma claim_with_cases:
  assumes "intents_ok st"
  shows "if 0 < secs \<and> (case delivery_get k st of None \<Rightarrow> False | Some r \<Rightarrow> claimable now owner r)
    then snd (claim_with k owner token secs now st) = Inr (Some token)
      \<and> delivery_get j (fst (claim_with k owner token secs now st)) =
         map_option (\<lambda>r. if j = k then take_lease owner token secs now r else r) (delivery_get j st)
    else fst (claim_with k owner token secs now st) = st
      \<and> (\<forall>t. snd (claim_with k owner token secs now st) \<noteq> Inr (Some t))"
proof (cases "0 < secs")
  case False
  then show ?thesis by (simp add: claim_with_def)
next
  case True
  let ?P = "\<lambda>r. di_intent_id r = k \<and> di_state r \<notin> set final_delivery_states
                   \<and> (lease_free now r \<or> di_lease_owner r = Some owner)"
  have c: "rows_count ?P (ds_intents st) = 1 \<longleftrightarrow>
      (case delivery_get k st of None \<Rightarrow> False | Some r \<Rightarrow> claimable now owner r)"
    using claim_update_get(2) [OF assms, of ?P k] get_key [of k st]
    by (auto simp: claimable_def split: option.splits)
  have g: "delivery_get j (st\<lparr>ds_intents := rows_update ?P (take_lease owner token secs now) (ds_intents st)\<rparr>)
    = map_option (\<lambda>r. if ?P r then take_lease owner token secs now r else r) (delivery_get j st)"
    by (rule claim_update_get(1) [OF assms, of ?P k]) simp
  show ?thesis
    using True c g get_key [of j st]
    by (cases "delivery_get j st") (auto simp: claim_with_def Let_def claimable_def split: option.splits)
qed

text \<open>A due error is claimed under the same conditions, once it is due.\<close>

definition claimable_error :: "rat \<Rightarrow> pystr \<Rightarrow> delivery_intent \<Rightarrow> bool" where
  "claimable_error now owner r \<longleftrightarrow>
     di_state r = DS_error \<and> due_at now r \<and> (lease_free now r \<or> di_lease_owner r = Some owner)"

lemma claim_due_cases:
  assumes "intents_ok st"
  shows "if 0 < secs \<and> (case delivery_get k st of None \<Rightarrow> False | Some r \<Rightarrow> claimable_error now owner r)
    then snd (claim_due_error k owner hex secs now st) = Inr (Some (delivery_token owner hex))
      \<and> delivery_get j (fst (claim_due_error k owner hex secs now st)) =
         map_option (\<lambda>r. if j = k then take_lease owner (delivery_token owner hex) secs now r else r)
           (delivery_get j st)
    else fst (claim_due_error k owner hex secs now st) = st
      \<and> (\<forall>t. snd (claim_due_error k owner hex secs now st) \<noteq> Inr (Some t))"
proof (cases "0 < secs \<and> delivery_get k st \<noteq> None")
  case False
  then show ?thesis by (auto simp: claim_due_error_def)
next
  case True
  then obtain row where row: "delivery_get k st = Some row" and secs: "0 < secs" by auto
  let ?P = "\<lambda>r. di_intent_id r = k \<and> di_state r = DS_error \<and> due_at now r
                         \<and> di_fence r = di_fence row
                         \<and> (lease_free now r \<or> di_lease_owner r = Some owner)"
  have c: "rows_count ?P (ds_intents st) = 1 \<longleftrightarrow> claimable_error now owner row"
    using claim_update_get(2) [OF assms, of ?P k] get_key [OF row] row
    by (auto simp: claimable_error_def)
  have g: "delivery_get j (st\<lparr>ds_intents := rows_update ?P (take_lease owner t secs now) (ds_intents st)\<rparr>)
    = map_option (\<lambda>r. if ?P r then take_lease owner t secs now r else r) (delivery_get j st)" for t
    by (rule claim_update_get(1) [OF assms, of ?P k]) simp
  show ?thesis
  proof (cases "claimable_error now owner row")
    case True
    then have "di_next_attempt_at row \<noteq> None"
        "\<not> (di_lease_owner row \<noteq> None \<and> di_lease_owner row \<noteq> Some owner
           \<and> (case di_lease_until row of None \<Rightarrow> False | Some u \<Rightarrow> now < u))"
      by (auto simp: claimable_error_def due_at_def lease_free_def split: option.splits)
    then show ?thesis
      using True secs row c g get_key [of j st]
      by (cases "delivery_get j st")
        (auto simp: claim_due_error_def Let_def claimable_error_def)
  next
    case False
    then have "rows_count ?P (ds_intents st) \<noteq> 1" using c by simp
    then show ?thesis
      using False row by (simp add: claim_due_error_def Let_def)
  qed
qed

subsection \<open>The delivery lease\<close>

definition delivery_owner :: "delivery_store \<Rightarrow> pystr \<Rightarrow> pystr option" where
  "delivery_owner st k = (case delivery_get k st of None \<Rightarrow> None | Some r \<Rightarrow> di_lease_token r)"

text \<open>The lease operations: the environment gives the owner's name, the lease length and the clock.\<close>

definition delivery_acquire ::
  "pystr \<times> rat \<times> rat \<Rightarrow> pystr \<Rightarrow> pystr \<Rightarrow> delivery_store \<Rightarrow> delivery_store \<times> bool" where
  "delivery_acquire e token k st =
     (case e of (owner, secs, now) \<Rightarrow> claim_ok (claim_with k owner token secs now st))"

definition delivery_finish ::
  "pystr \<times> rat \<times> rat \<Rightarrow> pystr \<Rightarrow> pystr \<Rightarrow> delivery_store \<Rightarrow> delivery_store \<times> bool" where
  "delivery_finish e token k st = owned_step O_release k token (snd (snd e)) st"

lemma take_lease_token [simp]: "di_lease_token (take_lease owner token secs now r) = Some token"
  by (simp add: take_lease_def)

lemma intents_ok_claim_with: "intents_ok st \<Longrightarrow> intents_ok (fst (claim_with k owner token secs now st))"
  by (auto simp: claim_with_def Let_def intents_ok_def unique_key_rows_update)

lemma intents_ok_claim_due: "intents_ok st \<Longrightarrow> intents_ok (fst (claim_due_error k owner hex secs now st))"
  by (auto simp: claim_due_error_def Let_def intents_ok_def unique_key_rows_update split: option.splits)

lemma claim_with_ok_iff:
  "intents_ok st \<Longrightarrow> snd (claim_ok (claim_with k owner token secs now st)) \<longleftrightarrow>
    0 < secs \<and> (case delivery_get k st of None \<Rightarrow> False | Some r \<Rightarrow> claimable now owner r)"
  using claim_with_cases [of st secs now owner k token k]
  by (auto simp: claim_ok_def split: sum.splits option.splits if_splits)

lemma claim_due_ok_iff:
  "intents_ok st \<Longrightarrow> snd (claim_ok (claim_due_error k owner hex secs now st)) \<longleftrightarrow>
    0 < secs \<and> (case delivery_get k st of None \<Rightarrow> False | Some r \<Rightarrow> claimable_error now owner r)"
  using claim_due_cases [of st secs now owner k hex k]
  by (auto simp: claim_ok_def split: sum.splits option.splits if_splits)

lemma claim_with_refused:
  "intents_ok st \<Longrightarrow> \<not> snd (claim_ok (claim_with k owner token secs now st)) \<Longrightarrow>
    fst (claim_ok (claim_with k owner token secs now st)) = st"
  using claim_with_cases [of st secs now owner k token k]
  by (auto simp: claim_ok_def split: sum.splits option.splits if_splits)

lemma claim_with_taken:
  "intents_ok st \<Longrightarrow> snd (claim_ok (claim_with k owner token secs now st)) \<Longrightarrow>
    delivery_get j (fst (claim_ok (claim_with k owner token secs now st))) =
      map_option (\<lambda>r. if j = k then take_lease owner token secs now r else r) (delivery_get j st)"
  using claim_with_cases [of st secs now owner k token j] claim_with_ok_iff [of st k owner token secs now]
  by (simp add: claim_ok_def)

interpretation delivery_lease: fenced_lease intents_ok delivery_owner delivery_acquire delivery_finish
proof unfold_locales
  fix s and e :: "pystr \<times> rat \<times> rat" and t k k'
  assume ok: "intents_ok s"
  obtain owner secs now where e: "e = (owner, secs, now)" by (cases e)
  have ac: "delivery_acquire e t k s = claim_ok (claim_with k owner t secs now s)"
    by (simp add: delivery_acquire_def e)
  show "intents_ok (fst (delivery_acquire e t k s))"
    using intents_ok_claim_with [OF ok] by (simp add: ac claim_ok_def)
  show "intents_ok (fst (delivery_finish e t k s))"
    using owned_step_ok [OF ok] by (simp only: delivery_finish_def)
  show "snd (delivery_acquire e t k s) \<Longrightarrow> delivery_owner (fst (delivery_acquire e t k s)) k = Some t"
    using claim_with_taken [OF ok, of k owner t secs now k] claim_with_ok_iff [OF ok, of k owner t secs now]
    by (auto simp: ac delivery_owner_def split: option.splits)
  show "\<not> snd (delivery_acquire e t k s) \<Longrightarrow>
      delivery_owner (fst (delivery_acquire e t k s)) k = delivery_owner s k"
    using claim_with_refused [OF ok] by (simp add: ac)
  show "k' \<noteq> k \<Longrightarrow> delivery_owner (fst (delivery_acquire e t k s)) k' = delivery_owner s k'"
    using claim_with_taken [OF ok, of k owner t secs now k'] claim_with_refused [OF ok, of k owner t secs now]
    by (cases "snd (claim_ok (claim_with k owner t secs now s))")
      (auto simp: ac delivery_owner_def split: option.splits)
  show "snd (delivery_finish e t k s) \<Longrightarrow> delivery_owner s k = Some t"
    using owned_step_answer [OF ok, of O_release k t "snd (snd e)"]
    by (auto simp: delivery_finish_def delivery_owner_def split: option.splits)
  show "snd (delivery_finish e t k s) \<Longrightarrow> delivery_owner (fst (delivery_finish e t k s)) k = None"
    using owned_step_answer [OF ok, of O_release k t "snd (snd e)"]
      owned_step_row [OF ok, of k O_release k t "snd (snd e)"]
    by (auto simp: delivery_finish_def delivery_owner_def drop_lease_def split: option.splits)
  show "\<not> snd (delivery_finish e t k s) \<Longrightarrow> fst (delivery_finish e t k s) = s"
    using owned_step_id [OF ok, of O_release k t "snd (snd e)"] by (simp add: delivery_finish_def)
  show "k' \<noteq> k \<Longrightarrow> delivery_owner (fst (delivery_finish e t k s)) k' = delivery_owner s k'"
    using owned_step_row [OF ok, of k' O_release k t "snd (snd e)"] get_key [of k' s]
    by (auto simp: delivery_finish_def delivery_owner_def split: option.splits)
qed

subsection \<open>Runs\<close>

lemma intents_ok_ensure: "intents_ok st \<Longrightarrow> intents_ok (fst (ensure_watch pl sk chat task run now st))"
  by (auto simp: ensure_watch_def Let_def intents_ok_def delivery_get_def unique_key_snoc
      unique_key_rows_update new_intent_def row_at_None split: option.splits)

lemma delivery_step_ok: "intents_ok st \<Longrightarrow> intents_ok (fst (delivery_step op st))"
proof (cases op)
  case (D_release_owner owner now)
  assume "intents_ok st"
  then show ?thesis
    by (simp add: D_release_owner release_owner_def intents_ok_def unique_key_rows_update)
qed (simp_all add: case_prod_beta Let_def claim_ok_def delivery_claim_def intents_ok_ensure
    intents_ok_claim_with intents_ok_claim_due owned_step_ok)

lemma delivery_run_ok: "intents_ok st \<Longrightarrow> intents_ok (delivery_run ops st)"
  by (induction ops arbitrary: st) (simp_all add: delivery_step_ok)

lemma delivery_run_append: "delivery_run (xs @ ys) st = delivery_run ys (delivery_run xs st)"
  by (induction xs arbitrary: st) simp_all

text \<open>What one operation makes of one row.\<close>

fun row_after :: "delivery_op \<Rightarrow> delivery_intent \<Rightarrow> delivery_intent" where
  "row_after (D_ensure platform sk chat task run now) r =
     (if 0 \<le> run \<and> di_intent_id r = delivery_intent_id platform sk task run
      then r\<lparr>di_chat_id := chat, di_updated_at := now\<rparr> else r)"
| "row_after (D_claim k owner hex secs now) r =
     (if di_intent_id r = k \<and> 0 < secs \<and> claimable now owner r
      then take_lease owner (delivery_token owner hex) secs now r else r)"
| "row_after (D_claim_due k owner hex secs now) r =
     (if di_intent_id r = k \<and> 0 < secs \<and> claimable_error now owner r
      then take_lease owner (delivery_token owner hex) secs now r else r)"
| "row_after (D_owned op k token now) r =
     (if owned_guard op k token now r then owned_effect op now r else r)"
| "row_after (D_release_owner owner now) r =
     (if di_lease_owner r = Some owner then (drop_lease r)\<lparr>di_updated_at := now\<rparr> else r)"

lemma delivery_step_row:
  assumes "intents_ok st" and "delivery_get j st = Some r"
  shows "delivery_get j (fst (delivery_step op st)) = Some (row_after op r)"
proof (cases op)
  case (D_ensure platform sk chat task run now)
  then show ?thesis
    using assms get_key [OF assms(2)]
    by (cases "delivery_get (delivery_intent_id platform sk task run) st")
      (auto simp: ensure_watch_def Let_def delivery_get_def row_at_snoc row_at_rows_update)
next
  case (D_claim k owner hex secs now)
  then show ?thesis
    using claim_with_cases [OF assms(1), of secs now owner k "delivery_token owner hex" j]
      assms(2) get_key [OF assms(2)]
    by (cases "j = k") (auto simp: claim_ok_def delivery_claim_def split: if_splits)
next
  case (D_claim_due k owner hex secs now)
  then show ?thesis
    using claim_due_cases [OF assms(1), of secs now owner k hex j] assms(2) get_key [OF assms(2)]
    by (cases "j = k") (auto simp: claim_ok_def split: if_splits)
next
  case (D_owned op k token now)
  then show ?thesis
    using owned_step_at [OF assms] by simp
next
  case (D_release_owner owner now)
  then show ?thesis
    using assms(2) by (simp add: release_owner_def delivery_get_def row_at_rows_update)
qed

text \<open>The row of an intent is never lost, so a run folds \<open>row_after\<close>.\<close>

lemma delivery_run_row:
  "intents_ok st \<Longrightarrow> delivery_get j st = Some r \<Longrightarrow>
    delivery_get j (delivery_run ops st) = Some (fold row_after ops r)"
  by (induction ops arbitrary: st r) (simp_all add: delivery_step_ok delivery_step_row)

subsection \<open>Helpers of the properties\<close>

lemma claimable_not_final: "claimable now owner r \<Longrightarrow> di_state r \<notin> set final_delivery_states"
  by (simp add: claimable_def)

lemma row_after_state:
  "di_state (row_after op r) = (case op of
     D_owned oop k token now \<Rightarrow> if owned_guard oop k token now r then owned_state oop (di_state r) else di_state r
   | _ \<Rightarrow> di_state r)"
proof (cases op)
  case (D_owned oop k token now)
  then show ?thesis by (cases oop) (auto simp: drop_lease_def)
qed (auto simp: take_lease_def drop_lease_def)

lemma owned_guard_final:
  "owned_guard oop k token now r \<Longrightarrow> di_state r \<in> set final_delivery_states \<Longrightarrow> owned_state oop (di_state r) = di_state r"
  by (cases oop) (auto simp: final_delivery_states_def recoverable_states_def)

lemma row_after_final:
  "di_state r \<in> set final_delivery_states \<Longrightarrow> di_state (row_after op r) = di_state r"
  by (auto simp: row_after_state owned_guard_final split: delivery_op.splits)

lemma owned_effect_keeps [simp]:
  "di_intent_id (owned_effect oop now r) = di_intent_id r" "di_platform (owned_effect oop now r) = di_platform r"
  "di_session_key (owned_effect oop now r) = di_session_key r" "di_task_id (owned_effect oop now r) = di_task_id r"
  "di_run_count (owned_effect oop now r) = di_run_count r" "di_fence (owned_effect oop now r) = di_fence r"
  "di_created_at (owned_effect oop now r) = di_created_at r"
  by (cases oop; simp add: drop_lease_def)+

definition same_watch :: "delivery_intent \<Rightarrow> delivery_intent \<Rightarrow> bool" where
  "same_watch r r' \<longleftrightarrow>
     di_intent_id r' = di_intent_id r \<and> di_platform r' = di_platform r
     \<and> di_session_key r' = di_session_key r \<and> di_task_id r' = di_task_id r
     \<and> di_run_count r' = di_run_count r \<and> di_created_at r' = di_created_at r"

lemma row_after_same: "same_watch r (row_after op r)"
  by (cases op) (auto simp: same_watch_def take_lease_def drop_lease_def)

lemma row_after_fence: "di_fence r \<le> di_fence (row_after op r)"
  by (cases op) (auto simp: take_lease_def drop_lease_def)

lemma fold_row_after:
  "same_watch r (fold row_after ops r) \<and> di_fence r \<le> di_fence (fold row_after ops r)
    \<and> (di_state r \<in> set final_delivery_states \<longrightarrow> di_state (fold row_after ops r) = di_state r)"
proof (induction ops arbitrary: r)
  case Nil
  then show ?case by (simp add: same_watch_def)
next
  case (Cons op ops)
  show ?case
    using Cons.IH [of "row_after op r"] row_after_same [of r op] row_after_fence [of r op]
      row_after_final [of r op]
    by (auto simp: same_watch_def)
qed

text \<open>A condition of a row that a run makes true was made true by one of its operations.\<close>

lemma fold_flip:
  assumes "\<not> Q r" and "Q (fold row_after ops r)"
  shows "\<exists>a op b. ops = a @ op # b \<and> \<not> Q (fold row_after a r) \<and> Q (row_after op (fold row_after a r))"
  using assms
proof (induction ops rule: rev_induct)
  case Nil
  then show ?case by simp
next
  case (snoc op ops)
  show ?case
  proof (cases "Q (fold row_after ops r)")
    case True
    then obtain a p b where "ops = a @ p # b" "\<not> Q (fold row_after a r)" "Q (row_after p (fold row_after a r))"
      using snoc by blast
    then show ?thesis by (metis append.assoc append_Cons)
  next
    case False
    then show ?thesis using snoc.prems by (intro exI [of _ ops]) auto
  qed
qed

text \<open>The row carries this lease token, and its lease has not ended.\<close>

definition live_token :: "pystr \<Rightarrow> rat \<Rightarrow> delivery_intent \<Rightarrow> bool" where
  "live_token token now r \<longleftrightarrow>
     di_lease_token r = Some token \<and> (\<exists>until. di_lease_until r = Some until \<and> now < until)"

definition intent_leased :: "pystr \<Rightarrow> pystr \<Rightarrow> rat \<Rightarrow> delivery_store \<Rightarrow> bool" where
  "intent_leased k token now st \<longleftrightarrow> (\<exists>r. delivery_get k st = Some r \<and> live_token token now r)"

lemma held_live: "lease_held k token now r \<Longrightarrow> di_intent_id r = k \<and> live_token token now r"
  by (auto simp: lease_held_def live_token_def split: option.splits)

lemma flip_delivered:
  assumes "di_state r \<noteq> DS_delivered" and "di_state (row_after op r) = DS_delivered"
  shows "\<exists>t n. op = D_owned O_delivered (di_intent_id r) t n \<and> di_state r = DS_terminal_grace
    \<and> live_token t n r"
proof -
  from assms obtain oop k t n where op: "op = D_owned oop k t n" and g: "owned_guard oop k t n r"
      and s: "owned_state oop (di_state r) = DS_delivered"
    by (auto simp: row_after_state split: delivery_op.splits if_splits)
  have "oop = O_delivered"
    using s assms(1) by (cases oop) (auto split: if_splits)
  then show ?thesis
    using g op by (auto dest: held_live)
qed

lemma flip_grace:
  assumes "di_state r \<noteq> DS_terminal_grace" and "di_state (row_after op r) = DS_terminal_grace"
  shows "\<exists>t n. op = D_owned O_terminal_done (di_intent_id r) t n \<and> di_state r = DS_delivering
    \<and> live_token t n r"
proof -
  from assms obtain oop k t n where op: "op = D_owned oop k t n" and g: "owned_guard oop k t n r"
      and s: "owned_state oop (di_state r) = DS_terminal_grace"
    by (auto simp: row_after_state split: delivery_op.splits if_splits)
  have "oop = O_terminal_done"
    using s assms(1) by (cases oop) (auto split: if_splits)
  then show ?thesis
    using g op assms(1) by (auto dest: held_live)
qed

lemma flip_delivering:
  assumes "di_state r \<noteq> DS_delivering" and "di_state (row_after op r) = DS_delivering"
  shows "\<exists>kind review t n. op = D_owned (O_delivering kind review) (di_intent_id r) t n \<and> live_token t n r"
proof -
  from assms obtain oop k t n where op: "op = D_owned oop k t n" and g: "owned_guard oop k t n r"
      and s: "owned_state oop (di_state r) = DS_delivering"
    by (auto simp: row_after_state split: delivery_op.splits if_splits)
  have "\<exists>kind review. oop = O_delivering kind review"
    using s assms(1) by (cases oop) (auto split: if_splits)
  then show ?thesis
    using g op by (auto dest: held_live)
qed

lemma fold_id: "di_intent_id (fold row_after ops r) = di_intent_id r"
  using fold_row_after [of r ops] by (simp add: same_watch_def)

text \<open>Another party's operation: it neither presents the token nor acts under the owner's name before the lease ends.\<close>

fun foreign :: "pystr \<Rightarrow> pystr \<Rightarrow> rat \<Rightarrow> delivery_op \<Rightarrow> bool" where
  "foreign owner token until (D_ensure platform sk chat task run now) = True"
| "foreign owner token until (D_claim k other hex secs now) = (other \<noteq> owner \<and> now < until)"
| "foreign owner token until (D_claim_due k other hex secs now) = (other \<noteq> owner \<and> now < until)"
| "foreign owner token until (D_owned op k t now) = (t \<noteq> token)"
| "foreign owner token until (D_release_owner other now) = (other \<noteq> owner)"

definition leased :: "pystr \<Rightarrow> pystr \<Rightarrow> rat \<Rightarrow> delivery_intent \<Rightarrow> bool" where
  "leased owner token until r \<longleftrightarrow>
     di_lease_owner r = Some owner \<and> di_lease_token r = Some token \<and> di_lease_until r = Some until"

lemma owned_guard_token: "owned_guard op k t now r \<Longrightarrow> di_lease_token r = Some t"
  by (cases op) (auto simp: lease_held_def)

lemma leased_step:
  assumes "leased owner token until r" and "foreign owner token until op"
  shows "leased owner token until (row_after op r)"
proof (cases op)
  case (D_owned oop k t now)
  then show ?thesis
    using assms owned_guard_token [of oop k t now r] by (auto simp: leased_def)
qed (use assms in \<open>auto simp: leased_def claimable_def claimable_error_def lease_free_def\<close>)

lemma leased_fold:
  "leased owner token until r \<Longrightarrow> \<forall>op \<in> set ops. foreign owner token until op \<Longrightarrow>
    leased owner token until (fold row_after ops r)"
  by (induction ops arbitrary: r) (simp_all add: leased_step)

text \<open>Steps.\<close>

definition steps_unique :: "delivery_store \<Rightarrow> bool" where
  "steps_unique st \<longleftrightarrow> distinct (map (\<lambda>r. (dt_intent_id r, dt_step_key r)) (ds_steps st))"

lemma fenced_steps [simp]: "ds_steps (fst (fenced_update P f st)) = ds_steps st"
  by (simp add: fenced_update_def)

lemma ensure_steps [simp]: "ds_steps (fst (ensure_watch pl sk chat task run now st)) = ds_steps st"
  by (simp add: ensure_watch_def Let_def split: option.splits)

lemma claim_steps [simp]:
  "ds_steps (fst (claim_with k owner token secs now st)) = ds_steps st"
  "ds_steps (fst (claim_due_error k owner hex secs now st)) = ds_steps st"
  by (simp_all add: claim_with_def claim_due_error_def Let_def split: option.splits)

lemma step_steps:
  "ds_steps (fst (delivery_step op st)) = ds_steps st
   \<or> (\<exists>k key now. \<not> step_delivered k key st
        \<and> ds_steps (fst (delivery_step op st)) =
            ds_steps st @ [\<lparr>dt_intent_id = k, dt_step_key = key, dt_delivered_at = now\<rparr>])"
proof (cases op)
  case (D_owned oop k t now)
  show ?thesis
  proof (cases oop)
    case (O_step key)
    show ?thesis
      unfolding D_owned O_step by (auto simp: mark_step_delivered_def)
  next
    case (O_error err redrive)
    then show ?thesis
      by (auto simp: D_owned mark_error_def case_prod_beta Let_def)
  qed (simp_all add: D_owned owned_defs)
qed (simp_all add: case_prod_beta Let_def claim_ok_def delivery_claim_def release_owner_def)

lemma steps_unique_step: "steps_unique st \<Longrightarrow> steps_unique (fst (delivery_step op st))"
  using step_steps [of op st] by (auto simp: steps_unique_def step_delivered_def list_ex_iff)

lemma steps_kept_step: "set (ds_steps st) \<subseteq> set (ds_steps (fst (delivery_step op st)))"
  using step_steps [of op st] by auto

lemma steps_run:
  "steps_unique st \<Longrightarrow> steps_unique (delivery_run ops st)
    \<and> set (ds_steps st) \<subseteq> set (ds_steps (delivery_run ops st))"
proof (induction ops arbitrary: st)
  case Nil
  then show ?case by simp
next
  case (Cons op ops)
  show ?case
    using Cons.IH [OF steps_unique_step [OF Cons.prems, of op]] steps_kept_step [of st op] by auto
qed

text \<open>The schedule.\<close>

lemma schedule_ranked_due:
  "map snd (filter (\<lambda>(rank, is_due, r). is_due \<and> int rank \<le> limit \<or> \<not> is_due \<and> rank = 1)
     (schedule_ranked True part)) = map (Pair True) (take (nat limit) (sort_key schedule_key part))"
proof -
  have aux: "map snd (filter (\<lambda>(rank, is_due, r). is_due \<and> int rank \<le> limit \<or> \<not> is_due \<and> rank = 1)
      (zip [m..<m + length xs] (map (Pair True) xs))) = map (Pair True) (take (nat (limit + 1 - int m)) xs)" for m xs
  proof (induction xs arbitrary: m)
    case Nil
    then show ?case by simp
  next
    case (Cons x xs)
    have "[m..<m + length (x # xs)] = m # [Suc m..<Suc m + length xs]"
      using upt_conv_Cons [of m "m + length (x # xs)"] by (simp del: upt_Suc)
    moreover have "nat (limit + 1 - int m) = (if int m \<le> limit then Suc (nat (limit + 1 - int (Suc m))) else 0)"
      by auto
    ultimately show ?case
      using Cons.IH [of "Suc m"] by auto
  qed
  show ?thesis
    using aux [of 1 "sort_key schedule_key part"] by (simp add: schedule_ranked_def Let_def del: upt_Suc)
qed

lemma schedule_ranked_future:
  "map snd (filter (\<lambda>(rank, is_due, r). is_due \<and> int rank \<le> limit \<or> \<not> is_due \<and> rank = 1)
     (schedule_ranked False part)) = map (Pair False) (take 1 (sort_key schedule_key part))"
proof (cases "sort_key schedule_key part")
  case Nil
  then show ?thesis by (simp add: schedule_ranked_def Let_def)
next
  case (Cons x xs)
  have "filter (\<lambda>(rank, is_due, r). is_due \<and> int rank \<le> limit \<or> \<not> is_due \<and> rank = 1)
      (zip [Suc (Suc 0)..<Suc (Suc (length xs))] (map (Pair False) xs)) = []"
    by (auto simp: filter_empty_conv simp del: upt_Suc dest: set_zip_leftD set_zip_rightD)
  then show ?thesis
    using Cons by (simp add: schedule_ranked_def Let_def upt_conv_Cons del: upt_Suc)
qed

lemma sorted_take_key: "sorted (map f xs) \<Longrightarrow> sorted (map f (take n xs))"
  by (simp add: take_map [symmetric] sorted_wrt_take)

lemma schedule_order:
  assumes "sorted (map schedule_key due)" and "length fut \<le> 1"
  shows "sort_key (\<lambda>(is_due, r). (\<not> is_due, schedule_key r)) (map (Pair True) due @ map (Pair False) fut)
    = map (Pair True) due @ map (Pair False) fut"
proof (rule sort_key_id_if_sorted)
  have "sorted (map (\<lambda>r. (False, schedule_key r)) due)"
    using assms(1) by (simp add: sorted_map less_eq_prod_def)
  moreover have "sorted (map (\<lambda>r. (True, schedule_key r)) fut)"
    using assms(2) by (cases fut) auto
  ultimately show "sorted (map (\<lambda>(is_due, r). (\<not> is_due, schedule_key r)) (map (Pair True) due @ map (Pair False) fut))"
    by (auto simp: sorted_append comp_def less_eq_prod_def)
qed

lemma schedule_loop_parts:
  "schedule_loop (map (Pair True) due @ map (Pair False) fut) acc None =
    (acc @ due, case fut of [] \<Rightarrow> None | r # rs \<Rightarrow> snd (schedule_loop (map (Pair False) (r # rs)) [] None))"
proof (induction due arbitrary: acc)
  case Nil
  have "fst (schedule_loop (map (Pair False) xs) a e) = a" for xs a e
    by (induction xs arbitrary: e) auto
  moreover have "snd (schedule_loop (map (Pair False) xs) a e) = snd (schedule_loop (map (Pair False) xs) b e)"
    for xs a b e
    by (induction xs arbitrary: e) auto
  ultimately have "schedule_loop (map (Pair False) fut) acc None =
      (acc, snd (schedule_loop (map (Pair False) fut) [] None))"
    by (metis prod.collapse)
  then show ?case
    by (cases fut) auto
next
  case (Cons r due)
  then show ?case by simp
qed

lemma foldl_min: "foldl min (t::rat) ts = Min (set (t # ts))"
proof -
  have "(\<lambda>x s. min s x) = (min :: rat \<Rightarrow> rat \<Rightarrow> rat)"
    by (simp add: fun_eq_iff min.commute)
  then show ?thesis
    by (simp add: Min.set_eq_fold foldl_conv_fold del: list.set)
qed

lemma sort_key_hd_min:
  assumes "sort_key f xs = y # ys" and "x \<in> set xs"
  shows "f y \<le> f x"
proof -
  have "sorted (map f (y # ys))" using sorted_sort_key [of f xs] assms(1) by simp
  moreover have "x \<in> set (y # ys)" using assms set_sort [of f xs] by simp
  ultimately show ?thesis by auto
qed

subsection \<open>Properties\<close>

text \<open>
  C14. A reply is reported delivered only after its steps: in every run of operations that
  turns a watched task into a delivered one, delivery was started, then the terminal steps
  were recorded, then the delivery was confirmed, in this order, and each with the token the
  intent carried at that moment, before its lease had ended.
\<close>

theorem delivered_in_order:
  assumes "intents_ok st" and "delivery_get k st = Some r" and "di_state r = DS_watching"
    and "delivery_get k (delivery_run ops st) = Some r'" and "di_state r' = DS_delivered"
  shows "\<exists>a b c d kind review t1 t2 t3 n1 n2 n3.
    ops = a @ D_owned (O_delivering kind review) k t1 n1 # b @ D_owned O_terminal_done k t2 n2 # c
            @ D_owned O_delivered k t3 n3 # d
    \<and> intent_leased k t1 n1 (delivery_run a st)
    \<and> intent_leased k t2 n2 (delivery_run (a @ D_owned (O_delivering kind review) k t1 n1 # b) st)
    \<and> intent_leased k t3 n3 (delivery_run (a @ D_owned (O_delivering kind review) k t1 n1 # b
        @ D_owned O_terminal_done k t2 n2 # c) st)"
proof -
  have at: "intent_leased k t n (delivery_run xs st)" if "live_token t n (fold row_after xs r)" for t n xs
    using that delivery_run_row [OF assms(1,2)] by (simp add: intent_leased_def)
  have r': "r' = fold row_after ops r"
    using delivery_run_row [OF assms(1,2)] assms(4) by simp
  have k: "di_intent_id r = k" by (rule get_key [OF assms(2)])
  obtain xs p d where 1: "ops = xs @ p # d" "di_state (fold row_after xs r) \<noteq> DS_delivered"
      "di_state (row_after p (fold row_after xs r)) = DS_delivered"
    using fold_flip [of "\<lambda>r. di_state r = DS_delivered" r ops] assms(3,5) r' by auto
  from flip_delivered [OF 1(2,3)] obtain t3 n3 where p: "p = D_owned O_delivered k t3 n3"
      "di_state (fold row_after xs r) = DS_terminal_grace" "live_token t3 n3 (fold row_after xs r)"
    by (auto simp: fold_id k)
  obtain ys q c where 2: "xs = ys @ q # c" "di_state (fold row_after ys r) \<noteq> DS_terminal_grace"
      "di_state (row_after q (fold row_after ys r)) = DS_terminal_grace"
    using fold_flip [of "\<lambda>r. di_state r = DS_terminal_grace" r xs] assms(3) p by auto
  from flip_grace [OF 2(2,3)] obtain t2 n2 where q: "q = D_owned O_terminal_done k t2 n2"
      "di_state (fold row_after ys r) = DS_delivering" "live_token t2 n2 (fold row_after ys r)"
    by (auto simp: fold_id k)
  obtain a s b where 3: "ys = a @ s # b" "di_state (fold row_after a r) \<noteq> DS_delivering"
      "di_state (row_after s (fold row_after a r)) = DS_delivering"
    using fold_flip [of "\<lambda>r. di_state r = DS_delivering" r ys] assms(3) q by auto
  from flip_delivering [OF 3(2,3)] obtain kind review t1 n1
    where s: "s = D_owned (O_delivering kind review) k t1 n1" "live_token t1 n1 (fold row_after a r)"
    by (auto simp: fold_id k)
  have "ops = a @ s # b @ q # c @ p # d" "ys = a @ s # b" "xs = a @ s # b @ q # c"
    using 1(1) 2(1) 3(1) by simp_all
  then show ?thesis
    using at [OF s(2)] at [OF q(3)] at [OF p(3)] unfolding s(1) p(1) q(1) by blast
qed

text \<open>
  C33. The history of an intent in any run: it is never lost, its watch identity never
  changes, its fence never decreases, and a delivered or superseded intent stays so.
\<close>

theorem delivery_history:
  assumes "intents_ok st" and "delivery_get k st = Some r"
  shows "\<exists>r'. delivery_get k (delivery_run ops st) = Some r' \<and> same_watch r r'
    \<and> di_fence r \<le> di_fence r'
    \<and> (di_state r \<notin> {DS_delivered, DS_superseded} \<or> di_state r' = di_state r)"
  using delivery_run_row [OF assms] fold_row_after [of r ops] by (auto simp: final_delivery_states_def)

text \<open>
  C15. Fencing: a successful claim strictly raises the fence, and from then on no operation
  under another token has any effect on any field of the store, whatever the operation and
  whenever it arrives.
\<close>

theorem delivery_fences_stale_worker:
  assumes "intents_ok st" and "delivery_get k st = Some r"
    and "snd (delivery_claim k owner hex secs now st) = Inr (Some token)" and "t \<noteq> token"
  shows "owned_step op k t now' (fst (delivery_claim k owner hex secs now st))
      = (fst (delivery_claim k owner hex secs now st), False)
    \<and> (\<exists>r'. delivery_get k (fst (delivery_claim k owner hex secs now st)) = Some r'
         \<and> di_fence r' = di_fence r + 1)"
proof -
  let ?st = "fst (delivery_claim k owner hex secs now st)"
  have tok: "token = delivery_token owner hex"
    and g: "delivery_get k ?st = Some (take_lease owner token secs now r)"
    using claim_with_cases [OF assms(1), of secs now owner k "delivery_token owner hex" k] assms(2,3)
    by (auto simp: delivery_claim_def split: if_splits)
  have ok: "intents_ok ?st"
    using intents_ok_claim_with [OF assms(1)] by (simp add: delivery_claim_def)
  have "\<not> owned_guard op k t now' (take_lease owner token secs now r)"
    using owned_guard_token [of op k t now' "take_lease owner token secs now r"] assms(4)
    by auto
  then have "\<not> snd (owned_step op k t now' ?st)"
    using owned_step_answer [OF ok, of op k t now'] g by simp
  then have "owned_step op k t now' ?st = (?st, False)"
    using owned_step_id [OF ok] by (metis prod.collapse)
  then show ?thesis
    using g by (simp add: take_lease_def)
qed

text \<open>
  C16. A live lease is exclusive: after a successful claim, whatever the other owners do
  until it ends (claims of any kind, operations under other tokens, releases of their own
  leases), the lease is still held and its owner's token still works.
\<close>

theorem delivery_lease_exclusive:
  assumes "intents_ok st" and "snd (delivery_claim k owner hex secs now st) = Inr (Some token)"
    and "\<forall>op \<in> set ops. foreign owner token (now + secs) op"
    and "now' < now + secs"
  shows "\<exists>r. delivery_get k (delivery_run ops (fst (delivery_claim k owner hex secs now st))) = Some r
    \<and> di_lease_owner r = Some owner \<and> di_lease_until r = Some (now + secs)
    \<and> snd (delivery_renew k token extra now'
             (delivery_run ops (fst (delivery_claim k owner hex secs now st))))"
proof -
  let ?st = "fst (delivery_claim k owner hex secs now st)"
  obtain r0 where g: "delivery_get k ?st = Some (take_lease owner token secs now r0)"
    using claim_with_cases [OF assms(1), of secs now owner k "delivery_token owner hex" k] assms(2)
    by (auto simp: delivery_claim_def split: if_splits option.splits)
  have ok: "intents_ok ?st"
    using intents_ok_claim_with [OF assms(1)] by (simp add: delivery_claim_def)
  let ?r = "fold row_after ops (take_lease owner token secs now r0)"
  have run: "delivery_get k (delivery_run ops ?st) = Some ?r"
    by (rule delivery_run_row [OF ok g])
  have l: "leased owner token (now + secs) ?r"
    using assms(3) by (intro leased_fold) (simp_all add: leased_def take_lease_def)
  have "owned_guard (O_renew extra) k token now' ?r"
    using l get_key [OF run] assms(4) by (simp add: lease_held_def leased_def)
  then have "snd (owned_step (O_renew extra) k token now' (delivery_run ops ?st))"
    using owned_step_answer [OF delivery_run_ok [OF ok, of ops], of "O_renew extra" k token now'] run by simp
  then show ?thesis
    using run l by (simp add: leased_def)
qed

text \<open>
  An error is redriven exactly when it was scheduled: after a delivery fails with a
  redrive delay, the reconciler's claim succeeds from the end of the delay on and not before;
  without a delay it never succeeds, and only a new watch can claim the intent.
\<close>

theorem error_redrive_schedule:
  assumes "intents_ok st" and "snd (mark_error k token err redrive now st) = Inr True"
    and "0 < secs"
  shows "snd (claim_ok (claim_due_error k owner hex secs t (fst (mark_error k token err redrive now st))))
      = (case redrive of None \<Rightarrow> False | Some d \<Rightarrow> now + d \<le> t)
    \<and> snd (claim_ok (delivery_claim k owner hex secs t (fst (mark_error k token err redrive now st))))"
proof -
  let ?op = "O_error err redrive"
  let ?st = "fst (mark_error k token err redrive now st)"
  have st: "?st = fst (owned_step ?op k token now st)"
    by (simp add: case_prod_beta Let_def)
  have "snd (owned_step ?op k token now st)"
    using assms(2) by (simp add: case_prod_beta Let_def)
  then obtain r where r: "delivery_get k st = Some r" "owned_guard ?op k token now r"
    using owned_step_answer [OF assms(1), of ?op k token now] by (auto split: option.splits)
  have g: "delivery_get k ?st = Some (owned_effect ?op now r)"
    unfolding st using owned_step_at [OF assms(1) r(1), of ?op k token now] r(2) by simp
  have ok: "intents_ok ?st"
    unfolding st by (rule owned_step_ok [OF assms(1)])
  show ?thesis
    using g assms(3)
    by (auto simp: claim_due_ok_iff [OF ok] delivery_claim_def claim_with_ok_iff [OF ok]
        claimable_error_def claimable_def due_at_def lease_free_def drop_lease_def
        final_delivery_states_def split: option.splits)
qed

text \<open>
  C32. The single-query schedule agrees with the two queries it replaces: its due list is
  \<open>list_due_errors\<close> and its wake-up time is \<open>next_due_error_at\<close>, read at one instant.
\<close>

theorem schedule_snapshot_agrees:
  assumes "0 < limit"
  shows "schedule_snapshot platform limit now st =
    (case list_due_errors platform limit now st of
       Inl e \<Rightarrow> Inl e
     | Inr due \<Rightarrow> Inr \<lparr>sc_due_errors = due,
                       sc_earliest_due_at = next_due_error_at platform now st,
                       sc_observed_at = now\<rparr>)"
proof -
  let ?c = "schedule_candidates platform now st"
  let ?due = "filter (due_at now) ?c"
  let ?fut = "filter (\<lambda>r. \<not> due_at now r) ?c"
  let ?D = "take (nat limit) (sort_key schedule_key ?due)"
  let ?F = "take 1 (sort_key schedule_key ?fut)"
  have due: "?due = filter (\<lambda>r. di_platform r = platform \<and> di_state r = DS_error \<and> due_at now r
                   \<and> lease_free now r) (ds_intents st)"
    unfolding schedule_candidates_def filter_filter
    by (rule filter_cong) (auto simp: due_at_def split: option.splits)
  have fut: "?fut = filter (\<lambda>r. di_platform r = platform \<and> di_state r = DS_error
               \<and> (case di_next_attempt_at r of None \<Rightarrow> False | Some t \<Rightarrow> now < t)
               \<and> lease_free now r) (ds_intents st)"
    unfolding schedule_candidates_def filter_filter
    by (rule filter_cong) (auto simp: due_at_def split: option.splits)
  have order: "sort_key (\<lambda>(is_due, r). (\<not> is_due, schedule_key r)) (map (Pair True) ?D @ map (Pair False) ?F)
      = map (Pair True) ?D @ map (Pair False) ?F"
    by (rule schedule_order) (auto intro: sorted_take_key)
  have all: "di_next_attempt_at r \<noteq> None" if "r \<in> set ?fut" for r
    using that by (auto simp: schedule_candidates_def)
  have earliest: "(case ?F of [] \<Rightarrow> None | r # rs \<Rightarrow>
       snd (schedule_loop (map (Pair False) (r # rs)) [] None)) = next_due_error_at platform now st"
  proof (cases "sort_key schedule_key ?fut")
    case Nil
    then have "?fut = []" by (metis length_0_conv length_sort)
    then show ?thesis
      using Nil by (simp add: next_due_error_at_def fut [symmetric])
  next
    case (Cons y ys)
    then have y: "y \<in> set ?fut" by (metis list.set_intros(1) set_sort)
    obtain t where t: "di_next_attempt_at y = Some t" using all [OF y] by blast
    let ?times = "concat (map (\<lambda>r. case di_next_attempt_at r of None \<Rightarrow> [] | Some t \<Rightarrow> [t]) ?fut)"
    have mem: "t \<in> set ?times" using y t by force
    have least: "t \<le> u" if "u \<in> set ?times" for u
    proof -
      from that obtain x where x: "x \<in> set ?fut" "di_next_attempt_at x = Some u"
        by (auto split: option.splits)
      have "schedule_key y \<le> schedule_key x"
        by (rule sort_key_hd_min [OF Cons x(1)])
      then show ?thesis using t x(2) by (auto simp: schedule_key_def less_eq_prod_def)
    qed
    obtain t0 ts where ts: "?times = t0 # ts"
      using mem by (cases ?times) auto
    have "Min (set ?times) = t"
      by (rule Min_eqI [OF finite_set least mem])
    then have "foldl min t0 ts = t"
      by (simp only: foldl_min ts [symmetric])
    then show ?thesis
      using Cons t ts by (simp add: next_due_error_at_def fut [symmetric])
  qed
  show ?thesis
    unfolding schedule_snapshot_def Let_def map_append filter_append schedule_ranked_due
      schedule_ranked_future order schedule_loop_parts earliest list_due_errors_def due [symmetric]
    using assms by simp
qed

text \<open>
  A delivered message step is never sent twice: once recorded it is found delivered
  after every later run, and no step is recorded twice.
\<close>

theorem delivery_steps_durable:
  assumes "steps_unique st" and "snd (mark_step_delivered k token key now st)"
  shows "step_delivered k key (delivery_run ops (fst (mark_step_delivered k token key now st)))
    \<and> steps_unique (delivery_run ops (fst (mark_step_delivered k token key now st)))"
proof -
  let ?st = "fst (mark_step_delivered k token key now st)"
  have "?st = fst (delivery_step (D_owned (O_step key) k token now) st)" by simp
  then have u: "steps_unique ?st"
    using steps_unique_step [OF assms(1)] by metis
  have "step_delivered k key ?st"
    using assms(2) by (auto simp: mark_step_delivered_def step_delivered_def split: if_splits)
  then show ?thesis
    using steps_run [OF u, of ops] by (auto simp: step_delivered_def list_ex_iff)
qed

text \<open>The identity of a watch: names without the separator never share an intent.\<close>

lemma delivery_intent_id_inject:
  assumes "31 \<notin> set p" "31 \<notin> set p'" "31 \<notin> set s" "31 \<notin> set s'" "31 \<notin> set t" "31 \<notin> set t'"
  shows "delivery_intent_id p s t n = delivery_intent_id p' s' t' n' \<longleftrightarrow> (p, s, t, n) = (p', s', t', n')"
proof -
  have split: "31 \<notin> set a \<Longrightarrow> 31 \<notin> set b \<Longrightarrow> a @ 31 # x = b @ 31 # y \<longleftrightarrow> a = b \<and> x = y"
    for a b x y :: pystr
  proof (induction a arbitrary: b)
    case Nil
    then show ?case by (cases b) auto
  next
    case (Cons c a)
    then show ?case by (cases b) auto
  qed
  show ?thesis
    using assms by (simp add: delivery_intent_id_def split)
qed

subsection \<open>Witnesses\<close>

definition demo_watch :: delivery_store where
  "demo_watch = fst (ensure_watch (str ''tg'') (str ''s'') (str ''c'') (str ''t1'') 1 10
     \<lparr>ds_intents = [], ds_steps = []\<rparr>)"

definition demo_id :: pystr where
  "demo_id = delivery_intent_id (str ''tg'') (str ''s'') (str ''t1'') 1"

definition demo_token :: pystr where
  "demo_token = delivery_token (str ''w'') (str ''1'')"

definition demo_leased :: delivery_store where
  "demo_leased = fst (delivery_claim demo_id (str ''w'') (str ''1'') 30 20 demo_watch)"

definition demo_ops :: "delivery_op list" where
  "demo_ops =
     [D_claim demo_id (str ''w'') (str ''1'') 30 20,
      D_owned (O_delivering DK_terminal None) demo_id demo_token 21,
      D_owned O_terminal_done demo_id demo_token 22,
      D_owned O_delivered demo_id demo_token 23]"

lemma demo_facts:
  "delivery_get demo_id demo_watch =
     Some (new_intent (str ''tg'') (str ''s'') (str ''c'') (str ''t1'') 1 10)"
  "snd (delivery_claim demo_id (str ''w'') (str ''1'') 30 20 demo_watch) = Inr (Some demo_token)"
  "map_option di_state (delivery_get demo_id (delivery_run demo_ops demo_watch)) = Some DS_delivered"
  "snd (mark_error demo_id demo_token (str ''down'') (Some 60) 21 demo_leased) = Inr True"
  "snd (mark_step_delivered demo_id demo_token (str ''text:0'') 21 demo_leased) = True"
  by code_simp+

lemma demo_watch_ok: "intents_ok demo_watch"
  unfolding demo_watch_def by (rule intents_ok_ensure) (simp add: intents_ok_def unique_key_def)

lemma demo_leased_ok: "intents_ok demo_leased"
  unfolding demo_leased_def delivery_claim_def by (rule intents_ok_claim_with [OF demo_watch_ok])

lemma delivered_in_order_witness:
  "\<exists>a b c d kind review t1 t2 t3 n1 n2 n3.
    demo_ops = a @ D_owned (O_delivering kind review) demo_id t1 n1 # b
      @ D_owned O_terminal_done demo_id t2 n2 # c @ D_owned O_delivered demo_id t3 n3 # d
    \<and> intent_leased demo_id t1 n1 (delivery_run a demo_watch)"
proof -
  obtain r' where r': "delivery_get demo_id (delivery_run demo_ops demo_watch) = Some r'"
      "di_state r' = DS_delivered"
    using demo_facts(3) by auto
  show ?thesis
    using delivered_in_order [OF demo_watch_ok demo_facts(1) _ r'] by (simp add: new_intent_def) blast
qed

lemma delivery_history_witness:
  "\<exists>r'. delivery_get demo_id (delivery_run demo_ops demo_watch) = Some r' \<and> 0 \<le> di_fence r'"
  using delivery_history [OF demo_watch_ok demo_facts(1), of demo_ops] by (auto simp: new_intent_def)

lemma delivery_fences_stale_worker_witness:
  "owned_step O_delivered demo_id (str ''old'') 25 demo_leased = (demo_leased, False)"
  using delivery_fences_stale_worker [OF demo_watch_ok demo_facts(1,2), of "str ''old''" O_delivered 25]
  by (simp add: demo_leased_def demo_token_def delivery_token_def str_def)

lemma delivery_lease_exclusive_witness:
  "\<exists>r. delivery_get demo_id (delivery_run [D_claim demo_id (str ''other'') (str ''2'') 30 40]
          (fst (delivery_claim demo_id (str ''w'') (str ''1'') 30 20 demo_watch))) = Some r
    \<and> di_lease_owner r = Some (str ''w'')"
  using delivery_lease_exclusive [OF demo_watch_ok demo_facts(2),
      of "[D_claim demo_id (str ''other'') (str ''2'') 30 40]" 45 10]
  by auto

lemma error_redrive_schedule_witness:
  "snd (claim_ok (claim_due_error demo_id (str ''r'') (str ''3'') 30 81
     (fst (mark_error demo_id demo_token (str ''down'') (Some 60) 21 demo_leased))))"
  using error_redrive_schedule [OF demo_leased_ok demo_facts(4), where t = 81 and secs = 30
      and owner = "str ''r''" and hex = "str ''3''"]
  by simp

lemma schedule_snapshot_agrees_witness:
  "schedule_snapshot (str ''tg'') 5 90
     (fst (mark_error demo_id demo_token (str ''down'') (Some 60) 21 demo_leased))
   = Inr \<lparr>sc_due_errors = filter (\<lambda>r. True) (ds_intents
        (fst (mark_error demo_id demo_token (str ''down'') (Some 60) 21 demo_leased))),
      sc_earliest_due_at = None, sc_observed_at = 90\<rparr>"
  using schedule_snapshot_agrees [of 5 "str ''tg''" 90
      "fst (mark_error demo_id demo_token (str ''down'') (Some 60) 21 demo_leased)"]
  by simp code_simp

lemma delivery_steps_durable_witness:
  "step_delivered demo_id (str ''text:0'') (delivery_run [D_release_owner (str ''w'') 30]
     (fst (mark_step_delivered demo_id demo_token (str ''text:0'') 21 demo_leased)))"
proof -
  have "steps_unique demo_leased" by code_simp
  from delivery_steps_durable [OF this, of demo_id demo_token "str ''text:0''" 21] demo_facts(5)
  show ?thesis by blast
qed

end
