(* ===== verification/Json_Parse.thy ===== *)
theory Json_Parse
  imports Json_Text
begin

text \<open>
  \<open>json.loads\<close> as the program uses it (strict mode, no hooks): the scanner of the standard
  library on code points.  The recursion of the scanner is bounded by fuel;
  \<open>parse_value_fuel\<close> shows that the fuel \<open>json_loads\<close> gives is enough for every text.
  Not modelled are the interpreter's own limits (recursion depth, digits of an int), and a
  float keeps its lexeme.
\<close>

definition json_space :: "nat \<Rightarrow> bool" where
  "json_space c \<longleftrightarrow> c = 32 \<or> c = 9 \<or> c = 10 \<or> c = 13"

definition skip_space :: "pystr \<Rightarrow> pystr" where
  "skip_space s = dropWhile json_space s"

definition is_digit :: "nat \<Rightarrow> bool" where
  "is_digit c \<longleftrightarrow> 48 \<le> c \<and> c \<le> 57"

definition hex_value :: "nat \<Rightarrow> nat option" where
  "hex_value c =
     (if 48 \<le> c \<and> c \<le> 57 then Some (c - 48)
      else if 97 \<le> c \<and> c \<le> 102 then Some (c - 87)
      else if 65 \<le> c \<and> c \<le> 70 then Some (c - 55)
      else None)"

text \<open>The four digits after a \<open>u\<close> escape, and the rest.\<close>

fun hex4 :: "pystr \<Rightarrow> (nat \<times> pystr) option" where
  "hex4 (a # b # c # d # rest) =
     (case (hex_value a, hex_value b, hex_value c, hex_value d) of
        (Some w, Some x, Some y, Some z) \<Rightarrow> Some (((w * 16 + x) * 16 + y) * 16 + z, rest)
      | _ \<Rightarrow> None)"
| "hex4 _ = None"

lemma hex4_length: "hex4 s = Some (u, r) \<Longrightarrow> length r < length s"
  by (cases s rule: hex4.cases) (auto split: option.splits)

definition plain_escape :: "nat \<Rightarrow> nat option" where
  "plain_escape c =
     (if c = 34 then Some 34 else if c = 92 then Some 92 else if c = 47 then Some 47
      else if c = 98 then Some 8 else if c = 102 then Some 12 else if c = 110 then Some 10
      else if c = 114 then Some 13 else if c = 116 then Some 9 else None)"

definition high_surrogate :: "nat \<Rightarrow> bool" where
  "high_surrogate u \<longleftrightarrow> 55296 \<le> u \<and> u \<le> 56319"

definition low_surrogate :: "nat \<Rightarrow> bool" where
  "low_surrogate u \<longleftrightarrow> 56320 \<le> u \<and> u \<le> 57343"

text \<open>A \<open>\\u\<close> escape after its \<open>u\<close>: the code point, joining a surrogate pair, and the rest.\<close>

definition scan_u :: "pystr \<Rightarrow> (nat \<times> pystr) option" where
  "scan_u s =
     (case hex4 s of
        None \<Rightarrow> None
      | Some (u, rest) \<Rightarrow>
          if high_surrogate u then
            (case rest of
               a # b # more \<Rightarrow>
                 if a = 92 \<and> b = 117 then
                   (case hex4 more of
                      None \<Rightarrow> None
                    | Some (v, rest') \<Rightarrow>
                        if low_surrogate v
                        then Some (65536 + (u - 55296) * 1024 + (v - 56320), rest')
                        else Some (u, rest))
                 else Some (u, rest)
             | _ \<Rightarrow> Some (u, rest))
          else Some (u, rest))"

lemma scan_u_length: "scan_u s = Some (u, r) \<Longrightarrow> length r < length s"
  by (auto simp: scan_u_def dest!: hex4_length split: option.splits if_splits list.splits nat.splits)

text \<open>\<open>scanstring\<close>, after the opening quote.\<close>

function scan_string :: "pystr \<Rightarrow> (pystr \<times> pystr) option" where
  "scan_string s =
     (case s of
        [] \<Rightarrow> None
      | c # rest \<Rightarrow>
          if c = 34 then Some ([], rest)
          else if c = 92 then
            (case rest of
               [] \<Rightarrow> None
             | e # rest' \<Rightarrow>
                 if e = 117 then
                   (case scan_u rest' of
                      None \<Rightarrow> None
                    | Some (u, more) \<Rightarrow>
                        (case scan_string more of
                           None \<Rightarrow> None
                         | Some (t, r) \<Rightarrow> Some (u # t, r)))
                 else
                   (case plain_escape e of
                      None \<Rightarrow> None
                    | Some x \<Rightarrow>
                        (case scan_string rest' of
                           None \<Rightarrow> None
                         | Some (t, r) \<Rightarrow> Some (x # t, r))))
          else if c < 32 then None
          else (case scan_string rest of
                  None \<Rightarrow> None
                | Some (t, r) \<Rightarrow> Some (c # t, r)))"
  by pat_completeness auto

termination
  by (relation "measure length") (auto dest!: scan_u_length)

declare scan_string.simps [simp del]

lemma scan_string_cases:
  assumes "scan_string s = Some (t, r)"
  obtains "s = 34 # r"
  | x t' where "scan_string x = Some (t', r)" "length x < length s"
proof (cases s)
  case Nil
  then show ?thesis using assms by (simp add: scan_string.simps)
next
  case (Cons c rest)
  show ?thesis
  proof (cases "c = 34 \<or> c \<noteq> 92")
    case True
    then show ?thesis
      using assms Cons that by (subst (asm) scan_string.simps) (auto split: if_splits option.splits)
  next
    case False
    then obtain e rest' where rest: "rest = e # rest'"
      using assms Cons by (subst (asm) scan_string.simps) (auto split: list.splits)
    show ?thesis
    proof (cases "e = 117")
      case True
      then obtain u more where u: "scan_u rest' = Some (u, more)"
        using assms Cons rest False by (subst (asm) scan_string.simps) (auto split: option.splits)
      then show ?thesis
        using assms Cons rest False True that(2) scan_u_length [OF u]
        by (subst (asm) scan_string.simps) (auto split: option.splits)
    next
      case other: False
      then show ?thesis
        using assms Cons rest False that(2)
        by (subst (asm) scan_string.simps) (auto split: option.splits)
    qed
  qed
qed

lemma scan_string_length: "scan_string s = Some (t, r) \<Longrightarrow> length r < length s"
proof (induction "length s" arbitrary: s t rule: less_induct)
  case less
  from less.prems show ?case
  proof (cases rule: scan_string_cases)
    case 1
    then show ?thesis by simp
  next
    case (2 x t')
    then show ?thesis using less.hyps [of x t'] by simp
  qed
qed

text \<open>A number: the lexeme, whether it has a fraction or an exponent, and the rest.\<close>

definition scan_frac :: "pystr \<Rightarrow> pystr \<times> pystr" where
  "scan_frac s =
     (case s of
        p # d # ds \<Rightarrow>
          if p = 46 \<and> is_digit d then (46 # takeWhile is_digit (d # ds), dropWhile is_digit (d # ds)) else ([], s)
      | _ \<Rightarrow> ([], s))"

definition scan_exp :: "pystr \<Rightarrow> pystr \<times> pystr" where
  "scan_exp s =
     (case s of
        e # ds \<Rightarrow>
          if e = 101 \<or> e = 69 then
            (let (sign, digits) = (case ds of
                   c # cs \<Rightarrow> if c = 43 \<or> c = 45 then ([c], cs) else ([], ds)
                 | [] \<Rightarrow> ([], ds))
             in if takeWhile is_digit digits = [] then ([], s)
                else (e # sign @ takeWhile is_digit digits, dropWhile is_digit digits))
          else ([], s)
      | [] \<Rightarrow> ([], s))"

definition scan_int :: "pystr \<Rightarrow> (pystr \<times> pystr) option" where
  "scan_int s =
     (case s of
        [] \<Rightarrow> None
      | c # cs \<Rightarrow>
          if c = 48 then Some ([48], cs)
          else if is_digit c then Some (takeWhile is_digit s, dropWhile is_digit s)
          else None)"

definition scan_sign :: "pystr \<Rightarrow> pystr \<times> pystr" where
  "scan_sign s = (case s of c # cs \<Rightarrow> if c = 45 then ([45], cs) else ([], s) | [] \<Rightarrow> ([], s))"

definition scan_number :: "pystr \<Rightarrow> (json \<times> pystr) option" where
  "scan_number s =
     (let (sign, s1) = scan_sign s
      in case scan_int s1 of
           None \<Rightarrow> None
         | Some (digits, s2) \<Rightarrow>
             (let (frac, s3) = scan_frac s2; (exponent, s4) = scan_exp s3
              in if frac = [] \<and> exponent = []
                 then Some (J_int (if sign = [] then int (undec digits) else - int (undec digits)), s4)
                 else Some (J_float (sign @ digits @ frac @ exponent), s4)))"

definition literals :: "(pystr \<times> json) list" where
  "literals =
     [(str ''null'', J_null), (str ''true'', J_bool True), (str ''false'', J_bool False),
      (str ''NaN'', J_float (str ''NaN'')), (str ''Infinity'', J_float (str ''Infinity'')),
      (str ''-Infinity'', J_float (str ''-Infinity''))]"

definition scan_literal :: "pystr \<Rightarrow> (json \<times> pystr) option" where
  "scan_literal s =
     (case find (\<lambda>(w, v). take (length w) s = w) literals of
        Some (w, v) \<Rightarrow> Some (v, drop (length w) s)
      | None \<Rightarrow> scan_number s)"

text \<open>The items of a parsed object become a dict: a repeated key keeps its first place and takes the last value.\<close>

definition dict_put :: "pystr \<Rightarrow> 'v \<Rightarrow> (pystr \<times> 'v) list \<Rightarrow> (pystr \<times> 'v) list" where
  "dict_put k v d =
     (if k \<in> fst ` set d then map (\<lambda>(k', v'). if k' = k then (k', v) else (k', v')) d
      else d @ [(k, v)])"

definition dict_of_items :: "(pystr \<times> 'v) list \<Rightarrow> (pystr \<times> 'v) list" where
  "dict_of_items items = foldl (\<lambda>d (k, v). dict_put k v d) [] items"

text \<open>
  \<open>parse_value\<close> at the start of a value, \<open>parse_items\<close> at the start of a list item,
  \<open>parse_members\<close> at the opening quote of a key.
\<close>

fun parse_value :: "nat \<Rightarrow> pystr \<Rightarrow> (json \<times> pystr) option"
and parse_items :: "nat \<Rightarrow> pystr \<Rightarrow> (json list \<times> pystr) option"
and parse_members :: "nat \<Rightarrow> pystr \<Rightarrow> ((pystr \<times> json) list \<times> pystr) option" where
  "parse_value 0 s = None"
| "parse_value (Suc n) s =
     (case s of
        [] \<Rightarrow> None
      | c # rest \<Rightarrow>
          if c = 34 then (case scan_string rest of None \<Rightarrow> None | Some (t, r) \<Rightarrow> Some (J_str t, r))
          else if c = 91 then
            (case skip_space rest of
               [] \<Rightarrow> None
             | d # ds \<Rightarrow>
                 if d = 93 then Some (J_list [], ds)
                 else (case parse_items n (d # ds) of
                         None \<Rightarrow> None | Some (vs, r) \<Rightarrow> Some (J_list vs, r)))
          else if c = 123 then
            (case skip_space rest of
               [] \<Rightarrow> None
             | d # ds \<Rightarrow>
                 if d = 125 then Some (J_obj [], ds)
                 else (case parse_members n (d # ds) of
                         None \<Rightarrow> None | Some (kvs, r) \<Rightarrow> Some (J_obj (dict_of_items kvs), r)))
          else scan_literal s)"
| "parse_items 0 s = None"
| "parse_items (Suc n) s =
     (case parse_value n s of
        None \<Rightarrow> None
      | Some (v, r) \<Rightarrow>
          (case skip_space r of
             [] \<Rightarrow> None
           | d # ds \<Rightarrow>
               if d = 93 then Some ([v], ds)
               else if d = 44 then
                 (case parse_items n (skip_space ds) of
                    None \<Rightarrow> None | Some (vs, r') \<Rightarrow> Some (v # vs, r'))
               else None))"
| "parse_members 0 s = None"
| "parse_members (Suc n) s =
     (case s of
        [] \<Rightarrow> None
      | c # rest \<Rightarrow>
          if c \<noteq> 34 then None
          else (case scan_string rest of
                  None \<Rightarrow> None
                | Some (k, r) \<Rightarrow>
                    (case skip_space r of
                       [] \<Rightarrow> None
                     | d # ds \<Rightarrow>
                         if d \<noteq> 58 then None
                         else (case parse_value n (skip_space ds) of
                                 None \<Rightarrow> None
                               | Some (v, r') \<Rightarrow>
                                   (case skip_space r' of
                                      [] \<Rightarrow> None
                                    | e # es \<Rightarrow>
                                        if e = 125 then Some ([(k, v)], es)
                                        else if e = 44 then
                                          (case parse_members n (skip_space es) of
                                             None \<Rightarrow> None
                                           | Some (kvs, r'') \<Rightarrow> Some ((k, v) # kvs, r''))
                                        else None)))))"

text \<open>A text that starts with a byte order mark is refused, as is anything after the value.\<close>

definition json_loads :: "pystr \<Rightarrow> json option" where
  "json_loads s =
     (if take 1 s = [65279] then None
      else
        let s' = skip_space s
        in case parse_value (2 * length s' + 1) s' of
             None \<Rightarrow> None
           | Some (v, r) \<Rightarrow> if skip_space r = [] then Some v else None)"

subsection \<open>Every parse consumes its text, so the fuel is enough\<close>

lemma skip_space_length: "length (skip_space s) \<le> length s"
  by (simp add: skip_space_def length_dropWhile_le)

lemma scan_frac_length: "length (snd (scan_frac s)) \<le> length s"
proof (cases s rule: remdups_adj.cases)
  case (3 p d ds)
  have "length (dropWhile is_digit ds) \<le> Suc (Suc (length ds))"
    using length_dropWhile_le [of is_digit ds] by linarith
  then show ?thesis
    using 3 by (simp add: scan_frac_def)
qed (simp_all add: scan_frac_def)

lemma scan_exp_length: "length (snd (scan_exp s)) \<le> length s"
proof (cases s)
  case (Cons e ds)
  have "length (dropWhile is_digit ds) \<le> Suc (length ds)" "length (dropWhile is_digit (tl ds)) \<le> Suc (length ds)"
    using length_dropWhile_le [of is_digit ds] length_dropWhile_le [of is_digit "tl ds"] by simp_all
  then show ?thesis
    using Cons by (cases ds) (auto simp: scan_exp_def)
qed (simp add: scan_exp_def)

lemma scan_int_length: "scan_int s = Some (d, r) \<Longrightarrow> length r < length s"
  by (cases s) (auto simp: scan_int_def length_dropWhile_le le_imp_less_Suc split: if_splits)

lemma scan_number_length: "scan_number s = Some (v, r) \<Longrightarrow> length r < length s"
proof -
  assume a: "scan_number s = Some (v, r)"
  have l1: "length (snd (scan_sign s)) \<le> length s"
    by (cases s) (auto simp: scan_sign_def)
  from a obtain digits s2 where s2: "scan_int (snd (scan_sign s)) = Some (digits, s2)"
    by (auto simp: scan_number_def case_prod_beta Let_def split: option.splits)
  have "length (snd (scan_exp (snd (scan_frac s2)))) \<le> length s2"
    using scan_exp_length [of "snd (scan_frac s2)"] scan_frac_length [of s2] by linarith
  moreover have "r = snd (scan_exp (snd (scan_frac s2)))"
    using a s2 by (auto simp: scan_number_def Let_def case_prod_beta split: if_splits)
  ultimately show ?thesis
    using scan_int_length [OF s2] l1 by simp
qed

lemma scan_literal_length: "scan_literal s = Some (v, r) \<Longrightarrow> length r < length s"
proof -
  assume a: "scan_literal s = Some (v, r)"
  show ?thesis
  proof (cases "find (\<lambda>(w, v). take (length w) s = w) literals")
    case None
    then show ?thesis using a scan_number_length by (simp add: scan_literal_def)
  next
    case (Some wv)
    obtain w x where wv: "wv = (w, x)" by (cases wv)
    have "take (length w) s = w" "(w, x) \<in> set literals"
      using Some wv by (force simp: find_Some_iff in_set_conv_nth)+
    moreover from this have "w \<noteq> []" by (auto simp: literals_def)
    moreover have "r = drop (length w) s"
      using a Some wv by (simp add: scan_literal_def)
    ultimately show ?thesis
      by (cases s; cases w) auto
  qed
qed

lemma skip_space_ConsD: "skip_space r = d # ds \<Longrightarrow> length ds < length r"
  using skip_space_length [of r] by simp

lemma parse_length:
  "parse_value n s = Some (v, r) \<Longrightarrow> length r < length s"
  "parse_items n s = Some (vs, r) \<Longrightarrow> length r < length s"
  "parse_members n s = Some (kvs, r) \<Longrightarrow> length r < length s"
proof (induction n s and n s and n s arbitrary: v r and vs r and kvs r
    rule: parse_value_parse_items_parse_members.induct)
  case (2 n s)
  then obtain c rest where s: "s = c # rest"
    by (auto split: list.splits)
  consider (str) "c = 34" | (list) "c = 91" | (obj) "c = 123" | (lit) "c \<noteq> 34" "c \<noteq> 91" "c \<noteq> 123"
    by blast
  then show ?case
  proof cases
    case str
    then show ?thesis
      using 2(3) s by (auto split: option.splits dest!: scan_string_length)
  next
    case list
    then obtain d ds where d: "skip_space rest = d # ds"
      using 2(3) s by (auto split: list.splits)
    have "r = ds \<or> (\<exists>us. d \<noteq> 93 \<and> parse_items n (d # ds) = Some (us, r))"
      using 2(3) s list d by (auto split: if_splits option.splits)
    then show ?thesis
      using 2(1) [OF s _ list d] s list skip_space_ConsD [OF d] skip_space_length [of rest] d
      by fastforce
  next
    case obj
    then obtain d ds where d: "skip_space rest = d # ds"
      using 2(3) s by (auto split: list.splits)
    have "r = ds \<or> (\<exists>us. d \<noteq> 125 \<and> parse_members n (d # ds) = Some (us, r))"
      using 2(3) s obj d by (auto split: if_splits option.splits)
    then show ?thesis
      using 2(2) [OF s _ _ obj d] s obj skip_space_ConsD [OF d] skip_space_length [of rest] d
      by fastforce
  next
    case lit
    then show ?thesis
      using 2(3) s scan_literal_length [of s v r] by simp
  qed
next
  case (4 n s)
  then obtain v r0 where v: "parse_value n s = Some (v, r0)"
    by (auto split: option.splits)
  with 4 obtain d ds where d: "skip_space r0 = d # ds"
    by (auto split: list.splits)
  have l: "length ds < length s"
    using 4(1) [OF v] skip_space_ConsD [OF d] by linarith
  show ?case
  proof (cases "d = 93")
    case True
    then show ?thesis using 4(3) v d l by simp
  next
    case False
    then obtain us where "parse_items n (skip_space ds) = Some (us, r)" "d = 44"
      using 4(3) v d by (auto split: if_splits option.splits)
    then show ?thesis
      using 4(2) [OF v refl d False] skip_space_length [of ds] l by fastforce
  qed
next
  case (6 n s)
  then obtain rest k r0 where k: "s = 34 # rest" "scan_string rest = Some (k, r0)"
    by (auto split: list.splits if_splits option.splits)
  with 6 obtain ds where d: "skip_space r0 = 58 # ds"
    by (auto split: list.splits if_splits)
  with 6 k obtain v r1 where v: "parse_value n (skip_space ds) = Some (v, r1)"
    by (auto split: option.splits)
  with 6 k d obtain e es where e: "skip_space r1 = e # es"
    by (auto split: list.splits)
  have "length r1 < length (skip_space ds)"
    using 6(1) k d v by fastforce
  then have l: "length es < length s"
    using skip_space_length [of ds] skip_space_ConsD [OF d] skip_space_ConsD [OF e]
      scan_string_length [OF k(2)] k(1) by simp
  show ?case
  proof (cases "e = 125")
    case True
    then show ?thesis using 6(3) k v d e l by simp
  next
    case False
    then obtain us where "parse_members n (skip_space es) = Some (us, r)" "e = 44"
      using 6(3) k v d e by (auto split: if_splits option.splits)
    moreover have "length r < length (skip_space es)"
      using 6(2) k d v e False calculation by fastforce
    ultimately show ?thesis
      using skip_space_length [of es] l by linarith
  qed
qed simp_all

text \<open>The fuel of \<open>json_loads\<close> is enough: more of it never changes the answer.\<close>

lemma parse_fuel:
  "2 * length s + 1 \<le> n \<Longrightarrow> parse_value n s = parse_value (Suc n) s"
  "2 * length s + 2 \<le> n \<Longrightarrow> parse_items n s = parse_items (Suc n) s"
  "2 * length s + 2 \<le> n \<Longrightarrow> parse_members n s = parse_members (Suc n) s"
proof (induction n s and n s and n s rule: parse_value_parse_items_parse_members.induct)
  case (2 n s)
  have "skip_space rest = d # ds \<Longrightarrow> s = c # rest \<Longrightarrow> 2 * length (d # ds) + 2 \<le> n" for c rest d ds
    using 2(3) skip_space_length [of rest] by simp
  then show ?case
    using 2(1,2) by (auto simp del: parse_items.simps parse_members.simps split: list.splits)
next
  case (4 n s)
  have v: "parse_value n s = parse_value (Suc n) s"
    using 4(1,3) by simp
  have "parse_items n (skip_space ds) = parse_items (Suc n) (skip_space ds)"
    if "parse_value (Suc n) s = Some (v, r)" "skip_space r = 44 # ds" for v r ds
  proof -
    have "parse_value n s = Some (v, r)" using v that(1) by simp
    then have "length r < length s" by (rule parse_length)
    then have "2 * length (skip_space ds) + 2 \<le> n"
      using 4(3) skip_space_length [of ds] skip_space_ConsD [OF that(2)] by linarith
    then show ?thesis
      using 4(2) that v by simp
  qed
  then show ?case
    by (auto simp: v simp del: parse_value.simps parse_items.simps
        simp: parse_items.simps(2) split: option.splits list.splits)
next
  case (6 n s)
  have v: "parse_value n (skip_space ds) = parse_value (Suc n) (skip_space ds)"
    if "s = 34 # rest" "scan_string rest = Some (k, r)" "skip_space r = 58 # ds" for rest k r ds
  proof -
    have "2 * length (skip_space ds) + 1 \<le> n"
      using 6(3) that scan_string_length [OF that(2)] skip_space_length [of ds]
        skip_space_ConsD [OF that(3)] by simp
    then show ?thesis using 6(1) that by simp
  qed
  have m: "parse_members n (skip_space es) = parse_members (Suc n) (skip_space es)"
    if "s = 34 # rest" "scan_string rest = Some (k, r)" "skip_space r = 58 # ds"
      "parse_value (Suc n) (skip_space ds) = Some (w, r')" "skip_space r' = 44 # es"
    for rest k r ds w r' es
  proof -
    have pv: "parse_value n (skip_space ds) = Some (w, r')"
      using v [OF that(1-3)] that(4) by simp
    have "length r' < length s"
      using parse_length(1) [OF pv] that(1) scan_string_length [OF that(2)] skip_space_length [of ds]
        skip_space_ConsD [OF that(3)] by simp
    then have "2 * length (skip_space es) + 2 \<le> n"
      using 6(3) skip_space_length [of es] skip_space_ConsD [OF that(5)] by linarith
    then show ?thesis
      using 6(2) that(1-3,5) pv by simp
  qed
  show ?case
    using v m by (auto simp del: parse_value.simps parse_members.simps simp: parse_members.simps(2)
        split: option.splits list.splits)
qed simp_all

lemma parse_value_fuel: "2 * length s + 1 \<le> n \<Longrightarrow> parse_value n s = parse_value (2 * length s + 1) s"
proof (induction n rule: dec_induct)
  case base
  then show ?case by simp
next
  case (step n)
  then show ?case using parse_fuel(1) [of s n] by simp
qed

subsection \<open>What \<open>json.dumps\<close> prints, \<open>json.loads\<close> reads back\<close>

text \<open>Text without lone surrogates: what a Python string holds unless it was made from broken input.\<close>

definition scalar_text :: "pystr \<Rightarrow> bool" where
  "scalar_text s \<longleftrightarrow> (\<forall>c \<in> set s. c < 1114112 \<and> \<not> (55296 \<le> c \<and> c \<le> 57343))"

fun json_plain :: "json \<Rightarrow> bool" where
  "json_plain (J_str s) = scalar_text s"
| "json_plain (J_list vs) = (\<forall>v \<in> set vs. json_plain v)"
| "json_plain (J_obj kvs) =
     (distinct (map fst kvs) \<and> (\<forall>kv \<in> set kvs. scalar_text (fst kv) \<and> json_plain (snd kv)))"
| "json_plain (J_float s) = False"
| "json_plain v = True"

lemma hex_value_digit [simp]: "d < 16 \<Longrightarrow> hex_value (hex_digit d) = Some d"
  by (simp add: hex_value_def hex_digit_def)

lemma hex4_u_escape:
  assumes "n < 65536"
  shows "hex4 (drop 2 (u_escape n) @ rest) = Some (n, rest)"
proof -
  have "((n div 4096 mod 16 * 16 + n div 256 mod 16) * 16 + n div 16 mod 16) * 16 + n mod 16 = n"
  proof -
    have "n div 4096 mod 16 = n div 4096"
      using assms by (simp add: less_mult_imp_div_less)
    moreover have "n div 256 = n div 4096 * 16 + n div 256 mod 16"
      using div_mult_mod_eq [of "n div 256" 16] by (simp add: div_mult2_eq [symmetric])
    moreover have "n div 16 = n div 256 * 16 + n div 16 mod 16"
      using div_mult_mod_eq [of "n div 16" 16] by (simp add: div_mult2_eq [symmetric])
    moreover have "n = n div 16 * 16 + n mod 16"
      by simp
    ultimately show ?thesis by presburger
  qed
  moreover have "hex4 (drop 2 (u_escape n) @ rest) =
      Some (((n div 4096 mod 16 * 16 + n div 256 mod 16) * 16 + n div 16 mod 16) * 16 + n mod 16, rest)"
    unfolding u_escape_def by (simp only: numeral_2_eq_2 drop_Suc_Cons drop_0 append_Cons append_Nil
        hex4.simps hex_value_digit mod_less_divisor option.case prod.case zero_less_numeral)
  ultimately show ?thesis
    by (simp only:)
qed

lemma u_escape_cons: "u_escape n = 92 # 117 # drop 2 (u_escape n)"
  by (simp add: u_escape_def)

lemma scan_string_escape_u:
  "scan_u (u @ more) = Some (c, more) \<Longrightarrow>
    scan_string (92 # 117 # u @ more) =
      (case scan_string more of None \<Rightarrow> None | Some (t, r) \<Rightarrow> Some (c # t, r))"
  by (subst scan_string.simps) simp

lemma scan_string_escape:
  assumes "c < 1114112" and "\<not> (55296 \<le> c \<and> c \<le> 57343)"
  shows "scan_string (escape_char c @ more) =
    (case scan_string more of None \<Rightarrow> None | Some (t, r) \<Rightarrow> Some (c # t, r))"
proof -
  consider (short) "c \<in> {34, 92, 10, 13, 9, 12, 8}" | (plain) "c \<notin> {34, 92}" "32 \<le> c" "c \<le> 126"
    | (bmp) "c < 65536" "c < 32 \<or> 126 < c" "c \<notin> {10, 13, 9, 12, 8}" | (pair) "65536 \<le> c"
    by fastforce
  then show ?thesis
  proof cases
    case short
    then show ?thesis
      by (subst scan_string.simps) (auto simp: escape_char_def plain_escape_def)
  next
    case plain
    then show ?thesis
      by (subst scan_string.simps) (auto simp: escape_char_def)
  next
    case bmp
    then have e: "escape_char c = u_escape c"
      by (auto simp: escape_char_def)
    have "scan_u (drop 2 (u_escape c) @ more) = Some (c, more)"
      using hex4_u_escape [OF bmp(1)] assms(2) by (auto simp: scan_u_def high_surrogate_def)
    then show ?thesis
      unfolding e by (subst u_escape_cons) (simp add: scan_string_escape_u)
  next
    case pair
    let ?h = "55296 + (c - 65536) div 1024 mod 1024" and ?l = "56320 + (c - 65536) mod 1024"
    have e: "escape_char c = u_escape ?h @ u_escape ?l"
      using pair by (simp add: escape_char_def)
    have q: "(c - 65536) div 1024 mod 1024 = (c - 65536) div 1024"
      using assms(1) by (simp add: less_mult_imp_div_less)
    have b: "(c - 65536) div 1024 < 1024"
      using assms(1) by (simp add: less_mult_imp_div_less)
    have "hex4 (drop 2 (u_escape ?h) @ 92 # 117 # drop 2 (u_escape ?l) @ more)
        = Some (?h, 92 # 117 # drop 2 (u_escape ?l) @ more)"
      by (rule hex4_u_escape) (use b q in simp)
    moreover have "hex4 (drop 2 (u_escape ?l) @ more) = Some (?l, more)"
      by (rule hex4_u_escape) (use mod_less_divisor [of 1024 "c - 65536"] in simp)
    moreover have "high_surrogate ?h" "low_surrogate ?l"
      using b q mod_less_divisor [of 1024 "c - 65536"] by (auto simp: high_surrogate_def low_surrogate_def)
    moreover have "65536 + (?h - 55296) * 1024 + (?l - 56320) = c"
      using pair q div_mult_mod_eq [of "c - 65536" 1024] by simp
    ultimately have "scan_u ((drop 2 (u_escape ?h) @ 92 # 117 # drop 2 (u_escape ?l)) @ more) = Some (c, more)"
      by (simp add: scan_u_def)
    from scan_string_escape_u [OF this] show ?thesis
      unfolding e by (subst u_escape_cons [of ?h], subst u_escape_cons [of ?l]) simp
  qed
qed

text \<open>What may follow a number: nothing that continues it.\<close>

definition ends_number :: "pystr \<Rightarrow> bool" where
  "ends_number rest \<longleftrightarrow>
     (case rest of [] \<Rightarrow> True | c # cs \<Rightarrow> \<not> is_digit c \<and> c \<noteq> 46 \<and> c \<noteq> 101 \<and> c \<noteq> 69)"

lemma dec_digits_digits: "c \<in> set (dec_digits n) \<Longrightarrow> is_digit c"
  by (auto simp: is_digit_def dest: dec_digits_range)

lemma dec_digits_first: "0 < n \<Longrightarrow> hd (dec_digits n) \<noteq> 48"
proof (induction n rule: dec_digits.induct)
  case (1 n)
  then show ?case
    by (subst dec_digits.simps) (auto simp: hd_append)
qed

lemma scan_int_digits:
  assumes "ends_number rest"
  shows "scan_int (dec_digits n @ rest) = Some (dec_digits n, rest)"
proof (cases "n = 0")
  case True
  then have "dec_digits n = [48]" by (subst dec_digits.simps) simp
  then show ?thesis by (simp add: scan_int_def)
next
  case False
  obtain c cs where c: "dec_digits n = c # cs" by (cases "dec_digits n") auto
  have "c \<noteq> 48" using dec_digits_first [of n] False c by simp
  moreover have d: "\<forall>x \<in> set (dec_digits n). is_digit x" using dec_digits_digits by blast
  moreover have "takeWhile is_digit rest = []" "dropWhile is_digit rest = rest"
    using assms by (cases rest; simp add: ends_number_def)+
  ultimately show ?thesis
    using c by (simp add: scan_int_def takeWhile_append2 dropWhile_append2)
qed

lemma ends_number_tail:
  "ends_number rest \<Longrightarrow> scan_frac rest = ([], rest)" "ends_number rest \<Longrightarrow> scan_exp rest = ([], rest)"
  by (cases rest; simp add: ends_number_def scan_frac_def scan_exp_def split: list.splits)+

lemma scan_number_dec: "ends_number rest \<Longrightarrow> scan_number (dec i @ rest) = Some (J_int i, rest)"
proof -
  assume r: "ends_number rest"
  show ?thesis
  proof (cases "i < 0")
    case True
    then show ?thesis
      using r by (simp add: scan_number_def scan_sign_def dec_def scan_int_digits ends_number_tail
          del: undec.simps)
  next
    case False
    obtain c cs where c: "dec_digits (nat i) = c # cs" by (cases "dec_digits (nat i)") auto
    then have "is_digit c" using dec_digits_digits [of c "nat i"] by simp
    then have "scan_sign (dec i @ rest) = ([], dec i @ rest)"
      using False c by (auto simp: scan_sign_def dec_def is_digit_def)
    then show ?thesis
      using r False by (simp add: scan_number_def dec_def scan_int_digits ends_number_tail
          del: undec.simps)
  qed
qed

lemma literal_not_dec:
  "find (\<lambda>(w, v). take (length w) (dec i @ rest) = w) literals = None"
proof -
  have d: "\<exists>c cs. dec_digits n = c # cs \<and> 48 \<le> c \<and> c \<le> 57" for n
    using dec_digits_range [of _ n] by (cases "dec_digits n") auto
  show ?thesis
  proof (cases "i < 0")
    case True
    then obtain c cs where "dec i = 45 # c # cs" "48 \<le> c" "c \<le> 57"
      using d [of "nat (- i)"] by (auto simp: dec_def)
    then show ?thesis by (auto simp: literals_def str_def)
  next
    case False
    then obtain c cs where "dec i = c # cs" "48 \<le> c" "c \<le> 57"
      using d [of "nat i"] by (auto simp: dec_def)
    then show ?thesis by (auto simp: literals_def str_def)
  qed
qed

lemma scan_literal_dec: "ends_number rest \<Longrightarrow> scan_literal (dec i @ rest) = Some (J_int i, rest)"
  unfolding scan_literal_def literal_not_dec by (simp add: scan_number_dec)

text \<open>The separators the program uses: a comma and a colon, each followed by spaces or not.\<close>

definition plain_separators :: "pystr \<Rightarrow> pystr \<Rightarrow> bool" where
  "plain_separators isep ksep \<longleftrightarrow>
     isep \<noteq> [] \<and> hd isep = 44 \<and> list_all json_space (tl isep)
     \<and> ksep \<noteq> [] \<and> hd ksep = 58 \<and> list_all json_space (tl ksep)"

lemma skip_space_append: "list_all json_space sp \<Longrightarrow> skip_space (sp @ s) = skip_space s"
  by (induction sp) (simp_all add: skip_space_def)

lemma join_Cons: "join sep (x # y # ys) = x @ sep @ join sep (y # ys)"
  by (simp add: join_def)

lemma join_single: "join sep [x] = x"
  by (simp add: join_def)

definition member_text :: "(nat \<Rightarrow> pystr) \<Rightarrow> pystr \<Rightarrow> pystr \<Rightarrow> pystr \<times> json \<Rightarrow> pystr" where
  "member_text esc isep ksep kv = quote_json esc (fst kv) @ ksep @ json_dumps esc isep ksep (snd kv)"

definition reads_back :: "(nat \<Rightarrow> pystr) \<Rightarrow> pystr \<Rightarrow> pystr \<Rightarrow> json \<Rightarrow> bool" where
  "reads_back esc isep ksep v \<longleftrightarrow>
     (\<forall>n rest. ends_number rest \<longrightarrow> 2 * length (json_dumps esc isep ksep v @ rest) + 1 \<le> n \<longrightarrow>
        parse_value n (json_dumps esc isep ksep v @ rest) = Some (v, rest))"

lemma ends_number_sep [simp]: "ends_number (93 # r)" "ends_number (125 # r)" "ends_number (44 # r)"
  by (simp_all add: ends_number_def is_digit_def)

lemma dict_of_items_distinct: "distinct (map fst kvs) \<Longrightarrow> dict_of_items kvs = kvs"
proof -
  have "foldl (\<lambda>d (k, v). dict_put k v d) d kvs = d @ kvs"
    if "distinct (map fst (d @ kvs))" for d
    using that
  proof (induction kvs arbitrary: d)
    case Nil
    then show ?case by simp
  next
    case (Cons kv kvs)
    then show ?case
      by (cases kv) (auto simp: dict_put_def)
  qed
  from this [of "[]"] show "distinct (map fst kvs) \<Longrightarrow> dict_of_items kvs = kvs"
    by (simp add: dict_of_items_def)
qed

text \<open>
  A printer is readable when the scanner takes every escaped character back.  The round trip is
  proved once for every such printer; both of the program's are interpreted below.
\<close>

locale json_printer =
  fixes esc :: "nat \<Rightarrow> pystr"
  assumes scan_escape: "c < 1114112 \<Longrightarrow> \<not> (55296 \<le> c \<and> c \<le> 57343) \<Longrightarrow>
    scan_string (esc c @ more) = (case scan_string more of None \<Rightarrow> None | Some (t, r) \<Rightarrow> Some (c # t, r))"
begin

lemma scan_string_quote:
  "scalar_text t \<Longrightarrow> scan_string (concat (map esc t) @ 34 # rest) = Some (t, rest)"
proof (induction t)
  case Nil
  show ?case by (subst list.map, subst concat.simps, subst append_Nil, subst scan_string.simps) simp
next
  case (Cons c t)
  then show ?case
    using scan_escape [of c "concat (map esc t) @ 34 # rest"]
    by (simp add: scalar_text_def)
qed

text \<open>The first character of a printed value starts a value.\<close>

lemma dumps_first:
  assumes "json_plain v"
  shows "\<exists>c cs. json_dumps esc isep ksep v = c # cs \<and> \<not> json_space c \<and> c \<noteq> 93 \<and> c \<noteq> 125"
proof (cases v)
  case (J_int i)
  obtain c cs where c: "dec i = c # cs" by (cases "dec i") (auto simp: dec_def split: if_splits)
  then have "c = 45 \<or> 48 \<le> c \<and> c \<le> 57" using dec_chars [of c i] by simp
  then show ?thesis using c J_int by (auto simp: json_space_def)
next
  case (J_bool b)
  then show ?thesis by (cases b) (auto simp: str_def json_space_def)
qed (use assms in \<open>auto simp: str_def json_space_def quote_json_def\<close>)

lemma skip_space_dumps:
  "json_plain v \<Longrightarrow> skip_space (json_dumps esc isep ksep v @ r) = json_dumps esc isep ksep v @ r"
  using dumps_first [of v isep ksep] by (auto simp: skip_space_def)

lemma parse_items_dumps:
  assumes sep: "plain_separators isep ksep" and vs: "vs \<noteq> []"
    and elems: "\<And>v. v \<in> set vs \<Longrightarrow> json_plain v \<and> reads_back esc isep ksep v"
    and n: "2 * length (join isep (map (json_dumps esc isep ksep) vs) @ 93 # rest) + 2 \<le> n"
  shows "parse_items n (join isep (map (json_dumps esc isep ksep) vs) @ 93 # rest) = Some (vs, rest)"
  using vs elems n
proof (induction vs arbitrary: n)
  case Nil
  then show ?case by simp
next
  case (Cons v vs)
  obtain isp where isp: "isep = 44 # isp" "list_all json_space isp"
    using sep by (cases isep) (auto simp: plain_separators_def)
  obtain m where m: "n = Suc m" using Cons.prems(3) by (cases n) auto
  have v: "reads_back esc isep ksep v" "json_plain v" using Cons.prems(2) by auto
  show ?case
  proof (cases vs)
    case Nil
    have "parse_value m (json_dumps esc isep ksep v @ 93 # rest) = Some (v, 93 # rest)"
      using v(1) Cons.prems(3) m Nil by (simp add: reads_back_def join_single)
    then show ?thesis
      by (simp add: Nil m join_single skip_space_def json_space_def)
  next
    case (Cons w ws)
    let ?tail = "join isep (map (json_dumps esc isep ksep) vs) @ 93 # rest"
    have printed: "join isep (map (json_dumps esc isep ksep) (v # vs)) @ 93 # rest
        = json_dumps esc isep ksep v @ 44 # isp @ ?tail"
      by (simp add: Cons join_Cons isp(1))
    have "parse_value m (json_dumps esc isep ksep v @ 44 # isp @ ?tail) = Some (v, 44 # isp @ ?tail)"
      using v(1) Cons.prems(3) m printed by (simp add: reads_back_def)
    moreover have "skip_space (44 # isp @ ?tail) = 44 # isp @ ?tail"
      by (simp add: skip_space_def json_space_def)
    moreover have "skip_space (isp @ ?tail) = ?tail"
    proof -
      have "json_plain w" using Cons.prems(2) Cons by auto
      then have "skip_space ?tail = ?tail"
        using skip_space_dumps [of w isep ksep] Cons
        by (cases ws) (simp_all add: join_single join_Cons)
      then show ?thesis using isp(2) by (simp add: skip_space_append)
    qed
    moreover have "parse_items m ?tail = Some (vs, rest)"
      using Cons.IH [of m] Cons Cons.prems(2,3) m printed by simp
    ultimately show ?thesis
      unfolding printed m by simp
  qed
qed

lemma parse_members_dumps:
  assumes sep: "plain_separators isep ksep" and kvs: "kvs \<noteq> []"
    and elems: "\<And>kv. kv \<in> set kvs \<Longrightarrow> scalar_text (fst kv) \<and> json_plain (snd kv) \<and> reads_back esc isep ksep (snd kv)"
    and n: "2 * length (join isep (map (member_text esc isep ksep) kvs) @ 125 # rest) + 2 \<le> n"
  shows "parse_members n (join isep (map (member_text esc isep ksep) kvs) @ 125 # rest) = Some (kvs, rest)"
  using kvs elems n
proof (induction kvs arbitrary: n)
  case Nil
  then show ?case by simp
next
  case (Cons kv kvs)
  obtain k v where kv: "kv = (k, v)" by (cases kv)
  obtain isp ksp where isp: "isep = 44 # isp" "list_all json_space isp"
      and ksp: "ksep = 58 # ksp" "list_all json_space ksp"
    using sep by (cases isep; cases ksep) (auto simp: plain_separators_def)
  obtain m where m: "n = Suc m" using Cons.prems(3) by (cases n) auto
  have v: "reads_back esc isep ksep v" "json_plain v" "scalar_text k"
    using Cons.prems(2) [of kv] kv by auto
  let ?d = "json_dumps esc isep ksep v"
  have key: "parse_members n (member_text esc isep ksep kv @ tl) =
     (case parse_value m (?d @ tl) of
        None \<Rightarrow> None
      | Some (v, r') \<Rightarrow>
          (case skip_space r' of
             [] \<Rightarrow> None
           | e # es \<Rightarrow>
               if e = 125 then Some ([(k, v)], es)
               else if e = 44 then
                 (case parse_members m (skip_space es) of
                    None \<Rightarrow> None
                  | Some (kvs, r'') \<Rightarrow> Some ((k, v) # kvs, r''))
               else None))" for tl
  proof -
    have "member_text esc isep ksep kv @ tl = 34 # concat (map esc k) @ 34 # 58 # ksp @ ?d @ tl"
      by (simp add: member_text_def kv quote_json_def ksp(1))
    moreover have "skip_space (58 # ksp @ ?d @ tl) = 58 # ksp @ ?d @ tl"
      by (simp add: skip_space_def json_space_def)
    moreover have "skip_space (ksp @ ?d @ tl) = ?d @ tl"
      using ksp(2) skip_space_dumps [OF v(2)] by (simp add: skip_space_append)
    ultimately show ?thesis
      using scan_string_quote [OF v(3), of "58 # ksp @ ?d @ tl"] by (simp add: m)
  qed
  have len: "length ?d \<le> length (member_text esc isep ksep kv)"
    by (simp add: member_text_def kv)
  show ?case
  proof (cases kvs)
    case Nil
    have "parse_value m (?d @ 125 # rest) = Some (v, 125 # rest)"
      using v(1) Cons.prems(3) m Nil len by (simp add: reads_back_def join_single)
    then show ?thesis
      using key [of "125 # rest"] by (simp add: Nil join_single skip_space_def json_space_def kv)
  next
    case (Cons w ws)
    let ?tail = "join isep (map (member_text esc isep ksep) kvs) @ 125 # rest"
    have printed: "join isep (map (member_text esc isep ksep) (kv # kvs)) @ 125 # rest
        = member_text esc isep ksep kv @ 44 # isp @ ?tail"
      by (simp add: Cons join_Cons isp(1))
    have "parse_value m (?d @ 44 # isp @ ?tail) = Some (v, 44 # isp @ ?tail)"
      using v(1) Cons.prems(3) m printed len by (simp add: reads_back_def)
    moreover have "skip_space (44 # isp @ ?tail) = 44 # isp @ ?tail"
      by (simp add: skip_space_def json_space_def)
    moreover have "skip_space (isp @ ?tail) = ?tail"
    proof -
      have "skip_space ?tail = ?tail"
        using Cons
        by (cases ws) (simp_all add: join_single join_Cons member_text_def quote_json_def
            skip_space_def json_space_def)
      then show ?thesis using isp(2) by (simp add: skip_space_append)
    qed
    moreover have "parse_members m ?tail = Some (kvs, rest)"
      using Cons.IH [of m] Cons Cons.prems(2,3) m printed by simp
    ultimately show ?thesis
      unfolding printed key by (simp add: kv)
  qed
qed

lemma json_reads_back:
  assumes sep: "plain_separators isep ksep" and "json_plain v"
  shows "reads_back esc isep ksep v"
  using assms(2)
proof (induction v)
  case (J_int i)
  show ?case
    unfolding reads_back_def
  proof (intro allI impI)
    fix n rest
    assume r: "ends_number rest" and n: "2 * length (json_dumps esc isep ksep (J_int i) @ rest) + 1 \<le> n"
    obtain m where m: "n = Suc m" using n by (cases n) auto
    obtain c cs where c: "dec i = c # cs" "c \<noteq> 34" "c \<noteq> 91" "c \<noteq> 123"
      using dumps_first [of "J_int i" isep ksep] dec_chars [of _ i] by (cases "dec i") fastforce+
    have "dec i @ rest = c # cs @ rest" using c(1) by simp
    then show "parse_value n (json_dumps esc isep ksep (J_int i) @ rest) = Some (J_int i, rest)"
      using scan_literal_dec [OF r, of i] c by (simp add: m)
  qed
next
  case (J_str t)
  show ?case
    unfolding reads_back_def
  proof (intro allI impI)
    fix n rest
    assume n: "2 * length (json_dumps esc isep ksep (J_str t) @ rest) + 1 \<le> n"
    obtain m where "n = Suc m" using n by (cases n) auto
    then show "parse_value n (json_dumps esc isep ksep (J_str t) @ rest) = Some (J_str t, rest)"
      using J_str scan_string_quote [of t rest] by (simp add: quote_json_def)
  qed
next
  case (J_list vs)
  show ?case
    unfolding reads_back_def
  proof (intro allI impI)
    fix n rest
    assume n: "2 * length (json_dumps esc isep ksep (J_list vs) @ rest) + 1 \<le> n"
    obtain m where m: "n = Suc m" using n by (cases n) auto
    show "parse_value n (json_dumps esc isep ksep (J_list vs) @ rest) = Some (J_list vs, rest)"
    proof (cases vs)
      case Nil
      then show ?thesis by (simp add: m join_def skip_space_def json_space_def)
    next
      case (Cons w ws)
      let ?body = "join isep (map (json_dumps esc isep ksep) vs) @ 93 # rest"
      obtain c cs where c: "json_dumps esc isep ksep w = c # cs" "\<not> json_space c" "c \<noteq> 93"
        using dumps_first [of w isep ksep] J_list.prems Cons by auto
      obtain ds where ds: "?body = c # ds"
        using c(1) Cons by (cases ws) (simp_all add: join_single join_Cons)
      have items: "parse_items m ?body = Some (vs, rest)"
        using J_list n m Cons by (intro parse_items_dumps [OF sep]) auto
      show ?thesis
        using items ds c by (simp add: m skip_space_def)
    qed
  qed
next
  case (J_obj kvs)
  have members_back: "scalar_text (fst kv) \<and> json_plain (snd kv) \<and> reads_back esc isep ksep (snd kv)"
    if "kv \<in> set kvs" for kv
    using J_obj.prems J_obj.IH [of kv "snd kv"] that by (cases kv) (auto intro: snds.intros)
  show ?case
    unfolding reads_back_def
  proof (intro allI impI)
    fix n rest
    assume n: "2 * length (json_dumps esc isep ksep (J_obj kvs) @ rest) + 1 \<le> n"
    obtain m where m: "n = Suc m" using n by (cases n) auto
    have printed: "json_dumps esc isep ksep (J_obj kvs) @ rest
        = 123 # join isep (map (member_text esc isep ksep) kvs) @ 125 # rest"
      by (simp add: member_text_def [abs_def])
    show "parse_value n (json_dumps esc isep ksep (J_obj kvs) @ rest) = Some (J_obj kvs, rest)"
    proof (cases kvs)
      case Nil
      then show ?thesis by (simp add: m join_def skip_space_def json_space_def)
    next
      case (Cons w ws)
      let ?body = "join isep (map (member_text esc isep ksep) kvs) @ 125 # rest"
      obtain ds where ds: "?body = 34 # ds"
        using Cons by (cases ws) (simp_all add: join_single join_Cons member_text_def quote_json_def)
      have members: "parse_members m ?body = Some (kvs, rest)"
        using n printed m Cons members_back by (intro parse_members_dumps [OF sep]) auto
      show ?thesis
        unfolding printed using members ds J_obj.prems
        by (simp add: m skip_space_def json_space_def dict_of_items_distinct)
    qed
  qed
next
  case (J_bool b)
  show ?case
    unfolding reads_back_def
  proof (intro allI impI)
    fix n rest
    assume n: "2 * length (json_dumps esc isep ksep (J_bool b) @ rest) + 1 \<le> n"
    obtain m where "n = Suc m" using n by (cases n) auto
    then show "parse_value n (json_dumps esc isep ksep (J_bool b) @ rest) = Some (J_bool b, rest)"
      by (cases b) (simp_all add: scan_literal_def literals_def str_def)
  qed
next
  case J_null
  show ?case
    unfolding reads_back_def
  proof (intro allI impI)
    fix n rest
    assume n: "2 * length (json_dumps esc isep ksep J_null @ rest) + 1 \<le> n"
    obtain m where "n = Suc m" using n by (cases n) auto
    then show "parse_value n (json_dumps esc isep ksep J_null @ rest) = Some (J_null, rest)"
      by (simp add: scan_literal_def literals_def str_def)
  qed
qed simp

lemma json_loads_dumps:
  assumes "plain_separators isep ksep" and "json_plain v"
  shows "json_loads (json_dumps esc isep ksep v) = Some v"
proof -
  obtain c cs where c: "json_dumps esc isep ksep v = c # cs" "\<not> json_space c"
    using dumps_first [OF assms(2)] by blast
  have "c \<noteq> 65279"
  proof (cases v)
    case (J_int i)
    then show ?thesis using c dec_chars [of c i] by (auto simp: json_space_def)
  next
    case (J_bool b)
    then show ?thesis using c by (cases b) (auto simp: str_def)
  qed (use c assms(2) in \<open>auto simp: str_def quote_json_def\<close>)
  moreover have "skip_space (c # cs) = c # cs" using c by (simp add: skip_space_def)
  moreover have "parse_value (2 * length (c # cs) + 1) (c # cs) = Some (v, [])"
    using json_reads_back [OF assms, unfolded reads_back_def, rule_format, of "[]" "2 * length (c # cs) + 1"] c(1)
    by (simp del: parse_value.simps add: ends_number_def)
  ultimately show ?thesis
    unfolding json_loads_def Let_def c(1) by (simp del: parse_value.simps add: skip_space_def)
qed

end

lemma scan_wire_char:
  assumes "c < 1114112" and "\<not> (55296 \<le> c \<and> c \<le> 57343)"
  shows "scan_string (wire_char c @ more) =
    (case scan_string more of None \<Rightarrow> None | Some (t, r) \<Rightarrow> Some (c # t, r))"
proof (cases "32 \<le> c \<and> c \<noteq> 34 \<and> c \<noteq> 92")
  case True
  then show ?thesis
    by (subst scan_string.simps) (simp add: wire_char_def)
next
  case False
  then have "wire_char c = escape_char c"
    by (auto simp: wire_char_def escape_char_def)
  then show ?thesis
    using scan_string_escape [OF assms] by simp
qed

interpretation ascii_printer: json_printer escape_char
  by unfold_locales (rule scan_string_escape)

interpretation wire_printer: json_printer wire_char
  by unfold_locales (rule scan_wire_char)

lemma compact_separators: "plain_separators (str '','') (str '':'')"
  by (simp add: plain_separators_def str_def)

lemma default_separators: "plain_separators (str '', '') (str '': '')"
  by (simp add: plain_separators_def str_def json_space_def)

lemma json_loads_compact: "json_plain v \<Longrightarrow> json_loads (dumps_compact v) = Some v"
  unfolding dumps_compact_def by (rule ascii_printer.json_loads_dumps [OF compact_separators])

lemma json_loads_wire: "json_plain v \<Longrightarrow> json_loads (dumps_wire v) = Some v"
  unfolding dumps_wire_def by (rule wire_printer.json_loads_dumps [OF compact_separators])

text \<open>Data that Python's \<open>json\<close> prints and reads back unchanged comes back with its keys sorted.\<close>

lemma json_plain_sort_keys: "json_plain v \<Longrightarrow> json_plain (json_sort_keys v)"
proof (induction v)
  case (J_obj kvs)
  have "distinct (map fst (sort_key fst (map (\<lambda>kv. (fst kv, json_sort_keys (snd kv))) kvs)))"
    using J_obj.prems by (simp add: distinct_map comp_def inj_on_def) (metis prod.collapse)
  then show ?case
    using J_obj by (fastforce simp: snds.simps)
qed auto

end
