(* ===== verification/Delegation_Context.thy ===== *)
theory Delegation_Context
  imports Json_Parse
begin

text \<open>
  The delegation context that travels between gateways: \<open>runtime/delegation/context.py\<close>.
  The context is put into the reserved fields of a task's metadata, the list of visited nodes
  as a JSON text, and the receiving gateway parses, checks and narrows it.

  A metadata dict is its list of items with distinct keys.  The set of missing fields in an
  error text is sorted, as the code does.
\<close>

definition context_version :: int where
  "context_version = 1"

definition context_version_field :: pystr where
  "context_version_field = str ''_deepagents_context_version''"

definition root_id_field :: pystr where
  "root_id_field = str ''_deepagents_root_id''"

definition depth_field :: pystr where
  "depth_field = str ''_deepagents_depth''"

definition max_depth_field :: pystr where
  "max_depth_field = str ''_deepagents_max_depth''"

definition max_tasks_field :: pystr where
  "max_tasks_field = str ''_deepagents_max_tasks_per_root''"

definition visited_nodes_field :: pystr where
  "visited_nodes_field = str ''_deepagents_visited_nodes''"

definition reserved_fields :: "pystr list" where
  "reserved_fields =
     [context_version_field, root_id_field, depth_field, max_depth_field, max_tasks_field,
      visited_nodes_field]"

definition max_root_id_length :: nat where "max_root_id_length = 256"
definition max_node_id_length :: nat where "max_node_id_length = 128"
definition max_visited_nodes :: nat where "max_visited_nodes = 64"

datatype context_error =
    Context_invalid pystr
  | Context_loop pystr
  | Context_too_deep int int

record delegation_context =
  dc_root_id :: pystr
  dc_depth :: int
  dc_max_depth :: int
  dc_max_tasks_per_root :: int
  dc_visited_nodes :: "pystr list"

text \<open>The characters \<open>str.strip\<close> removes.\<close>

definition py_space :: "nat \<Rightarrow> bool" where
  "py_space c \<longleftrightarrow>
     9 \<le> c \<and> c \<le> 13 \<or> 28 \<le> c \<and> c \<le> 32 \<or> c = 133 \<or> c = 160 \<or> c = 5760
     \<or> 8192 \<le> c \<and> c \<le> 8202 \<or> c = 8232 \<or> c = 8233 \<or> c = 8239 \<or> c = 8287 \<or> c = 12288"

definition blank :: "pystr \<Rightarrow> bool" where
  "blank s \<longleftrightarrow> list_all py_space s"

text \<open>\<open>isinstance(value, str)\<close>, for a metadata value and for a decoded JSON item.\<close>

fun as_str :: "pyval \<Rightarrow> pystr option" where
  "as_str (PStr s) = Some s"
| "as_str _ = None"

fun json_str :: "json \<Rightarrow> pystr option" where
  "json_str (J_str s) = Some s"
| "json_str _ = None"

definition require_positive_int :: "pyval \<Rightarrow> context_error + int" where
  "require_positive_int value =
     (case value of
        PInt i \<Rightarrow> if i < 1 then Inl (Context_invalid (str ''Delegation context integer must be > 0''))
                  else Inr i
      | _ \<Rightarrow> Inl (Context_invalid (str ''Delegation context integer must be > 0'')))"

definition require_non_empty_string :: "pystr \<Rightarrow> nat \<Rightarrow> pystr option \<Rightarrow> context_error + pystr" where
  "require_non_empty_string field_name max_length value =
     (case value of
        None \<Rightarrow> Inl (Context_invalid (field_name @ str '' must be a string''))
      | Some s \<Rightarrow>
          if blank s then Inl (Context_invalid (field_name @ str '' must be non-empty''))
          else if length s > max_length
            then Inl (Context_invalid (field_name @ str '' exceeds max length ''
                        @ dec (int max_length)))
          else Inr s)"

definition validate_node_id :: "pystr \<Rightarrow> context_error + pystr" where
  "validate_node_id node_id =
     require_non_empty_string (str ''node_id'') max_node_id_length (Some node_id)"

definition build_root_context ::
  "pystr \<Rightarrow> pystr \<Rightarrow> int \<Rightarrow> int \<Rightarrow> context_error + delegation_context" where
  "build_root_context node_id task_id max_depth max_tasks_per_root =
     (case validate_node_id node_id of
        Inl e \<Rightarrow> Inl e
      | Inr node_id \<Rightarrow>
          Inr \<lparr>dc_root_id = node_id @ str '':'' @ task_id, dc_depth = 1,
               dc_max_depth = max_depth, dc_max_tasks_per_root = max_tasks_per_root,
               dc_visited_nodes = [node_id]\<rparr>)"

definition build_child_context :: "delegation_context \<Rightarrow> int \<Rightarrow> delegation_context" where
  "build_child_context parent depth = parent\<lparr>dc_depth := depth\<rparr>"

definition strip_reserved :: "pydict \<Rightarrow> pydict" where
  "strip_reserved metadata = filter (\<lambda>(k, v). k \<notin> set reserved_fields) metadata"

text \<open>The items are checked in order, and the first bad one raises.\<close>

fun parse_node_items :: "json list \<Rightarrow> context_error + pystr list" where
  "parse_node_items [] = Inr []"
| "parse_node_items (item # items) =
     (case require_non_empty_string visited_nodes_field max_node_id_length (json_str item) of
        Inl e \<Rightarrow> Inl e
      | Inr node \<Rightarrow> (case parse_node_items items of Inl e \<Rightarrow> Inl e | Inr nodes \<Rightarrow> Inr (node # nodes)))"

definition parse_visited_nodes :: "pyval \<Rightarrow> context_error + pystr list" where
  "parse_visited_nodes value =
     (case as_str value of
        None \<Rightarrow> Inl (Context_invalid (visited_nodes_field @ str '' must be a JSON string''))
      | Some txt \<Rightarrow>
          (case json_loads txt of
             None \<Rightarrow> Inl (Context_invalid (visited_nodes_field @ str '' must be valid JSON''))
           | Some (J_list items) \<Rightarrow>
               if items = [] then Inl (Context_invalid (visited_nodes_field @ str '' must be non-empty''))
               else if length items > max_visited_nodes
                 then Inl (Context_invalid (visited_nodes_field @ str '' exceeds limit ''
                             @ dec (int max_visited_nodes)))
               else parse_node_items items
           | Some _ \<Rightarrow> Inl (Context_invalid (visited_nodes_field @ str '' must decode to a list''))))"

definition missing_fields :: "pydict \<Rightarrow> pystr list" where
  "missing_fields metadata = filter (\<lambda>f. f \<notin> fst ` set metadata) reserved_fields"

text \<open>The decoded fields of a complete context, checked in the order of the code.\<close>

definition parse_context_fields :: "pydict \<Rightarrow> context_error + delegation_context" where
  "parse_context_fields metadata =
     (case require_positive_int (dict_get context_version_field metadata) of
        Inl e \<Rightarrow> Inl e
      | Inr version \<Rightarrow>
          if version \<noteq> context_version
          then Inl (Context_invalid (str ''Unsupported delegation context version: '' @ dec version))
          else
            (case require_non_empty_string root_id_field max_root_id_length
                    (as_str (dict_get root_id_field metadata)) of
               Inl e \<Rightarrow> Inl e
             | Inr root_id \<Rightarrow>
                 (case require_positive_int (dict_get depth_field metadata) of
                    Inl e \<Rightarrow> Inl e
                  | Inr depth \<Rightarrow>
                      (case require_positive_int (dict_get max_depth_field metadata) of
                         Inl e \<Rightarrow> Inl e
                       | Inr max_depth \<Rightarrow>
                           (case require_positive_int (dict_get max_tasks_field metadata) of
                              Inl e \<Rightarrow> Inl e
                            | Inr max_tasks \<Rightarrow>
                                (case parse_visited_nodes (dict_get visited_nodes_field metadata) of
                                   Inl e \<Rightarrow> Inl e
                                 | Inr nodes \<Rightarrow>
                                     Inr \<lparr>dc_root_id = root_id, dc_depth = depth,
                                          dc_max_depth = max_depth, dc_max_tasks_per_root = max_tasks,
                                          dc_visited_nodes = nodes\<rparr>))))))"

definition parse_inbound_metadata ::
  "pystr \<Rightarrow> int \<Rightarrow> int \<Rightarrow> pydict \<Rightarrow> context_error + pydict \<times> delegation_context option" where
  "parse_inbound_metadata node_id local_max_depth local_max_tasks metadata =
     (let clean = strip_reserved metadata
      in if \<not> list_ex (\<lambda>f. f \<in> fst ` set metadata) reserved_fields then Inr (clean, None)
         else if missing_fields metadata \<noteq> []
           then Inl (Context_invalid (str ''Delegation context is incomplete: ''
                       @ join (str '', '') (sort (missing_fields metadata))))
         else
           (case parse_context_fields metadata of
              Inl e \<Rightarrow> Inl e
            | Inr inbound \<Rightarrow>
                (case validate_node_id node_id of
                   Inl e \<Rightarrow> Inl e
                 | Inr node_id \<Rightarrow>
                     if node_id \<in> set (dc_visited_nodes inbound)
                     then Inl (Context_loop node_id)
                     else
                       let max_depth = min (dc_max_depth inbound) local_max_depth;
                           max_tasks = min (dc_max_tasks_per_root inbound) local_max_tasks;
                           nodes = dc_visited_nodes inbound @ [node_id]
                       in if dc_depth inbound > max_depth
                          then Inl (Context_too_deep (dc_depth inbound) max_depth)
                          else if length nodes > max_visited_nodes
                          then Inl (Context_invalid (str ''Delegation visited nodes exceeds limit: ''
                                      @ dec (int max_visited_nodes)))
                          else Inr (clean,
                                 Some \<lparr>dc_root_id = dc_root_id inbound, dc_depth = dc_depth inbound,
                                       dc_max_depth = max_depth, dc_max_tasks_per_root = max_tasks,
                                       dc_visited_nodes = nodes\<rparr>))))"

definition inject_context_metadata :: "pydict \<Rightarrow> delegation_context \<Rightarrow> pydict" where
  "inject_context_metadata metadata context =
     strip_reserved metadata @
       [(context_version_field, PInt context_version),
        (root_id_field, PStr (dc_root_id context)),
        (depth_field, PInt (dc_depth context)),
        (max_depth_field, PInt (dc_max_depth context)),
        (max_tasks_field, PInt (dc_max_tasks_per_root context)),
        (visited_nodes_field,
         PStr (dumps_compact (J_list (map J_str (dc_visited_nodes context)))))]"

subsection \<open>What a context carries survives the transport\<close>

definition valid_node :: "pystr \<Rightarrow> bool" where
  "valid_node n \<longleftrightarrow> \<not> blank n \<and> length n \<le> max_node_id_length \<and> scalar_text n"

definition valid_context :: "delegation_context \<Rightarrow> bool" where
  "valid_context c \<longleftrightarrow>
     \<not> blank (dc_root_id c) \<and> length (dc_root_id c) \<le> max_root_id_length
     \<and> 1 \<le> dc_depth c \<and> 1 \<le> dc_max_depth c \<and> 1 \<le> dc_max_tasks_per_root c
     \<and> dc_visited_nodes c \<noteq> [] \<and> length (dc_visited_nodes c) \<le> max_visited_nodes
     \<and> list_all valid_node (dc_visited_nodes c)"

lemma require_string_Inr:
  "require_non_empty_string f m v = Inr s \<longleftrightarrow> v = Some s \<and> \<not> blank s \<and> length s \<le> m"
  by (auto simp: require_non_empty_string_def split: option.splits if_splits)

lemma validate_node_Inr:
  "validate_node_id n = Inr m \<longleftrightarrow> m = n \<and> \<not> blank n \<and> length n \<le> max_node_id_length"
  by (auto simp: validate_node_id_def require_string_Inr)

lemma require_int_Inr: "require_positive_int v = Inr i \<longleftrightarrow> v = PInt i \<and> 1 \<le> i"
  by (auto simp: require_positive_int_def split: pyval.splits if_splits)

lemmas field_defs = reserved_fields_def context_version_field_def root_id_field_def depth_field_def
  max_depth_field_def max_tasks_field_def visited_nodes_field_def

lemma strip_reserved_keys: "k \<in> set reserved_fields \<Longrightarrow> map_of (strip_reserved md) k = None"
  by (auto simp: strip_reserved_def map_of_eq_None_iff)

lemma strip_reserved_idem [simp]: "strip_reserved (strip_reserved md) = strip_reserved md"
  by (simp add: strip_reserved_def)

lemma strip_inject [simp]: "strip_reserved (inject_context_metadata md c) = strip_reserved md"
  by (simp add: inject_context_metadata_def strip_reserved_def reserved_fields_def)

lemma inject_get:
  "dict_get context_version_field (inject_context_metadata md c) = PInt context_version"
  "dict_get root_id_field (inject_context_metadata md c) = PStr (dc_root_id c)"
  "dict_get depth_field (inject_context_metadata md c) = PInt (dc_depth c)"
  "dict_get max_depth_field (inject_context_metadata md c) = PInt (dc_max_depth c)"
  "dict_get max_tasks_field (inject_context_metadata md c) = PInt (dc_max_tasks_per_root c)"
  "dict_get visited_nodes_field (inject_context_metadata md c) =
     PStr (dumps_compact (J_list (map J_str (dc_visited_nodes c))))"
proof -
  have get: "dict_get k (inject_context_metadata md c) = v"
    if "k \<in> set reserved_fields"
      "map_of [(context_version_field, PInt context_version), (root_id_field, PStr (dc_root_id c)),
        (depth_field, PInt (dc_depth c)), (max_depth_field, PInt (dc_max_depth c)),
        (max_tasks_field, PInt (dc_max_tasks_per_root c)),
        (visited_nodes_field, PStr (dumps_compact (J_list (map J_str (dc_visited_nodes c)))))] k = Some v"
    for k v
    using that strip_reserved_keys [OF that(1), of md]
    by (simp add: dict_get_def inject_context_metadata_def map_add_def)
  show "dict_get context_version_field (inject_context_metadata md c) = PInt context_version"
    "dict_get root_id_field (inject_context_metadata md c) = PStr (dc_root_id c)"
    "dict_get depth_field (inject_context_metadata md c) = PInt (dc_depth c)"
    "dict_get max_depth_field (inject_context_metadata md c) = PInt (dc_max_depth c)"
    "dict_get max_tasks_field (inject_context_metadata md c) = PInt (dc_max_tasks_per_root c)"
    "dict_get visited_nodes_field (inject_context_metadata md c) =
       PStr (dumps_compact (J_list (map J_str (dc_visited_nodes c))))"
    by (rule get; simp add: field_defs)+
qed

lemma inject_complete:
  "list_ex (\<lambda>f. f \<in> fst ` set (inject_context_metadata md c)) reserved_fields"
  "missing_fields (inject_context_metadata md c) = []"
  by (simp_all add: missing_fields_def reserved_fields_def inject_context_metadata_def image_Un)

lemma parse_node_items_Inr:
  "list_all valid_node nodes \<Longrightarrow> parse_node_items (map J_str nodes) = Inr nodes"
  by (induction nodes) (simp_all add: require_non_empty_string_def valid_node_def)

lemma parse_visited_nodes_dumps:
  assumes "nodes \<noteq> []" and "length nodes \<le> max_visited_nodes" and "list_all valid_node nodes"
  shows "parse_visited_nodes (PStr (dumps_compact (J_list (map J_str nodes)))) = Inr nodes"
proof -
  have "json_plain (J_list (map J_str nodes))"
    using assms(3) by (auto simp: valid_node_def list_all_iff)
  then show ?thesis
    using assms json_loads_compact by (simp add: parse_visited_nodes_def parse_node_items_Inr)
qed

lemma parse_context_fields_inject:
  assumes "valid_context c"
  shows "parse_context_fields (inject_context_metadata md c) = Inr c"
proof -
  have "require_non_empty_string root_id_field max_root_id_length (Some (dc_root_id c)) = Inr (dc_root_id c)"
    using assms by (simp add: require_string_Inr valid_context_def)
  moreover have "parse_visited_nodes (PStr (dumps_compact (J_list (map J_str (dc_visited_nodes c)))))
      = Inr (dc_visited_nodes c)"
    using assms by (intro parse_visited_nodes_dumps) (auto simp: valid_context_def)
  ultimately show ?thesis
    using assms by (simp add: parse_context_fields_def inject_get require_positive_int_def
        valid_context_def context_version_def)
qed

text \<open>What a gateway makes of a well-formed context it receives.\<close>

definition narrowed :: "pystr \<Rightarrow> int \<Rightarrow> int \<Rightarrow> delegation_context \<Rightarrow> delegation_context" where
  "narrowed node max_depth max_tasks c =
     c\<lparr>dc_max_depth := min (dc_max_depth c) max_depth,
       dc_max_tasks_per_root := min (dc_max_tasks_per_root c) max_tasks,
       dc_visited_nodes := dc_visited_nodes c @ [node]\<rparr>"

lemma receive_injected:
  assumes "valid_context c"
  shows "parse_inbound_metadata node max_depth max_tasks (inject_context_metadata md c) =
    (case validate_node_id node of
       Inl e \<Rightarrow> Inl e
     | Inr _ \<Rightarrow>
         if node \<in> set (dc_visited_nodes c) then Inl (Context_loop node)
         else if dc_depth c > min (dc_max_depth c) max_depth
           then Inl (Context_too_deep (dc_depth c) (min (dc_max_depth c) max_depth))
         else if length (dc_visited_nodes c) \<ge> max_visited_nodes
           then Inl (Context_invalid (str ''Delegation visited nodes exceeds limit: ''
                       @ dec (int max_visited_nodes)))
         else Inr (strip_reserved md, Some (narrowed node max_depth max_tasks c)))"
proof (cases "validate_node_id node")
  case (Inl e)
  then show ?thesis
    by (simp add: parse_inbound_metadata_def inject_complete parse_context_fields_inject [OF assms])
next
  case (Inr n)
  then have "n = node" by (simp add: validate_node_Inr)
  then show ?thesis
    using Inr
    by (simp add: parse_inbound_metadata_def inject_complete parse_context_fields_inject [OF assms]
        Let_def narrowed_def Suc_le_eq not_le less_Suc_eq_le)
qed

subsection \<open>Accepted contexts\<close>

lemma parse_inbound_SomeD:
  assumes "parse_inbound_metadata node max_depth max_tasks md = Inr (clean, Some c)"
  shows "\<exists>i. parse_context_fields md = Inr i \<and> c = narrowed node max_depth max_tasks i
    \<and> node \<notin> set (dc_visited_nodes i) \<and> dc_depth c \<le> dc_max_depth c
    \<and> length (dc_visited_nodes c) \<le> max_visited_nodes \<and> clean = strip_reserved md
    \<and> \<not> blank node \<and> length node \<le> max_node_id_length"
proof -
  obtain i where i: "parse_context_fields md = Inr i"
    using assms by (auto simp: parse_inbound_metadata_def Let_def split: if_splits sum.splits)
  obtain n where n: "validate_node_id node = Inr n"
    using assms i by (auto simp: parse_inbound_metadata_def Let_def split: if_splits sum.splits)
  then have "n = node" "\<not> blank node" "length node \<le> max_node_id_length"
    by (auto simp: validate_node_Inr)
  then show ?thesis
    using assms i n
    by (auto simp: parse_inbound_metadata_def Let_def narrowed_def not_less split: if_splits)
qed

lemma parse_context_fields_Inr:
  assumes "parse_context_fields md = Inr i"
  shows "dict_get depth_field md = PInt (dc_depth i) \<and> 1 \<le> dc_depth i
    \<and> dict_get max_depth_field md = PInt (dc_max_depth i) \<and> 1 \<le> dc_max_depth i
    \<and> dict_get max_tasks_field md = PInt (dc_max_tasks_per_root i) \<and> 1 \<le> dc_max_tasks_per_root i
    \<and> dict_get root_id_field md = PStr (dc_root_id i)
    \<and> parse_visited_nodes (dict_get visited_nodes_field md) = Inr (dc_visited_nodes i)"
proof -
  have "as_str v = Some s \<Longrightarrow> v = PStr s" for v s
    by (cases v) auto
  then show ?thesis
    using assms
    by (auto simp: parse_context_fields_def require_int_Inr require_string_Inr split: sum.splits if_splits)
qed

text \<open>A task forwarded from gateway to gateway, one level deeper at each.\<close>

record hop =
  hop_node :: pystr
  hop_max_depth :: int
  hop_max_tasks :: int
  hop_metadata :: pydict

definition take_hop :: "hop \<Rightarrow> delegation_context \<Rightarrow> delegation_context option" where
  "take_hop h c =
     (case parse_inbound_metadata (hop_node h) (hop_max_depth h) (hop_max_tasks h)
             (inject_context_metadata (hop_metadata h) (build_child_context c (dc_depth c + 1))) of
        Inr (_, accepted) \<Rightarrow> accepted
      | Inl _ \<Rightarrow> None)"

fun take_hops :: "hop list \<Rightarrow> delegation_context \<Rightarrow> delegation_context option" where
  "take_hops [] c = Some c"
| "take_hops (h # hs) c = (case take_hop h c of None \<Rightarrow> None | Some c' \<Rightarrow> take_hops hs c')"

lemma take_hop_SomeD:
  assumes "valid_context c" and "take_hop h c = Some c'" and "scalar_text (hop_node h)"
    and "1 \<le> hop_max_depth h" and "1 \<le> hop_max_tasks h"
  shows "valid_context c' \<and> dc_visited_nodes c' = dc_visited_nodes c @ [hop_node h]
    \<and> hop_node h \<notin> set (dc_visited_nodes c)
    \<and> dc_depth c' = dc_depth c + 1 \<and> dc_depth c' \<le> dc_max_depth c'
    \<and> dc_max_depth c' \<le> dc_max_depth c \<and> dc_max_tasks_per_root c' \<le> dc_max_tasks_per_root c
    \<and> dc_max_depth c' \<le> hop_max_depth h \<and> dc_max_tasks_per_root c' \<le> hop_max_tasks h
    \<and> dc_root_id c' = dc_root_id c"
proof -
  let ?d = "build_child_context c (dc_depth c + 1)"
  have vd: "valid_context ?d"
    using assms(1) by (simp add: valid_context_def build_child_context_def)
  obtain cl where p: "parse_inbound_metadata (hop_node h) (hop_max_depth h) (hop_max_tasks h)
      (inject_context_metadata (hop_metadata h) ?d) = Inr (cl, Some c')"
    using assms(2) by (auto simp: take_hop_def split: sum.splits prod.splits)
  from parse_inbound_SomeD [OF p] parse_context_fields_inject [OF vd]
  show ?thesis
    using assms vd
    by (auto simp: narrowed_def build_child_context_def valid_context_def valid_node_def)
qed

lemma take_hops_SomeD:
  assumes "valid_context c" and "take_hops hs c = Some c'"
    and "\<forall>h \<in> set hs. scalar_text (hop_node h) \<and> 1 \<le> hop_max_depth h \<and> 1 \<le> hop_max_tasks h"
  shows "valid_context c' \<and> dc_visited_nodes c' = dc_visited_nodes c @ map hop_node hs
    \<and> (distinct (dc_visited_nodes c) \<longrightarrow> distinct (dc_visited_nodes c'))
    \<and> dc_depth c' = dc_depth c + int (length hs) \<and> (hs \<noteq> [] \<longrightarrow> dc_depth c' \<le> dc_max_depth c')
    \<and> dc_max_depth c' \<le> dc_max_depth c \<and> dc_max_tasks_per_root c' \<le> dc_max_tasks_per_root c
    \<and> (\<forall>h \<in> set hs. dc_max_depth c' \<le> hop_max_depth h \<and> dc_max_tasks_per_root c' \<le> hop_max_tasks h)
    \<and> dc_root_id c' = dc_root_id c"
  using assms
proof (induction hs arbitrary: c)
  case Nil
  then show ?case by simp
next
  case (Cons h hs)
  then obtain c1 where c1: "take_hop h c = Some c1" "take_hops hs c1 = Some c'"
    by (auto split: option.splits)
  have step: "valid_context c1" "dc_visited_nodes c1 = dc_visited_nodes c @ [hop_node h]"
    "hop_node h \<notin> set (dc_visited_nodes c)" "dc_depth c1 = dc_depth c + 1" "dc_depth c1 \<le> dc_max_depth c1"
    "dc_max_depth c1 \<le> dc_max_depth c" "dc_max_tasks_per_root c1 \<le> dc_max_tasks_per_root c"
    "dc_max_depth c1 \<le> hop_max_depth h" "dc_max_tasks_per_root c1 \<le> hop_max_tasks h"
    "dc_root_id c1 = dc_root_id c"
    using take_hop_SomeD [OF Cons.prems(1) c1(1)] Cons.prems(3) by simp_all
  have hs: "\<forall>h \<in> set hs. scalar_text (hop_node h) \<and> 1 \<le> hop_max_depth h \<and> 1 \<le> hop_max_tasks h"
    using Cons.prems(3) by simp
  have rest: "valid_context c'" "dc_visited_nodes c' = dc_visited_nodes c1 @ map hop_node hs"
    "distinct (dc_visited_nodes c1) \<longrightarrow> distinct (dc_visited_nodes c')"
    "dc_depth c' = dc_depth c1 + int (length hs)" "hs \<noteq> [] \<longrightarrow> dc_depth c' \<le> dc_max_depth c'"
    "dc_max_depth c' \<le> dc_max_depth c1" "dc_max_tasks_per_root c' \<le> dc_max_tasks_per_root c1"
    "\<forall>h \<in> set hs. dc_max_depth c' \<le> hop_max_depth h \<and> dc_max_tasks_per_root c' \<le> hop_max_tasks h"
    "dc_root_id c' = dc_root_id c1"
    using Cons.IH [OF step(1) c1(2) hs] by blast+
  have "dc_depth c' \<le> dc_max_depth c'"
    using step(5) rest(5) c1(2) by (cases hs) auto
  moreover have "distinct (dc_visited_nodes c')" if "distinct (dc_visited_nodes c)"
    using that step(2,3) rest(3) by simp
  moreover have "dc_max_depth c' \<le> hop_max_depth h" "dc_max_tasks_per_root c' \<le> hop_max_tasks h"
    "dc_max_depth c' \<le> dc_max_depth c" "dc_max_tasks_per_root c' \<le> dc_max_tasks_per_root c"
    using step(6-9) rest(6,7) by linarith+
  ultimately show ?case
    using step(2,4,10) rest(1,2,4,8,9) by simp
qed

subsection \<open>Properties\<close>

text \<open>
  C29. The wire round trip: what a gateway injects, the next one reads back.  For a
  well-formed context and a receiving node that is new to it, within depth and path limits,
  the parse succeeds, hides the reserved fields from the task, keeps the root and the depth,
  adds the receiving node to the path and takes the smaller of both budgets.
\<close>

theorem delegation_round_trip:
  assumes "valid_context c" and "\<not> blank node" and "length node \<le> max_node_id_length"
    and "node \<notin> set (dc_visited_nodes c)" and "length (dc_visited_nodes c) < max_visited_nodes"
    and "dc_depth c \<le> min (dc_max_depth c) local_depth"
  shows "parse_inbound_metadata node local_depth local_tasks (inject_context_metadata md c) =
    Inr (strip_reserved md,
      Some \<lparr>dc_root_id = dc_root_id c, dc_depth = dc_depth c,
            dc_max_depth = min (dc_max_depth c) local_depth,
            dc_max_tasks_per_root = min (dc_max_tasks_per_root c) local_tasks,
            dc_visited_nodes = dc_visited_nodes c @ [node]\<rparr>)"
proof -
  have "validate_node_id node = Inr node"
    using assms(2,3) by (simp add: validate_node_Inr)
  then show ?thesis
    using assms(4-6) by (simp add: receive_injected [OF assms(1)] narrowed_def not_less)
qed

text \<open>
  What one gateway accepts, whatever bytes arrive: the depth of a request with reserved fields is
  positive and within both limits, the budgets are at most those of the request and the local
  ones, the local node is recorded in the path and was not on it before, the path is bounded,
  and no reserved field reaches the task.
\<close>

theorem inbound_never_widened:
  assumes "parse_inbound_metadata node local_depth local_tasks md = Inr (clean, Some c)"
  shows "\<exists>depth max_depth max_tasks nodes.
    dict_get depth_field md = PInt depth \<and> dict_get max_depth_field md = PInt max_depth
    \<and> dict_get max_tasks_field md = PInt max_tasks
    \<and> parse_visited_nodes (dict_get visited_nodes_field md) = Inr nodes
    \<and> dc_depth c = depth \<and> 1 \<le> depth \<and> depth \<le> dc_max_depth c
    \<and> dc_max_depth c \<le> max_depth \<and> dc_max_depth c \<le> local_depth
    \<and> dc_max_tasks_per_root c \<le> max_tasks \<and> dc_max_tasks_per_root c \<le> local_tasks
    \<and> node \<notin> set nodes \<and> dc_visited_nodes c = nodes @ [node]
    \<and> length (dc_visited_nodes c) \<le> max_visited_nodes
    \<and> (\<forall>k v. (k, v) \<in> set clean \<longleftrightarrow> (k, v) \<in> set md \<and> k \<notin> set reserved_fields)"
proof -
  obtain i where i: "parse_context_fields md = Inr i" "c = narrowed node local_depth local_tasks i"
      "node \<notin> set (dc_visited_nodes i)" "dc_depth c \<le> dc_max_depth c"
      "length (dc_visited_nodes c) \<le> max_visited_nodes" "clean = strip_reserved md"
    using parse_inbound_SomeD [OF assms] by blast
  show ?thesis
    using parse_context_fields_Inr [OF i(1)] i(2-6)
    by (auto simp: narrowed_def strip_reserved_def)
qed

text \<open>
  C27. A delegation is never widened along a chain of gateways: along any accepted route, each
  gateway injecting the context of the next level and the next one parsing it, the root stays, the
  depth counts the hops and stays within the depth limit, the path is the sequence of the nodes
  passed with no node twice and within its bound, both limits are at most those at the start and
  at most the local ones of every gateway passed, and the number of hops is bounded by the depth
  that was left.
\<close>

theorem delegation_never_widened:
  assumes "valid_context c" and "distinct (dc_visited_nodes c)"
    and "\<forall>h \<in> set hops. scalar_text (hop_node h) \<and> 1 \<le> hop_max_depth h \<and> 1 \<le> hop_max_tasks h"
    and "take_hops hops c = Some c'" and "hops \<noteq> []"
  shows "dc_root_id c' = dc_root_id c
    \<and> dc_depth c' = dc_depth c + int (length hops) \<and> dc_depth c' \<le> dc_max_depth c'
    \<and> dc_visited_nodes c' = dc_visited_nodes c @ map hop_node hops \<and> distinct (dc_visited_nodes c')
    \<and> length (dc_visited_nodes c) + length hops \<le> max_visited_nodes
    \<and> dc_max_depth c' \<le> dc_max_depth c \<and> dc_max_tasks_per_root c' \<le> dc_max_tasks_per_root c
    \<and> (\<forall>h \<in> set hops. dc_max_depth c' \<le> hop_max_depth h \<and> dc_max_tasks_per_root c' \<le> hop_max_tasks h)
    \<and> int (length hops) \<le> dc_max_depth c - dc_depth c"
proof -
  note f = take_hops_SomeD [OF assms(1,4,3)]
  have "length (dc_visited_nodes c') \<le> max_visited_nodes" "dc_visited_nodes c' = dc_visited_nodes c @ map hop_node hops"
    using f by (auto simp: valid_context_def)
  then have "length (dc_visited_nodes c) + length hops \<le> max_visited_nodes"
    by simp
  moreover have "int (length hops) \<le> dc_max_depth c - dc_depth c"
    using f assms(5) by linarith
  ultimately show ?thesis
    using f assms(2,5) by blast
qed

subsection \<open>Witnesses\<close>

definition demo_context :: delegation_context where
  "demo_context = \<lparr>dc_root_id = str ''node-a:t1'', dc_depth = 1, dc_max_depth = 3,
     dc_max_tasks_per_root = 10, dc_visited_nodes = [str ''node-a'']\<rparr>"

lemmas limit_defs = max_root_id_length_def max_node_id_length_def max_visited_nodes_def

lemma demo_context_valid: "valid_context demo_context"
  by (simp add: demo_context_def valid_context_def valid_node_def blank_def py_space_def scalar_text_def
      limit_defs str_def)

lemma demo_node_b: "validate_node_id (str ''node-b'') = Inr (str ''node-b'')" "scalar_text (str ''node-b'')"
  by (simp_all add: validate_node_Inr blank_def py_space_def limit_defs scalar_text_def str_def)

lemma delegation_round_trip_witness:
  "parse_inbound_metadata (str ''node-b'') 5 4
     (inject_context_metadata [(str ''user'', PStr (str ''x''))] demo_context) =
   Inr ([(str ''user'', PStr (str ''x''))],
     Some \<lparr>dc_root_id = str ''node-a:t1'', dc_depth = 1, dc_max_depth = 3,
           dc_max_tasks_per_root = 4, dc_visited_nodes = [str ''node-a'', str ''node-b'']\<rparr>)"
proof -
  have f: "\<not> blank (str ''node-b'')" "length (str ''node-b'') \<le> max_node_id_length"
      "str ''node-b'' \<notin> set (dc_visited_nodes demo_context)"
      "length (dc_visited_nodes demo_context) < max_visited_nodes"
      "dc_depth demo_context \<le> min (dc_max_depth demo_context) 5"
    using demo_node_b(1) by (simp_all add: validate_node_Inr demo_context_def limit_defs)
  show ?thesis
    using delegation_round_trip [OF demo_context_valid f, of 4 "[(str ''user'', PStr (str ''x''))]"]
    by (simp add: demo_context_def strip_reserved_def field_defs)
qed

definition demo_hop :: hop where
  "demo_hop = \<lparr>hop_node = str ''node-b'', hop_max_depth = 5, hop_max_tasks = 4, hop_metadata = []\<rparr>"

lemma demo_hop_accepted:
  "take_hops [demo_hop] demo_context = Some (narrowed (str ''node-b'') 5 4 (build_child_context demo_context 2))"
proof -
  have "valid_context (build_child_context demo_context 2)"
    using demo_context_valid by (simp add: valid_context_def build_child_context_def)
  from receive_injected [OF this, of "str ''node-b''" 5 4 "[]"] demo_node_b(1) show ?thesis
    by (simp add: take_hop_def demo_hop_def demo_context_def build_child_context_def limit_defs)
qed

lemma delegation_never_widened_witness:
  "distinct (dc_visited_nodes (narrowed (str ''node-b'') 5 4 (build_child_context demo_context 2)))
    \<and> dc_max_tasks_per_root (narrowed (str ''node-b'') 5 4 (build_child_context demo_context 2)) \<le> 4"
proof -
  have "distinct (dc_visited_nodes demo_context)"
      "\<forall>h \<in> set [demo_hop]. scalar_text (hop_node h) \<and> 1 \<le> hop_max_depth h \<and> 1 \<le> hop_max_tasks h"
    using demo_node_b(2) by (simp_all add: demo_context_def demo_hop_def)
  from delegation_never_widened [OF demo_context_valid this demo_hop_accepted] show ?thesis
    by (auto simp: demo_hop_def)
qed

end
