(* ===== verification/Task_Store.thy ===== *)
theory Task_Store
  imports Task_Model Json_Parse "HOL-Library.Product_Lexorder"
begin

text \<open>
  The shared task database: the tables of \<open>storage/task_schema.py\<close> and the operations of
  \<open>task_repository.py\<close>, \<open>task_event_repository.py\<close>, \<open>settled_outbox.py\<close>,
  \<open>task_unit_of_work.py\<close>, \<open>task_review_uow.py\<close> and their facade \<open>task_store.py\<close>.

  A row of \<open>agent_tasks\<close> is the \<open>task_record\<close> its columns encode.  A transaction that raises
  is rolled back: its operation returns the database unchanged with the error.  The mailbox
  table is part of the database (both stores open the same file), so the code's test for its
  presence is true.  \<open>uuid5\<close> stands for \<open>uuid.uuid5(NAMESPACE_URL, _)\<close>, of which the code
  uses only that it is a function of the key; the clock and fresh tokens are arguments.
\<close>

datatype outbox_status = OB_pending | OB_claimed | OB_delivered | OB_suppressed

record outbox_row =
  ob_outbox_key :: pystr
  ob_message_id :: pystr
  ob_task_id :: pystr
  ob_run_count :: int
  ob_recipient_task_id :: "pystr option"
  ob_recipient_thread_id :: pystr
  ob_child_agent_name :: pystr
  ob_settled_status :: task_state
  ob_content :: pystr
  ob_status :: outbox_status
  ob_created_at :: int
  ob_claimed_at :: "int option"
  ob_claim_expires_at :: "int option"
  ob_claimed_by :: "pystr option"
  ob_claim_token :: "pystr option"
  ob_attempt_count :: int
  ob_last_error :: "pystr option"
  ob_delivered_at :: "int option"
  ob_retracted_at :: "int option"

datatype mail_status = MB_pending | MB_claimed | MB_delivered | MB_retracted

record mail_row =
  mb_message_id :: pystr
  mb_idempotency_key :: "pystr option"
  mb_recipient_task_id :: "pystr option"
  mb_recipient_thread_id :: pystr
  mb_sender_task_id :: "pystr option"
  mb_sender_agent_name :: "pystr option"
  mb_child_task_id :: "pystr option"
  mb_child_agent_name :: "pystr option"
  mb_child_run_count :: "int option"
  mb_settled_status :: "pystr option"
  mb_content :: pystr
  mb_trigger_run :: bool
  mb_status :: mail_status
  mb_created_at :: int
  mb_claimed_at :: "int option"
  mb_claim_expires_at :: "int option"
  mb_claimed_by :: "pystr option"
  mb_claim_token :: "pystr option"
  mb_delivered_at :: "int option"
  mb_wakeup_sequence :: int

record event_row =
  te_event_id :: int
  te_task_id :: pystr
  te_run_count :: int
  te_event_type :: pystr
  te_created_at :: int
  te_data_json :: pystr

record stored_event =
  se_event_id :: int
  se_task_id :: pystr
  se_run_count :: int
  se_event_type :: pystr
  se_created_at :: int
  se_data :: "(pystr \<times> json) list"

text \<open>The database: the last two numbers are the counters of AUTOINCREMENT and of review ingestion.\<close>

record task_db =
  db_tasks :: "task_record list"
  db_events :: "event_row list"
  db_reviews :: "review_record list"
  db_outbox :: "outbox_row list"
  db_mail :: "mail_row list"
  db_mail_sequence :: int
  db_migration :: "(pystr \<times> bool) option"
  db_last_event_id :: int
  db_last_review_sequence :: int

datatype store_error =
    Task_exists task_record
  | Root_budget_exceeded pystr int int
  | Store_value_error pystr
  | Store_key_error pystr
  | Store_runtime_error pystr
  | Store_type_error
  | Store_overflow
  | Store_integrity_error

text \<open>\<open>with database.transaction()\<close>: commit the result or roll back.\<close>

definition transact :: "task_db \<Rightarrow> store_error + task_db \<times> 'a \<Rightarrow> task_db \<times> (store_error + 'a)" where
  "transact db r = (case r of Inl e \<Rightarrow> (db, Inl e) | Inr (db', x) \<Rightarrow> (db', Inr x))"

subsection \<open>Tasks: \<open>task_repository.py\<close>\<close>

definition task_at :: "pystr \<Rightarrow> task_db \<Rightarrow> task_record option" where
  "task_at task_id db = row_at tk_task_id task_id (db_tasks db)"

definition insert_task_locked :: "task_record \<Rightarrow> task_db \<Rightarrow> store_error + task_db" where
  "insert_task_locked r db =
     (case task_at (tk_task_id r) db of
        Some _ \<Rightarrow> Inl Store_integrity_error
      | None \<Rightarrow> Inr (db\<lparr>db_tasks := db_tasks db @ [r]\<rparr>))"

definition update_task_locked :: "task_record \<Rightarrow> task_db \<Rightarrow> store_error + task_db" where
  "update_task_locked r db =
     (if rows_count (\<lambda>t. tk_task_id t = tk_task_id r) (db_tasks db) \<noteq> 1
      then Inl (Store_key_error (tk_task_id r))
      else Inr (db\<lparr>db_tasks := rows_update (\<lambda>t. tk_task_id t = tk_task_id r) (\<lambda>_. r) (db_tasks db)\<rparr>))"

definition ensure_new_identity :: "pystr \<Rightarrow> task_db \<Rightarrow> store_error + unit" where
  "ensure_new_identity task_id db =
     (case task_at task_id db of None \<Rightarrow> Inr () | Some r \<Rightarrow> Inl (Task_exists r))"

definition count_under_root :: "pystr \<Rightarrow> task_db \<Rightarrow> int" where
  "count_under_root root_id db = int (rows_count (\<lambda>t. tk_root_task_id t = root_id) (db_tasks db))"

definition stored_root_limits :: "pystr \<Rightarrow> task_db \<Rightarrow> int list" where
  "stored_root_limits root_id db =
     concat (map (\<lambda>t. case tk_delegation_max_tasks_per_root t of None \<Rightarrow> [] | Some m \<Rightarrow> [m])
       (filter (\<lambda>t. tk_root_task_id t = root_id) (db_tasks db)))"

text \<open>\<open>MIN\<close> over no row is NULL, for which the candidate's own limit stands.\<close>

definition enforce_root_budget :: "task_record \<Rightarrow> task_db \<Rightarrow> store_error + unit" where
  "enforce_root_budget r db =
     (case tk_delegation_max_tasks_per_root r of
        None \<Rightarrow> Inr ()
      | Some candidate \<Rightarrow>
          if candidate < 1
          then Inl (Store_value_error (str ''delegation_max_tasks_per_root must be at least 1''))
          else
            let stored = (case stored_root_limits (tk_root_task_id r) db of
                            [] \<Rightarrow> candidate | m # ms \<Rightarrow> foldl min m ms);
                limit = min candidate stored;
                current = count_under_root (tk_root_task_id r) db
            in if current \<ge> limit
               then Inl (Root_budget_exceeded (tk_root_task_id r) current limit)
               else Inr ())"

definition save_task :: "task_record \<Rightarrow> task_db \<Rightarrow> task_db \<times> (store_error + unit)" where
  "save_task r db = transact db
     (case task_at (tk_task_id r) db of
        None \<Rightarrow> and_then (enforce_root_budget r db)
                  (\<lambda>_. Inr (db\<lparr>db_tasks := db_tasks db @ [r]\<rparr>, ()))
      | Some _ \<Rightarrow> Inr (db\<lparr>db_tasks := rows_update (\<lambda>t. tk_task_id t = tk_task_id r) (\<lambda>_. r)
                            (db_tasks db)\<rparr>, ()))"

definition insert_task :: "task_record \<Rightarrow> task_db \<Rightarrow> task_db \<times> (store_error + unit)" where
  "insert_task r db = transact db
     (and_then (ensure_new_identity (tk_task_id r) db) (\<lambda>_.
      and_then (enforce_root_budget r db) (\<lambda>_.
      and_then (insert_task_locked r db) (\<lambda>db'. Inr (db', ())))))"

definition update_task :: "task_record \<Rightarrow> task_db \<Rightarrow> task_db \<times> (store_error + unit)" where
  "update_task r db = transact db (and_then (update_task_locked r db) (\<lambda>db'. Inr (db', ())))"

definition task_by_parent_thread :: "pystr \<Rightarrow> pystr \<Rightarrow> task_db \<Rightarrow> task_record option" where
  "task_by_parent_thread task_id parent_thread_id db =
     find (\<lambda>t. tk_task_id t = task_id \<and> tk_parent_thread_id t = Some parent_thread_id) (db_tasks db)"

definition tasks_by_parent_thread :: "pystr \<Rightarrow> task_db \<Rightarrow> task_record list" where
  "tasks_by_parent_thread parent_thread_id db =
     filter (\<lambda>t. tk_parent_thread_id t = Some parent_thread_id) (db_tasks db)"

subsection \<open>Events: \<open>task_event_repository.py\<close>\<close>

text \<open>Event data is a JSON object already, so encoding it cannot fail.\<close>

definition serialize_event_data :: "(pystr \<times> json) list \<Rightarrow> pystr" where
  "serialize_event_data data = dumps_compact_sorted (J_obj data)"

definition append_event_locked ::
  "pystr \<Rightarrow> int \<Rightarrow> pystr \<Rightarrow> pystr \<Rightarrow> int \<Rightarrow> task_db \<Rightarrow> task_db \<times> int" where
  "append_event_locked task_id run_count event_type encoded created_at db =
     (let event_id = db_last_event_id db + 1
      in (db\<lparr>db_last_event_id := event_id,
             db_events := db_events db @
               [\<lparr>te_event_id = event_id, te_task_id = task_id, te_run_count = run_count,
                 te_event_type = event_type, te_created_at = created_at,
                 te_data_json = encoded\<rparr>]\<rparr>,
          event_id))"

definition row_to_event :: "event_row \<Rightarrow> store_error + stored_event" where
  "row_to_event r =
     (case json_loads (te_data_json r) of
        Some (J_obj data) \<Rightarrow>
          Inr \<lparr>se_event_id = te_event_id r, se_task_id = te_task_id r, se_run_count = te_run_count r,
               se_event_type = te_event_type r, se_created_at = te_created_at r, se_data = data\<rparr>
      | _ \<Rightarrow> Inl (Store_value_error (str ''Stored Task event data is not a JSON object'')))"

fun rows_to_events :: "event_row list \<Rightarrow> store_error + stored_event list" where
  "rows_to_events [] = Inr []"
| "rows_to_events (r # rs) =
     and_then (row_to_event r) (\<lambda>e. and_then (rows_to_events rs) (\<lambda>es. Inr (e # es)))"

definition list_events ::
  "pystr \<Rightarrow> int \<Rightarrow> int \<Rightarrow> int \<Rightarrow> task_db \<Rightarrow> store_error + stored_event list" where
  "list_events task_id run_count after_event_id limit db =
     (if limit \<le> 0 then Inl (Store_value_error (str ''Task event limit must be positive''))
      else rows_to_events (take (nat limit) (sort_key te_event_id
             (filter (\<lambda>r. te_task_id r = task_id \<and> te_run_count r = run_count
                        \<and> te_event_id r > after_event_id) (db_events db)))))"

definition get_event :: "int \<Rightarrow> task_db \<Rightarrow> store_error + stored_event option" where
  "get_event event_id db =
     (case row_at te_event_id event_id (db_events db) of
        None \<Rightarrow> Inr None
      | Some r \<Rightarrow> and_then (row_to_event r) (\<lambda>e. Inr (Some e)))"

definition latest_event :: "pystr \<Rightarrow> int \<Rightarrow> task_db \<Rightarrow> event_row option" where
  "latest_event task_id run_count db =
     (case rev (sort_key te_event_id (filter (\<lambda>r. te_task_id r = task_id \<and> te_run_count r = run_count)
              (db_events db))) of
        [] \<Rightarrow> None | r # _ \<Rightarrow> Some r)"

text \<open>The event an append returns: its data is what the encoded text decodes to.\<close>

definition appended_event ::
  "pystr \<Rightarrow> int \<Rightarrow> pystr \<Rightarrow> (pystr \<times> json) list \<Rightarrow> int \<Rightarrow> task_db \<Rightarrow> store_error + task_db \<times> stored_event"
where
  "appended_event task_id run_count event_type data created_at db =
     (let (db', event_id) = append_event_locked task_id run_count event_type
              (serialize_event_data data) created_at db
      in and_then (row_to_event
           \<lparr>te_event_id = event_id, te_task_id = task_id, te_run_count = run_count,
            te_event_type = event_type, te_created_at = created_at,
            te_data_json = serialize_event_data data\<rparr>) (\<lambda>e. Inr (db', e)))"

subsection \<open>The settled outbox: \<open>settled_outbox.py\<close>\<close>

record outbox_intent =
  so_outbox_key :: pystr
  so_message_id :: pystr
  so_task_id :: pystr
  so_run_count :: int
  so_recipient_task_id :: "pystr option"
  so_recipient_thread_id :: pystr
  so_child_agent_name :: pystr
  so_settled_status :: task_state
  so_content :: pystr
  so_created_at :: int
  so_claim_token :: "pystr option"

definition settled_outbox_key :: "pystr \<Rightarrow> pystr \<Rightarrow> int \<Rightarrow> pystr" where
  "settled_outbox_key recipient_thread_id task_id run_count =
     str ''settled:'' @ recipient_thread_id @ str '':'' @ task_id @ str '':'' @ dec run_count"

text \<open>\<open>record.result or record.error or f"..."\<close>.\<close>

definition settlement_content :: "task_record \<Rightarrow> pystr" where
  "settlement_content r =
     (case tk_result r of
        Some (c # cs) \<Rightarrow> c # cs
      | _ \<Rightarrow> (case tk_error r of
                Some (c # cs) \<Rightarrow> c # cs
              | _ \<Rightarrow> str ''Task run ended with state='' @ task_state_name (tk_state r)))"

definition build_settled_outbox_intent ::
  "(pystr \<Rightarrow> pystr) \<Rightarrow> task_record \<Rightarrow> outbox_intent option" where
  "build_settled_outbox_intent uuid5 r =
     (case tk_parent_thread_id r of
        None \<Rightarrow> None
      | Some thread_id \<Rightarrow>
          if tk_state r \<notin> set settled_task_states \<or> tk_mailbox_suppressed r
             \<or> tk_mailbox_delivered r \<or> tk_external_operation r \<noteq> None
             \<or> tk_external_outcome_uncertain r
          then None
          else
            let key = settled_outbox_key thread_id (tk_task_id r) (tk_run_count r)
            in Some \<lparr>so_outbox_key = key, so_message_id = uuid5 key, so_task_id = tk_task_id r,
                     so_run_count = tk_run_count r, so_recipient_task_id = tk_parent_task_id r,
                     so_recipient_thread_id = thread_id, so_child_agent_name = tk_agent_name r,
                     so_settled_status = tk_state r, so_content = settlement_content r,
                     so_created_at = tk_updated_at r, so_claim_token = None\<rparr>)"

definition intent_row :: "outbox_intent \<Rightarrow> outbox_row" where
  "intent_row i =
     \<lparr>ob_outbox_key = so_outbox_key i, ob_message_id = so_message_id i, ob_task_id = so_task_id i,
      ob_run_count = so_run_count i, ob_recipient_task_id = so_recipient_task_id i,
      ob_recipient_thread_id = so_recipient_thread_id i,
      ob_child_agent_name = so_child_agent_name i, ob_settled_status = so_settled_status i,
      ob_content = so_content i, ob_status = OB_pending, ob_created_at = so_created_at i,
      ob_claimed_at = None, ob_claim_expires_at = None, ob_claimed_by = None,
      ob_claim_token = None, ob_attempt_count = 0, ob_last_error = None,
      ob_delivered_at = None, ob_retracted_at = None\<rparr>"

text \<open>The rows a new intent collides with: PRIMARY KEY, UNIQUE message id, UNIQUE task run.\<close>

definition same_outbox_identity :: "outbox_intent \<Rightarrow> outbox_row \<Rightarrow> bool" where
  "same_outbox_identity i r \<longleftrightarrow>
     ob_outbox_key r = so_outbox_key i \<or> ob_message_id r = so_message_id i
     \<or> ob_task_id r = so_task_id i \<and> ob_run_count r = so_run_count i"

definition row_matches_intent :: "outbox_intent \<Rightarrow> outbox_row \<Rightarrow> bool" where
  "row_matches_intent i r \<longleftrightarrow>
     ob_outbox_key r = so_outbox_key i \<and> ob_message_id r = so_message_id i
     \<and> ob_task_id r = so_task_id i \<and> ob_run_count r = so_run_count i
     \<and> ob_recipient_task_id r = so_recipient_task_id i
     \<and> ob_recipient_thread_id r = so_recipient_thread_id i
     \<and> ob_child_agent_name r = so_child_agent_name i
     \<and> ob_settled_status r = so_settled_status i \<and> ob_content r = so_content i"

text \<open>
  \<open>INSERT OR IGNORE\<close> skips a colliding row; an inserted one must satisfy the foreign key.
\<close>

definition insert_outbox_locked :: "outbox_intent \<Rightarrow> task_db \<Rightarrow> store_error + task_db \<times> bool" where
  "insert_outbox_locked i db =
     (let collides = list_ex (same_outbox_identity i) (db_outbox db);
          db' = (if collides then db else db\<lparr>db_outbox := db_outbox db @ [intent_row i]\<rparr>);
          rows = filter (same_outbox_identity i) (db_outbox db')
      in if \<not> collides \<and> task_at (so_task_id i) db = None then Inl Store_integrity_error
         else if length rows \<noteq> 1 \<or> \<not> row_matches_intent i (hd rows)
         then Inl (Store_runtime_error
                (str ''Settled outbox identity conflicts with the existing Task run intent''))
         else Inr (db', \<not> collides))"

definition release_outbox_row :: "outbox_status \<Rightarrow> outbox_row \<Rightarrow> outbox_row" where
  "release_outbox_row status r =
     r\<lparr>ob_status := status, ob_claimed_by := None, ob_claim_token := None,
       ob_claimed_at := None, ob_claim_expires_at := None\<rparr>"

definition uncertain_effect :: "task_record \<Rightarrow> bool" where
  "uncertain_effect t \<longleftrightarrow> tk_external_operation t \<noteq> None \<and> tk_external_outcome_uncertain t"

definition settled_mail :: "outbox_row \<Rightarrow> mail_row \<Rightarrow> bool" where
  "settled_mail r m \<longleftrightarrow>
     mb_idempotency_key m = Some (ob_outbox_key r) \<or> mb_message_id m = ob_message_id r"

definition set_delivered_flag :: "pystr \<Rightarrow> int \<Rightarrow> bool \<Rightarrow> task_db \<Rightarrow> task_db" where
  "set_delivered_flag task_id run_count flag db =
     db\<lparr>db_tasks := rows_update (\<lambda>t. tk_task_id t = task_id \<and> tk_run_count t = run_count)
          (\<lambda>t. t\<lparr>tk_mailbox_delivered := flag\<rparr>) (db_tasks db)\<rparr>"

text \<open>One row of the loop of \<open>discard_invalid_uncertain_locked\<close>: delivered mail is final.\<close>

definition discard_uncertain_row :: "outbox_row \<Rightarrow> task_db \<Rightarrow> task_db \<times> bool" where
  "discard_uncertain_row r db =
     (if list_ex (\<lambda>m. settled_mail r m \<and> mb_status m = MB_delivered) (db_mail db)
      then (set_delivered_flag (ob_task_id r) (ob_run_count r) True
              (db\<lparr>db_outbox := rows_update (\<lambda>x. ob_outbox_key x = ob_outbox_key r)
                    (release_outbox_row OB_delivered) (db_outbox db)\<rparr>), True)
      else (set_delivered_flag (ob_task_id r) (ob_run_count r) False
              (db\<lparr>db_mail := rows_delete (\<lambda>m. settled_mail r m \<and> mb_status m \<noteq> MB_delivered) (db_mail db),
                  db_outbox := rows_delete (\<lambda>x. ob_outbox_key x = ob_outbox_key r) (db_outbox db)\<rparr>), False))"

fun discard_uncertain_loop ::
  "outbox_row list \<Rightarrow> task_db \<Rightarrow> task_db \<times> ((pystr \<times> int) \<times> bool) list" where
  "discard_uncertain_loop [] db = (db, [])"
| "discard_uncertain_loop (r # rs) db =
     (let (db', delivered) = discard_uncertain_row r db;
          (db'', results) = discard_uncertain_loop rs db'
      in (db'', ((ob_task_id r, ob_run_count r), delivered) # results))"

definition invalid_uncertain_rows :: "pystr option \<Rightarrow> task_db \<Rightarrow> outbox_row list" where
  "invalid_uncertain_rows task_id db =
     filter (\<lambda>r. case task_at (ob_task_id r) db of
               None \<Rightarrow> False
             | Some t \<Rightarrow> uncertain_effect t \<and> ob_run_count r = tk_run_count t
                          \<and> (case task_id of None \<Rightarrow> True | Some k \<Rightarrow> tk_task_id t = k))
       (db_outbox db)"

definition discard_invalid_uncertain ::
  "pystr option \<Rightarrow> task_db \<Rightarrow> task_db \<times> ((pystr \<times> int) \<times> bool) list" where
  "discard_invalid_uncertain task_id db =
     discard_uncertain_loop (invalid_uncertain_rows task_id db) db"

definition suppress_for_task_run :: "pystr \<Rightarrow> int \<Rightarrow> task_db \<Rightarrow> task_db" where
  "suppress_for_task_run task_id run_count db =
     db\<lparr>db_outbox := rows_update
          (\<lambda>r. ob_task_id r = task_id \<and> ob_run_count r = run_count
             \<and> ob_status r \<in> {OB_pending, OB_claimed, OB_delivered})
          (\<lambda>r. (release_outbox_row OB_suppressed r)\<lparr>ob_retracted_at := None\<rparr>) (db_outbox db)\<rparr>"

definition retract_mail_row :: "mail_row \<Rightarrow> mail_row" where
  "retract_mail_row m =
     m\<lparr>mb_status := MB_retracted, mb_claimed_at := None, mb_claim_expires_at := None,
       mb_claimed_by := None, mb_claim_token := None\<rparr>"

definition retract_mailbox_for_task_run :: "pystr \<Rightarrow> int \<Rightarrow> int \<Rightarrow> task_db \<Rightarrow> task_db" where
  "retract_mailbox_for_task_run task_id run_count now db =
     db\<lparr>db_mail := rows_update
          (\<lambda>m. mb_child_task_id m = Some task_id \<and> mb_child_run_count m = Some run_count
             \<and> mb_status m \<in> {MB_pending, MB_claimed}) retract_mail_row (db_mail db),
        db_outbox := rows_update
          (\<lambda>r. ob_task_id r = task_id \<and> ob_run_count r = run_count \<and> ob_status r = OB_suppressed)
          (\<lambda>r. r\<lparr>ob_retracted_at := (case ob_retracted_at r of None \<Rightarrow> Some now | Some t \<Rightarrow> Some t)\<rparr>)
          (db_outbox db)\<rparr>"

definition confirm_delivered_for_task_run :: "pystr \<Rightarrow> int \<Rightarrow> task_db \<Rightarrow> task_db" where
  "confirm_delivered_for_task_run task_id run_count db =
     db\<lparr>db_outbox := rows_update
          (\<lambda>r. ob_task_id r = task_id \<and> ob_run_count r = run_count
             \<and> ob_status r \<in> {OB_pending, OB_claimed})
          (release_outbox_row OB_delivered) (db_outbox db)\<rparr>"

text \<open>One bounded page of the legacy migration.\<close>

fun reconcile_page ::
  "(pystr \<Rightarrow> pystr) \<Rightarrow> int \<Rightarrow> task_record list \<Rightarrow> task_db \<Rightarrow> nat \<Rightarrow> store_error + task_db \<times> nat" where
  "reconcile_page uuid5 now [] db inserted = Inr (db, inserted)"
| "reconcile_page uuid5 now (r # rs) db inserted =
     (if tk_mailbox_suppressed r then
        reconcile_page uuid5 now rs
          (retract_mailbox_for_task_run (tk_task_id r) (tk_run_count r) now
             (suppress_for_task_run (tk_task_id r) (tk_run_count r) db)) inserted
      else if tk_mailbox_delivered r then
        reconcile_page uuid5 now rs
          (confirm_delivered_for_task_run (tk_task_id r) (tk_run_count r) db) inserted
      else
        (case build_settled_outbox_intent uuid5 r of
           None \<Rightarrow> reconcile_page uuid5 now rs db inserted
         | Some i \<Rightarrow>
             and_then (insert_outbox_locked i db) (\<lambda>(db', new).
               reconcile_page uuid5 now rs db' (if new then Suc inserted else inserted))))"

definition reconcile_legacy_settlements ::
  "(pystr \<Rightarrow> pystr) \<Rightarrow> int \<Rightarrow> int \<Rightarrow> task_db \<Rightarrow> task_db \<times> (store_error + nat \<times> bool)" where
  "reconcile_legacy_settlements uuid5 limit now db =
     (if limit < 1
      then (db, Inl (Store_value_error (str ''Legacy settlement migration limit must be positive'')))
      else transact db
        (if (case db_migration db of None \<Rightarrow> False | Some (_, completed) \<Rightarrow> completed)
         then Inr (db, 0, True)
         else
           let cursor = (case db_migration db of None \<Rightarrow> [] | Some (c, _) \<Rightarrow> c);
               rows = take (nat limit) (sort_key tk_task_id
                        (filter (\<lambda>t. cursor < tk_task_id t) (db_tasks db)))
           in and_then (reconcile_page uuid5 now rows db 0) (\<lambda>(db', inserted).
                let completed = int (length rows) < limit;
                    next_cursor = (if rows = [] then cursor else tk_task_id (last rows))
                in Inr (db'\<lparr>db_migration := Some (next_cursor, completed)\<rparr>, inserted, completed))))"

definition row_to_intent :: "outbox_row \<Rightarrow> outbox_intent" where
  "row_to_intent r =
     \<lparr>so_outbox_key = ob_outbox_key r, so_message_id = ob_message_id r, so_task_id = ob_task_id r,
      so_run_count = ob_run_count r, so_recipient_task_id = ob_recipient_task_id r,
      so_recipient_thread_id = ob_recipient_thread_id r,
      so_child_agent_name = ob_child_agent_name r, so_settled_status = ob_settled_status r,
      so_content = ob_content r, so_created_at = ob_created_at r,
      so_claim_token = ob_claim_token r\<rparr>"

definition outbox_order :: "outbox_row \<Rightarrow> int \<times> pystr" where
  "outbox_order r = (ob_created_at r, ob_outbox_key r)"

definition expired :: "int \<Rightarrow> int option \<Rightarrow> bool" where
  "expired now expires_at = (case expires_at of None \<Rightarrow> False | Some t \<Rightarrow> t \<le> now)"

definition run_consumed :: "task_db \<Rightarrow> outbox_row \<Rightarrow> bool" where
  "run_consumed db r \<longleftrightarrow>
     list_ex (\<lambda>t. tk_task_id t = ob_task_id r \<and> tk_run_count t = ob_run_count r
        \<and> (tk_mailbox_suppressed t \<or> tk_mailbox_delivered t)) (db_tasks db)"

text \<open>\<open>lease\<close> is the lease in microseconds; \<open>owner\<close> is the repository's \<open>_owner_id\<close>.\<close>

definition claim_pending ::
  "pystr \<Rightarrow> pystr \<Rightarrow> int \<Rightarrow> int \<Rightarrow> int \<Rightarrow> task_db \<Rightarrow> task_db \<times> (store_error + outbox_intent list)" where
  "claim_pending owner claim_token limit lease now db =
     (if limit < 1 then (db, Inl (Store_value_error (str ''Settled outbox claim limit must be positive'')))
      else if lease \<le> 0 then (db, Inl (Store_value_error (str ''Settled outbox lease must be positive'')))
      else
        let db1 = fst (discard_invalid_uncertain None db);
            db2 = db1\<lparr>db_outbox := rows_update
                    (\<lambda>r. ob_status r = OB_claimed \<and> expired now (ob_claim_expires_at r))
                    (release_outbox_row OB_pending) (db_outbox db1)\<rparr>;
            keys = map ob_outbox_key (take (nat limit) (sort_key outbox_order
                     (filter (\<lambda>r. ob_status r = OB_pending \<and> \<not> run_consumed db2 r) (db_outbox db2))));
            db3 = db2\<lparr>db_outbox := rows_update
                    (\<lambda>r. ob_outbox_key r \<in> set keys \<and> ob_status r = OB_pending)
                    (\<lambda>r. r\<lparr>ob_status := OB_claimed, ob_claimed_by := Some owner,
                            ob_claim_token := Some claim_token, ob_claimed_at := Some now,
                            ob_claim_expires_at := Some (now + lease),
                            ob_attempt_count := ob_attempt_count r + 1, ob_last_error := None\<rparr>)
                    (db_outbox db2)\<rparr>;
            claimed = sort_key outbox_order
                (filter (\<lambda>r. ob_claimed_by r = Some owner \<and> ob_claim_token r = Some claim_token
                          \<and> ob_status r = OB_claimed) (db_outbox db3))
        in (db3, Inr (map row_to_intent claimed)))"

definition release_claim :: "pystr \<Rightarrow> outbox_intent \<Rightarrow> pystr \<Rightarrow> task_db \<Rightarrow> task_db \<times> bool" where
  "release_claim owner i error db =
     (case so_claim_token i of
        None \<Rightarrow> (db, False)
      | Some token \<Rightarrow>
          let P = (\<lambda>r. ob_outbox_key r = so_outbox_key i \<and> ob_status r = OB_claimed
                     \<and> ob_claimed_by r = Some owner \<and> ob_claim_token r = Some token)
          in (db\<lparr>db_outbox := rows_update P
                   (\<lambda>r. (release_outbox_row OB_pending r)\<lparr>ob_last_error := Some (take 2000 error)\<rparr>)
                   (db_outbox db)\<rparr>,
              rows_count P (db_outbox db) = 1))"

text \<open>\<open>LIMIT\<close> with a negative number is no limit.\<close>

definition sql_limit :: "int \<Rightarrow> 'r list \<Rightarrow> 'r list" where
  "sql_limit limit rs = (if limit < 0 then rs else take (nat limit) rs)"

definition list_suppressed_unretracted :: "int \<Rightarrow> task_db \<Rightarrow> outbox_intent list" where
  "list_suppressed_unretracted limit db =
     map (\<lambda>r. (row_to_intent r)\<lparr>so_claim_token := None\<rparr>)
       (sql_limit limit (sort_key outbox_order
         (filter (\<lambda>r. ob_status r = OB_suppressed \<and> ob_retracted_at r = None) (db_outbox db))))"

subsection \<open>Units of work: \<open>task_unit_of_work.py\<close>, \<open>task_review_uow.py\<close>, \<open>task_store.py\<close>\<close>

record event_spec =
  es_event_type :: pystr
  es_data :: "(pystr \<times> json) list"
  es_created_at :: int

definition insert_intent_opt :: "outbox_intent option \<Rightarrow> task_db \<Rightarrow> store_error + task_db" where
  "insert_intent_opt i db =
     (case i of None \<Rightarrow> Inr db
      | Some x \<Rightarrow> and_then (insert_outbox_locked x db) (\<lambda>(db', _). Inr db'))"

definition insert_task_with_event ::
  "task_record \<Rightarrow> event_spec \<Rightarrow> task_db \<Rightarrow> task_db \<times> (store_error + stored_event)" where
  "insert_task_with_event r e db = transact db
     (and_then (ensure_new_identity (tk_task_id r) db) (\<lambda>_.
      and_then (enforce_root_budget r db) (\<lambda>_.
      and_then (insert_task_locked r db) (\<lambda>db1.
        appended_event (tk_task_id r) (tk_run_count r) (es_event_type e) (es_data e)
          (es_created_at e) db1))))"

definition update_task_with_event ::
  "task_record \<Rightarrow> event_spec \<Rightarrow> outbox_intent option \<Rightarrow> task_db \<Rightarrow> task_db \<times> (store_error + stored_event)"
where
  "update_task_with_event r e intent db = transact db
     (and_then (update_task_locked r db) (\<lambda>db1.
      and_then (appended_event (tk_task_id r) (tk_run_count r) (es_event_type e) (es_data e)
          (es_created_at e) db1) (\<lambda>(db2, ev).
      and_then (insert_intent_opt intent db2) (\<lambda>db3. Inr (db3, ev)))))"

definition append_task_event ::
  "pystr \<Rightarrow> int \<Rightarrow> event_spec \<Rightarrow> task_db \<Rightarrow> task_db \<times> (store_error + stored_event)" where
  "append_task_event task_id run_count e db = transact db
     (if task_at task_id db = None then Inl (Store_key_error task_id)
      else appended_event task_id run_count (es_event_type e) (es_data e) (es_created_at e) db)"

text \<open>\<open>build_anchor\<close> is a callback of the caller.\<close>

definition get_task_with_event_anchor ::
  "(task_record \<Rightarrow> event_spec) \<Rightarrow> pystr \<Rightarrow> int \<Rightarrow> task_db \<Rightarrow>
   task_db \<times> (store_error + task_record \<times> stored_event \<times> bool)" where
  "get_task_with_event_anchor build_anchor task_id run_count db = transact db
     (case task_at task_id db of
        None \<Rightarrow> Inl (Store_key_error task_id)
      | Some r \<Rightarrow>
          if tk_run_count r \<noteq> run_count
          then Inl (Store_value_error (str ''Task run mismatch: expected '' @ dec run_count
                      @ str '', current '' @ dec (tk_run_count r)))
          else
            (case latest_event task_id run_count db of
               Some row \<Rightarrow> and_then (row_to_event row) (\<lambda>ev. Inr (db, r, ev, False))
             | None \<Rightarrow>
                 let e = build_anchor r
                 in and_then (appended_event task_id run_count (es_event_type e) (es_data e)
                      (es_created_at e) db) (\<lambda>(db', ev). Inr (db', r, ev, True))))"

text \<open>
  \<open>_replace_review_locked\<close>: a review that keeps its id keeps its place in the ingest order, a
  new one takes the next number (of 63 bits).  A review id of another task violates the
  PRIMARY KEY.
\<close>

definition ingest_review :: "review_record \<Rightarrow> task_db \<Rightarrow> store_error + task_db \<times> int \<times> int option" where
  "ingest_review p db =
     (let n = db_last_review_sequence db + 1
      in if n > 2 ^ 63 - 1 then Inl Store_overflow
         else Inr (db\<lparr>db_last_review_sequence := n\<rparr>, n,
                   case rv_cursor_order_updated_at p of
                     None \<Rightarrow> Some (rv_updated_at p) | Some t \<Rightarrow> Some t))"

definition replace_review_locked ::
  "pystr \<Rightarrow> review_record option \<Rightarrow> task_db \<Rightarrow> store_error + task_db" where
  "replace_review_locked task_id review db =
     (case review of
        None \<Rightarrow> Inr (db\<lparr>db_reviews := rows_delete (\<lambda>v. rv_task_id v = task_id) (db_reviews db)\<rparr>)
      | Some p \<Rightarrow>
          and_then
            (case row_at rv_task_id task_id (db_reviews db) of
               Some old \<Rightarrow>
                 if rv_review_id old = rv_review_id p
                 then Inr (db, rv_ingest_sequence old, rv_cursor_order_updated_at old)
                 else ingest_review p db
             | None \<Rightarrow> ingest_review p db)
            (\<lambda>(db1, sequence, cursor).
               let others = rows_delete (\<lambda>v. rv_task_id v = task_id) (db_reviews db1)
               in if list_ex (\<lambda>v. rv_review_id v = rv_review_id p \<or> rv_ingest_sequence v = sequence) others
                  then Inl Store_integrity_error
                  else Inr (db1\<lparr>db_reviews := others @
                         [p\<lparr>rv_ingest_sequence := sequence, rv_cursor_order_updated_at := cursor\<rparr>]\<rparr>)))"

fun append_all_events ::
  "(task_record \<times> event_spec) list \<Rightarrow> task_db \<Rightarrow> store_error + task_db \<times> stored_event list" where
  "append_all_events [] db = Inr (db, [])"
| "append_all_events ((r, e) # es) db =
     and_then (appended_event (tk_task_id r) (tk_run_count r) (es_event_type e) (es_data e)
         (es_created_at e) db) (\<lambda>(db1, ev).
     and_then (append_all_events es db1) (\<lambda>(db2, evs). Inr (db2, ev # evs)))"

definition update_review_transition ::
  "task_record \<Rightarrow> review_record option \<Rightarrow> task_record option \<Rightarrow> (task_record \<times> event_spec) list \<Rightarrow>
   outbox_intent option \<Rightarrow> task_db \<Rightarrow> task_db \<times> (store_error + stored_event list)" where
  "update_review_transition r review root_record events intent db =
     (if (case review of None \<Rightarrow> False | Some p \<Rightarrow> rv_task_id p \<noteq> tk_task_id r)
      then (db, Inl (Store_value_error (str ''Pending review owner does not match Task record'')))
      else transact db
        (and_then (update_task_locked r db) (\<lambda>db1.
         and_then (replace_review_locked (tk_task_id r) review db1) (\<lambda>db2.
         and_then (case root_record of
                     None \<Rightarrow> Inr db2
                   | Some x \<Rightarrow> if tk_task_id x \<noteq> tk_task_id r then update_task_locked x db2 else Inr db2)
           (\<lambda>db3.
         and_then (append_all_events events db3) (\<lambda>(db4, evs).
         and_then (insert_intent_opt intent db4) (\<lambda>db5. Inr (db5, evs))))))))"

definition get_pending_review :: "pystr \<Rightarrow> task_db \<Rightarrow> review_record option" where
  "get_pending_review review_id db = row_at rv_review_id review_id (db_reviews db)"

definition list_pending_reviews :: "pystr option \<Rightarrow> pystr option \<Rightarrow> task_db \<Rightarrow> review_record list" where
  "list_pending_reviews root_task_id task_id db =
     sort_key (\<lambda>v. (rv_ingest_sequence v, rv_review_id v))
       (filter (\<lambda>v. (root_task_id = None \<or> root_task_id = Some (rv_root_task_id v))
                  \<and> (task_id = None \<or> task_id = Some (rv_task_id v))) (db_reviews db))"

text \<open>The record is the caller's object, whose delivered flag the last step may correct.\<close>

definition update_uncertain_external_operation ::
  "task_record \<Rightarrow> task_db \<Rightarrow> task_db \<times> (store_error + task_record)" where
  "update_uncertain_external_operation r db = transact db
     (and_then (update_task_locked r db) (\<lambda>db1.
        let (db2, outcomes) = discard_invalid_uncertain (Some (tk_task_id r)) db1
        in case map_of (rev outcomes) (tk_task_id r, tk_run_count r) of
             None \<Rightarrow> Inr (db2, r)
           | Some delivered \<Rightarrow>
               if tk_mailbox_delivered r \<noteq> delivered then
                 and_then (update_task_locked (r\<lparr>tk_mailbox_delivered := delivered\<rparr>) db2)
                   (\<lambda>db3. Inr (db3, r\<lparr>tk_mailbox_delivered := delivered\<rparr>))
               else Inr (db2, r)))"

definition update_rejected_external_operation ::
  "task_record \<Rightarrow> outbox_intent option \<Rightarrow> task_db \<Rightarrow> task_db \<times> (store_error + unit)" where
  "update_rejected_external_operation r intent db = transact db
     (and_then (update_task_locked r db) (\<lambda>db1.
      and_then (insert_intent_opt intent db1) (\<lambda>db2. Inr (db2, ()))))"

definition suppress_settled_delivery ::
  "task_record \<Rightarrow> int \<Rightarrow> task_db \<Rightarrow> task_db \<times> (store_error + unit)" where
  "suppress_settled_delivery r now db = transact db
     (and_then (update_task_locked r db) (\<lambda>db1.
        Inr (retract_mailbox_for_task_run (tk_task_id r) (tk_run_count r) now
               (suppress_for_task_run (tk_task_id r) (tk_run_count r) db1), ())))"

definition restart_error :: "pystr \<Rightarrow> pystr" where
  "restart_error operation =
     str ''Remote '' @ operation @ str '' outcome is uncertain; refresh is required''"

definition task_record_for_restart :: "int \<Rightarrow> task_record \<Rightarrow> task_record" where
  "task_record_for_restart now r =
     (case (tk_route_kind r, tk_external_operation r) of
        (RK_remote_ref, Some operation) \<Rightarrow>
          if tk_state r = TS_interrupted \<and> tk_result r = None
             \<and> tk_error r = Some (restart_error operation) \<and> tk_external_outcome_uncertain r
          then r
          else r\<lparr>tk_state := TS_interrupted, tk_updated_at := now, tk_result := None,
                 tk_error := Some (restart_error operation), tk_external_outcome_uncertain := True\<rparr>
      | _ \<Rightarrow>
          if tk_route_kind r = RK_local \<and> tk_state r \<in> set executing_task_states
          then r\<lparr>tk_state := TS_interrupted, tk_updated_at := now,
                 tk_error := Some (case tk_error r of
                   Some (c # cs) \<Rightarrow> c # cs
                 | _ \<Rightarrow> str ''Task interrupted: local process restarted.'')\<rparr>
          else r)"

end
