(* ===== verification/Mailbox_Store.thy ===== *)
theory Mailbox_Store
  imports Task_Store
begin

text \<open>
  The durable task mailbox of \<open>storage/mailbox_store.py\<close> (\<open>MailboxStore\<close>), over the database of
  \<open>Task_Store\<close>.  \<open>owner\<close> is the store's \<open>_owner_id\<close>; timestamps are UTC instants, whose ISO
  texts SQLite compares in the same order.  \<open>insert_mail\<close> is an INSERT with the trigger that
  numbers the message.
\<close>

definition insert_mail :: "mail_row \<Rightarrow> task_db \<Rightarrow> task_db" where
  "insert_mail m db =
     (let n = db_mail_sequence db + 1
      in db\<lparr>db_mail_sequence := n, db_mail := db_mail db @ [m\<lparr>mb_wakeup_sequence := n\<rparr>]\<rparr>)"

text \<open>PRIMARY KEY and UNIQUE idempotency key, where NULL keys do not collide.\<close>

definition mail_collides :: "mail_row \<Rightarrow> task_db \<Rightarrow> bool" where
  "mail_collides m db \<longleftrightarrow>
     list_ex (\<lambda>x. mb_message_id x = mb_message_id m
        \<or> mb_idempotency_key x \<noteq> None \<and> mb_idempotency_key x = mb_idempotency_key m) (db_mail db)"

definition fresh_mail :: "mail_row \<Rightarrow> mail_row" where
  "fresh_mail m =
     m\<lparr>mb_status := MB_pending, mb_claimed_at := None, mb_claim_expires_at := None,
       mb_claimed_by := None, mb_claim_token := None, mb_delivered_at := None\<rparr>"

definition mail_publish :: "mail_row \<Rightarrow> task_db \<Rightarrow> task_db \<times> bool" where
  "mail_publish m db =
     (if mail_collides m db then (db, False) else (insert_mail (fresh_mail m) db, True))"

definition settled_mail_row :: "outbox_intent \<Rightarrow> mail_row" where
  "settled_mail_row i =
     \<lparr>mb_message_id = so_message_id i, mb_idempotency_key = Some (so_outbox_key i),
      mb_recipient_task_id = so_recipient_task_id i,
      mb_recipient_thread_id = so_recipient_thread_id i,
      mb_sender_task_id = Some (so_task_id i), mb_sender_agent_name = Some (so_child_agent_name i),
      mb_child_task_id = Some (so_task_id i), mb_child_agent_name = Some (so_child_agent_name i),
      mb_child_run_count = Some (so_run_count i),
      mb_settled_status = Some (task_state_name (so_settled_status i)),
      mb_content = so_content i, mb_trigger_run = True, mb_status = MB_pending,
      mb_created_at = so_created_at i, mb_claimed_at = None, mb_claim_expires_at = None,
      mb_claimed_by = None, mb_claim_token = None, mb_delivered_at = None,
      mb_wakeup_sequence = 0\<rparr>"

definition settled_identity_ok :: "mail_row \<Rightarrow> outbox_intent \<Rightarrow> bool" where
  "settled_identity_ok m i \<longleftrightarrow>
     mb_recipient_task_id m = so_recipient_task_id i
     \<and> mb_recipient_thread_id m = so_recipient_thread_id i
     \<and> mb_sender_task_id m = Some (so_task_id i)
     \<and> mb_sender_agent_name m = Some (so_child_agent_name i)
     \<and> mb_child_task_id m = Some (so_task_id i)
     \<and> mb_child_agent_name m = Some (so_child_agent_name i)
     \<and> mb_child_run_count m = Some (so_run_count i)
     \<and> mb_settled_status m = Some (task_state_name (so_settled_status i))
     \<and> mb_content m = so_content i \<and> mb_trigger_run m
     \<and> mb_status m \<noteq> MB_retracted"

definition identity_error :: store_error where
  "identity_error = Store_runtime_error
     (str ''Settled mailbox logical identity conflicts with outbox intent'')"

definition mail_order :: "mail_row \<Rightarrow> int \<times> pystr" where
  "mail_order m = (mb_created_at m, mb_message_id m)"

definition resolve_settled_message :: "outbox_intent \<Rightarrow> task_db \<Rightarrow> store_error + task_db" where
  "resolve_settled_message i db =
     (case filter (\<lambda>m. mb_idempotency_key m = Some (so_outbox_key i)) (db_mail db) of
        [m] \<Rightarrow> if settled_identity_ok m i then Inr db else Inl identity_error
      | _ # _ # _ \<Rightarrow>
          Inl (Store_runtime_error (str ''Settled mailbox idempotency key is not unique''))
      | [] \<Rightarrow>
          (case sort_key mail_order (filter (\<lambda>m. mb_idempotency_key m = None
                  \<and> mb_recipient_thread_id m = so_recipient_thread_id i
                  \<and> mb_child_task_id m = Some (so_task_id i)
                  \<and> mb_child_run_count m = Some (so_run_count i)
                  \<and> mb_status m \<in> {MB_pending, MB_claimed, MB_delivered}) (db_mail db)) of
             [m] \<Rightarrow>
               if settled_identity_ok m i
               then Inr (db\<lparr>db_mail := rows_update
                      (\<lambda>x. mb_message_id x = mb_message_id m \<and> mb_idempotency_key x = None)
                      (\<lambda>x. x\<lparr>mb_idempotency_key := Some (so_outbox_key i)\<rparr>) (db_mail db)\<rparr>)
               else Inl identity_error
           | _ # _ # _ \<Rightarrow> Inl (Store_runtime_error
               (str ''Multiple legacy mailbox rows conflict with one settled intent''))
           | [] \<Rightarrow>
               if mail_collides (settled_mail_row i) db
               then Inl (Store_runtime_error
                      (str ''Settled mailbox identity conflicts with an unrelated message''))
               else Inr (insert_mail (settled_mail_row i) db)))"

text \<open>The claim on the outbox row still stands and its run may be published.\<close>

definition publishable :: "outbox_intent \<Rightarrow> pystr \<Rightarrow> task_db \<Rightarrow> outbox_row \<Rightarrow> bool" where
  "publishable i token db r \<longleftrightarrow>
     ob_outbox_key r = so_outbox_key i \<and> ob_status r = OB_claimed \<and> ob_claim_token r = Some token
     \<and> \<not> list_ex (\<lambda>t. tk_task_id t = ob_task_id r \<and> tk_run_count t = ob_run_count r
            \<and> (tk_mailbox_suppressed t \<or> uncertain_effect t)) (db_tasks db)"

definition publish_claimed_settled_outbox ::
  "outbox_intent \<Rightarrow> int \<Rightarrow> task_db \<Rightarrow> task_db \<times> (store_error + bool)" where
  "publish_claimed_settled_outbox i now db =
     (case so_claim_token i of
        None \<Rightarrow> (db, Inr False)
      | Some token \<Rightarrow> transact db
          (if \<not> list_ex (publishable i token db) (db_outbox db) then Inr (db, False)
           else
             and_then (resolve_settled_message i db) (\<lambda>db1.
               let P = (\<lambda>r. ob_outbox_key r = so_outbox_key i \<and> ob_status r = OB_claimed
                          \<and> ob_claim_token r = Some token)
               in if rows_count P (db_outbox db1) \<noteq> 1
                  then Inl (Store_runtime_error (str ''Settled outbox lease was lost during delivery''))
                  else Inr (db1\<lparr>db_outbox := rows_update P
                         (\<lambda>r. (release_outbox_row OB_delivered r)\<lparr>ob_delivered_at := Some now,
                                ob_last_error := None\<rparr>) (db_outbox db1),
                       db_tasks := rows_update (\<lambda>t. tk_task_id t = so_task_id i
                           \<and> tk_run_count t = so_run_count i \<and> \<not> tk_mailbox_suppressed t)
                         (\<lambda>t. t\<lparr>tk_mailbox_delivered := True\<rparr>) (db_tasks db1)\<rparr>, True))))"

definition retract_settled_outbox :: "outbox_intent \<Rightarrow> int \<Rightarrow> task_db \<Rightarrow> task_db \<times> bool" where
  "retract_settled_outbox i now db =
     (if \<not> list_ex (\<lambda>r. ob_outbox_key r = so_outbox_key i \<and> ob_status r = OB_suppressed
              \<and> ob_retracted_at r = None) (db_outbox db)
      then (db, False)
      else
        (db\<lparr>db_mail := rows_update
              (\<lambda>m. mb_idempotency_key m = Some (so_outbox_key i) \<and> mb_status m \<in> {MB_pending, MB_claimed})
              (\<lambda>m. m\<lparr>mb_status := MB_retracted, mb_claim_expires_at := None,
                      mb_claimed_by := None, mb_claim_token := None\<rparr>) (db_mail db),
            db_outbox := rows_update
              (\<lambda>r. ob_outbox_key r = so_outbox_key i \<and> ob_status r = OB_suppressed)
              (\<lambda>r. r\<lparr>ob_retracted_at := Some now\<rparr>) (db_outbox db)\<rparr>, True))"

text \<open>\<open>_authoritative_suppression_clause_locked\<close>, negated: the message's run is suppressed.\<close>

definition mail_suppressed :: "task_db \<Rightarrow> mail_row \<Rightarrow> bool" where
  "mail_suppressed db m \<longleftrightarrow>
     list_ex (\<lambda>t. mb_child_task_id m = Some (tk_task_id t)
        \<and> mb_child_run_count m = Some (tk_run_count t) \<and> tk_mailbox_suppressed t) (db_tasks db)
     \<or> list_ex (\<lambda>r. mb_child_task_id m = Some (ob_task_id r)
        \<and> mb_child_run_count m = Some (ob_run_count r) \<and> ob_status r = OB_suppressed) (db_outbox db)"

definition settled_outbox_needs_wake :: "outbox_intent \<Rightarrow> task_db \<Rightarrow> bool" where
  "settled_outbox_needs_wake i db =
     list_ex (\<lambda>m. mb_idempotency_key m = Some (so_outbox_key i) \<and> mb_status m = MB_pending
        \<and> mb_trigger_run m \<and> \<not> mail_suppressed db m) (db_mail db)"

definition pending_mail_row :: "mail_row \<Rightarrow> mail_row" where
  "pending_mail_row m =
     m\<lparr>mb_status := MB_pending, mb_claimed_at := None, mb_claim_expires_at := None,
       mb_claimed_by := None, mb_claim_token := None\<rparr>"

definition release_expired_claims :: "int \<Rightarrow> task_db \<Rightarrow> task_db" where
  "release_expired_claims now db =
     db\<lparr>db_mail := rows_update
          (\<lambda>m. mb_status m = MB_claimed \<and> expired now (mb_claim_expires_at m))
          pending_mail_row (db_mail db)\<rparr>"

definition list_pending_trigger_recipients :: "int \<Rightarrow> int \<Rightarrow> task_db \<Rightarrow> task_db \<times> pystr list" where
  "list_pending_trigger_recipients after_sequence now db =
     (let db1 = release_expired_claims now db
      in (db1, sort (dedup (concat (map
           (\<lambda>m. case mb_recipient_task_id m of None \<Rightarrow> [] | Some k \<Rightarrow> [k])
           (filter (\<lambda>m. mb_trigger_run m \<and> mb_status m = MB_pending
              \<and> mb_wakeup_sequence m > after_sequence \<and> \<not> mail_suppressed db1 m) (db_mail db1)))))))"

text \<open>The rows a recipient may take: by task when it has one, else by thread only.\<close>

definition addressed :: "pystr option \<Rightarrow> pystr \<Rightarrow> mail_row \<Rightarrow> bool" where
  "addressed recipient_task_id recipient_thread_id m =
     (if nonempty_opt recipient_task_id
      then mb_recipient_task_id m = recipient_task_id
           \<or> mb_recipient_task_id m = None \<and> mb_recipient_thread_id m = recipient_thread_id
      else mb_recipient_thread_id m = recipient_thread_id)"

text \<open>\<open>lease\<close> in microseconds.\<close>

definition mail_claim ::
  "pystr \<Rightarrow> pystr \<Rightarrow> pystr option \<Rightarrow> pystr \<Rightarrow> int \<Rightarrow> int \<Rightarrow> task_db \<Rightarrow> task_db \<times> mail_row list" where
  "mail_claim owner claim_token recipient_task_id recipient_thread_id lease now db =
     (let db1 = release_expired_claims now db;
          ids = map mb_message_id (sort_key mail_order
                  (filter (\<lambda>m. mb_status m = MB_pending
                     \<and> addressed recipient_task_id recipient_thread_id m
                     \<and> \<not> mail_suppressed db1 m) (db_mail db1)));
          db2 = db1\<lparr>db_mail := rows_update
                  (\<lambda>m. mb_message_id m \<in> set ids \<and> mb_status m = MB_pending)
                  (\<lambda>m. m\<lparr>mb_status := MB_claimed, mb_claimed_at := Some now,
                          mb_claim_expires_at := Some (now + lease), mb_claimed_by := Some owner,
                          mb_claim_token := Some claim_token\<rparr>) (db_mail db1)\<rparr>
      in (db2, sort_key mail_order (filter (\<lambda>m. mb_claimed_by m = Some owner
            \<and> mb_claim_token m = Some claim_token) (db_mail db2))))"

definition live_claim :: "pystr \<Rightarrow> int \<Rightarrow> mail_row \<Rightarrow> bool" where
  "live_claim owner now m \<longleftrightarrow>
     mb_status m = MB_claimed \<and> mb_claimed_by m = Some owner
     \<and> (case mb_claim_expires_at m of None \<Rightarrow> False | Some t \<Rightarrow> now < t)"

definition deliver_mail_row :: "int \<Rightarrow> mail_row \<Rightarrow> mail_row" where
  "deliver_mail_row now m =
     m\<lparr>mb_status := MB_delivered, mb_delivered_at := Some now,
       mb_claim_expires_at := None, mb_claim_token := None\<rparr>"

definition acknowledge_one :: "pystr \<Rightarrow> int \<Rightarrow> pystr \<times> pystr \<Rightarrow> mail_row \<Rightarrow> bool" where
  "acknowledge_one owner now claim m \<longleftrightarrow>
     mb_message_id m = fst claim \<and> live_claim owner now m \<and> mb_claim_token m = Some (snd claim)"

fun acknowledge_loop :: "pystr \<Rightarrow> int \<Rightarrow> (pystr \<times> pystr) list \<Rightarrow> task_db \<Rightarrow> nat \<Rightarrow> task_db \<times> nat" where
  "acknowledge_loop owner now [] db changed = (db, changed)"
| "acknowledge_loop owner now (c # cs) db changed =
     acknowledge_loop owner now cs
       (db\<lparr>db_mail := rows_update (acknowledge_one owner now c) (deliver_mail_row now) (db_mail db)\<rparr>)
       (changed + rows_count (acknowledge_one owner now c) (db_mail db))"

definition mail_acknowledge ::
  "pystr \<Rightarrow> int \<Rightarrow> (pystr \<times> pystr) list \<Rightarrow> task_db \<Rightarrow> task_db \<times> nat" where
  "mail_acknowledge owner now claims db = acknowledge_loop owner now (dedup claims) db 0"

definition holds_token :: "pystr \<Rightarrow> int \<Rightarrow> pystr list \<Rightarrow> mail_row \<Rightarrow> bool" where
  "holds_token owner now tokens m \<longleftrightarrow>
     live_claim owner now m
     \<and> (case mb_claim_token m of None \<Rightarrow> False | Some t \<Rightarrow> t \<in> set tokens \<and> t \<noteq> [])"

definition acknowledge_claim_tokens ::
  "pystr \<Rightarrow> int \<Rightarrow> pystr list \<Rightarrow> task_db \<Rightarrow> task_db \<times> nat" where
  "acknowledge_claim_tokens owner now tokens db =
     (db\<lparr>db_mail := rows_update (holds_token owner now tokens) (deliver_mail_row now) (db_mail db)\<rparr>,
      rows_count (holds_token owner now tokens) (db_mail db))"

definition release_claim_tokens ::
  "pystr \<Rightarrow> int \<Rightarrow> pystr list \<Rightarrow> task_db \<Rightarrow> task_db \<times> nat" where
  "release_claim_tokens owner now tokens db =
     (db\<lparr>db_mail := rows_update (holds_token owner now tokens) pending_mail_row (db_mail db)\<rparr>,
      rows_count (holds_token owner now tokens) (db_mail db))"

definition renew_claim_tokens ::
  "pystr \<Rightarrow> int \<Rightarrow> pystr list \<Rightarrow> int \<Rightarrow> task_db \<Rightarrow> task_db \<times> pystr list" where
  "renew_claim_tokens owner now tokens lease db =
     (let live = dedup (concat (map (\<lambda>m. case mb_claim_token m of None \<Rightarrow> [] | Some t \<Rightarrow> [t])
                   (filter (holds_token owner now tokens) (db_mail db))))
      in (db\<lparr>db_mail := rows_update (holds_token owner now live)
             (\<lambda>m. m\<lparr>mb_claim_expires_at := Some (now + lease)\<rparr>) (db_mail db)\<rparr>, live))"

definition retract_settled :: "pystr \<Rightarrow> pystr \<Rightarrow> int \<Rightarrow> task_db \<Rightarrow> task_db" where
  "retract_settled recipient_thread_id child_task_id child_run_count db =
     db\<lparr>db_mail := rows_update
          (\<lambda>m. mb_recipient_thread_id m = recipient_thread_id
             \<and> mb_child_task_id m = Some child_task_id
             \<and> mb_child_run_count m = Some child_run_count
             \<and> mb_status m \<in> {MB_pending, MB_claimed}) retract_mail_row (db_mail db)\<rparr>"

definition max_triggering_sequence :: "pystr \<Rightarrow> int \<Rightarrow> task_db \<Rightarrow> task_db \<times> int" where
  "max_triggering_sequence recipient_task_id now db =
     (let db1 = release_expired_claims now db
      in (db1, case map mb_wakeup_sequence (filter (\<lambda>m. mb_recipient_task_id m = Some recipient_task_id
              \<and> mb_trigger_run m \<and> mb_status m = MB_pending \<and> \<not> mail_suppressed db1 m) (db_mail db1)) of
           [] \<Rightarrow> 0 | n # ns \<Rightarrow> foldl max n ns))"

definition has_triggering :: "pystr \<Rightarrow> int \<Rightarrow> int \<Rightarrow> task_db \<Rightarrow> task_db \<times> bool" where
  "has_triggering recipient_task_id after_sequence now db =
     (let (db1, n) = max_triggering_sequence recipient_task_id now db in (db1, n > after_sequence))"

definition recover_claims :: "int \<Rightarrow> task_db \<Rightarrow> task_db" where
  "recover_claims now db = release_expired_claims now db"

end
