(* ===== verification/Task_Database_Invariant.thy ===== *)
theory Task_Database_Invariant
  imports Mailbox_Store
begin

text \<open>
  The invariant of the shared task database and what every operation of \<open>Task_Store\<close> and
  \<open>Mailbox_Store\<close> keeps of it: the keys the schema declares stay unique, event and wakeup
  numbers only grow, and a message that was delivered to its reader stays.
\<close>

subsection \<open>Invariant\<close>

definition outbox_ok :: "outbox_row list \<Rightarrow> bool" where
  "outbox_ok rows \<longleftrightarrow>
     unique_key ob_outbox_key rows \<and> unique_key ob_message_id rows
     \<and> unique_key (\<lambda>r. (ob_task_id r, ob_run_count r)) rows"

definition mail_keys :: "mail_row list \<Rightarrow> pystr list" where
  "mail_keys rows = concat (map (\<lambda>m. case mb_idempotency_key m of None \<Rightarrow> [] | Some k \<Rightarrow> [k]) rows)"

definition mail_ok :: "mail_row list \<Rightarrow> int \<Rightarrow> bool" where
  "mail_ok rows n \<longleftrightarrow>
     unique_key mb_message_id rows \<and> distinct (mail_keys rows)
     \<and> unique_key mb_wakeup_sequence rows \<and> (\<forall>m \<in> set rows. mb_wakeup_sequence m \<le> n)"

definition events_ok :: "event_row list \<Rightarrow> int \<Rightarrow> bool" where
  "events_ok rows n \<longleftrightarrow>
     sorted_wrt (<) (map te_event_id rows) \<and> (\<forall>r \<in> set rows. te_event_id r \<le> n)"

definition reviews_ok :: "review_record list \<Rightarrow> int \<Rightarrow> bool" where
  "reviews_ok rows n \<longleftrightarrow>
     unique_key rv_review_id rows \<and> unique_key rv_task_id rows
     \<and> unique_key rv_ingest_sequence rows \<and> (\<forall>v \<in> set rows. rv_ingest_sequence v \<le> n)"

definition db_inv :: "task_db \<Rightarrow> bool" where
  "db_inv db \<longleftrightarrow>
     unique_key tk_task_id (db_tasks db) \<and> outbox_ok (db_outbox db)
     \<and> mail_ok (db_mail db) (db_mail_sequence db)
     \<and> events_ok (db_events db) (db_last_event_id db)
     \<and> reviews_ok (db_reviews db) (db_last_review_sequence db)"

definition empty_db :: task_db where
  "empty_db = \<lparr>db_tasks = [], db_events = [], db_reviews = [], db_outbox = [], db_mail = [],
     db_mail_sequence = 0, db_migration = None, db_last_event_id = 0, db_last_review_sequence = 0\<rparr>"

lemma db_inv_empty: "db_inv empty_db"
  by (simp add: db_inv_def empty_db_def outbox_ok_def mail_ok_def events_ok_def reviews_ok_def
      unique_key_def mail_keys_def)

text \<open>A message a reader acknowledged is never lost, changed, withdrawn or re-keyed.\<close>

definition same_message :: "mail_row \<Rightarrow> mail_row \<Rightarrow> bool" where
  "same_message m m' \<longleftrightarrow>
     mb_message_id m' = mb_message_id m \<and> mb_content m' = mb_content m
     \<and> mb_child_task_id m' = mb_child_task_id m \<and> mb_child_run_count m' = mb_child_run_count m
     \<and> (mb_idempotency_key m = None \<or> mb_idempotency_key m' = mb_idempotency_key m)"

definition mail_kept :: "task_db \<Rightarrow> task_db \<Rightarrow> bool" where
  "mail_kept db db' \<longleftrightarrow>
     db_mail_sequence db \<le> db_mail_sequence db'
     \<and> (\<forall>m \<in> set (db_mail db). mb_status m = MB_delivered \<longrightarrow>
          (\<exists>m' \<in> set (db_mail db'). mb_status m' = MB_delivered \<and> same_message m m'))"

definition events_kept :: "task_db \<Rightarrow> task_db \<Rightarrow> bool" where
  "events_kept db db' \<longleftrightarrow>
     (\<exists>es. db_events db' = db_events db @ es \<and> (\<forall>e \<in> set es. db_last_event_id db < te_event_id e))
     \<and> db_last_event_id db \<le> db_last_event_id db'"

definition keeps :: "task_db \<Rightarrow> task_db \<Rightarrow> bool" where
  "keeps db db' \<longleftrightarrow> (db_inv db \<longrightarrow> db_inv db' \<and> mail_kept db db' \<and> events_kept db db')"

lemma same_message_trans: "same_message a b \<Longrightarrow> same_message b c \<Longrightarrow> same_message a c"
  by (auto simp: same_message_def)

lemma same_message_refl [simp]: "same_message m m"
  by (simp add: same_message_def)

lemma mail_kept_trans: "mail_kept a b \<Longrightarrow> mail_kept b c \<Longrightarrow> mail_kept a c"
  unfolding mail_kept_def by (meson order_trans same_message_trans)

lemma events_kept_trans: "events_kept a b \<Longrightarrow> events_kept b c \<Longrightarrow> events_kept a c"
  unfolding events_kept_def by fastforce

lemma keeps_refl [simp]: "keeps db db"
  by (auto simp: keeps_def mail_kept_def events_kept_def intro: bexI [of _ m for m])

lemma keeps_trans [trans]: "keeps a b \<Longrightarrow> keeps b c \<Longrightarrow> keeps a c"
  using mail_kept_trans events_kept_trans by (auto simp: keeps_def)

text \<open>Writes to one table.\<close>

lemma keeps_tasks:
  "unique_key tk_task_id ts = unique_key tk_task_id (db_tasks db) \<Longrightarrow> keeps db (db\<lparr>db_tasks := ts\<rparr>)"
  by (auto simp: keeps_def db_inv_def mail_kept_def events_kept_def)

lemma keeps_outbox:
  "(outbox_ok (db_outbox db) \<Longrightarrow> outbox_ok rows) \<Longrightarrow> keeps db (db\<lparr>db_outbox := rows\<rparr>)"
  by (auto simp: keeps_def db_inv_def mail_kept_def events_kept_def)

lemma outbox_ok_update:
  "outbox_ok rows \<Longrightarrow> (\<And>r. ob_outbox_key (f r) = ob_outbox_key r) \<Longrightarrow> (\<And>r. ob_message_id (f r) = ob_message_id r)
    \<Longrightarrow> (\<And>r. ob_task_id (f r) = ob_task_id r) \<Longrightarrow> (\<And>r. ob_run_count (f r) = ob_run_count r)
    \<Longrightarrow> outbox_ok (rows_update P f rows)"
  by (simp add: outbox_ok_def unique_key_rows_update)

lemma outbox_ok_delete: "outbox_ok rows \<Longrightarrow> outbox_ok (rows_delete P rows)"
  by (simp add: outbox_ok_def unique_key_delete)

lemma outbox_ok_snoc:
  "outbox_ok rows \<Longrightarrow> \<not> list_ex (same_outbox_identity i) rows \<Longrightarrow> outbox_ok (rows @ [intent_row i])"
  by (auto simp: outbox_ok_def unique_key_snoc intent_row_def same_outbox_identity_def list_ex_iff)

lemma mail_keys_update:
  "(\<And>m. P m \<Longrightarrow> mb_idempotency_key (f m) = mb_idempotency_key m) \<Longrightarrow> mail_keys (rows_update P f rows) = mail_keys rows"
  by (induction rows) (auto simp: mail_keys_def)

lemma in_mail_keys: "k \<in> set (mail_keys rows) \<longleftrightarrow> (\<exists>m \<in> set rows. mb_idempotency_key m = Some k)"
  by (induction rows) (auto simp: mail_keys_def split: option.splits)

lemma keeps_mail_update:
  assumes "\<And>m. mb_message_id (f m) = mb_message_id m" and "\<And>m. mb_content (f m) = mb_content m"
    and "\<And>m. mb_idempotency_key (f m) = mb_idempotency_key m"
    and "\<And>m. mb_child_task_id (f m) = mb_child_task_id m"
    and "\<And>m. mb_child_run_count (f m) = mb_child_run_count m"
    and "\<And>m. mb_wakeup_sequence (f m) = mb_wakeup_sequence m"
    and "\<And>m. P m \<Longrightarrow> mb_status m \<noteq> MB_delivered"
  shows "keeps db (db\<lparr>db_mail := rows_update P f (db_mail db)\<rparr>)"
proof -
  have "m \<in> set (rows_update P f (db_mail db))" if "m \<in> set (db_mail db)" "mb_status m = MB_delivered" for m
    using that assms(7) [of m] unfolding in_rows_update by (intro bexI [of _ m]) auto
  then have "mail_kept db (db\<lparr>db_mail := rows_update P f (db_mail db)\<rparr>)"
    using same_message_refl by (auto simp: mail_kept_def)
  moreover have "mail_ok (rows_update P f (db_mail db)) n = mail_ok (db_mail db) n" for n
  proof -
    have "(\<forall>m \<in> set (rows_update P f rows). mb_wakeup_sequence m \<le> n) = (\<forall>m \<in> set rows. mb_wakeup_sequence m \<le> n)" for rows
      using assms(6) by (induction rows) auto
    then show ?thesis
      using assms by (simp add: mail_ok_def unique_key_rows_update mail_keys_update)
  qed
  ultimately show ?thesis
    by (auto simp: keeps_def db_inv_def events_kept_def)
qed

lemma distinct_mail_keys_filter: "distinct (mail_keys rows) \<Longrightarrow> distinct (mail_keys (filter Q rows))"
proof (induction rows)
  case (Cons m rows)
  have "set (mail_keys (filter Q rows)) \<subseteq> set (mail_keys rows)"
    by (auto simp: in_mail_keys)
  then show ?case
    using Cons by (cases "mb_idempotency_key m") (auto simp: mail_keys_def)
qed (simp add: mail_keys_def)

lemma unique_key_filter: "unique_key key rows \<Longrightarrow> unique_key key (filter Q rows)"
  by (simp add: unique_key_def distinct_map_filter)

lemma keeps_mail_delete:
  assumes "\<And>m. P m \<Longrightarrow> mb_status m \<noteq> MB_delivered"
  shows "keeps db (db\<lparr>db_mail := rows_delete P (db_mail db)\<rparr>)"
proof -
  have "mail_kept db (db\<lparr>db_mail := rows_delete P (db_mail db)\<rparr>)"
    using assms by (fastforce simp: mail_kept_def rows_delete_def)
  moreover have "mail_ok (db_mail db) n \<Longrightarrow> mail_ok (rows_delete P (db_mail db)) n" for n
    unfolding mail_ok_def
    using distinct_mail_keys_filter [of "db_mail db" "\<lambda>r. \<not> P r"]
    by (auto simp: unique_key_delete rows_delete_def [of P "db_mail db"] unique_key_filter)
  ultimately show ?thesis
    by (auto simp: keeps_def db_inv_def events_kept_def)
qed

lemma keeps_insert_mail:
  assumes "\<not> mail_collides m db"
  shows "keeps db (insert_mail m db)"
proof -
  have "mail_ok (db_mail db @ [m\<lparr>mb_wakeup_sequence := db_mail_sequence db + 1\<rparr>]) (db_mail_sequence db + 1)"
    if "mail_ok (db_mail db) (db_mail_sequence db)"
  proof -
    have w: "mb_wakeup_sequence x < db_mail_sequence db + 1" if "x \<in> set (db_mail db)" for x
      using that \<open>mail_ok (db_mail db) (db_mail_sequence db)\<close> by (force simp: mail_ok_def)
    have "mb_message_id m \<notin> mb_message_id ` set (db_mail db)"
      using assms by (auto simp: mail_collides_def list_ex_iff)
    moreover have "k \<notin> set (mail_keys (db_mail db))" if "mb_idempotency_key m = Some k" for k
      using assms that by (force simp: mail_collides_def list_ex_iff in_mail_keys)
    moreover have "db_mail_sequence db + 1 \<notin> mb_wakeup_sequence ` set (db_mail db)"
      using w by force
    moreover have "mail_keys (db_mail db @ [m\<lparr>mb_wakeup_sequence := n\<rparr>]) = mail_keys (db_mail db) @
        (case mb_idempotency_key m of None \<Rightarrow> [] | Some k \<Rightarrow> [k])" for n
      by (simp add: mail_keys_def)
    ultimately show ?thesis
      using that w by (auto simp: mail_ok_def unique_key_snoc less_imp_le split: option.splits)
  qed
  then show ?thesis
    by (fastforce simp: keeps_def db_inv_def insert_mail_def Let_def mail_kept_def events_kept_def)
qed


subsection \<open>Every primitive write keeps the invariant\<close>

definition step_keeps :: "task_db \<Rightarrow> store_error + task_db \<times> 'a \<Rightarrow> bool" where
  "step_keeps db r \<longleftrightarrow> (\<forall>db' x. r = Inr (db', x) \<longrightarrow> keeps db db')"

definition write_keeps :: "task_db \<Rightarrow> store_error + task_db \<Rightarrow> bool" where
  "write_keeps db r \<longleftrightarrow> (\<forall>db'. r = Inr db' \<longrightarrow> keeps db db')"

lemma keeps_transact: "step_keeps db r \<Longrightarrow> keeps db (fst (transact db r))"
  by (auto simp: step_keeps_def transact_def split: sum.splits)

lemma step_keeps_and_then_unit:
  "(\<And>x. step_keeps db (f x)) \<Longrightarrow> step_keeps db (and_then r f)"
  by (auto simp: step_keeps_def and_then_Inr)

lemma step_keeps_and_then_db:
  "write_keeps db r \<Longrightarrow> (\<And>db1. step_keeps db1 (f db1)) \<Longrightarrow> step_keeps db (and_then r f)"
  unfolding step_keeps_def write_keeps_def and_then_Inr using keeps_trans by blast

lemma step_keeps_and_then_pair:
  "step_keeps db r \<Longrightarrow> (\<And>db1 x. step_keeps db1 (f (db1, x))) \<Longrightarrow> step_keeps db (and_then r f)"
  unfolding step_keeps_def and_then_Inr by (metis keeps_trans surj_pair)

lemma write_keeps_and_then_pair:
  "step_keeps db r \<Longrightarrow> (\<And>db1 x. write_keeps db1 (f (db1, x))) \<Longrightarrow> write_keeps db (and_then r f)"
  unfolding step_keeps_def write_keeps_def and_then_Inr by (metis keeps_trans surj_pair)

lemma step_keeps_Inl [simp]: "step_keeps db (Inl e)"
  by (simp add: step_keeps_def)

lemma step_keeps_Inr [simp]: "step_keeps db (Inr (db', x)) = keeps db db'"
  by (auto simp: step_keeps_def)

lemma write_keeps_Inl [simp]: "write_keeps db (Inl e)"
  by (simp add: write_keeps_def)

lemma write_keeps_Inr [simp]: "write_keeps db (Inr db') = keeps db db'"
  by (auto simp: write_keeps_def)

lemmas step_keeps_rules = step_keeps_and_then_db step_keeps_and_then_pair

lemma keeps_set_delivered_flag [simp]: "keeps db (set_delivered_flag k n b db)"
  unfolding set_delivered_flag_def by (intro keeps_tasks) (simp add: unique_key_rows_update)

lemma write_keeps_insert_task [simp]: "write_keeps db (insert_task_locked r db)"
  by (auto simp: insert_task_locked_def task_at_def keeps_def db_inv_def mail_kept_def events_kept_def
      unique_key_snoc row_at_None split: option.splits)

lemma write_keeps_update_task [simp]: "write_keeps db (update_task_locked r db)"
  by (simp add: update_task_locked_def keeps_tasks unique_key_rows_update)

lemma step_keeps_appended_event [simp]: "step_keeps db (appended_event k n ty data t db)"
proof -
  have "events_ok (db_events db @ [e\<lparr>te_event_id := db_last_event_id db + 1\<rparr>]) (db_last_event_id db + 1)"
    if "events_ok (db_events db) (db_last_event_id db)" for e :: event_row
    using that by (force simp: events_ok_def sorted_wrt_append)
  from this [of "\<lparr>te_event_id = 0, te_task_id = k, te_run_count = n, te_event_type = ty,
      te_created_at = t, te_data_json = serialize_event_data data\<rparr>"]
  have "keeps db (fst (append_event_locked k n ty (serialize_event_data data) t db))"
    by (auto simp: append_event_locked_def Let_def keeps_def db_inv_def mail_kept_def events_kept_def)
  then show ?thesis
    by (auto simp: step_keeps_def appended_event_def and_then_Inr split: prod.splits)
qed

lemma step_keeps_insert_outbox [simp]: "step_keeps db (insert_outbox_locked i db)"
  by (auto simp: insert_outbox_locked_def Let_def intro!: keeps_outbox outbox_ok_snoc)

lemma write_keeps_insert_intent_opt [simp]: "write_keeps db (insert_intent_opt i db)"
  by (auto simp: insert_intent_opt_def intro!: write_keeps_and_then_pair split: option.splits)


lemma keeps_discard_row [simp]: "keeps db (fst (discard_uncertain_row r db))"
proof -
  have "keeps db (db\<lparr>db_mail := rows_delete (\<lambda>m. settled_mail r m \<and> mb_status m \<noteq> MB_delivered) (db_mail db)\<rparr>)"
    (is "keeps db ?a")
    by (rule keeps_mail_delete) simp
  moreover have "keeps ?a (?a\<lparr>db_outbox := rows_delete (\<lambda>x. ob_outbox_key x = ob_outbox_key r) (db_outbox ?a)\<rparr>)"
    (is "keeps ?a ?b")
    by (intro keeps_outbox outbox_ok_delete) simp
  moreover have "keeps ?b (set_delivered_flag k n b ?b)" for k n b
    by simp
  ultimately have "keeps db (set_delivered_flag k n b ?b)" for k n b
    using keeps_trans by blast
  moreover have "keeps db (db\<lparr>db_outbox := rows_update (\<lambda>x. ob_outbox_key x = ob_outbox_key r)
      (release_outbox_row OB_delivered) (db_outbox db)\<rparr>)"
    by (intro keeps_outbox outbox_ok_update) (simp_all add: release_outbox_row_def)
  then have "keeps db (set_delivered_flag k n b (db\<lparr>db_outbox := rows_update (\<lambda>x. ob_outbox_key x = ob_outbox_key r)
      (release_outbox_row OB_delivered) (db_outbox db)\<rparr>))" for k n b
    using keeps_set_delivered_flag keeps_trans by blast
  ultimately show ?thesis
    by (simp add: discard_uncertain_row_def)
qed

lemma keeps_discard_loop [simp]: "keeps db (fst (discard_uncertain_loop rs db))"
proof (induction rs arbitrary: db)
  case (Cons r rs)
  show ?case
    using keeps_trans [OF keeps_discard_row [of db r] Cons.IH] by (simp add: Let_def split_beta)
qed simp

lemma keeps_discard [simp]: "keeps db (fst (discard_invalid_uncertain k db))"
  by (simp add: discard_invalid_uncertain_def)

lemma keeps_suppress [simp]: "keeps db (suppress_for_task_run k n db)"
  unfolding suppress_for_task_run_def
  by (intro keeps_outbox outbox_ok_update) (simp_all add: release_outbox_row_def)

lemma keeps_confirm [simp]: "keeps db (confirm_delivered_for_task_run k n db)"
  unfolding confirm_delivered_for_task_run_def
  by (intro keeps_outbox outbox_ok_update) (simp_all add: release_outbox_row_def)

lemma keeps_mail_then_outbox:
  assumes "keeps db (db\<lparr>db_mail := ms\<rparr>)" and "outbox_ok (db_outbox db) \<Longrightarrow> outbox_ok os"
  shows "keeps db (db\<lparr>db_mail := ms, db_outbox := os\<rparr>)"
  using keeps_trans [OF assms(1) keeps_outbox [of "db\<lparr>db_mail := ms\<rparr>" os]] assms(2) by simp

lemma keeps_retract_run [simp]: "keeps db (retract_mailbox_for_task_run k n now db)"
  unfolding retract_mailbox_for_task_run_def
  by (rule keeps_mail_then_outbox; (rule keeps_mail_update | rule outbox_ok_update))
    (auto simp: retract_mail_row_def)

lemma keeps_release_expired [simp]: "keeps db (release_expired_claims now db)"
  unfolding release_expired_claims_def by (rule keeps_mail_update) (auto simp: pending_mail_row_def)

lemma keeps_migration: "keeps db db' \<Longrightarrow> keeps db (db'\<lparr>db_migration := x\<rparr>)"
  by (auto simp: keeps_def db_inv_def mail_kept_def events_kept_def)

lemma keeps_reviews:
  "(reviews_ok (db_reviews db) (db_last_review_sequence db) \<Longrightarrow> reviews_ok rows n)
    \<Longrightarrow> keeps db (db\<lparr>db_reviews := rows, db_last_review_sequence := n\<rparr>)"
  by (auto simp: keeps_def db_inv_def mail_kept_def events_kept_def)


subsection \<open>Every operation keeps the invariant\<close>

lemma write_keeps_replace_review:
  assumes "case review of None \<Rightarrow> True | Some p \<Rightarrow> rv_task_id p = k"
  shows "write_keeps db (replace_review_locked k review db)"
proof (cases review)
  case None
  have "keeps db (db\<lparr>db_reviews := rows_delete P (db_reviews db), db_last_review_sequence := db_last_review_sequence db\<rparr>)" for P
    by (rule keeps_reviews) (auto simp: reviews_ok_def unique_key_delete rows_delete_def [of P "db_reviews db"] unique_key_filter)
  then show ?thesis
    using None by (simp add: replace_review_locked_def)
next
  case (Some p)
  let ?others = "rows_delete (\<lambda>v. rv_task_id v = k) (db_reviews db)"
  have ok: "reviews_ok (?others @ [p\<lparr>rv_ingest_sequence := s, rv_cursor_order_updated_at := c\<rparr>]) n"
    if "reviews_ok (db_reviews db) m" "m \<le> n" "s \<le> n"
      "\<not> list_ex (\<lambda>v. rv_review_id v = rv_review_id p \<or> rv_ingest_sequence v = s) ?others" for s c m n
    using that assms Some
    by (auto simp: reviews_ok_def unique_key_snoc unique_key_filter rows_delete_def list_ex_iff intro: order_trans)
  have kept: "keeps db (db\<lparr>db_reviews := ?others @ [p\<lparr>rv_ingest_sequence := s, rv_cursor_order_updated_at := c\<rparr>],
      db_last_review_sequence := n\<rparr>)"
    if "db_last_review_sequence db \<le> n" "reviews_ok (db_reviews db) (db_last_review_sequence db) \<Longrightarrow> s \<le> n"
      "\<not> list_ex (\<lambda>v. rv_review_id v = rv_review_id p \<or> rv_ingest_sequence v = s) ?others" for s c n
    by (rule keeps_reviews, rule ok) (use that in auto)
  have swap: "db\<lparr>db_last_review_sequence := n, db_reviews := x\<rparr> = db\<lparr>db_reviews := x, db_last_review_sequence := n\<rparr>" for n x
    by simp
  have fresh: "write_keeps db (and_then (ingest_review p db) (\<lambda>(db1, sequence, cursor).
               let others = rows_delete (\<lambda>v. rv_task_id v = k) (db_reviews db1)
               in if list_ex (\<lambda>v. rv_review_id v = rv_review_id p \<or> rv_ingest_sequence v = sequence) others
                  then Inl Store_integrity_error
                  else Inr (db1\<lparr>db_reviews := others @
                         [p\<lparr>rv_ingest_sequence := sequence, rv_cursor_order_updated_at := cursor\<rparr>]\<rparr>)))"
    using kept [of "db_last_review_sequence db + 1" "db_last_review_sequence db + 1"]
    by (auto simp: ingest_review_def Let_def and_then_def swap)
  show ?thesis
  proof (cases "row_at rv_task_id k (db_reviews db)")
    case None
    then show ?thesis
      using fresh Some by (simp add: replace_review_locked_def)
  next
    case old: (Some old)
    have "reviews_ok (db_reviews db) n \<Longrightarrow> rv_ingest_sequence old \<le> n" for n
      using row_at_SomeD [OF old] by (auto simp: reviews_ok_def)
    then show ?thesis
      using fresh Some old kept [of "db_last_review_sequence db" "rv_ingest_sequence old" "rv_cursor_order_updated_at old"]
      by (auto simp: replace_review_locked_def and_then_def Let_def)
  qed
qed


lemma step_keeps_all_events [simp]: "step_keeps db (append_all_events es db)"
proof (induction es arbitrary: db)
  case (Cons e es)
  then show ?case
    by (cases e) (auto intro!: step_keeps_and_then_pair)
qed simp

lemma step_keeps_from: "keeps db db1 \<Longrightarrow> step_keeps db1 r \<Longrightarrow> step_keeps db r"
  unfolding step_keeps_def using keeps_trans by blast

lemma step_keeps_read [simp]: "step_keeps db (and_then r (\<lambda>x. Inr (db, g x)))"
  by (rule step_keeps_and_then_unit) simp

lemma keeps_suppress_retract [simp]:
  "keeps db (retract_mailbox_for_task_run k n now (suppress_for_task_run k n db))"
  using keeps_trans [OF keeps_suppress keeps_retract_run] by blast

lemma step_keeps_reconcile_page [simp]: "step_keeps db (reconcile_page uuid5 now rs db n)"
proof (induction rs arbitrary: db n)
  case (Cons r rs)
  have "step_keeps db (reconcile_page uuid5 now rs db1 m)" if "keeps db db1" for db1 m
    using step_keeps_from [OF that Cons.IH] .
  then show ?case
    by (auto intro!: step_keeps_and_then_pair Cons.IH split: option.splits)
qed simp

lemma keeps_save_task: "keeps db (fst (save_task r db))"
  unfolding save_task_def
  by (rule keeps_transact)
    (auto simp: keeps_tasks unique_key_rows_update task_at_def keeps_def db_inv_def mail_kept_def
      events_kept_def unique_key_snoc row_at_None step_keeps_def and_then_Inr split: option.splits)

lemma keeps_insert_task: "keeps db (fst (insert_task r db))"
  unfolding insert_task_def
  by (intro keeps_transact step_keeps_and_then_unit step_keeps_and_then_db) simp_all

lemma keeps_update_task: "keeps db (fst (update_task r db))"
  unfolding update_task_def by (intro keeps_transact step_keeps_and_then_db) simp_all

lemma step_keeps_migration [simp]: "step_keeps db (Inr (db\<lparr>db_migration := m\<rparr>, x))"
  by (simp add: keeps_migration)

lemma keeps_reconcile: "keeps db (fst (reconcile_legacy_settlements uuid5 limit now db))"
  unfolding reconcile_legacy_settlements_def Let_def
  by (auto simp del: step_keeps_Inr intro!: keeps_transact step_keeps_and_then_pair)
    (simp_all)

lemma keeps_claim_pending: "keeps db (fst (claim_pending owner token limit lease now db))"
proof -
  have 1: "keeps d (d\<lparr>db_outbox := rows_update P (release_outbox_row OB_pending) (db_outbox d)\<rparr>)" for d P
    by (intro keeps_outbox outbox_ok_update) (simp_all add: release_outbox_row_def)
  have 2: "keeps d (d\<lparr>db_outbox := rows_update P (\<lambda>r. r\<lparr>ob_status := OB_claimed, ob_claimed_by := Some owner,
                            ob_claim_token := Some token, ob_claimed_at := Some now,
                            ob_claim_expires_at := Some (now + lease),
                            ob_attempt_count := ob_attempt_count r + 1, ob_last_error := None\<rparr>) (db_outbox d)\<rparr>)" for d P
    by (intro keeps_outbox outbox_ok_update) simp_all
  show ?thesis
    unfolding claim_pending_def Let_def
    using keeps_trans [OF keeps_trans [OF keeps_discard 1] 2] by simp
qed

lemma keeps_release_claim: "keeps db (fst (release_claim owner i e db))"
  unfolding release_claim_def Let_def
  by (auto split: option.splits intro!: keeps_outbox outbox_ok_update simp: release_outbox_row_def)

lemma keeps_insert_task_with_event: "keeps db (fst (insert_task_with_event r e db))"
  unfolding insert_task_with_event_def
  by (intro keeps_transact step_keeps_and_then_unit step_keeps_and_then_db) simp_all

lemma keeps_update_task_with_event: "keeps db (fst (update_task_with_event r e i db))"
  unfolding update_task_with_event_def
  by (auto intro!: keeps_transact step_keeps_rules)

lemma keeps_append_task_event: "keeps db (fst (append_task_event k n e db))"
  unfolding append_task_event_def by (rule keeps_transact) simp

lemma keeps_event_anchor: "keeps db (fst (get_task_with_event_anchor b k n db))"
  unfolding get_task_with_event_anchor_def
  by (rule keeps_transact) (auto simp: Let_def split: option.splits intro!: step_keeps_and_then_pair)

lemma keeps_review_transition: "keeps db (fst (update_review_transition r v x es i db))"
  unfolding update_review_transition_def
  by (auto split: option.splits intro!: keeps_transact step_keeps_rules write_keeps_replace_review)


lemma keeps_uncertain: "keeps db (fst (update_uncertain_external_operation r db))"
  unfolding update_uncertain_external_operation_def
proof (rule keeps_transact, rule step_keeps_and_then_db)
  fix db1
  let ?d = "discard_invalid_uncertain (Some (tk_task_id r)) db1"
  have "step_keeps db1 (and_then (update_task_locked x (fst ?d)) (\<lambda>db3. Inr (db3, x)))" for x
    by (rule step_keeps_from [of _ "fst ?d"]) (auto intro: step_keeps_and_then_db)
  then show "step_keeps db1 (let (db2, outcomes) = ?d
        in case map_of (rev outcomes) (tk_task_id r, tk_run_count r) of
             None \<Rightarrow> Inr (db2, r)
           | Some delivered \<Rightarrow>
               if tk_mailbox_delivered r \<noteq> delivered then
                 and_then (update_task_locked (r\<lparr>tk_mailbox_delivered := delivered\<rparr>) db2)
                   (\<lambda>db3. Inr (db3, r\<lparr>tk_mailbox_delivered := delivered\<rparr>))
               else Inr (db2, r))"
    by (auto simp: Let_def split_beta split: option.splits)
qed simp

lemma keeps_rejected: "keeps db (fst (update_rejected_external_operation r i db))"
  unfolding update_rejected_external_operation_def
  by (auto intro!: keeps_transact step_keeps_rules)

lemma keeps_suppress_settled: "keeps db (fst (suppress_settled_delivery r now db))"
  unfolding suppress_settled_delivery_def
  by (auto intro!: keeps_transact step_keeps_and_then_db)

lemma keeps_mail_publish: "keeps db (fst (mail_publish m db))"
  by (auto simp: mail_publish_def fresh_mail_def mail_collides_def intro!: keeps_insert_mail)

lemma distinct_rekey:
  assumes "distinct (mail_keys rows)" and "k \<notin> set (mail_keys rows)"
    and "unique_key mb_message_id rows"
  shows "distinct (mail_keys (rows_update (\<lambda>x. mb_message_id x = i \<and> mb_idempotency_key x = None)
     (\<lambda>x. x\<lparr>mb_idempotency_key := Some k\<rparr>) rows))"
  using assms
proof (induction rows)
  case (Cons m rows)
  let ?P = "\<lambda>x. mb_message_id x = i \<and> mb_idempotency_key x = None"
  let ?u = "rows_update ?P (\<lambda>x. x\<lparr>mb_idempotency_key := Some k\<rparr>) rows"
  have sub: "set (mail_keys ?u) \<subseteq> insert k (set (mail_keys rows))"
  proof
    fix x assume "x \<in> set (mail_keys ?u)"
    then obtain q where "q \<in> set rows" "mb_idempotency_key (if ?P q then q\<lparr>mb_idempotency_key := Some k\<rparr> else q) = Some x"
      by (auto simp: in_mail_keys in_rows_update)
    then show "x \<in> insert k (set (mail_keys rows))"
      by (auto simp: in_mail_keys split: if_splits)
  qed
  have "?u = rows" if "mb_message_id m = i"
    using that Cons.prems(3) by (intro rows_update_id) (metis image_eqI list.simps(9) distinct.simps(2) set_map unique_key_def)
  moreover have "mail_keys (m # r) = (case mb_idempotency_key m of None \<Rightarrow> [] | Some k \<Rightarrow> [k]) @ mail_keys r" for m r
    by (simp add: mail_keys_def)
  ultimately show ?case
    using Cons sub by (cases "mb_message_id m = i"; cases "mb_idempotency_key m")
      (auto simp: unique_key_def)
qed (simp add: mail_keys_def)

lemma keeps_rekey:
  assumes "\<forall>m \<in> set (db_mail db). mb_idempotency_key m \<noteq> Some k"
  shows "keeps db (db\<lparr>db_mail := rows_update (\<lambda>x. mb_message_id x = i \<and> mb_idempotency_key x = None)
     (\<lambda>x. x\<lparr>mb_idempotency_key := Some k\<rparr>) (db_mail db)\<rparr>)" (is "keeps db (db\<lparr>db_mail := ?u\<rparr>)")
proof -
  have "(if mb_message_id m = i \<and> mb_idempotency_key m = None then m\<lparr>mb_idempotency_key := Some k\<rparr> else m)
      \<in> set ?u" if "m \<in> set (db_mail db)" for m
    using that unfolding rows_update_def set_map by (rule imageI)
  moreover have "same_message m (if mb_message_id m = i \<and> mb_idempotency_key m = None
      then m\<lparr>mb_idempotency_key := Some k\<rparr> else m)" for m
    by (simp add: same_message_def)
  ultimately have "\<exists>m' \<in> set ?u. mb_status m' = MB_delivered \<and> same_message m m'"
    if "m \<in> set (db_mail db)" "mb_status m = MB_delivered" for m
    using that by (intro bexI [of _ "if mb_message_id m = i \<and> mb_idempotency_key m = None
      then m\<lparr>mb_idempotency_key := Some k\<rparr> else m"]) auto
  then have "mail_kept db (db\<lparr>db_mail := ?u\<rparr>)"
    by (simp add: mail_kept_def)
  moreover have "mail_ok ?u n" if "mail_ok (db_mail db) n" for n
  proof -
    have "\<forall>m \<in> set ?u. mb_wakeup_sequence m \<le> n"
      using that by (auto simp: mail_ok_def in_rows_update)
    moreover have "distinct (mail_keys ?u)"
      using that assms by (intro distinct_rekey) (auto simp: mail_ok_def in_mail_keys)
    ultimately show ?thesis
      using that by (simp add: mail_ok_def unique_key_rows_update)
  qed
  ultimately show ?thesis
    by (auto simp: keeps_def db_inv_def events_kept_def)
qed

lemma write_keeps_resolve [simp]: "write_keeps db (resolve_settled_message i db)"
proof -
  have "write_keeps db (resolve_settled_message i db)"
    if "filter (\<lambda>m. mb_idempotency_key m = Some (so_outbox_key i)) (db_mail db) = []"
    using that by (auto simp: resolve_settled_message_def filter_empty_conv
        intro!: keeps_insert_mail keeps_rekey split: list.splits)
  moreover have "write_keeps db (resolve_settled_message i db)"
    if "filter (\<lambda>m. mb_idempotency_key m = Some (so_outbox_key i)) (db_mail db) = x # xs" for x xs
    using that by (auto simp: resolve_settled_message_def split: list.splits)
  ultimately show ?thesis
    by (cases "filter (\<lambda>m. mb_idempotency_key m = Some (so_outbox_key i)) (db_mail db)") auto
qed


lemma write_keeps_outbox_update:
  "(\<And>r. ob_outbox_key (f r) = ob_outbox_key r) \<Longrightarrow> (\<And>r. ob_message_id (f r) = ob_message_id r)
    \<Longrightarrow> (\<And>r. ob_task_id (f r) = ob_task_id r) \<Longrightarrow> (\<And>r. ob_run_count (f r) = ob_run_count r)
    \<Longrightarrow> unique_key tk_task_id ts = unique_key tk_task_id (db_tasks db)
    \<Longrightarrow> keeps db (db\<lparr>db_outbox := rows_update P f (db_outbox db), db_tasks := ts\<rparr>)"
  using keeps_trans [OF keeps_outbox [of db "rows_update P f (db_outbox db)"]
      keeps_tasks [of ts "db\<lparr>db_outbox := rows_update P f (db_outbox db)\<rparr>"]]
  by (simp add: outbox_ok_update)

lemma keeps_publish_claimed: "keeps db (fst (publish_claimed_settled_outbox i now db))"
  unfolding publish_claimed_settled_outbox_def Let_def
  by (auto intro!: keeps_transact step_keeps_and_then_db write_keeps_outbox_update
      simp: release_outbox_row_def unique_key_rows_update split: option.splits)

lemma keeps_retract_settled_outbox: "keeps db (fst (retract_settled_outbox i now db))"
  unfolding retract_settled_outbox_def
  by (auto intro!: keeps_mail_then_outbox outbox_ok_update keeps_mail_update)

lemma keeps_list_triggers: "keeps db (fst (list_pending_trigger_recipients n now db))"
  by (simp add: list_pending_trigger_recipients_def Let_def)

lemma keeps_mail_claim: "keeps db (fst (mail_claim owner token rt rth lease now db))"
  unfolding mail_claim_def Let_def fst_conv
  by (rule keeps_trans [OF keeps_release_expired [of db now]], rule keeps_mail_update) auto

lemma keeps_acknowledge_loop: "keeps db (fst (acknowledge_loop owner now cs db n))"
proof (induction cs arbitrary: db n)
  case (Cons c cs)
  have "keeps db (db\<lparr>db_mail := rows_update (acknowledge_one owner now c) (deliver_mail_row now) (db_mail db)\<rparr>)"
    by (rule keeps_mail_update) (auto simp: deliver_mail_row_def acknowledge_one_def live_claim_def)
  then show ?case
    using keeps_trans [OF _ Cons.IH] by simp
qed simp

lemma keeps_mail_acknowledge: "keeps db (fst (mail_acknowledge owner now claims db))"
  by (simp add: mail_acknowledge_def keeps_acknowledge_loop)

lemma keeps_acknowledge_tokens: "keeps db (fst (acknowledge_claim_tokens owner now tokens db))"
  unfolding acknowledge_claim_tokens_def fst_conv
  by (rule keeps_mail_update) (auto simp: deliver_mail_row_def holds_token_def live_claim_def)

lemma keeps_release_tokens: "keeps db (fst (release_claim_tokens owner now tokens db))"
  unfolding release_claim_tokens_def fst_conv
  by (rule keeps_mail_update) (auto simp: pending_mail_row_def holds_token_def live_claim_def)

lemma keeps_renew_tokens: "keeps db (fst (renew_claim_tokens owner now tokens lease db))"
  unfolding renew_claim_tokens_def Let_def fst_conv
  by (rule keeps_mail_update) (auto simp: holds_token_def live_claim_def)

lemma keeps_retract_settled: "keeps db (retract_settled rth k n db)"
  unfolding retract_settled_def by (rule keeps_mail_update) (auto simp: retract_mail_row_def)

lemma keeps_max_triggering: "keeps db (fst (max_triggering_sequence k now db))"
  by (simp add: max_triggering_sequence_def Let_def)

lemma keeps_has_triggering: "keeps db (fst (has_triggering k n now db))"
  by (simp add: has_triggering_def Let_def split_beta keeps_max_triggering)

lemma keeps_recover: "keeps db (recover_claims now db)"
  by (simp add: recover_claims_def)

lemmas operations_keep =
  keeps_save_task keeps_insert_task keeps_update_task keeps_reconcile keeps_claim_pending
  keeps_release_claim keeps_insert_task_with_event keeps_update_task_with_event
  keeps_append_task_event keeps_event_anchor keeps_review_transition keeps_uncertain keeps_rejected
  keeps_suppress_settled keeps_mail_publish keeps_publish_claimed keeps_retract_settled_outbox
  keeps_list_triggers keeps_mail_claim keeps_mail_acknowledge keeps_acknowledge_tokens
  keeps_release_tokens keeps_renew_tokens keeps_retract_settled keeps_max_triggering
  keeps_has_triggering keeps_recover


subsection \<open>The operations as steps\<close>

text \<open>
  One public operation of the two stores, by any process, with any arguments: the only
  restriction is that an operation runs inside its own transaction.
\<close>

inductive store_step :: "task_db \<Rightarrow> task_db \<Rightarrow> bool" where
  SS_save: "store_step db (fst (save_task r db))"
| SS_insert: "store_step db (fst (insert_task r db))"
| SS_update: "store_step db (fst (update_task r db))"
| SS_reconcile: "store_step db (fst (reconcile_legacy_settlements uuid5 limit now db))"
| SS_claim_outbox: "store_step db (fst (claim_pending owner token limit lease now db))"
| SS_release_outbox: "store_step db (fst (release_claim owner i e db))"
| SS_insert_event: "store_step db (fst (insert_task_with_event r ev db))"
| SS_update_event: "store_step db (fst (update_task_with_event r ev intent db))"
| SS_append_event: "store_step db (fst (append_task_event k n ev db))"
| SS_anchor: "store_step db (fst (get_task_with_event_anchor b k n db))"
| SS_review: "store_step db (fst (update_review_transition r v x es intent db))"
| SS_uncertain: "store_step db (fst (update_uncertain_external_operation r db))"
| SS_rejected: "store_step db (fst (update_rejected_external_operation r intent db))"
| SS_suppress: "store_step db (fst (suppress_settled_delivery r now db))"
| SS_publish_mail: "store_step db (fst (mail_publish m db))"
| SS_publish_outbox: "store_step db (fst (publish_claimed_settled_outbox i now db))"
| SS_retract_outbox: "store_step db (fst (retract_settled_outbox i now db))"
| SS_list_triggers: "store_step db (fst (list_pending_trigger_recipients n now db))"
| SS_claim_mail: "store_step db (fst (mail_claim owner token rt rth lease now db))"
| SS_acknowledge: "store_step db (fst (mail_acknowledge owner now claims db))"
| SS_acknowledge_tokens: "store_step db (fst (acknowledge_claim_tokens owner now tokens db))"
| SS_release_tokens: "store_step db (fst (release_claim_tokens owner now tokens db))"
| SS_renew_tokens: "store_step db (fst (renew_claim_tokens owner now tokens lease db))"
| SS_retract_settled: "store_step db (retract_settled rth k n db)"
| SS_max_triggering: "store_step db (fst (max_triggering_sequence k now db))"
| SS_recover: "store_step db (recover_claims now db)"

lemma store_step_keeps: "store_step db db' \<Longrightarrow> keeps db db'"
  by (induction rule: store_step.induct) (rule operations_keep)+

lemma store_steps_keep: "store_step\<^sup>*\<^sup>* db db' \<Longrightarrow> keeps db db'"
  by (induction rule: rtranclp_induct) (auto dest: store_step_keeps keeps_trans)

lemma delivered_kept:
  assumes "store_step\<^sup>*\<^sup>* db db'" and "db_inv db" and "m \<in> set (db_mail db)" and "mb_status m = MB_delivered"
  shows "\<exists>m' \<in> set (db_mail db'). mb_status m' = MB_delivered \<and> same_message m m'"
  using assms store_steps_keep [of db db'] by (auto simp: keeps_def mail_kept_def)

lemma key_unique:
  "db_inv db \<Longrightarrow> m \<in> set (db_mail db) \<Longrightarrow> x \<in> set (db_mail db) \<Longrightarrow> mb_idempotency_key m = Some k
    \<Longrightarrow> mb_idempotency_key x = Some k \<Longrightarrow> x = m"
proof -
  have "distinct (mail_keys rows) \<Longrightarrow> m \<in> set rows \<Longrightarrow> x \<in> set rows \<Longrightarrow> mb_idempotency_key m = Some k
    \<Longrightarrow> mb_idempotency_key x = Some k \<Longrightarrow> x = m" for rows
  proof (induction rows)
    case (Cons r rows)
    have "mail_keys (r # rows) = (case mb_idempotency_key r of None \<Rightarrow> [] | Some k \<Rightarrow> [k]) @ mail_keys rows"
      by (simp add: mail_keys_def)
    with Cons show ?case
      by (cases "mb_idempotency_key r") (auto simp: in_mail_keys)
  qed simp
  then show "db_inv db \<Longrightarrow> m \<in> set (db_mail db) \<Longrightarrow> x \<in> set (db_mail db) \<Longrightarrow> mb_idempotency_key m = Some k
    \<Longrightarrow> mb_idempotency_key x = Some k \<Longrightarrow> x = m"
    by (auto simp: db_inv_def mail_ok_def)
qed

end
