(* ===== verification/Settlement_Delivery.thy ===== *)
theory Settlement_Delivery
  imports Task_Database_Invariant
begin

text \<open>
  What the two stores promise of a settled run's message together: it is published once, it is
  final once read, a suppressed run publishes nothing more, and a claim on the mailbox is exact
  and exclusive.
\<close>

subsection \<open>Keys\<close>

text \<open>
  C30. The keys of the shared database stay unique whatever sequence of store operations any
  processes run on it: one task per id, one outbox intent per key, message id and task run,
  one message per id and idempotency key, event ids strictly increasing, one review per id, per
  task and per ingest number, and wakeup numbers unique and below the counter.
\<close>

theorem database_keys_unique: "store_step\<^sup>*\<^sup>* empty_db db \<Longrightarrow> db_inv db"
  using store_steps_keep [of empty_db db] db_inv_empty by (simp add: keeps_def)

subsection \<open>Publication\<close>

lemma filter_single:
  assumes "x \<in> set xs" and "P x" and "distinct xs" and "\<And>y. y \<in> set xs \<Longrightarrow> P y \<Longrightarrow> y = x"
  shows "filter P xs = [x]"
  using assms
proof (induction xs)
  case (Cons y ys)
  show ?case
  proof (cases "y = x")
    case True
    have "\<not> P z" if "z \<in> set ys" for z
      using that True Cons.prems(3) Cons.prems(4) [of z] by auto
    then have "filter P ys = []"
      by (simp add: filter_empty_conv)
    then show ?thesis
      using True Cons.prems(2) by simp
  next
    case False
    then have "\<not> P y"
      using Cons.prems(4) [of y] by auto
    moreover have "filter P ys = [x]"
      using False Cons.prems by (intro Cons.IH) simp_all
    ultimately show ?thesis
      by simp
  qed
qed simp

lemma distinct_mail: "db_inv db \<Longrightarrow> distinct (db_mail db)"
  by (auto simp: db_inv_def mail_ok_def unique_key_def distinct_map)

lemma keyed_mail:
  "db_inv db \<Longrightarrow> m \<in> set (db_mail db) \<Longrightarrow> mb_idempotency_key m = Some k
    \<Longrightarrow> filter (\<lambda>x. mb_idempotency_key x = Some k) (db_mail db) = [m]"
  by (intro filter_single) (auto simp: distinct_mail dest: key_unique)

text \<open>
  C22. A settlement message that reached its reader is final: whatever store operations any
  processes run afterwards (claims, releases, suppression, retraction, the repair of uncertain
  remote runs, republication of the same intent), the mailbox holds exactly one message with
  its idempotency key, and it is still delivered, under the same id and with the same content.
\<close>

theorem settlement_delivered_once:
  assumes "store_step\<^sup>*\<^sup>* empty_db db" and "store_step\<^sup>*\<^sup>* db db'"
    and "m \<in> set (db_mail db)" and "mb_status m = MB_delivered" and "mb_idempotency_key m = Some k"
  shows "\<exists>m'. filter (\<lambda>x. mb_idempotency_key x = Some k) (db_mail db') = [m']
    \<and> mb_status m' = MB_delivered \<and> mb_message_id m' = mb_message_id m \<and> mb_content m' = mb_content m"
proof -
  have inv: "db_inv db" "db_inv db'"
    using store_steps_keep [OF assms(1)] store_steps_keep [OF assms(2)] db_inv_empty
    by (auto simp: keeps_def)
  obtain m' where "m' \<in> set (db_mail db')" "mb_status m' = MB_delivered" "same_message m m'"
    using delivered_kept [OF assms(2) inv(1) assms(3,4)] by blast
  with assms(5) show ?thesis
    using keyed_mail [OF inv(2), of m' k] by (auto simp: same_message_def)
qed

lemma resolve_keeps_tables:
  "resolve_settled_message i db = Inr db1 \<Longrightarrow> db_outbox db1 = db_outbox db \<and> db_tasks db1 = db_tasks db"
  by (auto simp: resolve_settled_message_def insert_mail_def Let_def split: list.splits if_splits)

lemma settled_row_ok [simp]: "settled_identity_ok (settled_mail_row i) i"
  by (simp add: settled_identity_ok_def settled_mail_row_def)

lemma settled_identity_key [simp]:
  "settled_identity_ok (m\<lparr>mb_idempotency_key := k\<rparr>) i = settled_identity_ok m i"
  "settled_identity_ok (m\<lparr>mb_wakeup_sequence := n\<rparr>) i = settled_identity_ok m i"
  by (simp_all add: settled_identity_ok_def)

lemma resolve_publishes:
  assumes "resolve_settled_message i db = Inr db1"
  shows "\<exists>m \<in> set (db_mail db1). mb_idempotency_key m = Some (so_outbox_key i) \<and> settled_identity_ok m i"
proof (cases "filter (\<lambda>m. mb_idempotency_key m = Some (so_outbox_key i)) (db_mail db)")
  case (Cons m ms)
  then have "m \<in> set (db_mail db)" "mb_idempotency_key m = Some (so_outbox_key i)"
    by (auto simp: filter_eq_Cons_iff)
  then show ?thesis
    using assms Cons by (auto simp: resolve_settled_message_def split: list.splits if_splits)
next
  case Nil
  let ?legacy = "sort_key mail_order (filter (\<lambda>m. mb_idempotency_key m = None
                  \<and> mb_recipient_thread_id m = so_recipient_thread_id i
                  \<and> mb_child_task_id m = Some (so_task_id i)
                  \<and> mb_child_run_count m = Some (so_run_count i)
                  \<and> mb_status m \<in> {MB_pending, MB_claimed, MB_delivered}) (db_mail db))"
  show ?thesis
  proof (cases ?legacy)
    case legacy: Nil
    then show ?thesis
      using assms Nil by (auto simp: resolve_settled_message_def insert_mail_def Let_def
          settled_mail_row_def settled_identity_ok_def split: if_splits)
  next
    case legacy: (Cons m ms)
    then have "m \<in> set ?legacy"
      by simp
    then have m: "m \<in> set (db_mail db)" "mb_idempotency_key m = None"
      by auto
    have "ms = [] \<and> settled_identity_ok m i \<and> db1 = db\<lparr>db_mail := rows_update
        (\<lambda>x. mb_message_id x = mb_message_id m \<and> mb_idempotency_key x = None)
        (\<lambda>x. x\<lparr>mb_idempotency_key := Some (so_outbox_key i)\<rparr>) (db_mail db)\<rparr>"
      using assms Nil legacy by (cases ms) (auto simp: resolve_settled_message_def split: if_splits)
    then show ?thesis
      using m by (intro bexI [of _ "m\<lparr>mb_idempotency_key := Some (so_outbox_key i)\<rparr>"])
        (auto simp: rows_update_def image_iff intro!: bexI [of _ m])
  qed
qed


text \<open>
  When the outbox worker's publication succeeds, the mailbox holds exactly one message under
  the settlement key and it says what the intent says (recipient, child run, status and
  content, not retracted); the outbox row is delivered and carries no lease; the task run's
  delivered flag is set unless the run is suppressed; and publishing the same claimed intent
  again, at any time, reports False and changes nothing.
\<close>

theorem publish_settles_once:
  assumes "db_inv db" and "publish_claimed_settled_outbox i now db = (db', Inr True)"
  shows "(\<exists>m. filter (\<lambda>x. mb_idempotency_key x = Some (so_outbox_key i)) (db_mail db') = [m]
      \<and> settled_identity_ok m i)
    \<and> (\<exists>r \<in> set (db_outbox db'). ob_outbox_key r = so_outbox_key i \<and> ob_status r = OB_delivered
      \<and> ob_claim_token r = None)
    \<and> (\<forall>t \<in> set (db_tasks db'). tk_task_id t = so_task_id i \<and> tk_run_count t = so_run_count i
      \<longrightarrow> tk_mailbox_suppressed t \<or> tk_mailbox_delivered t)
    \<and> (\<forall>later. publish_claimed_settled_outbox i later db' = (db', Inr False))"
proof -
  have inv: "db_inv db'"
    using keeps_publish_claimed [of db i now] assms by (simp add: keeps_def)
  obtain token where token: "so_claim_token i = Some token"
    using assms(2) by (auto simp: publish_claimed_settled_outbox_def split: option.splits)
  let ?P = "\<lambda>r. ob_outbox_key r = so_outbox_key i \<and> ob_status r = OB_claimed \<and> ob_claim_token r = Some token"
  let ?deliver = "\<lambda>r. (release_outbox_row OB_delivered r)\<lparr>ob_delivered_at := Some now, ob_last_error := None\<rparr>"
  obtain db1 where r: "resolve_settled_message i db = Inr db1" and one: "rows_count ?P (db_outbox db1) = 1"
    and db': "db' = db1\<lparr>db_outbox := rows_update ?P ?deliver (db_outbox db1),
        db_tasks := rows_update (\<lambda>t. tk_task_id t = so_task_id i
             \<and> tk_run_count t = so_run_count i \<and> \<not> tk_mailbox_suppressed t)
           (\<lambda>t. t\<lparr>tk_mailbox_delivered := True\<rparr>) (db_tasks db1)\<rparr>"
    using assms(2) token
    by (auto simp: publish_claimed_settled_outbox_def transact_def and_then_def Let_def
        split: sum.splits if_splits)
  have "db_mail db' = db_mail db1"
    by (simp add: db')
  then obtain m where "m \<in> set (db_mail db')" "mb_idempotency_key m = Some (so_outbox_key i)" "settled_identity_ok m i"
    using resolve_publishes [OF r] by auto
  then have 1: "\<exists>m. filter (\<lambda>x. mb_idempotency_key x = Some (so_outbox_key i)) (db_mail db') = [m]
      \<and> settled_identity_ok m i"
    using keyed_mail [OF inv] by blast
  obtain q where "q \<in> set (db_outbox db1)" "?P q"
    using one rows_count_pos [of ?P "db_outbox db1"] by auto
  then have 2: "\<exists>r \<in> set (db_outbox db'). ob_outbox_key r = so_outbox_key i \<and> ob_status r = OB_delivered
      \<and> ob_claim_token r = None"
    by (intro bexI [of _ "?deliver q"]) (auto simp: db' rows_update_def release_outbox_row_def image_iff intro!: bexI [of _ q])
  have 3: "\<forall>t \<in> set (db_tasks db'). tk_task_id t = so_task_id i \<and> tk_run_count t = so_run_count i
      \<longrightarrow> tk_mailbox_suppressed t \<or> tk_mailbox_delivered t"
    by (auto simp: db' rows_update_def)
  have "\<not> ?P r" if "r \<in> set (db_outbox db')" for r
    using that by (auto simp: db' rows_update_def release_outbox_row_def)
  then have "publish_claimed_settled_outbox i later db' = (db', Inr False)" for later
    using token by (auto simp: publish_claimed_settled_outbox_def publishable_def list_ex_iff transact_def)
  with 1 2 3 show ?thesis
    by blast
qed


subsection \<open>Claims on the mailbox\<close>

text \<open>The messages a claim by this recipient may take: the ones nobody holds.\<close>

definition unheld :: "int \<Rightarrow> mail_row \<Rightarrow> bool" where
  "unheld now m \<longleftrightarrow> mb_status m = MB_pending
     \<or> mb_status m = MB_claimed \<and> expired now (mb_claim_expires_at m)"

definition claimed_mail :: "pystr \<Rightarrow> pystr \<Rightarrow> int \<Rightarrow> int \<Rightarrow> mail_row \<Rightarrow> mail_row" where
  "claimed_mail owner token lease now m =
     m\<lparr>mb_status := MB_claimed, mb_claimed_at := Some now, mb_claim_expires_at := Some (now + lease),
       mb_claimed_by := Some owner, mb_claim_token := Some token\<rparr>"

lemma mail_suppressed_release [simp]:
  "mail_suppressed (release_expired_claims now db) m = mail_suppressed db m"
  by (simp add: mail_suppressed_def release_expired_claims_def)

lemma mail_suppressed_pending [simp]: "mail_suppressed db (pending_mail_row m) = mail_suppressed db m"
  by (simp add: mail_suppressed_def pending_mail_row_def)

lemma addressed_pending [simp]: "addressed t th (pending_mail_row m) = addressed t th m"
  by (simp add: addressed_def pending_mail_row_def)

lemma pending_mail_simps [simp]:
  "mb_status (pending_mail_row m) = MB_pending" "mb_message_id (pending_mail_row m) = mb_message_id m"
  "mb_claim_token (pending_mail_row m) = None" "mb_created_at (pending_mail_row m) = mb_created_at m"
  by (simp_all add: pending_mail_row_def)

lemma claimed_mail_simps [simp]:
  "mb_status (claimed_mail ow tok l now m) = MB_claimed"
  "mb_message_id (claimed_mail ow tok l now m) = mb_message_id m"
  "mb_claimed_by (claimed_mail ow tok l now m) = Some ow"
  "mb_claim_token (claimed_mail ow tok l now m) = Some tok"
  "mb_claim_expires_at (claimed_mail ow tok l now m) = Some (now + l)"
  "claimed_mail ow tok l now (pending_mail_row m) = claimed_mail ow tok l now m"
  by (simp_all add: claimed_mail_def pending_mail_row_def)

text \<open>One claim, row by row.\<close>

definition takes :: "pystr option \<Rightarrow> pystr \<Rightarrow> int \<Rightarrow> task_db \<Rightarrow> mail_row \<Rightarrow> bool" where
  "takes recipient_task_id recipient_thread_id now db m \<longleftrightarrow>
     unheld now m \<and> addressed recipient_task_id recipient_thread_id m \<and> \<not> mail_suppressed db m"

definition after_claim ::
  "pystr \<Rightarrow> pystr \<Rightarrow> pystr option \<Rightarrow> pystr \<Rightarrow> int \<Rightarrow> int \<Rightarrow> task_db \<Rightarrow> mail_row \<Rightarrow> mail_row" where
  "after_claim owner token rt rth lease now db m =
     (if takes rt rth now db m then claimed_mail owner token lease now m
      else if mb_status m = MB_claimed \<and> expired now (mb_claim_expires_at m) then pending_mail_row m
      else m)"

lemma selected_key:
  assumes "unique_key key rows" and "x \<in> set rows"
  shows "key x \<in> set (map key (sort_key f (filter P rows))) \<longleftrightarrow> P x"
  using assms unique_key_same [OF assms(1)] by auto

lemma mail_claim_rows:
  assumes "unique_key mb_message_id (db_mail db)"
  shows "db_mail (fst (mail_claim owner token rt rth lease now db))
    = map (after_claim owner token rt rth lease now db) (db_mail db)"
proof -
  let ?rel = "\<lambda>m. if mb_status m = MB_claimed \<and> expired now (mb_claim_expires_at m) then pending_mail_row m else m"
  let ?rows = "map ?rel (db_mail db)"
  let ?open = "\<lambda>m. mb_status m = MB_pending \<and> addressed rt rth m \<and> \<not> mail_suppressed db m"
  let ?ids = "set (map mb_message_id (sort_key mail_order (filter ?open ?rows)))"
  have rows: "db_mail (release_expired_claims now db) = ?rows"
    by (simp add: release_expired_claims_def rows_update_def)
  have "unique_key mb_message_id ?rows"
    using assms by (simp add: unique_key_map)
  then have sel: "mb_message_id (?rel m) \<in> ?ids \<longleftrightarrow> ?open (?rel m)" if "m \<in> set (db_mail db)" for m
    by (rule selected_key) (simp add: that)
  have "db_mail (fst (mail_claim owner token rt rth lease now db)) =
      map (\<lambda>m. if mb_message_id (?rel m) \<in> ?ids \<and> mb_status (?rel m) = MB_pending
        then claimed_mail owner token lease now (?rel m) else ?rel m) (db_mail db)"
    by (simp only: mail_claim_def Let_def fst_conv mail_suppressed_release rows claimed_mail_def)
      (simp add: rows_update_def comp_def)
  also have "\<dots> = map (after_claim owner token rt rth lease now db) (db_mail db)"
    by (rule map_cong [OF refl]) (simp only: sel, auto simp: after_claim_def takes_def unheld_def)
  finally show ?thesis .
qed


lemma mail_claim_taken:
  assumes "unique_key mb_message_id (db_mail db)" and "\<forall>m \<in> set (db_mail db). mb_claim_token m \<noteq> Some token"
  shows "set (snd (mail_claim owner token rt rth lease now db))
    = claimed_mail owner token lease now ` {m \<in> set (db_mail db). takes rt rth now db m}"
proof -
  have "snd (mail_claim owner token rt rth lease now db) = sort_key mail_order
      (filter (\<lambda>m. mb_claimed_by m = Some owner \<and> mb_claim_token m = Some token)
        (db_mail (fst (mail_claim owner token rt rth lease now db))))"
    by (simp add: mail_claim_def Let_def)
  then show ?thesis
    using assms(2) by (auto simp: mail_claim_rows [OF assms(1)] after_claim_def)
qed

lemma mail_claim_sorted: "sorted (map mail_order (snd (mail_claim owner token rt rth lease now db)))"
  by (simp add: mail_claim_def Let_def)

lemma mail_claim_distinct:
  assumes "unique_key mb_message_id (db_mail db)"
  shows "distinct (map mb_message_id (snd (mail_claim owner token rt rth lease now db)))"
proof -
  have "unique_key mb_message_id (db_mail (fst (mail_claim owner token rt rth lease now db)))"
    using assms by (simp add: mail_claim_rows unique_key_map after_claim_def)
  then have "distinct (map mb_message_id (filter P (db_mail (fst (mail_claim owner token rt rth lease now db)))))" for P
    by (simp add: unique_key_def distinct_map_filter)
  then show ?thesis
    by (simp add: mail_claim_def Let_def unique_key_def distinct_map)
qed

text \<open>
  A mailbox claim under a fresh token takes exactly the messages that are addressed to the
  recipient, belong to no suppressed run and are held by nobody (pending, or claimed under an
  expired lease), each once and in order of creation; every message it returns carries the
  claimant, the token and the new lease, and no message that somebody holds is touched.
\<close>

theorem mail_claim_exact:
  assumes "db_inv db" and "\<forall>m \<in> set (db_mail db). mb_claim_token m \<noteq> Some token"
    and "mail_claim owner token rt rth lease now db = (db', ms)"
  shows "set ms = claimed_mail owner token lease now ` {m \<in> set (db_mail db). takes rt rth now db m}
    \<and> sorted (map mail_order ms) \<and> distinct (map mb_message_id ms) \<and> set ms \<subseteq> set (db_mail db')
    \<and> (\<forall>m \<in> set (db_mail db). \<not> unheld now m \<longrightarrow> m \<in> set (db_mail db'))"
proof -
  have u: "unique_key mb_message_id (db_mail db)"
    using assms(1) by (simp add: db_inv_def mail_ok_def)
  have r: "snd (mail_claim owner token rt rth lease now db) = ms" "fst (mail_claim owner token rt rth lease now db) = db'"
    using assms(3) by simp_all
  have "set ms = claimed_mail owner token lease now ` {m \<in> set (db_mail db). takes rt rth now db m}"
    using mail_claim_taken [OF u assms(2)] r by metis
  moreover have "sorted (map mail_order ms)" "distinct (map mb_message_id ms)"
    using mail_claim_sorted mail_claim_distinct [OF u] r by metis+
  moreover have "set ms \<subseteq> set (db_mail db')"
    using assms(3) by (auto simp: mail_claim_def Let_def)
  moreover have "m \<in> set (db_mail db')" if "m \<in> set (db_mail db)" "\<not> unheld now m" for m
  proof -
    have "after_claim owner token rt rth lease now db m = m"
      using that by (auto simp: after_claim_def takes_def unheld_def)
    then show ?thesis
      using that mail_claim_rows [OF u, of owner token rt rth lease now] r(2) by (metis imageI list.set_map)
  qed
  ultimately show ?thesis
    by blast
qed

text \<open>
  Two claims never hand out the same message while the first lease runs: a second worker
  (any owner, any recipient) that claims before the lease of the first ends gets none of
  the messages the first one holds, and leaves them as they are.
\<close>

theorem mail_claim_exclusive:
  assumes "db_inv db" and "\<forall>m \<in> set (db_mail db). mb_claim_token m \<noteq> Some token"
    and "mail_claim owner token rt rth lease now db = (db1, ms)"
    and "\<forall>m \<in> set (db_mail db1). mb_claim_token m \<noteq> Some token2"
    and "mail_claim owner2 token2 rt2 rth2 lease2 now2 db1 = (db2, ms2)" and "now2 < now + lease"
  shows "mb_message_id ` set ms \<inter> mb_message_id ` set ms2 = {} \<and> set ms \<subseteq> set (db_mail db2)"
proof -
  have u: "unique_key mb_message_id (db_mail db)"
    using assms(1) by (simp add: db_inv_def mail_ok_def)
  have "keeps db db1"
    using keeps_mail_claim [of db owner token rt rth lease now] assms(3) by simp
  then have u1: "unique_key mb_message_id (db_mail db1)"
    using assms(1) by (simp add: keeps_def db_inv_def mail_ok_def)
  have ms: "set ms = claimed_mail owner token lease now ` {m \<in> set (db_mail db). takes rt rth now db m}"
    using mail_claim_taken [OF u assms(2), of owner rt rth lease now] assms(3) by simp
  have ms2: "set ms2 = claimed_mail owner2 token2 lease2 now2 ` {m \<in> set (db_mail db1). takes rt2 rth2 now2 db1 m}"
    using mail_claim_taken [OF u1 assms(4), of owner2 rt2 rth2 lease2 now2] assms(5) by simp
  have held: "m \<in> set (db_mail db1) \<and> \<not> unheld now2 m" if "m \<in> set ms" for m
  proof -
    have "m \<in> set (db_mail db1)"
      using that assms(3) by (auto simp: mail_claim_def Let_def)
    then show ?thesis
      using that assms(6) by (auto simp: ms unheld_def expired_def)
  qed
  have "m \<in> set (db_mail db2)" if "m \<in> set ms" for m
  proof -
    have "after_claim owner2 token2 rt2 rth2 lease2 now2 db1 m = m"
      using held [OF that] by (auto simp: after_claim_def takes_def unheld_def)
    then show ?thesis
      using held [OF that] mail_claim_rows [OF u1, of owner2 token2 rt2 rth2 lease2 now2] assms(5)
      by (metis fst_conv imageI list.set_map)
  qed
  moreover have "mb_message_id a \<noteq> mb_message_id b" if "a \<in> set ms" "b \<in> set ms2" for a b
  proof -
    note ab = that
    obtain q where "q \<in> set (db_mail db1)" "takes rt2 rth2 now2 db1 q" "mb_message_id b = mb_message_id q"
      using ab(2) ms2 by auto
    then show ?thesis
      using held [OF ab(1)] unique_key_same [OF u1, of a q] by (auto simp: takes_def)
  qed
  ultimately show ?thesis
    by blast
qed


subsection \<open>Suppression\<close>

definition of_run :: "pystr \<Rightarrow> int \<Rightarrow> mail_row \<Rightarrow> bool" where
  "of_run task_id run_count m \<longleftrightarrow>
     mb_child_task_id m = Some task_id \<and> mb_child_run_count m = Some run_count"

lemma publish_not_claimed:
  assumes "unique_key ob_outbox_key (db_outbox db)" and "q \<in> set (db_outbox db)"
    and "ob_status q \<noteq> OB_claimed" and "so_outbox_key i = ob_outbox_key q"
  shows "publish_claimed_settled_outbox i now db = (db, Inr False)"
proof -
  have "\<not> publishable i t db x" if "x \<in> set (db_outbox db)" for x t
  proof
    assume p: "publishable i t db x"
    then have "x = q"
      using unique_key_same [OF assms(1) that assms(2)] assms(4) by (simp add: publishable_def)
    with p assms(3) show False
      by (simp add: publishable_def)
  qed
  then have "\<not> list_ex (publishable i t db) (db_outbox db)" for t
    by (auto simp: list_ex_iff)
  then show ?thesis
    by (simp add: publish_claimed_settled_outbox_def transact_def split: option.split)
qed

lemma suppress_settled_Inr:
  assumes "suppress_settled_delivery r now db = (db', Inr ())"
  obtains db1 where "update_task_locked r db = Inr db1"
    and "db' = retract_mailbox_for_task_run (tk_task_id r) (tk_run_count r) now
               (suppress_for_task_run (tk_task_id r) (tk_run_count r) db1)"
  using assms by (auto simp: suppress_settled_delivery_def transact_def and_then_def split: sum.splits)

lemma update_task_locked_Inr:
  assumes "update_task_locked r db = Inr db1"
  shows "db_outbox db1 = db_outbox db \<and> db_mail db1 = db_mail db \<and> r \<in> set (db_tasks db1)"
proof -
  let ?P = "\<lambda>t. tk_task_id t = tk_task_id r"
  have "rows_count ?P (db_tasks db) = 1" and db1: "db1 = db\<lparr>db_tasks := rows_update ?P (\<lambda>_. r) (db_tasks db)\<rparr>"
    using assms by (auto simp: update_task_locked_def split: if_splits)
  then obtain t where "t \<in> set (db_tasks db)" "?P t"
    using rows_count_pos [of ?P "db_tasks db"] by auto
  then show ?thesis
    by (auto simp: db1 rows_update_def image_iff intro!: bexI [of _ t])
qed

text \<open>
  C23. Suppressing a run's settlement stops its delivery at once and for every worker, also one
  that claimed the intent or the message before: right after the transaction no claimed intent
  of the run can be published (the attempt reports False and changes nothing), none of its
  messages is pending or claimed, no claim on the mailbox under a fresh token returns one,
  and an acknowledgement that names one changes nothing.
\<close>

theorem suppression_stops_delivery:
  assumes "db_inv db" and "suppress_settled_delivery r now db = (db', Inr ())" and "tk_mailbox_suppressed r"
    and "\<forall>m \<in> set (db_mail db'). mb_claim_token m \<noteq> Some token"
  shows "(\<forall>q \<in> set (db_outbox db'). ob_task_id q = tk_task_id r \<longrightarrow> ob_run_count q = tk_run_count r \<longrightarrow>
      (\<forall>i later. so_outbox_key i = ob_outbox_key q \<longrightarrow>
        publish_claimed_settled_outbox i later db' = (db', Inr False)))
    \<and> (\<forall>m \<in> set (db_mail db'). of_run (tk_task_id r) (tk_run_count r) m \<longrightarrow>
        mb_status m \<notin> {MB_pending, MB_claimed})
    \<and> (\<forall>m \<in> set (snd (mail_claim owner token rt rth lease later db')).
        \<not> of_run (tk_task_id r) (tk_run_count r) m)
    \<and> (\<forall>m \<in> set (db_mail db'). of_run (tk_task_id r) (tk_run_count r) m \<longrightarrow>
        \<not> acknowledge_one owner later (mb_message_id m, t) m)"
proof -
  have inv: "db_inv db'"
    using keeps_suppress_settled [of db r now] assms(1,2) by (simp add: keeps_def)
  then have u: "unique_key ob_outbox_key (db_outbox db')" "unique_key mb_message_id (db_mail db')"
    by (simp_all add: db_inv_def outbox_ok_def mail_ok_def)
  obtain db1 where db1: "update_task_locked r db = Inr db1" and db': "db' =
      retract_mailbox_for_task_run (tk_task_id r) (tk_run_count r) now
               (suppress_for_task_run (tk_task_id r) (tk_run_count r) db1)"
    using suppress_settled_Inr [OF assms(2)] by blast
  have row: "r \<in> set (db_tasks db')"
    using update_task_locked_Inr [OF db1] by (simp add: db' retract_mailbox_for_task_run_def suppress_for_task_run_def)
  have ob: "ob_status q \<noteq> OB_claimed" if "q \<in> set (db_outbox db')" "ob_task_id q = tk_task_id r"
      "ob_run_count q = tk_run_count r" for q
    using that by (cases "ob_status q")
      (auto simp: db' retract_mailbox_for_task_run_def suppress_for_task_run_def rows_update_def
        release_outbox_row_def split: if_splits)
  have 1: "publish_claimed_settled_outbox i l db' = (db', Inr False)"
    if "q \<in> set (db_outbox db')" "ob_task_id q = tk_task_id r" "ob_run_count q = tk_run_count r"
      "so_outbox_key i = ob_outbox_key q" for q i l
    using publish_not_claimed [OF u(1) that(1) ob] that by simp
  have 2: "mb_status m \<notin> {MB_pending, MB_claimed}"
    if "m \<in> set (db_mail db')" "of_run (tk_task_id r) (tk_run_count r) m" for m
    using that by (auto simp: db' retract_mailbox_for_task_run_def suppress_for_task_run_def rows_update_def
        retract_mail_row_def of_run_def)
  have 3: "\<not> of_run (tk_task_id r) (tk_run_count r) m"
    if "m \<in> set (snd (mail_claim owner token rt rth lease later db'))" for m
  proof -
    from that obtain q where "m = claimed_mail owner token lease later q" "takes rt rth later db' q"
      using mail_claim_taken [OF u(2) assms(4)] by auto
    then show ?thesis
      using row assms(3) by (auto simp: takes_def mail_suppressed_def list_ex_iff of_run_def claimed_mail_def)
  qed
  have 4: "\<not> acknowledge_one owner later (mb_message_id m, t) m"
    if "m \<in> set (db_mail db')" "of_run (tk_task_id r) (tk_run_count r) m" for m
    using 2 [OF that] by (simp add: acknowledge_one_def live_claim_def)
  show ?thesis
    using 1 2 3 4 by blast
qed


subsection \<open>A concrete run\<close>

definition sample_task :: task_record where
  "sample_task = \<lparr>tk_task_id = str ''c'', tk_agent_name = str ''a'', tk_state = TS_completed,
     tk_thread_id = str ''t'', tk_parent_task_id = Some (str ''p''), tk_root_task_id = str ''p'',
     tk_depth = 1, tk_created_at = 0, tk_updated_at = 5, tk_result = Some (str ''r''), tk_error = None,
     tk_run_count = 1, tk_route_kind = RK_local, tk_upstream_task_id = None,
     tk_parent_thread_id = Some (str ''h''), tk_mailbox_suppressed = False,
     tk_mailbox_delivered = False, tk_webhook = None, tk_delegation_root_id = Some (str ''p''),
     tk_delegation_max_depth = Some 3, tk_delegation_max_tasks_per_root = Some 2,
     tk_delegation_visited_nodes = [], tk_permission_profile = str ''default'',
     tk_effective_skill_names = [], tk_skill_view_path = None, tk_skill_view_hash = None,
     tk_pending_review = None, tk_artifacts = [], tk_external_operation = None,
     tk_external_operation_identity = None, tk_external_operation_run_count = None,
     tk_external_outcome_uncertain = False, tk_mailbox_wakeup_sequence = 0\<rparr>"

definition sample_uuid :: "pystr \<Rightarrow> pystr" where
  "sample_uuid k = str ''u'' @ k"

definition sample_intent :: outbox_intent where
  "sample_intent = the (build_settled_outbox_intent sample_uuid sample_task)"

definition sample_token :: pystr where "sample_token = str ''1''"
definition sample_owner :: pystr where "sample_owner = str ''w''"

definition db_settled :: task_db where
  "db_settled = fst (reconcile_legacy_settlements sample_uuid 10 6 (fst (insert_task sample_task empty_db)))"

definition db_claimed :: task_db where
  "db_claimed = fst (claim_pending sample_owner sample_token 10 60 7 db_settled)"

definition claimed_intent :: outbox_intent where
  "claimed_intent = sample_intent\<lparr>so_claim_token := Some sample_token\<rparr>"

definition db_published :: task_db where
  "db_published = fst (publish_claimed_settled_outbox claimed_intent 8 db_claimed)"

definition db_mail_claimed :: task_db where
  "db_mail_claimed = fst (mail_claim sample_owner sample_token (Some (str ''p'')) (str ''h'') 60 9 db_published)"

definition db_read :: task_db where
  "db_read = fst (mail_acknowledge sample_owner 10 [(so_message_id sample_intent, sample_token)] db_mail_claimed)"

lemmas sample_dbs = db_settled_def db_claimed_def db_published_def db_mail_claimed_def db_read_def

lemma sample_published: "snd (publish_claimed_settled_outbox claimed_intent 8 db_claimed) = Inr True"
  by code_simp


lemmas after_step =
  rtranclp.rtrancl_into_rtrancl [where r = store_step, OF _ SS_insert] rtranclp.rtrancl_into_rtrancl [where r = store_step, OF _ SS_reconcile]
  rtranclp.rtrancl_into_rtrancl [where r = store_step, OF _ SS_claim_outbox] rtranclp.rtrancl_into_rtrancl [where r = store_step, OF _ SS_publish_outbox]
  rtranclp.rtrancl_into_rtrancl [where r = store_step, OF _ SS_claim_mail] rtranclp.rtrancl_into_rtrancl [where r = store_step, OF _ SS_acknowledge]

lemma sample_run_claimed: "store_step\<^sup>*\<^sup>* empty_db db_claimed"
  unfolding db_claimed_def db_settled_def by (intro after_step rtranclp.rtrancl_refl)

lemma sample_run_published: "store_step\<^sup>*\<^sup>* empty_db db_published"
  unfolding db_published_def by (intro after_step sample_run_claimed)

lemma sample_run: "store_step\<^sup>*\<^sup>* empty_db db_read"
  unfolding db_read_def db_mail_claimed_def by (intro after_step sample_run_published)

lemma sample_inv [simp]: "db_inv db_published" "db_inv db_claimed"
  using store_steps_keep [OF sample_run_published] store_steps_keep [OF sample_run_claimed] db_inv_empty
  by (simp_all add: keeps_def)

lemma sample_delivered:
  "mb_status (hd (db_mail db_read)) = MB_delivered \<and> db_mail db_read \<noteq> []
    \<and> mb_idempotency_key (hd (db_mail db_read)) = Some (so_outbox_key sample_intent)"
  by code_simp

theorem settlement_delivered_once_witness:
  "\<exists>m'. filter (\<lambda>x. mb_idempotency_key x = Some (so_outbox_key sample_intent))
      (db_mail (fst (suppress_settled_delivery sample_task 11 db_read))) = [m']
    \<and> mb_status m' = MB_delivered"
  using settlement_delivered_once [OF sample_run, of "fst (suppress_settled_delivery sample_task 11 db_read)"
      "hd (db_mail db_read)" "so_outbox_key sample_intent"] sample_delivered SS_suppress
  by (metis hd_in_set r_into_rtranclp)

theorem publish_settles_once_witness:
  "publish_claimed_settled_outbox claimed_intent 9 db_published = (db_published, Inr False)
    \<and> (\<exists>m. filter (\<lambda>x. mb_idempotency_key x = Some (so_outbox_key claimed_intent)) (db_mail db_published) = [m])"
proof -
  have "publish_claimed_settled_outbox claimed_intent 8 db_claimed = (db_published, Inr True)"
    using sample_published by (simp add: db_published_def prod_eq_iff)
  from publish_settles_once [OF sample_inv(2) this] show ?thesis
    by blast
qed

lemma sample_tokens: "\<forall>m \<in> set (db_mail db_published). mb_claim_token m \<noteq> Some sample_token"
  "\<forall>m \<in> set (db_mail db_mail_claimed). mb_claim_token m \<noteq> Some (str ''2'')"
  by code_simp+

lemma sample_claim:
  "map mb_content (snd (mail_claim sample_owner sample_token (Some (str ''p'')) (str ''h'') 60 9 db_published))
      = [str ''r'']"
  by code_simp

theorem mail_claim_exact_witness:
  "map mb_content (snd (mail_claim sample_owner sample_token (Some (str ''p'')) (str ''h'') 60 9 db_published))
      = [str ''r'']
    \<and> set (snd (mail_claim sample_owner sample_token (Some (str ''p'')) (str ''h'') 60 9 db_published))
      \<subseteq> set (db_mail db_mail_claimed)"
  using mail_claim_exact [OF sample_inv(1) sample_tokens(1), of sample_owner "Some (str ''p'')" "str ''h''" 60 9 db_mail_claimed
      "snd (mail_claim sample_owner sample_token (Some (str ''p'')) (str ''h'') 60 9 db_published)"]
  using sample_claim unfolding db_mail_claimed_def by (metis prod.collapse)

theorem mail_claim_exclusive_witness:
  "snd (mail_claim sample_owner sample_token (Some (str ''p'')) (str ''h'') 60 9 db_published) \<noteq> []
    \<and> mb_message_id ` set (snd (mail_claim sample_owner sample_token (Some (str ''p'')) (str ''h'') 60 9 db_published))
      \<inter> mb_message_id ` set (snd (mail_claim (str ''x'') (str ''2'') (Some (str ''p'')) (str ''h'') 60 20 db_mail_claimed)) = {}"
  using mail_claim_exclusive [OF sample_inv(1) sample_tokens(1), of sample_owner "Some (str ''p'')" "str ''h''" 60 9 db_mail_claimed
      "snd (mail_claim sample_owner sample_token (Some (str ''p'')) (str ''h'') 60 9 db_published)" "str ''2''"
      "str ''x''" "Some (str ''p'')" "str ''h''" 60 20
      "fst (mail_claim (str ''x'') (str ''2'') (Some (str ''p'')) (str ''h'') 60 20 db_mail_claimed)"
      "snd (mail_claim (str ''x'') (str ''2'') (Some (str ''p'')) (str ''h'') 60 20 db_mail_claimed)"]
    sample_tokens(2) sample_claim
  by (auto simp: db_mail_claimed_def)

definition suppressed_sample :: task_record where
  "suppressed_sample = sample_task\<lparr>tk_mailbox_suppressed := True\<rparr>"

definition db_suppressed :: task_db where
  "db_suppressed = fst (suppress_settled_delivery suppressed_sample 8 db_claimed)"

lemma sample_suppressed:
  "snd (suppress_settled_delivery suppressed_sample 8 db_claimed) = Inr ()"
  "\<forall>m \<in> set (db_mail db_suppressed). mb_claim_token m \<noteq> Some (str ''2'')"
  "list_ex (\<lambda>q. ob_task_id q = tk_task_id suppressed_sample \<and> ob_run_count q = tk_run_count suppressed_sample
      \<and> so_outbox_key claimed_intent = ob_outbox_key q) (db_outbox db_suppressed)"
  by code_simp+

theorem suppression_stops_delivery_witness:
  "publish_claimed_settled_outbox claimed_intent 9 db_suppressed = (db_suppressed, Inr False)"
proof -
  have "suppress_settled_delivery suppressed_sample 8 db_claimed = (db_suppressed, Inr ())"
    using sample_suppressed(1) by (simp add: db_suppressed_def prod_eq_iff)
  from suppression_stops_delivery [OF sample_inv(2) this _ sample_suppressed(2)] show ?thesis
    using sample_suppressed(3) by (auto simp: list_ex_iff suppressed_sample_def)
qed

lemma sample_one_mail: "length (db_mail db_published) = 1"
  by code_simp

theorem database_keys_unique_witness: "db_inv db_published \<and> length (db_mail db_published) = 1"
  using database_keys_unique [OF sample_run_published] sample_one_mail by simp

end
