(* ===== verification/Task_Store_Properties.thy ===== *)
theory Task_Store_Properties
  imports Settlement_Delivery
begin

text \<open>
  Properties of the task store's units of work: all or nothing, within the delegation tree's
  budget, with stable event cursors and a stable review order, and safe after a restart or an
  uncertain remote outcome.
\<close>

subsection \<open>All or nothing\<close>

lemma task_at_updated:
  assumes "update_task_locked r db = Inr db1"
  shows "task_at (tk_task_id r) db1 = Some r"
proof -
  let ?P = "\<lambda>t. tk_task_id t = tk_task_id r"
  have one: "rows_count ?P (db_tasks db) = 1" and db1: "db1 = db\<lparr>db_tasks := rows_update ?P (\<lambda>_. r) (db_tasks db)\<rparr>"
    using assms by (auto simp: update_task_locked_def split: if_splits)
  have "row_at tk_task_id (tk_task_id r) (rows_update ?P (\<lambda>_. r) rows) = Some r"
    if "0 < rows_count ?P rows" for rows
    using that by (induction rows) auto
  then show ?thesis
    using one by (simp add: task_at_def db1)
qed

lemma appended_event_Inr:
  assumes "appended_event k n ty data t db = Inr (db', ev)"
  shows "db' = db\<lparr>db_last_event_id := db_last_event_id db + 1, db_events := db_events db @
      [\<lparr>te_event_id = db_last_event_id db + 1, te_task_id = k, te_run_count = n, te_event_type = ty,
        te_created_at = t, te_data_json = serialize_event_data data\<rparr>]\<rparr>
    \<and> row_to_event (last (db_events db')) = Inr ev"
  using assms by (auto simp: appended_event_def append_event_locked_def Let_def and_then_Inr)

lemma insert_intent_Inr:
  assumes "insert_intent_opt intent db = Inr db'"
  shows "db_tasks db' = db_tasks db \<and> db_events db' = db_events db \<and> db_mail db' = db_mail db
    \<and> (case intent of None \<Rightarrow> db' = db | Some i \<Rightarrow> \<exists>q. filter (same_outbox_identity i) (db_outbox db') = [q] \<and> row_matches_intent i q)"
proof (cases intent)
  case (Some i)
  then obtain b where "insert_outbox_locked i db = Inr (db', b)"
    using assms by (auto simp: insert_intent_opt_def and_then_Inr)
  then show ?thesis
    using Some by (cases "filter (same_outbox_identity i) (db_outbox db')")
      (auto simp: insert_outbox_locked_def Let_def split: if_splits)
qed (use assms in \<open>simp add: insert_intent_opt_def\<close>)

text \<open>
  A Task transition is one transaction: when it succeeds, the task row is the new record,
  its event is the last one appended (and is what the operation returns), and the run has
  exactly one outbox intent with that identity, saying what the given intent says;
  when anything in it fails (no such task, undecodable event, an intent that
  conflicts with an earlier one) the database is unchanged.
\<close>

theorem transition_atomic:
  "case update_task_with_event r e intent db of
     (db', Inl _) \<Rightarrow> db' = db
   | (db', Inr ev) \<Rightarrow>
       task_at (tk_task_id r) db' = Some r
       \<and> (\<exists>row. db_events db' = db_events db @ [row] \<and> row_to_event row = Inr ev
            \<and> te_task_id row = tk_task_id r \<and> te_run_count row = tk_run_count r
            \<and> te_event_type row = es_event_type e)
       \<and> (case intent of None \<Rightarrow> db_outbox db' = db_outbox db
          | Some i \<Rightarrow> \<exists>q. filter (same_outbox_identity i) (db_outbox db') = [q] \<and> row_matches_intent i q)"
proof -
  obtain db' res where r: "update_task_with_event r e intent db = (db', res)"
    by (cases "update_task_with_event r e intent db")
  show ?thesis
  proof (cases res)
    case (Inl x)
    then show ?thesis
      using r by (auto simp: update_task_with_event_def transact_def split: sum.splits)
  next
    case (Inr ev)
    then obtain db1 db2 where 1: "update_task_locked r db = Inr db1"
      and 2: "appended_event (tk_task_id r) (tk_run_count r) (es_event_type e) (es_data e) (es_created_at e) db1 = Inr (db2, ev)"
      and 3: "insert_intent_opt intent db2 = Inr db'"
      using r by (auto simp: update_task_with_event_def transact_def and_then_def split: sum.splits prod.splits)
    note a = appended_event_Inr [OF 2] and i = insert_intent_Inr [OF 3] and u = update_task_locked_Inr [OF 1]
    have "db_events db1 = db_events db"
      using 1 by (auto simp: update_task_locked_def split: if_splits)
    moreover have "task_at (tk_task_id r) db' = Some r"
      using task_at_updated [OF 1] a i by (simp add: task_at_def)
    moreover have "db_outbox db2 = db_outbox db"
      using a u by simp
    ultimately show ?thesis
      using r Inr a i by (auto split: option.splits)
  qed
qed


subsection \<open>The delegation tree's budget\<close>

lemma foldl_min_le: "foldl min m ms \<le> (m :: int) \<and> (\<forall>x \<in> set ms. foldl min m ms \<le> x)"
proof (induction ms arbitrary: m)
  case (Cons x ms)
  then have "foldl min (min m x) ms \<le> min m x" and "\<forall>y \<in> set ms. foldl min (min m x) ms \<le> y"
    by blast+
  then show ?case
    by auto
qed simp

lemma stored_root_limits_iff:
  "m \<in> set (stored_root_limits k db) \<longleftrightarrow>
    (\<exists>t \<in> set (db_tasks db). tk_root_task_id t = k \<and> tk_delegation_max_tasks_per_root t = Some m)"
  unfolding stored_root_limits_def by (induction "db_tasks db" arbitrary: db) (force split: option.splits)+

lemma enforce_root_budget_Inr:
  assumes "enforce_root_budget r db = Inr ()" and "tk_delegation_max_tasks_per_root r = Some n"
  shows "count_under_root (tk_root_task_id r) db < n
    \<and> (\<forall>m \<in> set (stored_root_limits (tk_root_task_id r) db). count_under_root (tk_root_task_id r) db < m)"
proof (cases "stored_root_limits (tk_root_task_id r) db")
  case Nil
  then show ?thesis
    using assms by (auto simp: enforce_root_budget_def Let_def split: if_splits)
next
  case (Cons m ms)
  then show ?thesis
    using assms foldl_min_le [of m ms] by (auto simp: enforce_root_budget_def Let_def split: if_splits)
qed

text \<open>What the budget reads of a row, and the bound it promises.\<close>

definition tree_view :: "task_db \<Rightarrow> (pystr \<times> int option) list" where
  "tree_view db = map (\<lambda>t. (tk_root_task_id t, tk_delegation_max_tasks_per_root t)) (db_tasks db)"

definition within_budget :: "pystr \<Rightarrow> (pystr \<times> int option) list \<Rightarrow> bool" where
  "within_budget rid view \<longleftrightarrow>
     (\<forall>m. (rid, Some m) \<in> set view \<longrightarrow> int (length (filter (\<lambda>t. fst t = rid) view)) \<le> m)"

definition budgeted :: "pystr \<Rightarrow> task_record \<Rightarrow> bool" where
  "budgeted rid r \<longleftrightarrow> (tk_root_task_id r = rid \<longrightarrow> tk_delegation_max_tasks_per_root r \<noteq> None)"

text \<open>
  The life of a tree: Tasks are added under its root with a budget, and every other operation
  of the store leaves the root and the limit of each row alone.
\<close>

inductive budgeted_step :: "pystr \<Rightarrow> task_db \<Rightarrow> task_db \<Rightarrow> bool" for rid where
  Insert: "budgeted rid r \<Longrightarrow> budgeted_step rid db (fst (insert_task r db))"
| Insert_event: "budgeted rid r \<Longrightarrow> budgeted_step rid db (fst (insert_task_with_event r ev db))"
| Save_new: "budgeted rid r \<Longrightarrow> task_at (tk_task_id r) db = None \<Longrightarrow> budgeted_step rid db (fst (save_task r db))"
| Tree_kept: "store_step db db' \<Longrightarrow> tree_view db' = tree_view db \<Longrightarrow> budgeted_step rid db db'"

lemma count_view: "count_under_root rid db = int (length (filter (\<lambda>t. fst t = rid) (tree_view db)))"
  by (simp add: count_under_root_def rows_count_def tree_view_def filter_map comp_def)

lemma budgeted_append:
  assumes "enforce_root_budget r db = Inr ()" and "budgeted rid r" and "within_budget rid (tree_view db)"
    and "db_tasks db' = db_tasks db @ [r]"
  shows "within_budget rid (tree_view db')"
proof -
  have view: "tree_view db' = tree_view db @ [(tk_root_task_id r, tk_delegation_max_tasks_per_root r)]"
    by (simp add: tree_view_def assms(4))
  show ?thesis
  proof (cases "tk_root_task_id r = rid")
    case True
    then obtain n where n: "tk_delegation_max_tasks_per_root r = Some n"
      using assms(2) by (auto simp: budgeted_def)
    note b = enforce_root_budget_Inr [OF assms(1) n, unfolded True]
    have "\<forall>m. (rid, Some m) \<in> set (tree_view db) \<longrightarrow> m \<in> set (stored_root_limits rid db)"
      by (auto simp: stored_root_limits_iff tree_view_def)
    then have old: "\<forall>m. (rid, Some m) \<in> set (tree_view db) \<longrightarrow> count_under_root rid db < m"
      using b by blast
    have less: "count_under_root rid db + 1 \<le> m" if "(rid, Some m) \<in> set (tree_view db')" for m
    proof -
      have "(rid, Some m) \<in> set (tree_view db) \<or> m = n"
        using that n by (auto simp: view)
      then have "count_under_root rid db < m"
        using old b by blast
      then show ?thesis by simp
    qed
    have "count_under_root rid db' = count_under_root rid db + 1"
      by (simp add: count_view view True)
    then show ?thesis
      using less by (simp add: within_budget_def count_view)
  next
    case False
    then show ?thesis
      using assms(3) by (auto simp: within_budget_def view)
  qed
qed

lemma budgeted_step_within:
  assumes "budgeted_step rid db db'" and "within_budget rid (tree_view db)"
  shows "within_budget rid (tree_view db')"
  using assms
proof cases
  case (Insert r)
  then show ?thesis
    using budgeted_append [OF _ Insert(2) assms(2)] assms(2)
    by (auto simp: insert_task_def transact_def and_then_def insert_task_locked_def split: sum.splits option.splits)
next
  case (Insert_event r ev)
  then show ?thesis
    using budgeted_append [OF _ Insert_event(2) assms(2)] assms(2)
    by (auto simp: insert_task_with_event_def transact_def and_then_def insert_task_locked_def
        split: sum.splits option.splits prod.splits dest!: appended_event_Inr)
next
  case (Save_new r)
  then show ?thesis
    using budgeted_append [OF _ Save_new(2) assms(2)] assms(2)
    by (auto simp: save_task_def transact_def and_then_def split: sum.splits option.splits)
qed (simp add: assms(2))

text \<open>
  C24. A delegation tree never grows beyond its budget: whatever operations run on the store, as
  long as every Task added under the root carries a budget and no operation moves a Task to
  another root or rewrites its limit, the number of Tasks under the root is at most the limit
  stored in each of them, so a later Task cannot widen the budget of an earlier one.  A Task
  without a limit is not checked at all, so the bound does not hold with such inserts.
\<close>

theorem insert_under_root_budget:
  assumes "(budgeted_step rid)\<^sup>*\<^sup>* empty_db db"
    and "t \<in> set (db_tasks db)" and "tk_root_task_id t = rid" and "tk_delegation_max_tasks_per_root t = Some m"
  shows "count_under_root rid db \<le> m"
proof -
  have "within_budget rid (tree_view db)"
    using assms(1)
    by (induction rule: rtranclp_induct)
      (auto simp: within_budget_def tree_view_def empty_db_def dest: budgeted_step_within [unfolded within_budget_def])
  moreover have "(rid, Some m) \<in> set (tree_view db)"
    using assms(2-4) by (force simp: tree_view_def)
  ultimately show ?thesis
    by (simp add: within_budget_def count_view)
qed

subsection \<open>Event cursors\<close>

lemma rows_to_events_ids:
  "rows_to_events rs = Inr es \<Longrightarrow> map se_event_id es = map te_event_id rs"
proof (induction rs arbitrary: es)
  case (Cons r rs)
  then show ?case
    by (auto simp: and_then_Inr row_to_event_def split: option.splits json.splits)
qed simp

definition run_events :: "pystr \<Rightarrow> int \<Rightarrow> int \<Rightarrow> task_db \<Rightarrow> event_row list" where
  "run_events k n after db =
     filter (\<lambda>r. te_task_id r = k \<and> te_run_count r = n \<and> te_event_id r > after) (db_events db)"

lemma run_events_strict:
  "db_inv db \<Longrightarrow> sorted_wrt (<) (map te_event_id (run_events k n a db))"
  by (simp add: db_inv_def events_ok_def run_events_def sorted_wrt_map sorted_wrt_filter)

lemma list_events_ids:
  assumes "db_inv db" and "list_events k n a limit db = Inr es"
  shows "map se_event_id es = take (nat limit) (map te_event_id (run_events k n a db))"
proof -
  have "sorted (map te_event_id (run_events k n a db))"
    using run_events_strict [OF assms(1)] by (rule strict_sorted_imp_sorted)
  then have "sort_key te_event_id (run_events k n a db) = run_events k n a db"
    by (rule sort_key_id_if_sorted)
  then show ?thesis
    using assms(2) rows_to_events_ids
    by (auto simp: list_events_def run_events_def take_map split: if_splits)
qed


lemma filter_greater_split:
  assumes "sorted_wrt (<) xs" and "n < length xs"
  shows "filter (\<lambda>x. xs ! n < (x :: int)) xs = drop (Suc n) xs"
proof -
  have le: "x \<le> xs ! n" if "x \<in> set (take (Suc n) xs)" for x
  proof -
    from that obtain j where "j \<le> n" "x = xs ! j"
      using assms(2) by (auto simp: in_set_conv_nth less_Suc_eq_le)
    then show ?thesis
      using sorted_wrt_nth_less [OF assms(1), of j n] assms(2) by (cases "j = n") auto
  qed
  have gt: "xs ! n < x" if "x \<in> set (drop (Suc n) xs)" for x
  proof -
    from that obtain j where "j < length xs - Suc n" "x = xs ! (Suc n + j)"
      by (auto simp: in_set_conv_nth)
    then show ?thesis
      using sorted_wrt_nth_less [OF assms(1), of n "Suc n + j"] by auto
  qed
  have "filter (\<lambda>x. xs ! n < x) (take (Suc n) xs) = []"
    using le by (auto simp: filter_empty_conv not_less)
  moreover have "filter (\<lambda>x. xs ! n < x) (drop (Suc n) xs) = drop (Suc n) xs"
    using gt by (simp add: filter_id_conv)
  ultimately show ?thesis
    by (metis append_take_drop_id filter_append self_append_conv2)
qed

text \<open>
  C25. Reading a run's events page by page is safe while the database is in use: a page followed
  by a page read from its last event's id, however many store operations ran in between,
  gives the events after the first cursor as the table now has them, in strictly increasing
  order: none is skipped, repeated or reordered.
\<close>

theorem event_cursor_stable:
  assumes "db_inv db" and "store_step\<^sup>*\<^sup>* db db'"
    and "list_events k n a limit db = Inr page" and "page \<noteq> []"
    and "list_events k n (se_event_id (last page)) limit2 db' = Inr page2"
  shows "map se_event_id (page @ page2)
      = take (length page + nat limit2) (map te_event_id (run_events k n a db'))
    \<and> sorted_wrt (<) (map se_event_id (page @ page2))"
proof -
  have k: "db_inv db'" "events_kept db db'"
    using store_steps_keep [OF assms(2)] assms(1) by (auto simp: keeps_def)
  let ?all = "map te_event_id (run_events k n a db')"
  have strict: "sorted_wrt (<) ?all"
    by (rule run_events_strict [OF k(1)])
  obtain es where es: "db_events db' = db_events db @ es"
    using k(2) by (auto simp: events_kept_def)
  then obtain more where more': "?all = map te_event_id (run_events k n a db) @ more"
    by (auto simp: run_events_def)
  let ?p = "map se_event_id page"
  have ids: "?p = take (nat limit) (map te_event_id (run_events k n a db))"
    by (rule list_events_ids [OF assms(1,3)])
  then have len: "length ?p \<le> length ?all"
    unfolding more' by simp
  have "?p = take (length ?p) ?all"
    unfolding more' ids by (simp add: min_def)
  then have p: "?p = take (length page) ?all"
    by simp
  obtain j where j: "length page = Suc j"
    using assms(4) by (cases page) auto
  have jl: "j < length ?all"
    using len j by simp
  have last: "se_event_id (last page) = ?all ! j"
  proof -
    have "last ?p = ?p ! j"
      using assms(4) j by (simp add: last_conv_nth)
    also have "\<dots> = ?all ! j"
      using arg_cong [OF p, of "\<lambda>l. l ! j"] j by simp
    finally show ?thesis
      using assms(4) by (simp add: last_map)
  qed
  have "map te_event_id (run_events k n (?all ! j) db') = filter (\<lambda>x. ?all ! j < x) ?all"
  proof -
    have "a < ?all ! j"
      using nth_mem [OF jl] by (auto simp: run_events_def)
    then show ?thesis
      by (auto simp: run_events_def filter_map comp_def intro!: arg_cong [of _ _ "map te_event_id"] filter_cong)
  qed
  then have "map te_event_id (run_events k n (se_event_id (last page)) db') = drop (Suc j) ?all"
    using filter_greater_split [OF strict jl] last by simp
  then have p2: "map se_event_id page2 = take (nat limit2) (drop (Suc j) ?all)"
    using list_events_ids [OF k(1) assms(5)] by simp
  have eq: "map se_event_id (page @ page2) = take (length page + nat limit2) ?all"
    using p p2 j take_add [of "Suc j" "nat limit2" ?all] by simp
  show ?thesis
    using eq strict by (metis sorted_wrt_take)
qed


text \<open>
  C26. What a Task event stores is what it reads back: appending an event whose data is plain JSON
  (no floats, text without lone surrogates, distinct keys) to an existing task always
  succeeds, gives it the next event id, and reading that id later, after any further store
  operations, returns the same task, run, type and time and the same data with sorted keys.
\<close>

theorem event_data_round_trip:
  assumes "db_inv db" and "task_at k db \<noteq> None" and "json_plain (J_obj (es_data e))"
  shows "\<exists>db1 ev data. append_task_event k n e db = (db1, Inr ev)
    \<and> json_sort_keys (J_obj (es_data e)) = J_obj data
    \<and> ev = \<lparr>se_event_id = db_last_event_id db + 1, se_task_id = k, se_run_count = n,
            se_event_type = es_event_type e, se_created_at = es_created_at e, se_data = data\<rparr>
    \<and> (\<forall>db'. store_step\<^sup>*\<^sup>* db1 db' \<longrightarrow> get_event (db_last_event_id db + 1) db' = Inr (Some ev))"
proof -
  obtain data where data: "json_sort_keys (J_obj (es_data e)) = J_obj data"
    by simp
  let ?row = "\<lparr>te_event_id = db_last_event_id db + 1, te_task_id = k, te_run_count = n,
      te_event_type = es_event_type e, te_created_at = es_created_at e,
      te_data_json = serialize_event_data (es_data e)\<rparr>"
  let ?ev = "\<lparr>se_event_id = db_last_event_id db + 1, se_task_id = k, se_run_count = n,
      se_event_type = es_event_type e, se_created_at = es_created_at e, se_data = data\<rparr>"
  let ?db1 = "db\<lparr>db_last_event_id := db_last_event_id db + 1, db_events := db_events db @ [?row]\<rparr>"
  have "json_loads (serialize_event_data (es_data e)) = Some (J_obj data)"
    using json_loads_compact [OF json_plain_sort_keys [OF assms(3)]]
    by (simp only: data serialize_event_data_def dumps_compact_sorted_def)
  then have row: "row_to_event ?row = Inr ?ev"
    by (simp add: row_to_event_def)
  then have app: "append_task_event k n e db = (?db1, Inr ?ev)"
    using assms(2) by (simp add: append_task_event_def appended_event_def append_event_locked_def Let_def
        and_then_def transact_def)
  have "get_event (db_last_event_id db + 1) db' = Inr (Some ?ev)" if "store_step\<^sup>*\<^sup>* ?db1 db'" for db'
  proof -
    have "keeps db ?db1"
      using keeps_append_task_event [of db k n e] by (simp only: app fst_conv)
    then have inv1: "db_inv ?db1"
      using assms(1) by (simp only: keeps_def)
    then have "db_inv db'" "events_kept ?db1 db'"
      using store_steps_keep [OF that] unfolding keeps_def by blast+
    then have "?row \<in> set (db_events db')" and u: "unique_key te_event_id (db_events db')"
      by (auto simp: events_kept_def db_inv_def events_ok_def unique_key_def strict_sorted_iff)
    then have "row_at te_event_id (db_last_event_id db + 1) (db_events db') = Some ?row"
      using row_at_unique [OF u, of ?row] by simp
    then show ?thesis
      using row by (simp add: get_event_def and_then_def)
  qed
  then show ?thesis
    using app data by blast
qed


subsection \<open>Reviews\<close>

lemma replace_review_Inr:
  assumes "reviews_ok (db_reviews db) (db_last_review_sequence db)"
    and "replace_review_locked k (Some p) db = Inr db'"
  shows "\<exists>v. v \<in> set (db_reviews db') \<and> rv_review_id v = rv_review_id p \<and> rv_payload v = rv_payload p
    \<and> (\<forall>old \<in> set (db_reviews db). rv_task_id old = k \<and> rv_review_id old = rv_review_id p \<longrightarrow>
        rv_ingest_sequence v = rv_ingest_sequence old
        \<and> rv_cursor_order_updated_at v = rv_cursor_order_updated_at old)
    \<and> ((\<forall>old \<in> set (db_reviews db). rv_task_id old = k \<longrightarrow> rv_review_id old \<noteq> rv_review_id p) \<longrightarrow>
        (\<forall>old \<in> set (db_reviews db). rv_ingest_sequence old < rv_ingest_sequence v))
    \<and> filter (\<lambda>x. rv_task_id x \<noteq> k) (db_reviews db') =
        filter (\<lambda>x. rv_task_id x \<noteq> k) (db_reviews db) @ (if rv_task_id p = k then [] else [v])"
proof (cases "\<exists>old. row_at rv_task_id k (db_reviews db) = Some old \<and> rv_review_id old = rv_review_id p")
  case True
  then obtain old where old: "row_at rv_task_id k (db_reviews db) = Some old" "rv_review_id old = rv_review_id p"
    by blast
  have "x = old" if "x \<in> set (db_reviews db)" "rv_task_id x = k" for x
    using unique_key_same [of rv_task_id "db_reviews db" x old] that row_at_SomeD [OF old(1)] assms(1)
    by (auto simp: reviews_ok_def)
  note only = this
  let ?v = "p\<lparr>rv_ingest_sequence := rv_ingest_sequence old, rv_cursor_order_updated_at := rv_cursor_order_updated_at old\<rparr>"
  have mem: "old \<in> set (db_reviews db)" "rv_task_id old = k"
    using row_at_SomeD [OF old(1)] by auto
  have db': "db' = db\<lparr>db_reviews := filter (\<lambda>x. rv_task_id x \<noteq> k) (db_reviews db) @ [?v]\<rparr>"
    using assms(2) old
    by (simp add: replace_review_locked_def and_then_def Let_def rows_delete_def split: if_splits)
  show ?thesis
  proof (intro exI [of _ ?v] conjI ballI impI)
    fix x assume "x \<in> set (db_reviews db)" "rv_task_id x = k \<and> rv_review_id x = rv_review_id p"
    then have "x = old"
      using only by blast
    then show "rv_ingest_sequence ?v = rv_ingest_sequence x" "rv_cursor_order_updated_at ?v = rv_cursor_order_updated_at x"
      by simp_all
  qed (use mem old(2) in \<open>auto simp: db'\<close>)
next
  case False
  let ?n = "db_last_review_sequence db + 1"
  let ?c = "case rv_cursor_order_updated_at p of None \<Rightarrow> Some (rv_updated_at p) | Some t \<Rightarrow> Some t"
  have no: "rv_review_id old \<noteq> rv_review_id p" if "old \<in> set (db_reviews db)" "rv_task_id old = k" for old
    using False that row_at_unique [of rv_task_id "db_reviews db" old] assms(1) by (auto simp: reviews_ok_def)
  have lt: "rv_ingest_sequence old < ?n" if "old \<in> set (db_reviews db)" for old
    using that assms(1) by (force simp: reviews_ok_def)
  have "db' = db\<lparr>db_last_review_sequence := ?n, db_reviews :=
      filter (\<lambda>x. rv_task_id x \<noteq> k) (db_reviews db) @ [p\<lparr>rv_ingest_sequence := ?n, rv_cursor_order_updated_at := ?c\<rparr>]\<rparr>"
    using assms(2) False
    by (auto simp: replace_review_locked_def ingest_review_def and_then_def Let_def rows_delete_def
        split: if_splits option.splits)
  then show ?thesis
    using no lt by (intro exI [of _ "p\<lparr>rv_ingest_sequence := ?n, rv_cursor_order_updated_at := ?c\<rparr>"]) auto
qed


lemma append_all_events_reviews:
  "append_all_events es db = Inr (db', evs) \<Longrightarrow> db_reviews db' = db_reviews db"
proof (induction es arbitrary: db db' evs)
  case (Cons e es)
  then show ?case
    by (cases e) (auto simp: and_then_Inr dest!: appended_event_Inr)
qed simp

lemma insert_intent_reviews: "insert_intent_opt i db = Inr db' \<Longrightarrow> db_reviews db' = db_reviews db"
  by (auto simp: insert_intent_opt_def insert_outbox_locked_def and_then_Inr Let_def split: option.splits if_splits)

lemma update_task_reviews: "update_task_locked r db = Inr db' \<Longrightarrow>
    db_reviews db' = db_reviews db \<and> db_last_review_sequence db' = db_last_review_sequence db"
  by (auto simp: update_task_locked_def split: if_splits)

text \<open>
  A pending review keeps its place in line: when a transition stores a review, the review
  is in the table with the given payload; if the task already had this review its ingest number
  and its cursor key stay, otherwise its number is greater than every number in the table, so
  it joins at the end; and the reviews of all other tasks are untouched.
\<close>

theorem review_order_stable:
  assumes "db_inv db" and "update_review_transition r (Some p) x es intent db = (db', Inr evs)"
  shows "\<exists>v \<in> set (db_reviews db'). rv_review_id v = rv_review_id p \<and> rv_payload v = rv_payload p
    \<and> (\<forall>old \<in> set (db_reviews db). rv_task_id old = tk_task_id r \<and> rv_review_id old = rv_review_id p \<longrightarrow>
        rv_ingest_sequence v = rv_ingest_sequence old
        \<and> rv_cursor_order_updated_at v = rv_cursor_order_updated_at old)
    \<and> ((\<forall>old \<in> set (db_reviews db). rv_task_id old = tk_task_id r \<longrightarrow> rv_review_id old \<noteq> rv_review_id p) \<longrightarrow>
        (\<forall>old \<in> set (db_reviews db). rv_ingest_sequence old < rv_ingest_sequence v))
    \<and> filter (\<lambda>w. rv_task_id w \<noteq> tk_task_id r) (db_reviews db') =
        filter (\<lambda>w. rv_task_id w \<noteq> tk_task_id r) (db_reviews db)"
proof -
  have owner: "rv_task_id p = tk_task_id r"
    using assms(2) by (auto simp: update_review_transition_def split: if_splits)
  then obtain db1 db2 db3 db4 where 1: "update_task_locked r db = Inr db1"
    and 2: "replace_review_locked (tk_task_id r) (Some p) db1 = Inr db2"
    and 3: "(case x of None \<Rightarrow> Inr db2
        | Some y \<Rightarrow> if tk_task_id y \<noteq> tk_task_id r then update_task_locked y db2 else Inr db2) = Inr db3"
    and 4: "append_all_events es db3 = Inr (db4, evs)" and 5: "insert_intent_opt intent db4 = Inr db'"
    using assms(2)
    by (auto simp: update_review_transition_def transact_def and_then_def split: sum.splits prod.splits)
  have "db_reviews db3 = db_reviews db2"
    using 3 update_task_reviews by (auto split: option.splits if_splits)
  then have eq: "db_reviews db' = db_reviews db2"
    using append_all_events_reviews [OF 4] insert_intent_reviews [OF 5] by simp
  have eq1: "db_reviews db1 = db_reviews db" "db_last_review_sequence db1 = db_last_review_sequence db"
    using update_task_reviews [OF 1] by simp_all
  have "reviews_ok (db_reviews db1) (db_last_review_sequence db1)"
    using assms(1) by (simp add: eq1 db_inv_def)
  from replace_review_Inr [OF this 2] show ?thesis
    unfolding eq eq1 by (auto simp: owner)
qed

subsection \<open>Restart and uncertain remote outcomes\<close>

text \<open>
  Loading a task after a restart leaves no run that nobody executes: a local task is never
  pending or running, a remote task with an open external operation is interrupted with
  an uncertain outcome and no result, so that it has no settlement to announce; nothing but
  state, time, result, error and the uncertainty flag changes, and loading it again, whenever,
  changes nothing more.
\<close>

theorem restart_normalizes:
  "(tk_route_kind r = RK_local \<longrightarrow> tk_state (task_record_for_restart now r) \<notin> set executing_task_states)
    \<and> (tk_route_kind r = RK_remote_ref \<and> tk_external_operation r \<noteq> None \<longrightarrow>
        tk_state (task_record_for_restart now r) = TS_interrupted
        \<and> tk_external_outcome_uncertain (task_record_for_restart now r)
        \<and> tk_result (task_record_for_restart now r) = None
        \<and> build_settled_outbox_intent uuid5 (task_record_for_restart now r) = None)
    \<and> (task_record_for_restart now r)\<lparr>tk_state := tk_state r, tk_updated_at := tk_updated_at r,
        tk_result := tk_result r, tk_error := tk_error r,
        tk_external_outcome_uncertain := tk_external_outcome_uncertain r\<rparr> = r
    \<and> task_record_for_restart later (task_record_for_restart now r) = task_record_for_restart now r"
  (is "?local \<and> ?remote \<and> ?fields \<and> ?again")
proof (intro conjI)
  have interrupted: "TS_interrupted \<notin> set executing_task_states"
    by (simp add: executing_task_states_def active_task_states_def)
  show ?local
    using interrupted by (auto simp: task_record_for_restart_def split: route_kind.splits option.splits)
  show ?remote
    by (auto simp: task_record_for_restart_def build_settled_outbox_intent_def split: option.splits)
  show ?again
    using interrupted
    by (auto simp: task_record_for_restart_def split: route_kind.splits option.splits if_splits)
  show ?fields
    by (auto simp: task_record_for_restart_def split: route_kind.splits option.splits)
qed

lemma discard_row_effect:
  assumes "ob_outbox_key r = k"
  shows "\<forall>q \<in> set (db_outbox (fst (discard_uncertain_row r db))). ob_outbox_key q = k \<longrightarrow> ob_status q = OB_delivered"
  using assms by (auto simp: discard_uncertain_row_def rows_update_def rows_delete_def release_outbox_row_def
      set_delivered_flag_def)

lemma discard_row_outbox:
  "q \<in> set (db_outbox (fst (discard_uncertain_row r db))) \<Longrightarrow>
    \<exists>p \<in> set (db_outbox db). ob_outbox_key q = ob_outbox_key p \<and> ob_task_id q = ob_task_id p
      \<and> ob_run_count q = ob_run_count p \<and> (ob_status q = ob_status p \<or> ob_status q = OB_delivered)"
  by (auto simp: discard_uncertain_row_def rows_update_def rows_delete_def release_outbox_row_def
      set_delivered_flag_def split: if_splits) metis

lemma discard_loop_effect:
  "q \<in> set (db_outbox (fst (discard_uncertain_loop rs db))) \<Longrightarrow>
    (\<exists>p \<in> set (db_outbox db). ob_outbox_key q = ob_outbox_key p \<and> ob_task_id q = ob_task_id p
      \<and> ob_run_count q = ob_run_count p \<and> (ob_status q = ob_status p \<or> ob_status q = OB_delivered))
    \<and> (ob_outbox_key q \<in> ob_outbox_key ` set rs \<longrightarrow> ob_status q = OB_delivered)"
proof (induction rs arbitrary: db)
  case (Cons r rs)
  let ?d = "fst (discard_uncertain_row r db)"
  have q: "q \<in> set (db_outbox (fst (discard_uncertain_loop rs ?d)))"
    using Cons.prems by (simp add: Let_def split_beta)
  from Cons.IH [OF q] obtain p where p: "p \<in> set (db_outbox ?d)" "ob_outbox_key q = ob_outbox_key p"
      "ob_task_id q = ob_task_id p" "ob_run_count q = ob_run_count p" "ob_status q = ob_status p \<or> ob_status q = OB_delivered"
    by blast
  from discard_row_outbox [OF p(1)] obtain o' where "o' \<in> set (db_outbox db)" "ob_outbox_key p = ob_outbox_key o'"
      "ob_task_id p = ob_task_id o'" "ob_run_count p = ob_run_count o'" "ob_status p = ob_status o' \<or> ob_status p = OB_delivered"
    by blast
  moreover have "ob_status q = OB_delivered" if "ob_outbox_key q = ob_outbox_key r"
    using discard_row_effect [OF refl, of r db] p that by auto
  ultimately show ?case
    using p Cons.IH [OF q] by auto
qed auto

text \<open>
  A remote run whose outcome became uncertain announces no settlement: recording the
  uncertain operation withdraws the run's intent, so that afterwards every outbox row of the run is
  delivered (its message had been read already) and no worker can publish one it had claimed;
  the record returned carries the delivered flag the table has.
\<close>

theorem uncertain_run_withdraws_settlement:
  assumes "db_inv db" and "tk_external_operation r \<noteq> None" and "tk_external_outcome_uncertain r"
    and "update_uncertain_external_operation r db = (db', Inr r')"
  shows "(\<forall>q \<in> set (db_outbox db'). ob_task_id q = tk_task_id r \<and> ob_run_count q = tk_run_count r \<longrightarrow>
        ob_status q = OB_delivered \<and> (\<forall>i now. so_outbox_key i = ob_outbox_key q \<longrightarrow>
          publish_claimed_settled_outbox i now db' = (db', Inr False)))
    \<and> (\<exists>flag. r' = r\<lparr>tk_mailbox_delivered := flag\<rparr>)"
proof -
  obtain db1 where 1: "update_task_locked r db = Inr db1"
    using assms(4) by (auto simp: update_uncertain_external_operation_def transact_def and_then_def split: sum.splits)
  let ?d = "discard_invalid_uncertain (Some (tk_task_id r)) db1"
  have out: "db_outbox db' = db_outbox (fst ?d)" and r': "\<exists>flag. r' = r\<lparr>tk_mailbox_delivered := flag\<rparr>"
    using assms(4)
    by (auto simp: update_uncertain_external_operation_def transact_def and_then_def 1 Let_def split_beta
        update_task_locked_def [of _ "fst ?d"] split: sum.splits option.splits if_splits intro: exI [of _ "tk_mailbox_delivered r"])
  have inv: "db_inv db'"
    using keeps_uncertain [of db r] assms(1,4) by (simp add: keeps_def)
  then have u: "unique_key ob_outbox_key (db_outbox db')"
    by (simp add: db_inv_def outbox_ok_def)
  have del: "ob_status q = OB_delivered" if "q \<in> set (db_outbox db')" "ob_task_id q = tk_task_id r" "ob_run_count q = tk_run_count r" for q
  proof -
    have e: "q \<in> set (db_outbox (fst (discard_uncertain_loop (invalid_uncertain_rows (Some (tk_task_id r)) db1) db1)))"
      using that(1) by (simp add: out discard_invalid_uncertain_def)
    from discard_loop_effect [OF e] obtain p where p: "p \<in> set (db_outbox db1)" "ob_outbox_key q = ob_outbox_key p"
        "ob_task_id q = ob_task_id p" "ob_run_count q = ob_run_count p"
      by blast
    then have "p \<in> set (invalid_uncertain_rows (Some (tk_task_id r)) db1)"
      using task_at_updated [OF 1] that assms(2,3) by (auto simp: invalid_uncertain_rows_def uncertain_effect_def)
    then show ?thesis
      using discard_loop_effect [OF e] p by auto
  qed
  have "publish_claimed_settled_outbox i now db' = (db', Inr False)"
    if "q \<in> set (db_outbox db')" "ob_status q = OB_delivered" "so_outbox_key i = ob_outbox_key q" for q i now
    using publish_not_claimed [OF u that(1)] that(2,3) by simp
  then show ?thesis
    using del r' by blast
qed


subsection \<open>Concrete instances\<close>

definition sample_event :: event_spec where
  "sample_event = \<lparr>es_event_type = str ''x'', es_data = [], es_created_at = 0\<rparr>"

definition sample_row :: "int \<Rightarrow> event_row" where
  "sample_row n = \<lparr>te_event_id = n, te_task_id = str ''c'', te_run_count = 1, te_event_type = str ''x'',
     te_created_at = 0, te_data_json = serialize_event_data []\<rparr>"

definition sample_stored :: "int \<Rightarrow> stored_event" where
  "sample_stored n = \<lparr>se_event_id = n, se_task_id = str ''c'', se_run_count = 1, se_event_type = str ''x'',
     se_created_at = 0, se_data = []\<rparr>"

definition db_two_events :: task_db where
  "db_two_events = empty_db\<lparr>db_tasks := [sample_task], db_events := [sample_row 1, sample_row 2],
     db_last_event_id := 2\<rparr>"

lemma sample_row_event [simp]: "row_to_event (sample_row n) = Inr (sample_stored n)"
  using json_loads_compact [of "J_obj []"]
  by (simp add: row_to_event_def sample_row_def sample_stored_def serialize_event_data_def
      dumps_compact_sorted_def)

lemma sample_ids [simp]: "te_event_id (sample_row n) = n" "se_event_id (sample_stored n) = n"
  "te_task_id (sample_row n) = str ''c''" "te_run_count (sample_row n) = 1"
  by (simp_all add: sample_row_def sample_stored_def)

lemma db_two_events_inv [simp]: "db_inv db_two_events"
  using db_inv_empty
  by (simp add: db_two_events_def db_inv_def events_ok_def unique_key_def empty_db_def)

lemma sample_pages:
  "list_events (str ''c'') 1 0 1 db_two_events = Inr [sample_stored 1]"
  "list_events (str ''c'') 1 1 1 db_two_events = Inr [sample_stored 2]"
  by (simp_all add: list_events_def db_two_events_def and_then_def)

theorem event_cursor_stable_witness:
  "map se_event_id ([sample_stored 1] @ [sample_stored 2])
    = take (Suc (Suc 0)) (map te_event_id (run_events (str ''c'') 1 0 db_two_events))"
  using event_cursor_stable [OF db_two_events_inv rtranclp.rtrancl_refl sample_pages(1), of 1 "[sample_stored 2]"]
    sample_pages(2) by simp

lemma sample_present: "task_at (str ''c'') db_two_events \<noteq> None"
  by (simp add: task_at_def db_two_events_def sample_task_def)

theorem event_data_round_trip_witness:
  "\<exists>ev. snd (append_task_event (str ''c'') 1 sample_event db_two_events) = Inr ev \<and> se_event_id ev = 3
    \<and> get_event 3 (fst (append_task_event (str ''c'') 1 sample_event db_two_events)) = Inr (Some ev)"
proof -
  have "json_plain (J_obj (es_data sample_event))" "db_last_event_id db_two_events = 2"
    by (simp_all add: sample_event_def db_two_events_def)
  then show ?thesis
    using event_data_round_trip [OF db_two_events_inv sample_present, of sample_event 1] by fastforce
qed

lemma sample_limit: "tk_delegation_max_tasks_per_root sample_task = Some 2"
  by (simp add: sample_task_def)

lemma sample_insert: "snd (insert_task_with_event sample_task sample_event empty_db) = Inr (sample_stored 1)"
proof -
  have "serialize_event_data [] = te_data_json (sample_row 1)"
    by (simp add: sample_row_def)
  then have "appended_event (str ''c'') 1 (str ''x'') [] 0 db = Inr (db\<lparr>db_last_event_id := 1,
      db_events := db_events db @ [sample_row 1]\<rparr>, sample_stored 1)" if "db_last_event_id db = 0" for db
    using sample_row_event [of 1] that
    by (simp add: appended_event_def append_event_locked_def Let_def and_then_def sample_row_def)
  then show ?thesis
    by (simp add: insert_task_with_event_def and_then_def ensure_new_identity_def task_at_def empty_db_def
        enforce_root_budget_def stored_root_limits_def count_under_root_def insert_task_locked_def
        sample_event_def transact_def sample_task_def)
qed

definition sibling_task :: task_record where
  "sibling_task = sample_task\<lparr>tk_task_id := str ''d''\<rparr>"

definition third_task :: task_record where
  "third_task = sample_task\<lparr>tk_task_id := str ''e'', tk_delegation_max_tasks_per_root := Some 9\<rparr>"

definition db_family :: task_db where
  "db_family = fst (insert_task third_task (fst (insert_task sibling_task (fst (insert_task sample_task empty_db)))))"

lemma family_tasks: "map tk_task_id (db_tasks db_family) = [str ''c'', str ''d'']"
  by code_simp

lemma family_first: "case db_tasks db_family of [] \<Rightarrow> False | t # _ \<Rightarrow> t = sample_task"
  by code_simp

text \<open>The third Task asks for more, and is refused by the limit of its siblings.\<close>

theorem insert_under_root_budget_witness:
  "map tk_task_id (db_tasks db_family) = [str ''c'', str ''d''] \<and> count_under_root (str ''p'') db_family \<le> 2"
proof -
  have b: "budgeted (str ''p'') sample_task" "budgeted (str ''p'') sibling_task" "budgeted (str ''p'') third_task"
    by (simp_all add: budgeted_def sibling_task_def third_task_def sample_limit)
  have run: "(budgeted_step (str ''p''))\<^sup>*\<^sup>* empty_db db_family"
    unfolding db_family_def
    using Insert [OF b(1), of empty_db] Insert [OF b(2), of "fst (insert_task sample_task empty_db)"]
      Insert [OF b(3), of "fst (insert_task sibling_task (fst (insert_task sample_task empty_db)))"]
    by (meson rtranclp.rtrancl_into_rtrancl rtranclp.rtrancl_refl)
  have "sample_task \<in> set (db_tasks db_family)"
    using family_first by (cases "db_tasks db_family") auto
  from insert_under_root_budget [OF run this _ sample_limit] show ?thesis
    using family_tasks by (simp add: sample_task_def)
qed

definition sample_review :: review_record where
  "sample_review = \<lparr>rv_review_id = str ''v'', rv_task_id = str ''c'', rv_root_task_id = str ''p'',
     rv_payload = [], rv_created_at = 1, rv_updated_at = 1, rv_ingest_sequence = 0,
     rv_cursor_order_updated_at = None\<rparr>"

definition db_reviewed :: task_db where
  "db_reviewed = fst (update_review_transition sample_task (Some sample_review) None [] None db_settled)"

lemma db_reviewed_inv: "db_inv db_reviewed"
proof -
  have "db_inv db_settled"
    using keeps_insert_task [of empty_db sample_task] db_inv_empty
      keeps_reconcile [of "fst (insert_task sample_task empty_db)" sample_uuid 10 6]
    by (simp add: db_settled_def keeps_def)
  then show ?thesis
    using keeps_review_transition [of db_settled sample_task "Some sample_review" None "[]" None]
    by (simp add: db_reviewed_def keeps_def)
qed

definition newer_review :: review_record where
  "newer_review = sample_review\<lparr>rv_updated_at := 9\<rparr>"

lemma sample_rereview:
  "snd (update_review_transition sample_task (Some newer_review) None [] None db_reviewed) = Inr []"
  "map rv_ingest_sequence (db_reviews db_reviewed) = [1]"
  "list_all (\<lambda>v. rv_task_id v = str ''c'' \<and> rv_review_id v = str ''v'') (db_reviews db_reviewed)"
  "tk_task_id sample_task = str ''c''" "rv_review_id newer_review = str ''v''"
  by code_simp+

theorem review_order_stable_witness:
  "\<exists>v \<in> set (db_reviews (fst (update_review_transition sample_task (Some newer_review) None [] None db_reviewed))).
     rv_review_id v = str ''v'' \<and> rv_ingest_sequence v = 1"
proof -
  obtain old where "old \<in> set (db_reviews db_reviewed)" "rv_task_id old = tk_task_id sample_task"
      "rv_review_id old = rv_review_id newer_review" "rv_ingest_sequence old = 1"
    using sample_rereview by (cases "db_reviews db_reviewed") auto
  moreover have "update_review_transition sample_task (Some newer_review) None [] None db_reviewed
      = (fst (update_review_transition sample_task (Some newer_review) None [] None db_reviewed), Inr [])"
    using sample_rereview(1) by (simp add: prod_eq_iff)
  note review_order_stable [OF db_reviewed_inv this]
  ultimately show ?thesis
    using sample_rereview(5) by metis
qed

definition remote_sample :: task_record where
  "remote_sample = sample_task\<lparr>tk_route_kind := RK_remote_ref, tk_state := TS_running,
     tk_external_operation := Some (str ''o''), tk_external_outcome_uncertain := True\<rparr>"

theorem restart_normalizes_witness:
  "build_settled_outbox_intent sample_uuid (task_record_for_restart 7 remote_sample) = None
    \<and> tk_state (task_record_for_restart 7 remote_sample) = TS_interrupted"
  using restart_normalizes [of remote_sample 7 sample_uuid 8] by (simp add: remote_sample_def)

lemma sample_withdraw:
  "map_option tk_task_id (case snd (update_uncertain_external_operation remote_sample db_claimed) of
     Inl _ \<Rightarrow> None | Inr r \<Rightarrow> Some r) = Some (str ''c'')"
  "tk_external_operation remote_sample \<noteq> None" "tk_external_outcome_uncertain remote_sample"
  by code_simp+

theorem uncertain_run_withdraws_settlement_witness:
  "\<exists>r'. snd (update_uncertain_external_operation remote_sample db_claimed) = Inr r'
    \<and> tk_task_id r' = str ''c''
    \<and> (\<forall>q \<in> set (db_outbox (fst (update_uncertain_external_operation remote_sample db_claimed))).
        ob_task_id q = str ''c'' \<and> ob_run_count q = 1 \<longrightarrow> ob_status q = OB_delivered)"
proof -
  obtain r' where r': "snd (update_uncertain_external_operation remote_sample db_claimed) = Inr r'" "tk_task_id r' = str ''c''"
    using sample_withdraw(1) by (auto split: sum.splits)
  moreover have "update_uncertain_external_operation remote_sample db_claimed
      = (fst (update_uncertain_external_operation remote_sample db_claimed), Inr r')"
    using r' by (simp add: prod_eq_iff)
  note uncertain_run_withdraws_settlement [OF sample_inv(2) sample_withdraw(2,3) this]
  moreover have "tk_task_id remote_sample = str ''c''" "tk_run_count remote_sample = 1"
    by (simp_all add: remote_sample_def sample_task_def)
  ultimately show ?thesis
    by auto
qed

end
