(* ===== verification/Task_Watch.thy ===== *)
theory Task_Watch
  imports Task_Model
begin

text \<open>
  \<open>channels/task_watch.py\<close>: the loop that observes one run of a Gateway Task.

  One turn of the loop is a function of the watch's local variables and of what happens in
  the turn (\<open>moment\<close>): the answer of \<open>get_task\<close>, the outcome of every hook it may call, the
  random number of the jitter and whether the sleep is cancelled.  It returns the calls it makes,
  in order.  Seconds are rationals, so the arithmetic of the delay is exact.  A hook
  that is absent (\<open>None\<close>) is a false flag.
\<close>

datatype watch_exn =
    Gateway_status int
  | Httpx_transport
  | Os_failure
  | Runtime_failure
  | Other_failure

fun is_retryable_gateway_error :: "watch_exn \<Rightarrow> bool" where
  "is_retryable_gateway_error (Gateway_status code) =
     (code \<in> {408, 429} \<or> 500 \<le> code \<and> code \<le> 599)"
| "is_retryable_gateway_error Httpx_transport = True"
| "is_retryable_gateway_error Os_failure = True"
| "is_retryable_gateway_error Runtime_failure = True"
| "is_retryable_gateway_error Other_failure = False"

record retry_policy =
  rp_max_attempts :: int
  rp_base_delay :: rat
  rp_max_delay :: rat
  rp_jitter_ratio :: rat

definition default_retry_policy :: retry_policy where
  "default_retry_policy =
     \<lparr>rp_max_attempts = 5, rp_base_delay = 1 / 2, rp_max_delay = 30, rp_jitter_ratio = 1 / 5\<rparr>"

definition retry_delay :: "retry_policy \<Rightarrow> int \<Rightarrow> rat \<Rightarrow> rat" where
  "retry_delay p attempt random_value =
     (let base = min (rp_max_delay p) (rp_base_delay p * 2 ^ nat (max 0 (attempt - 1)));
          jitter = base * rp_jitter_ratio p * max 0 (min 1 random_value)
      in min (rp_max_delay p) (base + jitter))"

record snapshot =
  sn_run_count :: int
  sn_status :: task_state
  sn_has_pending_review :: bool

text \<open>\<open>Poll_payload (Inl e)\<close>: the payload arrived and \<open>gateway_task_from_payload\<close> raised.\<close>

datatype poll = Poll_raises watch_exn | Poll_cancelled | Poll_payload "watch_exn + snapshot"

datatype hook_result = Hook_returns | Hook_raises watch_exn | Hook_cancelled

record moment =
  mo_poll :: poll
  mo_observed :: hook_result
  mo_superseded :: hook_result
  mo_review :: hook_result
  mo_terminal :: hook_result
  mo_grace :: hook_result
  mo_retry :: hook_result
  mo_exhausted :: hook_result
  mo_error :: hook_result
  mo_random :: rat
  mo_sleep_cancelled :: bool

record watch_hooks =
  wh_superseded :: bool
  wh_observed :: bool
  wh_retry :: bool
  wh_error :: bool
  wh_stopped :: bool
  wh_grace :: bool
  wh_exhausted :: bool

record watch_config =
  wc_policy :: retry_policy
  wc_poll_interval :: rat
  wc_hooks :: watch_hooks
  wc_expected :: int

datatype watch_action =
    Act_observed snapshot
  | Act_superseded snapshot
  | Act_review snapshot
  | Act_terminal snapshot
  | Act_grace snapshot
  | Act_retry watch_exn int rat
  | Act_exhausted watch_exn bool
  | Act_error watch_exn
  | Act_sleep rat
  | Act_stopped

text \<open>\<open>grace_checks_remaining\<close> starts at \<open>max(0, checks)\<close> and never goes below 0.\<close>

record watch_state =
  ws_terminal_sent :: bool
  ws_grace :: nat
  ws_query_attempt :: int
  ws_delivery_attempt :: int

definition watch_start :: "int \<Rightarrow> watch_state" where
  "watch_start terminal_review_grace_checks =
     \<lparr>ws_terminal_sent = False, ws_grace = nat (max 0 terminal_review_grace_checks),
      ws_query_attempt = 0, ws_delivery_attempt = 0\<rparr>"

text \<open>How a turn ends: the loop goes on, or the coroutine is over (by return or cancellation).\<close>

datatype watch_next = W_next watch_state | W_end

datatype body_end = B_next watch_state | B_return | B_cancelled | B_raised watch_exn watch_state

definition hook_call :: "bool \<Rightarrow> hook_result \<Rightarrow> watch_action \<Rightarrow> watch_action list \<times> hook_result" where
  "hook_call present result act = (if present then ([act], result) else ([], Hook_returns))"

definition after_hook ::
  "watch_action list \<times> hook_result \<Rightarrow> watch_state \<Rightarrow> watch_action list \<times> body_end \<Rightarrow>
   watch_action list \<times> body_end" where
  "after_hook call st rest =
     (case snd call of
        Hook_returns \<Rightarrow> (fst call @ fst rest, snd rest)
      | Hook_raises e \<Rightarrow> (fst call, B_raised e st)
      | Hook_cancelled \<Rightarrow> (fst call, B_cancelled))"

definition pause :: "watch_config \<Rightarrow> moment \<Rightarrow> watch_state \<Rightarrow> watch_action list \<times> body_end" where
  "pause c mo st =
     ([Act_sleep (wc_poll_interval c)], if mo_sleep_cancelled mo then B_cancelled else B_next st)"

text \<open>The inner \<open>try\<close> block, on a Task snapshot.\<close>

definition settle_turn ::
  "watch_config \<Rightarrow> moment \<Rightarrow> snapshot \<Rightarrow> watch_state \<Rightarrow> watch_action list \<times> body_end" where
  "settle_turn c mo task st =
     (if ws_grace st = 0
      then after_hook (hook_call (wh_grace (wc_hooks c)) (mo_grace mo) (Act_grace task)) st ([], B_return)
      else pause c mo (st\<lparr>ws_grace := ws_grace st - 1\<rparr>))"

definition watch_react ::
  "watch_config \<Rightarrow> moment \<Rightarrow> snapshot \<Rightarrow> watch_state \<Rightarrow> watch_action list \<times> body_end" where
  "watch_react c mo task st =
     (if sn_run_count task > wc_expected c then
        after_hook (hook_call (wh_superseded (wc_hooks c)) (mo_superseded mo) (Act_superseded task)) st
          ([], B_return)
      else if sn_run_count task < wc_expected c then pause c mo st
      else if sn_has_pending_review task then
        after_hook (hook_call True (mo_review mo) (Act_review task)) st ([], B_return)
      else if sn_status task \<in> set settled_task_states then
        (if ws_terminal_sent st then settle_turn c mo task st
         else after_hook (hook_call True (mo_terminal mo) (Act_terminal task)) st
                (settle_turn c mo task (st\<lparr>ws_terminal_sent := True, ws_delivery_attempt := 0\<rparr>)))
      else pause c mo (st\<lparr>ws_delivery_attempt := 0\<rparr>))"

definition watch_body ::
  "watch_config \<Rightarrow> moment \<Rightarrow> snapshot \<Rightarrow> watch_state \<Rightarrow> watch_action list \<times> body_end" where
  "watch_body c mo task st =
     after_hook (hook_call (wh_observed (wc_hooks c)) (mo_observed mo) (Act_observed task)) st
       (watch_react c mo task st)"

text \<open>\<open>_report_exhausted\<close> then \<open>_report_error\<close>: their exceptions are swallowed, a cancellation is not.\<close>

definition report_error :: "watch_config \<Rightarrow> moment \<Rightarrow> watch_exn \<Rightarrow> watch_action list" where
  "report_error c mo e = fst (hook_call (wh_error (wc_hooks c)) (mo_error mo) (Act_error e))"

definition give_up :: "watch_config \<Rightarrow> moment \<Rightarrow> watch_exn \<Rightarrow> bool \<Rightarrow> watch_action list \<times> watch_next" where
  "give_up c mo e auto_redrive =
     (let (acts, r) = hook_call (wh_exhausted (wc_hooks c)) (mo_exhausted mo) (Act_exhausted e auto_redrive)
      in (if r = Hook_cancelled then acts else acts @ report_error c mo e, W_end))"

text \<open>\<open>on_retry\<close> and the sleep of the delay; an exception of \<open>on_retry\<close> leaves the loop.\<close>

definition back_off ::
  "watch_config \<Rightarrow> moment \<Rightarrow> watch_exn \<Rightarrow> int \<Rightarrow> watch_state \<Rightarrow> watch_action list \<times> watch_next" where
  "back_off c mo e attempt st =
     (let delay = retry_delay (wc_policy c) attempt (mo_random mo);
          (acts, r) = hook_call (wh_retry (wc_hooks c)) (mo_retry mo) (Act_retry e attempt delay)
      in case r of
           Hook_returns \<Rightarrow>
             (acts @ [Act_sleep delay], if mo_sleep_cancelled mo then W_end else W_next st)
         | Hook_raises e' \<Rightarrow> (acts @ report_error c mo e', W_end)
         | Hook_cancelled \<Rightarrow> (acts, W_end))"

definition query_failed ::
  "watch_config \<Rightarrow> moment \<Rightarrow> watch_exn \<Rightarrow> bool \<Rightarrow> watch_state \<Rightarrow> watch_action list \<times> watch_next" where
  "query_failed c mo e auto_redrive st =
     (let attempt = ws_query_attempt st + 1
      in if \<not> is_retryable_gateway_error e \<or> attempt > rp_max_attempts (wc_policy c)
         then give_up c mo e auto_redrive
         else back_off c mo e attempt (st\<lparr>ws_query_attempt := attempt\<rparr>))"

definition delivery_failed ::
  "watch_config \<Rightarrow> moment \<Rightarrow> watch_exn \<Rightarrow> watch_state \<Rightarrow> watch_action list \<times> watch_next" where
  "delivery_failed c mo e st =
     (let attempt = ws_delivery_attempt st + 1
      in if attempt > rp_max_attempts (wc_policy c) then give_up c mo e False
         else back_off c mo e attempt (st\<lparr>ws_delivery_attempt := attempt\<rparr>))"

definition watch_turn ::
  "watch_config \<Rightarrow> moment \<Rightarrow> watch_state \<Rightarrow> watch_action list \<times> watch_next" where
  "watch_turn c mo st =
     (case mo_poll mo of
        Poll_cancelled \<Rightarrow> ([], W_end)
      | Poll_raises e \<Rightarrow> query_failed c mo e (is_retryable_gateway_error e) st
      | Poll_payload (Inl e) \<Rightarrow> query_failed c mo e False st
      | Poll_payload (Inr task) \<Rightarrow>
          (let (acts, r) = watch_body c mo task (st\<lparr>ws_query_attempt := 0\<rparr>)
           in case r of
                B_next st' \<Rightarrow> (acts, W_next st')
              | B_return \<Rightarrow> (acts, W_end)
              | B_cancelled \<Rightarrow> (acts, W_end)
              | B_raised e st' \<Rightarrow>
                  (let (acts', r') = delivery_failed c mo e st' in (acts @ acts', r'))))"

text \<open>The loop over the moments observed so far: the calls made and, while it goes on, its state.\<close>

fun watch_loop ::
  "watch_config \<Rightarrow> moment list \<Rightarrow> watch_state \<Rightarrow> watch_action list \<times> watch_state option" where
  "watch_loop c [] st = ([], Some st)"
| "watch_loop c (mo # mos) st =
     (case watch_turn c mo st of
        (acts, W_end) \<Rightarrow> (acts @ (if wh_stopped (wc_hooks c) then [Act_stopped] else []), None)
      | (acts, W_next st') \<Rightarrow>
          (let (acts', r) = watch_loop c mos st' in (acts @ acts', r)))"


subsection \<open>The delay\<close>

definition sane_policy :: "retry_policy \<Rightarrow> bool" where
  "sane_policy p \<longleftrightarrow> 0 \<le> rp_max_attempts p \<and> 0 \<le> rp_base_delay p \<and> 0 \<le> rp_max_delay p
     \<and> 0 \<le> rp_jitter_ratio p"

lemma retry_delay_mono:
  assumes "sane_policy p" and "a \<le> b"
  shows "retry_delay p a r \<le> retry_delay p b r"
proof -
  let ?base = "\<lambda>n. min (rp_max_delay p) (rp_base_delay p * 2 ^ nat (max 0 (n - 1)))"
  let ?j = "\<lambda>n. ?base n * rp_jitter_ratio p * max 0 (min 1 r)"
  have "(2 :: rat) ^ nat (max 0 (a - 1)) \<le> 2 ^ nat (max 0 (b - 1))"
    using assms(2) by (intro power_increasing) auto
  then have "rp_base_delay p * 2 ^ nat (max 0 (a - 1)) \<le> rp_base_delay p * 2 ^ nat (max 0 (b - 1))"
    using assms(1) by (intro mult_left_mono) (auto simp: sane_policy_def)
  then have le: "?base a \<le> ?base b"
    by (rule min.mono [OF order_refl])
  then have "?j a \<le> ?j b"
    using assms(1) by (intro mult_right_mono) (auto simp: sane_policy_def)
  with le have "?base a + ?j a \<le> ?base b + ?j b"
    by (rule add_mono)
  then show ?thesis
    unfolding retry_delay_def Let_def by (rule min.mono [OF order_refl])
qed

text \<open>
  The delay before a retry is never negative and never exceeds the policy's maximum, it does
  not shrink from one attempt to the next, and the jitter only ever lengthens it: it is at
  least the capped exponential delay.
\<close>

theorem retry_delay_bounded:
  assumes "sane_policy p" and "a \<le> b"
  shows "0 \<le> retry_delay p a r \<and> retry_delay p a r \<le> rp_max_delay p
    \<and> retry_delay p a r \<le> retry_delay p b r
    \<and> min (rp_max_delay p) (rp_base_delay p * 2 ^ nat (max 0 (a - 1))) \<le> retry_delay p a r"
proof -
  let ?base = "min (rp_max_delay p) (rp_base_delay p * 2 ^ nat (max 0 (a - 1)))"
  have b: "0 \<le> ?base"
    using assms(1) by (auto simp: sane_policy_def)
  then have "0 \<le> ?base * rp_jitter_ratio p * max 0 (min 1 r)"
    using assms(1) by (intro mult_nonneg_nonneg) (auto simp: sane_policy_def)
  then have "?base \<le> retry_delay p a r"
    by (simp add: retry_delay_def Let_def)
  moreover have "retry_delay p a r \<le> rp_max_delay p"
    by (simp add: retry_delay_def Let_def)
  ultimately show ?thesis
    using b retry_delay_mono [OF assms] by (meson order_trans)
qed

theorem retry_delay_bounded_witness:
  "0 \<le> retry_delay default_retry_policy 3 1 \<and> retry_delay default_retry_policy 3 1 \<le> 30
    \<and> retry_delay default_retry_policy 3 1 \<le> retry_delay default_retry_policy 9 1"
  using retry_delay_bounded [of default_retry_policy 3 9 1]
  by (simp add: sane_policy_def default_retry_policy_def)

subsection \<open>What a turn may do\<close>

definition action_ok :: "watch_config \<Rightarrow> watch_action \<Rightarrow> bool" where
  "action_ok c a = (case a of
       Act_terminal t \<Rightarrow> sn_run_count t = wc_expected c \<and> sn_status t \<in> set settled_task_states
                        \<and> \<not> sn_has_pending_review t
     | Act_grace t \<Rightarrow> sn_run_count t = wc_expected c \<and> sn_status t \<in> set settled_task_states
     | Act_review t \<Rightarrow> sn_run_count t = wc_expected c \<and> sn_has_pending_review t
     | Act_superseded t \<Rightarrow> sn_run_count t > wc_expected c
     | _ \<Rightarrow> True)"

lemma fst_hook_call: "fst (hook_call b r a) = (if b then [a] else [])"
  by (simp add: hook_call_def)

lemma after_hook_actions: "set (fst (after_hook call st rest)) \<subseteq> set (fst call) \<union> set (fst rest)"
  by (auto simp: after_hook_def split: hook_result.splits)

lemma watch_body_ok: "a \<in> set (fst (watch_body c mo t st)) \<Longrightarrow> action_ok c a"
  unfolding watch_body_def watch_react_def settle_turn_def pause_def
  by (auto simp: fst_hook_call action_ok_def split: if_splits
      dest!: subsetD [OF after_hook_actions])

definition is_terminal :: "watch_action \<Rightarrow> bool" where
  "is_terminal a = (case a of Act_terminal _ \<Rightarrow> True | _ \<Rightarrow> False)"

lemma failed_actions:
  "a \<in> set (fst (query_failed c mo e b st)) \<Longrightarrow> action_ok c a \<and> \<not> is_terminal a"
  "a \<in> set (fst (delivery_failed c mo e st)) \<Longrightarrow> action_ok c a \<and> \<not> is_terminal a"
  by (auto simp: query_failed_def delivery_failed_def give_up_def back_off_def report_error_def
      hook_call_def Let_def action_ok_def is_terminal_def split: if_splits hook_result.splits)

lemma watch_turn_cases:
  "watch_turn c mo st = (case mo_poll mo of
        Poll_cancelled \<Rightarrow> ([], W_end)
      | Poll_raises e \<Rightarrow> query_failed c mo e (is_retryable_gateway_error e) st
      | Poll_payload (Inl e) \<Rightarrow> query_failed c mo e False st
      | Poll_payload (Inr task) \<Rightarrow>
          (let b = watch_body c mo task (st\<lparr>ws_query_attempt := 0\<rparr>)
           in case snd b of
                B_next st' \<Rightarrow> (fst b, W_next st')
              | B_return \<Rightarrow> (fst b, W_end)
              | B_cancelled \<Rightarrow> (fst b, W_end)
              | B_raised e st' \<Rightarrow> (fst b @ fst (delivery_failed c mo e st'), snd (delivery_failed c mo e st'))))"
  by (simp add: watch_turn_def Let_def split_beta split: poll.split sum.split)

lemma watch_loop_Cons:
  "watch_loop c (mo # mos) st = (case snd (watch_turn c mo st) of
     W_end \<Rightarrow> (fst (watch_turn c mo st) @ (if wh_stopped (wc_hooks c) then [Act_stopped] else []), None)
   | W_next st' \<Rightarrow> (fst (watch_turn c mo st) @ fst (watch_loop c mos st'), snd (watch_loop c mos st')))"
  by (simp add: split_beta split: prod.split watch_next.split)

declare watch_loop.simps(2) [simp del]

lemma watch_turn_ok: "a \<in> set (fst (watch_turn c mo st)) \<Longrightarrow> action_ok c a"
  unfolding watch_turn_cases Let_def
  by (auto split: poll.splits sum.splits body_end.splits dest: watch_body_ok failed_actions)

lemma action_ok_stopped [simp]: "action_ok c Act_stopped"
  by (simp add: action_ok_def)

lemma watch_loop_ok: "a \<in> set (fst (watch_loop c mos st)) \<Longrightarrow> action_ok c a"
  by (induction mos arbitrary: st)
    (auto simp: watch_loop_Cons split: watch_next.splits if_splits dest: watch_turn_ok)

subsection \<open>Terminal notifications\<close>

definition terminals :: "watch_action list \<Rightarrow> nat" where
  "terminals acts = length (filter is_terminal acts)"

definition terminal_failed :: "moment \<Rightarrow> bool" where
  "terminal_failed mo = (case mo_terminal mo of Hook_returns \<Rightarrow> False | _ \<Rightarrow> True)"

lemma terminals_append [simp]: "terminals (a @ b) = terminals a + terminals b"
  by (simp add: terminals_def)

lemma terminals_none: "(\<And>a. a \<in> set acts \<Longrightarrow> \<not> is_terminal a) \<Longrightarrow> terminals acts = 0"
  by (simp add: terminals_def)

lemma terminals_failed [simp]:
  "terminals (fst (query_failed c mo e b st)) = 0" "terminals (fst (delivery_failed c mo e st)) = 0"
  by (auto intro!: terminals_none dest: failed_actions)

lemma terminals_settle [simp]: "terminals (fst (settle_turn c mo t st)) = 0"
  by (auto simp: settle_turn_def pause_def hook_call_def after_hook_def terminals_def is_terminal_def
      split: hook_result.splits)

fun sent_after :: "body_end \<Rightarrow> bool option" where
  "sent_after (B_next st) = Some (ws_terminal_sent st)"
| "sent_after (B_raised e st) = Some (ws_terminal_sent st)"
| "sent_after _ = None"

lemma settle_sent: "sent_after (snd (settle_turn c mo t st)) \<in> {None, Some (ws_terminal_sent st)}"
  by (auto simp: settle_turn_def pause_def hook_call_def after_hook_def split: hook_result.splits)

lemma terminals_Nil [simp]: "terminals [] = 0"
  by (simp add: terminals_def)

lemma terminals_hook [simp]:
  "terminals (fst (hook_call b r (Act_terminal t))) = (if b then 1 else 0)"
  "terminals (fst (hook_call b r (Act_observed t))) = 0"
  "terminals (fst (hook_call b r (Act_superseded t))) = 0"
  "terminals (fst (hook_call b r (Act_review t))) = 0"
  by (simp_all add: hook_call_def terminals_def is_terminal_def)

lemma terminals_pause [simp]: "terminals (fst (pause c mo st)) = 0"
  by (simp add: pause_def terminals_def is_terminal_def)

lemma sent_after_pause: "sent_after (snd (pause c mo st)) \<in> {None, Some (ws_terminal_sent st)}"
  by (simp add: pause_def)

lemma fst_after_hook: "fst (after_hook call st rest) = fst call @ (if snd call = Hook_returns then fst rest else [])"
  by (auto simp: after_hook_def split: hook_result.split)

lemma snd_hook_call: "snd (hook_call b r a) = (if b then r else Hook_returns)"
  by (simp add: hook_call_def)

text \<open>At most one terminal call; a successful one leaves the flag set, and the flag prevents another.\<close>

definition terminal_once :: "moment \<Rightarrow> watch_state \<Rightarrow> watch_action list \<times> body_end \<Rightarrow> bool" where
  "terminal_once mo st r \<longleftrightarrow>
     terminals (fst r) + (if ws_terminal_sent st then 1 else 0)
       \<le> (if terminal_failed mo then 1 else 0)
         + (case sent_after (snd r) of None \<Rightarrow> 1 | Some b \<Rightarrow> if b then 1 else 0)"

lemma terminal_once_pause: "terminal_once mo st (pause c mo st)" "terminal_once mo st (pause c mo (st\<lparr>ws_delivery_attempt := n\<rparr>))"
  by (auto simp: terminal_once_def pause_def terminals_def is_terminal_def)

lemma terminal_once_settle: "ws_terminal_sent st \<Longrightarrow> terminal_once mo st (settle_turn c mo t st)"
  using settle_sent [of c mo t st] by (auto simp: terminal_once_def)

lemma terminal_once_hook:
  "terminals (fst call) = 0 \<Longrightarrow> terminal_once mo st rest \<Longrightarrow> terminal_once mo st (after_hook call st rest)"
  by (auto simp: terminal_once_def after_hook_def split: hook_result.splits)

lemma terminal_once_return: "terminal_once mo st ([], B_return)"
  by (simp add: terminal_once_def)

lemma watch_react_terminals: "terminal_once mo st (watch_react c mo t st)"
proof -
  have "terminal_once mo st (after_hook (hook_call True (mo_terminal mo) (Act_terminal t)) st
      (settle_turn c mo t (st\<lparr>ws_terminal_sent := True, ws_delivery_attempt := 0\<rparr>)))"
    if "\<not> ws_terminal_sent st"
    using that settle_sent [of c mo t "st\<lparr>ws_terminal_sent := True, ws_delivery_attempt := 0\<rparr>"]
    by (auto simp: terminal_once_def fst_after_hook snd_hook_call terminal_failed_def after_hook_def
        split: hook_result.splits)
  then show ?thesis
    unfolding watch_react_def
    by (auto intro: terminal_once_hook terminal_once_return terminal_once_pause terminal_once_settle)
qed

lemma watch_body_terminals: "terminal_once mo st (watch_body c mo t st)"
  unfolding watch_body_def by (intro terminal_once_hook watch_react_terminals) simp

lemma give_up_ends [simp]: "snd (give_up c mo e b) = W_end"
  by (simp add: give_up_def split_beta)

lemma back_off_next: "snd (back_off c mo e n st) = W_next st' \<Longrightarrow> st' = st"
  by (simp add: back_off_def Let_def split_beta split: hook_result.splits if_splits)

lemma query_failed_next:
  "snd (query_failed c mo e b st) = W_next st' \<Longrightarrow> st' = st\<lparr>ws_query_attempt := ws_query_attempt st + 1\<rparr>
     \<and> ws_query_attempt st < rp_max_attempts (wc_policy c)"
  by (auto simp: query_failed_def Let_def dest: back_off_next split: if_splits)

lemma delivery_failed_next:
  "snd (delivery_failed c mo e st) = W_next st' \<Longrightarrow> st' = st\<lparr>ws_delivery_attempt := ws_delivery_attempt st + 1\<rparr>
     \<and> ws_delivery_attempt st < rp_max_attempts (wc_policy c)"
  by (auto simp: delivery_failed_def Let_def dest: back_off_next split: if_splits)

lemma failed_sent:
  "snd (query_failed c mo e b st) = W_next st' \<Longrightarrow> ws_terminal_sent st' = ws_terminal_sent st"
  "snd (delivery_failed c mo e st) = W_next st' \<Longrightarrow> ws_terminal_sent st' = ws_terminal_sent st"
  by (drule query_failed_next, simp, drule delivery_failed_next, simp)

lemma failed_flag:
  "(if ws_terminal_sent st then 1 else (0 :: nat))
     \<le> (case snd (query_failed c mo e b st) of W_end \<Rightarrow> 1 | W_next st' \<Rightarrow> if ws_terminal_sent st' then 1 else 0)"
  "(if ws_terminal_sent st then 1 else (0 :: nat))
     \<le> (case snd (delivery_failed c mo e st) of W_end \<Rightarrow> 1 | W_next st' \<Rightarrow> if ws_terminal_sent st' then 1 else 0)"
proof -
  show "(if ws_terminal_sent st then 1 else (0 :: nat))
     \<le> (case snd (query_failed c mo e b st) of W_end \<Rightarrow> 1 | W_next st' \<Rightarrow> if ws_terminal_sent st' then 1 else 0)"
    by (cases "snd (query_failed c mo e b st)") (simp_all add: failed_sent(1))
  show "(if ws_terminal_sent st then 1 else (0 :: nat))
     \<le> (case snd (delivery_failed c mo e st) of W_end \<Rightarrow> 1 | W_next st' \<Rightarrow> if ws_terminal_sent st' then 1 else 0)"
    by (cases "snd (delivery_failed c mo e st)") (simp_all add: failed_sent(2))
qed

definition turn_once :: "moment \<Rightarrow> watch_state \<Rightarrow> watch_action list \<times> watch_next \<Rightarrow> bool" where
  "turn_once mo st r \<longleftrightarrow> terminals (fst r) + (if ws_terminal_sent st then 1 else 0)
     \<le> (if terminal_failed mo then 1 else 0)
       + (case snd r of W_end \<Rightarrow> 1 | W_next st' \<Rightarrow> if ws_terminal_sent st' then 1 else 0)"

lemma watch_turn_terminals: "turn_once mo st (watch_turn c mo st)"
proof -
  have q: "turn_once mo st (query_failed c mo e b st)" for e b
    using failed_flag(1) [of st c mo e b] by (simp add: turn_once_def)
  have "turn_once mo st (watch_turn c mo st)" if "mo_poll mo = Poll_payload (Inr t)" for t
  proof -
    let ?b = "watch_body c mo t (st\<lparr>ws_query_attempt := 0\<rparr>)"
    have once: "terminal_once mo (st\<lparr>ws_query_attempt := 0\<rparr>) ?b"
      by (rule watch_body_terminals)
    show ?thesis
    proof (cases "snd ?b")
      case (B_raised e st')
      then show ?thesis
        using once failed_flag(2) [of st' c mo e]
        by (simp add: watch_turn_cases that turn_once_def terminal_once_def)
    qed (use once in \<open>simp_all add: watch_turn_cases that turn_once_def terminal_once_def\<close>)
  qed
  moreover have "turn_once mo st ([], W_end)"
    by (simp add: turn_once_def)
  ultimately show ?thesis
    using q by (cases "mo_poll mo") (auto simp: watch_turn_cases split: sum.split)
qed

lemma watch_loop_terminals:
  "terminals (fst (watch_loop c mos st)) + (if ws_terminal_sent st then 1 else 0)
     \<le> 1 + length (filter terminal_failed mos)"
proof (induction mos arbitrary: st)
  case (Cons mo mos)
  show ?case
  proof (cases "snd (watch_turn c mo st)")
    case (W_next st')
    then show ?thesis
      using watch_turn_terminals [of mo st c] Cons.IH [of st']
      by (simp add: watch_loop_Cons turn_once_def split: if_splits)
  next
    case W_end
    have "terminals [Act_stopped] = 0"
      by (simp add: terminals_def is_terminal_def)
    then show ?thesis
      using watch_turn_terminals [of mo st c] W_end by (simp add: watch_loop_Cons turn_once_def split: if_splits)
  qed
qed simp

text \<open>
  C34. A watch speaks only for its own run, and announces its end once: every terminal, grace and
  review call is made on a snapshot of exactly the watched run (terminal ones on a settled
  snapshot without a pending review), every superseded call on a later run, and the
  number of terminal calls is at most one more than the number of times that hook failed, whatever
  the Gateway answers and whatever the hooks do.
\<close>

theorem watch_notifies_once:
  "(\<forall>a \<in> set (fst (watch_loop c mos (watch_start n))). action_ok c a)
    \<and> length (filter is_terminal (fst (watch_loop c mos (watch_start n)))) \<le> 1 + length (filter terminal_failed mos)"
  using watch_loop_terminals [of c mos "watch_start n"]
  by (auto simp: watch_start_def terminals_def dest: watch_loop_ok)

subsection \<open>The watch ends\<close>

text \<open>The Task is settled (or reviewed, or superseded) as far as this poll can tell.\<close>

definition settled_poll :: "watch_config \<Rightarrow> moment \<Rightarrow> bool" where
  "settled_poll c mo = (case mo_poll mo of
       Poll_payload (Inr t) \<Rightarrow> sn_run_count t > wc_expected c
         \<or> sn_run_count t = wc_expected c
            \<and> (sn_has_pending_review t \<or> sn_status t \<in> set settled_task_states)
     | _ \<Rightarrow> True)"

text \<open>How much a watch may still do: flag, grace checks, delivery attempts, query attempts.\<close>

definition budget :: "watch_config \<Rightarrow> nat \<Rightarrow> watch_state \<Rightarrow> nat" where
  "budget c g st =
     (let m = nat (rp_max_attempts (wc_policy c))
      in (((if ws_terminal_sent st then 0 else Suc g) + ws_grace st) * Suc m
           + (m - nat (ws_delivery_attempt st))) * Suc m + (m - nat (ws_query_attempt st)))"

definition in_range :: "watch_config \<Rightarrow> nat \<Rightarrow> watch_state \<Rightarrow> bool" where
  "in_range c g st \<longleftrightarrow> ws_grace st \<le> g
     \<and> 0 \<le> ws_delivery_attempt st \<and> ws_delivery_attempt st \<le> rp_max_attempts (wc_policy c)
     \<and> 0 \<le> ws_query_attempt st \<and> ws_query_attempt st \<le> rp_max_attempts (wc_policy c)"

text \<open>The body either uses up grace or sets the flag, or fails with the state otherwise kept.\<close>

lemma settle_next:
  "snd (settle_turn c mo t st) = B_next st' \<Longrightarrow> 0 < ws_grace st \<and> st' = st\<lparr>ws_grace := ws_grace st - 1\<rparr>"
  "snd (settle_turn c mo t st) = B_raised e st' \<Longrightarrow> st' = st"
  by (auto simp: settle_turn_def pause_def hook_call_def after_hook_def split: if_splits hook_result.splits)

lemma after_hook_end:
  "snd (after_hook call st rest) = B_next st' \<Longrightarrow> snd rest = B_next st'"
  "snd (after_hook call st rest) = B_raised e st' \<Longrightarrow> st' = st \<or> snd rest = B_raised e st'"
  by (auto simp: after_hook_def split: hook_result.splits)


definition flagged :: "watch_state \<Rightarrow> watch_state" where
  "flagged st = st\<lparr>ws_terminal_sent := True, ws_delivery_attempt := 0\<rparr>"

lemma watch_react_next:
  assumes "settled_poll c mo" and "mo_poll mo = Poll_payload (Inr t)" and "snd (watch_react c mo t st) = B_next st'"
  shows "0 < ws_grace st \<and> (st' = (if ws_terminal_sent st then st else flagged st)\<lparr>ws_grace := ws_grace st - 1\<rparr>)"
proof -
  have "sn_run_count t > wc_expected c \<or> sn_run_count t = wc_expected c
      \<and> (sn_has_pending_review t \<or> sn_status t \<in> set settled_task_states)"
    using assms(1,2) by (simp add: settled_poll_def)
  moreover have False if "snd (after_hook call st ([], B_return)) = B_next st'" for call
    using after_hook_end(1) [OF that] by simp
  ultimately consider
      "ws_terminal_sent st" "snd (settle_turn c mo t st) = B_next st'"
    | "\<not> ws_terminal_sent st" "snd (settle_turn c mo t (flagged st)) = B_next st'"
    using assms(3) by (auto simp: watch_react_def flagged_def dest: after_hook_end(1) split: if_splits)
  then show ?thesis
    by cases (auto dest!: settle_next(1) simp: flagged_def)
qed

lemma watch_react_raised:
  assumes "settled_poll c mo" and "mo_poll mo = Poll_payload (Inr t)" and "snd (watch_react c mo t st) = B_raised e st'"
  shows "st' = st \<or> \<not> ws_terminal_sent st \<and> st' = flagged st"
proof -
  have "sn_run_count t > wc_expected c \<or> sn_run_count t = wc_expected c
      \<and> (sn_has_pending_review t \<or> sn_status t \<in> set settled_task_states)"
    using assms(1,2) by (simp add: settled_poll_def)
  then show ?thesis
    using assms(3) by (auto simp: watch_react_def flagged_def dest!: after_hook_end(2) settle_next(2) split: if_splits)
qed

lemma mult_step: "a < b \<Longrightarrow> x \<le> m \<Longrightarrow> a * Suc m + x < b * Suc m + (y :: nat)"
proof -
  assume "a < b" "x \<le> m"
  then have "Suc a * Suc m \<le> b * Suc m"
    by (intro mult_le_mono1) simp
  then show ?thesis
    using \<open>x \<le> m\<close> by simp
qed

lemma lex_step:
  fixes w d q m :: nat
  assumes "w' < w \<or> w' = w \<and> (d' < d \<or> d' = d \<and> q' < q)" and "d' \<le> m" and "q' \<le> m"
  shows "(w' * Suc m + d') * Suc m + q' < (w * Suc m + d) * Suc m + q"
proof -
  have "w' * Suc m + d' < w * Suc m + d \<or> w' * Suc m + d' = w * Suc m + d \<and> q' < q"
    using assms(1) mult_step [OF _ assms(2), of w' w d] by (elim disjE conjE) simp_all
  then show ?thesis
    using mult_step [OF _ assms(3), of "w' * Suc m + d'" "w * Suc m + d" q] by force
qed

text \<open>The budget falls when the flag and the grace say so, or by an attempt.\<close>

definition weight :: "nat \<Rightarrow> watch_state \<Rightarrow> nat" where
  "weight g st = (if ws_terminal_sent st then 0 else Suc g) + ws_grace st"

lemma budget_falls:
  assumes "in_range c g st" and "in_range c g st'"
    and "weight g st' < weight g st \<or> weight g st' = weight g st
        \<and> (ws_delivery_attempt st < ws_delivery_attempt st'
          \<or> ws_delivery_attempt st = ws_delivery_attempt st' \<and> ws_query_attempt st < ws_query_attempt st')"
  shows "budget c g st' < budget c g st"
proof -
  let ?m = "nat (rp_max_attempts (wc_policy c))"
  have d: "?m - nat (ws_delivery_attempt st') < ?m - nat (ws_delivery_attempt st)"
    if "ws_delivery_attempt st < ws_delivery_attempt st'"
    using that assms(1,2) unfolding in_range_def by linarith
  have q: "?m - nat (ws_query_attempt st') < ?m - nat (ws_query_attempt st)"
    if "ws_query_attempt st < ws_query_attempt st'"
    using that assms(1,2) unfolding in_range_def by linarith
  have "weight g st' < weight g st \<or> weight g st' = weight g st
      \<and> (?m - nat (ws_delivery_attempt st') < ?m - nat (ws_delivery_attempt st)
        \<or> ?m - nat (ws_delivery_attempt st') = ?m - nat (ws_delivery_attempt st)
          \<and> ?m - nat (ws_query_attempt st') < ?m - nat (ws_query_attempt st))"
    using assms(3) d q by metis
  then have "(weight g st' * Suc ?m + (?m - nat (ws_delivery_attempt st'))) * Suc ?m + (?m - nat (ws_query_attempt st'))
      < (weight g st * Suc ?m + (?m - nat (ws_delivery_attempt st))) * Suc ?m + (?m - nat (ws_query_attempt st))"
    by (rule lex_step) simp_all
  then show ?thesis
    by (simp only: budget_def weight_def Let_def)
qed

definition spends :: "watch_config \<Rightarrow> nat \<Rightarrow> watch_state \<Rightarrow> watch_state \<Rightarrow> bool" where
  "spends c g st st' \<longleftrightarrow> in_range c g st' \<and> budget c g st' < budget c g st"

lemma query_failed_spends:
  assumes "in_range c g st" and "snd (query_failed c mo e b st) = W_next st'"
  shows "spends c g st st'"
proof -
  have st': "st' = st\<lparr>ws_query_attempt := ws_query_attempt st + 1\<rparr>" "ws_query_attempt st < rp_max_attempts (wc_policy c)"
    using query_failed_next [OF assms(2)] by auto
  then have r: "in_range c g st'"
    using assms(1) by (simp add: in_range_def)
  show ?thesis
    using budget_falls [OF assms(1) r] r st' by (simp add: spends_def weight_def)
qed

lemma watch_turn_spends:
  assumes "settled_poll c mo" and "in_range c g st" and "snd (watch_turn c mo st) = W_next st'"
  shows "spends c g st st'"
proof (cases "mo_poll mo")
  case (Poll_payload r)
  show ?thesis
  proof (cases r)
    case (Inr t)
    note poll = Poll_payload [unfolded Inr]
    let ?st = "st\<lparr>ws_query_attempt := 0\<rparr>"
    let ?b = "watch_body c mo t ?st"
    consider (go) st1 where "snd ?b = B_next st1" "st' = st1"
      | (fail) e st1 where "snd ?b = B_raised e st1" "snd (delivery_failed c mo e st1) = W_next st'"
      using assms(3) poll by (cases "snd ?b") (auto simp: watch_turn_cases Let_def)
    then show ?thesis
    proof cases
      case go
      then have "snd (watch_react c mo t ?st) = B_next st'"
        unfolding watch_body_def using after_hook_end(1) by blast
      from watch_react_next [OF assms(1) poll this]
      have s: "0 < ws_grace st" "st' = (if ws_terminal_sent st then ?st else flagged ?st)\<lparr>ws_grace := ws_grace st - 1\<rparr>"
        by simp_all
      then have r: "in_range c g st'"
        using assms(2) by (auto simp: in_range_def flagged_def)
      have "weight g st' < weight g st"
        using s by (auto simp: weight_def flagged_def)
      then show ?thesis
        using budget_falls [OF assms(2) r] r by (simp add: spends_def)
    next
      case fail
      have "st1 = ?st \<or> \<not> ws_terminal_sent st \<and> st1 = flagged ?st"
        using fail(1) after_hook_end(2) watch_react_raised [OF assms(1) poll] unfolding watch_body_def by fastforce
      moreover have d: "st' = st1\<lparr>ws_delivery_attempt := ws_delivery_attempt st1 + 1\<rparr>"
          "ws_delivery_attempt st1 < rp_max_attempts (wc_policy c)"
        using delivery_failed_next [OF fail(2)] by auto
      ultimately have r: "in_range c g st'" and "weight g st' < weight g st \<or> weight g st' = weight g st
          \<and> ws_delivery_attempt st < ws_delivery_attempt st'"
        using assms(2) by (auto simp: in_range_def flagged_def weight_def)
      then show ?thesis
        using budget_falls [OF assms(2) r] by (auto simp: spends_def)
    qed
  qed (use assms Poll_payload query_failed_spends in \<open>simp add: watch_turn_cases\<close>)
qed (use assms query_failed_spends in \<open>simp_all add: watch_turn_cases\<close>)

lemma watch_loop_ends:
  assumes "\<forall>mo \<in> set mos. settled_poll c mo" and "in_range c g st" and "budget c g st < length mos"
  shows "snd (watch_loop c mos st) = None"
  using assms
proof (induction mos arbitrary: st)
  case (Cons mo mos)
  show ?case
  proof (cases "snd (watch_turn c mo st)")
    case (W_next st')
    then have s: "in_range c g st'" "budget c g st' < budget c g st"
      using watch_turn_spends [of c mo g st st'] Cons.prems by (auto simp: spends_def)
    then have "snd (watch_loop c mos st') = None"
      using Cons.prems by (intro Cons.IH) auto
    then show ?thesis
      using W_next by (simp add: watch_loop_Cons)
  qed (simp add: watch_loop_Cons)
qed simp


text \<open>Whatever the earlier polls showed, the state stays in range.\<close>

definition near :: "watch_state \<Rightarrow> watch_state \<Rightarrow> bool" where
  "near st st' \<longleftrightarrow> ws_grace st' \<le> ws_grace st \<and> ws_delivery_attempt st' \<in> {0, ws_delivery_attempt st}
     \<and> ws_query_attempt st' = ws_query_attempt st"

lemma near_refl [simp]: "near st st"
  by (simp add: near_def)

lemma pause_near:
  "snd (pause c mo st1) = B_next st' \<Longrightarrow> near st st1 \<Longrightarrow> near st st'"
  "snd (pause c mo st1) = B_raised e st' \<Longrightarrow> near st st1 \<Longrightarrow> near st st'"
  by (auto simp: pause_def split: if_splits)

lemma settle_near:
  "snd (settle_turn c mo t st1) = B_next st' \<Longrightarrow> near st st1 \<Longrightarrow> near st st'"
  "snd (settle_turn c mo t st1) = B_raised e st' \<Longrightarrow> near st st1 \<Longrightarrow> near st st'"
  by (drule settle_next, auto simp: near_def)+

lemma watch_react_near:
  "snd (watch_react c mo t st) = B_next st' \<Longrightarrow> near st st'"
  "snd (watch_react c mo t st) = B_raised e st' \<Longrightarrow> near st st'"
proof -
  have z: "near st (st\<lparr>ws_delivery_attempt := 0\<rparr>)"
    "near st (st\<lparr>ws_terminal_sent := True, ws_delivery_attempt := 0\<rparr>)"
    by (simp_all add: near_def)
  show "snd (watch_react c mo t st) = B_next st' \<Longrightarrow> near st st'"
    using z pause_near(1) [where st = st] settle_near(1) [where st = st]
    by (auto simp: watch_react_def dest!: after_hook_end(1) split: if_splits)
  show "snd (watch_react c mo t st) = B_raised e st' \<Longrightarrow> near st st'"
    using z pause_near(2) [where st = st] settle_near(2) [where st = st]
    by (auto simp: watch_react_def dest!: after_hook_end(2) split: if_splits)
qed

lemma near_in_range: "in_range c g st \<Longrightarrow> near (st\<lparr>ws_query_attempt := 0\<rparr>) st' \<Longrightarrow> in_range c g st'"
  by (auto simp: in_range_def near_def)

lemma query_failed_range:
  "in_range c g st \<Longrightarrow> snd (query_failed c mo e b st) = W_next st' \<Longrightarrow> in_range c g st'"
  using query_failed_spends by (auto simp: spends_def)

lemma watch_turn_in_range:
  assumes "in_range c g st" and "snd (watch_turn c mo st) = W_next st'"
  shows "in_range c g st'"
proof (cases "mo_poll mo")
  case (Poll_payload r)
  show ?thesis
  proof (cases r)
    case (Inr t)
    note poll = Poll_payload [unfolded Inr]
    let ?st = "st\<lparr>ws_query_attempt := 0\<rparr>"
    let ?b = "watch_body c mo t ?st"
    consider (go) "snd ?b = B_next st'"
      | (fail) e st1 where "snd ?b = B_raised e st1" "snd (delivery_failed c mo e st1) = W_next st'"
      using assms(2) poll by (cases "snd ?b") (auto simp: watch_turn_cases Let_def)
    then show ?thesis
    proof cases
      case go
      then have "near ?st st'"
        unfolding watch_body_def using after_hook_end(1) watch_react_near(1) by blast
      then show ?thesis
        by (rule near_in_range [OF assms(1)])
    next
      case fail
      have "st1 = ?st \<or> snd (watch_react c mo t ?st) = B_raised e st1"
        using after_hook_end(2) [OF fail(1) [unfolded watch_body_def]] .
      then have "near ?st st1"
        by (elim disjE) (simp, erule watch_react_near(2))
      then have "in_range c g st1"
        by (rule near_in_range [OF assms(1)])
      moreover have "st' = st1\<lparr>ws_delivery_attempt := ws_delivery_attempt st1 + 1\<rparr>"
          "ws_delivery_attempt st1 < rp_max_attempts (wc_policy c)"
        using delivery_failed_next [OF fail(2)] by auto
      ultimately show ?thesis
        by (simp add: in_range_def)
    qed
  next
    case (Inl e)
    then have "snd (query_failed c mo e False st) = W_next st'"
      using assms(2) Poll_payload by (simp add: watch_turn_cases)
    then show ?thesis
      by (rule query_failed_range [OF assms(1)])
  qed
next
  case (Poll_raises e)
  then have "snd (query_failed c mo e (is_retryable_gateway_error e) st) = W_next st'"
    using assms(2) by (simp add: watch_turn_cases)
  then show ?thesis
    by (rule query_failed_range [OF assms(1)])
qed (use assms(2) in \<open>simp add: watch_turn_cases\<close>)

lemma watch_loop_append:
  "snd (watch_loop c (xs @ ys) st) =
    (case snd (watch_loop c xs st) of None \<Rightarrow> None | Some st' \<Rightarrow> snd (watch_loop c ys st'))"
proof (induction xs arbitrary: st)
  case (Cons mo xs)
  then show ?case
    by (cases "snd (watch_turn c mo st)") (simp_all add: watch_loop_Cons)
qed simp

lemma watch_loop_in_range:
  "in_range c g st \<Longrightarrow> snd (watch_loop c mos st) = Some st' \<Longrightarrow> in_range c g st'"
proof (induction mos arbitrary: st)
  case (Cons mo mos)
  then show ?case
    using watch_turn_in_range [OF Cons.prems(1), of mo]
    by (cases "snd (watch_turn c mo st)") (auto simp: watch_loop_Cons)
qed simp

lemma budget_bound:
  assumes "in_range c g st"
  shows "budget c g st < 2 * (g + 1) * (nat (rp_max_attempts (wc_policy c)) + 1) ^ 2"
proof -
  let ?m = "nat (rp_max_attempts (wc_policy c))"
  have w: "weight g st \<le> Suc g + g"
    using assms by (simp add: weight_def in_range_def)
  have "budget c g st = (weight g st * Suc ?m + (?m - nat (ws_delivery_attempt st))) * Suc ?m
      + (?m - nat (ws_query_attempt st))"
    by (simp add: budget_def weight_def Let_def)
  also have "\<dots> \<le> ((Suc g + g) * Suc ?m + ?m) * Suc ?m + ?m"
    using w by (intro add_mono mult_le_mono) simp_all
  also have "\<dots> < 2 * (g + 1) * (?m + 1) ^ 2"
    by (simp add: power2_eq_square algebra_simps)
  finally show ?thesis .
qed

text \<open>
  C35. A watch on a settled Task ends: whatever the watch saw and did before, once every further poll
  fails or shows the run settled, reviewed or superseded, the watch is over after at most
  2 (g + 1) (m + 1)^2 further turns, where g is the number of grace checks and m the number of
  retries, whatever the hooks and the network do meanwhile.
\<close>

theorem watch_ends_when_settled:
  assumes "0 \<le> rp_max_attempts (wc_policy c)" and "\<forall>mo \<in> set mos. settled_poll c mo"
    and "2 * (nat g + 1) * (nat (rp_max_attempts (wc_policy c)) + 1) ^ 2 \<le> length mos"
  shows "snd (watch_loop c (earlier @ mos) (watch_start g)) = None"
proof (cases "snd (watch_loop c earlier (watch_start g))")
  case (Some st)
  have "in_range c (nat g) (watch_start g)"
    using assms(1) by (simp add: in_range_def watch_start_def)
  then have st: "in_range c (nat g) st"
    using watch_loop_in_range Some by blast
  then have "snd (watch_loop c mos st) = None"
    using watch_loop_ends [OF assms(2) st] budget_bound [OF st] assms(3) by linarith
  then show ?thesis
    by (simp add: watch_loop_append Some)
qed (simp add: watch_loop_append)

text \<open>The calls that tell the channel how the watch ended.\<close>

definition tells_end :: "watch_action \<Rightarrow> bool" where
  "tells_end a = (case a of Act_superseded _ \<Rightarrow> True | Act_review _ \<Rightarrow> True | Act_grace _ \<Rightarrow> True
     | Act_error _ \<Rightarrow> True | _ \<Rightarrow> False)"

definition all_hooks :: watch_hooks where
  "all_hooks = \<lparr>wh_superseded = True, wh_observed = True, wh_retry = True, wh_error = True,
     wh_stopped = True, wh_grace = True, wh_exhausted = True\<rparr>"

definition not_cancelled :: "moment \<Rightarrow> bool" where
  "not_cancelled mo \<longleftrightarrow> mo_poll mo \<noteq> Poll_cancelled \<and> \<not> mo_sleep_cancelled mo
     \<and> (\<forall>f \<in> {mo_observed, mo_superseded, mo_review, mo_terminal, mo_grace, mo_retry, mo_exhausted}.
          f mo \<noteq> Hook_cancelled)"

lemma give_up_tells: "wc_hooks c = all_hooks \<Longrightarrow> not_cancelled mo \<Longrightarrow>
    fst (give_up c mo e b) \<noteq> [] \<and> tells_end (last (fst (give_up c mo e b)))"
  by (auto simp: give_up_def report_error_def hook_call_def all_hooks_def not_cancelled_def tells_end_def)

lemma back_off_tells: "wc_hooks c = all_hooks \<Longrightarrow> not_cancelled mo \<Longrightarrow> snd (back_off c mo e n st) = W_end \<Longrightarrow>
    fst (back_off c mo e n st) \<noteq> [] \<and> tells_end (last (fst (back_off c mo e n st)))"
  by (auto simp: back_off_def report_error_def hook_call_def all_hooks_def not_cancelled_def tells_end_def
      Let_def split: hook_result.splits)

lemma failed_tells:
  assumes "wc_hooks c = all_hooks" and "not_cancelled mo"
  shows "snd (query_failed c mo e b st) = W_end \<Longrightarrow>
      fst (query_failed c mo e b st) \<noteq> [] \<and> tells_end (last (fst (query_failed c mo e b st)))"
    and "snd (delivery_failed c mo e st) = W_end \<Longrightarrow>
      fst (delivery_failed c mo e st) \<noteq> [] \<and> tells_end (last (fst (delivery_failed c mo e st)))"
  using assms by (auto simp: query_failed_def delivery_failed_def Let_def give_up_tells back_off_tells)

lemma watch_body_tells:
  assumes "wc_hooks c = all_hooks" and "not_cancelled mo"
  shows "snd (watch_body c mo t st) \<noteq> B_cancelled
    \<and> (snd (watch_body c mo t st) = B_return \<longrightarrow>
        fst (watch_body c mo t st) \<noteq> [] \<and> tells_end (last (fst (watch_body c mo t st))))"
proof -
  have react: "snd (watch_react c mo t st) \<noteq> B_cancelled
    \<and> (snd (watch_react c mo t st) = B_return \<longrightarrow>
        fst (watch_react c mo t st) \<noteq> [] \<and> tells_end (last (fst (watch_react c mo t st))))"
    using assms
    by (auto simp: watch_react_def settle_turn_def pause_def hook_call_def all_hooks_def not_cancelled_def
        tells_end_def after_hook_def split: hook_result.splits)
  then show ?thesis
    using assms by (auto simp: watch_body_def after_hook_def hook_call_def not_cancelled_def split: hook_result.splits)
qed

lemma watch_turn_tells:
  assumes "wc_hooks c = all_hooks" and "not_cancelled mo" and "snd (watch_turn c mo st) = W_end"
  shows "fst (watch_turn c mo st) \<noteq> [] \<and> tells_end (last (fst (watch_turn c mo st)))"
proof (cases "mo_poll mo")
  case (Poll_payload r)
  show ?thesis
  proof (cases r)
    case (Inr t)
    then show ?thesis
      using assms Poll_payload watch_body_tells [OF assms(1,2), of t "st\<lparr>ws_query_attempt := 0\<rparr>"]
      by (cases "snd (watch_body c mo t (st\<lparr>ws_query_attempt := 0\<rparr>))")
        (auto simp: watch_turn_cases Let_def failed_tells)
  qed (use assms Poll_payload in \<open>simp add: watch_turn_cases failed_tells\<close>)
qed (use assms in \<open>simp_all add: watch_turn_cases failed_tells not_cancelled_def\<close>)

text \<open>
  No watch dies silently: with every hook present and nothing cancelled, a watch that is over
  has made a last call that tells the channel why (review, superseded, grace complete or
  error), directly followed by the stopped call, its last one.
\<close>

theorem watch_end_reported:
  assumes "wc_hooks c = all_hooks" and "\<forall>mo \<in> set mos. not_cancelled mo"
    and "snd (watch_loop c mos st) = None"
  shows "\<exists>pre a. fst (watch_loop c mos st) = pre @ [a, Act_stopped] \<and> tells_end a"
  using assms(2,3)
proof (induction mos arbitrary: st)
  case (Cons mo mos)
  show ?case
  proof (cases "snd (watch_turn c mo st)")
    case W_end
    have "fst (watch_turn c mo st) \<noteq> [] \<and> tells_end (last (fst (watch_turn c mo st)))"
      using watch_turn_tells [OF assms(1) _ W_end] Cons.prems by simp
    then have "fst (watch_loop c (mo # mos) st) = butlast (fst (watch_turn c mo st)) @ [last (fst (watch_turn c mo st)), Act_stopped]"
      using W_end assms(1) by (simp add: watch_loop_Cons all_hooks_def)
    then show ?thesis
      using watch_turn_tells [OF assms(1) _ W_end] Cons.prems by auto
  next
    case (W_next st')
    then obtain pre a where "fst (watch_loop c mos st') = pre @ [a, Act_stopped]" "tells_end a"
      using Cons.IH [of st'] Cons.prems by (auto simp: watch_loop_Cons)
    then show ?thesis
      using W_next by (auto simp: watch_loop_Cons)
  qed
qed simp


text \<open>
  A malformed payload raises a Gateway error with status 502, which is retryable: the loop polls
  again, although the comment beside it calls it no evidence that retrying will help.
\<close>

lemma malformed_payload_retried:
  assumes "mo_poll mo = Poll_payload (Inl (Gateway_status 502))" and "mo_retry mo = Hook_returns"
    and "\<not> mo_sleep_cancelled mo" and "ws_query_attempt st < rp_max_attempts (wc_policy c)"
  shows "snd (watch_turn c mo st) = W_next (st\<lparr>ws_query_attempt := ws_query_attempt st + 1\<rparr>)"
  using assms by (simp add: watch_turn_cases query_failed_def back_off_def hook_call_def Let_def)

subsection \<open>A concrete watch\<close>

definition sample_config :: watch_config where
  "sample_config = \<lparr>wc_policy = default_retry_policy\<lparr>rp_max_attempts := 0\<rparr>, wc_poll_interval = 2,
     wc_hooks = all_hooks, wc_expected = 1\<rparr>"

definition sample_snapshot :: snapshot where
  "sample_snapshot = \<lparr>sn_run_count = 1, sn_status = TS_completed, sn_has_pending_review = False\<rparr>"

definition sample_moment :: moment where
  "sample_moment = \<lparr>mo_poll = Poll_payload (Inr sample_snapshot), mo_observed = Hook_returns,
     mo_superseded = Hook_returns, mo_review = Hook_returns, mo_terminal = Hook_returns,
     mo_grace = Hook_returns, mo_retry = Hook_returns, mo_exhausted = Hook_returns,
     mo_error = Hook_returns, mo_random = 0, mo_sleep_cancelled = False\<rparr>"

lemma sample_loop:
  "watch_loop sample_config [sample_moment, sample_moment] (watch_start 1) =
     ([Act_observed sample_snapshot, Act_terminal sample_snapshot, Act_sleep 2,
       Act_observed sample_snapshot, Act_grace sample_snapshot, Act_stopped], None)"
  by (simp add: watch_loop_Cons watch_turn_cases watch_body_def watch_react_def settle_turn_def pause_def
      hook_call_def after_hook_def Let_def sample_config_def sample_moment_def sample_snapshot_def
      watch_start_def all_hooks_def settled_task_states_def)

lemma sample_facts: "settled_poll sample_config sample_moment" "not_cancelled sample_moment"
  "wc_hooks sample_config = all_hooks" "rp_max_attempts (wc_policy sample_config) = 0"
  by (simp_all add: settled_poll_def not_cancelled_def sample_moment_def sample_config_def sample_snapshot_def
      settled_task_states_def default_retry_policy_def)

definition running_moment :: moment where
  "running_moment = sample_moment\<lparr>mo_poll := Poll_payload (Inr (sample_snapshot\<lparr>sn_status := TS_running\<rparr>))\<rparr>"

theorem watch_notifies_once_witness:
  "length (filter is_terminal (fst (watch_loop sample_config [sample_moment, sample_moment] (watch_start 1)))) \<le> 1
    \<and> sn_run_count sample_snapshot = 1"
  using watch_notifies_once [of sample_config "[sample_moment, sample_moment]" 1]
  by (simp add: terminal_failed_def sample_moment_def sample_loop action_ok_def sample_snapshot_def is_terminal_def)

theorem watch_ends_when_settled_witness:
  "snd (watch_loop sample_config (running_moment # [sample_moment, sample_moment, sample_moment, sample_moment])
     (watch_start 1)) = None \<and> \<not> settled_poll sample_config running_moment"
  using watch_ends_when_settled [of sample_config "[sample_moment, sample_moment, sample_moment, sample_moment]" 1
      "[running_moment]"]
    sample_facts
  by (simp add: settled_poll_def running_moment_def sample_moment_def sample_config_def sample_snapshot_def
      settled_task_states_def)

theorem watch_end_reported_witness:
  "\<exists>pre a. fst (watch_loop sample_config [sample_moment, sample_moment] (watch_start 1)) = pre @ [a, Act_stopped]
    \<and> tells_end a"
  using watch_end_reported [of sample_config "[sample_moment, sample_moment]" "watch_start 1"]
    sample_facts sample_loop by simp

end
