(* ===== verification/Telegram_Text.thy ===== *)
theory Telegram_Text
  imports Ruyi_Prelude
begin

text \<open>
  The message text routines of \<open>channels/telegram/formatting.py\<close> that use no regular
  expression search: UTF-16 length, MarkdownV2 escaping and its inverse, and the splitting of a
  long text into messages.  \<open>_utf16_len\<close> raises on a lone surrogate, which
  \<open>split_telegram_message\<close> does at its first statement or not at all.
\<close>

definition telegram_max_message_length :: int where
  "telegram_max_message_length = 4096"

definition mdv2_special_chars :: pystr where
  "mdv2_special_chars = str ''_*[]()~`>#+-=|{}.!''"

definition surrogate :: "nat \<Rightarrow> bool" where
  "surrogate c \<longleftrightarrow> 55296 \<le> c \<and> c \<le> 57343"

definition utf16_len :: "pystr \<Rightarrow> int" where
  "utf16_len t = sum_list (map (\<lambda>c. if c < 65536 then 1 else 2) t)"

definition escape_mdv2 :: "pystr \<Rightarrow> pystr" where
  "escape_mdv2 t = concat (map (\<lambda>c. if c = 92 \<or> c \<in> set mdv2_special_chars then [92, c] else [c]) t)"

text \<open>\<open>re.sub(r"\\([\\_*...])", r"\1", text)\<close>: non-overlapping matches, left to right.\<close>

fun unescape_mdv2 :: "pystr \<Rightarrow> pystr" where
  "unescape_mdv2 [] = []"
| "unescape_mdv2 [c] = [c]"
| "unescape_mdv2 (c # d # t) =
     (if c = 92 \<and> (d = 92 \<or> d \<in> set mdv2_special_chars) then d # unescape_mdv2 t
      else c # unescape_mdv2 (d # t))"

text \<open>\<open>text.replace("||", "")\<close>.\<close>

fun drop_bars :: "pystr \<Rightarrow> pystr" where
  "drop_bars [] = []"
| "drop_bars [c] = [c]"
| "drop_bars (c # d # t) = (if c = 124 \<and> d = 124 then drop_bars t else c # drop_bars (d # t))"

definition strip_mdv2 :: "pystr \<Rightarrow> pystr" where
  "strip_mdv2 t =
     filter (\<lambda>c. c \<noteq> 96) (drop_bars (filter (\<lambda>c. c \<notin> {42, 95, 126}) (unescape_mdv2 t)))"

text \<open>\<open>str.splitlines(keepends=True)\<close>.\<close>

definition line_end :: "nat \<Rightarrow> bool" where
  "line_end c \<longleftrightarrow> c \<in> {10, 11, 12, 13, 28, 29, 30, 133, 8232, 8233}"

fun splitlines_from :: "pystr \<Rightarrow> pystr \<Rightarrow> pystr list" where
  "splitlines_from line [] = (if line = [] then [] else [line])"
| "splitlines_from line (c # t) =
     (if c = 13 \<and> t \<noteq> [] \<and> hd t = 10 then (line @ [13, 10]) # splitlines_from [] (tl t)
      else if line_end c then (line @ [c]) # splitlines_from [] t
      else splitlines_from (line @ [c]) t)"

definition splitlines_keepends :: "pystr \<Rightarrow> pystr list" where
  "splitlines_keepends t = splitlines_from [] t"

text \<open>The inner loop over the characters of a line that does not fit.\<close>

fun split_chars :: "int \<Rightarrow> pystr \<Rightarrow> pystr list \<Rightarrow> pystr \<Rightarrow> pystr list \<times> pystr" where
  "split_chars limit [] chunks current = (chunks, current)"
| "split_chars limit (c # line) chunks current =
     (if utf16_len (current @ [c]) > limit \<and> current \<noteq> []
      then split_chars limit line (chunks @ [current]) [c]
      else split_chars limit line chunks (current @ [c]))"

definition split_line :: "int \<Rightarrow> pystr \<Rightarrow> pystr list \<times> pystr \<Rightarrow> pystr list \<times> pystr" where
  "split_line limit line acc =
     (case acc of (chunks, current) \<Rightarrow>
        if utf16_len (current @ line) \<le> limit then (chunks, current @ line)
        else
          let chunks = (if current \<noteq> [] then chunks @ [current] else chunks)
          in if utf16_len line \<le> limit then (chunks, line)
             else split_chars limit line chunks [])"

definition split_telegram_message :: "int \<Rightarrow> pystr \<Rightarrow> py_error + pystr list" where
  "split_telegram_message limit t =
     (if list_ex surrogate t then Inl (ValueError (str ''surrogates not allowed''))
      else if utf16_len t \<le> limit then Inr [t]
      else
        let (chunks, current) = fold (split_line limit) (splitlines_keepends t) ([], [])
        in Inr (if current \<noteq> [] then chunks @ [current] else chunks))"

subsection \<open>Escaping\<close>

lemma unescape_escape_append:
  "unescape_mdv2 (escape_mdv2 t) = t"
proof (induction t)
  case (Cons c t)
  have cons: "escape_mdv2 (c # t) = (if c = 92 \<or> c \<in> set mdv2_special_chars then [92, c] else [c]) @ escape_mdv2 t"
    by (simp add: escape_mdv2_def)
  show ?case
  proof (cases "c = 92 \<or> c \<in> set mdv2_special_chars")
    case True
    then show ?thesis
      using Cons cons by simp
  next
    case False
    then show ?thesis
      using Cons cons by (cases "escape_mdv2 t") auto
  qed
qed (simp add: escape_mdv2_def)

text \<open>
  Escaping for MarkdownV2 loses nothing and protects everything: removing the escapes gives
  the text back, and in the escaped text every special character and every backslash of the
  original stands behind its own backslash, so the length grows by exactly their number.
\<close>

theorem mdv2_escape_round_trip:
  "unescape_mdv2 (escape_mdv2 t) = t
    \<and> length (escape_mdv2 t) = length t + length (filter (\<lambda>c. c = 92 \<or> c \<in> set mdv2_special_chars) t)"
proof -
  have "length (escape_mdv2 t) = length t + length (filter (\<lambda>c. c = 92 \<or> c \<in> set mdv2_special_chars) t)"
    by (induction t) (auto simp: escape_mdv2_def)
  then show ?thesis
    by (simp add: unescape_escape_append)
qed

subsection \<open>Splitting\<close>

lemma concat_splitlines_from: "concat (splitlines_from line t) = line @ t"
proof (induction line t rule: splitlines_from.induct)
  case (2 line c t)
  then show ?case
    by (cases t) auto
qed simp

lemma utf16_len_append [simp]: "utf16_len (a @ b) = utf16_len a + utf16_len b"
  by (simp add: utf16_len_def)

lemma utf16_len_single: "utf16_len [c] \<le> 2"
  by (simp add: utf16_len_def)

lemma utf16_len_nonneg: "0 \<le> utf16_len t"
  unfolding utf16_len_def by (induction t) auto

definition chunks_ok :: "int \<Rightarrow> pystr list \<times> pystr \<Rightarrow> bool" where
  "chunks_ok limit acc \<longleftrightarrow> (\<forall>c \<in> set (fst acc). c \<noteq> [] \<and> utf16_len c \<le> limit) \<and> utf16_len (snd acc) \<le> limit"

definition joined :: "pystr list \<times> pystr \<Rightarrow> pystr" where
  "joined acc = concat (fst acc) @ snd acc"

lemma split_chars_ok:
  assumes "2 \<le> limit" and "chunks_ok limit (chunks, current)"
  shows "chunks_ok limit (split_chars limit line chunks current)
    \<and> joined (split_chars limit line chunks current) = joined (chunks, current) @ line"
  using assms(2)
proof (induction line arbitrary: chunks current)
  case (Cons c line)
  show ?case
  proof (cases "utf16_len (current @ [c]) > limit \<and> current \<noteq> []")
    case True
    have "chunks_ok limit (chunks @ [current], [c])"
      using True Cons.prems utf16_len_single [of c] assms(1) by (auto simp: chunks_ok_def)
    from Cons.IH [OF this] show ?thesis
      using True by (simp add: joined_def)
  next
    case False
    then have "chunks_ok limit (chunks, current @ [c])"
      using Cons.prems utf16_len_single [of c] assms(1) by (auto simp: chunks_ok_def utf16_len_def)
    from Cons.IH [OF this] show ?thesis
      using False by (auto simp: joined_def)
  qed
qed (simp add: joined_def)

lemma split_line_ok:
  assumes "2 \<le> limit" and "chunks_ok limit acc"
  shows "chunks_ok limit (split_line limit line acc) \<and> joined (split_line limit line acc) = joined acc @ line"
proof -
  obtain chunks current where acc: "acc = (chunks, current)"
    by (cases acc)
  obtain ch where ch: "ch = (if current \<noteq> [] then chunks @ [current] else chunks)"
    by blast
  have c: "chunks_ok limit (ch, [])" and j: "joined acc = concat ch"
    using assms acc by (auto simp: ch chunks_ok_def joined_def utf16_len_def)
  consider (fits) "utf16_len (current @ line) \<le> limit"
    | (fresh) "\<not> utf16_len (current @ line) \<le> limit" "utf16_len line \<le> limit"
    | (long) "\<not> utf16_len (current @ line) \<le> limit" "\<not> utf16_len line \<le> limit"
    by blast
  then show ?thesis
  proof cases
    case fits
    then have "split_line limit line acc = (chunks, current @ line)"
      by (simp add: split_line_def acc)
    then show ?thesis
      using assms(2) fits acc by (simp add: chunks_ok_def joined_def)
  next
    case fresh
    then have "split_line limit line acc = (ch, line)"
      by (simp add: split_line_def acc ch)
    then show ?thesis
      using c fresh by (simp add: chunks_ok_def j) (simp add: joined_def)
  next
    case long
    then have "split_line limit line acc = split_chars limit line ch []"
      by (simp add: split_line_def acc ch)
    then show ?thesis
      using split_chars_ok [OF assms(1) c, of line] by (simp add: j) (simp add: joined_def)
  qed
qed

lemma fold_split_line_ok:
  assumes "2 \<le> limit" and "chunks_ok limit acc"
  shows "chunks_ok limit (fold (split_line limit) ls acc)
    \<and> joined (fold (split_line limit) ls acc) = joined acc @ concat ls"
  using assms(2)
proof (induction ls arbitrary: acc)
  case (Cons l ls)
  then show ?case
    using split_line_ok [OF assms(1) Cons.prems, of l] Cons.IH [of "split_line limit l acc"] by simp
qed simp

text \<open>
  Splitting a message keeps its text and obeys the platform's limit: for any limit of at least
  two UTF-16 units, the pieces put together are the text, no piece is longer than the limit,
  and none is empty unless the whole text is; only a lone surrogate is refused.
\<close>

theorem split_message_sound:
  assumes "2 \<le> limit" and "\<not> list_ex surrogate t"
  shows "\<exists>chunks. split_telegram_message limit t = Inr chunks \<and> concat chunks = t
    \<and> (\<forall>c \<in> set chunks. utf16_len c \<le> limit \<and> (c = [] \<longrightarrow> t = []))"
proof (cases "utf16_len t \<le> limit")
  case True
  then show ?thesis
    using assms by (auto simp: split_telegram_message_def)
next
  case False
  let ?r = "fold (split_line limit) (splitlines_keepends t) ([], [])"
  have "chunks_ok limit ([], [])"
    using assms(1) by (simp add: chunks_ok_def utf16_len_def)
  from fold_split_line_ok [OF assms(1) this, of "splitlines_keepends t"]
  have "chunks_ok limit ?r" "joined ?r = t"
    by (simp_all add: joined_def splitlines_keepends_def concat_splitlines_from)
  then show ?thesis
    using False assms(2)
    by (auto simp: split_telegram_message_def chunks_ok_def joined_def split_beta Let_def)
qed

theorem split_message_sound_witness:
  "\<exists>chunks. split_telegram_message 2 (str ''abc'') = Inr chunks \<and> concat chunks = str ''abc''
    \<and> (\<forall>c \<in> set chunks. utf16_len c \<le> 2)"
proof -
  have "\<not> list_ex surrogate (str ''abc'')"
    by (simp add: str_def surrogate_def)
  then show ?thesis
    using split_message_sound [of 2 "str ''abc''"] by auto
qed

end
