(* ===== verification/Channel_Sessions.thy ===== *)
theory Channel_Sessions
  imports Json_Parse
begin

text \<open>
  The session bindings and turn receipts of \<open>storage/channel_session_store.py\<close>.  The two
  tables are lists of rows; a binding with a receipt is one transaction, so an error leaves
  both as they were.  The \<open>a...\<close> methods run the same operations on a thread.
\<close>

record session_row =
  cs_session_key :: pystr
  cs_platform :: pystr
  cs_agent_name :: pystr
  cs_current_task_id :: "pystr option"
  cs_chat_id :: "pystr option"
  cs_user_id :: "pystr option"
  cs_thread_id :: "pystr option"
  cs_created_at :: int
  cs_updated_at :: int

record turn_row =
  tr_idempotency_key :: pystr
  tr_platform :: pystr
  tr_session_key :: pystr
  tr_operation :: pystr
  tr_request_hash :: pystr
  tr_task_id :: pystr
  tr_response_json :: pystr
  tr_created_at :: int

record turn_receipt =
  tn_idempotency_key :: pystr
  tn_platform :: pystr
  tn_session_key :: pystr
  tn_operation :: pystr
  tn_request_hash :: pystr
  tn_task_id :: pystr
  tn_response :: "(pystr \<times> json) list"
  tn_created_at :: int

record session_store =
  st_sessions :: "session_row list"
  st_turns :: "turn_row list"

record turn_args =
  ta_idempotency_key :: "pystr option"
  ta_operation :: "pystr option"
  ta_request_hash :: "pystr option"
  ta_response :: "(pystr \<times> json) list option"

definition get_session :: "pystr \<Rightarrow> session_store \<Rightarrow> session_row option" where
  "get_session session_key s = row_at cs_session_key session_key (st_sessions s)"

definition get_turn_receipt :: "pystr \<Rightarrow> session_store \<Rightarrow> py_error + turn_receipt option" where
  "get_turn_receipt key s =
     (case row_at tr_idempotency_key key (st_turns s) of
        None \<Rightarrow> Inr None
      | Some r \<Rightarrow>
          (case json_loads (tr_response_json r) of
             None \<Rightarrow> Inl (ValueError (str ''JSONDecodeError''))
           | Some (J_obj response) \<Rightarrow>
               Inr (Some \<lparr>tn_idempotency_key = tr_idempotency_key r, tn_platform = tr_platform r,
                    tn_session_key = tr_session_key r, tn_operation = tr_operation r,
                    tn_request_hash = tr_request_hash r, tn_task_id = tr_task_id r,
                    tn_response = response, tn_created_at = tr_created_at r\<rparr>)
           | Some _ \<Rightarrow> Inl (RuntimeError (str ''Channel turn receipt '' @ [39] @ key @ [39] @ str '' has an invalid response''))))"


text \<open>The statement of \<open>INSERT ... ON CONFLICT(session_key) DO UPDATE\<close>: \<open>created_at\<close> stays.\<close>

definition upsert_session :: "session_row \<Rightarrow> session_store \<Rightarrow> session_store" where
  "upsert_session r s =
     (case get_session (cs_session_key r) s of
        None \<Rightarrow> s\<lparr>st_sessions := st_sessions s @ [r]\<rparr>
      | Some _ \<Rightarrow> s\<lparr>st_sessions := rows_update (\<lambda>x. cs_session_key x = cs_session_key r)
                      (\<lambda>x. r\<lparr>cs_created_at := cs_created_at x\<rparr>) (st_sessions s)\<rparr>)"

definition same_turn :: "turn_row \<Rightarrow> turn_row \<Rightarrow> bool" where
  "same_turn a b \<longleftrightarrow>
     tr_platform a = tr_platform b \<and> tr_session_key a = tr_session_key b
     \<and> tr_operation a = tr_operation b \<and> tr_request_hash a = tr_request_hash b
     \<and> tr_task_id a = tr_task_id b \<and> tr_response_json a = tr_response_json b"

definition insert_or_validate_turn :: "turn_row \<Rightarrow> session_store \<Rightarrow> py_error + session_store" where
  "insert_or_validate_turn r s =
     (case row_at tr_idempotency_key (tr_idempotency_key r) (st_turns s) of
        Some old \<Rightarrow>
          if same_turn old r then Inr s
          else Inl (ValueError (str ''Channel turn receipt conflict for key '' @ [39]
                      @ tr_idempotency_key r @ [39]))
      | None \<Rightarrow> Inr (s\<lparr>st_turns := st_turns s @ [r]\<rparr>))"

definition check_turn_args :: "turn_args \<Rightarrow> py_error + unit" where
  "check_turn_args a =
     (case ta_idempotency_key a of
        None \<Rightarrow>
          if ta_operation a \<noteq> None \<or> ta_request_hash a \<noteq> None \<or> ta_response a \<noteq> None
          then Inl (ValueError (str ''Turn receipt fields require an idempotency key''))
          else Inr ()
      | Some _ \<Rightarrow>
          if ta_operation a \<notin> {Some (str ''create''), Some (str ''send'')}
             \<or> \<not> nonempty_opt (ta_request_hash a) \<or> ta_response a = None
          then Inl (ValueError (str ''Turn receipt requires operation, request hash, and response''))
          else Inr ())"

definition turn_row_of :: "session_row \<Rightarrow> turn_args \<Rightarrow> int \<Rightarrow> turn_row option" where
  "turn_row_of r a now =
     (case (ta_idempotency_key a, ta_operation a, ta_request_hash a, ta_response a, cs_current_task_id r) of
        (Some key, Some operation, Some hash, Some response, Some task_id) \<Rightarrow>
          Some \<lparr>tr_idempotency_key = key, tr_platform = cs_platform r,
                tr_session_key = cs_session_key r, tr_operation = operation,
                tr_request_hash = hash, tr_task_id = task_id,
                tr_response_json = dumps_sorted (J_obj response), tr_created_at = now\<rparr>
      | _ \<Rightarrow> None)"

text \<open>The row to bind; \<open>created_at\<close> and \<open>updated_at\<close> are the clock of the call.\<close>

definition bind_session ::
  "session_row \<Rightarrow> turn_args \<Rightarrow> int \<Rightarrow> session_store \<Rightarrow> session_store \<times> (py_error + session_row)" where
  "bind_session r a now s =
     (case check_turn_args a of
        Inl e \<Rightarrow> (s, Inl e)
      | Inr _ \<Rightarrow>
          let r = r\<lparr>cs_created_at := now, cs_updated_at := now\<rparr>;
              bound = upsert_session r s
          in (case (case turn_row_of r a now of
                      None \<Rightarrow> Inr bound | Some t \<Rightarrow> insert_or_validate_turn t bound) of
               Inl e \<Rightarrow> (s, Inl e)
             | Inr s' \<Rightarrow>
                 (case get_session (cs_session_key r) s' of
                    None \<Rightarrow> (s', Inl (RuntimeError (str ''Channel session '' @ [39] @ cs_session_key r
                               @ [39] @ str '' was not saved'')))
                  | Some saved \<Rightarrow> (s', Inr saved))))"

definition unbind_session :: "pystr \<Rightarrow> int \<Rightarrow> session_store \<Rightarrow> session_store \<times> session_row option" where
  "unbind_session session_key now s =
     (case get_session session_key s of
        None \<Rightarrow> (s, None)
      | Some _ \<Rightarrow>
          let s' = s\<lparr>st_sessions := rows_update (\<lambda>x. cs_session_key x = session_key)
                       (\<lambda>x. x\<lparr>cs_current_task_id := None, cs_updated_at := now\<rparr>) (st_sessions s)\<rparr>
          in (s', get_session session_key s'))"

subsection \<open>Invariant and steps\<close>

definition sessions_ok :: "session_store \<Rightarrow> bool" where
  "sessions_ok s \<longleftrightarrow> unique_key cs_session_key (st_sessions s) \<and> unique_key tr_idempotency_key (st_turns s)"

inductive session_step :: "session_store \<Rightarrow> session_store \<Rightarrow> bool" where
  Bind: "cs_current_task_id r \<noteq> None \<Longrightarrow> session_step s (fst (bind_session r a now s))"
| Unbind: "session_step s (fst (unbind_session k now s))"

lemma upsert_turns [simp]: "st_turns (upsert_session r s) = st_turns s"
  by (simp add: upsert_session_def split: option.split)

lemma upsert_unique:
  "unique_key cs_session_key (st_sessions s) \<Longrightarrow> unique_key cs_session_key (st_sessions (upsert_session r s))"
  by (auto simp: upsert_session_def get_session_def unique_key_rows_update unique_key_snoc row_at_None
      split: option.split)

lemma turns_of_insert:
  "insert_or_validate_turn t s = Inr s' \<Longrightarrow> st_sessions s' = st_sessions s
    \<and> (s' = s \<or> st_turns s' = st_turns s @ [t] \<and> tr_idempotency_key t \<notin> tr_idempotency_key ` set (st_turns s))"
  by (auto simp: insert_or_validate_turn_def row_at_None split: option.splits if_splits)

text \<open>What a binding does to the two tables.\<close>

lemma bind_effect:
  assumes "bind_session r a now s = (s', res)"
  shows "s' = s \<or> (\<exists>r'. st_sessions s' = st_sessions (upsert_session r' s))
    \<and> (st_turns s' = st_turns s \<or> (\<exists>t. st_turns s' = st_turns s @ [t]
         \<and> tr_idempotency_key t \<notin> tr_idempotency_key ` set (st_turns s)))"
proof -
  let ?r = "r\<lparr>cs_created_at := now, cs_updated_at := now\<rparr>"
  let ?b = "upsert_session ?r s"
  show ?thesis
  proof (cases "check_turn_args a")
    case (Inr u)
    then show ?thesis
    proof (cases "case turn_row_of ?r a now of None \<Rightarrow> Inr ?b | Some t \<Rightarrow> insert_or_validate_turn t ?b")
      case ins: (Inr s1)
      then have "s' = s1"
        using assms Inr by (auto simp: bind_session_def Let_def split: option.splits)
      moreover have "s1 = ?b \<or> (\<exists>t. st_sessions s1 = st_sessions ?b \<and> st_turns s1 = st_turns s @ [t]
          \<and> tr_idempotency_key t \<notin> tr_idempotency_key ` set (st_turns s))"
      proof (cases "turn_row_of ?r a now")
        case (Some t)
        then show ?thesis
          using ins turns_of_insert [of t ?b s1] by auto
      qed (use ins in simp)
      ultimately show ?thesis
        by (metis upsert_turns)
    qed (use assms in \<open>simp add: bind_session_def Let_def\<close>)
  qed (use assms in \<open>simp add: bind_session_def\<close>)
qed

lemma session_step_ok:
  assumes "session_step s s'" and "sessions_ok s"
  shows "sessions_ok s' \<and> (\<exists>ts. st_turns s' = st_turns s @ ts)"
  using assms
proof (induction rule: session_step.induct)
  case (Bind r s a now)
  obtain s' res where e: "bind_session r a now s = (s', res)"
    by (cases "bind_session r a now s")
  then show ?case
    using bind_effect [OF e] Bind upsert_unique [of s]
    by (auto simp: sessions_ok_def unique_key_snoc)
next
  case (Unbind s k now)
  then show ?case
    by (auto simp: unbind_session_def Let_def sessions_ok_def unique_key_rows_update split: option.splits)
qed

lemma session_steps_ok:
  "session_step\<^sup>*\<^sup>* s s' \<Longrightarrow> sessions_ok s \<Longrightarrow> sessions_ok s' \<and> (\<exists>ts. st_turns s' = st_turns s @ ts)"
proof (induction rule: rtranclp_induct)
  case (step y z)
  then show ?case
    using session_step_ok [OF step(2)] by (metis append.assoc)
qed simp


subsection \<open>Receipts\<close>

lemma bind_success:
  assumes "bind_session r a now s = (s', Inr saved)" and "ta_idempotency_key a = Some key"
    and "cs_current_task_id r = Some task"
  shows "\<exists>t. turn_row_of r a now = Some t \<and> tr_idempotency_key t = key
    \<and> (\<exists>row. row_at tr_idempotency_key key (st_turns s') = Some row \<and> same_turn row t
         \<and> (row = t \<or> row_at tr_idempotency_key key (st_turns s) = Some row))"
proof -
  let ?r = "r\<lparr>cs_created_at := now, cs_updated_at := now\<rparr>"
  have "check_turn_args a = Inr ()"
    using assms(1) by (auto simp: bind_session_def split: sum.splits)
  then obtain t where t: "turn_row_of r a now = Some t" "turn_row_of ?r a now = Some t" "tr_idempotency_key t = key"
    using assms(2,3) by (auto simp: check_turn_args_def turn_row_of_def nonempty_opt_def split: if_splits option.splits)
  then have "insert_or_validate_turn t (upsert_session ?r s) = Inr s'"
    using assms(1) by (auto simp: bind_session_def Let_def split: sum.splits option.splits)
  then have "\<exists>row. row_at tr_idempotency_key key (st_turns s') = Some row \<and> same_turn row t
      \<and> (row = t \<or> row_at tr_idempotency_key key (st_turns s) = Some row)"
    using t(3) by (auto simp: insert_or_validate_turn_def row_at_snoc same_turn_def split: option.splits if_splits)
  then show ?thesis
    using t by blast
qed

text \<open>A refused binding changes nothing: the row just written is always found again.\<close>

lemma saved_again: "get_session (cs_session_key r) (upsert_session r s) \<noteq> None"
proof (cases "row_at cs_session_key (cs_session_key r) (st_sessions s)")
  case (Some x)
  have "r\<lparr>cs_created_at := cs_created_at x\<rparr> \<in> set (rows_update (\<lambda>x. cs_session_key x = cs_session_key r)
      (\<lambda>x. r\<lparr>cs_created_at := cs_created_at x\<rparr>) (st_sessions s))"
    using row_at_SomeD [OF Some] by (auto simp: rows_update_def image_iff)
  from imageI [OF this, of cs_session_key] have "cs_session_key r \<in> cs_session_key ` set (rows_update
      (\<lambda>x. cs_session_key x = cs_session_key r) (\<lambda>x. r\<lparr>cs_created_at := cs_created_at x\<rparr>) (st_sessions s))"
    by simp
  then have "row_at cs_session_key (cs_session_key r) (st_sessions (upsert_session r s)) \<noteq> None"
    using Some by (simp add: upsert_session_def get_session_def row_at_None)
  then show ?thesis
    by (simp add: get_session_def)
qed (simp add: upsert_session_def get_session_def row_at_snoc)

lemma bind_refused:
  assumes "bind_session r a now s = (s', Inl e)"
  shows "s' = s"
proof -
  let ?r = "r\<lparr>cs_created_at := now, cs_updated_at := now\<rparr>"
  let ?b = "upsert_session ?r s"
  have "get_session (cs_session_key r) s1 \<noteq> None"
    if "(case turn_row_of ?r a now of None \<Rightarrow> Inr ?b | Some t \<Rightarrow> insert_or_validate_turn t ?b) = Inr s1" for s1
  proof -
    have "st_sessions s1 = st_sessions ?b"
      using that turns_of_insert by (auto split: option.splits)
    then show ?thesis
      using saved_again [of ?r s] by (simp add: get_session_def)
  qed
  then show ?thesis
    using assms by (auto simp: bind_session_def Let_def split: sum.splits option.splits)
qed

lemma row_kept:
  assumes "sessions_ok s" and "session_step\<^sup>*\<^sup>* s s'" and "row_at tr_idempotency_key key (st_turns s) = Some row"
  shows "row_at tr_idempotency_key key (st_turns s') = Some row"
proof -
  obtain ts where ts: "st_turns s' = st_turns s @ ts" and ok: "sessions_ok s'"
    using session_steps_ok [OF assms(2,1)] by blast
  then have "row \<in> set (st_turns s')" "tr_idempotency_key row = key"
    using row_at_SomeD [OF assms(3)] by auto
  then show ?thesis
    using row_at_unique ok by (auto simp: sessions_ok_def)
qed

text \<open>
  A channel turn is answered once: after a turn was bound under an idempotency key, its receipt
  answers that key with the recorded task and response (keys sorted) after any later bindings
  and unbindings, and binding the key again for another platform, session, operation,
  request, task or response is refused and changes nothing, not even the session.
\<close>

theorem turn_receipt_final:
  assumes "sessions_ok s" and "bind_session r a now s = (s1, Inr saved)"
    and "ta_idempotency_key a = Some key" and "cs_current_task_id r = Some task"
    and "ta_response a = Some response" and "json_plain (J_obj response)" and "row_at tr_idempotency_key key (st_turns s) = None"
    and "session_step\<^sup>*\<^sup>* s1 s2"
  shows "(\<exists>rc. get_turn_receipt key s2 = Inr (Some rc) \<and> tn_task_id rc = task
      \<and> json_sort_keys (J_obj response) = J_obj (tn_response rc))
    \<and> (\<forall>r' a' later. ta_idempotency_key a' = Some key \<longrightarrow> cs_current_task_id r' \<noteq> None \<longrightarrow>
        (\<forall>t t'. turn_row_of r a now = Some t \<longrightarrow> turn_row_of r' a' later = Some t' \<longrightarrow> \<not> same_turn t t' \<longrightarrow>
          (\<exists>e. bind_session r' a' later s2 = (s2, Inl e))))"
proof -
  obtain t where t: "turn_row_of r a now = Some t" "row_at tr_idempotency_key key (st_turns s1) = Some t"
    using bind_success [OF assms(2,3,4)] assms(7) by auto
  have "session_step s s1"
    using Bind [of r s a now] assms(2,4) by simp
  then have ok: "sessions_ok s1"
    using session_step_ok assms(1) by blast
  have ok2: "sessions_ok s2"
    using session_steps_ok [OF assms(8) ok] by blast
  have row: "row_at tr_idempotency_key key (st_turns s2) = Some t"
    by (rule row_kept [OF ok assms(8) t(2)])
  have tr: "tr_task_id t = task" "tr_response_json t = dumps_sorted (J_obj response)"
    using t(1) assms(4,5) by (auto simp: turn_row_of_def split: option.splits)
  obtain data where data: "json_sort_keys (J_obj response) = J_obj data"
    by simp
  have "json_loads (tr_response_json t) = Some (J_obj data)"
    unfolding tr(2) dumps_sorted_def data
    using ascii_printer.json_loads_dumps [OF default_separators json_plain_sort_keys [OF assms(6)]] data by simp
  then have 1: "\<exists>rc. get_turn_receipt key s2 = Inr (Some rc) \<and> tn_task_id rc = task
      \<and> json_sort_keys (J_obj response) = J_obj (tn_response rc)"
    using row tr(1) data by (simp add: get_turn_receipt_def)
  have 2: "\<exists>e. bind_session r' a' later s2 = (s2, Inl e)"
    if "ta_idempotency_key a' = Some key" "cs_current_task_id r' \<noteq> None" "turn_row_of r' a' later = Some t'" "\<not> same_turn t t'"
    for r' a' later t'
  proof (cases "snd (bind_session r' a' later s2)")
    case (Inl e)
    then show ?thesis
      using bind_refused [of r' a' later s2] by (cases "bind_session r' a' later s2") auto
  next
    case (Inr saved')
    then obtain s3 where bind: "bind_session r' a' later s2 = (s3, Inr saved')"
      by (cases "bind_session r' a' later s2") simp
    from that(2) obtain task' where "cs_current_task_id r' = Some task'"
      by blast
    then have "\<exists>row'. same_turn row' t' \<and> row_at tr_idempotency_key key (st_turns s3) = Some row'"
      using bind_success [OF bind that(1)] that(3) by auto
    moreover have "row_at tr_idempotency_key key (st_turns s3) = Some t"
      using row_kept [OF ok2 r_into_rtranclp row] Bind [of r' s2 a' later] that(2) bind by simp
    ultimately show ?thesis
      using that(4) by simp
  qed
  show ?thesis
    using 1 2 t(1) by auto
qed

definition sample_binding :: session_row where
  "sample_binding = \<lparr>cs_session_key = str ''tg:1'', cs_platform = str ''telegram'', cs_agent_name = str ''main'',
     cs_current_task_id = Some (str ''t1''), cs_chat_id = None, cs_user_id = None, cs_thread_id = None,
     cs_created_at = 0, cs_updated_at = 0\<rparr>"

definition sample_turn :: turn_args where
  "sample_turn = \<lparr>ta_idempotency_key = Some (str ''k''), ta_operation = Some (str ''send''),
     ta_request_hash = Some (str ''h''), ta_response = Some [(str ''a'', J_bool True)]\<rparr>"

theorem turn_receipt_final_witness:
  "let s = \<lparr>st_sessions = [], st_turns = []\<rparr>; s1 = fst (bind_session sample_binding sample_turn 5 s);
       s2 = fst (unbind_session (str ''tg:1'') 9 s1)
   in (\<exists>rc. get_turn_receipt (str ''k'') s2 = Inr (Some rc) \<and> tn_task_id rc = str ''t1'')
     \<and> (\<exists>e. bind_session sample_binding (sample_turn\<lparr>ta_operation := Some (str ''create'')\<rparr>) 11 s2 = (s2, Inl e))"
proof -
  let ?s = "\<lparr>st_sessions = [], st_turns = []\<rparr>"
  let ?s1 = "fst (bind_session sample_binding sample_turn 5 ?s)"
  let ?s2 = "fst (unbind_session (str ''tg:1'') 9 ?s1)"
  let ?a = "sample_turn\<lparr>ta_operation := Some (str ''create'')\<rparr>"
  note defs = bind_session_def check_turn_args_def turn_row_of_def upsert_session_def get_session_def
    insert_or_validate_turn_def sample_binding_def sample_turn_def nonempty_opt_def Let_def
  obtain saved where bind: "bind_session sample_binding sample_turn 5 ?s = (?s1, Inr saved)"
    by (simp add: defs)
  have steps: "session_step\<^sup>*\<^sup>* ?s1 ?s2"
    using Unbind [of ?s1 "str ''tg:1''" 9] by blast
  have ok: "sessions_ok ?s"
    by (simp add: sessions_ok_def unique_key_def)
  have args: "ta_idempotency_key sample_turn = Some (str ''k'')" "cs_current_task_id sample_binding = Some (str ''t1'')"
    "ta_response sample_turn = Some [(str ''a'', J_bool True)]" "json_plain (J_obj [(str ''a'', J_bool True)])"
    "row_at tr_idempotency_key (str ''k'') (st_turns ?s) = None" "ta_idempotency_key ?a = Some (str ''k'')"
    by (simp_all add: sample_turn_def sample_binding_def snds.simps scalar_text_def str_def)
  obtain t t' where t: "turn_row_of sample_binding sample_turn 5 = Some t"
    "turn_row_of sample_binding ?a 11 = Some t'" "\<not> same_turn t t'"
    by (simp add: turn_row_of_def sample_turn_def sample_binding_def same_turn_def)
  note final = turn_receipt_final [OF ok bind args(1-5) steps]
  show ?thesis
    using final args(2,6) t by (simp only: Let_def) blast
qed

end
