(* ===== verification/Run_Supervisor.thy ===== *)
theory Run_Supervisor
  imports Task_Model "HOL-Library.AList"
begin

text \<open>
  Admission and shutdown of local runs: \<open>runtime/delegation/run_supervisor.py\<close> with the handle
  registry of \<open>runtime/delegation/live_runs.py\<close>.  An asyncio Task is a number (\<open>handle\<close>);
  \<open>sv_live\<close> are the Tasks that are not done.  Permit objects are cells of \<open>sv_objects\<close>, named by
  their index, because a permit is shared by its holder and the registry and is consumed by
  writing to it.

  Everything the code does under \<open>_lifecycle_condition\<close> without awaiting is one step; the awaits
  are the points between steps, so every interleaving of callers, callbacks and the shutdown
  is a run of \<open>supervisor_step\<close>.  The Task manager is seen through what the supervisor reads of
  it, the state of a record (\<open>sv_states\<close>), and whether a write was stored.
\<close>

type_synonym handle = nat

section \<open>Live runs\<close>

record live_run =
  lr_task :: handle
  lr_cancel_requested :: bool

type_synonym live_runs = "(pystr \<times> live_run) list"

definition live_register :: "pystr \<Rightarrow> handle \<Rightarrow> handle list \<Rightarrow> live_runs \<Rightarrow> py_error + live_runs" where
  "live_register task_id task live runs =
     (case map_of runs task_id of
        Some current \<Rightarrow>
          if lr_task current \<in> set live
          then Inl (RuntimeError (str ''Task run is already active: '' @ task_id))
          else Inr (AList.update task_id \<lparr>lr_task = task, lr_cancel_requested = False\<rparr> runs)
      | None \<Rightarrow> Inr (AList.update task_id \<lparr>lr_task = task, lr_cancel_requested = False\<rparr> runs))"

text \<open>The done callback of a registered run.\<close>

definition live_discard_finished :: "pystr \<Rightarrow> handle \<Rightarrow> live_runs \<Rightarrow> live_runs" where
  "live_discard_finished task_id task runs =
     (case map_of runs task_id of
        Some run \<Rightarrow> if lr_task run = task then AList.delete task_id runs else runs
      | None \<Rightarrow> runs)"

definition live_get_task :: "pystr \<Rightarrow> live_runs \<Rightarrow> handle option" where
  "live_get_task task_id runs = map_option lr_task (map_of runs task_id)"

definition live_is_active :: "pystr \<Rightarrow> handle list \<Rightarrow> live_runs \<Rightarrow> bool" where
  "live_is_active task_id live runs =
     (case live_get_task task_id runs of None \<Rightarrow> False | Some t \<Rightarrow> t \<in> set live)"

text \<open>The second component is the Task that was asked to cancel.\<close>

definition live_request_cancel :: "pystr \<Rightarrow> live_runs \<Rightarrow> live_runs \<times> handle option" where
  "live_request_cancel task_id runs =
     (case map_of runs task_id of
        None \<Rightarrow> (runs, None)
      | Some run \<Rightarrow> (AList.update task_id (run\<lparr>lr_cancel_requested := True\<rparr>) runs, Some (lr_task run)))"

definition live_was_cancel_requested :: "pystr \<Rightarrow> live_runs \<Rightarrow> bool" where
  "live_was_cancel_requested task_id runs =
     (case map_of runs task_id of None \<Rightarrow> False | Some run \<Rightarrow> lr_cancel_requested run)"

definition live_discard :: "pystr \<Rightarrow> live_runs \<Rightarrow> live_runs" where
  "live_discard task_id runs = AList.delete task_id runs"

definition live_snapshot :: "pystr \<Rightarrow> live_runs \<Rightarrow> live_run option \<times> bool" where
  "live_snapshot task_id runs =
     (case map_of runs task_id of None \<Rightarrow> (None, False) | Some run \<Rightarrow> (Some run, lr_cancel_requested run))"

definition live_restore :: "pystr \<Rightarrow> live_run option \<times> bool \<Rightarrow> live_runs \<Rightarrow> live_runs" where
  "live_restore task_id snap runs =
     (case snap of
        (None, _) \<Rightarrow> AList.delete task_id runs
      | (Some run, cancel_requested) \<Rightarrow>
          AList.update task_id (run\<lparr>lr_cancel_requested := cancel_requested\<rparr>) runs)"

text \<open>A registration that failed is undone exactly.\<close>

lemma live_restore_undoes:
  assumes "live_register task_id task live runs = Inr runs'"
  shows "map_of (live_restore task_id (live_snapshot task_id runs) runs') = map_of runs"
  using assms
  by (auto simp: live_register_def live_restore_def live_snapshot_def update_conv' delete_conv' fun_eq_iff
      restrict_map_def split: option.splits if_splits)

section \<open>The supervisor\<close>

datatype permit_kind = Mutation | Operation

record permit =
  pm_supervisor :: "nat option"
  pm_nonce :: "nat option"
  pm_owner :: "handle option"
  pm_issued :: bool
  pm_active :: bool

record permit_entry =
  pe_token :: nat
  pe_owner :: handle
  pe_kind :: permit_kind

text \<open>Where the single close task stands, with the handles its next \<open>gather\<close> waits for.\<close>

datatype close_phase =
    Not_closing
  | Close_requested
  | Cancelling "handle list"
  | Draining
  | Drained
  | Stopping "handle list" "(pystr \<times> handle) list"
  | Ending "(pystr \<times> handle) list"
  | Close_done

datatype supervisor_error =
    Runtime_closing
  | Invalid_permit string
  | Accounting_violated
  | Already_running pystr
  | Manager_error py_error

record supervisor =
  sv_id :: nat
  sv_objects :: "permit list"
  sv_permits :: "(nat \<times> permit_entry) list"
  sv_mutations :: int
  sv_runs :: "(pystr \<times> handle) list"
  sv_callbacks :: "(pystr \<times> handle) list"
  sv_maintenance :: "handle list"
  sv_recovery :: "handle option"
  sv_closing :: bool
  sv_closed :: bool
  sv_phase :: close_phase
  sv_live :: "handle list"
  sv_next :: handle
  sv_registry :: live_runs
  sv_states :: "pystr \<Rightarrow> task_state option"

definition is_accepting :: "supervisor \<Rightarrow> bool" where
  "is_accepting s \<longleftrightarrow> \<not> sv_closing s \<and> \<not> sv_closed s"

definition active_run_count :: "supervisor \<Rightarrow> nat" where
  "active_run_count s = length (filter (\<lambda>(k, t). t \<in> set (sv_live s)) (sv_runs s))"

definition operation_owners :: "supervisor \<Rightarrow> handle list" where
  "operation_owners s = map (pe_owner \<circ> snd) (filter (\<lambda>(n, e). pe_kind e = Operation) (sv_permits s))"

definition get_run :: "pystr \<Rightarrow> supervisor \<Rightarrow> handle option" where
  "get_run task_id s = map_of (sv_runs s) task_id"

subsection \<open>Permits\<close>

text \<open>The loop over \<open>secrets.token_urlsafe\<close> leaves with a nonce that is not in the registry.\<close>

definition mint_permit :: "permit_kind \<Rightarrow> handle \<Rightarrow> nat \<Rightarrow> supervisor \<Rightarrow> supervisor \<times> nat" where
  "mint_permit kind owner nonce s =
     (let p = length (sv_objects s);
          cell = \<lparr>pm_supervisor = Some (sv_id s), pm_nonce = Some nonce, pm_owner = Some owner,
                  pm_issued = True, pm_active = True\<rparr>
      in (s\<lparr>sv_objects := sv_objects s @ [cell],
           sv_permits := AList.update nonce \<lparr>pe_token = p, pe_owner = owner, pe_kind = kind\<rparr> (sv_permits s)\<rparr>, p))"

definition validate_permit :: "nat \<Rightarrow> permit_kind \<Rightarrow> handle \<Rightarrow> supervisor \<Rightarrow> supervisor_error + permit_entry" where
  "validate_permit p kind owner s =
     (if \<not> p < length (sv_objects s) \<or> \<not> pm_issued (sv_objects s ! p)
      then Inl (Invalid_permit ''Runtime permit was not issued'')
      else let cell = sv_objects s ! p in
        if pm_supervisor cell \<noteq> Some (sv_id s)
        then Inl (Invalid_permit ''Runtime permit belongs to another supervisor'')
        else if pm_owner cell \<noteq> Some owner
        then Inl (Invalid_permit ''Runtime permit belongs to another asyncio Task'')
        else if \<not> pm_active cell \<or> pm_nonce cell = None
        then Inl (Invalid_permit ''Runtime permit was already consumed'')
        else (case map_of (sv_permits s) (the (pm_nonce cell)) of
                None \<Rightarrow> Inl (Invalid_permit ''Runtime permit is forged or inactive'')
              | Some entry \<Rightarrow>
                  if pe_token entry \<noteq> p then Inl (Invalid_permit ''Runtime permit is forged or inactive'')
                  else if pe_owner entry \<noteq> owner \<or> pe_kind entry \<noteq> kind
                  then Inl (Invalid_permit ''Runtime permit has the wrong owner or kind'')
                  else Inr entry))"

definition deactivate :: "nat \<Rightarrow> permit list \<Rightarrow> permit list" where
  "deactivate p objects = objects[p := (objects ! p)\<lparr>pm_active := False\<rparr>]"

text \<open>
  The \<open>notify_all\<close> of \<open>_consume_permit_locked\<close> is left out: the shutdown's wait on the condition is
  the guard of its next step, which is read anew whenever the loop runs.
\<close>

definition consume_permit ::
  "nat \<Rightarrow> permit_kind \<Rightarrow> handle \<Rightarrow> bool \<Rightarrow> supervisor \<Rightarrow> supervisor \<times> (supervisor_error + bool)" where
  "consume_permit p kind owner allow_inactive s =
     (if allow_inactive \<and> p < length (sv_objects s) \<and> pm_issued (sv_objects s ! p)
         \<and> pm_supervisor (sv_objects s ! p) = Some (sv_id s) \<and> pm_owner (sv_objects s ! p) = Some owner
         \<and> \<not> pm_active (sv_objects s ! p)
      then (s, Inr False)
      else (case validate_permit p kind owner s of
              Inl e \<Rightarrow> (s, Inl e)
            | Inr entry \<Rightarrow>
                if kind = Mutation \<and> sv_mutations s \<le> 0 then (s, Inl Accounting_violated)
                else
                  let s = s\<lparr>sv_permits := AList.delete (the (pm_nonce (sv_objects s ! p))) (sv_permits s),
                            sv_objects := deactivate p (sv_objects s)\<rparr>
                  in (if kind = Mutation then s\<lparr>sv_mutations := sv_mutations s - 1\<rparr> else s, Inr True)))"

definition acquire_mutation :: "handle \<Rightarrow> nat \<Rightarrow> supervisor \<Rightarrow> supervisor \<times> (supervisor_error + nat)" where
  "acquire_mutation owner nonce s =
     (if \<not> is_accepting s then (s, Inl Runtime_closing)
      else let (s, p) = mint_permit Mutation owner nonce s
           in (s\<lparr>sv_mutations := sv_mutations s + 1\<rparr>, Inr p))"

definition release_mutation :: "nat \<Rightarrow> handle \<Rightarrow> supervisor \<Rightarrow> supervisor \<times> (supervisor_error + bool)" where
  "release_mutation p owner s = consume_permit p Mutation owner False s"

definition cleanup_mutation :: "nat \<Rightarrow> handle \<Rightarrow> supervisor \<Rightarrow> supervisor \<times> (supervisor_error + bool)" where
  "cleanup_mutation p owner s = consume_permit p Mutation owner True s"

definition release_operation :: "nat \<Rightarrow> handle \<Rightarrow> supervisor \<Rightarrow> supervisor \<times> (supervisor_error + bool)" where
  "release_operation p owner s = consume_permit p Operation owner False s"

definition cleanup_operation :: "nat \<Rightarrow> handle \<Rightarrow> supervisor \<Rightarrow> supervisor \<times> (supervisor_error + bool)" where
  "cleanup_operation p owner s = consume_permit p Operation owner True s"

definition promote_to_operation ::
  "nat \<Rightarrow> handle \<Rightarrow> nat \<Rightarrow> supervisor \<Rightarrow> supervisor \<times> (supervisor_error + nat)" where
  "promote_to_operation p owner nonce s =
     (case consume_permit p Mutation owner False s of
        (s, Inl e) \<Rightarrow> (s, Inl e)
      | (s, Inr _) \<Rightarrow>
          if \<not> is_accepting s then (s, Inl Runtime_closing)
          else (case mint_permit Operation owner nonce s of (s, q) \<Rightarrow> (s, Inr q)))"

text \<open>
  \<open>wait_for_lock\<close> promotes, waits for the lock, and this is the rest of it once the lock was
  acquired.  The error branch releases the lock and cleans the operation permit up.
\<close>

definition wait_for_lock_admit ::
  "nat \<Rightarrow> handle \<Rightarrow> nat \<Rightarrow> supervisor \<Rightarrow> supervisor \<times> (supervisor_error + nat)" where
  "wait_for_lock_admit operation owner nonce s =
     (let fail = (\<lambda>e s. case cleanup_operation operation owner s of
                          (s, Inl e') \<Rightarrow> (s, Inl e')
                        | (s, Inr _) \<Rightarrow> (s, Inl e))
      in if \<not> is_accepting s then fail Runtime_closing s
         else (case consume_permit operation Operation owner False s of
                 (s, Inl e) \<Rightarrow> fail e s
               | (s, Inr _) \<Rightarrow>
                   (case mint_permit Mutation owner nonce s of
                      (s, q) \<Rightarrow> (s\<lparr>sv_mutations := sv_mutations s + 1\<rparr>, Inr q))))"

subsection \<open>Runs\<close>

text \<open>
  \<open>TaskManager.mark_running\<close> as the supervisor depends on it: the record must exist, the handle
  must register, and the write must be stored (\<open>stored\<close> is its exception); on a failure the
  manager rolls its memory back.
\<close>

definition record_running ::
  "pystr \<Rightarrow> handle \<Rightarrow> py_error option \<Rightarrow> supervisor \<Rightarrow> supervisor \<times> (py_error + unit)" where
  "record_running task_id run stored s =
     (case sv_states s task_id of
        None \<Rightarrow> (s, Inl (ValueError (str ''Unknown task: '' @ task_id)))
      | Some _ \<Rightarrow>
          (case live_register task_id run (sv_live s) (sv_registry s) of
             Inl e \<Rightarrow> (s, Inl e)
           | Inr registry \<Rightarrow>
               (case stored of
                  Some e \<Rightarrow> (s, Inl e)
                | None \<Rightarrow> (s\<lparr>sv_registry := registry,
                             sv_states := (sv_states s)(task_id \<mapsto> TS_running)\<rparr>, Inr ()))))"

text \<open>
  The critical section of \<open>schedule\<close>, under both locks.  A run whose record was not stored is
  cancelled and awaited before the locks are left, so it never became live.
\<close>

definition schedule ::
  "pystr \<Rightarrow> nat \<Rightarrow> handle \<Rightarrow> py_error option \<Rightarrow> supervisor \<Rightarrow> supervisor \<times> (supervisor_error + handle)" where
  "schedule task_id p owner stored s =
     (if \<not> is_accepting s then (s, Inl Runtime_closing)
      else (case validate_permit p Mutation owner s of
              Inl e \<Rightarrow> (s, Inl e)
            | Inr _ \<Rightarrow>
                if (case get_run task_id s of None \<Rightarrow> False | Some t \<Rightarrow> t \<in> set (sv_live s))
                then (s, Inl (Already_running task_id))
                else
                  let run_task = sv_next s; s = s\<lparr>sv_next := Suc run_task\<rparr>
                  in (case record_running task_id run_task stored s of
                        (s, Inl e) \<Rightarrow> (s\<lparr>sv_registry := live_discard task_id (sv_registry s)\<rparr>, Inl (Manager_error e))
                      | (s, Inr _) \<Rightarrow>
                          (s\<lparr>sv_runs := AList.update task_id run_task (sv_runs s),
                             sv_callbacks := (task_id, run_task) # sv_callbacks s,
                             sv_live := run_task # sv_live s\<rparr>, Inr run_task))))"

text \<open>\<open>_finalize_interrupted\<close>; a write that fails is only logged.\<close>

definition finalize_interrupted :: "pystr \<Rightarrow> bool \<Rightarrow> supervisor \<Rightarrow> supervisor" where
  "finalize_interrupted task_id stored s =
     (let s = (if sv_states s task_id = Some TS_running \<and> stored
               then s\<lparr>sv_states := (sv_states s)(task_id \<mapsto> TS_interrupted)\<rparr> else s)
      in s\<lparr>sv_registry := live_discard task_id (sv_registry s)\<rparr>)"

text \<open>The done callback of a scheduled run; \<open>failed\<close> tells that the run ended with an exception.\<close>

definition run_finished :: "pystr \<Rightarrow> handle \<Rightarrow> bool \<Rightarrow> bool \<Rightarrow> supervisor \<Rightarrow> supervisor" where
  "run_finished task_id task failed stored s =
     (let s = (if get_run task_id s = Some task then s\<lparr>sv_runs := AList.delete task_id (sv_runs s)\<rparr> else s)
      in if failed then finalize_interrupted task_id stored s else s)"

subsection \<open>Maintenance\<close>

definition create_maintenance :: "supervisor \<Rightarrow> supervisor \<times> handle" where
  "create_maintenance s =
     (s\<lparr>sv_next := Suc (sv_next s), sv_maintenance := sv_next s # sv_maintenance s,
        sv_live := sv_next s # sv_live s\<rparr>, sv_next s)"

definition start_recovery :: "supervisor \<Rightarrow> supervisor \<times> supervisor_error option" where
  "start_recovery s =
     (if (case sv_recovery s of None \<Rightarrow> False | Some t \<Rightarrow> t \<in> set (sv_live s)) then (s, None)
      else if \<not> is_accepting s then (s, Some Runtime_closing)
      else (case create_maintenance s of (s, t) \<Rightarrow> (s\<lparr>sv_recovery := Some t\<rparr>, None)))"

definition start_maintenance :: "supervisor \<Rightarrow> supervisor \<times> handle option" where
  "start_maintenance s =
     (if \<not> is_accepting s then (s, None)
      else (case create_maintenance s of (s, t) \<Rightarrow> (s, Some t)))"

definition maintenance_finished :: "handle \<Rightarrow> supervisor \<Rightarrow> supervisor" where
  "maintenance_finished t s = s\<lparr>sv_maintenance := filter (\<lambda>x. x \<noteq> t) (sv_maintenance s)\<rparr>"

subsection \<open>Shutdown\<close>

definition close :: "supervisor \<Rightarrow> supervisor" where
  "close s = (if sv_phase s = Not_closing then s\<lparr>sv_phase := Close_requested\<rparr> else s)"

text \<open>A permit entry whose owner is among the gathered Tasks loses its token.\<close>

definition discard_operation_permits :: "handle list \<Rightarrow> supervisor \<Rightarrow> supervisor" where
  "discard_operation_permits owners s =
     (let gone = (\<lambda>(n, e). pe_kind e = Operation \<and> pe_owner e \<in> set owners)
      in s\<lparr>sv_permits := filter (\<lambda>x. \<not> gone x) (sv_permits s),
           sv_objects := fold (\<lambda>(n, e). deactivate (pe_token e)) (filter gone (sv_permits s)) (sv_objects s)\<rparr>)"

text \<open>
  One stretch of \<open>_close_impl\<close>, from the await it stands at to the next one.  \<open>gather\<close> returns
  when its Tasks are done, the condition when no mutation is active; the grace period only
  decides which pending runs are cancelled before they are gathered.  \<open>stored\<close> tells which
  interrupted records could be written.
\<close>

definition all_done :: "handle list \<Rightarrow> supervisor \<Rightarrow> bool" where
  "all_done hs s \<longleftrightarrow> (\<forall>h \<in> set hs. h \<notin> set (sv_live s))"

definition close_impl :: "(pystr \<Rightarrow> bool) \<Rightarrow> supervisor \<Rightarrow> supervisor option" where
  "close_impl stored s =
     (case sv_phase s of
        Close_requested \<Rightarrow>
          Some (s\<lparr>sv_closing := True, sv_phase := Cancelling (operation_owners s)\<rparr>)
      | Cancelling operations \<Rightarrow>
          if all_done operations s
          then Some ((discard_operation_permits operations s)\<lparr>sv_phase := Draining\<rparr>) else None
      | Draining \<Rightarrow> if sv_mutations s = 0 then Some (s\<lparr>sv_phase := Drained\<rparr>) else None
      | Drained \<Rightarrow> Some (s\<lparr>sv_phase := Stopping (sv_maintenance s) (sv_runs s)\<rparr>)
      | Stopping maintenance runs \<Rightarrow>
          if all_done maintenance s then Some (s\<lparr>sv_recovery := None, sv_phase := Ending runs\<rparr>) else None
      | Ending runs \<Rightarrow>
          if all_done (map snd runs) s
          then Some ((fold (\<lambda>(k, t). finalize_interrupted k (stored k)) runs s)
                 \<lparr>sv_runs := [], sv_maintenance := [], sv_permits := [], sv_closed := True, sv_phase := Close_done\<rparr>)
          else None
      | _ \<Rightarrow> None)"

subsection \<open>Runs of the event loop\<close>

text \<open>
  Callers are live Tasks; they may also hold a permit of their own making (\<open>_Permit()\<close> was never
  issued) or one of another supervisor.  A callback runs after its Task is done.
\<close>

inductive supervisor_step :: "supervisor \<Rightarrow> supervisor \<Rightarrow> bool" where
  Acquire: "owner \<in> set (sv_live s) \<Longrightarrow> nonce \<notin> fst ` set (sv_permits s)
      \<Longrightarrow> supervisor_step s (fst (acquire_mutation owner nonce s))"
| Release: "owner \<in> set (sv_live s) \<Longrightarrow> supervisor_step s (fst (consume_permit p kind owner allow_inactive s))"
| Promote: "owner \<in> set (sv_live s) \<Longrightarrow> nonce \<notin> fst ` set (sv_permits s)
      \<Longrightarrow> supervisor_step s (fst (promote_to_operation p owner nonce s))"
| Lock_admit: "owner \<in> set (sv_live s) \<Longrightarrow> nonce \<notin> fst ` set (sv_permits s)
      \<Longrightarrow> supervisor_step s (fst (wait_for_lock_admit p owner nonce s))"
| Schedule: "owner \<in> set (sv_live s) \<Longrightarrow> supervisor_step s (fst (schedule task_id p owner saved s))"
| Run_finished: "(task_id, t) \<in> set (sv_callbacks s) \<Longrightarrow> t \<notin> set (sv_live s)
      \<Longrightarrow> supervisor_step s ((run_finished task_id t failed stored s)
            \<lparr>sv_callbacks := filter (\<lambda>c. c \<noteq> (task_id, t)) (sv_callbacks s)\<rparr>)"
| Registry_finished: "t \<notin> set (sv_live s)
      \<Longrightarrow> supervisor_step s (s\<lparr>sv_registry := live_discard_finished task_id t (sv_registry s)\<rparr>)"
| Recovery: "supervisor_step s (fst (start_recovery s))"
| Maintenance: "supervisor_step s (fst (start_maintenance s))"
| Maintenance_finished: "t \<notin> set (sv_live s) \<Longrightarrow> supervisor_step s (maintenance_finished t s)"
| Close: "supervisor_step s (close s)"
| Close_impl: "close_impl written s = Some s' \<Longrightarrow> supervisor_step s s'"
| Task_starts: "supervisor_step s (s\<lparr>sv_next := Suc (sv_next s), sv_live := sv_next s # sv_live s\<rparr>)"
| Task_ends: "supervisor_step s (s\<lparr>sv_live := filter (\<lambda>x. x \<noteq> h) (sv_live s)\<rparr>)"
| Other_permit: "pm_issued cell \<longrightarrow> pm_supervisor cell \<noteq> Some (sv_id s)
      \<Longrightarrow> supervisor_step s (s\<lparr>sv_objects := sv_objects s @ [cell]\<rparr>)"
| Record_moves: "supervisor_step s (s\<lparr>sv_states := (sv_states s)(task_id := st)\<rparr>)"
| Cancel_requested: "supervisor_step s (s\<lparr>sv_registry := fst (live_request_cancel task_id (sv_registry s))\<rparr>)"

text \<open>
  The steps as calls, with what each means to the outside: a caller enters when it is given a
  mutation permit and leaves when its permit is consumed, a run is launched when \<open>schedule\<close>
  answers with it, and the shutdown shows in the two flags.
\<close>

datatype gate_label =
    G_enter
  | G_leave
  | G_launch pystr handle
  | G_finish handle
  | G_shut
  | G_seal
  | G_none

datatype supervisor_call =
    SC_acquire handle nat
  | SC_consume nat permit_kind handle bool
  | SC_promote nat handle nat
  | SC_admit nat handle nat
  | SC_schedule pystr nat handle "py_error option"
  | SC_run_finished pystr handle bool bool
  | SC_registry_finished pystr handle
  | SC_recovery
  | SC_maintenance
  | SC_maintenance_finished handle
  | SC_close
  | SC_close_impl "pystr \<Rightarrow> bool"
  | SC_task_starts
  | SC_task_ends handle
  | SC_other_permit permit
  | SC_record_moves pystr "task_state option"
  | SC_cancel pystr

fun call_enabled :: "supervisor_call \<Rightarrow> supervisor \<Rightarrow> bool" where
  "call_enabled (SC_acquire owner nonce) s = (owner \<in> set (sv_live s) \<and> nonce \<notin> fst ` set (sv_permits s))"
| "call_enabled (SC_consume p kind owner allow) s = (owner \<in> set (sv_live s))"
| "call_enabled (SC_promote p owner nonce) s = (owner \<in> set (sv_live s) \<and> nonce \<notin> fst ` set (sv_permits s))"
| "call_enabled (SC_admit p owner nonce) s = (owner \<in> set (sv_live s) \<and> nonce \<notin> fst ` set (sv_permits s))"
| "call_enabled (SC_schedule k p owner stored) s = (owner \<in> set (sv_live s))"
| "call_enabled (SC_run_finished k t failed stored) s = ((k, t) \<in> set (sv_callbacks s) \<and> t \<notin> set (sv_live s))"
| "call_enabled (SC_registry_finished k t) s = (t \<notin> set (sv_live s))"
| "call_enabled (SC_maintenance_finished t) s = (t \<notin> set (sv_live s))"
| "call_enabled (SC_close_impl written) s = (close_impl written s \<noteq> None)"
| "call_enabled (SC_other_permit cell) s = (pm_issued cell \<longrightarrow> pm_supervisor cell \<noteq> Some (sv_id s))"
| "call_enabled _ s = True"

fun perform_call :: "supervisor_call \<Rightarrow> supervisor \<Rightarrow> supervisor \<times> gate_label" where
  "perform_call (SC_acquire owner nonce) s =
     (let (s', answer) = acquire_mutation owner nonce s in (s', if isl answer then G_none else G_enter))"
| "perform_call (SC_consume p kind owner allow) s =
     (let (s', answer) = consume_permit p kind owner allow s
      in (s', if kind = Mutation \<and> answer = Inr True then G_leave else G_none))"
| "perform_call (SC_promote p owner nonce) s =
     (fst (promote_to_operation p owner nonce s),
      if snd (consume_permit p Mutation owner False s) = Inr True then G_leave else G_none)"
| "perform_call (SC_admit p owner nonce) s =
     (let (s', answer) = wait_for_lock_admit p owner nonce s in (s', if isl answer then G_none else G_enter))"
| "perform_call (SC_schedule k p owner stored) s =
     (let (s', answer) = schedule k p owner stored s
      in (s', case answer of Inl _ \<Rightarrow> G_none | Inr t \<Rightarrow> G_launch k t))"
| "perform_call (SC_run_finished k t failed stored) s =
     ((run_finished k t failed stored s)\<lparr>sv_callbacks := filter (\<lambda>c. c \<noteq> (k, t)) (sv_callbacks s)\<rparr>, G_none)"
| "perform_call (SC_registry_finished k t) s =
     (s\<lparr>sv_registry := live_discard_finished k t (sv_registry s)\<rparr>, G_none)"
| "perform_call SC_recovery s = (fst (start_recovery s), G_none)"
| "perform_call SC_maintenance s = (fst (start_maintenance s), G_none)"
| "perform_call (SC_maintenance_finished t) s = (maintenance_finished t s, G_none)"
| "perform_call SC_close s = (close s, G_none)"
| "perform_call (SC_close_impl written) s =
     (case close_impl written s of
        None \<Rightarrow> (s, G_none)
      | Some s' \<Rightarrow> (s', if sv_closed s' \<and> \<not> sv_closed s then G_seal
                       else if sv_closing s' \<and> \<not> sv_closing s then G_shut else G_none))"
| "perform_call SC_task_starts s =
     (s\<lparr>sv_next := Suc (sv_next s), sv_live := sv_next s # sv_live s\<rparr>, G_none)"
| "perform_call (SC_task_ends h) s = (s\<lparr>sv_live := filter (\<lambda>x. x \<noteq> h) (sv_live s)\<rparr>, G_finish h)"
| "perform_call (SC_other_permit cell) s = (s\<lparr>sv_objects := sv_objects s @ [cell]\<rparr>, G_none)"
| "perform_call (SC_record_moves k st) s = (s\<lparr>sv_states := (sv_states s)(k := st)\<rparr>, G_none)"
| "perform_call (SC_cancel k) s = (s\<lparr>sv_registry := fst (live_request_cancel k (sv_registry s))\<rparr>, G_none)"

lemma supervisor_step_call:
  "supervisor_step s s' \<longleftrightarrow> (\<exists>c. call_enabled c s \<and> s' = fst (perform_call c s))"
proof
  assume "supervisor_step s s'"
  then show "\<exists>c. call_enabled c s \<and> s' = fst (perform_call c s)"
  proof cases
    case (Acquire owner nonce)
    then show ?thesis by (intro exI [of _ "SC_acquire owner nonce"]) (simp add: case_prod_beta Let_def)
  next
    case (Release owner p kind allow)
    then show ?thesis by (intro exI [of _ "SC_consume p kind owner allow"]) (simp add: case_prod_beta Let_def)
  next
    case (Promote owner nonce p)
    then show ?thesis by (intro exI [of _ "SC_promote p owner nonce"]) simp
  next
    case (Lock_admit owner nonce p)
    then show ?thesis by (intro exI [of _ "SC_admit p owner nonce"]) (simp add: case_prod_beta Let_def)
  next
    case (Schedule owner k p saved)
    then show ?thesis by (intro exI [of _ "SC_schedule k p owner saved"]) (simp add: case_prod_beta Let_def)
  next
    case (Run_finished k t failed stored)
    then show ?thesis by (intro exI [of _ "SC_run_finished k t failed stored"]) simp
  next
    case (Registry_finished t k)
    then show ?thesis by (intro exI [of _ "SC_registry_finished k t"]) simp
  next
    case Recovery
    then show ?thesis by (intro exI [of _ SC_recovery]) simp
  next
    case Maintenance
    then show ?thesis by (intro exI [of _ SC_maintenance]) simp
  next
    case (Maintenance_finished t)
    then show ?thesis by (intro exI [of _ "SC_maintenance_finished t"]) simp
  next
    case Close
    then show ?thesis by (intro exI [of _ SC_close]) simp
  next
    case (Close_impl written)
    then show ?thesis by (intro exI [of _ "SC_close_impl written"]) simp
  next
    case Task_starts
    then show ?thesis by (intro exI [of _ SC_task_starts]) simp
  next
    case (Task_ends h)
    then show ?thesis by (intro exI [of _ "SC_task_ends h"]) simp
  next
    case (Other_permit cell)
    then show ?thesis by (intro exI [of _ "SC_other_permit cell"]) simp
  next
    case (Record_moves k st)
    then show ?thesis by (intro exI [of _ "SC_record_moves k st"]) simp
  next
    case (Cancel_requested k)
    then show ?thesis by (intro exI [of _ "SC_cancel k"]) simp
  qed
next
  assume "\<exists>c. call_enabled c s \<and> s' = fst (perform_call c s)"
  then obtain c where "call_enabled c s" "s' = fst (perform_call c s)" by blast
  then show "supervisor_step s s'"
    by (cases c) (auto simp: case_prod_beta Let_def intro: supervisor_step.intros)
qed

definition supervisor_start :: "nat \<Rightarrow> (pystr \<Rightarrow> task_state option) \<Rightarrow> supervisor" where
  "supervisor_start i states =
     \<lparr>sv_id = i, sv_objects = [], sv_permits = [], sv_mutations = 0, sv_runs = [], sv_callbacks = [],
      sv_maintenance = [], sv_recovery = None, sv_closing = False, sv_closed = False,
      sv_phase = Not_closing, sv_live = [], sv_next = 0, sv_registry = [], sv_states = states\<rparr>"

section \<open>Accounting of permits\<close>

lemma update_fresh: "k \<notin> fst ` set xs \<Longrightarrow> AList.update k v xs = xs @ [(k, v)]"
  by (induction xs) auto

lemma delete_filter: "AList.delete k xs = filter (\<lambda>x. fst x \<noteq> k) xs"
  unfolding AList.delete_eq by (rule filter_cong) auto

lemma count_delete:
  assumes "distinct (map fst xs)" and "map_of xs k = Some e"
  shows "int (length (filter P (AList.delete k xs)))
    = int (length (filter P xs)) - (if P (k, e) then 1 else 0)"
  using assms
proof (induction xs)
  case (Cons x xs)
  show ?case
  proof (cases "fst x = k")
    case True
    then have "k \<notin> fst ` set xs"
      using Cons.prems(1) by auto
    then have "AList.delete k xs = xs"
      by (auto simp: delete_filter filter_id_conv)
    then show ?thesis
      using True Cons.prems(2) by (cases x) auto
  next
    case False
    then show ?thesis
      using Cons by (cases x) auto
  qed
qed simp

definition entry_ok :: "supervisor \<Rightarrow> nat \<times> permit_entry \<Rightarrow> bool" where
  "entry_ok s = (\<lambda>(n, e). pe_token e < length (sv_objects s)
     \<and> sv_objects s ! pe_token e = \<lparr>pm_supervisor = Some (sv_id s), pm_nonce = Some n,
          pm_owner = Some (pe_owner e), pm_issued = True, pm_active = True\<rparr>)"

definition mutation_entries :: "supervisor \<Rightarrow> (nat \<times> permit_entry) list" where
  "mutation_entries s = filter (\<lambda>x. pe_kind (snd x) = Mutation) (sv_permits s)"

definition permits_ok :: "supervisor \<Rightarrow> bool" where
  "permits_ok s \<longleftrightarrow> distinct (map fst (sv_permits s)) \<and> (\<forall>x \<in> set (sv_permits s). entry_ok s x)
     \<and> sv_mutations s = int (length (mutation_entries s))"

text \<open>A permit is consumed only by its owner, with its kind, while it is registered.\<close>

lemma validate_permit_Inr:
  assumes "validate_permit p kind owner s = Inr entry"
  obtains n where "p < length (sv_objects s)" "pm_active (sv_objects s ! p)" "pm_issued (sv_objects s ! p)"
    "pm_nonce (sv_objects s ! p) = Some n" "map_of (sv_permits s) n = Some entry"
    "pe_token entry = p" "pe_owner entry = owner" "pe_kind entry = kind"
  using assms by (auto simp: validate_permit_def Let_def split: if_splits option.splits)

definition consumed :: "nat \<Rightarrow> nat \<Rightarrow> permit_kind \<Rightarrow> supervisor \<Rightarrow> supervisor" where
  "consumed p n kind s = s\<lparr>sv_permits := AList.delete n (sv_permits s), sv_objects := deactivate p (sv_objects s),
     sv_mutations := (if kind = Mutation then sv_mutations s - 1 else sv_mutations s)\<rparr>"

lemma consume_permit_cases:
  assumes "consume_permit p kind owner allow s = (s', res)"
  obtains (same) "s' = s" "res \<noteq> Inr True"
  | (taken) entry n where "validate_permit p kind owner s = Inr entry" "p < length (sv_objects s)"
      "pm_active (sv_objects s ! p)" "map_of (sv_permits s) n = Some entry" "pe_token entry = p"
      "pe_owner entry = owner" "pe_kind entry = kind" "s' = consumed p n kind s" "res = Inr True"
proof (cases "validate_permit p kind owner s")
  case (Inl e)
  then show ?thesis
    using assms same by (auto simp: consume_permit_def split: if_splits)
next
  case (Inr entry)
  then obtain n where n: "p < length (sv_objects s)" "pm_active (sv_objects s ! p)" "pm_issued (sv_objects s ! p)"
    "pm_nonce (sv_objects s ! p) = Some n" "map_of (sv_permits s) n = Some entry"
    "pe_token entry = p" "pe_owner entry = owner" "pe_kind entry = kind"
    by (rule validate_permit_Inr)
  show ?thesis
  proof (cases "kind = Mutation \<and> sv_mutations s \<le> 0")
    case True
    then show ?thesis
      using assms same Inr n by (auto simp: consume_permit_def split: if_splits)
  next
    case False
    then have "s' = consumed p n kind s" "res = Inr True"
      using assms Inr n by (auto simp: consume_permit_def Let_def consumed_def deactivate_def split: if_splits)
    then show ?thesis
      using taken Inr n by blast
  qed
qed

lemma distinct_tokens:
  assumes "permits_ok s" and "(n, e) \<in> set (sv_permits s)" and "(m, f) \<in> set (sv_permits s)"
    and "pe_token e = pe_token f"
  shows "n = m"
proof -
  have "entry_ok s (n, e)" "entry_ok s (m, f)"
    using assms by (auto simp: permits_ok_def)
  then show ?thesis
    using assms(4) by (simp add: entry_ok_def)
qed

lemma permits_ok_consumed:
  assumes "permits_ok s" and "map_of (sv_permits s) n = Some entry" and "pe_token entry = p" and "pe_kind entry = kind"
  shows "permits_ok (consumed p n kind s)"
proof -
  have mem: "(n, entry) \<in> set (sv_permits s)"
    using assms(2) by (rule map_of_SomeD)
  have "entry_ok (consumed p n kind s) x" if "x \<in> set (AList.delete n (sv_permits s))" for x
  proof -
    obtain m f where x: "x = (m, f)"
      by (cases x)
    then have mf: "(m, f) \<in> set (sv_permits s)" "m \<noteq> n"
      using that by (auto simp: delete_filter)
    then have "pe_token f \<noteq> p"
      using distinct_tokens [OF assms(1) mem mf(1)] assms(3) by auto
    then show ?thesis
      using x mf assms(1) by (auto simp: permits_ok_def entry_ok_def consumed_def deactivate_def)
  qed
  moreover have "distinct (map fst (AList.delete n (sv_permits s)))"
    using assms(1) by (simp add: permits_ok_def delete_filter distinct_map_filter)
  moreover have "int (length (mutation_entries (consumed p n kind s)))
      = sv_mutations s - (if kind = Mutation then 1 else 0)"
    using count_delete [of "sv_permits s" n entry "\<lambda>x. pe_kind (snd x) = Mutation"] assms
    by (auto simp: mutation_entries_def consumed_def deactivate_def permits_ok_def)
  ultimately show ?thesis
    by (auto simp: permits_ok_def consumed_def deactivate_def)
qed


lemma entry_ok_append:
  "entry_ok s x \<Longrightarrow> entry_ok (s\<lparr>sv_objects := sv_objects s @ cells, sv_permits := ps, sv_mutations := m\<rparr>) x"
  by (cases x) (auto simp: entry_ok_def nth_append)

lemma permits_ok_mint:
  assumes "permits_ok s" and "nonce \<notin> fst ` set (sv_permits s)" and "mint_permit kind owner nonce s = (s', q)"
  shows "permits_ok (s'\<lparr>sv_mutations := (if kind = Mutation then sv_mutations s + 1 else sv_mutations s)\<rparr>)"
proof -
  let ?e = "\<lparr>pe_token = length (sv_objects s), pe_owner = owner, pe_kind = kind\<rparr>"
  have s': "sv_permits s' = sv_permits s @ [(nonce, ?e)]" "sv_id s' = sv_id s"
    "sv_objects s' = sv_objects s @ [\<lparr>pm_supervisor = Some (sv_id s), pm_nonce = Some nonce,
       pm_owner = Some owner, pm_issued = True, pm_active = True\<rparr>]"
    using assms(2,3) by (auto simp: mint_permit_def Let_def update_fresh)
  have "entry_ok s' x" if "x \<in> set (sv_permits s)" for x
    using assms(1) that s' by (cases x) (auto simp: permits_ok_def entry_ok_def nth_append)
  then show ?thesis
    using assms(1,2) s' by (auto simp: permits_ok_def mutation_entries_def entry_ok_def)
qed

lemma mint_permit_simps [simp]:
  "sv_mutations (fst (mint_permit kind owner nonce s)) = sv_mutations s"
  "sv_closing (fst (mint_permit kind owner nonce s)) = sv_closing s"
  "sv_closed (fst (mint_permit kind owner nonce s)) = sv_closed s"
  by (simp_all add: mint_permit_def Let_def)

text \<open>What the permit operations do to the rest of the supervisor.\<close>

definition cell_moves :: "permit \<Rightarrow> permit \<Rightarrow> bool" where
  "cell_moves c d \<longleftrightarrow> d = c \<or> d = c\<lparr>pm_active := False\<rparr>"

lemma cell_moves_refl [simp]: "cell_moves c c"
  by (simp add: cell_moves_def)

lemma cell_moves_inactive [simp]: "cell_moves c (c\<lparr>pm_active := False\<rparr>)"
  by (simp add: cell_moves_def)

lemma cell_moves_trans: "cell_moves a b \<Longrightarrow> cell_moves b c \<Longrightarrow> cell_moves a c"
  by (auto simp: cell_moves_def)

definition permit_frame :: "supervisor \<Rightarrow> supervisor \<Rightarrow> bool" where
  "permit_frame s s' \<longleftrightarrow>
     s' = s\<lparr>sv_objects := sv_objects s', sv_permits := sv_permits s', sv_mutations := sv_mutations s'\<rparr>"

lemma permit_frame_trans: "permit_frame s s1 \<Longrightarrow> permit_frame s1 s2 \<Longrightarrow> permit_frame s s2"
  by (cases s; cases s1; cases s2) (simp add: permit_frame_def)

lemma permit_frame_refl [simp]: "permit_frame s s"
  by (simp add: permit_frame_def)

lemma permit_frame_eq:
  assumes "permit_frame s s'"
  shows "sv_phase s' = sv_phase s" "sv_closing s' = sv_closing s" "sv_closed s' = sv_closed s"
    "sv_runs s' = sv_runs s" "sv_maintenance s' = sv_maintenance s" "sv_live s' = sv_live s"
    "sv_next s' = sv_next s" "sv_callbacks s' = sv_callbacks s" "sv_id s' = sv_id s"
  using assms by (cases s; cases s'; simp add: permit_frame_def)+

definition permit_move :: "supervisor \<Rightarrow> supervisor \<Rightarrow> bool" where
  "permit_move s s' \<longleftrightarrow> permit_frame s s'
     \<and> (\<forall>i < length (sv_objects s). i < length (sv_objects s') \<and> cell_moves (sv_objects s ! i) (sv_objects s' ! i))
     \<and> (\<not> is_accepting s \<longrightarrow> set (sv_permits s') \<subseteq> set (sv_permits s))
     \<and> (permits_ok s \<longrightarrow> permits_ok s'
          \<and> (sv_mutations s' = sv_mutations s \<or> sv_mutations s' = sv_mutations s - 1 \<and> 0 < sv_mutations s
             \<or> sv_mutations s' = sv_mutations s + 1 \<and> is_accepting s))"

lemma permit_move_refl [simp]: "permit_move s s"
  by (simp add: permit_move_def)

lemma mutation_entry_counted:
  "permits_ok s \<Longrightarrow> (n, e) \<in> set (sv_permits s) \<Longrightarrow> pe_kind e = Mutation \<Longrightarrow> 0 < sv_mutations s"
  by (auto simp: permits_ok_def mutation_entries_def filter_empty_conv intro!: bexI [of _ "(n, e)"])

lemma permit_move_consume:
  assumes "consume_permit p kind owner allow s = (s', res)"
  shows "permit_move s s' \<and> (kind = Operation \<longrightarrow> sv_mutations s' = sv_mutations s)
    \<and> is_accepting s' = is_accepting s \<and> set (sv_permits s') \<subseteq> set (sv_permits s)"
  using assms
proof (cases rule: consume_permit_cases)
  case (taken entry n)
  then have "(n, entry) \<in> set (sv_permits s)"
    by (simp add: map_of_SomeD)
  then show ?thesis
    using taken mutation_entry_counted [of s n entry] permits_ok_consumed [of s n entry p kind]
    by (auto simp: permit_move_def permit_frame_def consumed_def deactivate_def delete_filter nth_list_update
        is_accepting_def)
qed simp

lemma permit_move_mint:
  assumes "nonce \<notin> fst ` set (sv_permits s)" and "is_accepting s" and "mint_permit kind owner nonce s = (s', q)"
    and "s'' = s'\<lparr>sv_mutations := (if kind = Mutation then sv_mutations s + 1 else sv_mutations s)\<rparr>"
  shows "permit_move s s''"
  using permits_ok_mint [OF _ assms(1,3)] assms(2-4)
  by (auto simp: permit_move_def permit_frame_def mint_permit_def Let_def nth_append)

text \<open>Consuming and then minting under one hold of the condition is one move.\<close>

lemma permit_move_exchange:
  assumes "consume_permit p kind owner allow s = (s1, res)" and "nonce \<notin> fst ` set (sv_permits s)"
    and "is_accepting s" and "mint_permit (if kind = Mutation then Operation else Mutation) owner nonce s1 = (s2, q)"
    and "s' = (if kind = Mutation then s2 else s2\<lparr>sv_mutations := sv_mutations s2 + 1\<rparr>)"
  shows "permit_move s s'"
proof -
  have m1: "permit_move s s1" "kind = Operation \<Longrightarrow> sv_mutations s1 = sv_mutations s" "is_accepting s1"
    "set (sv_permits s1) \<subseteq> set (sv_permits s)"
    using permit_move_consume [OF assms(1)] assms(3) by auto
  have "sv_mutations s2 = sv_mutations s1"
    using mint_permit_simps(1) [of _ owner nonce s1] assms(4) by (metis fst_conv)
  then have m2: "permit_move s1 s'" "sv_mutations s' = (if kind = Mutation then sv_mutations s1 else sv_mutations s1 + 1)"
    using permit_move_mint [OF _ m1(3) assms(4), of s'] assms(2,5) m1(4)
    by (cases kind; force simp: permit_move_def)+
  show ?thesis
    using m1 m2 assms(3) permit_frame_trans [of s s1 s']
    by (cases kind) (auto simp: permit_move_def dest: cell_moves_trans)
qed

lemma permit_move_acquire:
  "nonce \<notin> fst ` set (sv_permits s) \<Longrightarrow> permit_move s (fst (acquire_mutation owner nonce s))"
  using permit_move_mint [of nonce s Mutation owner]
  by (cases "mint_permit Mutation owner nonce s") (auto simp: acquire_mutation_def Let_def mint_permit_def)

lemma permit_move_promote:
  assumes "nonce \<notin> fst ` set (sv_permits s)"
  shows "permit_move s (fst (promote_to_operation p owner nonce s))"
proof -
  obtain s1 res where c: "consume_permit p Mutation owner False s = (s1, res)"
    by fastforce
  obtain s2 q where m: "mint_permit Operation owner nonce s1 = (s2, q)"
    by fastforce
  show ?thesis
    using permit_move_consume [OF c] permit_move_exchange [OF c assms, of s2 q s2] c m
    by (auto simp: promote_to_operation_def split: sum.splits)
qed

lemma permit_move_admit:
  assumes "nonce \<notin> fst ` set (sv_permits s)"
  shows "permit_move s (fst (wait_for_lock_admit p owner nonce s))"
proof -
  obtain s1 res where c: "consume_permit p Operation owner False s = (s1, res)"
    by fastforce
  obtain s2 q where m: "mint_permit Mutation owner nonce s1 = (s2, q)"
    by fastforce
  have clean: "permit_move s (fst (cleanup_operation p owner s))"
    using permit_move_consume by (simp add: cleanup_operation_def) (metis prod.collapse)
  have same: "s1 = s" if "res = Inl e" for e
    using c that by (auto elim: consume_permit_cases)
  show ?thesis
  proof (cases "is_accepting s \<and> (\<exists>b. res = Inr b)")
    case True
    then show ?thesis
      using permit_move_exchange [OF c assms, of s2 q] c m by (auto simp: wait_for_lock_admit_def Let_def)
  next
    case False
    then have "fst (wait_for_lock_admit p owner nonce s) = fst (cleanup_operation p owner s)"
      using same c by (auto simp: wait_for_lock_admit_def Let_def split: prod.split sum.splits)
    then show ?thesis
      using clean by simp
  qed
qed

section \<open>The invariant of the supervisor\<close>

fun is_drained :: "close_phase \<Rightarrow> bool" where
  "is_drained Drained = True"
| "is_drained (Stopping _ _) = True"
| "is_drained (Ending _) = True"
| "is_drained Close_done = True"
| "is_drained _ = False"

definition phase_ok :: "supervisor \<Rightarrow> bool" where
  "phase_ok s \<longleftrightarrow>
     (sv_closing s \<longleftrightarrow> sv_phase s \<notin> {Not_closing, Close_requested})
     \<and> (sv_closed s \<longleftrightarrow> sv_phase s = Close_done)
     \<and> (is_drained (sv_phase s) \<longrightarrow> sv_mutations s = 0)
     \<and> (\<forall>m r. sv_phase s = Stopping m r \<longrightarrow>
           (\<forall>k t. get_run k s = Some t \<longrightarrow> (k, t) \<in> set r) \<and> set (sv_maintenance s) \<subseteq> set m)
     \<and> (\<forall>r. sv_phase s = Ending r \<longrightarrow>
           (\<forall>k t. get_run k s = Some t \<longrightarrow> (k, t) \<in> set r) \<and> all_done (sv_maintenance s) s)
     \<and> (sv_phase s = Close_done \<longrightarrow> sv_runs s = [] \<and> sv_maintenance s = [] \<and> sv_permits s = [])"

definition runs_ok :: "supervisor \<Rightarrow> bool" where
  "runs_ok s \<longleftrightarrow>
     (\<forall>k t. (k, t) \<in> set (sv_callbacks s) \<longrightarrow> t \<in> set (sv_live s) \<longrightarrow> get_run k s = Some t)
     \<and> (\<forall>k t. (k, t) \<in> set (sv_callbacks s) \<or> get_run k s = Some t \<longrightarrow> t < sv_next s)
     \<and> (\<forall>h \<in> set (sv_live s) \<union> set (sv_maintenance s). h < sv_next s)"

definition supervisor_ok :: "supervisor \<Rightarrow> bool" where
  "supervisor_ok s \<longleftrightarrow> permits_ok s \<and> phase_ok s \<and> runs_ok s"

lemmas supervisor_simps = supervisor_ok_def permits_ok_def phase_ok_def runs_ok_def entry_ok_def
  mutation_entries_def get_run_def all_done_def is_accepting_def

lemma not_drained_accepting: "phase_ok s \<Longrightarrow> is_accepting s \<Longrightarrow> sv_phase s \<in> {Not_closing, Close_requested}"
  by (auto simp: phase_ok_def is_accepting_def)

lemma supervisor_start_ok: "supervisor_ok (supervisor_start i states)"
  by (simp add: supervisor_simps supervisor_start_def)

lemma ok_permit_move:
  assumes "supervisor_ok s" and "permit_move s s'"
  shows "supervisor_ok s'"
proof -
  have eq: "sv_phase s' = sv_phase s" "sv_closing s' = sv_closing s" "sv_closed s' = sv_closed s"
    "sv_runs s' = sv_runs s" "sv_maintenance s' = sv_maintenance s" "sv_live s' = sv_live s"
    "sv_next s' = sv_next s" "sv_callbacks s' = sv_callbacks s"
    using assms(2) permit_frame_eq [of s s'] by (simp_all add: permit_move_def)
  have ok: "permits_ok s'" "0 \<le> sv_mutations s'"
    using assms by (auto simp: permit_move_def supervisor_ok_def permits_ok_def)
  have "is_drained (sv_phase s) \<longrightarrow> sv_mutations s' = 0"
    using assms ok not_drained_accepting [of s] by (auto simp: permit_move_def supervisor_ok_def phase_ok_def)
  moreover have "sv_phase s = Close_done \<longrightarrow> sv_permits s' = []"
    using assms by (auto simp: permit_move_def supervisor_ok_def phase_ok_def is_accepting_def)
  ultimately show ?thesis
    using assms(1) ok eq by (simp add: supervisor_ok_def phase_ok_def runs_ok_def get_run_def all_done_def)
qed

text \<open>Steps that leave the permits alone.\<close>

lemma permits_ok_cong:
  "sv_objects s' = sv_objects s \<Longrightarrow> sv_permits s' = sv_permits s \<Longrightarrow> sv_mutations s' = sv_mutations s
    \<Longrightarrow> sv_id s' = sv_id s \<Longrightarrow> permits_ok s' = permits_ok s"
  by (simp add: permits_ok_def entry_ok_def mutation_entries_def)

lemma record_running_cases:
  assumes "record_running k t stored s = (s', res)"
  obtains (failed) e where "res = Inl e" "s' = s"
  | (stored) reg where "res = Inr ()" "s' = s\<lparr>sv_registry := reg, sv_states := (sv_states s)(k \<mapsto> TS_running)\<rparr>"
  using assms by (auto simp: record_running_def split: option.splits sum.splits)

lemma schedule_cases:
  assumes "schedule k p owner stored s = (s', res)"
  obtains (refused) reg n where "sv_next s \<le> n" "s' = s\<lparr>sv_next := n, sv_registry := reg\<rparr>" "isl res"
  | (started) entry reg where "is_accepting s" "validate_permit p Mutation owner s = Inr entry"
      "\<forall>t. get_run k s = Some t \<longrightarrow> t \<notin> set (sv_live s)" "res = Inr (sv_next s)"
      "s' = s\<lparr>sv_next := Suc (sv_next s), sv_registry := reg, sv_states := (sv_states s)(k \<mapsto> TS_running),
         sv_runs := AList.update k (sv_next s) (sv_runs s), sv_callbacks := (k, sv_next s) # sv_callbacks s,
         sv_live := sv_next s # sv_live s\<rparr>"
proof (cases "is_accepting s")
  have same: thesis if "s' = s" "isl res"
    by (rule refused [of "sv_next s" "sv_registry s"]) (simp_all add: that)
  case acc: True
  show ?thesis
  proof (cases "validate_permit p Mutation owner s")
    case (Inr entry)
    show ?thesis
    proof (cases "case get_run k s of None \<Rightarrow> False | Some t \<Rightarrow> t \<in> set (sv_live s)")
      case True
      then show ?thesis
        using assms acc Inr by (intro same) (auto simp: schedule_def)
    next
      case False
      have sched: "schedule k p owner stored s =
          (case record_running k (sv_next s) stored (s\<lparr>sv_next := Suc (sv_next s)\<rparr>) of
             (s, Inl e) \<Rightarrow> (s\<lparr>sv_registry := live_discard k (sv_registry s)\<rparr>, Inl (Manager_error e))
           | (s1, Inr _) \<Rightarrow>
               (s1\<lparr>sv_runs := AList.update k (sv_next s) (sv_runs s1), sv_callbacks := (k, sv_next s) # sv_callbacks s1,
                  sv_live := sv_next s # sv_live s1\<rparr>, Inr (sv_next s)))"
        unfolding schedule_def Let_def Inr using acc False by simp
      obtain s1 r1 where m: "record_running k (sv_next s) stored (s\<lparr>sv_next := Suc (sv_next s)\<rparr>) = (s1, r1)"
        by fastforce
      then show ?thesis
      proof (cases rule: record_running_cases)
        case (failed e)
        then have "s' = s\<lparr>sv_next := Suc (sv_next s), sv_registry := live_discard k (sv_registry s)\<rparr>" "isl res"
          using assms unfolding sched m failed by auto
        then show ?thesis
          by (rule refused [rotated]) simp
      next
        case (stored reg)
        have "res = Inr (sv_next s)" "s' = s\<lparr>sv_next := Suc (sv_next s), sv_registry := reg,
            sv_states := (sv_states s)(k \<mapsto> TS_running),
            sv_runs := AList.update k (sv_next s) (sv_runs s), sv_callbacks := (k, sv_next s) # sv_callbacks s,
            sv_live := sv_next s # sv_live s\<rparr>"
          using assms unfolding sched m stored by simp_all
        moreover have "\<forall>t. get_run k s = Some t \<longrightarrow> t \<notin> set (sv_live s)"
          using False by (simp split: option.splits)
        ultimately show ?thesis
          using started [OF acc Inr] by blast
      qed
    qed
  next
    case (Inl e)
    then show ?thesis
      using assms acc by (intro same) (auto simp: schedule_def)
  qed
next
  case False
  then have "s' = s\<lparr>sv_next := sv_next s, sv_registry := sv_registry s\<rparr>" "isl res"
    using assms by (auto simp: schedule_def)
  then show ?thesis
    by (rule refused [rotated]) simp
qed

lemma runs_ok_started:
  assumes "runs_ok s" and "\<forall>t. get_run k s = Some t \<longrightarrow> t \<notin> set (sv_live s)"
    and "sv_runs s' = AList.update k (sv_next s) (sv_runs s)" and "sv_callbacks s' = (k, sv_next s) # sv_callbacks s"
    and "sv_live s' = sv_next s # sv_live s" and "sv_next s' = Suc (sv_next s)" and "sv_maintenance s' = sv_maintenance s"
  shows "runs_ok s'"
proof -
  have run: "get_run k' s' = (if k' = k then Some (sv_next s) else get_run k' s)" for k'
    by (simp add: get_run_def assms(3) update_conv')
  have bounds: "\<forall>h \<in> set (sv_live s) \<union> set (sv_maintenance s). h < sv_next s"
    "\<forall>k t. (k, t) \<in> set (sv_callbacks s) \<or> get_run k s = Some t \<longrightarrow> t < sv_next s"
    using assms(1) by (simp_all add: runs_ok_def)
  have "get_run k' s' = Some t" if "(k', t) \<in> set (sv_callbacks s')" "t \<in> set (sv_live s')" for k' t
  proof (cases "(k', t) = (k, sv_next s)")
    case False
    then have "(k', t) \<in> set (sv_callbacks s)"
      using that(1) unfolding assms(4) by auto
    moreover from this have "t \<in> set (sv_live s)"
      using that(2) assms(5) bounds(2) by auto
    ultimately show ?thesis
      using assms(1,2) by (auto simp: runs_ok_def run)
  qed (simp add: run)
  moreover have "t < sv_next s'" if "(k', t) \<in> set (sv_callbacks s') \<or> get_run k' s' = Some t" for k' t
    using that assms(4,6) bounds(2) less_SucI by (fastforce simp: run split: if_splits)
  ultimately show ?thesis
    using bounds(1) assms(5-7) unfolding runs_ok_def by (auto intro: less_SucI)
qed

lemma ok_schedule:
  assumes "supervisor_ok s"
  shows "supervisor_ok (fst (schedule k p owner stored s))"
proof -
  obtain s' res where e: "schedule k p owner stored s = (s', res)"
    by fastforce
  then show ?thesis
  proof (cases rule: schedule_cases)
    case (refused reg n)
    have "runs_ok s'"
      using assms refused unfolding supervisor_ok_def runs_ok_def
      by (simp add: get_run_def) (meson less_le_trans)
    then show ?thesis
      using assms e refused permits_ok_cong [of s' s]
      by (simp add: supervisor_ok_def phase_ok_def get_run_def all_done_def)
  next
    case (started entry reg)
    have phase: "sv_phase s = Not_closing \<or> sv_phase s = Close_requested"
      using assms started(1) not_drained_accepting by (auto simp: supervisor_ok_def)
    have "runs_ok s"
      using assms by (simp add: supervisor_ok_def)
    then have "runs_ok s'"
      by (rule runs_ok_started [OF _ started(3)]) (simp_all add: started(5))
    moreover have "phase_ok s'"
      using assms phase unfolding started(5) supervisor_ok_def phase_ok_def by auto
    moreover have "permits_ok s'"
      using assms permits_ok_cong [of s' s] unfolding started(5) by (simp add: supervisor_ok_def)
    ultimately show ?thesis
      unfolding e supervisor_ok_def by simp
  qed
qed

lemma fold_deactivate:
  "length (fold (\<lambda>(n, e). deactivate (pe_token e)) xs objs) = length objs
   \<and> (\<forall>i < length objs.
        cell_moves (objs ! i) (fold (\<lambda>(n, e). deactivate (pe_token e)) xs objs ! i)
        \<and> (i \<notin> (\<lambda>x. pe_token (snd x)) ` set xs \<longrightarrow> fold (\<lambda>(n, e). deactivate (pe_token e)) xs objs ! i = objs ! i))"
proof (induction xs arbitrary: objs)
  case (Cons x xs)
  obtain n e where x: "x = (n, e)"
    by (cases x)
  have "length (deactivate (pe_token e) objs) = length objs"
    "\<forall>i < length objs. cell_moves (objs ! i) (deactivate (pe_token e) objs ! i)
      \<and> (i \<noteq> pe_token e \<longrightarrow> deactivate (pe_token e) objs ! i = objs ! i)"
    by (cases "pe_token e < length objs"; auto simp: deactivate_def nth_list_update)+
  then show ?case
    using Cons.IH [of "deactivate (pe_token e) objs"] by (auto simp: x dest: cell_moves_trans)
qed simp

lemma permit_move_discard:
  assumes "permits_ok s"
  shows "permit_move s (discard_operation_permits owners s)"
proof -
  let ?gone = "\<lambda>(n, e). pe_kind e = Operation \<and> pe_owner e \<in> set owners"
  let ?xs = "filter ?gone (sv_permits s)" and ?s' = "discard_operation_permits owners s"
  note fd = fold_deactivate [of ?xs "sv_objects s"]
  have eq: "sv_permits ?s' = filter (\<lambda>x. \<not> ?gone x) (sv_permits s)" "sv_mutations ?s' = sv_mutations s"
    "sv_objects ?s' = fold (\<lambda>(n, e). deactivate (pe_token e)) ?xs (sv_objects s)" "sv_id ?s' = sv_id s"
    by (simp_all add: discard_operation_permits_def Let_def)
  have "entry_ok ?s' (m, f)" if "(m, f) \<in> set (sv_permits ?s')" for m f
  proof -
    have mem: "(m, f) \<in> set (sv_permits s)" "\<not> ?gone (m, f)"
      using that by (auto simp: eq(1))
    have "pe_token f \<noteq> pe_token (snd x)" if "x \<in> set ?xs" for x
    proof
      assume "pe_token f = pe_token (snd x)"
      then have "m = fst x" "f = snd x"
        using distinct_tokens [OF assms mem(1), of "fst x" "snd x"] mem(1) that assms
        by (auto simp: permits_ok_def dest: eq_key_imp_eq_value)
      then show False
        using mem(2) that by (cases x) auto
    qed
    then have "pe_token f \<notin> (\<lambda>x. pe_token (snd x)) ` set ?xs"
      by blast
    then show ?thesis
      using fd mem(1) assms unfolding eq entry_ok_def permits_ok_def by auto
  qed
  moreover have "mutation_entries ?s' = mutation_entries s"
    unfolding mutation_entries_def eq filter_filter by (rule filter_cong) auto
  ultimately have "permits_ok ?s'"
    using assms by (auto simp: permits_ok_def eq distinct_map_filter)
  then show ?thesis
    using fd eq by (auto simp: permit_move_def permit_frame_def discard_operation_permits_def Let_def)
qed

lemma finalize_interrupted_core [simp]:
  "sv_permits (finalize_interrupted k b s) = sv_permits s" "sv_objects (finalize_interrupted k b s) = sv_objects s"
  "sv_mutations (finalize_interrupted k b s) = sv_mutations s" "sv_id (finalize_interrupted k b s) = sv_id s"
  "sv_runs (finalize_interrupted k b s) = sv_runs s" "sv_callbacks (finalize_interrupted k b s) = sv_callbacks s"
  "sv_live (finalize_interrupted k b s) = sv_live s" "sv_next (finalize_interrupted k b s) = sv_next s"
  "sv_maintenance (finalize_interrupted k b s) = sv_maintenance s" "sv_phase (finalize_interrupted k b s) = sv_phase s"
  "sv_closing (finalize_interrupted k b s) = sv_closing s" "sv_closed (finalize_interrupted k b s) = sv_closed s"
  by (simp_all add: finalize_interrupted_def Let_def)

definition finalize_all :: "(pystr \<Rightarrow> bool) \<Rightarrow> (pystr \<times> handle) list \<Rightarrow> supervisor \<Rightarrow> supervisor" where
  "finalize_all stored runs s = fold (\<lambda>(k, t). finalize_interrupted k (stored k)) runs s"

lemma finalize_all_core [simp]:
  "sv_permits (finalize_all w runs s) = sv_permits s" "sv_objects (finalize_all w runs s) = sv_objects s"
  "sv_mutations (finalize_all w runs s) = sv_mutations s" "sv_id (finalize_all w runs s) = sv_id s"
  "sv_runs (finalize_all w runs s) = sv_runs s" "sv_callbacks (finalize_all w runs s) = sv_callbacks s"
  "sv_live (finalize_all w runs s) = sv_live s" "sv_next (finalize_all w runs s) = sv_next s"
  "sv_closing (finalize_all w runs s) = sv_closing s"
  by (induction runs arbitrary: s; simp add: finalize_all_def split_def)+

text \<open>The stretches of the shutdown, one by one.\<close>

lemma close_impl_cases:
  assumes "close_impl stored s = Some s'"
  obtains (enter) "sv_phase s = Close_requested"
      "s' = s\<lparr>sv_closing := True, sv_phase := Cancelling (operation_owners s)\<rparr>"
  | (cancelled) ops where "sv_phase s = Cancelling ops" "all_done ops s"
      "s' = (discard_operation_permits ops s)\<lparr>sv_phase := Draining\<rparr>"
  | (drained) "sv_phase s = Draining" "sv_mutations s = 0" "s' = s\<lparr>sv_phase := Drained\<rparr>"
  | (collect) "sv_phase s = Drained" "s' = s\<lparr>sv_phase := Stopping (sv_maintenance s) (sv_runs s)\<rparr>"
  | (stopped) m r where "sv_phase s = Stopping m r" "all_done m s"
      "s' = s\<lparr>sv_recovery := None, sv_phase := Ending r\<rparr>"
  | (ended) r where "sv_phase s = Ending r" "all_done (map snd r) s"
      "s' = (finalize_all stored r s)\<lparr>sv_runs := [], sv_maintenance := [], sv_permits := [],
         sv_closed := True, sv_phase := Close_done\<rparr>"
proof (cases "sv_phase s")
  case Close_requested
  show ?thesis
    by (rule enter [OF Close_requested]) (use assms Close_requested in \<open>simp add: close_impl_def\<close>)
next
  case (Cancelling ops)
  have "all_done ops s"
    using assms Cancelling by (simp add: close_impl_def split: if_splits)
  then show ?thesis
    by (rule cancelled [OF Cancelling]) (use assms Cancelling in \<open>simp add: close_impl_def split: if_splits\<close>)
next
  case Draining
  have "sv_mutations s = 0"
    using assms Draining by (simp add: close_impl_def split: if_splits)
  then show ?thesis
    by (rule drained [OF Draining]) (use assms Draining in \<open>simp add: close_impl_def split: if_splits\<close>)
next
  case Drained
  show ?thesis
    by (rule collect [OF Drained]) (use assms Drained in \<open>simp add: close_impl_def\<close>)
next
  case (Stopping m r)
  have "all_done m s"
    using assms Stopping by (simp add: close_impl_def split: if_splits)
  then show ?thesis
    by (rule stopped [OF Stopping]) (use assms Stopping in \<open>simp add: close_impl_def split: if_splits\<close>)
next
  case (Ending r)
  have "all_done (map snd r) s"
    using assms Ending by (simp add: close_impl_def split: if_splits)
  then show ?thesis
    by (rule ended [OF Ending])
      (use assms Ending in \<open>simp add: close_impl_def finalize_all_def split: if_splits\<close>)
qed (use assms in \<open>simp_all add: close_impl_def\<close>)

lemma ok_draining: "supervisor_ok s \<Longrightarrow> sv_phase s = Cancelling ops \<Longrightarrow> supervisor_ok (s\<lparr>sv_phase := Draining\<rparr>)"
  by (simp add: supervisor_simps)

lemma ok_close_impl:
  assumes "supervisor_ok s" and "close_impl stored s = Some s'"
  shows "supervisor_ok s'"
proof -
  have ok: "permits_ok s" "phase_ok s" "runs_ok s"
    using assms(1) by (simp_all add: supervisor_ok_def)
  from assms(2) show ?thesis
  proof (cases rule: close_impl_cases)
    case enter
    then show ?thesis
      using ok by (simp add: supervisor_simps)
  next
    case (cancelled ops)
    have "supervisor_ok (discard_operation_permits ops s)"
      using ok_permit_move [OF assms(1) permit_move_discard [OF ok(1)]] .
    moreover have "sv_phase (discard_operation_permits ops s) = Cancelling ops"
      using cancelled(1) by (simp add: discard_operation_permits_def Let_def)
    ultimately show ?thesis
      unfolding cancelled(3) by (rule ok_draining)
  next
    case drained
    then show ?thesis
      using ok by (simp add: supervisor_simps)
  next
    case collect
    then show ?thesis
      using ok by (auto simp: supervisor_simps dest: map_of_SomeD)
  next
    case (stopped m r)
    then show ?thesis
      using ok by (auto simp: supervisor_simps)
  next
    case (ended r)
    have phase: "sv_mutations s = 0" "sv_closing s" "\<forall>k t. get_run k s = Some t \<longrightarrow> (k, t) \<in> set r"
      using ok(2) ended(1) by (simp_all add: phase_ok_def)
    have "t \<notin> set (sv_live s)" if "(k, t) \<in> set (sv_callbacks s)" for k t
    proof
      assume "t \<in> set (sv_live s)"
      then have "(k, t) \<in> set r"
        using that ok(3) phase(3) by (simp add: runs_ok_def)
      then have "t \<in> set (map snd r)"
        by force
      then show False
        using ended(2) \<open>t \<in> set (sv_live s)\<close> unfolding all_done_def by blast
    qed
    then have "runs_ok s'"
      using ok(3) by (simp add: ended(3) runs_ok_def get_run_def)
    moreover have "permits_ok s'" "phase_ok s'"
      by (simp_all add: ended(3) permits_ok_def mutation_entries_def phase_ok_def phase)
    ultimately show ?thesis
      by (simp add: supervisor_ok_def)
  qed
qed

lemma get_run_delete:
  "get_run k' (s\<lparr>sv_runs := AList.delete k (sv_runs s)\<rparr>) = (if k' = k then None else get_run k' s)"
  by (simp add: get_run_def delete_conv')

lemma ok_run_finished:
  assumes "supervisor_ok s" and "t \<notin> set (sv_live s)"
  shows "supervisor_ok ((run_finished k t failed stored s)\<lparr>sv_callbacks := filter (\<lambda>c. c \<noteq> (k, t)) (sv_callbacks s)\<rparr>)"
proof -
  let ?s1 = "if get_run k s = Some t then s\<lparr>sv_runs := AList.delete k (sv_runs s)\<rparr> else s"
  have ok: "permits_ok s" "phase_ok s" "runs_ok s"
    using assms(1) by (simp_all add: supervisor_ok_def)
  have run: "get_run k' ?s1 = (if k' = k \<and> get_run k s = Some t then None else get_run k' s)" for k'
    by (simp add: get_run_delete)
  have "phase_ok ?s1"
    using ok(2) unfolding phase_ok_def run by (simp add: all_done_def)
  moreover have "runs_ok (?s1\<lparr>sv_callbacks := filter (\<lambda>c. c \<noteq> (k, t)) (sv_callbacks s)\<rparr>)"
    using ok(3) assms(2) unfolding runs_ok_def
    by (auto simp: get_run_def delete_conv' split: if_splits)
  moreover have "permits_ok ?s1"
    using ok(1) by (simp add: permits_ok_def entry_ok_def mutation_entries_def)
  ultimately show ?thesis
    by (simp add: run_finished_def Let_def supervisor_simps split del: if_split)
       (simp split: if_splits)
qed

lemma ok_create_maintenance:
  assumes "supervisor_ok s" and "is_accepting s"
  shows "supervisor_ok (fst (create_maintenance s))"
    and "supervisor_ok ((fst (create_maintenance s))\<lparr>sv_recovery := r\<rparr>)"
proof -
  have phase: "sv_phase s = Not_closing \<or> sv_phase s = Close_requested"
    using assms not_drained_accepting [of s] by (auto simp: supervisor_ok_def)
  have ok: "permits_ok s" "phase_ok s" "runs_ok s"
    using assms(1) by (simp_all add: supervisor_ok_def)
  let ?s = "fst (create_maintenance s)"
  have "permits_ok ?s"
    using ok(1) by (simp add: create_maintenance_def permits_ok_def entry_ok_def mutation_entries_def)
  moreover have "phase_ok ?s"
    using ok(2) phase by (auto simp: create_maintenance_def phase_ok_def)
  moreover have "runs_ok ?s"
    using ok(3) unfolding runs_ok_def create_maintenance_def get_run_def
    by (auto intro: less_SucI)
  ultimately show "supervisor_ok ?s" "supervisor_ok (?s\<lparr>sv_recovery := r\<rparr>)"
    by (simp_all add: supervisor_simps)
qed

lemma ok_task_starts:
  assumes "supervisor_ok s"
  shows "supervisor_ok (s\<lparr>sv_next := Suc (sv_next s), sv_live := sv_next s # sv_live s\<rparr>)"
proof -
  have ok: "permits_ok s" "phase_ok s" "runs_ok s"
    using assms by (simp_all add: supervisor_ok_def)
  let ?s = "s\<lparr>sv_next := Suc (sv_next s), sv_live := sv_next s # sv_live s\<rparr>"
  have fresh: "sv_next s \<notin> set (sv_maintenance s)" "\<And>k. get_run k s \<noteq> Some (sv_next s)"
    "\<And>k. (k, sv_next s) \<notin> set (sv_callbacks s)"
    using ok(3) unfolding runs_ok_def by blast+
  have "runs_ok ?s"
    using ok(3) fresh unfolding runs_ok_def get_run_def by (auto intro: less_SucI)
  moreover have "phase_ok ?s"
    using ok(2) fresh by (auto simp: phase_ok_def all_done_def get_run_def)
  moreover have "permits_ok ?s"
    using ok(1) by (simp add: permits_ok_def entry_ok_def mutation_entries_def)
  ultimately show ?thesis
    by (simp add: supervisor_ok_def)
qed

lemma ok_components: "permits_ok s \<Longrightarrow> phase_ok s \<Longrightarrow> runs_ok s \<Longrightarrow> supervisor_ok s"
  by (simp add: supervisor_ok_def)

lemma ok_registry: "supervisor_ok (s\<lparr>sv_registry := r\<rparr>) = supervisor_ok s"
  by (simp add: supervisor_ok_def permits_ok_def entry_ok_def mutation_entries_def phase_ok_def runs_ok_def
      get_run_def all_done_def)

lemma ok_states: "supervisor_ok (s\<lparr>sv_states := r\<rparr>) = supervisor_ok s"
  by (simp add: supervisor_ok_def permits_ok_def entry_ok_def mutation_entries_def phase_ok_def runs_ok_def
      get_run_def all_done_def)

lemma supervisor_step_ok:
  assumes "supervisor_step s s'" and "supervisor_ok s"
  shows "supervisor_ok s'"
  using assms
proof (induction rule: supervisor_step.induct)
  case (Release owner s p kind allow_inactive)
  obtain s' res where "consume_permit p kind owner allow_inactive s = (s', res)"
    by fastforce
  then show ?case
    using ok_permit_move [OF Release(2)] permit_move_consume by fastforce
next
  case (Recovery s)
  then show ?case
    using ok_create_maintenance [of s] by (auto simp: start_recovery_def split: prod.split)
next
  case (Maintenance s)
  then show ?case
    using ok_create_maintenance [of s] by (auto simp: start_maintenance_def split: prod.split)
next
  case (Maintenance_finished t s)
  then have ok: "permits_ok s" "phase_ok s" "runs_ok s"
    by (simp_all add: supervisor_ok_def)
  then have "phase_ok (maintenance_finished t s)"
    by (auto simp: maintenance_finished_def phase_ok_def get_run_def all_done_def)
  then show ?case
    using ok by (intro ok_components)
      (auto simp: maintenance_finished_def permits_ok_def entry_ok_def mutation_entries_def runs_ok_def get_run_def)
next
  case (Close s)
  then show ?case
    by (cases "sv_phase s = Not_closing", simp add: close_def supervisor_simps, simp add: close_def)
next
  case (Task_ends s h)
  then have ok: "permits_ok s" "phase_ok s" "runs_ok s"
    by (simp_all add: supervisor_ok_def)
  let ?s = "s\<lparr>sv_live := filter (\<lambda>x. x \<noteq> h) (sv_live s)\<rparr>"
  have "runs_ok ?s"
    using ok(3) unfolding runs_ok_def get_run_def by auto
  moreover have "phase_ok ?s"
    using ok(2) by (simp add: phase_ok_def get_run_def all_done_def)
  ultimately show ?case
    using ok(1) permits_ok_cong [of ?s s] by (intro ok_components) simp_all
next
  case (Other_permit cell s)
  then have ok: "permits_ok s" "phase_ok s" "runs_ok s"
    by (simp_all add: supervisor_ok_def)
  have "permits_ok (s\<lparr>sv_objects := sv_objects s @ [cell]\<rparr>)"
    using ok(1) unfolding permits_ok_def entry_ok_def mutation_entries_def by (auto simp: nth_append)
  then show ?case
    using ok(2,3) by (intro ok_components) (simp_all add: phase_ok_def runs_ok_def get_run_def all_done_def)
next
  case (Registry_finished t s k)
  then show ?case
    by (simp add: ok_registry ok_states)
next
  case (Record_moves s k st)
  then show ?case
    by (simp add: ok_registry ok_states)
next
  case (Cancel_requested s k)
  then show ?case
    by (simp add: ok_registry ok_states)
next
  case (Acquire owner s nonce)
  then show ?case
    using ok_permit_move permit_move_acquire by blast
next
  case (Promote owner s nonce p)
  then show ?case
    using ok_permit_move permit_move_promote by blast
next
  case (Lock_admit owner s nonce p)
  then show ?case
    using ok_permit_move permit_move_admit by blast
next
  case (Schedule owner s k p stored)
  show ?case
    by (rule ok_schedule [OF Schedule(2)])
next
  case (Run_finished k t s failed stored)
  show ?case
    by (rule ok_run_finished [OF Run_finished(3,2)])
next
  case (Close_impl written s s')
  show ?case
    by (rule ok_close_impl [OF Close_impl(2,1)])
next
  case (Task_starts s)
  show ?case
    by (rule ok_task_starts [OF Task_starts(1)])
qed

lemma supervisor_steps_ok: "supervisor_step\<^sup>*\<^sup>* s s' \<Longrightarrow> supervisor_ok s \<Longrightarrow> supervisor_ok s'"
  by (induction rule: rtranclp_induct) (auto dest: supervisor_step_ok)

section \<open>The admission gate\<close>


























section \<open>Permits are used once\<close>

definition spent :: "nat \<Rightarrow> handle \<Rightarrow> supervisor \<Rightarrow> bool" where
  "spent p owner s \<longleftrightarrow> p < length (sv_objects s) \<and> \<not> pm_active (sv_objects s ! p) \<and> pm_issued (sv_objects s ! p)
     \<and> pm_supervisor (sv_objects s ! p) = Some (sv_id s) \<and> pm_owner (sv_objects s ! p) = Some owner"

lemma spent_permit_move: "permit_move s s' \<Longrightarrow> spent p owner s \<Longrightarrow> spent p owner s'"
  using permit_frame_eq(9) [of s s'] by (auto simp: spent_def permit_move_def cell_moves_def dest!: spec [of _ p])

lemma spent_same:
  "sv_objects s' = sv_objects s \<Longrightarrow> sv_id s' = sv_id s \<Longrightarrow> spent p owner s' = spent p owner s"
  by (simp add: spent_def)

lemma schedule_objects:
  "sv_objects (fst (schedule k p owner stored s)) = sv_objects s \<and> sv_id (fst (schedule k p owner stored s)) = sv_id s"
proof -
  obtain s' res where "schedule k p owner stored s = (s', res)"
    by fastforce
  then show ?thesis
    by (cases rule: schedule_cases) (simp_all add: \<open>schedule k p owner stored s = (s', res)\<close>)
qed

lemma supervisor_step_spent:
  assumes "supervisor_step s s'" and "supervisor_ok s" and "spent p owner s"
  shows "spent p owner s'"
  using assms
proof (induction rule: supervisor_step.induct)
  case (Acquire owner' s nonce)
  show ?case
    by (rule spent_permit_move [OF permit_move_acquire [OF Acquire(2)] Acquire(4)])
next
  case (Release owner' s q kind allow_inactive)
  obtain s' res where "consume_permit q kind owner' allow_inactive s = (s', res)"
    by fastforce
  then show ?case
    using spent_permit_move [OF _ Release(3)] permit_move_consume by fastforce
next
  case (Promote owner' s nonce q)
  show ?case
    by (rule spent_permit_move [OF permit_move_promote [OF Promote(2)] Promote(4)])
next
  case (Lock_admit owner' s nonce q)
  show ?case
    by (rule spent_permit_move [OF permit_move_admit [OF Lock_admit(2)] Lock_admit(4)])
next
  case (Schedule owner' s k q stored)
  then show ?case
    using spent_same schedule_objects by metis
next
  case (Close_impl written s s')
  from Close_impl(1) show ?case
  proof (cases rule: close_impl_cases)
    case (cancelled ops)
    have "spent p owner (discard_operation_permits ops s)"
      using spent_permit_move [OF permit_move_discard Close_impl(3)] Close_impl(2) by (simp add: supervisor_ok_def)
    then show ?thesis
      by (simp add: cancelled(3) spent_def)
  qed (use Close_impl(3) in \<open>simp_all add: spent_def\<close>)
next
  case (Other_permit cell s)
  then show ?case
    by (simp add: spent_def nth_append)
qed (simp_all add: spent_def run_finished_def start_recovery_def start_maintenance_def create_maintenance_def
    maintenance_finished_def close_def Let_def)

lemma supervisor_steps_spent:
  "supervisor_step\<^sup>*\<^sup>* s s' \<Longrightarrow> supervisor_ok s \<Longrightarrow> spent p owner s \<Longrightarrow> spent p owner s'"
proof (induction rule: rtranclp_induct)
  case (step y z)
  then show ?case
    using supervisor_step_spent supervisor_steps_ok by blast
qed simp

text \<open>
  C19. A permit is spent once: after a release, a cleanup, a promotion or a lock wait has consumed it,
  every later use, by any Task and in either role, is refused at any later time; the owner may
  still clean it up, which changes nothing, and the cleanup by any other Task is refused.
\<close>

theorem permit_spent_once:
  assumes "supervisor_step\<^sup>*\<^sup>* (supervisor_start i states) s"
    and "consume_permit p kind owner allow s = (s1, Inr True)" and "supervisor_step\<^sup>*\<^sup>* s1 s2"
  shows "(\<exists>e. consume_permit p kind' owner' False s2 = (s2, Inl e))
    \<and> (\<exists>e. validate_permit p kind' owner' s2 = Inl e)
    \<and> consume_permit p kind' owner True s2 = (s2, Inr False)
    \<and> (owner' \<noteq> owner \<longrightarrow> (\<exists>e. consume_permit p kind' owner' True s2 = (s2, Inl e)))"
proof -
  have ok: "supervisor_ok s"
    using supervisor_steps_ok [OF assms(1)] supervisor_start_ok by blast
  from assms(2) have "spent p owner s1"
  proof (cases rule: consume_permit_cases)
    case (taken entry n)
    have "entry_ok s (n, entry)"
      using taken(4) ok by (auto simp: supervisor_ok_def permits_ok_def dest: map_of_SomeD)
    then show ?thesis
      using taken by (auto simp: spent_def consumed_def deactivate_def entry_ok_def)
  qed simp
  moreover have "supervisor_ok s1"
    using ok_permit_move [OF ok] permit_move_consume [OF assms(2)] by blast
  ultimately have "spent p owner s2"
    using supervisor_steps_spent [OF assms(3)] by blast
  then show ?thesis
    by (auto simp: spent_def consume_permit_def validate_permit_def Let_def)
qed

section \<open>Shutdown\<close>

definition nothing_new :: "supervisor \<Rightarrow> supervisor \<Rightarrow> bool" where
  "nothing_new s s' \<longleftrightarrow> sv_closing s' \<and> set (sv_permits s') \<subseteq> set (sv_permits s)
     \<and> set (sv_callbacks s') \<subseteq> set (sv_callbacks s) \<and> set (sv_maintenance s') \<subseteq> set (sv_maintenance s)
     \<and> sv_mutations s' \<le> sv_mutations s"

lemma nothing_new_refl: "sv_closing s \<Longrightarrow> nothing_new s s"
  by (simp add: nothing_new_def)

lemma nothing_new_trans: "nothing_new a b \<Longrightarrow> nothing_new b c \<Longrightarrow> nothing_new a c"
  by (auto simp: nothing_new_def)

lemma nothing_new_permits:
  assumes "permit_move s s'" and "supervisor_ok s" and "sv_closing s"
  shows "nothing_new s s'"
  using assms permit_frame_eq [of s s']
  by (auto simp: nothing_new_def permit_move_def is_accepting_def supervisor_ok_def)

lemma closing_step:
  assumes "supervisor_step s s'" and "supervisor_ok s" and "sv_closing s"
  shows "nothing_new s s'"
  using assms
proof (induction rule: supervisor_step.induct)
  case (Acquire owner s nonce)
  show ?case
    by (rule nothing_new_permits [OF permit_move_acquire [OF Acquire(2)] Acquire(3,4)])
next
  case (Release owner s q kind allow_inactive)
  obtain s' res where "consume_permit q kind owner allow_inactive s = (s', res)"
    by fastforce
  then show ?case
    using nothing_new_permits [OF _ Release(2,3)] permit_move_consume by fastforce
next
  case (Promote owner s nonce q)
  show ?case
    by (rule nothing_new_permits [OF permit_move_promote [OF Promote(2)] Promote(3,4)])
next
  case (Lock_admit owner s nonce q)
  show ?case
    by (rule nothing_new_permits [OF permit_move_admit [OF Lock_admit(2)] Lock_admit(3,4)])
next
  case (Close_impl written s s')
  have ok: "permits_ok s"
    using Close_impl(2) by (simp add: supervisor_ok_def)
  from Close_impl(1) show ?case
  proof (cases rule: close_impl_cases)
    case (cancelled ops)
    then show ?thesis
      using nothing_new_permits [OF permit_move_discard [OF ok] Close_impl(2,3)] by (simp add: nothing_new_def)
  qed (use Close_impl(3) in \<open>simp_all add: nothing_new_def\<close>)
qed (auto simp: nothing_new_def schedule_def start_recovery_def start_maintenance_def is_accepting_def
    maintenance_finished_def close_def run_finished_def Let_def split: if_splits)

lemma closing_steps:
  assumes "supervisor_step\<^sup>*\<^sup>* s s'" and "supervisor_ok s" and "sv_closing s"
  shows "nothing_new s s'"
  using assms
proof (induction rule: rtranclp_induct)
  case (step y z)
  then show ?case
    using closing_step [OF step(2)] supervisor_steps_ok [OF step(1)] nothing_new_trans
    by (meson nothing_new_def)
qed (simp add: nothing_new_refl)

text \<open>
  C18. Shutdown is final and leaves nothing behind: once it began, no permit, run or maintenance task
  is ever added and the number of callers inside never grows, and when the runtime is closed
  every run that was ever scheduled has ended, no caller is inside and no permit, run or
  maintenance task is left.
\<close>

theorem shutdown_safe:
  assumes "supervisor_step\<^sup>*\<^sup>* (supervisor_start i states) s" and "sv_closing s" and "supervisor_step\<^sup>*\<^sup>* s s'"
  shows "set (sv_permits s') \<subseteq> set (sv_permits s) \<and> set (sv_callbacks s') \<subseteq> set (sv_callbacks s)
      \<and> set (sv_maintenance s') \<subseteq> set (sv_maintenance s) \<and> sv_mutations s' \<le> sv_mutations s
    \<and> (sv_closed s' \<longrightarrow> (\<forall>k t. (k, t) \<in> set (sv_callbacks s') \<longrightarrow> t \<notin> set (sv_live s'))
         \<and> sv_mutations s' = 0 \<and> sv_permits s' = [] \<and> sv_runs s' = [] \<and> sv_maintenance s' = [])"
proof -
  have ok: "supervisor_ok s"
    using supervisor_steps_ok [OF assms(1)] supervisor_start_ok by blast
  have ok': "phase_ok s'" "runs_ok s'"
    using supervisor_steps_ok [OF assms(3) ok] by (simp_all add: supervisor_ok_def)
  have "nothing_new s s'"
    by (rule closing_steps [OF assms(3) ok assms(2)])
  moreover have "sv_mutations s' = 0 \<and> sv_permits s' = [] \<and> sv_runs s' = [] \<and> sv_maintenance s' = []" if "sv_closed s'"
    using ok'(1) that by (simp add: phase_ok_def)
  moreover have "t \<notin> set (sv_live s')" if "sv_closed s'" "(k, t) \<in> set (sv_callbacks s')" for k t
    using ok' that by (force simp: phase_ok_def runs_ok_def get_run_def)
  ultimately show ?thesis
    by (simp add: nothing_new_def)
qed

subsection \<open>Shutdown can always complete\<close>

lemma release_entry:
  assumes "supervisor_ok s" and "(n, e) \<in> set (sv_permits s)" and "pe_kind e = Mutation"
  shows "fst (consume_permit (pe_token e) Mutation (pe_owner e) False s) = consumed (pe_token e) n Mutation s"
proof -
  have ok: "permits_ok s"
    using assms(1) by (simp add: supervisor_ok_def)
  then have "map_of (sv_permits s) n = Some e" "entry_ok s (n, e)"
    using assms(2) by (auto simp: permits_ok_def)
  then have "validate_permit (pe_token e) Mutation (pe_owner e) s = Inr e" "pm_nonce (sv_objects s ! pe_token e) = Some n"
    using assms(3) by (simp_all add: validate_permit_def Let_def entry_ok_def)
  then show ?thesis
    using mutation_entry_counted [OF ok assms(2,3)] by (simp add: consume_permit_def Let_def consumed_def)
qed

lemma can_drain:
  assumes "supervisor_ok s" and "\<forall>(n, e) \<in> set (sv_permits s). pe_kind e = Mutation \<longrightarrow> pe_owner e \<in> set (sv_live s)"
  shows "\<exists>s'. supervisor_step\<^sup>*\<^sup>* s s' \<and> sv_mutations s' = 0"
  using assms
proof (induction "nat (sv_mutations s)" arbitrary: s)
  case 0
  then have "sv_mutations s = 0"
    by (simp add: supervisor_ok_def permits_ok_def)
  then show ?case
    by blast
next
  case (Suc m)
  then have "mutation_entries s \<noteq> []"
    by (auto simp: supervisor_ok_def permits_ok_def)
  then obtain n e where e: "(n, e) \<in> set (sv_permits s)" "pe_kind e = Mutation"
    by (fastforce simp: mutation_entries_def filter_empty_conv)
  let ?s = "consumed (pe_token e) n Mutation s"
  have step: "supervisor_step s ?s"
    using Release [of "pe_owner e" s "pe_token e" Mutation False] release_entry [OF Suc.prems(1) e] Suc.prems(2) e
    by auto
  then have "supervisor_ok ?s"
    using supervisor_step_ok Suc.prems(1) by blast
  moreover have "m = nat (sv_mutations ?s)"
    using Suc.hyps(2) by (simp add: consumed_def nat_diff_distrib)
  moreover have "\<forall>(n, e) \<in> set (sv_permits ?s). pe_kind e = Mutation \<longrightarrow> pe_owner e \<in> set (sv_live ?s)"
    using Suc.prems(2) by (auto simp: consumed_def delete_filter)
  ultimately obtain s' where "supervisor_step\<^sup>*\<^sup>* ?s s'" "sv_mutations s' = 0"
    using Suc.hyps(1) by blast
  then show ?case
    using step by (meson converse_rtranclp_into_rtranclp)
qed

lemma can_end_tasks: "supervisor_step\<^sup>*\<^sup>* s (s\<lparr>sv_live := filter (\<lambda>x. x \<notin> set hs) (sv_live s)\<rparr>)"
proof (induction hs)
  case (Cons h hs)
  let ?s = "s\<lparr>sv_live := filter (\<lambda>x. x \<notin> set hs) (sv_live s)\<rparr>"
  have "filter (\<lambda>x. x \<notin> set (h # hs)) (sv_live s) = filter (\<lambda>x. x \<noteq> h) (sv_live ?s)"
    by (auto intro: filter_cong)
  then have "supervisor_step ?s (s\<lparr>sv_live := filter (\<lambda>x. x \<notin> set (h # hs)) (sv_live s)\<rparr>)"
    using Task_ends [of ?s h] by simp
  then show ?case
    using Cons by simp
qed simp

fun phase_rank :: "close_phase \<Rightarrow> nat" where
  "phase_rank Not_closing = 7"
| "phase_rank Close_requested = 6"
| "phase_rank (Cancelling _) = 5"
| "phase_rank Draining = 4"
| "phase_rank Drained = 3"
| "phase_rank (Stopping _ _) = 2"
| "phase_rank (Ending _) = 1"
| "phase_rank Close_done = 0"

lemma can_finish:
  assumes "sv_mutations s = 0" and "sv_live s = []"
  shows "\<exists>s'. supervisor_step\<^sup>*\<^sup>* s s' \<and> sv_phase s' = Close_done"
  using assms
proof (induction "phase_rank (sv_phase s)" arbitrary: s rule: less_induct)
  case less
  show ?case
  proof (cases "sv_phase s = Close_done")
    case False
    have "\<exists>s1. supervisor_step s s1 \<and> sv_mutations s1 = 0 \<and> sv_live s1 = []
        \<and> phase_rank (sv_phase s1) < phase_rank (sv_phase s)"
    proof (cases "sv_phase s = Not_closing")
      case True
      then show ?thesis
        using Close [of s] less.prems by (intro exI [of _ "close s"]) (simp add: close_def)
    next
      case nc: False
      obtain s1 where s1: "close_impl (\<lambda>_. True) s = Some s1"
        using False nc less.prems by (cases "sv_phase s") (simp_all add: close_impl_def all_done_def)
      then have "sv_mutations s1 = 0 \<and> sv_live s1 = [] \<and> phase_rank (sv_phase s1) < phase_rank (sv_phase s)"
        using less.prems by (cases rule: close_impl_cases)
          (simp_all add: discard_operation_permits_def Let_def)
      then show ?thesis
        using Close_impl [OF s1] by blast
    qed
    then show ?thesis
      using less.hyps by (meson converse_rtranclp_into_rtranclp)
  qed blast
qed

text \<open>
  From every reachable state in which the callers inside are still running there is a way to the
  closed runtime, in which the callers leave, the Tasks end and the shutdown runs through.  The
  waits are guards of the steps, so this says nothing of a wake-up that \<open>notify_all\<close> would miss.
\<close>

lemma shutdown_can_complete:
  assumes "supervisor_step\<^sup>*\<^sup>* (supervisor_start i states) s"
    and "\<forall>(n, e) \<in> set (sv_permits s). pe_kind e = Mutation \<longrightarrow> pe_owner e \<in> set (sv_live s)"
  shows "\<exists>s'. supervisor_step\<^sup>*\<^sup>* s s' \<and> sv_closed s'"
proof -
  have ok: "supervisor_ok s"
    using supervisor_steps_ok [OF assms(1)] supervisor_start_ok by blast
  obtain s1 where s1: "supervisor_step\<^sup>*\<^sup>* s s1" "sv_mutations s1 = 0"
    using can_drain [OF ok assms(2)] by blast
  let ?s2 = "s1\<lparr>sv_live := filter (\<lambda>x. x \<notin> set (sv_live s1)) (sv_live s1)\<rparr>"
  have s2: "supervisor_step\<^sup>*\<^sup>* s ?s2"
    using s1(1) can_end_tasks [of s1 "sv_live s1"] by (rule rtranclp_trans)
  have "sv_live ?s2 = []" "sv_mutations ?s2 = 0"
    using s1(2) by simp_all
  then obtain s3 where s3: "supervisor_step\<^sup>*\<^sup>* ?s2 s3" "sv_phase s3 = Close_done"
    using can_finish [of ?s2] by blast
  have steps: "supervisor_step\<^sup>*\<^sup>* s s3"
    using s2 s3(1) by (rule rtranclp_trans)
  then have "phase_ok s3"
    using supervisor_steps_ok [OF _ ok] by (simp add: supervisor_ok_def)
  then show ?thesis
    using steps s3(2) by (auto simp: phase_ok_def)
qed

section \<open>Instances\<close>

definition sample_start :: supervisor where
  "sample_start = supervisor_start 1 [str ''t'' \<mapsto> TS_pending]"

definition sample_inside :: supervisor where
  "sample_inside = fst (acquire_mutation 0 77 (sample_start\<lparr>sv_next := 1, sv_live := [0]\<rparr>))"

definition sample_launched :: supervisor where
  "sample_launched = fst (schedule (str ''t'') 0 0 None sample_inside)"

lemma sample_inside_reached: "supervisor_step\<^sup>*\<^sup>* sample_start sample_inside"
proof -
  let ?s = "sample_start\<lparr>sv_next := 1, sv_live := [0]\<rparr>"
  have "supervisor_step sample_start ?s"
    using Task_starts [of sample_start] by (simp add: sample_start_def supervisor_start_def)
  moreover have "supervisor_step ?s sample_inside"
    using Acquire [of 0 ?s 77] by (simp add: sample_inside_def sample_start_def supervisor_start_def)
  ultimately show ?thesis
    by (meson rtranclp.rtrancl_into_rtrancl rtranclp.rtrancl_refl)
qed

lemmas sample_defs = sample_inside_def sample_start_def supervisor_start_def acquire_mutation_def mint_permit_def
  is_accepting_def Let_def

lemma sample_inside_fields:
  "sv_live sample_inside = [0]" "sv_mutations sample_inside = 1" "sv_runs sample_inside = []" "sv_next sample_inside = 1"
  "sv_permits sample_inside = [(77, \<lparr>pe_token = 0, pe_owner = 0, pe_kind = Mutation\<rparr>)]"
  "sv_registry sample_inside = []" "sv_states sample_inside = [str ''t'' \<mapsto> TS_pending]"
  "sv_closing sample_inside = False" "sv_closed sample_inside = False" "sv_callbacks sample_inside = []"
  "sv_phase sample_inside = Not_closing" "sv_maintenance sample_inside = []"
  "validate_permit 0 Mutation 0 sample_inside = Inr \<lparr>pe_token = 0, pe_owner = 0, pe_kind = Mutation\<rparr>"
  by (simp_all add: sample_defs validate_permit_def)

lemma sample_launched_reached: "supervisor_step\<^sup>*\<^sup>* sample_start sample_launched"
  using sample_inside_reached Schedule [of 0 sample_inside "str ''t''" 0 None]
  by (simp add: sample_launched_def sample_inside_fields rtranclp.rtrancl_into_rtrancl)

lemma sample_launched_fields:
  "sample_launched = sample_inside\<lparr>sv_next := 2, sv_registry := [(str ''t'', \<lparr>lr_task = 1, lr_cancel_requested = False\<rparr>)],
     sv_states := [str ''t'' \<mapsto> TS_running], sv_runs := [(str ''t'', 1)], sv_callbacks := [(str ''t'', 1)],
     sv_live := [1, 0]\<rparr>"
  by (simp add: sample_launched_def schedule_def record_running_def live_register_def sample_inside_fields
      get_run_def is_accepting_def Let_def)


theorem permit_spent_once_witness:
  "\<exists>s. consume_permit 0 Mutation 0 False sample_inside = (s, Inr True)
    \<and> (\<exists>e. consume_permit 0 Mutation 0 False (close s) = (close s, Inl e))
    \<and> consume_permit 0 Mutation 0 True (close s) = (close s, Inr False)
    \<and> (\<exists>e. consume_permit 0 Mutation 5 True (close s) = (close s, Inl e))"
proof -
  obtain s where s: "consume_permit 0 Mutation 0 False sample_inside = (s, Inr True)"
    by (simp add: consume_permit_def sample_inside_fields Let_def)
  have "supervisor_step\<^sup>*\<^sup>* s (close s)"
    using Close by blast
  then show ?thesis
    using permit_spent_once [OF sample_inside_reached [unfolded sample_start_def] s,
        where ?s2.0 = "close s" and kind' = Mutation]
      s by (metis zero_neq_numeral)
qed

theorem shutdown_safe_witness:
  "\<exists>s s'. sv_closing s \<and> supervisor_step\<^sup>*\<^sup>* s s' \<and> sv_closed s' \<and> sv_runs s' = [] \<and> sv_permits s' = []
    \<and> set (sv_callbacks s') \<subseteq> {(str ''t'', 1)}"
proof -
  let ?c = "(close sample_launched)\<lparr>sv_closing := True, sv_phase := Cancelling (operation_owners (close sample_launched))\<rparr>"
  have phase: "sv_phase (close sample_launched) = Close_requested"
    by (simp add: close_def sample_launched_fields sample_inside_fields)
  have "supervisor_step sample_launched (close sample_launched)" "supervisor_step (close sample_launched) ?c"
    using Close Close_impl [of "\<lambda>_. True" "close sample_launched" ?c] phase by (simp_all add: close_impl_def)
  then have c: "supervisor_step\<^sup>*\<^sup>* sample_start ?c"
    using sample_launched_reached by (meson rtranclp.rtrancl_into_rtrancl)
  have "\<forall>(n, e) \<in> set (sv_permits ?c). pe_kind e = Mutation \<longrightarrow> pe_owner e \<in> set (sv_live ?c)"
    by (simp add: close_def sample_launched_fields sample_inside_fields)
  then obtain s' where s': "supervisor_step\<^sup>*\<^sup>* ?c s'" "sv_closed s'"
    using shutdown_can_complete [OF c [unfolded sample_start_def]] by blast
  have "sv_closing ?c" "sv_callbacks ?c = [(str ''t'', 1)]"
    by (simp_all add: close_def sample_launched_fields sample_inside_fields)
  then show ?thesis
    using shutdown_safe [OF c [unfolded sample_start_def] _ s'(1)] s' by (intro exI [of _ ?c] exI [of _ s']) auto
qed

definition sample_over :: supervisor where
  "sample_over = sample_launched\<lparr>sv_states := [str ''t'' \<mapsto> TS_completed], sv_live := [0]\<rparr>"

definition sample_successor :: supervisor where
  "sample_successor = fst (schedule (str ''t'') 0 0 None sample_over)"

lemma sample_over_fields:
  "sv_live sample_over = [0]" "sv_runs sample_over = [(str ''t'', 1)]" "sv_next sample_over = 2"
  "sv_registry sample_over = [(str ''t'', \<lparr>lr_task = 1, lr_cancel_requested = False\<rparr>)]"
  "sv_states sample_over = [str ''t'' \<mapsto> TS_completed]" "sv_closing sample_over = False"
  "sv_closed sample_over = False" "sv_callbacks sample_over = [(str ''t'', 1)]"
  "validate_permit 0 Mutation 0 sample_over = Inr \<lparr>pe_token = 0, pe_owner = 0, pe_kind = Mutation\<rparr>"
  by (simp_all add: sample_over_def sample_launched_fields sample_defs validate_permit_def)

lemma sample_successor_fields:
  "sample_successor = sample_over\<lparr>sv_next := 3, sv_registry := [(str ''t'', \<lparr>lr_task = 2, lr_cancel_requested = False\<rparr>)],
     sv_states := [str ''t'' \<mapsto> TS_running], sv_runs := [(str ''t'', 2)],
     sv_callbacks := [(str ''t'', 2), (str ''t'', 1)], sv_live := [2, 0]\<rparr>"
  by (simp add: sample_successor_def schedule_def record_running_def live_register_def sample_over_fields
      get_run_def is_accepting_def Let_def)

lemma sample_successor_reached: "supervisor_step\<^sup>*\<^sup>* sample_start sample_successor"
proof -
  let ?a = "sample_launched\<lparr>sv_states := [str ''t'' \<mapsto> TS_completed]\<rparr>"
  have "supervisor_step sample_launched ?a"
    using Record_moves [of sample_launched "str ''t''" "Some TS_completed"] by (simp add: sample_launched_fields)
  moreover have "supervisor_step ?a sample_over"
    using Task_ends [of ?a 1] by (simp add: sample_over_def sample_launched_fields)
  moreover have "supervisor_step sample_over sample_successor"
    using Schedule [of 0 sample_over "str ''t''" 0 None] by (simp add: sample_successor_def sample_over_fields)
  ultimately show ?thesis
    using sample_launched_reached by (meson rtranclp.rtrancl_into_rtrancl)
qed

text \<open>
  C20. A failed run interrupts its successor: in any state in which the completion callback of a
  failed run is pending while another run of the same task is registered, live and recorded as
  running, the callback (its write being stored) leaves that run live and registered with the
  supervisor but marks the running task interrupted and forgets its handle, so that a request to
  cancel it finds no run any more.
\<close>

theorem late_failure_interrupts_successor:
  assumes "(k, t) \<in> set (sv_callbacks s)" and "t \<notin> set (sv_live s)"
    and "get_run k s = Some u" and "u \<in> set (sv_live s)" and "sv_states s k = Some TS_running"
    and "perform_call (SC_run_finished k t True True) s = (s', l)"
  shows "supervisor_step s s' \<and> get_run k s' = Some u \<and> u \<in> set (sv_live s')
    \<and> sv_states s' k = Some TS_interrupted \<and> live_get_task k (sv_registry s') = None
    \<and> live_request_cancel k (sv_registry s') = (sv_registry s', None)"
proof -
  have "call_enabled (SC_run_finished k t True True) s"
    using assms(1,2) by simp
  then have "supervisor_step s s'"
    using assms(6) unfolding supervisor_step_call by (intro exI [of _ "SC_run_finished k t True True"]) simp
  moreover have "u \<noteq> t"
    using assms(2,4) by blast
  ultimately show ?thesis
    using assms(3-6)
    by (auto simp: run_finished_def finalize_interrupted_def live_discard_def live_get_task_def live_request_cancel_def
        get_run_def Let_def delete_conv')
qed

text \<open>The successor of the sample was scheduled before the callback of the failed run.\<close>

theorem late_failure_interrupts_successor_witness:
  "\<exists>s'. supervisor_step\<^sup>*\<^sup>* sample_start sample_successor \<and> supervisor_step sample_successor s'
    \<and> get_run (str ''t'') s' = Some 2 \<and> 2 \<in> set (sv_live s') \<and> sv_states s' (str ''t'') = Some TS_interrupted"
proof -
  obtain s' l where "perform_call (SC_run_finished (str ''t'') 1 True True) sample_successor = (s', l)"
    by fastforce
  from late_failure_interrupts_successor [OF _ _ _ _ _ this, of 2] show ?thesis
    using sample_successor_reached by (auto simp: sample_successor_fields get_run_def)
qed

end
