(* ===== verification/Wire_Codec.thy ===== *)
theory Wire_Codec
  imports Json_Parse
begin

text \<open>
  The byte codecs of the standard library that the Gateway protocol uses: strict UTF-8,
  \<open>base64.urlsafe_b64encode\<close> and \<open>base64.b64decode(..., altchars=b"-_", validate=True)\<close>, and
  \<open>datetime.isoformat\<close> of a UTC instant.  A byte is a number below 256.
\<close>

section \<open>UTF-8\<close>

definition utf8_char :: "nat \<Rightarrow> nat list" where
  "utf8_char c =
     (if c < 128 then [c]
      else if c < 2048 then [192 + c div 64, 128 + c mod 64]
      else if c < 65536 then [224 + c div 4096, 128 + c div 64 mod 64, 128 + c mod 64]
      else [240 + c div 262144, 128 + c div 4096 mod 64, 128 + c div 64 mod 64, 128 + c mod 64])"

definition utf8_bytes :: "pystr \<Rightarrow> nat list" where
  "utf8_bytes s = concat (map utf8_char s)"

text \<open>\<open>str.encode("utf-8")\<close>: a lone surrogate has no encoding.\<close>

definition utf8_encode :: "pystr \<Rightarrow> nat list option" where
  "utf8_encode s = (if list_ex (\<lambda>c. 55296 \<le> c \<and> c \<le> 57343) s then None else Some (utf8_bytes s))"

definition continuation :: "nat \<Rightarrow> bool" where
  "continuation b \<longleftrightarrow> 128 \<le> b \<and> b < 192"

text \<open>One character; overlong forms, surrogates and code points beyond U+10FFFF are errors.\<close>

definition utf8_next :: "nat list \<Rightarrow> (nat \<times> nat list) option" where
  "utf8_next bs =
     (case bs of
        [] \<Rightarrow> None
      | b # r \<Rightarrow>
          if b < 128 then Some (b, r)
          else if 194 \<le> b \<and> b \<le> 223 then
            (case r of
               x # r' \<Rightarrow> if continuation x then Some ((b - 192) * 64 + (x - 128), r') else None
             | _ \<Rightarrow> None)
          else if 224 \<le> b \<and> b \<le> 239 then
            (case r of
               x # y # r' \<Rightarrow>
                 let c = (b - 224) * 4096 + (x - 128) * 64 + (y - 128)
                 in if continuation x \<and> continuation y \<and> 2048 \<le> c \<and> \<not> (55296 \<le> c \<and> c \<le> 57343)
                    then Some (c, r') else None
             | _ \<Rightarrow> None)
          else if 240 \<le> b \<and> b \<le> 244 then
            (case r of
               x # y # z # r' \<Rightarrow>
                 let c = (b - 240) * 262144 + (x - 128) * 4096 + (y - 128) * 64 + (z - 128)
                 in if continuation x \<and> continuation y \<and> continuation z \<and> 65536 \<le> c \<and> c < 1114112
                    then Some (c, r') else None
             | _ \<Rightarrow> None)
          else None)"

lemma utf8_next_length: "utf8_next bs = Some (c, r) \<Longrightarrow> length r < length bs"
  by (auto simp: utf8_next_def Let_def split: list.splits if_splits)

function utf8_decode :: "nat list \<Rightarrow> pystr option" where
  "utf8_decode bs =
     (if bs = [] then Some []
      else case utf8_next bs of
             None \<Rightarrow> None
           | Some (c, r) \<Rightarrow> map_option ((#) c) (utf8_decode r))"
  by pat_completeness auto
termination
  by (relation "measure length") (auto dest: utf8_next_length)

declare utf8_decode.simps [simp del]

lemma digits64:
  fixes c :: nat
  shows "c div 4096 * 4096 + c div 64 mod 64 * 64 + c mod 64 = c"
    and "c div 262144 * 262144 + c div 4096 mod 64 * 4096 + c div 64 mod 64 * 64 + c mod 64 = c"
proof -
  have d: "c div 64 div 64 = c div 4096" "c div 4096 div 64 = c div 262144"
    by (simp_all add: div_mult2_eq [symmetric])
  have "c div 64 * 64 + c mod 64 = c" "c div 4096 * 64 + c div 64 mod 64 = c div 64"
    "c div 262144 * 64 + c div 4096 mod 64 = c div 4096"
    using div_mult_mod_eq [of c 64] div_mult_mod_eq [of "c div 64" 64] div_mult_mod_eq [of "c div 4096" 64]
    by (simp_all add: d)
  then show "c div 4096 * 4096 + c div 64 mod 64 * 64 + c mod 64 = c"
    and "c div 262144 * 262144 + c div 4096 mod 64 * 4096 + c div 64 mod 64 * 64 + c mod 64 = c"
    by linarith+
qed

lemma utf8_next_char:
  assumes "c < 1114112" and "\<not> (55296 \<le> c \<and> c \<le> 57343)"
  shows "utf8_next (utf8_char c @ r) = Some (c, r)"
proof -
  consider "c < 128" | "128 \<le> c" "c < 2048" | "2048 \<le> c" "c < 65536" | "65536 \<le> c"
    by linarith
  then show ?thesis
  proof cases
    case 1
    then show ?thesis by (simp add: utf8_next_def utf8_char_def)
  next
    case 2
    then have "2 \<le> c div 64" "c div 64 < 32"
      by (simp_all add: less_eq_div_iff_mult_less_eq div_less_iff_less_mult)
    then show ?thesis using 2 by (simp add: utf8_next_def utf8_char_def continuation_def)
  next
    case 3
    note sum = digits64(1) [of c]
    have "c div 4096 < 16" using 3 by (simp add: div_less_iff_less_mult)
    then show ?thesis
      using 3 sum assms(2) by (simp add: utf8_next_def utf8_char_def continuation_def Let_def)
  next
    case 4
    note sum = digits64(2) [of c]
    have "c div 262144 < 5" using assms(1) by (simp add: div_less_iff_less_mult)
    then show ?thesis
      using 4 sum assms by (simp add: utf8_next_def utf8_char_def continuation_def Let_def)
  qed
qed

lemma utf8_bytes_Cons: "utf8_bytes (c # s) = utf8_char c @ utf8_bytes s"
  by (simp add: utf8_bytes_def)

lemma utf8_bytes_append: "utf8_bytes (s @ t) = utf8_bytes s @ utf8_bytes t"
  by (simp add: utf8_bytes_def)

lemma utf8_char_nonempty: "utf8_char c \<noteq> []"
  by (simp add: utf8_char_def)

lemma utf8_decode_bytes: "scalar_text s \<Longrightarrow> utf8_decode (utf8_bytes s) = Some s"
proof (induction s)
  case Nil
  show ?case by (subst utf8_decode.simps) (simp add: utf8_bytes_def)
next
  case (Cons c s)
  then have "utf8_next (utf8_char c @ utf8_bytes s) = Some (c, utf8_bytes s)"
    by (intro utf8_next_char) (auto simp: scalar_text_def)
  then show ?case
    using Cons by (subst utf8_decode.simps) (simp add: utf8_bytes_Cons utf8_char_nonempty scalar_text_def)
qed

text \<open>A byte below 128 is always a character of its own.\<close>

lemma utf8_ascii_byte: "b \<in> set (utf8_char c) \<Longrightarrow> b < 128 \<Longrightarrow> b = c"
  by (auto simp: utf8_char_def split: if_splits)

lemma utf8_ascii: "\<forall>c \<in> set s. c < 128 \<Longrightarrow> utf8_bytes s = s"
  by (induction s) (auto simp: utf8_bytes_def utf8_char_def)

section \<open>Base64\<close>

definition b64_symbol :: "nat \<Rightarrow> nat" where
  "b64_symbol v =
     (if v < 26 then 65 + v else if v < 52 then 71 + v else if v < 62 then v - 4 else if v = 62 then 45 else 95)"

text \<open>The alphabet after \<open>altchars\<close> was translated, which leaves \<open>+\<close> and \<open>/\<close> valid.\<close>

definition b64_value :: "nat \<Rightarrow> nat option" where
  "b64_value c =
     (if 65 \<le> c \<and> c \<le> 90 then Some (c - 65)
      else if 97 \<le> c \<and> c \<le> 122 then Some (c - 71)
      else if 48 \<le> c \<and> c \<le> 57 then Some (c + 4)
      else if c = 43 \<or> c = 45 then Some 62
      else if c = 47 \<or> c = 95 then Some 63
      else None)"

fun b64_encode :: "nat list \<Rightarrow> pystr" where
  "b64_encode [] = []"
| "b64_encode [a] = [b64_symbol (a div 4), b64_symbol (a mod 4 * 16), 61, 61]"
| "b64_encode [a, b] = [b64_symbol (a div 4), b64_symbol (a mod 4 * 16 + b div 16), b64_symbol (b mod 16 * 4), 61]"
| "b64_encode (a # b # c # r) =
     [b64_symbol (a div 4), b64_symbol (a mod 4 * 16 + b div 16), b64_symbol (b mod 16 * 4 + c div 64),
      b64_symbol (c mod 64)] @ b64_encode r"

text \<open>
  \<open>binascii.a2b_base64\<close> in strict mode: the position in the quad, the bits carried over, the
  number of pads and whether padding has started.
\<close>

fun b64_scan :: "nat \<Rightarrow> nat \<Rightarrow> nat \<Rightarrow> bool \<Rightarrow> pystr \<Rightarrow> nat list option" where
  "b64_scan quad left pads started [] = (if quad = 0 then Some [] else None)"
| "b64_scan quad left pads started (c # s) =
     (if c = 61 then
        if quad = 0 then None
        else if quad \<ge> 2 \<and> quad + Suc pads \<ge> 4 then (if s = [] then Some [] else None)
        else b64_scan quad left (if quad \<ge> 2 then Suc pads else pads) True s
      else (case b64_value c of
              None \<Rightarrow> None
            | Some v \<Rightarrow>
                if started then None
                else if quad = 0 then b64_scan 1 v 0 started s
                else if quad = 1 then map_option ((#) (left * 4 + v div 16)) (b64_scan 2 (v mod 16) 0 started s)
                else if quad = 2 then map_option ((#) (left * 16 + v div 4)) (b64_scan 3 (v mod 4) 0 started s)
                else map_option ((#) (left * 64 + v)) (b64_scan 0 0 0 started s)))"

definition b64_decode :: "pystr \<Rightarrow> nat list option" where
  "b64_decode s = b64_scan 0 0 0 False s"

lemma b64_value_symbol: "v < 64 \<Longrightarrow> b64_value (b64_symbol v) = Some v"
  by (auto simp: b64_value_def b64_symbol_def)

lemma b64_symbol_not_pad: "v < 64 \<Longrightarrow> b64_symbol v \<noteq> 61"
  by (auto simp: b64_symbol_def)

lemma b64_decode_encode: "\<forall>b \<in> set bs. b < 256 \<Longrightarrow> b64_decode (b64_encode bs) = Some bs"
proof (induction bs rule: b64_encode.induct)
  case (2 a)
  have "a div 4 < 64" "a mod 4 * 16 < 64" "a div 4 * 4 + a mod 4 * 16 div 16 = a" using 2 by auto
  then show ?case by (simp add: b64_decode_def b64_value_symbol b64_symbol_not_pad)
next
  case (3 a b)
  have "a div 4 < 64" "b div 16 < 16" "b mod 16 * 4 < 64" using 3 by auto
  moreover from this have "a mod 4 * 16 + b div 16 < 64" using mod_less_divisor [of 4 a] by linarith
  moreover have "a div 4 * 4 + (a mod 4 * 16 + b div 16) div 16 = a" "(a mod 4 * 16 + b div 16) mod 16 = b div 16"
    using 3 by auto
  moreover have "b div 16 * 16 + b mod 16 * 4 div 4 = b" by simp
  ultimately show ?case by (simp add: b64_decode_def b64_value_symbol b64_symbol_not_pad)
next
  case (4 a b c r)
  have "a div 4 < 64" "b div 16 < 16" "c div 64 < 4" "c mod 64 < 64" using 4(2) by auto
  moreover from this have "a mod 4 * 16 + b div 16 < 64" "b mod 16 * 4 + c div 64 < 64"
    using mod_less_divisor [of 4 a] mod_less_divisor [of 16 b] by linarith+
  moreover have "a div 4 * 4 + (a mod 4 * 16 + b div 16) div 16 = a" "(a mod 4 * 16 + b div 16) mod 16 = b div 16"
    "b div 16 * 16 + (b mod 16 * 4 + c div 64) div 4 = b" "(b mod 16 * 4 + c div 64) mod 4 = c div 64"
    "c div 64 * 64 + c mod 64 = c"
    using 4(2) by auto
  moreover have "b64_scan 0 0 0 False (b64_encode r) = Some r"
    using 4 by (simp add: b64_decode_def)
  ultimately show ?case by (simp add: b64_decode_def b64_value_symbol b64_symbol_not_pad)
qed (simp add: b64_decode_def)

text \<open>\<open>rstrip("=")\<close> and the padding that \<open>"=" * (-len(s) % 4)\<close> puts back.\<close>

definition rstrip_char :: "nat \<Rightarrow> pystr \<Rightarrow> pystr" where
  "rstrip_char c s = rev (dropWhile (\<lambda>x. x = c) (rev s))"

definition b64_pad :: "pystr \<Rightarrow> pystr" where
  "b64_pad s = s @ replicate (nat ((- int (length s)) mod 4)) 61"

lemma rstrip_append:
  "\<forall>x \<in> set s. x \<noteq> c \<Longrightarrow> rstrip_char c (s @ t) = s @ rstrip_char c t"
proof (cases "dropWhile (\<lambda>x. x = c) (rev t) = []")
  case True
  moreover assume "\<forall>x \<in> set s. x \<noteq> c"
  moreover from this have "dropWhile (\<lambda>x. x = c) (rev s) = rev s"
    by (cases "rev s") (auto simp: dropWhile_eq_self_iff)
  ultimately show ?thesis by (simp add: rstrip_char_def dropWhile_append)
next
  case False
  then show ?thesis by (auto simp: rstrip_char_def dropWhile_append)
qed

lemma b64_pad_strip: "\<forall>b \<in> set bs. b < 256 \<Longrightarrow> b64_pad (rstrip_char 61 (b64_encode bs)) = b64_encode bs"
proof (induction bs rule: b64_encode.induct)
  case (2 a)
  then have "b64_symbol (a div 4) \<noteq> 61" "b64_symbol (a mod 4 * 16) \<noteq> 61" by (auto intro!: b64_symbol_not_pad)
  then show ?case by (simp add: rstrip_char_def b64_pad_def numeral_2_eq_2)
next
  case (3 a b)
  then have "a mod 4 * 16 + b div 16 < 64" by auto
  then have "b64_symbol (a div 4) \<noteq> 61" "b64_symbol (a mod 4 * 16 + b div 16) \<noteq> 61" "b64_symbol (b mod 16 * 4) \<noteq> 61"
    using 3 by (auto intro!: b64_symbol_not_pad)
  then show ?case by (simp add: rstrip_char_def b64_pad_def)
next
  case (4 a b c r)
  let ?q = "[b64_symbol (a div 4), b64_symbol (a mod 4 * 16 + b div 16), b64_symbol (b mod 16 * 4 + c div 64),
      b64_symbol (c mod 64)]"
  have "a mod 4 * 16 + b div 16 < 64" "b mod 16 * 4 + c div 64 < 64" "a div 4 < 64"
    using 4(2) by auto
  then have "\<forall>x \<in> set ?q. x \<noteq> 61"
    by (auto intro!: b64_symbol_not_pad)
  then have "rstrip_char 61 (b64_encode (a # b # c # r)) = ?q @ rstrip_char 61 (b64_encode r)"
    using rstrip_append [of ?q 61 "b64_encode r"] by simp
  moreover have "b64_pad (?q @ t) = ?q @ b64_pad t" for t
  proof -
    have "(- int (length (?q @ t))) mod 4 = (- int (length t)) mod 4" by simp presburger
    then show ?thesis by (simp add: b64_pad_def)
  qed
  ultimately show ?case using 4 by simp
qed (simp add: rstrip_char_def b64_pad_def)

end
