(* ===== verification/Wire_Projection.thy ===== *)
theory Wire_Projection
  imports Wire_Codec Task_Model
begin

text \<open>
  The public projection of a Task record onto Gateway events: \<open>gateway_protocol/projection.py\<close>
  with the limits of \<open>gateway_protocol/contracts.py\<close>, and the event cursor of
  \<open>gateway_protocol/cursor.py\<close>.  Event data is a JSON object, an instant is printed by
  \<open>isoformat\<close>.  The matching of LangGraph stream parts is not modelled.
\<close>

section \<open>Limits\<close>

definition max_event_text_length :: nat where "max_event_text_length = 256 * 1024"
definition max_lifecycle_text_json_bytes :: nat where "max_lifecycle_text_json_bytes = 128 * 1024"
definition max_durable_task_event_data_bytes :: nat where "max_durable_task_event_data_bytes = 512 * 1024"
definition max_pending_review_json_bytes :: nat where "max_pending_review_json_bytes = 64 * 1024"
definition max_artifact_list_json_bytes :: nat where "max_artifact_list_json_bytes = 128 * 1024"
definition max_artifact_caption_json_bytes :: nat where "max_artifact_caption_json_bytes = 32 * 1024"
definition max_short_event_text_length :: nat where "max_short_event_text_length = 4096"
definition max_short_event_text_json_bytes :: nat where "max_short_event_text_json_bytes = 8 * 1024"
definition max_review_items :: nat where "max_review_items = 100"
definition max_review_decisions :: nat where "max_review_decisions = 20"
definition max_event_artifacts :: nat where "max_event_artifacts = 1000"
definition max_task_event_cursor_length :: nat where "max_task_event_cursor_length = 4096"
definition task_event_cursor_version :: int where "task_event_cursor_version = 1"

lemmas wire_limits = max_event_text_length_def max_lifecycle_text_json_bytes_def
  max_durable_task_event_data_bytes_def max_pending_review_json_bytes_def max_artifact_list_json_bytes_def
  max_artifact_caption_json_bytes_def max_short_event_text_length_def max_short_event_text_json_bytes_def
  max_review_items_def max_review_decisions_def max_event_artifacts_def

section \<open>ISO instants\<close>

text \<open>
  \<open>datetime.isoformat\<close> of a UTC instant in microseconds since 1970: the proleptic Gregorian date of
  its day, counted in eras of 400 years from March of year 0.
\<close>

definition civil_of_days :: "int \<Rightarrow> int \<times> int \<times> int" where
  "civil_of_days days =
     (let z = days + 719468; era = z div 146097; doe = z mod 146097;
          yoe = (doe - doe div 1460 + doe div 36524 - doe div 146096) div 365;
          doy = doe - (365 * yoe + yoe div 4 - yoe div 100);
          mp = (5 * doy + 2) div 153;
          d = doy - (153 * mp + 2) div 5 + 1;
          m = (if mp < 10 then mp + 3 else mp - 9)
      in (yoe + era * 400 + (if m \<le> 2 then 1 else 0), m, d))"

definition pad :: "nat \<Rightarrow> int \<Rightarrow> pystr" where
  "pad w n = (let ds = dec n in replicate (w - length ds) 48 @ ds)"

definition isoformat :: "int \<Rightarrow> pystr" where
  "isoformat t =
     (let (y, m, d) = civil_of_days (t div 86400000000); us = t mod 86400000000;
          s = us div 1000000; f = us mod 1000000
      in pad 4 y @ [45] @ pad 2 m @ [45] @ pad 2 d @ [84] @ pad 2 (s div 3600) @ [58]
         @ pad 2 (s div 60 mod 60) @ [58] @ pad 2 (s mod 60)
         @ (if f = 0 then [] else [46] @ pad 6 f) @ str ''+00:00'')"

text \<open>The instants \<open>datetime\<close> can represent: years 1 to 9999.\<close>

definition datetime_ok :: "int \<Rightarrow> bool" where
  "datetime_ok t \<longleftrightarrow> - 62135596800000000 \<le> t \<and> t < 253402300800000000"

section \<open>Bounded text\<close>

text \<open>
  The length of \<open>json.dumps(value, ensure_ascii=False, ...).encode("utf-8")\<close>.  The encoding fails
  on lone surrogates, which \<open>normalize_task_event_text\<close> removes from everything measured here.
\<close>

definition json_encoded_size :: "json \<Rightarrow> nat" where
  "json_encoded_size v = length (utf8_bytes (dumps_wire v))"

definition normalize_task_event_text :: "pystr \<Rightarrow> pystr" where
  "normalize_task_event_text s =
     (if \<not> list_ex (\<lambda>c. 55296 \<le> c \<and> c \<le> 57343) s then s
      else map (\<lambda>c. if 55296 \<le> c \<and> c \<le> 57343 then 65533 else c) s)"

function fit_prefix :: "pystr \<Rightarrow> nat \<Rightarrow> nat \<Rightarrow> nat \<Rightarrow> nat" where
  "fit_prefix candidate max_json_bytes low high =
     (if low < high then
        let midpoint = (low + high + 1) div 2
        in if json_encoded_size (J_str (take midpoint candidate)) \<le> max_json_bytes
           then fit_prefix candidate max_json_bytes midpoint high
           else fit_prefix candidate max_json_bytes low (midpoint - 1)
      else low)"
  by pat_completeness auto
termination
  by (relation "measure (\<lambda>(c, m, low, high). high - low)") auto

declare fit_prefix.simps [simp del]

definition bounded_text :: "nat \<Rightarrow> nat \<Rightarrow> pystr option \<Rightarrow> pystr option \<times> bool" where
  "bounded_text max_chars max_json_bytes value =
     (case value of
        None \<Rightarrow> (None, False)
      | Some text \<Rightarrow>
          let normalized = normalize_task_event_text text;
              candidate = take max_chars normalized;
              truncated = (normalized \<noteq> text \<or> length candidate \<noteq> length normalized)
          in if json_encoded_size (J_str candidate) \<le> max_json_bytes then (Some candidate, truncated)
             else (Some (take (fit_prefix candidate max_json_bytes 0 (length candidate)) candidate), True))"

definition bounded_short :: "pystr \<Rightarrow> pystr \<times> bool" where
  "bounded_short text =
     (case bounded_text max_short_event_text_length max_short_event_text_json_bytes (Some text) of
        (bounded, truncated) \<Rightarrow> (case bounded of None \<Rightarrow> [] | Some t \<Rightarrow> t, truncated))"

definition json_opt :: "pystr option \<Rightarrow> json" where
  "json_opt t = (case t of None \<Rightarrow> J_null | Some s \<Rightarrow> J_str s)"

section \<open>Reviews and artifacts\<close>

definition nonempty_str :: "pyval \<Rightarrow> pystr option" where
  "nonempty_str v = (case v of PStr s \<Rightarrow> if s = [] then None else Some s | _ \<Rightarrow> None)"

fun project_decisions :: "pyval list \<Rightarrow> bool \<Rightarrow> json list \<times> bool" where
  "project_decisions [] truncated = ([], truncated)"
| "project_decisions (choice # rest) truncated =
     (case nonempty_str choice of
        None \<Rightarrow> project_decisions rest True
      | Some s \<Rightarrow>
          (case bounded_short s of (t, tr) \<Rightarrow>
             (case project_decisions rest (truncated \<or> tr) of (ds, tr') \<Rightarrow> (J_str t # ds, tr'))))"

definition project_review_decisions :: "pyval \<Rightarrow> json list \<times> bool" where
  "project_review_decisions value =
     (case value of
        PList vs \<Rightarrow> project_decisions (take max_review_decisions vs) (length vs > max_review_decisions)
      | _ \<Rightarrow> ([], True))"

fun project_actions :: "(pystr \<times> json) list \<Rightarrow> pyval list \<Rightarrow> json list \<Rightarrow> bool \<Rightarrow> json list \<times> bool" where
  "project_actions projected [] actions truncated = (actions, truncated)"
| "project_actions projected (item # rest) actions truncated =
     (case item of
        PDict d \<Rightarrow>
          (case nonempty_str (dict_get (str ''name'') d) of
             None \<Rightarrow> project_actions projected rest actions True
           | Some name \<Rightarrow>
               (case bounded_short name of (t, tr) \<Rightarrow>
                  let candidate = actions @ [J_obj [(str ''name'', J_str t)]]
                  in if json_encoded_size (J_obj (dict_put (str ''action_requests'') (J_list candidate) projected))
                        > max_pending_review_json_bytes
                     then (actions, True)
                     else project_actions projected rest candidate (truncated \<or> tr)))
      | _ \<Rightarrow> project_actions projected rest actions True)"

fun project_configs :: "(pystr \<times> json) list \<Rightarrow> pyval list \<Rightarrow> json list \<Rightarrow> bool \<Rightarrow> json list \<times> bool" where
  "project_configs projected [] configs truncated = (configs, truncated)"
| "project_configs projected (item # rest) configs truncated =
     (case item of
        PDict d \<Rightarrow>
          (case nonempty_str (dict_get (str ''action_name'') d) of
             None \<Rightarrow> project_configs projected rest configs True
           | Some name \<Rightarrow>
               (case bounded_short name of (t, tr) \<Rightarrow>
                (case project_review_decisions (dict_get (str ''allowed_decisions'') d) of (ds, dtr) \<Rightarrow>
                  let candidate = configs @ [J_obj [(str ''action_name'', J_str t), (str ''allowed_decisions'', J_list ds)]]
                  in if json_encoded_size (J_obj (dict_put (str ''review_configs'') (J_list candidate) projected))
                        > max_pending_review_json_bytes
                     then (configs, True)
                     else project_configs projected rest candidate (truncated \<or> tr \<or> dtr))))
      | _ \<Rightarrow> project_configs projected rest configs True)"

definition project_review_id ::
  "pystr \<Rightarrow> pydict \<Rightarrow> (pystr \<times> json) list \<times> bool \<Rightarrow> (pystr \<times> json) list \<times> bool" where
  "project_review_id key value acc =
     (case acc of (projected, truncated) \<Rightarrow>
        let item = dict_get key value
        in (case nonempty_str item of
              Some s \<Rightarrow> (case bounded_short s of (t, tr) \<Rightarrow> (dict_put key (J_str t) projected, truncated \<or> tr))
            | None \<Rightarrow> (projected, truncated \<or> item \<noteq> PNone)))"

definition project_review_actions ::
  "pydict \<Rightarrow> (pystr \<times> json) list \<times> bool \<Rightarrow> (pystr \<times> json) list \<times> bool" where
  "project_review_actions value acc =
     (case acc of (projected, truncated) \<Rightarrow>
        (case dict_get (str ''action_requests'') value of
           PList items \<Rightarrow>
             (case project_actions projected (take max_review_items items) [] truncated of (actions, tr) \<Rightarrow>
                (dict_put (str ''action_requests'') (J_list actions) projected, tr \<or> length items > max_review_items))
         | raw \<Rightarrow> (projected, truncated \<or> raw \<noteq> PNone)))"

definition project_review_configs ::
  "pydict \<Rightarrow> (pystr \<times> json) list \<times> bool \<Rightarrow> (pystr \<times> json) list \<times> bool" where
  "project_review_configs value acc =
     (case acc of (projected, truncated) \<Rightarrow>
        (case dict_get (str ''review_configs'') value of
           PList items \<Rightarrow>
             (case project_configs projected (take max_review_items items) [] (length items > max_review_items) of
                (configs, tr) \<Rightarrow> (dict_put (str ''review_configs'') (J_list configs) projected, truncated \<or> tr))
         | raw \<Rightarrow> (projected, truncated \<or> raw \<noteq> PNone)))"

definition project_pending_review :: "pydict option \<Rightarrow> json \<times> bool" where
  "project_pending_review value =
     (case value of
        None \<Rightarrow> (J_null, False)
      | Some [] \<Rightarrow> (J_null, False)
      | Some d \<Rightarrow>
          (case project_review_configs d (project_review_actions d
                  (project_review_id (str ''source_task_id'') d (project_review_id (str ''review_id'') d ([], False)))) of
             (projected, truncated) \<Rightarrow> (if projected = [] then J_null else J_obj projected, truncated)))"

definition project_artifact :: "artifact \<Rightarrow> json \<times> bool" where
  "project_artifact value =
     (let (artifact_id, itr) = bounded_short (af_artifact_id value);
          (name, ntr) = bounded_short (af_name value);
          (content_type, ttr) = bounded_short (af_content_type value);
          (caption, ctr) = bounded_text max_event_text_length max_artifact_caption_json_bytes (af_caption value)
      in (J_obj [(str ''artifact_id'', J_str artifact_id), (str ''name'', J_str name),
                 (str ''caption'', json_opt caption), (str ''content_type'', J_str content_type),
                 (str ''size'', J_int (af_size value)), (str ''run_count'', J_int (af_run_count value))],
          itr \<or> ntr \<or> ttr \<or> ctr))"

fun artifact_loop :: "artifact list \<Rightarrow> json list \<Rightarrow> nat \<Rightarrow> bool \<Rightarrow> json list \<times> bool" where
  "artifact_loop [] projected encoded_size truncated = (projected, truncated)"
| "artifact_loop (value # rest) projected encoded_size truncated =
     (case project_artifact value of (item, tr) \<Rightarrow>
        let candidate_size = encoded_size + json_encoded_size item + (if projected \<noteq> [] then 1 else 0)
        in if candidate_size > max_artifact_list_json_bytes then (projected, True)
           else artifact_loop rest (projected @ [item]) candidate_size (truncated \<or> tr))"

definition project_artifacts :: "artifact list \<Rightarrow> json list \<times> bool" where
  "project_artifacts values =
     (case artifact_loop (take max_event_artifacts values) [] 2 (length values > max_event_artifacts) of
        (projected, truncated) \<Rightarrow>
          (projected, truncated \<or> length projected < min (length values) max_event_artifacts))"

section \<open>Events\<close>

fun lifecycle_event_type :: "task_state \<Rightarrow> pystr" where
  "lifecycle_event_type TS_pending = str ''task.created''"
| "lifecycle_event_type TS_running = str ''task.running''"
| "lifecycle_event_type TS_waiting_for_human = str ''task.review_requested''"
| "lifecycle_event_type TS_completed = str ''task.completed''"
| "lifecycle_event_type TS_failed = str ''task.failed''"
| "lifecycle_event_type TS_cancelled = str ''task.cancelled''"
| "lifecycle_event_type TS_interrupted = str ''task.interrupted''"

definition ensure_durable_event_data_fits :: "(pystr \<times> json) list \<Rightarrow> py_error + (pystr \<times> json) list" where
  "ensure_durable_event_data_fits data =
     (if json_encoded_size (J_obj data) > max_durable_task_event_data_bytes
      then Inl (ValueError (str ''Projected durable Task event exceeds its wire budget'')) else Inr data)"

definition flag :: "string \<Rightarrow> bool \<Rightarrow> (pystr \<times> json) list" where
  "flag key b = (if b then [(str key, J_bool True)] else [])"

text \<open>\<open>now\<close> is the clock of a reconciled projection, \<open>None\<close> for the plain one.\<close>

definition lifecycle_fields :: "task_record \<Rightarrow> int option \<Rightarrow> (pystr \<times> json) list" where
  "lifecycle_fields record now =
     (let (last_result, result_tr) = bounded_text max_event_text_length max_lifecycle_text_json_bytes (tk_result record);
          (error, error_tr) = bounded_text max_event_text_length max_lifecycle_text_json_bytes (tk_error record);
          (pending_review, review_tr) = project_pending_review (tk_pending_review record);
          (artifacts, artifacts_tr) = project_artifacts (tk_artifacts record)
      in [(str ''status'', J_str (task_state_name (tk_state record))),
          (str ''last_result'', json_opt last_result), (str ''error'', json_opt error),
          (str ''updated_at'', J_str (isoformat (tk_updated_at record))),
          (str ''pending_review'', pending_review), (str ''artifacts'', J_list artifacts)]
         @ flag ''last_result_truncated'' result_tr @ flag ''error_truncated'' error_tr
         @ flag ''pending_review_truncated'' review_tr @ flag ''artifacts_truncated'' artifacts_tr
         @ (case now of None \<Rightarrow> []
            | Some t \<Rightarrow> [(str ''reconciled'', J_bool True), (str ''observed_at'', J_str (isoformat t))]))"

definition lifecycle_event_data :: "task_record \<Rightarrow> int option \<Rightarrow> py_error + (pystr \<times> json) list" where
  "lifecycle_event_data record now = ensure_durable_event_data_fits (lifecycle_fields record now)"

definition artifact_event_data :: "task_record \<Rightarrow> artifact \<Rightarrow> py_error + (pystr \<times> json) list" where
  "artifact_event_data record artifact =
     (case project_artifact artifact of (projected, truncated) \<Rightarrow>
        ensure_durable_event_data_fits
          ([(str ''status'', J_str (task_state_name (tk_state record))),
            (str ''updated_at'', J_str (isoformat (tk_updated_at record))), (str ''artifact'', projected)]
           @ flag ''artifact_truncated'' truncated))"

definition public_task_event_fingerprint :: "task_record \<Rightarrow> py_error + pystr" where
  "public_task_event_fingerprint record =
     (case lifecycle_event_data record None of
        Inl e \<Rightarrow> Inl e
      | Inr data \<Rightarrow> Inr (dumps_compact_sorted (J_obj ((str ''run_count'', J_int (tk_run_count record))
                       # filter (\<lambda>kv. fst kv \<noteq> str ''updated_at'') data))))"

definition end_reason_for_record :: "task_record \<Rightarrow> pystr option" where
  "end_reason_for_record record =
     (if tk_pending_review record \<noteq> None \<and> tk_pending_review record \<noteq> Some [] then Some (str ''review_required'')
      else case tk_state record of
             TS_waiting_for_human \<Rightarrow> Some (str ''review_required'')
           | TS_completed \<Rightarrow> Some (str ''completed'')
           | TS_failed \<Rightarrow> Some (str ''failed'')
           | TS_cancelled \<Rightarrow> Some (str ''cancelled'')
           | TS_interrupted \<Rightarrow> Some (str ''interrupted'')
           | _ \<Rightarrow> None)"

fun json_truthy :: "json \<Rightarrow> bool" where
  "json_truthy J_null = False"
| "json_truthy (J_bool b) = b"
| "json_truthy (J_int i) = (i \<noteq> 0)"
| "json_truthy (J_float s) = list_ex (\<lambda>c. c \<notin> {45, 46, 48}) (takeWhile (\<lambda>c. c \<notin> {69, 101}) s)"
| "json_truthy (J_str s) = (s \<noteq> [])"
| "json_truthy (J_list xs) = (xs \<noteq> [])"
| "json_truthy (J_obj kvs) = (kvs \<noteq> [])"

definition end_reason_from_data :: "(pystr \<times> json) list \<Rightarrow> pystr option" where
  "end_reason_from_data data =
     (if (case map_of data (str ''pending_review'') of None \<Rightarrow> False | Some v \<Rightarrow> json_truthy v)
      then Some (str ''review_required'')
      else case map_of data (str ''status'') of
             Some (J_str s) \<Rightarrow>
               (case task_state_of_name s of
                  None \<Rightarrow> None
                | Some state \<Rightarrow>
                    if state = TS_waiting_for_human then Some (str ''review_required'')
                    else if state \<in> set settled_task_states then Some (task_state_name state) else None)
           | _ \<Rightarrow> None)"

section \<open>Cursors\<close>

definition encode_task_event_cursor :: "pystr \<Rightarrow> int \<Rightarrow> int \<Rightarrow> pystr" where
  "encode_task_event_cursor task_id run_count event_id =
     rstrip_char 61 (b64_encode (utf8_bytes (dumps_compact_sorted (J_obj
       [(str ''v'', J_int task_event_cursor_version), (str ''task'', J_str task_id),
        (str ''run'', J_int run_count), (str ''event'', J_int event_id)]))))"

definition cursor_payload :: "pystr \<Rightarrow> json option" where
  "cursor_payload cursor =
     (case b64_decode (b64_pad cursor) of
        None \<Rightarrow> None
      | Some raw \<Rightarrow> (case utf8_decode raw of None \<Rightarrow> None | Some text \<Rightarrow> json_loads text))"

datatype cursor_error = Invalid_cursor | Unsupported_cursor_version | Cursor_binding_mismatch | Invalid_cursor_position

definition decode_task_event_cursor :: "pystr \<Rightarrow> pystr \<Rightarrow> int \<Rightarrow> cursor_error + int" where
  "decode_task_event_cursor cursor task_id run_count =
     (if cursor = [] \<or> length cursor > max_task_event_cursor_length then Inl Invalid_cursor
      else case cursor_payload cursor of
        Some (J_obj payload) \<Rightarrow>
          if fst ` set payload \<noteq> {str ''v'', str ''task'', str ''run'', str ''event''} then Inl Invalid_cursor
          else if map_of payload (str ''v'') \<noteq> Some (J_int task_event_cursor_version) then Inl Unsupported_cursor_version
          else if map_of payload (str ''task'') \<noteq> Some (J_str task_id)
                  \<or> map_of payload (str ''run'') \<noteq> Some (J_int run_count) then Inl Cursor_binding_mismatch
          else (case map_of payload (str ''event'') of
                  Some (J_int event_id) \<Rightarrow> if event_id \<le> 0 then Inl Invalid_cursor_position else Inr event_id
                | _ \<Rightarrow> Inl Invalid_cursor_position)
      | _ \<Rightarrow> Inl Invalid_cursor)"

section \<open>Sizes of encoded values\<close>

definition ulen :: "pystr \<Rightarrow> nat" where
  "ulen s = length (utf8_bytes s)"

lemma ulen_simps [simp]:
  "ulen [] = 0" "ulen (s @ t) = ulen s + ulen t"
  by (simp_all add: ulen_def utf8_bytes_def)

lemma ulen_ascii: "\<forall>c \<in> set s. c < 128 \<Longrightarrow> ulen s = length s"
  by (simp add: ulen_def utf8_ascii)

lemma ulen_char [simp]: "c < 128 \<Longrightarrow> ulen [c] = 1" "c < 128 \<Longrightarrow> ulen (c # s) = Suc (ulen s)"
  by (simp_all add: ulen_def utf8_bytes_def utf8_char_def)

lemma size_ulen: "json_encoded_size v = ulen (dumps_wire v)"
  by (simp add: json_encoded_size_def ulen_def)

definition wire_len :: "nat \<Rightarrow> nat" where
  "wire_len c = ulen (wire_char c)"

lemma ulen_quote: "ulen (quote_json wire_char s) = 2 + sum_list (map wire_len s)"
proof -
  have "ulen (concat (map wire_char s)) = sum_list (map wire_len s)"
    by (induction s) (simp_all add: wire_len_def)
  then show ?thesis by (simp add: quote_json_def)
qed

lemma size_str: "json_encoded_size (J_str s) = 2 + sum_list (map wire_len s)"
  by (simp add: size_ulen dumps_wire_def ulen_quote)

lemma ulen_join: "ulen (join [44] xs) = sum_list (map ulen xs) + (length xs - 1)"
proof (cases xs)
  case (Cons y ys)
  have "ulen (concat (map ((@) [44]) ys)) = sum_list (map ulen ys) + length ys"
    by (induction ys) simp_all
  then show ?thesis using Cons by (simp add: join_def)
qed (simp add: join_def)

definition member_size :: "pystr \<times> json \<Rightarrow> nat" where
  "member_size kv = json_encoded_size (J_str (fst kv)) + 1 + json_encoded_size (snd kv)"

lemma size_obj: "json_encoded_size (J_obj kvs) = 2 + sum_list (map member_size kvs) + (length kvs - 1)"
proof -
  have "(\<Sum>kv\<leftarrow>kvs. Suc (ulen (quote_json wire_char (fst kv)) + ulen (json_dumps wire_char [44] [58] (snd kv))))
      = sum_list (map member_size kvs)"
    by (induction kvs) (simp_all add: member_size_def size_ulen dumps_wire_def str_def)
  then show ?thesis
    by (simp add: size_ulen dumps_wire_def str_def ulen_join comp_def)
qed

lemma size_list_json: "json_encoded_size (J_list vs) = 2 + sum_list (map json_encoded_size vs) + (length vs - 1)"
  by (simp add: size_ulen dumps_wire_def str_def ulen_join comp_def cong: map_cong)

lemma size_atoms:
  "json_encoded_size J_null = 4" "json_encoded_size (J_bool True) = 4" "json_encoded_size (J_bool False) = 5"
  by (simp_all add: size_ulen dumps_wire_def ulen_ascii str_def)

lemma size_ascii: "list_all (\<lambda>c. 32 \<le> c \<and> c < 128 \<and> c \<noteq> 34 \<and> c \<noteq> 92) s \<Longrightarrow> json_encoded_size (J_str s) = 2 + length s"
proof -
  assume "list_all (\<lambda>c. 32 \<le> c \<and> c < 128 \<and> c \<noteq> 34 \<and> c \<noteq> 92) s"
  then have "sum_list (map wire_len s) = length s"
    by (induction s) (simp_all add: wire_len_def wire_char_def)
  then show ?thesis by (simp add: size_str)
qed

lemma size_take_mono: "m \<le> n \<Longrightarrow> json_encoded_size (J_str (take m s)) \<le> json_encoded_size (J_str (take n s))"
proof -
  assume "m \<le> n"
  then obtain k where "n = m + k"
    using le_Suc_ex by blast
  then show ?thesis
    by (simp add: size_str take_add)
qed

section \<open>Bounded text is the longest prefix that fits\<close>

lemma fit_prefix_correct:
  assumes "low \<le> high" and "high \<le> length c" and "json_encoded_size (J_str (take low c)) \<le> m"
    and "\<forall>n. high < n \<and> n \<le> length c \<longrightarrow> m < json_encoded_size (J_str (take n c))"
  shows "fit_prefix c m low high \<le> high \<and> json_encoded_size (J_str (take (fit_prefix c m low high) c)) \<le> m
    \<and> (\<forall>n. fit_prefix c m low high < n \<and> n \<le> length c \<longrightarrow> m < json_encoded_size (J_str (take n c)))"
  using assms
proof (induction c m low high rule: fit_prefix.induct)
  case (1 c m low high)
  let ?mid = "(low + high + 1) div 2"
  show ?case
  proof (cases "low < high")
    case True
    then have mid: "low < ?mid" "?mid \<le> high" by auto
    show ?thesis
    proof (cases "json_encoded_size (J_str (take ?mid c)) \<le> m")
      case fits: True
      have "fit_prefix c m low high = fit_prefix c m ?mid high"
        using True fits by (subst fit_prefix.simps) (simp add: Let_def)
      then show ?thesis
        using 1(1) [OF True refl fits] mid fits 1(4,6) by simp
    next
      case False
      then have over: "\<forall>n. ?mid - 1 < n \<and> n \<le> length c \<longrightarrow> m < json_encoded_size (J_str (take n c))"
      proof (intro allI impI)
        fix n assume "?mid - 1 < n \<and> n \<le> length c"
        then have "json_encoded_size (J_str (take ?mid c)) \<le> json_encoded_size (J_str (take n c))"
          using mid by (intro size_take_mono) linarith
        then show "m < json_encoded_size (J_str (take n c))"
          using False by linarith
      qed
      have "fit_prefix c m low high = fit_prefix c m low (?mid - 1)"
        using True False by (subst fit_prefix.simps) (simp add: Let_def)
      moreover have "low \<le> ?mid - 1" "?mid - 1 \<le> length c"
        using mid 1(4) by auto
      moreover have "?mid - 1 \<le> high"
        using mid by linarith
      ultimately show ?thesis
        using 1(2) [OF True refl False _ _ 1(5) over] by (metis order_trans)
    qed
  next
    case False
    then have "fit_prefix c m low high = low" by (subst fit_prefix.simps) simp
    then show ?thesis using 1 False by simp
  qed
qed

lemma bounded_text_longest:
  assumes "2 \<le> max_json_bytes"
  shows "\<exists>n. bounded_text max_chars max_json_bytes (Some text) =
      (Some (take n (normalize_task_event_text text)), take n (normalize_task_event_text text) \<noteq> text)
    \<and> n \<le> max_chars \<and> n \<le> length text
    \<and> json_encoded_size (J_str (take n (normalize_task_event_text text))) \<le> max_json_bytes
    \<and> (\<forall>k > n. k \<le> max_chars \<longrightarrow> k \<le> length text \<longrightarrow>
          max_json_bytes < json_encoded_size (J_str (take k (normalize_task_event_text text))))"
proof -
  let ?t = "normalize_task_event_text text"
  let ?c = "take max_chars ?t"
  have len: "length ?t = length text"
    by (simp add: normalize_task_event_text_def)
  show ?thesis
  proof (cases "json_encoded_size (J_str ?c) \<le> max_json_bytes")
    case True
    let ?n = "min max_chars (length text)"
    have "?c = take ?n ?t"
      using len by (simp add: min_def)
    moreover have "(?t \<noteq> text \<or> length ?c \<noteq> length ?t) = (?c \<noteq> text)"
    proof (cases "length ?t \<le> max_chars")
      case False
      then have "length ?c \<noteq> length ?t" by simp
      moreover from this have "?c \<noteq> text" using len by metis
      ultimately show ?thesis by blast
    qed simp
    ultimately show ?thesis
      using True by (intro exI [of _ ?n]) (auto simp: bounded_text_def Let_def)
  next
    case False
    have base: "json_encoded_size (J_str (take 0 ?c)) \<le> max_json_bytes"
      using assms by (simp add: size_str)
    have top: "\<forall>k. length ?c < k \<and> k \<le> length ?c \<longrightarrow> max_json_bytes < json_encoded_size (J_str (take k ?c))"
      by (meson leD)
    obtain n where n: "fit_prefix ?c max_json_bytes 0 (length ?c) = n"
      by simp
    have fit: "n \<le> length ?c" "json_encoded_size (J_str (take n ?c)) \<le> max_json_bytes"
      "\<forall>k. n < k \<and> k \<le> length ?c \<longrightarrow> max_json_bytes < json_encoded_size (J_str (take k ?c))"
      using fit_prefix_correct [OF le0 order_refl base top] unfolding n by blast+
    then have le: "n \<le> max_chars" "n \<le> length text"
      using len by simp_all
    have tk: "take k ?c = take k ?t" if "k \<le> max_chars" for k
      using that by (simp add: min_def)
    have "take n ?t \<noteq> text"
    proof
      assume "take n ?t = text"
      then have "length text \<le> n"
        by (metis length_take min.cobounded2)
      then have "length ?c \<le> n"
        using len by simp
      then have "take n ?c = ?c"
        by (rule take_all)
      then show False
        using False fit(2) by simp
    qed
    moreover have "max_json_bytes < json_encoded_size (J_str (take k ?t))"
      if "n < k" "k \<le> max_chars" "k \<le> length text" for k
      using fit(3) that len tk [OF that(2)] by (metis length_take min.boundedI)
    moreover have "bounded_text max_chars max_json_bytes (Some text) = (Some (take n ?t), True)"
      using False n tk [OF le(1)] by (simp only: bounded_text_def Let_def option.case if_False)
    ultimately show ?thesis
      using fit(2) le tk [OF le(1)] by (intro exI [of _ n]) simp
  qed
qed

text \<open>
  A bounded text is the longest prefix of the normalized text within both limits: it has no
  surrogate, at most \<open>max_chars\<close> characters and at most \<open>max_json_bytes\<close> bytes as JSON, every
  longer prefix breaks a limit, and the flag tells exactly whether it differs from the text.
\<close>

theorem bounded_text_maximal:
  assumes "2 \<le> max_json_bytes"
  shows "\<exists>n. bounded_text max_chars max_json_bytes (Some text) =
      (Some (take n (normalize_task_event_text text)), take n (normalize_task_event_text text) \<noteq> text)
    \<and> n \<le> max_chars \<and> n \<le> length text
    \<and> json_encoded_size (J_str (take n (normalize_task_event_text text))) \<le> max_json_bytes
    \<and> (\<forall>k > n. k \<le> max_chars \<longrightarrow> k \<le> length text \<longrightarrow>
          max_json_bytes < json_encoded_size (J_str (take k (normalize_task_event_text text))))"
  using assms by (rule bounded_text_longest)

section \<open>Every projection fits its budget\<close>

lemma bounded_text_size:
  assumes "2 \<le> m" and "bounded_text mc m v = (t, tr)"
  shows "json_encoded_size (json_opt t) \<le> max 4 m"
proof (cases v)
  case None
  then show ?thesis using assms(2) by (simp add: bounded_text_def json_opt_def size_atoms)
next
  case (Some u)
  then show ?thesis
    using bounded_text_longest [OF assms(1), of mc u] assms(2) by (auto simp: json_opt_def)
qed

lemma bounded_short_size: "bounded_short s = (t, tr) \<Longrightarrow> json_encoded_size (J_str t) \<le> 8192"
  using bounded_text_longest [of max_short_event_text_json_bytes max_short_event_text_length s]
  by (auto simp: bounded_short_def wire_limits split: prod.splits option.splits)

lemma size_fresh_member:
  "k \<notin> fst ` set d \<Longrightarrow> json_encoded_size (J_obj (dict_put k v d))
    = json_encoded_size (J_obj d) + member_size (k, v) + (if d = [] then 0 else 1)"
  by (cases d) (auto simp: dict_put_def size_obj)

lemma size_empty_obj [simp]: "json_encoded_size (J_obj []) = 2"
  by (simp add: size_obj)

lemma key_sizes:
  "json_encoded_size (J_str (str ''review_id'')) = 11" "json_encoded_size (J_str (str ''source_task_id'')) = 16"
  "json_encoded_size (J_str (str ''action_requests'')) = 17" "json_encoded_size (J_str (str ''review_configs'')) = 16"
  "json_encoded_size (J_str (str ''artifact_id'')) = 13" "json_encoded_size (J_str (str ''name'')) = 6"
  "json_encoded_size (J_str (str ''caption'')) = 9" "json_encoded_size (J_str (str ''content_type'')) = 14"
  "json_encoded_size (J_str (str ''size'')) = 6" "json_encoded_size (J_str (str ''run_count'')) = 11"
  "json_encoded_size (J_str (str ''status'')) = 8" "json_encoded_size (J_str (str ''last_result'')) = 13"
  "json_encoded_size (J_str (str ''error'')) = 7" "json_encoded_size (J_str (str ''updated_at'')) = 12"
  "json_encoded_size (J_str (str ''pending_review'')) = 16" "json_encoded_size (J_str (str ''artifacts'')) = 11"
  "json_encoded_size (J_str (str ''last_result_truncated'')) = 23" "json_encoded_size (J_str (str ''error_truncated'')) = 17"
  "json_encoded_size (J_str (str ''pending_review_truncated'')) = 26"
  "json_encoded_size (J_str (str ''artifacts_truncated'')) = 21" "json_encoded_size (J_str (str ''reconciled'')) = 12"
  "json_encoded_size (J_str (str ''observed_at'')) = 13"
  by (simp_all add: size_ascii str_def)

lemma project_actions_size:
  assumes "project_actions projected items actions tr = (acts, tr')"
    and "json_encoded_size (J_obj (dict_put (str ''action_requests'') (J_list actions) projected)) \<le> m"
    and "max_pending_review_json_bytes \<le> m"
  shows "json_encoded_size (J_obj (dict_put (str ''action_requests'') (J_list acts) projected)) \<le> m"
  using assms
proof (induction projected items actions tr rule: project_actions.induct)
  case (2 projected item rest actions tr)
  show ?case
    using 2
    by (cases item) (auto simp: Let_def split: option.splits prod.splits if_splits)
qed simp

lemma project_configs_size:
  assumes "project_configs projected items configs tr = (cs, tr')"
    and "json_encoded_size (J_obj (dict_put (str ''review_configs'') (J_list configs) projected)) \<le> m"
    and "max_pending_review_json_bytes \<le> m"
  shows "json_encoded_size (J_obj (dict_put (str ''review_configs'') (J_list cs) projected)) \<le> m"
  using assms
proof (induction projected items configs tr rule: project_configs.induct)
  case (2 projected item rest configs tr)
  show ?case
    using 2
    by (cases item) (auto simp: Let_def split: option.splits prod.splits if_splits)
qed simp

lemma keys_dict_put [simp]: "fst ` set (dict_put k v d) = insert k (fst ` set d)"
  by (force simp: dict_put_def image_iff)

lemma review_id_size:
  assumes "project_review_id key value (projected, tr) = (p', tr')" and "key \<notin> fst ` set projected"
    and "json_encoded_size (J_str key) \<le> 16" and "json_encoded_size (J_obj projected) \<le> n"
  shows "json_encoded_size (J_obj p') \<le> n + 8210 \<and> fst ` set p' \<subseteq> insert key (fst ` set projected)"
proof (cases "nonempty_str (dict_get key value)")
  case None
  then have "p' = projected"
    using assms(1) by (simp add: project_review_id_def Let_def)
  then show ?thesis
    using assms(4) by auto
next
  case (Some u)
  obtain t b where t: "bounded_short u = (t, b)"
    by fastforce
  then have "p' = dict_put key (J_str t) projected"
    using assms(1) Some by (simp add: project_review_id_def Let_def)
  then show ?thesis
    using bounded_short_size [OF t] assms(2-4)
    by (cases "projected = []") (simp_all add: size_fresh_member member_size_def)
qed

lemma review_actions_size:
  assumes "project_review_actions value (projected, tr) = (p', tr')"
    and "str ''action_requests'' \<notin> fst ` set projected" and "json_encoded_size (J_obj projected) \<le> 16422"
  shows "json_encoded_size (J_obj p') \<le> 65536 \<and> fst ` set p' \<subseteq> insert (str ''action_requests'') (fst ` set projected)"
proof (cases "dict_get (str ''action_requests'') value")
  case (PList items)
  obtain acts tr2 where a: "project_actions projected (take max_review_items items) [] tr = (acts, tr2)"
    by fastforce
  have "json_encoded_size (J_obj (dict_put (str ''action_requests'') (J_list []) projected)) \<le> 65536"
    using assms(2,3) by (simp add: size_fresh_member member_size_def size_list_json key_sizes)
  from project_actions_size [OF a this]
  have "json_encoded_size (J_obj (dict_put (str ''action_requests'') (J_list acts) projected)) \<le> 65536"
    by (simp add: wire_limits)
  moreover have "p' = dict_put (str ''action_requests'') (J_list acts) projected"
    using assms(1) PList a by (simp add: project_review_actions_def)
  ultimately show ?thesis
    by simp
qed (use assms in \<open>auto simp: project_review_actions_def\<close>)

lemma review_configs_size:
  assumes "project_review_configs value (projected, tr) = (p', tr')"
    and "str ''review_configs'' \<notin> fst ` set projected" and "json_encoded_size (J_obj projected) \<le> 65536"
  shows "json_encoded_size (J_obj p') \<le> 65556"
proof (cases "dict_get (str ''review_configs'') value")
  case (PList items)
  obtain cs tr2 where a: "project_configs projected (take max_review_items items) [] (max_review_items < length items) = (cs, tr2)"
    by fastforce
  have "json_encoded_size (J_obj (dict_put (str ''review_configs'') (J_list []) projected)) \<le> 65556"
    using assms(2,3) by (simp add: size_fresh_member member_size_def size_list_json key_sizes)
  from project_configs_size [OF a this]
  show ?thesis
    using assms(1) PList a by (auto simp: project_review_configs_def wire_limits)
qed (use assms in \<open>auto simp: project_review_configs_def\<close>)

lemma pending_review_size: "json_encoded_size (fst (project_pending_review v)) \<le> 65556"
proof (cases v)
  case (Some d)
  show ?thesis
  proof (cases d)
    case (Cons x xs)
    obtain p1 t1 where 1: "project_review_id (str ''review_id'') d ([], False) = (p1, t1)" by fastforce
    obtain p2 t2 where 2: "project_review_id (str ''source_task_id'') d (p1, t1) = (p2, t2)" by fastforce
    obtain p3 t3 where 3: "project_review_actions d (p2, t2) = (p3, t3)" by fastforce
    obtain p4 t4 where 4: "project_review_configs d (p3, t3) = (p4, t4)" by fastforce
    have s1: "json_encoded_size (J_obj p1) \<le> 8212" "fst ` set p1 \<subseteq> {str ''review_id''}"
      using review_id_size [OF 1, of 2] by (simp_all add: key_sizes)
    have n1: "str ''source_task_id'' \<notin> fst ` set p1"
      by (rule contra_subsetD [OF s1(2)]) simp
    have k2: "json_encoded_size (J_str (str ''source_task_id'')) \<le> 16"
      by (simp add: key_sizes)
    have s2: "json_encoded_size (J_obj p2) \<le> 16422" "fst ` set p2 \<subseteq> {str ''source_task_id'', str ''review_id''}"
      using review_id_size [OF 2 n1 k2 s1(1)] s1(2) by (simp_all add: subset_insertI2) blast
    have n2: "str ''action_requests'' \<notin> fst ` set p2"
      by (rule contra_subsetD [OF s2(2)]) simp
    have s3: "json_encoded_size (J_obj p3) \<le> 65536"
      "fst ` set p3 \<subseteq> {str ''action_requests'', str ''source_task_id'', str ''review_id''}"
      using review_actions_size [OF 3 n2 s2(1)] s2(2) by blast+
    have n3: "str ''review_configs'' \<notin> fst ` set p3"
      by (rule contra_subsetD [OF s3(2)]) simp
    have "json_encoded_size (J_obj p4) \<le> 65556"
      by (rule review_configs_size [OF 4 n3 s3(1)])
    then show ?thesis
      using Some Cons 1 2 3 4 by (simp add: project_pending_review_def size_atoms)
  qed (simp add: Some project_pending_review_def size_atoms)
qed (simp add: project_pending_review_def size_atoms)

lemma size_list_snoc:
  "json_encoded_size (J_list (vs @ [v])) = json_encoded_size (J_list vs) + json_encoded_size v + (if vs \<noteq> [] then 1 else 0)"
  by (cases vs) (simp_all add: size_list_json)

lemma artifact_loop_size:
  assumes "artifact_loop values projected n tr = (p', tr')" and "n = json_encoded_size (J_list projected)"
    and "n \<le> max_artifact_list_json_bytes"
  shows "json_encoded_size (J_list p') \<le> max_artifact_list_json_bytes"
  using assms
proof (induction "values" projected n tr rule: artifact_loop.induct)
  case (2 v rest projected n tr)
  then show ?case
    by (cases "project_artifact v") (simp add: Let_def size_list_snoc split: if_splits)
qed simp

lemma project_artifacts_size: "json_encoded_size (J_list (fst (project_artifacts vs))) \<le> 131072"
proof -
  obtain p tr where a: "artifact_loop (take max_event_artifacts vs) [] 2 (max_event_artifacts < length vs) = (p, tr)"
    by fastforce
  have "json_encoded_size (J_list p) \<le> max_artifact_list_json_bytes"
    by (rule artifact_loop_size [OF a]) (simp_all add: size_list_json wire_limits)
  then show ?thesis
    using a by (simp add: project_artifacts_def wire_limits)
qed

lemma dec_digits_length: "n < 10 ^ k \<Longrightarrow> 0 < k \<Longrightarrow> length (dec_digits n) \<le> k"
proof (induction k arbitrary: n)
  case (Suc k)
  show ?case
  proof (cases "n < 10")
    case True
    then show ?thesis by (subst dec_digits.simps) simp
  next
    case False
    moreover from this Suc.prems have "0 < k" "n div 10 < 10 ^ k"
      by (cases k; simp add: div_less_iff_less_mult)+
    ultimately show ?thesis
      using Suc.IH [of "n div 10"] by (subst dec_digits.simps) simp
  qed
qed simp

lemma dec_length: "\<bar>i\<bar> < 10 ^ k \<Longrightarrow> 0 < k \<Longrightarrow> length (dec i) \<le> Suc k"
proof -
  assume i: "\<bar>i\<bar> < 10 ^ k" "0 < k"
  have "nat \<bar>i\<bar> < 10 ^ k"
    using i(1) by (simp add: nat_less_iff)
  then have "length (dec_digits (nat \<bar>i\<bar>)) \<le> k"
    using i(2) by (rule dec_digits_length)
  then show ?thesis
    by (simp add: dec_def abs_if split: if_splits)
qed

lemma pad_length: "\<bar>i\<bar> < 10 ^ k \<Longrightarrow> 0 < k \<Longrightarrow> w \<le> Suc k \<Longrightarrow> length (pad w i) \<le> Suc k"
  using dec_length [of i k] by (simp add: pad_def Let_def)

lemma pad_chars: "c \<in> set (pad w i) \<Longrightarrow> c = 45 \<or> 48 \<le> c \<and> c \<le> 57"
  using dec_chars [of c i] by (auto simp: pad_def Let_def)

lemma civil_bounds:
  assumes "- 719162 \<le> days" and "days \<le> 2932896" and "civil_of_days days = (y, m, d)"
  shows "\<bar>y\<bar> < 10 ^ 5 \<and> \<bar>m\<bar> < 10 ^ 5 \<and> \<bar>d\<bar> < 10 ^ 6"
proof -
  obtain z where z: "z = days + 719468" by simp
  obtain era where era: "era = z div 146097" by simp
  obtain doe where doe: "doe = z mod 146097" by simp
  obtain yoe where yoe: "yoe = (doe - doe div 1460 + doe div 36524 - doe div 146096) div 365" by simp
  obtain doy where doy: "doy = doe - (365 * yoe + yoe div 4 - yoe div 100)" by simp
  obtain mp where mp: "mp = (5 * doy + 2) div 153" by simp
  obtain q where q: "q = (153 * mp + 2) div 5" by simp
  have div_bounds: "k * (a div k) \<le> a \<and> a < k * (a div k) + k" if "0 < k" for a k :: int
    using that by (simp add: minus_mod_eq_mult_div [symmetric] pos_mod_bound)
  have b: "0 \<le> doe" "doe < 146097" "0 \<le> era" "era < 26"
    using div_bounds [of 146097 z] assms(1,2) z by (auto simp: doe era)
  have y: "- 2 < yoe" "yoe < 404"
    using div_bounds [of 1460 doe] div_bounds [of 36524 doe] div_bounds [of 146096 doe]
      div_bounds [of 365 "doe - doe div 1460 + doe div 36524 - doe div 146096"] b yoe by linarith+
  have dy: "- 150000 < doy" "doy < 150000"
    using div_bounds [of 4 yoe] div_bounds [of 100 yoe] y b doy by linarith+
  have m: "- 5000 < mp" "mp < 5000"
    using div_bounds [of 153 "5 * doy + 2"] dy mp by linarith+
  have d: "- 160000 < q" "q < 160000"
    using div_bounds [of 5 "153 * mp + 2"] m q by linarith+
  have eq: "(y, m, d) = (yoe + era * 400 + (if (if mp < 10 then mp + 3 else mp - 9) \<le> 2 then 1 else 0),
      if mp < 10 then mp + 3 else mp - 9, doy - q + 1)"
    by (simp only: assms(3) [symmetric] civil_of_days_def Let_def z [symmetric] era [symmetric] doe [symmetric]
        yoe [symmetric] doy [symmetric] mp [symmetric] q [symmetric])
  then show ?thesis
    using b y dy m d by (auto split: if_splits)
qed

definition iso_char :: "nat \<Rightarrow> bool" where
  "iso_char c \<longleftrightarrow> 32 \<le> c \<and> c < 128 \<and> c \<noteq> 34 \<and> c \<noteq> 92"

lemma isoformat_text:
  assumes "datetime_ok t"
  shows "length (isoformat t) \<le> 64" and "list_all iso_char (isoformat t)"
proof -
  obtain y m d where ymd: "civil_of_days (t div 86400000000) = (y, m, d)"
    by (cases "civil_of_days (t div 86400000000)") auto
  have "- 719162 \<le> t div 86400000000" "t div 86400000000 \<le> 2932896"
    using assms by (auto simp: datetime_ok_def)
  then have b: "\<bar>y\<bar> < 10 ^ 5" "\<bar>m\<bar> < 10 ^ 5" "\<bar>d\<bar> < 10 ^ 6"
    using civil_bounds [OF _ _ ymd] by blast+
  obtain us where us: "us = t mod 86400000000" by simp
  obtain h where h: "h = us div 1000000 div 3600" by simp
  obtain mi where mi: "mi = us div 1000000 div 60 mod 60" by simp
  obtain sec where sec: "sec = us div 1000000 mod 60" by simp
  obtain f where f: "f = us mod 1000000" by simp
  have "0 \<le> us" "us < 86400000000" by (simp_all add: us)
  then have hms: "\<bar>h\<bar> < 10 ^ 2" "\<bar>mi\<bar> < 10 ^ 2" "\<bar>sec\<bar> < 10 ^ 2" "\<bar>f\<bar> < 10 ^ 6"
    by (auto simp: h mi sec f)
  have iso: "isoformat t = pad 4 y @ [45] @ pad 2 m @ [45] @ pad 2 d @ [84] @ pad 2 h @ [58] @ pad 2 mi @ [58] @ pad 2 sec
      @ (if f = 0 then [] else [46] @ pad 6 f) @ str ''+00:00''"
    by (simp only: isoformat_def Let_def ymd prod.case us [symmetric] h [symmetric] mi [symmetric] sec [symmetric]
        f [symmetric])
  have "length (pad 4 y) \<le> 6" "length (pad 2 m) \<le> 6" "length (pad 2 d) \<le> 7" "length (pad 2 h) \<le> 3"
    "length (pad 2 mi) \<le> 3" "length (pad 2 sec) \<le> 3" "length (pad 6 f) \<le> 7"
    using pad_length [OF b(1), of 4] pad_length [OF b(2), of 2] pad_length [OF b(3), of 2]
      pad_length [OF hms(1), of 2] pad_length [OF hms(2), of 2] pad_length [OF hms(3), of 2] pad_length [OF hms(4), of 6]
    by simp_all
  then show "length (isoformat t) \<le> 64"
    by (simp add: iso)
  have pads: "list_all iso_char (pad w i)" for w i
    using pad_chars by (fastforce simp: list_all_iff iso_char_def)
  have "list_all iso_char (str ''+00:00'')"
    by (simp add: str_def iso_char_def)
  then show "list_all iso_char (isoformat t)"
    by (simp add: iso pads) (simp add: iso_char_def)
qed

lemma size_isoformat: "datetime_ok t \<Longrightarrow> json_encoded_size (J_str (isoformat t)) \<le> 66"
  using isoformat_text [of t] size_ascii [of "isoformat t"] by (simp add: iso_char_def [abs_def])

lemma size_state: "json_encoded_size (J_str (task_state_name st)) \<le> 19"
  by (cases st) (simp_all add: size_ascii str_def)

lemma size_obj_append: "json_encoded_size (J_obj (a @ b)) \<le> json_encoded_size (J_obj a) + sum_list (map member_size b) + length b"
  by (cases a) (simp_all add: size_obj)

lemma size_flag:
  "sum_list (map member_size (flag k b)) \<le> json_encoded_size (J_str (str k)) + 5" "length (flag k b) \<le> 1"
  by (simp_all add: flag_def member_size_def size_atoms)

lemma lifecycle_fields_size:
  assumes "datetime_ok (tk_updated_at record)" and "\<forall>t. now = Some t \<longrightarrow> datetime_ok t"
  shows "json_encoded_size (J_obj (lifecycle_fields record now)) \<le> max_durable_task_event_data_bytes"
proof -
  let ?mt = "max_event_text_length" and ?mb = "max_lifecycle_text_json_bytes"
  obtain res rtr where 1: "bounded_text ?mt ?mb (tk_result record) = (res, rtr)" by fastforce
  obtain err etr where 2: "bounded_text ?mt ?mb (tk_error record) = (err, etr)" by fastforce
  obtain rev_json vtr where 3: "project_pending_review (tk_pending_review record) = (rev_json, vtr)" by fastforce
  obtain arts atr where 4: "project_artifacts (tk_artifacts record) = (arts, atr)" by fastforce
  let ?base = "[(str ''status'', J_str (task_state_name (tk_state record))),
          (str ''last_result'', json_opt res), (str ''error'', json_opt err),
          (str ''updated_at'', J_str (isoformat (tk_updated_at record))),
          (str ''pending_review'', rev_json), (str ''artifacts'', J_list arts)]"
  let ?clock = "case now of None \<Rightarrow> []
     | Some t \<Rightarrow> [(str ''reconciled'', J_bool True), (str ''observed_at'', J_str (isoformat t))]"
  let ?flags = "flag ''last_result_truncated'' rtr @ flag ''error_truncated'' etr
         @ flag ''pending_review_truncated'' vtr @ flag ''artifacts_truncated'' atr @ ?clock"
  have fields: "lifecycle_fields record now = ?base @ ?flags"
    by (simp add: lifecycle_fields_def 1 2 3 4)
  have sizes: "json_encoded_size (json_opt res) \<le> 131072" "json_encoded_size (json_opt err) \<le> 131072"
    "json_encoded_size rev_json \<le> 65556" "json_encoded_size (J_list arts) \<le> 131072"
    using bounded_text_size [OF _ 1] bounded_text_size [OF _ 2] pending_review_size [of "tk_pending_review record"]
      project_artifacts_size [of "tk_artifacts record"] by (simp_all add: wire_limits 3 4)
  have "json_encoded_size (J_obj ?base) \<le> 460000"
    using sizes size_isoformat [OF assms(1)] size_state [of "tk_state record"]
    by (simp add: size_obj member_size_def key_sizes)
  moreover have "sum_list (map member_size ?clock) \<le> 100 \<and> length ?clock \<le> 2"
  proof (cases now)
    case (Some t)
    then show ?thesis
      using assms(2) size_isoformat [of t] by (simp add: member_size_def key_sizes size_atoms)
  qed simp
  then have "sum_list (map member_size ?flags) + length ?flags \<le> 300"
    using size_flag [of "''last_result_truncated''" rtr] size_flag [of "''error_truncated''" etr]
      size_flag [of "''pending_review_truncated''" vtr] size_flag [of "''artifacts_truncated''" atr]
    by (simp add: key_sizes del: length_0_conv)
  moreover have "json_encoded_size (J_obj (?base @ ?flags))
      \<le> json_encoded_size (J_obj ?base) + sum_list (map member_size ?flags) + length ?flags"
    by (rule size_obj_append)
  ultimately have "json_encoded_size (J_obj (?base @ ?flags)) \<le> 460300"
    by linarith
  then show ?thesis
    unfolding fields by (simp add: wire_limits)
qed

section \<open>Every projection is well formed\<close>

text \<open>A Python string holds code points up to U+10FFFF, surrogates included.\<close>

definition pystr_ok :: "pystr \<Rightarrow> bool" where
  "pystr_ok s \<longleftrightarrow> (\<forall>c \<in> set s. c < 1114112)"

fun pyval_ok :: "pyval \<Rightarrow> bool" where
  "pyval_ok (PStr s) = pystr_ok s"
| "pyval_ok (PList vs) = (\<forall>v \<in> set vs. pyval_ok v)"
| "pyval_ok (PDict d) = (\<forall>kv \<in> set d. pyval_ok (snd kv))"
| "pyval_ok _ = True"

definition artifact_ok :: "artifact \<Rightarrow> bool" where
  "artifact_ok a \<longleftrightarrow> pystr_ok (af_artifact_id a) \<and> pystr_ok (af_name a) \<and> pystr_ok (af_content_type a)
     \<and> (\<forall>c. af_caption a = Some c \<longrightarrow> pystr_ok c)"

definition record_ok :: "task_record \<Rightarrow> bool" where
  "record_ok r \<longleftrightarrow> datetime_ok (tk_updated_at r) \<and> (\<forall>s. tk_result r = Some s \<longrightarrow> pystr_ok s)
     \<and> (\<forall>s. tk_error r = Some s \<longrightarrow> pystr_ok s) \<and> (\<forall>d. tk_pending_review r = Some d \<longrightarrow> pyval_ok (PDict d))
     \<and> (\<forall>a \<in> set (tk_artifacts r). artifact_ok a)"

lemma normalize_scalar: "pystr_ok s \<Longrightarrow> scalar_text (normalize_task_event_text s)"
  by (auto simp: normalize_task_event_text_def pystr_ok_def scalar_text_def list_ex_iff)

lemma scalar_take: "scalar_text s \<Longrightarrow> scalar_text (take n s)"
  by (auto simp: scalar_text_def dest: in_set_takeD)

lemma bounded_text_plain:
  "bounded_text mc mb v = (t, tr) \<Longrightarrow> (\<forall>s. v = Some s \<longrightarrow> pystr_ok s) \<Longrightarrow> json_plain (json_opt t)"
  by (auto simp: bounded_text_def json_opt_def Let_def intro!: scalar_take normalize_scalar split: option.splits if_splits)

lemma bounded_short_plain: "bounded_short s = (t, tr) \<Longrightarrow> pystr_ok s \<Longrightarrow> scalar_text t"
  using bounded_text_plain [of max_short_event_text_length max_short_event_text_json_bytes "Some s"]
  by (auto simp: bounded_short_def json_opt_def scalar_text_def split: prod.splits option.splits)

lemma nonempty_str_ok: "nonempty_str v = Some s \<Longrightarrow> pyval_ok v \<Longrightarrow> pystr_ok s"
  by (cases v) (auto simp: nonempty_str_def split: if_splits)

lemma dict_get_ok: "pyval_ok (PDict d) \<Longrightarrow> pyval_ok (dict_get k d)"
  by (auto simp: dict_get_def split: option.split dest!: map_of_SomeD)

lemma scalar_str: "list_all (\<lambda>c. of_char c < (55296 :: nat)) a \<Longrightarrow> scalar_text (str a)"
  by (auto simp: scalar_text_def str_def list_all_iff)

lemma key_scalars [simp]:
  "scalar_text (str ''review_id'')" "scalar_text (str ''source_task_id'')" "scalar_text (str ''action_requests'')"
  "scalar_text (str ''review_configs'')" "scalar_text (str ''artifact_id'')" "scalar_text (str ''name'')"
  "scalar_text (str ''caption'')" "scalar_text (str ''content_type'')" "scalar_text (str ''size'')"
  "scalar_text (str ''run_count'')" "scalar_text (str ''status'')" "scalar_text (str ''last_result'')"
  "scalar_text (str ''error'')" "scalar_text (str ''updated_at'')" "scalar_text (str ''pending_review'')"
  "scalar_text (str ''artifacts'')" "scalar_text (str ''last_result_truncated'')"
  "scalar_text (str ''error_truncated'')" "scalar_text (str ''pending_review_truncated'')"
  "scalar_text (str ''artifacts_truncated'')" "scalar_text (str ''reconciled'')" "scalar_text (str ''observed_at'')"
  "scalar_text (str ''action_name'')" "scalar_text (str ''allowed_decisions'')"
  by (simp_all add: scalar_text_def str_def)

lemma short_member_plain:
  assumes "bounded_short u = (t, b)" and "nonempty_str v = Some u" and "pyval_ok v"
  shows "scalar_text t"
  by (rule bounded_short_plain [OF assms(1) nonempty_str_ok [OF assms(2,3)]])

lemma decisions_plain:
  "project_decisions vs tr = (ds, tr') \<Longrightarrow> \<forall>v \<in> set vs. pyval_ok v \<Longrightarrow> \<forall>d \<in> set ds. json_plain d"
proof (induction vs tr arbitrary: ds tr' rule: project_decisions.induct)
  case (2 choice rest tr)
  have ok: "pyval_ok choice" "\<forall>v \<in> set rest. pyval_ok v"
    using 2(4) by simp_all
  show ?case
  proof (cases "nonempty_str choice")
    case None
    then show ?thesis
      using 2(1) [OF None _ ok(2)] 2(3) by simp
  next
    case (Some u)
    obtain t b where t: "bounded_short u = (t, b)" by fastforce
    obtain ds2 tr2 where r: "project_decisions rest (tr \<or> b) = (ds2, tr2)" by fastforce
    have "scalar_text t"
      by (rule short_member_plain [OF t Some ok(1)])
    moreover have "\<forall>d \<in> set ds2. json_plain d"
      by (rule 2(2) [OF Some t [symmetric] r ok(2)])
    ultimately show ?thesis
      using 2(3) Some t r by auto
  qed
qed simp

lemma review_decisions_plain:
  assumes "project_review_decisions v = (ds, tr)" and "pyval_ok v"
  shows "\<forall>d \<in> set ds. json_plain d"
proof (cases v)
  case (PList vs)
  then have "project_decisions (take max_review_decisions vs) (length vs > max_review_decisions) = (ds, tr)"
    using assms(1) by (simp add: project_review_decisions_def)
  moreover have "\<forall>v \<in> set (take max_review_decisions vs). pyval_ok v"
    using assms(2) PList by (auto dest: in_set_takeD)
  ultimately show ?thesis
    by (rule decisions_plain)
qed (use assms in \<open>auto simp: project_review_decisions_def\<close>)

text \<open>One step of the two list projections, for an item that carries a name and for one that does not.\<close>

definition item_name :: "pystr \<Rightarrow> pyval \<Rightarrow> (pydict \<times> pystr) option" where
  "item_name key item = (case item of PDict d \<Rightarrow> map_option (Pair d) (nonempty_str (dict_get key d)) | _ \<Rightarrow> None)"

lemma project_actions_step:
  "project_actions projected (item # rest) actions tr =
     (case item_name (str ''name'') item of
        None \<Rightarrow> project_actions projected rest actions True
      | Some (d, name) \<Rightarrow>
          (let candidate = actions @ [J_obj [(str ''name'', J_str (fst (bounded_short name)))]]
           in if json_encoded_size (J_obj (dict_put (str ''action_requests'') (J_list candidate) projected))
                 > max_pending_review_json_bytes
              then (actions, True)
              else project_actions projected rest candidate (tr \<or> snd (bounded_short name))))"
  by (simp add: item_name_def Let_def split: pyval.split option.split prod.split)

lemma project_configs_step:
  "project_configs projected (item # rest) configs tr =
     (case item_name (str ''action_name'') item of
        None \<Rightarrow> project_configs projected rest configs True
      | Some (d, name) \<Rightarrow>
          (let ds = project_review_decisions (dict_get (str ''allowed_decisions'') d);
               candidate = configs @ [J_obj [(str ''action_name'', J_str (fst (bounded_short name))),
                                             (str ''allowed_decisions'', J_list (fst ds))]]
           in if json_encoded_size (J_obj (dict_put (str ''review_configs'') (J_list candidate) projected))
                 > max_pending_review_json_bytes
              then (configs, True)
              else project_configs projected rest candidate (tr \<or> snd (bounded_short name) \<or> snd ds)))"
  by (simp add: item_name_def Let_def split: pyval.split option.split prod.split)

lemma item_name_plain:
  assumes "item_name key item = Some (d, name)" and "pyval_ok item"
  shows "scalar_text (fst (bounded_short name))" and "pyval_ok (dict_get k d)"
proof -
  have item: "item = PDict d" "nonempty_str (dict_get key d) = Some name"
    using assms(1) by (auto simp: item_name_def split: pyval.splits)
  have d: "pyval_ok (dict_get k d)" for k
    by (rule dict_get_ok) (use assms(2) item(1) in simp)
  then show "pyval_ok (dict_get k d)" .
  show "scalar_text (fst (bounded_short name))"
    by (rule short_member_plain [OF prod.collapse [symmetric] item(2) d])
qed

lemma actions_plain:
  "\<forall>v \<in> set items. pyval_ok v \<Longrightarrow> \<forall>a \<in> set actions. json_plain a
    \<Longrightarrow> \<forall>a \<in> set (fst (project_actions projected items actions tr)). json_plain a"
proof (induction items arbitrary: actions tr)
  case (Cons item rest)
  show ?case
  proof (cases "item_name (str ''name'') item")
    case None
    then show ?thesis
      using Cons by (simp add: project_actions_step del: project_actions.simps)
  next
    case (Some dn)
    have name: "scalar_text (fst (bounded_short (snd dn)))"
      by (rule item_name_plain [of "str ''name''" item "fst dn"]) (use Some Cons.prems in simp_all)
    have "\<forall>a \<in> set (actions @ [J_obj [(str ''name'', J_str (fst (bounded_short (snd dn))))]]). json_plain a"
      using Cons.prems(2) name by simp
    note rest = Cons.IH [OF _ this]
    show ?thesis
      using rest Cons.prems Some
      by (simp add: project_actions_step Let_def case_prod_beta del: project_actions.simps)
  qed
qed simp

lemma configs_plain:
  "\<forall>v \<in> set items. pyval_ok v \<Longrightarrow> \<forall>c \<in> set configs. json_plain c
    \<Longrightarrow> \<forall>c \<in> set (fst (project_configs projected items configs tr)). json_plain c"
proof (induction items arbitrary: configs tr)
  case (Cons item rest)
  show ?case
  proof (cases "item_name (str ''action_name'') item")
    case None
    then show ?thesis
      using Cons by (simp add: project_configs_step del: project_configs.simps)
  next
    case (Some dn)
    obtain ds tr2 where ds: "project_review_decisions (dict_get (str ''allowed_decisions'') (fst dn)) = (ds, tr2)"
      by fastforce
    have name: "scalar_text (fst (bounded_short (snd dn)))"
      by (rule item_name_plain [of "str ''action_name''" item "fst dn"]) (use Some Cons.prems in simp_all)
    have "pyval_ok (dict_get (str ''allowed_decisions'') (fst dn))"
      by (rule item_name_plain [of "str ''action_name''" item "fst dn" "snd dn"]) (use Some Cons.prems in simp_all)
    then have "\<forall>d \<in> set ds. json_plain d"
      by (rule review_decisions_plain [OF ds])
    then have "\<forall>c \<in> set (configs @ [J_obj [(str ''action_name'', J_str (fst (bounded_short (snd dn)))),
        (str ''allowed_decisions'', J_list ds)]]). json_plain c"
      using Cons.prems(2) name by simp
    note rest = Cons.IH [OF _ this]
    show ?thesis
      using rest Cons.prems Some ds
      by (simp add: project_configs_step Let_def case_prod_beta del: project_configs.simps)
  qed
qed simp

lemma plain_dict_put:
  assumes "json_plain (J_obj d)" and "scalar_text k" and "json_plain v"
  shows "json_plain (J_obj (dict_put k v d))"
proof -
  have keys: "map fst (dict_put k v d) = (if k \<in> fst ` set d then map fst d else map fst d @ [k])"
    by (force simp: dict_put_def image_iff)
  have "set (dict_put k v d) \<subseteq> insert (k, v) (set d)"
    by (auto simp: dict_put_def split: if_splits)
  then have "\<forall>kv \<in> set (dict_put k v d). scalar_text (fst kv) \<and> json_plain (snd kv)"
    using assms by auto
  then show ?thesis
    using assms(1) keys by simp
qed

lemma review_id_plain:
  assumes "json_plain (J_obj (fst acc))" and "pyval_ok (PDict d)" and "scalar_text key"
  shows "json_plain (J_obj (fst (project_review_id key d acc)))"
proof (cases "nonempty_str (dict_get key d)")
  case (Some u)
  have "scalar_text (fst (bounded_short u))"
    by (rule short_member_plain [OF prod.collapse [symmetric] Some dict_get_ok [OF assms(2)]])
  then have "json_plain (J_obj (dict_put key (J_str (fst (bounded_short u))) (fst acc)))"
    by (intro plain_dict_put assms) simp
  then show ?thesis
    using Some by (simp add: project_review_id_def Let_def case_prod_beta del: json_plain.simps)
qed (use assms in \<open>simp add: project_review_id_def Let_def case_prod_beta\<close>)

lemma review_actions_plain:
  assumes "json_plain (J_obj (fst acc))" and "pyval_ok (PDict d)"
  shows "json_plain (J_obj (fst (project_review_actions d acc)))"
proof (cases "dict_get (str ''action_requests'') d")
  case (PList items)
  have "pyval_ok (PList items)"
    using dict_get_ok [OF assms(2), of "str ''action_requests''"] by (simp only: PList)
  then have "\<forall>v \<in> set (take max_review_items items). pyval_ok v"
    by (auto dest: in_set_takeD)
  then have "json_plain (J_list (fst (project_actions (fst acc) (take max_review_items items) [] (snd acc))))"
    unfolding json_plain.simps by (rule actions_plain) simp
  then have "json_plain (J_obj (dict_put (str ''action_requests'')
      (J_list (fst (project_actions (fst acc) (take max_review_items items) [] (snd acc)))) (fst acc)))"
    by (intro plain_dict_put assms) simp_all
  then show ?thesis
    using PList by (simp add: project_review_actions_def case_prod_beta del: json_plain.simps)
qed (use assms in \<open>simp_all add: project_review_actions_def case_prod_beta\<close>)

lemma review_configs_plain:
  assumes "json_plain (J_obj (fst acc))" and "pyval_ok (PDict d)"
  shows "json_plain (J_obj (fst (project_review_configs d acc)))"
proof (cases "dict_get (str ''review_configs'') d")
  case (PList items)
  let ?cs = "fst (project_configs (fst acc) (take max_review_items items) [] (length items > max_review_items))"
  have "pyval_ok (PList items)"
    using dict_get_ok [OF assms(2), of "str ''review_configs''"] by (simp only: PList)
  then have "\<forall>v \<in> set (take max_review_items items). pyval_ok v"
    by (auto dest: in_set_takeD)
  then have "json_plain (J_list ?cs)"
    unfolding json_plain.simps by (rule configs_plain) simp
  then have "json_plain (J_obj (dict_put (str ''review_configs'') (J_list ?cs) (fst acc)))"
    by (intro plain_dict_put assms) simp_all
  then show ?thesis
    using PList by (simp add: project_review_configs_def case_prod_beta del: json_plain.simps)
qed (use assms in \<open>simp_all add: project_review_configs_def case_prod_beta\<close>)

lemma pending_review_plain:
  assumes "\<forall>d. v = Some d \<longrightarrow> pyval_ok (PDict d)"
  shows "json_plain (fst (project_pending_review v))"
proof (cases "v = None \<or> v = Some []")
  case False
  then obtain d where d: "v = Some d" "d \<noteq> []" by auto
  then have ok: "pyval_ok (PDict d)" using assms by blast
  have "json_plain (J_obj (fst (project_review_configs d (project_review_actions d
      (project_review_id (str ''source_task_id'') d (project_review_id (str ''review_id'') d ([], False)))))))"
    by (intro review_configs_plain review_actions_plain review_id_plain ok) simp_all
  then show ?thesis
    using d by (cases d) (simp_all add: project_pending_review_def case_prod_beta del: json_plain.simps(3))
qed (auto simp: project_pending_review_def)

lemma artifact_plain:
  assumes "artifact_ok a"
  shows "json_plain (fst (project_artifact a))"
proof -
  have short: "scalar_text (fst (bounded_short u))" if "pystr_ok u" for u
    using bounded_short_plain [OF prod.collapse [symmetric] that] .
  have "json_plain (json_opt (fst (bounded_text mc mb (af_caption a))))" for mc mb
    using bounded_text_plain [OF prod.collapse [symmetric], of "af_caption a" mc mb] assms
    by (simp add: artifact_ok_def)
  then show ?thesis
    using assms short by (simp add: project_artifact_def case_prod_beta Let_def artifact_ok_def)
qed

lemma artifact_loop_plain:
  "\<forall>a \<in> set values. artifact_ok a \<Longrightarrow> \<forall>v \<in> set projected. json_plain v
    \<Longrightarrow> \<forall>v \<in> set (fst (artifact_loop values projected n tr)). json_plain v"
proof (induction "values" arbitrary: projected n tr)
  case (Cons a rest)
  have "\<forall>v \<in> set (projected @ [fst (project_artifact a)]). json_plain v"
    using Cons.prems artifact_plain by auto
  note step = Cons.IH [OF _ this]
  show ?case
    using step Cons.prems by (auto simp: case_prod_beta Let_def simp del: set_append)
qed simp

lemma artifacts_plain:
  assumes "\<forall>a \<in> set arts. artifact_ok a"
  shows "json_plain (J_list (fst (project_artifacts arts)))"
proof -
  have "\<forall>a \<in> set (take max_event_artifacts arts). artifact_ok a"
    using assms by (auto dest: in_set_takeD)
  then have "\<forall>v \<in> set (fst (artifact_loop (take max_event_artifacts arts) [] n tr)). json_plain v" for n tr
    by (rule artifact_loop_plain) simp
  then show ?thesis
    by (simp add: project_artifacts_def case_prod_beta)
qed

lemma iso_scalar: "datetime_ok t \<Longrightarrow> scalar_text (isoformat t)"
  using isoformat_text(2) [of t] by (auto simp: scalar_text_def list_all_iff iso_char_def)

lemma state_scalar: "scalar_text (task_state_name st)"
  by (cases st) (simp_all add: scalar_text_def str_def)


lemma lifecycle_fields_plain:
  assumes "record_ok record" and "\<forall>t. now = Some t \<longrightarrow> datetime_ok t"
  shows "json_plain (J_obj (lifecycle_fields record now))"
proof -
  let ?mt = "max_event_text_length" and ?mb = "max_lifecycle_text_json_bytes"
  have texts: "json_plain (json_opt (fst (bounded_text ?mt ?mb v)))" if "\<forall>s. v = Some s \<longrightarrow> pystr_ok s" for v
    by (rule bounded_text_plain [OF prod.collapse [symmetric] that])
  have 1: "json_plain (json_opt (fst (bounded_text ?mt ?mb (tk_result record))))"
      "json_plain (json_opt (fst (bounded_text ?mt ?mb (tk_error record))))"
    using assms(1) by (auto intro: texts simp: record_ok_def)
  have 2: "json_plain (fst (project_pending_review (tk_pending_review record)))"
    using assms(1) by (intro pending_review_plain) (auto simp only: record_ok_def)
  have 3: "json_plain (J_list (fst (project_artifacts (tk_artifacts record))))"
    using assms(1) by (intro artifacts_plain) (auto simp only: record_ok_def)
  have 4: "scalar_text (isoformat (tk_updated_at record))"
    using assms(1) by (simp add: iso_scalar record_ok_def)
  have 5: "\<forall>t. now = Some t \<longrightarrow> scalar_text (isoformat t)"
    using assms(2) iso_scalar by blast
  show ?thesis
    using 1 2 3 4 5
    by (cases now) (auto simp: lifecycle_fields_def case_prod_beta Let_def flag_def state_scalar)
qed

text \<open>
  C39. The lifecycle event of every Task record is projected without an error: whatever the size of
  its result, error, review and artifacts, the data stays within the durable wire budget of 512 KiB
  of UTF-8, and the JSON text a reader gets parses back to the very data.
\<close>

theorem lifecycle_event_fits:
  assumes "record_ok record" and "\<forall>t. now = Some t \<longrightarrow> datetime_ok t"
  shows "\<exists>data. lifecycle_event_data record now = Inr data
    \<and> json_encoded_size (J_obj data) \<le> max_durable_task_event_data_bytes
    \<and> json_loads (dumps_wire (J_obj data)) = Some (J_obj data)"
proof -
  have "json_encoded_size (J_obj (lifecycle_fields record now)) \<le> max_durable_task_event_data_bytes"
    using assms by (intro lifecycle_fields_size) (simp_all add: record_ok_def)
  then show ?thesis
    using json_loads_wire [OF lifecycle_fields_plain [OF assms]]
    by (simp add: lifecycle_event_data_def ensure_durable_event_data_fits_def)
qed

lemma utf8_bytes_range: "scalar_text s \<Longrightarrow> b \<in> set (utf8_bytes s) \<Longrightarrow> b < 256"
  by (auto simp: utf8_bytes_def utf8_char_def scalar_text_def split: if_splits)

section \<open>Cursors read back\<close>

lemma cursor_object:
  "json_sort_keys (J_obj [(str ''v'', J_int v), (str ''task'', J_str t), (str ''run'', J_int r), (str ''event'', J_int e)])
    = J_obj [(str ''event'', J_int e), (str ''run'', J_int r), (str ''task'', J_str t), (str ''v'', J_int v)]"
  by (simp add: str_def)

lemma u_escape_ascii: "b \<in> set (u_escape n) \<Longrightarrow> b < 128"
proof -
  have "hex_digit (m mod 16) < 128" for m
    using mod_less_divisor [of 16 m] by (simp add: hex_digit_def del: mod_less_divisor)
  then show "b \<in> set (u_escape n) \<Longrightarrow> b < 128"
    by (auto simp: u_escape_def)
qed

lemma escape_ascii: "b \<in> set (escape_char c) \<Longrightarrow> b < 128"
  by (auto simp: escape_char_def Let_def u_escape_ascii split: if_splits)

definition cursor_text :: "pystr \<Rightarrow> int \<Rightarrow> int \<Rightarrow> pystr" where
  "cursor_text t r e = dumps_compact (J_obj [(str ''event'', J_int e), (str ''run'', J_int r),
     (str ''task'', J_str t), (str ''v'', J_int task_event_cursor_version)])"

lemma cursor_text_ascii: "b \<in> set (cursor_text t r e) \<Longrightarrow> b < 128"
proof -
  have dec: "b < 128" if "b \<in> set (dec i)" for b i
    using dec_chars [OF that] by auto
  have quoted: "b < 128" if "b \<in> set (quote_json escape_char s)" for b s
    using that by (auto simp: quote_json_def escape_ascii)
  show "b \<in> set (cursor_text t r e) \<Longrightarrow> b < 128"
    by (auto simp: cursor_text_def dumps_compact_def join_def str_def dest: dec quoted)
qed

lemma cursor_bytes:
  "utf8_bytes (cursor_text t r e) = cursor_text t r e" "\<forall>b \<in> set (cursor_text t r e). b < 256"
  "encode_task_event_cursor t r e = rstrip_char 61 (b64_encode (cursor_text t r e))"
proof -
  have "\<forall>b \<in> set (cursor_text t r e). b < 128"
    using cursor_text_ascii by blast
  then show bytes: "utf8_bytes (cursor_text t r e) = cursor_text t r e"
    by (rule utf8_ascii)
  show "\<forall>b \<in> set (cursor_text t r e). b < 256"
    using cursor_text_ascii by fastforce
  show "encode_task_event_cursor t r e = rstrip_char 61 (b64_encode (cursor_text t r e))"
    by (simp only: encode_task_event_cursor_def dumps_compact_sorted_def cursor_object cursor_text_def [symmetric] bytes)
qed

lemma cursor_payload_encode:
  assumes "scalar_text task_id"
  shows "cursor_payload (encode_task_event_cursor task_id run_count event_id)
    = Some (J_obj [(str ''event'', J_int event_id), (str ''run'', J_int run_count),
        (str ''task'', J_str task_id), (str ''v'', J_int task_event_cursor_version)])"
proof -
  let ?text = "cursor_text task_id run_count event_id"
  have "b64_decode (b64_pad (encode_task_event_cursor task_id run_count event_id)) = Some ?text"
    by (simp only: cursor_bytes(3) b64_pad_strip [OF cursor_bytes(2)] b64_decode_encode [OF cursor_bytes(2)])
  moreover have "utf8_decode ?text = Some ?text"
    using utf8_decode_bytes [of ?text] cursor_bytes(1) cursor_text_ascii by (fastforce simp: scalar_text_def)
  moreover have "json_loads ?text = Some (J_obj [(str ''event'', J_int event_id), (str ''run'', J_int run_count),
        (str ''task'', J_str task_id), (str ''v'', J_int task_event_cursor_version)])"
    unfolding cursor_text_def by (rule json_loads_compact) (use assms in \<open>simp add: scalar_text_def str_def\<close>)
  ultimately show ?thesis
    by (simp add: cursor_payload_def)
qed

lemma b64_encode_nonempty: "bs \<noteq> [] \<Longrightarrow> \<forall>b \<in> set bs. b < 256 \<Longrightarrow> rstrip_char 61 (b64_encode bs) \<noteq> []"
  using b64_pad_strip [of bs] by (cases bs rule: b64_encode.cases) (auto simp: b64_pad_def)

lemma encode_cursor_nonempty: "encode_task_event_cursor t r e \<noteq> []"
proof -
  have "cursor_text t r e \<noteq> []"
    by (simp add: cursor_text_def dumps_compact_def str_def)
  then show ?thesis
    unfolding cursor_bytes(3) by (rule b64_encode_nonempty [OF _ cursor_bytes(2)])
qed

text \<open>
  A cursor written for an event reads back to that event, for the Task and run it was issued for
  and for no other: any other Task or run gets a binding mismatch and a cursor at a non-positive
  position is refused.
\<close>

theorem cursor_round_trip:
  assumes "scalar_text task_id"
    and "length (encode_task_event_cursor task_id run_count event_id) \<le> max_task_event_cursor_length"
  shows "decode_task_event_cursor (encode_task_event_cursor task_id run_count event_id) task' run' =
    (if task' \<noteq> task_id \<or> run' \<noteq> run_count then Inl Cursor_binding_mismatch
     else if event_id \<le> 0 then Inl Invalid_cursor_position else Inr event_id)"
  using assms(2) encode_cursor_nonempty [of task_id run_count event_id]
  by (auto simp: decode_task_event_cursor_def cursor_payload_encode [OF assms(1)])


theorem cursor_round_trip_witness:
  "decode_task_event_cursor (encode_task_event_cursor (str ''t1'') 2 7) (str ''t1'') 2 = Inr 7
   \<and> decode_task_event_cursor (encode_task_event_cursor (str ''t1'') 2 7) (str ''t1'') 3 = Inl Cursor_binding_mismatch"
proof -
  have "scalar_text (str ''t1'')"
    by (simp add: scalar_text_def str_def)
  moreover have "length (encode_task_event_cursor (str ''t1'') 2 7) \<le> max_task_event_cursor_length"
    by code_simp
  ultimately show ?thesis
    using cursor_round_trip [of "str ''t1''" 2 7 "str ''t1''" 2] cursor_round_trip [of "str ''t1''" 2 7 "str ''t1''" 3]
    by simp
qed

theorem bounded_text_maximal_witness:
  "normalize_task_event_text [97, 10, 55296, 99] = [97, 10, 65533, 99]
   \<and> (\<exists>n. bounded_text 3 6 (Some [97, 10, 55296, 99]) =
      (Some (take n (normalize_task_event_text [97, 10, 55296, 99])),
       take n (normalize_task_event_text [97, 10, 55296, 99]) \<noteq> [97, 10, 55296, 99])
    \<and> n \<le> 3 \<and> n \<le> length [97, 10, 55296, 99 :: nat]
    \<and> json_encoded_size (J_str (take n (normalize_task_event_text [97, 10, 55296, 99]))) \<le> 6
    \<and> (\<forall>k > n. k \<le> 3 \<longrightarrow> k \<le> length [97, 10, 55296, 99 :: nat] \<longrightarrow>
          6 < json_encoded_size (J_str (take k (normalize_task_event_text [97, 10, 55296, 99])))))"
proof
  show "normalize_task_event_text [97, 10, 55296, 99] = [97, 10, 65533, 99]"
    by (simp add: normalize_task_event_text_def)
qed (rule bounded_text_maximal, simp)

definition review_sample :: pydict where
  "review_sample = [(str ''review_id'', PStr (str ''r1'')), (str ''action_requests'',
     PList [PDict [(str ''name'', PStr [115, 104, 55296]), (str ''args'', PDict [])], PNone]),
     (str ''review_configs'', PList [PDict [(str ''action_name'', PStr (str ''sh'')),
       (str ''allowed_decisions'', PList [PStr (str ''approve''), PInt 3])]])]"

definition record_sample :: task_record where
  "record_sample = \<lparr> tk_task_id = str ''t1'', tk_agent_name = str ''a'', tk_state = TS_waiting_for_human,
     tk_thread_id = str ''h'', tk_parent_task_id = None, tk_root_task_id = str ''t1'', tk_depth = 0,
     tk_created_at = 0, tk_updated_at = 951782400000000, tk_result = Some (str ''out''), tk_error = None,
     tk_run_count = 1, tk_route_kind = RK_local, tk_upstream_task_id = None, tk_parent_thread_id = None,
     tk_mailbox_suppressed = False, tk_mailbox_delivered = False, tk_webhook = None,
     tk_delegation_root_id = None, tk_delegation_max_depth = None, tk_delegation_max_tasks_per_root = None,
     tk_delegation_visited_nodes = [], tk_permission_profile = str ''default'', tk_effective_skill_names = [],
     tk_skill_view_path = None, tk_skill_view_hash = None, tk_pending_review = Some review_sample,
     tk_artifacts = [\<lparr> af_artifact_id = str ''f1'', af_path = str ''/f'', af_name = str ''f'', af_caption = None,
       af_content_type = str ''text/plain'', af_size = 3, af_run_count = 1 \<rparr>],
     tk_external_operation = None, tk_external_operation_identity = None, tk_external_operation_run_count = None,
     tk_external_outcome_uncertain = False, tk_mailbox_wakeup_sequence = 0 \<rparr>"

theorem lifecycle_event_fits_witness:
  "map_option (take 1) (case lifecycle_event_data record_sample (Some 1000000) of Inl e \<Rightarrow> None | Inr d \<Rightarrow> Some d)
     = Some [(str ''status'', J_str (str ''waiting_for_human''))]
   \<and> (\<exists>data. lifecycle_event_data record_sample (Some 1000000) = Inr data
     \<and> json_encoded_size (J_obj data) \<le> max_durable_task_event_data_bytes
     \<and> json_loads (dumps_wire (J_obj data)) = Some (J_obj data))"
proof
  have "record_ok record_sample"
    by (simp add: record_ok_def record_sample_def review_sample_def datetime_ok_def pystr_ok_def artifact_ok_def str_def)
  then show "\<exists>data. lifecycle_event_data record_sample (Some 1000000) = Inr data
     \<and> json_encoded_size (J_obj data) \<le> max_durable_task_event_data_bytes
     \<and> json_loads (dumps_wire (J_obj data)) = Some (J_obj data)"
    by (rule lifecycle_event_fits) (simp add: datetime_ok_def)
  then show "map_option (take 1) (case lifecycle_event_data record_sample (Some 1000000) of Inl e \<Rightarrow> None | Inr d \<Rightarrow> Some d)
     = Some [(str ''status'', J_str (str ''waiting_for_human''))]"
    by (auto simp: lifecycle_event_data_def ensure_durable_event_data_fits_def lifecycle_fields_def case_prod_beta
        record_sample_def split: if_splits)
qed

end
