(* ===== verification/Sse_Stream.thy ===== *)
theory Sse_Stream
  imports Wire_Projection
begin

text \<open>
  The server-sent event stream between two Gateways: \<open>gateway_protocol/sse.py\<close> with the bounded
  body reader and the strict JSON decoder of \<open>gateway_protocol/contracts.py\<close>.  A byte is a number
  below 256, a chunk of the response a list of bytes.  An asynchronous generator is the list of what
  it yields together with the error that ends it, if one does.
\<close>

section \<open>Bounded bodies and strict JSON\<close>

datatype body_error = Body_value_error pystr | Body_limit | Body_timeout

text \<open>One step of the chunk iterator: a chunk arrives, or the deadline strikes while it is awaited.\<close>

datatype body_item = Chunk "nat list" | Deadline

fun read_chunks :: "int \<Rightarrow> body_item list \<Rightarrow> nat list \<Rightarrow> body_error + nat list" where
  "read_chunks max_bytes [] body = Inr body"
| "read_chunks max_bytes (Deadline # items) body = Inl Body_timeout"
| "read_chunks max_bytes (Chunk chunk # items) body =
     (if chunk = [] then read_chunks max_bytes items body
      else let remaining = max_bytes + 1 - int (length body)
           in if int (length chunk) \<ge> remaining then Inl Body_limit
              else read_chunks max_bytes items (body @ chunk))"

definition read_bounded_bytes :: "int \<Rightarrow> rat option \<Rightarrow> body_item list \<Rightarrow> body_error + nat list" where
  "read_bounded_bytes max_bytes timeout_seconds chunks =
     (if max_bytes \<le> 0 then Inl (Body_value_error (str ''max_bytes must be positive''))
      else if (case timeout_seconds of None \<Rightarrow> False | Some t \<Rightarrow> t \<le> 0)
      then Inl (Body_value_error (str ''timeout_seconds must be positive''))
      else read_chunks max_bytes chunks [])"

definition max_json_depth :: nat where "max_json_depth = 100"

fun json_depth_scan :: "pystr \<Rightarrow> nat \<Rightarrow> bool \<Rightarrow> bool \<Rightarrow> bool" where
  "json_depth_scan [] depth in_string escaped = True"
| "json_depth_scan (c # s) depth in_string escaped =
     (if in_string then
        if escaped then json_depth_scan s depth True False
        else if c = 92 then json_depth_scan s depth True True
        else if c = 34 then json_depth_scan s depth False False
        else json_depth_scan s depth True False
      else if c = 34 then json_depth_scan s depth True escaped
      else if c = 91 \<or> c = 123 then
        (if depth + 1 > max_json_depth then False else json_depth_scan s (depth + 1) False escaped)
      else if c = 93 \<or> c = 125 then json_depth_scan s (depth - 1) False escaped
      else json_depth_scan s depth False escaped)"

definition validate_json_depth :: "pystr \<Rightarrow> bool" where
  "validate_json_depth value = json_depth_scan value 0 False False"

text \<open>
  \<open>parse_constant\<close> is called for a \<open>NaN\<close>, \<open>Infinity\<close> or \<open>-Infinity\<close> in the document and refuses
  it.  Outside strings a document that parses has an N or an I only in these three words, so they are
  looked for there: the decoder fails for a document with one of them, whatever else is in it.
\<close>

fun has_constant :: "pystr \<Rightarrow> bool \<Rightarrow> bool \<Rightarrow> bool" where
  "has_constant [] in_string escaped = False"
| "has_constant (c # s) in_string escaped =
     (if in_string then
        if escaped then has_constant s True False
        else if c = 92 then has_constant s True True
        else has_constant s (c \<noteq> 34) False
      else c = 78 \<or> c = 73 \<or> has_constant s (c = 34) False)"

definition decode_strict_json_text :: "pystr \<Rightarrow> json option" where
  "decode_strict_json_text value =
     (if \<not> validate_json_depth value then None
      else if has_constant value False False then None
      else json_loads value)"

definition decode_strict_json_bytes :: "nat \<Rightarrow> nat list \<Rightarrow> json option" where
  "decode_strict_json_bytes max_bytes body =
     (if length body > max_bytes then None
      else case utf8_decode body of None \<Rightarrow> None | Some text \<Rightarrow> decode_strict_json_text text)"

section \<open>Events on the wire\<close>

definition max_sse_line_bytes :: nat where "max_sse_line_bytes = 768 * 1024"
definition max_sse_event_bytes :: nat where "max_sse_event_bytes = 768 * 1024"
definition max_sse_error_body_bytes :: int where "max_sse_error_body_bytes = 65536"

datatype sse_error = Sse_protocol pystr | Sse_unicode_encode | Sse_body_value pystr

record gateway_task_event =
  ge_event_type :: pystr
  ge_data :: "(pystr \<times> json) list"
  ge_event_id :: "pystr option"

definition is_valid_task_event_cursor :: "pystr option \<Rightarrow> bool" where
  "is_valid_task_event_cursor value =
     (case value of
        None \<Rightarrow> False
      | Some s \<Rightarrow> s \<noteq> [] \<and> length s \<le> max_task_event_cursor_length \<and> hd s \<noteq> 32 \<and> last s \<noteq> 32
                 \<and> list_all (\<lambda>c. 32 \<le> c \<and> c \<le> 126) s)"

definition read_bounded_sse_error_body :: "rat \<Rightarrow> body_item list \<Rightarrow> sse_error + nat list" where
  "read_bounded_sse_error_body timeout_seconds chunks =
     (case read_bounded_bytes max_sse_error_body_bytes (Some timeout_seconds) chunks of
        Inr body \<Rightarrow> Inr body
      | Inl Body_limit \<Rightarrow> Inl (Sse_protocol (str ''SSE error response exceeds the size limit''))
      | Inl Body_timeout \<Rightarrow> Inl (Sse_protocol (str ''SSE error response timed out''))
      | Inl (Body_value_error e) \<Rightarrow> Inl (Sse_body_value e))"

definition decode_sse_error_json :: "nat list \<Rightarrow> sse_error + json" where
  "decode_sse_error_json body =
     (case decode_strict_json_bytes (nat max_sse_error_body_bytes) body of
        None \<Rightarrow> Inl (Sse_protocol (str ''SSE error response is invalid JSON''))
      | Some v \<Rightarrow> Inr v)"

text \<open>\<open>allow_nan=False\<close>: a float that is not finite cannot be printed.\<close>

fun json_finite :: "json \<Rightarrow> bool" where
  "json_finite (J_float s) = (s \<notin> {str ''NaN'', str ''Infinity'', str ''-Infinity''})"
| "json_finite (J_list vs) = (\<forall>v \<in> set vs. json_finite v)"
| "json_finite (J_obj kvs) = (\<forall>kv \<in> set kvs. json_finite (snd kv))"
| "json_finite v = True"

definition sse_lines :: "gateway_task_event \<Rightarrow> pystr \<Rightarrow> pystr list" where
  "sse_lines event encoded_data =
     (case ge_event_id event of None \<Rightarrow> [] | Some i \<Rightarrow> [str ''id: '' @ i])
     @ [str ''event: '' @ ge_event_type event, str ''data: '' @ encoded_data]"

definition encode_gateway_task_event :: "gateway_task_event \<Rightarrow> sse_error + nat list" where
  "encode_gateway_task_event event =
     (if ge_event_type event = [] \<or> 10 \<in> set (ge_event_type event) \<or> 13 \<in> set (ge_event_type event)
      then Inl (Sse_protocol (str ''Invalid SSE event name''))
      else if ge_event_id event \<noteq> None \<and> \<not> is_valid_task_event_cursor (ge_event_id event)
      then Inl (Sse_protocol (str ''Invalid SSE event id''))
      else let encoded_data = dumps_wire (J_obj (ge_data event)) in
        (case (if json_finite (J_obj (ge_data event)) then utf8_encode encoded_data else None) of
           None \<Rightarrow> Inl (Sse_protocol (str ''SSE event data is not JSON serializable''))
         | Some encoded_data_bytes \<Rightarrow>
             if length encoded_data_bytes > max_sse_event_bytes
             then Inl (Sse_protocol (str ''SSE event data exceeds the size limit''))
             else
               (case those (map utf8_encode (sse_lines event encoded_data)) of
                  None \<Rightarrow> Inl (Sse_protocol (str ''SSE record is not valid UTF-8''))
                | Some encoded_lines \<Rightarrow>
                    if list_ex (\<lambda>line. length line > max_sse_line_bytes) encoded_lines
                    then Inl (Sse_protocol (str ''SSE line exceeds the size limit''))
                    else if sum_list (map length encoded_lines) > max_sse_event_bytes
                    then Inl (Sse_protocol (str ''SSE record exceeds the size limit''))
                    else Inr (join [10] encoded_lines @ [10, 10]))))"

text \<open>The instant of an event is only ever printed: it is kept as the text \<open>isoformat\<close> gives.\<close>

record task_stream_event =
  se_event_type :: pystr
  se_task_id :: pystr
  se_run_count :: int
  se_created_at :: pystr
  se_data :: "(pystr \<times> json) list"
  se_event_id :: "pystr option"

text \<open>The members of \<open>**event.data\<close> replace those before them that have their name.\<close>

definition gateway_event_of :: "task_stream_event \<Rightarrow> gateway_task_event" where
  "gateway_event_of event =
       \<lparr>ge_event_type = se_event_type event,
        ge_data = foldl (\<lambda>d (k, v). dict_put k v d)
          [(str ''task_id'', J_str (se_task_id event)), (str ''run_count'', J_int (se_run_count event)),
           (str ''created_at'', J_str (se_created_at event))] (se_data event),
        ge_event_id = se_event_id event\<rparr>"

definition encode_task_stream_event :: "task_stream_event \<Rightarrow> sse_error + nat list" where
  "encode_task_stream_event event = encode_gateway_task_event (gateway_event_of event)"

section \<open>Lines of a byte stream\<close>

record line_state =
  ls_buffer :: "nat list"
  ls_skip_lf :: bool
  ls_first_line :: bool

definition line_start :: line_state where
  "line_start = \<lparr>ls_buffer = [], ls_skip_lf = False, ls_first_line = True\<rparr>"

definition remove_bom :: "pystr \<Rightarrow> pystr" where
  "remove_bom s = (if take 1 s = [65279] then drop 1 s else s)"

definition decode_utf8_sse_line :: "nat list \<Rightarrow> bool \<Rightarrow> sse_error + pystr" where
  "decode_utf8_sse_line value strip_bom =
     (case utf8_decode value of
        None \<Rightarrow> Inl (Sse_protocol (str ''SSE stream is not valid UTF-8''))
      | Some decoded \<Rightarrow> Inr (if strip_bom then remove_bom decoded else decoded))"

text \<open>One byte: the line it completes, if it completes one, and the next state.\<close>

definition line_byte :: "nat \<Rightarrow> line_state \<Rightarrow> sse_error + pystr option \<times> line_state" where
  "line_byte byte st =
     (let skip = ls_skip_lf st; st = st\<lparr>ls_skip_lf := False\<rparr> in
      if skip \<and> byte = 10 then Inr (None, st)
      else if byte = 10 \<or> byte = 13 then
        (case decode_utf8_sse_line (ls_buffer st) (ls_first_line st) of
           Inl e \<Rightarrow> Inl e
         | Inr line \<Rightarrow>
             Inr (Some line, st\<lparr>ls_first_line := False, ls_buffer := [], ls_skip_lf := (byte = 13)\<rparr>))
      else if length (ls_buffer st) \<ge> max_sse_line_bytes
      then Inl (Sse_protocol (str ''SSE line exceeds the size limit''))
      else Inr (None, st\<lparr>ls_buffer := ls_buffer st @ [byte]\<rparr>))"

fun line_bytes :: "nat list \<Rightarrow> line_state \<Rightarrow> pystr list \<times> (sse_error + line_state)" where
  "line_bytes [] st = ([], Inr st)"
| "line_bytes (byte # bytes) st =
     (case line_byte byte st of
        Inl e \<Rightarrow> ([], Inl e)
      | Inr (line, st') \<Rightarrow>
          (case line_bytes bytes st' of
             (lines, r) \<Rightarrow> ((case line of None \<Rightarrow> lines | Some l \<Rightarrow> l # lines), r)))"

fun line_chunks :: "nat list list \<Rightarrow> line_state \<Rightarrow> pystr list \<times> (sse_error + line_state)" where
  "line_chunks [] st = ([], Inr st)"
| "line_chunks (chunk # chunks) st =
     (case line_bytes chunk st of
        (lines, Inl e) \<Rightarrow> (lines, Inl e)
      | (lines, Inr st') \<Rightarrow> (case line_chunks chunks st' of (lines', r) \<Rightarrow> (lines @ lines', r)))"

definition lines_end :: "pystr list \<times> (sse_error + line_state) \<Rightarrow> pystr list \<times> sse_error option" where
  "lines_end result =
     (case result of
        (lines, Inl e) \<Rightarrow> (lines, Some e)
      | (lines, Inr st) \<Rightarrow>
          if ls_buffer st = [] then (lines, None)
          else (case decode_utf8_sse_line (ls_buffer st) (ls_first_line st) of
                  Inl e \<Rightarrow> (lines, Some e)
                | Inr line \<Rightarrow> (lines @ [line], None)))"

definition iter_utf8_sse_lines :: "nat list list \<Rightarrow> pystr list \<times> sse_error option" where
  "iter_utf8_sse_lines chunks = lines_end (line_chunks chunks line_start)"


section \<open>Records of a line stream\<close>

text \<open>
  \<open>str.isdecimal\<close>: the decimal digits of Unicode 15.1, which Python 3.13 carries, are runs of ten
  (fifty for the mathematical digits) from these code points.
\<close>

definition decimal_zeros :: "nat list" where
  "decimal_zeros =
     [48, 1632, 1776, 1984, 2406, 2534, 2662, 2790, 2918, 3046, 3174, 3302, 3430, 3558, 3664, 3792, 3872, 4160,
      4240, 6112, 6160, 6470, 6608, 6784, 6800, 6992, 7088, 7232, 7248, 42528, 43216, 43264, 43472, 43504, 43600,
      44016, 65296, 66720, 68912, 69734, 69872, 69942, 70096, 70384, 70736, 70864, 71248, 71360, 71472, 71904,
      72016, 72784, 73040, 73120, 73552, 92768, 92864, 93008, 120782, 120792, 120802, 120812, 120822, 123200,
      123632, 124144, 125264, 130032]"

definition is_decimal :: "pystr \<Rightarrow> bool" where
  "is_decimal s \<longleftrightarrow> s \<noteq> [] \<and> list_all (\<lambda>c. list_ex (\<lambda>z. z \<le> c \<and> c < z + 10) decimal_zeros) s"

record event_state =
  ev_type :: "pystr option"
  ev_id :: "pystr option"
  ev_data_lines :: "pystr list"
  ev_bytes :: nat

definition event_start :: event_state where
  "event_start = \<lparr>ev_type = None, ev_id = None, ev_data_lines = [], ev_bytes = 0\<rparr>"

definition decode_record ::
  "pystr option \<Rightarrow> pystr option \<Rightarrow> pystr list \<Rightarrow> sse_error + gateway_task_event" where
  "decode_record event_type event_id data_lines =
     (case event_type of
        None \<Rightarrow> Inl (Sse_protocol (str ''SSE record is missing an event name''))
      | Some t \<Rightarrow>
          if t = [] then Inl (Sse_protocol (str ''SSE record is missing an event name''))
          else if data_lines = [] then Inl (Sse_protocol (str ''SSE record is missing data''))
          else (case decode_strict_json_text (join [10] data_lines) of
                  None \<Rightarrow> Inl (Sse_protocol (str ''SSE record data is invalid JSON''))
                | Some (J_obj data) \<Rightarrow> Inr \<lparr>ge_event_type = t, ge_data = data, ge_event_id = event_id\<rparr>
                | Some _ \<Rightarrow> Inl (Sse_protocol (str ''SSE record data is not an object''))))"

text \<open>\<open>line.partition(":")\<close>, then one space of the value is dropped.\<close>

definition sse_field :: "pystr \<Rightarrow> pystr \<times> pystr" where
  "sse_field line =
     (let value = drop 1 (dropWhile (\<lambda>c. c \<noteq> 58) line)
      in (takeWhile (\<lambda>c. c \<noteq> 58) line, if take 1 value = [32] then drop 1 value else value))"

definition event_line :: "pystr \<Rightarrow> event_state \<Rightarrow> sse_error + gateway_task_event option \<times> event_state" where
  "event_line line st =
     (case utf8_encode line of
        None \<Rightarrow> Inl Sse_unicode_encode
      | Some bs \<Rightarrow>
          let line_bytes = length bs in
          if line_bytes > max_sse_line_bytes then Inl (Sse_protocol (str ''SSE line exceeds the size limit''))
          else if line = [] then
            (if ev_type st \<noteq> None \<or> ev_data_lines st \<noteq> [] \<or> ev_id st \<noteq> None
             then (case decode_record (ev_type st) (ev_id st) (ev_data_lines st) of
                     Inl e \<Rightarrow> Inl e
                   | Inr event \<Rightarrow> Inr (Some event, event_start))
             else Inr (None, event_start))
          else if take 1 line = [58] then Inr (None, st)
          else
            (case sse_field line of
               (field, value) \<Rightarrow>
                 let st = st\<lparr>ev_bytes := ev_bytes st + line_bytes\<rparr> in
                 if ev_bytes st > max_sse_event_bytes
                 then Inl (Sse_protocol (str ''SSE record exceeds the size limit''))
                 else if field = str ''event'' then Inr (None, st\<lparr>ev_type := Some value\<rparr>)
                 else if field = str ''id'' then
                   (if 0 \<in> set value then Inl (Sse_protocol (str ''SSE id contains a null character''))
                    else Inr (None, st\<lparr>ev_id := Some value\<rparr>))
                 else if field = str ''data''
                 then Inr (None, st\<lparr>ev_data_lines := ev_data_lines st @ [value]\<rparr>)
                 else if field = str ''retry'' then
                   (if value \<noteq> [] \<and> \<not> is_decimal value
                    then Inl (Sse_protocol (str ''SSE retry field is invalid'')) else Inr (None, st))
                 else Inl (Sse_protocol (str ''SSE record contains an unsupported field''))))"

fun event_lines :: "pystr list \<Rightarrow> event_state \<Rightarrow> gateway_task_event list \<times> (sse_error + event_state)" where
  "event_lines [] st = ([], Inr st)"
| "event_lines (line # lines) st =
     (case event_line line st of
        Inl e \<Rightarrow> ([], Inl e)
      | Inr (event, st') \<Rightarrow>
          (case event_lines lines st' of
             (events, r) \<Rightarrow> ((case event of None \<Rightarrow> events | Some v \<Rightarrow> v # events), r)))"

text \<open>
  The events of a line iterator that ends, or fails with the error of the lines after them.  A record
  that no blank line closes is dropped.
\<close>

definition iter_gateway_task_events ::
  "pystr list \<times> sse_error option \<Rightarrow> gateway_task_event list \<times> sse_error option" where
  "iter_gateway_task_events lines =
     (case event_lines (fst lines) event_start of
        (events, Inl e) \<Rightarrow> (events, Some e)
      | (events, Inr st) \<Rightarrow> (events, snd lines))"

section \<open>Chunk boundaries do not matter\<close>

lemma line_bytes_append:
  "line_bytes (a @ b) st =
     (case line_bytes a st of
        (lines, Inl e) \<Rightarrow> (lines, Inl e)
      | (lines, Inr st') \<Rightarrow> (case line_bytes b st' of (lines', r) \<Rightarrow> (lines @ lines', r)))"
  by (induction a st rule: line_bytes.induct) (auto split: sum.splits prod.splits option.splits)

lemma line_bytes_step:
  "line_bytes a st = (ls, Inr st') \<Longrightarrow> line_bytes b st' = (ls', r) \<Longrightarrow> line_bytes (a @ b) st = (ls @ ls', r)"
  by (simp add: line_bytes_append)

lemma line_bytes_split:
  "line_bytes (a @ b) st = (all, Inr fin) \<Longrightarrow> line_bytes a st = (ls, r)
    \<Longrightarrow> \<exists>st' ls'. r = Inr st' \<and> all = ls @ ls' \<and> line_bytes b st' = (ls', Inr fin)"
  by (auto simp: line_bytes_append split: sum.splits prod.splits)

lemma line_chunks_concat: "line_chunks chunks st = line_bytes (concat chunks) st"
  by (induction chunks st rule: line_chunks.induct)
    (auto simp: line_bytes_append split: sum.splits prod.splits)

lemma read_chunks_concat:
  "int (length body) \<le> m \<Longrightarrow> read_chunks m (map Chunk chunks) body =
     (if int (length body + length (concat chunks)) \<le> m then Inr (body @ concat chunks) else Inl Body_limit)"
proof (induction chunks arbitrary: body)
  case (Cons c cs)
  then show ?case
    by (cases "c = []") (auto simp: Let_def)
qed simp

section \<open>The text of plain data passes the strict decoder\<close>

fun json_nesting :: "json \<Rightarrow> nat" where
  "json_nesting (J_list vs) = Suc (foldr max (map json_nesting vs) 0)"
| "json_nesting (J_obj kvs) = Suc (foldr max (map (\<lambda>kv. json_nesting (snd kv)) kvs) 0)"
| "json_nesting v = 0"

lemma foldr_max_upper: "x \<in> set xs \<Longrightarrow> x \<le> foldr max xs (0 :: nat)"
  by (induction xs) auto

text \<open>Both scanners of the decoder skip over printed text: one law, proved once for any such scanner.\<close>

locale json_skipper =
  fixes inside :: "nat \<Rightarrow> pystr \<Rightarrow> bool" and after_backslash :: "nat \<Rightarrow> pystr \<Rightarrow> bool"
    and outside :: "nat \<Rightarrow> pystr \<Rightarrow> bool" and top :: nat
  assumes escape: "inside d (92 # s) = after_backslash d s"
    and escaped: "after_backslash d (c # s) = inside d s"
    and plain: "c \<noteq> 34 \<Longrightarrow> c \<noteq> 92 \<Longrightarrow> inside d (c # s) = inside d s"
    and quote_in: "outside d (34 # s) = inside d s"
    and quote_out: "inside d (34 # s) = outside d s"
    and opens: "c = 91 \<or> c = 123 \<Longrightarrow> d < top \<Longrightarrow> outside d (c # s) = outside (Suc d) s"
    and closes: "c = 93 \<or> c = 125 \<Longrightarrow> outside (Suc d) (c # s) = outside d s"
    and punctuation: "c \<in> {44, 45, 58} \<or> 48 \<le> c \<and> c \<le> 57 \<or> 97 \<le> c \<and> c \<le> 122 \<Longrightarrow> outside d (c # s) = outside d s"
begin

lemma hex_inside: "inside d (hex_digit (n mod 16) # s) = inside d s"
  using mod_less_divisor [of 16 n] by (intro plain) (auto simp: hex_digit_def simp del: mod_less_divisor)

lemma u_escape_inside: "inside d (u_escape n @ s) = inside d s"
  by (simp add: u_escape_def escape escaped hex_inside)

lemma wire_char_inside: "inside d (wire_char c @ s) = inside d s"
  by (auto simp: wire_char_def escape escaped plain u_escape_inside)

lemma quoted_outside: "outside d (quote_json wire_char t @ s) = outside d s"
proof -
  have "inside d (concat (map wire_char t) @ s) = inside d s" for s
    by (induction t) (simp_all add: wire_char_inside)
  then show ?thesis
    by (simp add: quote_json_def quote_in quote_out)
qed

lemma punctuated: "list_all (\<lambda>c. c \<in> {44, 45, 58} \<or> 48 \<le> c \<and> c \<le> 57 \<or> 97 \<le> c \<and> c \<le> 122) t \<Longrightarrow> outside d (t @ s) = outside d s"
  by (induction t) (simp_all add: punctuation)

lemma joined:
  assumes "\<And>t s. t \<in> set ts \<Longrightarrow> outside d (t @ s) = outside d s"
  shows "outside d (join [44] ts @ s) = outside d s"
proof (cases ts)
  case (Cons u us)
  have "outside d (concat (map ((@) [44]) vs) @ s) = outside d s" if "set vs \<subseteq> set us" for vs
    using that by (induction vs) (use assms Cons in \<open>simp_all add: punctuation\<close>)
  then show ?thesis
    using assms Cons by (simp add: join_def)
qed (simp add: join_def)

lemma dumped: "json_plain v \<Longrightarrow> d + json_nesting v \<le> top \<Longrightarrow> outside d (dumps_wire v @ s) = outside d s"
proof (induction v arbitrary: d s)
  case (J_list vs)
  have d: "d < top" using J_list.prems by simp
  have "outside (Suc d) (dumps_wire v @ s) = outside (Suc d) s" if "v \<in> set vs" for v s
    using foldr_max_upper [of "json_nesting v" "map json_nesting vs"] that J_list.prems by (intro J_list.IH) auto
  then have "outside (Suc d) (join [44] (map dumps_wire vs) @ s) = outside (Suc d) s" for s
    by (intro joined) auto
  then show ?case
    using d by (simp add: dumps_wire_def opens closes str_def cong: map_cong)
next
  case (J_obj kvs)
  have d: "d < top" using J_obj.prems by simp
  have "outside (Suc d) ((quote_json wire_char (fst kv) @ [58] @ dumps_wire (snd kv)) @ s) = outside (Suc d) s"
    if "kv \<in> set kvs" for kv s
  proof -
    have "json_nesting (snd kv) \<le> foldr max (map (\<lambda>kv. json_nesting (snd kv)) kvs) 0"
      using that by (intro foldr_max_upper) force
    then have "outside (Suc d) (dumps_wire (snd kv) @ s) = outside (Suc d) s"
      using that J_obj.prems by (intro J_obj.IH [of kv]) (auto simp: snds.simps)
    then show ?thesis
      by (simp add: quoted_outside punctuation)
  qed
  then have "outside (Suc d) (join [44] (map (\<lambda>kv. quote_json wire_char (fst kv) @ [58] @ dumps_wire (snd kv)) kvs) @ s)
      = outside (Suc d) s" for s
    by (intro joined) auto
  then show ?case
    using d by (simp add: dumps_wire_def opens closes str_def cong: map_cong)
next
  case (J_int i)
  then show ?case
    using dec_chars by (intro punctuated) (fastforce simp: dumps_wire_def list_all_iff)
next
  case (J_str t)
  then show ?case
    by (simp add: dumps_wire_def quoted_outside)
next
  case (J_bool b)
  then show ?case
    by (cases b) (simp_all add: dumps_wire_def str_def punctuation)
qed (simp_all add: dumps_wire_def str_def punctuation)

end

interpretation depth_skipper: json_skipper "\<lambda>d s. json_depth_scan s d True False" "\<lambda>d s. json_depth_scan s d True True"
  "\<lambda>d s. json_depth_scan s d False False" max_json_depth
  by unfold_locales auto

interpretation constant_skipper: json_skipper "\<lambda>d s. \<not> has_constant s True False" "\<lambda>d s. \<not> has_constant s True True"
  "\<lambda>d s. \<not> has_constant s False False" max_json_depth
  by unfold_locales auto

lemma strict_json_wire:
  assumes "json_plain v" and "json_nesting v \<le> max_json_depth"
  shows "decode_strict_json_text (dumps_wire v) = Some v"
  using depth_skipper.dumped [of v 0 "[]"] constant_skipper.dumped [of v 0 "[]"] assms
  by (simp add: decode_strict_json_text_def validate_json_depth_def json_loads_wire)

section \<open>Written lines are read back\<close>

definition line_ready :: "bool \<Rightarrow> line_state" where
  "line_ready first = \<lparr>ls_buffer = [], ls_skip_lf = False, ls_first_line = first\<rparr>"

definition wire_line :: "pystr \<Rightarrow> bool" where
  "wire_line l \<longleftrightarrow> scalar_text l \<and> 10 \<notin> set l \<and> 13 \<notin> set l \<and> length (utf8_bytes l) \<le> max_sse_line_bytes
     \<and> take 1 l \<noteq> [65279]"

lemma line_bytes_buffered:
  "\<forall>b \<in> set bs. b \<noteq> 10 \<and> b \<noteq> 13 \<Longrightarrow> length buf + length bs \<le> max_sse_line_bytes \<Longrightarrow>
   line_bytes bs \<lparr>ls_buffer = buf, ls_skip_lf = False, ls_first_line = first\<rparr>
     = ([], Inr \<lparr>ls_buffer = buf @ bs, ls_skip_lf = False, ls_first_line = first\<rparr>)"
  by (induction bs arbitrary: buf) (simp_all add: line_byte_def Let_def)

lemma utf8_bytes_member: "b \<in> set (utf8_bytes l) \<Longrightarrow> b < 128 \<Longrightarrow> b \<in> set l"
  by (auto simp: utf8_bytes_def dest: utf8_ascii_byte)

lemma line_fed:
  assumes "wire_line l"
  shows "line_bytes (utf8_bytes l @ [10]) (line_ready first) = ([l], Inr (line_ready False))"
proof -
  have "\<forall>b \<in> set (utf8_bytes l). b \<noteq> 10 \<and> b \<noteq> 13"
    using assms utf8_bytes_member by (fastforce simp: wire_line_def)
  then have "line_bytes (utf8_bytes l) (line_ready first)
      = ([], Inr \<lparr>ls_buffer = utf8_bytes l, ls_skip_lf = False, ls_first_line = first\<rparr>)"
    using line_bytes_buffered [of "utf8_bytes l" "[]" first] assms by (simp add: line_ready_def wire_line_def)
  moreover have "decode_utf8_sse_line (utf8_bytes l) first = Inr l"
    using assms by (simp add: decode_utf8_sse_line_def utf8_decode_bytes wire_line_def remove_bom_def)
  ultimately show ?thesis
    by (simp add: line_bytes_append line_byte_def line_ready_def)
qed

definition wire_text :: "pystr list \<Rightarrow> nat list" where
  "wire_text ls = concat (map (\<lambda>l. utf8_bytes l @ [10]) ls)"

lemma lines_fed:
  "\<forall>l \<in> set ls. wire_line l \<Longrightarrow> line_bytes (wire_text ls) (line_ready first) = (ls, Inr (line_ready (first \<and> ls = [])))"
proof (induction ls arbitrary: first)
  case (Cons l ls)
  then have "line_bytes (wire_text ls) (line_ready False) = (ls, Inr (line_ready False))"
    using Cons.IH [of False] by simp
  from line_bytes_step [OF line_fed this, of l first] Cons.prems show ?case
    by (simp add: wire_text_def)
qed (simp add: wire_text_def)

lemma line_bytes_first: "line_bytes bs st = (ls, Inr st') \<Longrightarrow> ls_first_line st' = (ls_first_line st \<and> ls = [])"
proof (induction bs arbitrary: st ls)
  case (Cons b bs)
  then show ?case
    by (auto simp: line_byte_def Let_def split: sum.splits prod.splits if_splits option.splits)
qed simp

section \<open>Printed JSON is a line\<close>

definition wire_safe :: "nat \<Rightarrow> bool" where
  "wire_safe c \<longleftrightarrow> 32 \<le> c \<and> c < 1114112 \<and> \<not> (55296 \<le> c \<and> c \<le> 57343)"

lemma wire_safe_ascii [simp]: "32 \<le> c \<Longrightarrow> c < 55296 \<Longrightarrow> wire_safe c"
  by (simp add: wire_safe_def)

lemma wire_safe_escape: "list_all wire_safe (u_escape n)"
proof -
  have "wire_safe (hex_digit (m mod 16))" for m
    using mod_less_divisor [of 16 m] by (simp add: hex_digit_def del: mod_less_divisor)
  then show ?thesis
    by (simp add: u_escape_def)
qed

lemma wire_safe_char: "c < 1114112 \<Longrightarrow> \<not> (55296 \<le> c \<and> c \<le> 57343) \<Longrightarrow> list_all wire_safe (wire_char c)"
  by (simp add: wire_char_def wire_safe_escape) (simp add: wire_safe_def)

lemma wire_safe_quoted: "scalar_text t \<Longrightarrow> list_all wire_safe (quote_json wire_char t)"
proof -
  assume t: "scalar_text t"
  have "list_all wire_safe (wire_char c)" if "c \<in> set t" for c
    by (rule wire_safe_char) (use that t in \<open>auto simp: scalar_text_def\<close>)
  then show ?thesis
    by (auto simp: quote_json_def list_all_iff)
qed

lemma wire_safe_join: "\<forall>t \<in> set ts. list_all wire_safe t \<Longrightarrow> list_all wire_safe (join [44] ts)"
  by (cases ts) (auto simp: join_def list_all_iff)

lemma wire_safe_dumps: "json_plain v \<Longrightarrow> list_all wire_safe (dumps_wire v)"
proof (induction v)
  case (J_list vs)
  then have "list_all wire_safe (join [44] (map dumps_wire vs))"
    by (intro wire_safe_join) auto
  then show ?case
    by (simp add: dumps_wire_def str_def cong: map_cong)
next
  case (J_obj kvs)
  have "list_all wire_safe (quote_json wire_char (fst kv) @ [58] @ dumps_wire (snd kv))" if "kv \<in> set kvs" for kv
  proof -
    have "list_all wire_safe (dumps_wire (snd kv))"
      using that J_obj.prems by (intro J_obj.IH [of kv]) (auto simp: snds.simps)
    then show ?thesis
      using that J_obj.prems wire_safe_quoted by auto
  qed
  then have "list_all wire_safe (join [44] (map (\<lambda>kv. quote_json wire_char (fst kv) @ [58] @ dumps_wire (snd kv)) kvs))"
    by (intro wire_safe_join) auto
  then show ?case
    by (simp add: dumps_wire_def str_def cong: map_cong)
next
  case (J_int i)
  then show ?case
    using dec_chars by (fastforce simp: dumps_wire_def list_all_iff)
next
  case (J_bool b)
  then show ?case
    by (cases b) (simp_all add: dumps_wire_def str_def)
qed (simp_all add: dumps_wire_def str_def wire_safe_quoted)

section \<open>Records are read back\<close>

definition wire_event_ok :: "gateway_task_event \<Rightarrow> bool" where
  "wire_event_ok e \<longleftrightarrow> json_plain (J_obj (ge_data e)) \<and> json_nesting (J_obj (ge_data e)) \<le> max_json_depth
     \<and> pystr_ok (ge_event_type e)"

definition event_record :: "gateway_task_event \<Rightarrow> pystr list" where
  "event_record e = sse_lines e (dumps_wire (J_obj (ge_data e))) @ [[]]"

lemma utf8_encode_some: "utf8_encode s = Some bs \<Longrightarrow> pystr_ok s \<Longrightarrow> bs = utf8_bytes s \<and> scalar_text s"
  by (auto simp: utf8_encode_def scalar_text_def pystr_ok_def list_ex_iff split: if_splits)

lemma utf8_encode_scalar: "scalar_text s \<Longrightarrow> utf8_encode s = Some (utf8_bytes s)"
  by (auto simp: utf8_encode_def scalar_text_def list_ex_iff)

definition line_safe :: "pystr \<Rightarrow> bool" where
  "line_safe s \<longleftrightarrow> scalar_text s \<and> 10 \<notin> set s \<and> 13 \<notin> set s"

lemma wire_safe_line: "list_all wire_safe s \<Longrightarrow> line_safe s"
  by (force simp: list_all_iff wire_safe_def scalar_text_def line_safe_def)

lemma line_safe_append: "line_safe (s @ t) \<longleftrightarrow> line_safe s \<and> line_safe t"
  by (auto simp: line_safe_def scalar_text_def)

lemma line_safe_fields: "line_safe (str ''id: '')" "line_safe (str ''event: '')" "line_safe (str ''data: '')"
  by (simp_all add: line_safe_def scalar_text_def str_def)

lemma those_map_some: "those (map f xs) = Some ys \<Longrightarrow> \<forall>x \<in> set xs. f x = Some (g x) \<Longrightarrow> ys = map g xs"
  by (induction xs arbitrary: ys) auto

lemma those_all: "those (map f xs) = Some ys \<Longrightarrow> x \<in> set xs \<Longrightarrow> \<exists>y. f x = Some y"
  by (induction xs arbitrary: ys) (auto split: option.splits)

lemma join_wire_text: "ls \<noteq> [] \<Longrightarrow> join [10] (map utf8_bytes ls) @ [10, 10] = wire_text (ls @ [[]])"
proof (induction ls rule: list_nonempty_induct)
  case (single l)
  then show ?case by (simp add: join_def wire_text_def utf8_bytes_def)
next
  case (cons l ls)
  then show ?case by (cases ls) (simp_all add: join_def wire_text_def)
qed

lemma sse_field_line: "58 \<notin> set k \<Longrightarrow> sse_field (k @ 58 # 32 # v) = (k, v)"
  by (auto simp: sse_field_def Let_def takeWhile_append dropWhile_append)

lemma encoded_record:
  assumes "encode_gateway_task_event e = Inr bs" and "wire_event_ok e"
  shows "bs = wire_text (event_record e)" and "\<forall>l \<in> set (event_record e). wire_line l"
    and "sum_list (map (length \<circ> utf8_bytes) (event_record e)) \<le> max_sse_event_bytes"
    and "ge_event_type e \<noteq> []"
    and "ge_event_id e = None \<or> is_valid_task_event_cursor (ge_event_id e)"
proof -
  let ?data = "dumps_wire (J_obj (ge_data e))"
  let ?lines = "sse_lines e ?data"
  obtain ls where ls: "those (map utf8_encode ?lines) = Some ls"
    and fit: "\<not> list_ex (\<lambda>line. length line > max_sse_line_bytes) ls" "sum_list (map length ls) \<le> max_sse_event_bytes"
    and bs: "bs = join [10] ls @ [10, 10]"
    and name: "ge_event_type e \<noteq> []" "10 \<notin> set (ge_event_type e)" "13 \<notin> set (ge_event_type e)"
    and cursor: "ge_event_id e = None \<or> is_valid_task_event_cursor (ge_event_id e)"
    using assms(1) by (auto simp: encode_gateway_task_event_def Let_def split: if_splits option.splits)
  have data: "line_safe ?data"
    using assms(2) by (intro wire_safe_line wire_safe_dumps) (simp only: wire_event_ok_def)
  have ids: "line_safe i" if "ge_event_id e = Some i" for i
    using cursor that by (intro wire_safe_line) (auto simp: is_valid_task_event_cursor_def list_all_iff)
  have "\<exists>y. utf8_encode (str ''event: '' @ ge_event_type e) = Some y"
    by (rule those_all [OF ls]) (simp add: sse_lines_def)
  then have type: "line_safe (ge_event_type e)"
    unfolding line_safe_def using name assms(2) utf8_encode_some [of "ge_event_type e"]
    by (auto simp: utf8_encode_def wire_event_ok_def split: if_splits)
  have lines: "line_safe l \<and> take 1 l \<noteq> [65279]" if "l \<in> set ?lines" for l
    using that data ids type
    by (auto simp: sse_lines_def line_safe_append line_safe_fields split: option.splits) (auto simp: str_def)
  have "ls = map utf8_bytes ?lines"
    by (rule those_map_some [OF ls]) (use lines utf8_encode_scalar line_safe_def in blast)
  moreover have "?lines \<noteq> []"
    by (simp add: sse_lines_def)
  ultimately show "bs = wire_text (event_record e)"
    unfolding bs event_record_def using join_wire_text [of ?lines] by simp
  have ls_eq: "ls = map utf8_bytes ?lines" by fact
  show "\<forall>l \<in> set (event_record e). wire_line l"
    using lines fit(1) by (auto simp: event_record_def wire_line_def line_safe_def ls_eq list_ex_iff scalar_text_def utf8_bytes_def not_less)
  show "sum_list (map (length \<circ> utf8_bytes) (event_record e)) \<le> max_sse_event_bytes"
    using fit(2) by (simp add: event_record_def ls_eq comp_def utf8_bytes_def)
  show "ge_event_type e \<noteq> []" "ge_event_id e = None \<or> is_valid_task_event_cursor (ge_event_id e)"
    by (fact name(1), fact cursor)
qed

lemma event_lines_append:
  "event_lines (a @ b) st =
     (case event_lines a st of
        (events, Inl e) \<Rightarrow> (events, Inl e)
      | (events, Inr st') \<Rightarrow> (case event_lines b st' of (events', r) \<Rightarrow> (events @ events', r)))"
  by (induction a st rule: event_lines.induct) (auto split: sum.splits prod.splits option.splits)

lemma event_lines_step:
  "event_lines a st = (es, Inr st') \<Longrightarrow> event_lines b st' = (es', r) \<Longrightarrow> event_lines (a @ b) st = (es @ es', r)"
  by (simp add: event_lines_append)

lemma event_lines_split:
  "event_lines (a @ b) st = (all, Inr fin) \<Longrightarrow> event_lines a st = (es, r)
    \<Longrightarrow> \<exists>st' es'. r = Inr st' \<and> all = es @ es' \<and> event_lines b st' = (es', Inr fin)"
  by (auto simp: event_lines_append split: sum.splits prod.splits)

text \<open>A field line adds its value to the record, as long as the record stays within its limit.\<close>

lemma field_line:
  assumes "wire_line (k @ 58 # 32 # v)" and "58 \<notin> set k" and "k \<noteq> []"
    and "ev_bytes st + length (utf8_bytes (k @ 58 # 32 # v)) \<le> max_sse_event_bytes"
  shows "event_line (k @ 58 # 32 # v) st =
    (let st = st\<lparr>ev_bytes := ev_bytes st + length (utf8_bytes (k @ 58 # 32 # v))\<rparr> in
     if k = str ''event'' then Inr (None, st\<lparr>ev_type := Some v\<rparr>)
     else if k = str ''id'' then
       (if 0 \<in> set v then Inl (Sse_protocol (str ''SSE id contains a null character''))
        else Inr (None, st\<lparr>ev_id := Some v\<rparr>))
     else if k = str ''data'' then Inr (None, st\<lparr>ev_data_lines := ev_data_lines st @ [v]\<rparr>)
     else if k = str ''retry'' then
       (if v \<noteq> [] \<and> \<not> is_decimal v
        then Inl (Sse_protocol (str ''SSE retry field is invalid'')) else Inr (None, st))
     else Inl (Sse_protocol (str ''SSE record contains an unsupported field'')))"
proof -
  have "utf8_encode (k @ 58 # 32 # v) = Some (utf8_bytes (k @ 58 # 32 # v))"
    using assms(1) by (intro utf8_encode_scalar) (simp add: wire_line_def)
  moreover have "length (utf8_bytes (k @ 58 # 32 # v)) \<le> max_sse_line_bytes"
    using assms(1) by (simp add: wire_line_def)
  moreover have "take 1 (k @ 58 # 32 # v) \<noteq> [58]"
    using assms(2,3) by (cases k) auto
  ultimately show ?thesis
    using assms(4) by (simp add: event_line_def sse_field_line [OF assms(2)] Let_def del: take_append)
qed

lemma record_read_back:
  assumes "encode_gateway_task_event e = Inr bs" and "wire_event_ok e"
  shows "event_lines (event_record e) event_start = ([e], Inr event_start)"
proof -
  note enc = encoded_record [OF assms]
  let ?data = "dumps_wire (J_obj (ge_data e))" and ?n = "\<lambda>s. length (utf8_bytes s)"
  let ?type = "str ''event'' @ 58 # 32 # ge_event_type e" and ?dline = "str ''data'' @ 58 # 32 # ?data"
  have rec_lines: "event_record e = (case ge_event_id e of None \<Rightarrow> [] | Some i \<Rightarrow> [str ''id'' @ 58 # 32 # i]) @ [?type, ?dline, []]"
    by (simp add: event_record_def sse_lines_def str_def split: option.split)
  have strict: "decode_strict_json_text ?data = Some (J_obj (ge_data e))"
    using assms(2) by (intro strict_json_wire) (simp_all only: wire_event_ok_def)
  have blank: "event_line [] st = Inr (Some e, event_start)"
    if "ev_type st = Some (ge_event_type e)" "ev_data_lines st = [?data]" "ev_id st = ge_event_id e" for st
    using that enc(4) strict
    by (simp add: event_line_def utf8_encode_def utf8_bytes_def decode_record_def join_def)
  have keys: "58 \<notin> set (str ''event'')" "58 \<notin> set (str ''data'')" "58 \<notin> set (str ''id'')" "str ''event'' \<noteq> []"
    "str ''data'' \<noteq> []" "str ''id'' \<noteq> []" "str ''data'' \<noteq> str ''event''" "str ''data'' \<noteq> str ''id''"
    "str ''id'' \<noteq> str ''event''"
    by (simp_all add: str_def)
  have lines: "wire_line ?type" "wire_line ?dline"
    using enc(2) by (simp_all add: rec_lines)
  have tail: "event_lines [?type, ?dline, []] st = ([e], Inr event_start)"
    if "ev_bytes st + ?n ?type + ?n ?dline \<le> max_sse_event_bytes" "ev_id st = ge_event_id e" "ev_data_lines st = []" for st
  proof -
    let ?st = "st\<lparr>ev_bytes := ev_bytes st + ?n ?type, ev_type := Some (ge_event_type e)\<rparr>"
    have "event_line ?type st = Inr (None, ?st)"
      using that(1) field_line [OF lines(1) keys(1,4), of st] by simp
    moreover have "event_line ?dline ?st = Inr (None, ?st\<lparr>ev_bytes := ev_bytes ?st + ?n ?dline, ev_data_lines := [?data]\<rparr>)"
      using that field_line [OF lines(2) keys(2,5), of ?st] keys(7,8) by simp
    ultimately show ?thesis
      using that(2) by (simp add: blank)
  qed
  show ?thesis
  proof (cases "ge_event_id e")
    case None
    then show ?thesis
      using tail [of event_start] enc(3) by (simp add: rec_lines event_start_def comp_def)
  next
    case (Some i)
    let ?iline = "str ''id'' @ 58 # 32 # i"
    have "wire_line ?iline"
      using enc(2) Some by (simp add: rec_lines)
    moreover have "0 \<notin> set i"
      using enc(5) Some by (auto simp: is_valid_task_event_cursor_def list_all_iff)
    ultimately have "event_line ?iline event_start = Inr (None, event_start\<lparr>ev_bytes := ?n ?iline, ev_id := Some i\<rparr>)"
      using field_line [of "str ''id''" i event_start] keys enc(3) Some by (simp add: rec_lines event_start_def)
    then show ?thesis
      using tail [of "event_start\<lparr>ev_bytes := ?n ?iline, ev_id := Some i\<rparr>"] enc(3) Some
      by (simp add: rec_lines event_start_def comp_def)
  qed
qed

section \<open>A stream delivers the written events\<close>

lemma wire_text_append: "wire_text (a @ b) = wire_text a @ wire_text b"
  by (simp add: wire_text_def)

definition written :: "gateway_task_event list \<Rightarrow> nat list list \<Rightarrow> bool" where
  "written es bss \<longleftrightarrow> list_all2 (\<lambda>e bs. encode_gateway_task_event e = Inr bs \<and> wire_event_ok e) es bss"

lemma written_lines:
  "written es bss \<Longrightarrow> concat bss = wire_text (concat (map event_record es))
     \<and> (\<forall>l \<in> set (concat (map event_record es)). wire_line l)
     \<and> event_lines (concat (map event_record es)) event_start = (es, Inr event_start)"
proof (induction es bss rule: list_induct2')
  case (4 e es bs bss)
  then have e: "encode_gateway_task_event e = Inr bs" "wire_event_ok e" and rest: "written es bss"
    by (simp_all add: written_def)
  note IH = 4(1) [OF rest]
  have "event_lines (event_record e @ concat (map event_record es)) event_start = ([e] @ es, Inr event_start)"
    by (rule event_lines_step [OF record_read_back [OF e]]) (use IH in simp)
  then show ?case
    using encoded_record(1,2) [OF e] IH by (simp add: wire_text_append) blast
qed (simp_all add: written_def wire_text_def)

text \<open>What the reader has seen when the connection breaks: complete records only.\<close>

lemma cut_lines:
  assumes "written es bss" and "p @ q = concat bss" and "line_bytes p line_start = (ls, r)"
  shows "\<exists>st st' k. r = Inr st \<and> event_lines ls event_start = (take k es, Inr st')
    \<and> (\<forall>j \<le> length es. length (concat (take j bss)) \<le> length p \<longrightarrow> j \<le> k)"
proof -
  let ?all = "concat (map event_record es)"
  note w = written_lines [OF assms(1)]
  have "line_bytes (p @ q) line_start = (?all, Inr (line_ready (?all = [])))"
    using lines_fed [of ?all True] w assms(2) by (simp add: line_start_def line_ready_def)
  from line_bytes_split [OF this assms(3)] obtain st ls2 where st: "r = Inr st" and all: "?all = ls @ ls2"
    by blast
  obtain evs r2 where evs: "event_lines ls event_start = (evs, r2)"
    by fastforce
  have "event_lines (ls @ ls2) event_start = (es, Inr event_start)"
    using w all by metis
  from event_lines_split [OF this evs] obtain st' es2 where ev: "event_lines ls event_start = (evs, Inr st')" and prefix: "es = evs @ es2"
    using evs by blast
  have "evs = take (length evs) es"
    using prefix by auto
  moreover have "j \<le> length evs" if j: "j \<le> length es" "length (concat (take j bss)) \<le> length p" for j
  proof -
    have "concat (take j bss) @ concat (drop j bss) = p @ q"
      using assms(2) by (simp flip: concat_append)
    then obtain p2 where p: "p = concat (take j bss) @ p2"
      using j(2) by (auto simp: append_eq_append_conv2)
    have wj: "written (take j es) (take j bss)"
      using assms(1) by (simp add: written_def list_all2_takeI)
    let ?lj = "concat (map event_record (take j es))"
    have "line_bytes (concat (take j bss)) line_start = (?lj, Inr (line_ready (?lj = [])))"
      using lines_fed [of ?lj True] written_lines [OF wj] by (simp add: line_start_def line_ready_def)
    from line_bytes_split [OF assms(3) [unfolded p st] this] obtain ls3 where "ls = ?lj @ ls3"
      by blast
    then have "event_lines (?lj @ ls3) event_start = (evs, Inr st')"
      using ev by simp
    from event_lines_split [OF this] written_lines [OF wj] obtain evs3 where "evs = take j es @ evs3"
      by blast
    then show ?thesis
      using j(1) by simp
  qed
  ultimately show ?thesis
    using st ev by metis
qed

lemma unfinished_line:
  assumes "ls_first_line st \<Longrightarrow> evst = event_start" and "ls_buffer st \<noteq> []"
    and "decode_utf8_sse_line (ls_buffer st) (ls_first_line st) = Inr line" and "event_line line evst = Inr (v, evst')"
  shows "v = None"
proof (cases "line = []")
  case True
  have "utf8_decode (ls_buffer st) \<noteq> Some []"
    using assms(2) by (subst utf8_decode.simps) (auto split: option.split)
  then have "ls_first_line st"
    using assms(3) True by (auto simp: decode_utf8_sse_line_def split: option.splits if_splits)
  then have "evst = event_start"
    by (rule assms(1))
  then show ?thesis
    using assms(4) True by (simp add: event_line_def event_start_def utf8_encode_def utf8_bytes_def)
next
  case False
  then show ?thesis
    using assms(4) by (auto simp: event_line_def Let_def split: option.splits if_splits prod.splits)
qed

lemma whole_stream:
  assumes "written es bss" and "concat chunks = concat bss"
  shows "iter_gateway_task_events (iter_utf8_sse_lines chunks) = (es, None)"
proof -
  let ?all = "concat (map event_record es)"
  have "line_bytes (concat bss) line_start = (?all, Inr (line_ready (?all = [])))"
    using lines_fed [of ?all True] written_lines [OF assms(1)] by (simp add: line_start_def line_ready_def)
  then have "iter_utf8_sse_lines chunks = (?all, None)"
    using assms(2) by (simp add: iter_utf8_sse_lines_def line_chunks_concat lines_end_def line_ready_def)
  then show ?thesis
    using written_lines [OF assms(1)] by (simp add: iter_gateway_task_events_def)
qed

text \<open>
  C36. However the bytes of a written event stream are cut into chunks, and wherever the connection
  breaks, the reader yields exactly the written events, unchanged and in order: at least those whose
  bytes arrived in full, never one that is incomplete or altered, and without an error when the whole
  stream arrived.
\<close>

theorem sse_stream_delivers:
  assumes "written es bss" and "concat chunks = take n (concat bss)"
  shows "\<exists>k err. iter_gateway_task_events (iter_utf8_sse_lines chunks) = (take k es, err)
    \<and> (\<forall>j \<le> length es. length (concat (take j bss)) \<le> n \<longrightarrow> j \<le> k)
    \<and> (length (concat bss) \<le> n \<longrightarrow> err = None)"
proof (cases "length (concat bss) \<le> n")
  case True
  then have "iter_gateway_task_events (iter_utf8_sse_lines chunks) = (take (length es) es, None)"
    using whole_stream [OF assms(1), of chunks] assms(2) by simp
  then show ?thesis
    by blast
next
  case False
  obtain ls r where ls: "line_bytes (concat chunks) line_start = (ls, r)"
    by fastforce
  have cut: "concat chunks @ drop n (concat bss) = concat bss"
    using assms(2) by simp
  obtain st st' k where st: "r = Inr st" and ev: "event_lines ls event_start = (take k es, Inr st')"
    and all: "\<forall>j \<le> length es. length (concat (take j bss)) \<le> length (concat chunks) \<longrightarrow> j \<le> k"
    using cut_lines [OF assms(1) cut ls] by blast
  have arrived: "\<forall>j \<le> length es. length (concat (take j bss)) \<le> n \<longrightarrow> j \<le> k"
    using all False assms(2) by simp
  have first: "ls_first_line st \<Longrightarrow> st' = event_start"
    using line_bytes_first [of "concat chunks" line_start ls st] ls st ev by auto
  obtain extra err where it: "iter_utf8_sse_lines chunks = (ls @ extra, err)" and extra: "extra = [] \<or> (\<exists>line. extra = [line]
      \<and> ls_buffer st \<noteq> [] \<and> decode_utf8_sse_line (ls_buffer st) (ls_first_line st) = Inr line)"
  proof (cases "ls_buffer st = []")
    case True
    then show ?thesis
      using that [of "[]"] ls st by (simp add: iter_utf8_sse_lines_def line_chunks_concat lines_end_def)
  next
    case False
    then show ?thesis
      using that [of "[]"] that [of "[l]" for l] ls st
      by (cases "decode_utf8_sse_line (ls_buffer st) (ls_first_line st)")
        (simp_all add: iter_utf8_sse_lines_def line_chunks_concat lines_end_def)
  qed
  have "fst (event_lines extra st') = []"
  proof (cases "extra = []")
    case empty: False
    then obtain line where line: "extra = [line]" "ls_buffer st \<noteq> []"
      "decode_utf8_sse_line (ls_buffer st) (ls_first_line st) = Inr line"
      using extra by blast
    then show ?thesis
      using unfinished_line [OF first line(2,3)] by (auto split: sum.split)
  qed simp
  then have "fst (event_lines (ls @ extra) event_start) = take k es"
    using ev by (simp add: event_lines_append case_prod_beta)
  then have "\<exists>err. iter_gateway_task_events (iter_utf8_sse_lines chunks) = (take k es, err)"
    by (auto simp: iter_gateway_task_events_def it split: prod.split sum.split)
  then show ?thesis
    using arrived False by blast
qed

definition sample_stream_event :: gateway_task_event where
  "sample_stream_event = \<lparr>ge_event_type = str ''task.created'', ge_data = [(str ''status'', J_str (str ''p''))],
     ge_event_id = Some (str ''c1'')\<rparr>"

definition sample_stream_bytes :: "nat list" where
  "sample_stream_bytes = str ''id: c1'' @ [10] @ str ''event: task.created'' @ [10]
     @ str ''data: {'' @ [34] @ str ''status'' @ [34, 58, 34, 112, 34] @ str ''}'' @ [10, 10]"

lemma sample_stream_data:
  "dumps_wire (J_obj (ge_data sample_stream_event)) = str ''{'' @ [34] @ str ''status'' @ [34, 58, 34, 112, 34] @ str ''}''"
  by (simp add: sample_stream_event_def dumps_wire_def quote_json_def wire_char_def join_def str_def)

lemma sample_written: "written [sample_stream_event] [sample_stream_bytes]"
proof -
  have "encode_gateway_task_event sample_stream_event = Inr sample_stream_bytes"
    unfolding encode_gateway_task_event_def Let_def sample_stream_data
    by (simp add: sample_stream_event_def sample_stream_bytes_def sse_lines_def utf8_encode_def utf8_bytes_def
        utf8_char_def str_def is_valid_task_event_cursor_def join_def max_sse_event_bytes_def max_sse_line_bytes_def
        max_task_event_cursor_length_def)
  moreover have "wire_event_ok sample_stream_event"
    by (simp add: wire_event_ok_def sample_stream_event_def scalar_text_def str_def max_json_depth_def pystr_ok_def)
  ultimately show ?thesis
    by (simp add: written_def)
qed

theorem sse_stream_delivers_witness:
  "length (concat [take 20 sample_stream_bytes, drop 20 sample_stream_bytes]) = 49 \<and>
   (\<exists>k err. iter_gateway_task_events (iter_utf8_sse_lines [take 20 sample_stream_bytes, drop 20 sample_stream_bytes])
      = (take k [sample_stream_event], err)
    \<and> (\<forall>j \<le> length [sample_stream_event]. length (concat (take j [sample_stream_bytes])) \<le> 49 \<longrightarrow> j \<le> k)
    \<and> (length (concat [sample_stream_bytes]) \<le> 49 \<longrightarrow> err = None))"
proof
  show "length (concat [take 20 sample_stream_bytes, drop 20 sample_stream_bytes]) = 49"
    by (simp add: sample_stream_bytes_def str_def)
next
  have "length sample_stream_bytes = 49"
    by (simp add: sample_stream_bytes_def str_def)
  then show "\<exists>k err. iter_gateway_task_events (iter_utf8_sse_lines [take 20 sample_stream_bytes, drop 20 sample_stream_bytes])
      = (take k [sample_stream_event], err)
    \<and> (\<forall>j \<le> length [sample_stream_event]. length (concat (take j [sample_stream_bytes])) \<le> 49 \<longrightarrow> j \<le> k)
    \<and> (length (concat [sample_stream_bytes]) \<le> 49 \<longrightarrow> err = None)"
    by (intro sse_stream_delivers [OF sample_written]) simp
qed

section \<open>Every lifecycle event can be streamed\<close>

lemma fold_dict_put_fresh:
  "distinct (map fst d) \<Longrightarrow> fst ` set base \<inter> fst ` set d = {} \<Longrightarrow> foldl (\<lambda>d (k, v). dict_put k v d) base d = base @ d"
proof (induction d arbitrary: base)
  case (Cons kv d)
  then show ?case
    by (cases kv) (auto simp: dict_put_def)
qed simp

lemma lifecycle_keys:
  "set (map fst (lifecycle_fields record now)) \<subseteq> {str ''status'', str ''last_result'', str ''error'', str ''updated_at'',
     str ''pending_review'', str ''artifacts'', str ''last_result_truncated'', str ''error_truncated'',
     str ''pending_review_truncated'', str ''artifacts_truncated'', str ''reconciled'', str ''observed_at''}"
  by (cases now) (auto simp: lifecycle_fields_def case_prod_beta Let_def flag_def)

lemma foldr_max_least: "\<forall>x \<in> set xs. x \<le> n \<Longrightarrow> foldr max xs (0 :: nat) \<le> n"
  by (induction xs) auto

lemma nesting_list: "\<forall>v \<in> set vs. json_nesting v \<le> n \<Longrightarrow> json_nesting (J_list vs) \<le> Suc n"
  using foldr_max_least [of "map json_nesting vs" n] by simp

lemma nesting_obj: "\<forall>kv \<in> set kvs. json_nesting (snd kv) \<le> n \<Longrightarrow> json_nesting (J_obj kvs) \<le> Suc n"
  using foldr_max_least [of "map (\<lambda>kv. json_nesting (snd kv)) kvs" n] by simp

lemma nesting_opt [simp]: "json_nesting (json_opt t) = 0"
  by (simp add: json_opt_def split: option.split)

lemma decisions_nesting: "\<forall>d \<in> set (fst (project_decisions vs tr)). json_nesting d = 0"
proof (induction vs arbitrary: tr)
  case (Cons v vs)
  then show ?case
    by (simp add: case_prod_beta split: option.split)
qed simp

lemma review_decisions_nesting: "\<forall>d \<in> set (fst (project_review_decisions v)). json_nesting d = 0"
  using decisions_nesting by (auto simp: project_review_decisions_def split: pyval.split)

lemma actions_nesting:
  "\<forall>a \<in> set actions. json_nesting a \<le> 1 \<Longrightarrow> \<forall>a \<in> set (fst (project_actions projected items actions tr)). json_nesting a \<le> 1"
proof (induction items arbitrary: actions tr)
  case (Cons item rest)
  have "\<forall>a \<in> set (actions @ [J_obj [(str ''name'', J_str t)]]). json_nesting a \<le> 1" for t
    using Cons.prems by simp
  from Cons.IH [OF this] Cons.IH [OF Cons.prems] show ?case
    using Cons.prems
    by (simp add: project_actions_step Let_def case_prod_beta split: option.split del: project_actions.simps)
qed simp

lemma configs_nesting:
  "\<forall>c \<in> set configs. json_nesting c \<le> 2 \<Longrightarrow> \<forall>c \<in> set (fst (project_configs projected items configs tr)). json_nesting c \<le> 2"
proof (induction items arbitrary: configs tr)
  case (Cons item rest)
  have "json_nesting (J_list (fst (project_review_decisions v))) \<le> 1" for v
    using nesting_list [of "fst (project_review_decisions v)" 0] review_decisions_nesting [of v] by simp
  then have "\<forall>c \<in> set (configs @ [J_obj [(str ''action_name'', J_str t), (str ''allowed_decisions'',
      J_list (fst (project_review_decisions v)))]]). json_nesting c \<le> 2" for t v
    using Cons.prems by simp
  from Cons.IH [OF this] Cons.IH [OF Cons.prems] show ?case
    using Cons.prems
    by (simp add: project_configs_step Let_def case_prod_beta split: option.split del: project_configs.simps)
qed simp

lemma nesting_dict_put:
  "\<forall>kv \<in> set d. json_nesting (snd kv) \<le> n \<Longrightarrow> json_nesting v \<le> n \<Longrightarrow> \<forall>kv \<in> set (dict_put k v d). json_nesting (snd kv) \<le> n"
  by (auto simp: dict_put_def)

lemma review_nesting: "json_nesting (fst (project_pending_review v)) \<le> 4"
proof (cases "v = None \<or> v = Some []")
  case False
  then obtain d where d: "v = Some d" "d \<noteq> []" by auto
  let ?low = "\<lambda>acc. \<forall>kv \<in> set (fst acc). json_nesting (snd kv) \<le> 3"
  have 1: "?low (project_review_id key d acc)" if "?low acc" for key and acc :: "(pystr \<times> json) list \<times> bool"
    using that nesting_dict_put [OF that, of "J_str t" key for t]
    by (simp add: project_review_id_def Let_def case_prod_beta split: option.split)
  have acts: "json_nesting (J_list (fst (project_actions p items [] tr))) \<le> 3" for p items tr
    using nesting_list [of "fst (project_actions p items [] tr)" 1] actions_nesting [of "[]" p items tr] by simp
  have confs: "json_nesting (J_list (fst (project_configs p items [] tr))) \<le> 3" for p items tr
    using nesting_list [of "fst (project_configs p items [] tr)" 2] configs_nesting [of "[]" p items tr] by simp
  have 2: "?low (project_review_actions d acc)" if "?low acc" for acc :: "(pystr \<times> json) list \<times> bool"
    using that nesting_dict_put [OF that acts]
    by (simp add: project_review_actions_def case_prod_beta split: pyval.split del: json_nesting.simps)
  have 3: "?low (project_review_configs d acc)" if "?low acc" for acc :: "(pystr \<times> json) list \<times> bool"
    using that nesting_dict_put [OF that confs]
    by (simp add: project_review_configs_def case_prod_beta split: pyval.split del: json_nesting.simps)
  have "?low (project_review_configs d (project_review_actions d
      (project_review_id (str ''source_task_id'') d (project_review_id (str ''review_id'') d ([], False)))))"
    by (intro 1 2 3) simp
  from nesting_obj [OF this] show ?thesis
    using d by (cases d) (simp_all add: project_pending_review_def case_prod_beta del: json_nesting.simps(2))
qed (auto simp: project_pending_review_def)

lemma artifact_loop_nesting:
  "\<forall>v \<in> set projected. json_nesting v \<le> 1 \<Longrightarrow> \<forall>v \<in> set (fst (artifact_loop values projected n tr)). json_nesting v \<le> 1"
proof (induction "values" arbitrary: projected n tr)
  case (Cons a rest)
  have "json_nesting (fst (project_artifact a)) \<le> 1"
    by (simp add: project_artifact_def case_prod_beta Let_def)
  then have "\<forall>v \<in> set (projected @ [fst (project_artifact a)]). json_nesting v \<le> 1"
    using Cons.prems by auto
  note step = Cons.IH [OF this]
  show ?case
    using step Cons.prems by (auto simp: case_prod_beta Let_def simp del: set_append)
qed simp

lemma lifecycle_nesting: "\<forall>kv \<in> set (lifecycle_fields record now). json_nesting (snd kv) \<le> 4"
proof -
  have "json_nesting (J_list (fst (project_artifacts (tk_artifacts record)))) \<le> 2"
    using nesting_list [of "fst (project_artifacts (tk_artifacts record))" 1]
      artifact_loop_nesting [of "[]" "take max_event_artifacts (tk_artifacts record)"]
    by (simp add: project_artifacts_def case_prod_beta del: json_nesting.simps)
  then show ?thesis
    using review_nesting [of "tk_pending_review record"]
    by (cases now) (auto simp: lifecycle_fields_def case_prod_beta Let_def flag_def simp del: json_nesting.simps(1,2))
qed

lemma b64_symbols: "\<forall>b \<in> set bs. b < 256 \<Longrightarrow> c \<in> set (b64_encode bs) \<Longrightarrow> 33 \<le> c \<and> c \<le> 126"
proof (induction bs rule: b64_encode.induct)
  have sym: "33 \<le> b64_symbol v \<and> b64_symbol v \<le> 126" for v
    by (auto simp: b64_symbol_def)
  {
    case (2 a)
    then show ?case using sym by auto
  next
    case (3 a b)
    then show ?case using sym by auto
  next
    case (4 a b c r)
    then show ?case using sym by auto
  }
qed simp

lemma cursor_valid:
  assumes "length (encode_task_event_cursor t r e) \<le> max_task_event_cursor_length"
  shows "is_valid_task_event_cursor (Some (encode_task_event_cursor t r e))"
proof -
  let ?c = "encode_task_event_cursor t r e"
  have "set ?c \<subseteq> set (b64_encode (cursor_text t r e))"
    unfolding cursor_bytes(3) rstrip_char_def by (auto dest: set_dropWhileD)
  then have chars: "\<forall>c \<in> set ?c. 33 \<le> c \<and> c \<le> 126"
    using b64_symbols [OF cursor_bytes(2)] by blast
  moreover have "hd ?c \<in> set ?c" "last ?c \<in> set ?c"
    using encode_cursor_nonempty by auto
  ultimately have "33 \<le> hd ?c" "33 \<le> last ?c"
    by blast+
  then have "hd ?c \<noteq> 32" "last ?c \<noteq> 32"
    by linarith+
  moreover have "list_all (\<lambda>c. 32 \<le> c \<and> c \<le> 126) ?c"
    using chars by (simp only: list_all_iff) fastforce
  ultimately show ?thesis
    using assms encode_cursor_nonempty [of t r e] by (simp add: is_valid_task_event_cursor_def)
qed

text \<open>The stored events a Gateway streams: the lifecycle projections of Task records, with their cursors.\<close>

definition lifecycle_stream_event :: "task_stream_event \<Rightarrow> bool" where
  "lifecycle_stream_event e \<longleftrightarrow>
     (\<exists>record now. record_ok record \<and> (\<forall>t. now = Some t \<longrightarrow> datetime_ok t)
        \<and> se_event_type e = lifecycle_event_type (tk_state record)
        \<and> lifecycle_event_data record now = Inr (se_data e))
     \<and> (\<exists>position. se_event_id e = Some (encode_task_event_cursor (se_task_id e) (se_run_count e) position)
          \<and> length (encode_task_event_cursor (se_task_id e) (se_run_count e) position) \<le> max_task_event_cursor_length)
     \<and> (\<exists>t. datetime_ok t \<and> se_created_at e = isoformat t) \<and> scalar_text (se_task_id e)
     \<and> json_encoded_size (J_str (se_task_id e)) \<le> 65536 \<and> \<bar>se_run_count e\<bar> < 10 ^ 18"

lemma lifecycle_type_ok:
  "lifecycle_event_type st \<noteq> [] \<and> line_safe (lifecycle_event_type st) \<and> length (utf8_bytes (lifecycle_event_type st)) \<le> 32"
  by (cases st) (simp_all add: line_safe_def scalar_text_def str_def utf8_ascii)

lemma utf8_ascii_text: "list_all (\<lambda>c. c < 128) s \<Longrightarrow> utf8_bytes s = s"
  by (rule utf8_ascii) (simp add: list_all_iff)

lemma encode_within:
  assumes type: "t \<noteq> []" "line_safe t" "length (utf8_bytes t) \<le> 32"
    and id: "is_valid_task_event_cursor (Some i)"
    and data: "json_plain (J_obj d)" "json_encoded_size (J_obj d) \<le> 700000"
  shows "\<exists>bs. encode_gateway_task_event \<lparr>ge_event_type = t, ge_data = d, ge_event_id = Some i\<rparr> = Inr bs"
proof -
  let ?e = "\<lparr>ge_event_type = t, ge_data = d, ge_event_id = Some i\<rparr>" and ?text = "dumps_wire (J_obj d)"
  have finite: "json_plain v \<Longrightarrow> json_finite v" for v
    by (induction v) (auto simp: snds.simps)
  have printed: "line_safe ?text"
    by (rule wire_safe_line [OF wire_safe_dumps [OF data(1)]])
  have i: "list_all (\<lambda>c. c < 128) i" "length i \<le> 4096"
    using id by (auto simp: is_valid_task_event_cursor_def list_all_iff max_task_event_cursor_length_def)
  then have i_scalar: "scalar_text i"
    by (auto simp: scalar_text_def list_all_iff)
  have encoded: "utf8_encode ?text = Some (utf8_bytes ?text)" "length (utf8_bytes ?text) \<le> 700000"
    using printed data(2) by (simp_all add: line_safe_def utf8_encode_scalar json_encoded_size_def)
  let ?lines = "sse_lines ?e ?text"
  have fields: "utf8_bytes (str ''id: '' @ i) = str ''id: '' @ i"
    "utf8_bytes (str ''event: '' @ t) = str ''event: '' @ utf8_bytes t"
    "utf8_bytes (str ''data: '' @ ?text) = str ''data: '' @ utf8_bytes ?text"
    using i(1) by (simp_all add: utf8_bytes_append utf8_bytes_Cons utf8_char_def utf8_ascii_text str_def)
  have scalars: "\<forall>l \<in> set ?lines. scalar_text l"
    using type printed i_scalar line_safe_fields
    by (auto simp: sse_lines_def line_safe_def scalar_text_def)
  then have "those (map utf8_encode ?lines) = Some (map utf8_bytes ?lines)"
    by (simp add: sse_lines_def utf8_encode_scalar)
  moreover have "\<not> list_ex (\<lambda>line. length line > max_sse_line_bytes) (map utf8_bytes ?lines)"
    "sum_list (map length (map utf8_bytes ?lines)) \<le> max_sse_event_bytes"
    using type(3) i(2) encoded(2)
    by (simp_all add: sse_lines_def fields max_sse_line_bytes_def max_sse_event_bytes_def)
  ultimately show ?thesis
    using type id encoded finite [OF data(1)]
    by (simp add: encode_gateway_task_event_def Let_def line_safe_def max_sse_event_bytes_def del: json_finite.simps)
qed

lemma size_int: "\<bar>i\<bar> < 10 ^ 18 \<Longrightarrow> json_encoded_size (J_int i) \<le> 19"
proof -
  assume "\<bar>i\<bar> < 10 ^ 18"
  then have "length (dec i) \<le> 19"
    using dec_length [of i 18] by simp
  moreover have "\<forall>c \<in> set (dec i). c < 128"
    using dec_chars by fastforce
  ultimately show ?thesis
    by (simp add: size_ulen dumps_wire_def ulen_ascii)
qed

lemma lifecycle_written:
  assumes "lifecycle_stream_event e"
  shows "\<exists>bs. encode_task_stream_event e = Inr bs \<and> wire_event_ok (gateway_event_of e)"
proof -
  from assms obtain r now where rec_ok: "record_ok r" "\<forall>t. now = Some t \<longrightarrow> datetime_ok t"
    and ty: "se_event_type e = lifecycle_event_type (tk_state r)"
    and data: "lifecycle_event_data r now = Inr (se_data e)"
    unfolding lifecycle_stream_event_def by blast
  from assms obtain position where id: "se_event_id e = Some (encode_task_event_cursor (se_task_id e) (se_run_count e) position)"
      "length (encode_task_event_cursor (se_task_id e) (se_run_count e) position) \<le> max_task_event_cursor_length"
    unfolding lifecycle_stream_event_def by blast
  from assms obtain created where created: "datetime_ok created" "se_created_at e = isoformat created"
    unfolding lifecycle_stream_event_def by blast
  from assms have rest: "scalar_text (se_task_id e)"
      "json_encoded_size (J_str (se_task_id e)) \<le> 65536" "\<bar>se_run_count e\<bar> < 10 ^ 18"
    unfolding lifecycle_stream_event_def by blast+
  have fields: "se_data e = lifecycle_fields r now"
    using data by (simp add: lifecycle_event_data_def ensure_durable_event_data_fits_def split: if_splits)
  let ?base = "[(str ''task_id'', J_str (se_task_id e)), (str ''run_count'', J_int (se_run_count e)),
      (str ''created_at'', J_str (se_created_at e))]"
  have plain: "json_plain (J_obj (se_data e))"
    unfolding fields by (rule lifecycle_fields_plain [OF rec_ok])
  have disj: "fst ` set ?base \<inter> fst ` set (se_data e) = {}"
  proof -
    note sub = lifecycle_keys [of r now, unfolded set_map]
    have "str ''task_id'' \<notin> fst ` set (se_data e)" "str ''run_count'' \<notin> fst ` set (se_data e)"
      "str ''created_at'' \<notin> fst ` set (se_data e)"
      unfolding fields by (rule contra_subsetD [OF sub], simp)+
    then show ?thesis
      by (simp only: list.set image_insert image_empty fst_conv) blast
  qed
  have payload: "ge_data (gateway_event_of e) = ?base @ se_data e"
    unfolding gateway_event_of_def using fold_dict_put_fresh [OF _ disj] plain by simp
  have keys: "json_encoded_size (J_str (str ''task_id'')) = 9" "json_encoded_size (J_str (str ''created_at'')) = 12"
    "scalar_text (str ''task_id'')" "scalar_text (str ''created_at'')"
    by (simp_all add: size_ascii str_def scalar_text_def)
  have "json_plain (J_obj (?base @ se_data e))"
    using plain disj rest iso_scalar [OF created(1)] created(2) keys by auto
  moreover have "json_encoded_size (J_obj (se_data e)) \<le> 524288"
    using lifecycle_fields_size [of r now] rec_ok fields by (simp add: record_ok_def wire_limits)
  then have "json_encoded_size (J_obj (?base @ se_data e)) \<le> 700000"
    using rest(2) size_int [OF rest(3)] size_isoformat [OF created(1)] created(2) keys
    by (simp add: size_obj member_size_def key_sizes)
  ultimately have "\<exists>bs. encode_gateway_task_event (gateway_event_of e) = Inr bs"
    using encode_within [OF _ _ _ cursor_valid [OF id(2)], of "se_event_type e" "?base @ se_data e"] payload ty id(1)
      lifecycle_type_ok by (simp add: gateway_event_of_def)
  moreover have "json_nesting (J_obj (?base @ se_data e)) \<le> 5"
    using nesting_obj [of "?base @ se_data e" 4] lifecycle_nesting [of r now] fields by simp
  moreover have "pystr_ok (se_event_type e)"
    using lifecycle_type_ok ty by (auto simp: pystr_ok_def line_safe_def scalar_text_def)
  ultimately show ?thesis
    using \<open>json_plain (J_obj (?base @ se_data e))\<close> payload
    by (simp add: encode_task_stream_event_def wire_event_ok_def gateway_event_of_def max_json_depth_def
        del: json_plain.simps json_nesting.simps)
qed

text \<open>
  C37. Every lifecycle event a Gateway stores can be streamed and arrives: each of them encodes, within
  the limits of a line and of a record, and the reader of the concatenated records, in whatever chunks
  they come, yields these events with their cursor and data, and no error.
\<close>

theorem lifecycle_stream_arrives:
  assumes "\<forall>e \<in> set events. lifecycle_stream_event e"
  shows "\<exists>bss. map encode_task_stream_event events = map Inr bss
    \<and> (\<forall>chunks. concat chunks = concat bss \<longrightarrow>
          iter_gateway_task_events (iter_utf8_sse_lines chunks) = (map gateway_event_of events, None))"
proof -
  have "\<exists>bss. map encode_task_stream_event events = map Inr bss \<and> written (map gateway_event_of events) bss"
    using assms
  proof (induction events)
    case (Cons e events)
    then obtain bss where "map encode_task_stream_event events = map Inr bss" "written (map gateway_event_of events) bss"
      by auto
    moreover obtain bs where "encode_task_stream_event e = Inr bs" "wire_event_ok (gateway_event_of e)"
      using lifecycle_written [of e] Cons.prems by auto
    moreover from this have "encode_gateway_task_event (gateway_event_of e) = Inr bs"
      by (simp add: encode_task_stream_event_def)
    ultimately show ?case
      by (intro exI [of _ "bs # bss"]) (simp add: written_def)
  qed (simp add: written_def)
  then show ?thesis
    using whole_stream by blast
qed

definition sample_lifecycle_event :: task_stream_event where
  "sample_lifecycle_event = \<lparr>se_event_type = str ''task.review_requested'', se_task_id = str ''t1'', se_run_count = 2,
     se_created_at = isoformat 0, se_data = lifecycle_fields record_sample None,
     se_event_id = Some (encode_task_event_cursor (str ''t1'') 2 7)\<rparr>"

theorem lifecycle_stream_arrives_witness:
  "se_event_type sample_lifecycle_event = str ''task.review_requested''
   \<and> (\<exists>bss. map encode_task_stream_event [sample_lifecycle_event] = map Inr bss
     \<and> (\<forall>chunks. concat chunks = concat bss \<longrightarrow>
          iter_gateway_task_events (iter_utf8_sse_lines chunks) = (map gateway_event_of [sample_lifecycle_event], None)))"
proof
  have ok: "record_ok record_sample"
    by (simp add: record_ok_def record_sample_def review_sample_def datetime_ok_def pystr_ok_def artifact_ok_def str_def)
  then have "lifecycle_event_data record_sample None = Inr (lifecycle_fields record_sample None)"
    using lifecycle_fields_size [of record_sample None]
    by (simp add: lifecycle_event_data_def ensure_durable_event_data_fits_def record_ok_def)
  moreover have "length (encode_task_event_cursor (str ''t1'') 2 7) \<le> max_task_event_cursor_length"
    by code_simp
  moreover have "lifecycle_event_type (tk_state record_sample) = str ''task.review_requested''"
    by (simp add: record_sample_def)
  moreover have "json_encoded_size (J_str (str ''t1'')) = 4" "scalar_text (str ''t1'')"
    by (simp_all add: size_ascii str_def scalar_text_def)
  ultimately have "lifecycle_stream_event sample_lifecycle_event"
    using ok unfolding lifecycle_stream_event_def
    by (intro conjI exI [of _ record_sample] exI [of _ "None :: int option"] exI [of _ "0 :: int"] exI [of _ "7 :: int"])
      (simp_all add: sample_lifecycle_event_def datetime_ok_def)
  then show "\<exists>bss. map encode_task_stream_event [sample_lifecycle_event] = map Inr bss
     \<and> (\<forall>chunks. concat chunks = concat bss \<longrightarrow>
          iter_gateway_task_events (iter_utf8_sse_lines chunks) = (map gateway_event_of [sample_lifecycle_event], None))"
    by (intro lifecycle_stream_arrives) simp
qed (simp add: sample_lifecycle_event_def)

end
