(* ===== verification/Remote_Events.thy ===== *)
theory Remote_Events
  imports Sse_Stream
begin

text \<open>
  How a Gateway takes over a Task event of a remote Gateway: \<open>task_stream_event_from_gateway\<close> of
  \<open>gateway_protocol/sse.py\<close> with its validators.  The parameter \<open>fromiso\<close> is
  \<open>datetime.fromisoformat\<close>: for a text it parses, whether the instant has a timezone and the text
  \<open>isoformat\<close> prints for it.
\<close>

section \<open>Validators\<close>

definition json_get :: "pystr \<Rightarrow> (pystr \<times> json) list \<Rightarrow> json" where
  "json_get k d = (case map_of d k of None \<Rightarrow> J_null | Some v \<Rightarrow> v)"

definition field_invalid :: "pystr \<Rightarrow> sse_error" where
  "field_invalid field = Sse_protocol (str ''Remote Task event field '' @ [39] @ field @ [39] @ str '' is invalid'')"

definition require_keys :: "pystr set \<Rightarrow> pystr set \<Rightarrow> (pystr \<times> json) list \<Rightarrow> sse_error + unit" where
  "require_keys required optional value =
     (if required \<subseteq> fst ` set value \<and> fst ` set value \<subseteq> required \<union> optional then Inr ()
      else Inl (Sse_protocol (str ''Remote Task event fields do not match the schema'')))"

definition bounded_required_text :: "json \<Rightarrow> pystr \<Rightarrow> sse_error + pystr" where
  "bounded_required_text value field =
     (case value of
        J_str s \<Rightarrow> if length s > max_event_text_length then Inl (field_invalid field) else Inr (normalize_task_event_text s)
      | _ \<Rightarrow> Inl (field_invalid field))"

definition bounded_optional_text :: "json \<Rightarrow> pystr \<Rightarrow> sse_error + pystr option" where
  "bounded_optional_text value field =
     (if value = J_null then Inr None else and_then (bounded_required_text value field) (\<lambda>t. Inr (Some t)))"

definition short_required_text :: "json \<Rightarrow> pystr \<Rightarrow> sse_error + pystr" where
  "short_required_text value field =
     (case value of
        J_str s \<Rightarrow> if s = [] \<or> length s > max_short_event_text_length then Inl (field_invalid field)
                   else Inr (normalize_task_event_text s)
      | _ \<Rightarrow> Inl (field_invalid field))"

definition parse_timestamp :: "(pystr \<Rightarrow> (bool \<times> pystr) option) \<Rightarrow> json \<Rightarrow> pystr \<Rightarrow> sse_error + pystr" where
  "parse_timestamp fromiso value field =
     (case value of
        J_str s \<Rightarrow>
          if length s > 128 then Inl (field_invalid field)
          else (case fromiso (concat (map (\<lambda>c. if c = 90 then str ''+00:00'' else [c]) s)) of
                  None \<Rightarrow> Inl (field_invalid field)
                | Some (zoned, printed) \<Rightarrow>
                    if zoned then Inr printed
                    else Inl (Sse_protocol (str ''Remote Task event field '' @ [39] @ field @ [39]
                                @ str '' has no timezone'')))
      | _ \<Rightarrow> Inl (field_invalid field))"

definition parse_remote_task_state :: "json \<Rightarrow> sse_error + task_state" where
  "parse_remote_task_state value =
     (case (case value of J_str s \<Rightarrow> parse_task_state (str ''Remote Task event status'') (PStr s)
            | _ \<Rightarrow> parse_task_state (str ''Remote Task event status'') PNone) of
        Inl e \<Rightarrow> Inl (Sse_protocol (str ''Remote Task event status is invalid''))
      | Inr st \<Rightarrow> Inr st)"

definition validate_artifact :: "json \<Rightarrow> sse_error + json" where
  "validate_artifact value =
     (case value of
        J_obj d \<Rightarrow>
          if fst ` set d \<noteq> {str ''artifact_id'', str ''name'', str ''caption'', str ''content_type'', str ''size'', str ''run_count''}
          then Inl (Sse_protocol (str ''Remote artifact projection is invalid''))
          else (case (json_get (str ''size'') d, json_get (str ''run_count'') d) of
                  (J_int artifact_size, J_int artifact_run) \<Rightarrow>
                    if artifact_size < 0 \<or> artifact_run < 0
                    then Inl (Sse_protocol (str ''Remote artifact numeric fields are invalid''))
                    else (case (case json_get (str ''caption'') d of
                                  J_null \<Rightarrow> Some None
                                | J_str s \<Rightarrow> Some (Some (normalize_task_event_text s))
                                | _ \<Rightarrow> None) of
                            None \<Rightarrow> Inl (Sse_protocol (str ''Remote artifact caption is invalid''))
                          | Some caption \<Rightarrow>
                              and_then (short_required_text (json_get (str ''artifact_id'') d) (str ''artifact_id'')) (\<lambda>artifact_id.
                              and_then (short_required_text (json_get (str ''name'') d) (str ''name'')) (\<lambda>name.
                              and_then (short_required_text (json_get (str ''content_type'') d) (str ''content_type'')) (\<lambda>content_type.
                                Inr (J_obj [(str ''artifact_id'', J_str artifact_id), (str ''name'', J_str name),
                                  (str ''caption'', json_opt caption), (str ''content_type'', J_str content_type),
                                  (str ''size'', J_int artifact_size), (str ''run_count'', J_int artifact_run)])))))
                | _ \<Rightarrow> Inl (Sse_protocol (str ''Remote artifact numeric fields are invalid'')))
      | _ \<Rightarrow> Inl (Sse_protocol (str ''Remote artifact projection is invalid'')))"

definition validate_artifacts :: "json \<Rightarrow> sse_error + json" where
  "validate_artifacts value =
     (case value of
        J_list vs \<Rightarrow>
          if length vs > max_event_artifacts then Inl (Sse_protocol (str ''Remote artifacts field is invalid''))
          else and_then (each validate_artifact vs) (\<lambda>items. Inr (J_list items))
      | _ \<Rightarrow> Inl (Sse_protocol (str ''Remote artifacts field is invalid'')))"

definition validate_action_request :: "json \<Rightarrow> sse_error + json" where
  "validate_action_request item =
     (case item of
        J_obj d \<Rightarrow>
          if fst ` set d \<noteq> {str ''name''} then Inl (Sse_protocol (str ''Remote review action request is invalid''))
          else and_then (short_required_text (json_get (str ''name'') d) (str ''name'')) (\<lambda>name.
                 Inr (J_obj [(str ''name'', J_str name)]))
      | _ \<Rightarrow> Inl (Sse_protocol (str ''Remote review action request is invalid'')))"

definition validate_review_config :: "json \<Rightarrow> sse_error + json" where
  "validate_review_config item =
     (case item of
        J_obj d \<Rightarrow>
          if fst ` set d \<noteq> {str ''action_name'', str ''allowed_decisions''}
          then Inl (Sse_protocol (str ''Remote review config is invalid''))
          else (case json_get (str ''allowed_decisions'') d of
                  J_list decisions \<Rightarrow>
                    if length decisions > max_review_decisions
                    then Inl (Sse_protocol (str ''Remote review decisions are invalid''))
                    else
                      and_then (short_required_text (json_get (str ''action_name'') d) (str ''action_name'')) (\<lambda>action_name.
                      and_then (each (\<lambda>choice. short_required_text choice (str ''allowed_decisions'')) decisions) (\<lambda>choices.
                        Inr (J_obj [(str ''action_name'', J_str action_name), (str ''allowed_decisions'', J_list (map J_str choices))])))
                | _ \<Rightarrow> Inl (Sse_protocol (str ''Remote review decisions are invalid'')))
      | _ \<Rightarrow> Inl (Sse_protocol (str ''Remote review config is invalid'')))"

text \<open>A member of the review, when it is there: its validation gives the members of the clean review.\<close>

definition when_given ::
  "pystr \<Rightarrow> (pystr \<times> json) list \<Rightarrow> (json \<Rightarrow> sse_error + json) \<Rightarrow> sse_error + (pystr \<times> json) list" where
  "when_given key value validate =
     (case map_of value key of None \<Rightarrow> Inr [] | Some item \<Rightarrow> and_then (validate item) (\<lambda>clean. Inr [(key, clean)]))"

definition validate_list :: "pystr \<Rightarrow> nat \<Rightarrow> (json \<Rightarrow> sse_error + json) \<Rightarrow> json \<Rightarrow> sse_error + json" where
  "validate_list message most validate items =
     (case items of
        J_list vs \<Rightarrow> if length vs > most then Inl (Sse_protocol message)
                     else and_then (each validate vs) (\<lambda>clean. Inr (J_list clean))
      | _ \<Rightarrow> Inl (Sse_protocol message))"

definition validate_pending_review :: "json \<Rightarrow> pystr \<Rightarrow> sse_error + json" where
  "validate_pending_review value public_task_id =
     (case value of
        J_null \<Rightarrow> Inr J_null
      | J_obj d \<Rightarrow>
          if \<not> fst ` set d \<subseteq> {str ''review_id'', str ''source_task_id'', str ''action_requests'', str ''review_configs''}
          then Inl (Sse_protocol (str ''Remote pending_review contains unsupported fields''))
          else
            and_then (when_given (str ''review_id'') d (\<lambda>v.
              and_then (short_required_text v (str ''review_id'')) (\<lambda>t. Inr (J_str t)))) (\<lambda>review_id.
            and_then (when_given (str ''source_task_id'') d (\<lambda>v.
              and_then (short_required_text v (str ''source_task_id'')) (\<lambda>t. Inr (J_str public_task_id)))) (\<lambda>source_task_id.
            and_then (when_given (str ''action_requests'') d
              (validate_list (str ''Remote review action_requests is invalid'') max_review_items validate_action_request)) (\<lambda>action_requests.
            and_then (when_given (str ''review_configs'') d
              (validate_list (str ''Remote review_configs is invalid'') max_review_items validate_review_config)) (\<lambda>review_configs.
              Inr (J_obj (review_id @ source_task_id @ action_requests @ review_configs))))))
      | _ \<Rightarrow> Inl (Sse_protocol (str ''Remote pending_review is invalid'')))"


section \<open>Events\<close>

definition truncation_flags :: "pystr list" where
  "truncation_flags = map str [''artifacts_truncated'', ''last_result_truncated'', ''error_truncated'',
     ''pending_review_truncated'', ''reconciled'']"

text \<open>The flags of a lifecycle event, in this order; each must be \<open>True\<close> when it is there.\<close>

definition validate_flag :: "(pystr \<times> json) list \<Rightarrow> pystr \<Rightarrow> sse_error + (pystr \<times> json) list" where
  "validate_flag raw key =
     (case map_of raw key of
        None \<Rightarrow> Inr []
      | Some v \<Rightarrow> if v = J_bool True then Inr [(key, J_bool True)] else Inl (field_invalid key))"

definition expected_status :: "pystr \<Rightarrow> task_state option" where
  "expected_status event_type =
     map_of [(str ''task.created'', TS_pending), (str ''task.running'', TS_running), (str ''task.completed'', TS_completed),
       (str ''task.failed'', TS_failed), (str ''task.cancelled'', TS_cancelled), (str ''task.interrupted'', TS_interrupted)]
       event_type"

definition lifecycle_required :: "pystr set" where
  "lifecycle_required = {str ''status'', str ''last_result'', str ''error'', str ''updated_at'', str ''pending_review'', str ''artifacts''}"

definition lifecycle_optional :: "pystr set" where
  "lifecycle_optional = {str ''artifacts_truncated'', str ''last_result_truncated'', str ''error_truncated'',
     str ''pending_review_truncated'', str ''reconciled'', str ''observed_at''}"

definition validate_lifecycle_data ::
  "(pystr \<Rightarrow> (bool \<times> pystr) option) \<Rightarrow> (pystr \<times> json) list \<Rightarrow> pystr \<Rightarrow> pystr \<Rightarrow> sse_error + (pystr \<times> json) list" where
  "validate_lifecycle_data fromiso raw event_type public_task_id =
     and_then (require_keys lifecycle_required lifecycle_optional raw) (\<lambda>_.
     and_then (parse_remote_task_state (json_get (str ''status'') raw)) (\<lambda>status.
     and_then (bounded_optional_text (json_get (str ''error'') raw) (str ''error'')) (\<lambda>remote_error.
     and_then (bounded_optional_text (json_get (str ''last_result'') raw) (str ''last_result'')) (\<lambda>last_result.
     and_then (parse_timestamp fromiso (json_get (str ''updated_at'') raw) (str ''updated_at'')) (\<lambda>updated_at.
     and_then (validate_pending_review (json_get (str ''pending_review'') raw) public_task_id) (\<lambda>pending_review.
     and_then (validate_artifacts (json_get (str ''artifacts'') raw)) (\<lambda>artifacts.
     and_then (each (validate_flag raw) truncation_flags) (\<lambda>flags.
     and_then (case map_of raw (str ''observed_at'') of
                 None \<Rightarrow> Inr []
               | Some v \<Rightarrow> and_then (parse_timestamp fromiso v (str ''observed_at'')) (\<lambda>t. Inr [(str ''observed_at'', J_str t)])) (\<lambda>observed.
       if (map_of raw (str ''reconciled'') \<noteq> None) \<noteq> (map_of raw (str ''observed_at'') \<noteq> None)
       then Inl (Sse_protocol (str ''Remote reconciled Task event is incomplete''))
       else if (case expected_status event_type of None \<Rightarrow> False | Some st \<Rightarrow> status \<noteq> st)
       then Inl (Sse_protocol (str ''Remote lifecycle event status is inconsistent''))
       else if event_type = str ''task.review_requested'' \<and> \<not> json_truthy pending_review
       then Inl (Sse_protocol (str ''Remote review event has no pending review''))
       else Inr ([(str ''status'', J_str (task_state_name status)), (str ''last_result'', json_opt last_result),
                  (str ''error'', if remote_error \<noteq> None then J_str (str ''Remote Gateway Task failed'') else J_null),
                  (str ''updated_at'', J_str updated_at), (str ''pending_review'', pending_review), (str ''artifacts'', artifacts)]
                 @ concat flags @ observed))))))))))"

definition validate_artifact_event_data ::
  "(pystr \<Rightarrow> (bool \<times> pystr) option) \<Rightarrow> (pystr \<times> json) list \<Rightarrow> sse_error + (pystr \<times> json) list" where
  "validate_artifact_event_data fromiso raw =
     and_then (require_keys {str ''status'', str ''updated_at'', str ''artifact''} {str ''artifact_truncated''} raw) (\<lambda>_.
     and_then (parse_remote_task_state (json_get (str ''status'') raw)) (\<lambda>status.
     and_then (parse_timestamp fromiso (json_get (str ''updated_at'') raw) (str ''updated_at'')) (\<lambda>updated_at.
     and_then (validate_artifact (json_get (str ''artifact'') raw)) (\<lambda>artifact.
     and_then (case map_of raw (str ''artifact_truncated'') of
                 None \<Rightarrow> Inr []
               | Some v \<Rightarrow> if v = J_bool True then Inr [(str ''artifact_truncated'', J_bool True)]
                           else Inl (Sse_protocol (str ''Remote artifact_truncated field is invalid''))) (\<lambda>truncated.
       Inr ([(str ''status'', J_str (task_state_name status)), (str ''updated_at'', J_str updated_at),
             (str ''artifact'', artifact)] @ truncated))))))"

definition lifecycle_event_types :: "pystr list" where
  "lifecycle_event_types = map str [''task.created'', ''task.running'', ''task.review_requested'', ''task.completed'',
     ''task.failed'', ''task.cancelled'', ''task.interrupted'']"

definition supported_task_event_types :: "pystr list" where
  "supported_task_event_types = lifecycle_event_types
     @ map str [''task.snapshot'', ''task.artifact_published'', ''assistant.delta'', ''stream.error'', ''stream.end'']"

definition durable_wire_event_types :: "pystr list" where
  "durable_wire_event_types = lifecycle_event_types @ map str [''task.snapshot'', ''task.artifact_published'']"

definition stream_end_reasons :: "pystr list" where
  "stream_end_reasons = map str [''review_required'', ''completed'', ''failed'', ''cancelled'', ''interrupted'',
     ''superseded'', ''error'']"

definition max_assistant_delta_text_length :: nat where
  "max_assistant_delta_text_length = 32 * 1024"

text \<open>The data of one event, by its type.\<close>

definition clean_event_data ::
  "(pystr \<Rightarrow> (bool \<times> pystr) option) \<Rightarrow> pystr \<Rightarrow> (pystr \<times> json) list \<Rightarrow> pystr \<Rightarrow> sse_error + (pystr \<times> json) list" where
  "clean_event_data fromiso event_type event_data public_task_id =
     (if event_type \<in> set lifecycle_event_types \<or> event_type = str ''task.snapshot''
      then validate_lifecycle_data fromiso event_data event_type public_task_id
      else if event_type = str ''task.artifact_published'' then validate_artifact_event_data fromiso event_data
      else if event_type = str ''assistant.delta'' then
        and_then (require_keys {str ''content''} {} event_data) (\<lambda>_.
        and_then (bounded_required_text (json_get (str ''content'') event_data) (str ''content'')) (\<lambda>content.
          Inr [(str ''content'', J_str (take max_assistant_delta_text_length content))]))
      else if event_type = str ''stream.end'' then
        and_then (require_keys {str ''reason''} {} event_data) (\<lambda>_.
          case json_get (str ''reason'') event_data of
            J_str reason \<Rightarrow> if reason \<in> set stream_end_reasons then Inr [(str ''reason'', J_str reason)]
                            else Inl (Sse_protocol (str ''Remote stream.end reason is invalid''))
          | _ \<Rightarrow> Inl (Sse_protocol (str ''Remote stream.end reason is invalid'')))
      else
        and_then (require_keys {str ''code'', str ''message''} {} event_data) (\<lambda>_.
        and_then (short_required_text (json_get (str ''code'') event_data) (str ''code'')) (\<lambda>_.
        and_then (bounded_required_text (json_get (str ''message'') event_data) (str ''message'')) (\<lambda>_.
          Inr [(str ''code'', J_str (str ''upstream_task_stream_error'')),
               (str ''message'', J_str (str ''Remote Gateway Task stream failed''))]))))"

definition task_stream_event_from_gateway ::
  "(pystr \<Rightarrow> (bool \<times> pystr) option) \<Rightarrow> gateway_task_event \<Rightarrow> pystr \<Rightarrow> pystr \<Rightarrow> int \<Rightarrow> sse_error + task_stream_event" where
  "task_stream_event_from_gateway fromiso event expected_task_id public_task_id run_count =
     (let event_type = ge_event_type event; raw = ge_data event in
      if event_type \<notin> set supported_task_event_types
      then Inl (Sse_protocol (str ''Remote Gateway returned an unsupported Task event''))
      else if event_type \<in> set durable_wire_event_types \<and> \<not> is_valid_task_event_cursor (ge_event_id event)
      then Inl (Sse_protocol (str ''Remote durable Task event has an invalid event id''))
      else if event_type \<notin> set durable_wire_event_types \<and> ge_event_id event \<noteq> None
      then Inl (Sse_protocol (str ''Remote transient Task event unexpectedly has an id''))
      else if json_get (str ''task_id'') raw \<noteq> J_str expected_task_id
      then Inl (Sse_protocol (str ''Remote Gateway returned an event for the wrong Task''))
      else if json_get (str ''run_count'') raw \<noteq> J_int run_count
      then Inl (Sse_protocol (str ''Remote Gateway returned an event for the wrong run''))
      else
        and_then (parse_timestamp fromiso (json_get (str ''created_at'') raw) (str ''created_at'')) (\<lambda>created_at.
        and_then (clean_event_data fromiso event_type
            (filter (\<lambda>kv. fst kv \<notin> {str ''task_id'', str ''run_count'', str ''created_at''}) raw) public_task_id) (\<lambda>clean_data.
          let stream_event = \<lparr>se_event_type = event_type, se_task_id = public_task_id, se_run_count = run_count,
                se_created_at = created_at, se_data = clean_data, se_event_id = ge_event_id event\<rparr>
          in and_then (encode_task_stream_event stream_event) (\<lambda>_. Inr stream_event))))"


section \<open>Nothing of the remote side but its schema gets through\<close>

lemma when_given_keys: "when_given key d f = Inr m \<Longrightarrow> fst ` set m \<subseteq> {key}"
  by (auto simp: when_given_def and_then_Inr split: option.splits)

lemma when_given_source:
  "when_given k d (\<lambda>v. and_then (short_required_text v k) (\<lambda>t. Inr (J_str p))) = Inr m \<Longrightarrow> m = [] \<or> m = [(k, J_str p)]"
  by (auto simp: when_given_def and_then_Inr split: option.splits)

lemma review_clean:
  assumes "validate_pending_review v public = Inr (J_obj r)"
  shows "fst ` set r \<subseteq> {str ''review_id'', str ''source_task_id'', str ''action_requests'', str ''review_configs''}
    \<and> (\<forall>w. map_of r (str ''source_task_id'') = Some w \<longrightarrow> w = J_str public)"
proof -
  obtain d where v: "v = J_obj d"
    using assms by (auto simp: validate_pending_review_def split: json.splits)
  let ?id = "when_given (str ''review_id'') d (\<lambda>v. and_then (short_required_text v (str ''review_id'')) (\<lambda>t. Inr (J_str t)))"
  obtain m1 m2 m3 m4 where m: "?id = Inr m1"
    "when_given (str ''source_task_id'') d (\<lambda>v. and_then (short_required_text v (str ''source_task_id'')) (\<lambda>t. Inr (J_str public))) = Inr m2"
    "when_given (str ''action_requests'') d
       (validate_list (str ''Remote review action_requests is invalid'') max_review_items validate_action_request) = Inr m3"
    "when_given (str ''review_configs'') d
       (validate_list (str ''Remote review_configs is invalid'') max_review_items validate_review_config) = Inr m4"
    and r: "r = m1 @ m2 @ m3 @ m4"
    using assms by (auto simp: validate_pending_review_def v and_then_Inr split: if_splits)
  note keys = when_given_keys [OF m(1)] when_given_keys [OF m(3)] when_given_keys [OF m(4)]
  have "str ''source_task_id'' \<notin> fst ` set m1" "str ''source_task_id'' \<notin> fst ` set m3" "str ''source_task_id'' \<notin> fst ` set m4"
    using keys by auto
  then have none: "map_of m1 (str ''source_task_id'') = None" "map_of m3 (str ''source_task_id'') = None"
    "map_of m4 (str ''source_task_id'') = None"
    by (simp_all add: map_of_eq_None_iff)
  then have "map_of r (str ''source_task_id'') = map_of m2 (str ''source_task_id'')"
    by (simp add: r map_add_def split: option.split)
  then show ?thesis
    using when_given_source [OF m(2)] keys when_given_keys [OF m(2)] by (auto simp: r)
qed

text \<open>The nested members: objects with no other names, and lists of them.\<close>

definition named_object :: "pystr set \<Rightarrow> json \<Rightarrow> bool" where
  "named_object ks v \<longleftrightarrow> (\<exists>d. v = J_obj d \<and> fst ` set d \<subseteq> ks)"

definition listed :: "(json \<Rightarrow> bool) \<Rightarrow> json \<Rightarrow> bool" where
  "listed P v \<longleftrightarrow> (\<exists>vs. v = J_list vs \<and> (\<forall>x \<in> set vs. P x))"

definition artifact_names :: "pystr set" where
  "artifact_names = {str ''artifact_id'', str ''name'', str ''caption'', str ''content_type'', str ''size'', str ''run_count''}"

definition review_sanitized :: "pystr \<Rightarrow> json \<Rightarrow> bool" where
  "review_sanitized public v \<longleftrightarrow> v = J_null \<or>
     (\<exists>r. v = J_obj r
        \<and> fst ` set r \<subseteq> {str ''review_id'', str ''source_task_id'', str ''action_requests'', str ''review_configs''}
        \<and> (\<forall>w. map_of r (str ''source_task_id'') = Some w \<longrightarrow> w = J_str public)
        \<and> (\<forall>w. map_of r (str ''action_requests'') = Some w \<longrightarrow> listed (named_object {str ''name''}) w)
        \<and> (\<forall>w. map_of r (str ''review_configs'') = Some w \<longrightarrow>
              listed (named_object {str ''action_name'', str ''allowed_decisions''}) w))"

lemma each_all: "each f xs = Inr ys \<Longrightarrow> \<forall>x y. f x = Inr y \<longrightarrow> P y \<Longrightarrow> \<forall>y \<in> set ys. P y"
  by (induction xs arbitrary: ys) (auto simp: and_then_Inr)

lemma action_named: "validate_action_request v = Inr w \<Longrightarrow> named_object {str ''name''} w"
  by (auto simp: validate_action_request_def named_object_def and_then_Inr split: json.splits if_splits)

lemma config_named:
  "validate_review_config v = Inr w \<Longrightarrow> named_object {str ''action_name'', str ''allowed_decisions''} w"
  by (auto simp: validate_review_config_def named_object_def and_then_Inr split: json.splits if_splits)

lemma artifact_named_object: "validate_artifact v = Inr w \<Longrightarrow> named_object artifact_names w"
  by (auto simp: validate_artifact_def named_object_def artifact_names_def and_then_Inr
      split: json.splits if_splits option.splits)

lemma list_named:
  "validate_list msg most f v = Inr w \<Longrightarrow> \<forall>x y. f x = Inr y \<longrightarrow> P y \<Longrightarrow> listed P w"
  by (auto simp: validate_list_def listed_def and_then_Inr dest: each_all [of f _ _ P] split: json.splits if_splits)

lemma artifacts_named: "validate_artifacts v = Inr w \<Longrightarrow> listed (named_object artifact_names) w"
  using each_all [of validate_artifact _ _ "named_object artifact_names"] artifact_named_object
  by (auto simp: validate_artifacts_def listed_def and_then_Inr split: json.splits if_splits)

lemma when_given_list:
  assumes "when_given k d (validate_list msg most f) = Inr m" and "\<forall>x y. f x = Inr y \<longrightarrow> P y"
  shows "map_of m k = Some w \<Longrightarrow> listed P w"
  using assms list_named [of msg most f _ _ P] by (auto simp: when_given_def and_then_Inr split: option.splits)

lemma review_sanitized_clean:
  assumes "validate_pending_review v public = Inr j"
  shows "review_sanitized public j"
proof (cases j)
  case J_null
  then show ?thesis by (simp add: review_sanitized_def)
next
  case (J_obj r)
  note keys = review_clean [OF assms [unfolded J_obj]]
  obtain d where v: "v = J_obj d"
    using assms J_obj by (auto simp: validate_pending_review_def split: json.splits)
  obtain m1 m2 m3 m4 where
    m1: "when_given (str ''review_id'') d (\<lambda>v. and_then (short_required_text v (str ''review_id'')) (\<lambda>t. Inr (J_str t))) = Inr m1"
    and m2: "when_given (str ''source_task_id'') d (\<lambda>v. and_then (short_required_text v (str ''source_task_id'')) (\<lambda>t. Inr (J_str public))) = Inr m2"
    and m3: "when_given (str ''action_requests'') d
       (validate_list (str ''Remote review action_requests is invalid'') max_review_items validate_action_request) = Inr m3"
    and m4: "when_given (str ''review_configs'') d
       (validate_list (str ''Remote review_configs is invalid'') max_review_items validate_review_config) = Inr m4"
    and r: "r = m1 @ m2 @ m3 @ m4"
    using assms J_obj by (auto simp: validate_pending_review_def v and_then_Inr split: if_splits)
  have out: "k \<notin> ks \<Longrightarrow> fst ` set m \<subseteq> ks \<Longrightarrow> map_of m k = None" for k ks and m :: "(pystr \<times> json) list"
    by (auto simp: map_of_eq_None_iff)
  have "map_of r (str ''action_requests'') = map_of m3 (str ''action_requests'')"
    "map_of r (str ''review_configs'') = map_of m4 (str ''review_configs'')"
    using out [OF _ when_given_keys [OF m1]] out [OF _ when_given_keys [OF m2]] out [OF _ when_given_keys [OF m3]]
      out [OF _ when_given_keys [OF m4]]
    by (simp_all add: r map_add_def split: option.split)
  then show ?thesis
    using keys when_given_list [OF m3, of "named_object {str ''name''}"] action_named
      when_given_list [OF m4, of "named_object {str ''action_name'', str ''allowed_decisions''}"] config_named
    by (auto simp: review_sanitized_def J_obj)
qed (use assms in \<open>auto simp: validate_pending_review_def and_then_Inr split: json.splits if_splits\<close>)

lemma each_flags: "each (validate_flag raw) ks = Inr fs \<Longrightarrow> fst ` set (concat fs) \<subseteq> set ks"
proof (induction ks arbitrary: fs)
  case (Cons k ks)
  then obtain f fs' where "validate_flag raw k = Inr f" "each (validate_flag raw) ks = Inr fs'" "fs = f # fs'"
    by (auto simp: and_then_Inr)
  moreover from this(1) have "fst ` set f \<subseteq> {k}"
    by (auto simp: validate_flag_def split: option.splits if_splits)
  ultimately show ?case
    using Cons.IH by fastforce
qed simp

lemma lifecycle_clean:
  assumes "validate_lifecycle_data fromiso raw ty public = Inr d"
  shows "fst ` set d \<subseteq> lifecycle_required \<union> lifecycle_optional"
    and "json_get (str ''error'') d \<in> {J_null, J_str (str ''Remote Gateway Task failed'')}"
    and "validate_pending_review (json_get (str ''pending_review'') raw) public = Inr (json_get (str ''pending_review'') d)"
    and "ty = str ''task.review_requested'' \<Longrightarrow> json_truthy (json_get (str ''pending_review'') d)"
    and "\<exists>st. json_get (str ''status'') d = J_str (task_state_name st) \<and> (\<forall>want. expected_status ty = Some want \<longrightarrow> st = want)"
    and "json_get (str ''error'') d = J_null \<longleftrightarrow> json_get (str ''error'') raw = J_null"
    and "listed (named_object artifact_names) (json_get (str ''artifacts'') d)"
proof -
  from assms obtain st and err :: "pystr option" and res upd rev_json arts flags obs where
    err: "bounded_optional_text (json_get (str ''error'') raw) (str ''error'') = Inr err"
    and arts: "validate_artifacts (json_get (str ''artifacts'') raw) = Inr arts"
    and rev_ok: "validate_pending_review (json_get (str ''pending_review'') raw) public = Inr rev_json"
    and flags: "each (validate_flag raw) truncation_flags = Inr flags"
    and obs: "(case map_of raw (str ''observed_at'') of
                 None \<Rightarrow> Inr []
               | Some v \<Rightarrow> and_then (parse_timestamp fromiso v (str ''observed_at'')) (\<lambda>t. Inr [(str ''observed_at'', J_str t)])) = Inr obs"
    and last: "(if (map_of raw (str ''reconciled'') \<noteq> None) \<noteq> (map_of raw (str ''observed_at'') \<noteq> None)
       then Inl (Sse_protocol (str ''Remote reconciled Task event is incomplete''))
       else if (case expected_status ty of None \<Rightarrow> False | Some w \<Rightarrow> st \<noteq> w)
       then Inl (Sse_protocol (str ''Remote lifecycle event status is inconsistent''))
       else if ty = str ''task.review_requested'' \<and> \<not> json_truthy rev_json
       then Inl (Sse_protocol (str ''Remote review event has no pending review''))
       else Inr ([(str ''status'', J_str (task_state_name st)), (str ''last_result'', json_opt res),
                  (str ''error'', if err \<noteq> None then J_str (str ''Remote Gateway Task failed'') else J_null),
                  (str ''updated_at'', J_str upd), (str ''pending_review'', rev_json), (str ''artifacts'', arts)]
                 @ concat flags @ obs)) = Inr d"
    unfolding validate_lifecycle_data_def by (elim and_then_elim) (rule that, assumption+)
  then have want: "\<not> (case expected_status ty of None \<Rightarrow> False | Some w \<Rightarrow> st \<noteq> w)"
      "\<not> (ty = str ''task.review_requested'' \<and> \<not> json_truthy rev_json)"
    and d: "d = [(str ''status'', J_str (task_state_name st)), (str ''last_result'', json_opt res),
                  (str ''error'', if err \<noteq> None then J_str (str ''Remote Gateway Task failed'') else J_null),
                  (str ''updated_at'', J_str upd), (str ''pending_review'', rev_json), (str ''artifacts'', arts)]
                 @ concat flags @ obs"
    by (simp_all split: if_split_asm)
  have "fst ` set obs \<subseteq> lifecycle_optional"
    using obs by (auto simp: and_then_Inr lifecycle_optional_def split: option.splits)
  moreover have "fst ` set (concat flags) \<subseteq> lifecycle_optional"
    using each_flags [OF flags] by (rule order_trans) (auto simp: truncation_flags_def lifecycle_optional_def)
  ultimately have "fst ` set (concat flags @ obs) \<subseteq> lifecycle_optional"
    by (simp only: set_append image_Un Un_subset_iff)
  then show "fst ` set d \<subseteq> lifecycle_required \<union> lifecycle_optional"
    unfolding d by (auto simp only: set_append image_Un list.set image_insert image_empty fst_conv lifecycle_required_def)
  show "json_get (str ''error'') d \<in> {J_null, J_str (str ''Remote Gateway Task failed'')}"
    by (simp add: d json_get_def)
  have rev_d: "json_get (str ''pending_review'') d = rev_json"
    by (simp add: d json_get_def)
  then show "validate_pending_review (json_get (str ''pending_review'') raw) public = Inr (json_get (str ''pending_review'') d)"
    using rev_ok by simp
  show "ty = str ''task.review_requested'' \<Longrightarrow> json_truthy (json_get (str ''pending_review'') d)"
    using want(2) rev_d by simp
  show "\<exists>st. json_get (str ''status'') d = J_str (task_state_name st) \<and> (\<forall>want. expected_status ty = Some want \<longrightarrow> st = want)"
    using want(1) by (intro exI [of _ st]) (auto simp: d json_get_def split: option.splits)
  have "json_get (str ''error'') d = (if err \<noteq> None then J_str (str ''Remote Gateway Task failed'') else J_null)"
    by (simp add: d json_get_def)
  then show "json_get (str ''error'') d = J_null \<longleftrightarrow> json_get (str ''error'') raw = J_null"
    using err by (auto simp: bounded_optional_text_def and_then_Inr split: if_splits)
  have "json_get (str ''artifacts'') d = arts"
    by (simp add: d json_get_def)
  then show "listed (named_object artifact_names) (json_get (str ''artifacts'') d)"
    using artifacts_named [OF arts] by simp
qed

text \<open>The names an event may carry, by its type.\<close>

definition event_schema :: "pystr \<Rightarrow> pystr set" where
  "event_schema ty =
     (if ty \<in> set lifecycle_event_types \<or> ty = str ''task.snapshot'' then lifecycle_required \<union> lifecycle_optional
      else if ty = str ''task.artifact_published'' then {str ''status'', str ''updated_at'', str ''artifact'', str ''artifact_truncated''}
      else if ty = str ''assistant.delta'' then {str ''content''}
      else if ty = str ''stream.end'' then {str ''reason''}
      else {str ''code'', str ''message''})"

lemma json_get_absent: "k \<notin> fst ` set d \<Longrightarrow> json_get k d = J_null"
  by (simp add: json_get_def map_of_eq_None_iff [THEN iffD2])

lemma artifact_data_keys:
  "validate_artifact_event_data fromiso raw = Inr d
    \<Longrightarrow> fst ` set d \<subseteq> {str ''status'', str ''updated_at'', str ''artifact'', str ''artifact_truncated''}"
  unfolding validate_artifact_event_data_def
  by (elim and_then_elim) (auto split: option.splits if_splits)

lemma artifact_data_named:
  "validate_artifact_event_data fromiso raw = Inr d \<Longrightarrow> named_object artifact_names (json_get (str ''artifact'') d)"
  unfolding validate_artifact_event_data_def
  by (elim and_then_elim) (auto simp: json_get_def dest: artifact_named_object)

text \<open>The data without the identity of the event.\<close>

lemma json_get_filter: "P k \<Longrightarrow> json_get k (filter (\<lambda>kv. P (fst kv)) d) = json_get k d"
  by (induction d) (auto simp: json_get_def)

lemma clean_stream_error:
  "clean_event_data fromiso (str ''stream.error'') raw public = Inr d \<Longrightarrow>
    d = [(str ''code'', J_str (str ''upstream_task_stream_error'')),
         (str ''message'', J_str (str ''Remote Gateway Task stream failed''))]"
  by (auto simp: clean_event_data_def lifecycle_event_types_def and_then_Inr str_def)

lemma clean_nested:
  assumes "clean_event_data fromiso ty raw public = Inr d" and "fst ` set d \<subseteq> event_schema ty"
  shows "review_sanitized public (json_get (str ''pending_review'') d)
    \<and> (str ''error'' \<in> event_schema ty \<longrightarrow>
         (json_get (str ''error'') d = J_null \<longleftrightarrow> json_get (str ''error'') raw = J_null))
    \<and> (str ''artifacts'' \<in> event_schema ty \<longrightarrow> listed (named_object artifact_names) (json_get (str ''artifacts'') d))
    \<and> (str ''artifact'' \<in> event_schema ty \<longrightarrow> named_object artifact_names (json_get (str ''artifact'') d))"
proof (cases "ty \<in> set lifecycle_event_types \<or> ty = str ''task.snapshot''")
  case True
  then have "validate_lifecycle_data fromiso raw ty public = Inr d"
    using assms by (simp add: clean_event_data_def)
  note clean = lifecycle_clean [OF this]
  have "str ''artifact'' \<notin> event_schema ty"
    using True by (simp add: event_schema_def lifecycle_required_def lifecycle_optional_def)
  then show ?thesis
    using clean(6,7) review_sanitized_clean [OF clean(3)] by simp
next
  case False
  then have out: "str ''error'' \<notin> event_schema ty" "str ''artifacts'' \<notin> event_schema ty"
    "str ''pending_review'' \<notin> event_schema ty"
    by (simp_all add: event_schema_def)
  then have "json_get (str ''pending_review'') d = J_null"
    using assms(2) by (auto intro: json_get_absent)
  moreover have "named_object artifact_names (json_get (str ''artifact'') d)" if "str ''artifact'' \<in> event_schema ty"
  proof -
    have "ty = str ''task.artifact_published''"
      using that False by (simp add: event_schema_def split: if_splits)
    then show ?thesis
      using assms(1) False artifact_data_named by (simp add: clean_event_data_def)
  qed
  ultimately show ?thesis
    using out by (simp add: review_sanitized_def)
qed

lemma clean_data:
  assumes "clean_event_data fromiso ty raw public = Inr d"
  shows "fst ` set d \<subseteq> event_schema ty
    \<and> json_get (str ''error'') d \<in> {J_null, J_str (str ''Remote Gateway Task failed'')}
    \<and> (\<forall>r w. json_get (str ''pending_review'') d = J_obj r \<longrightarrow> map_of r (str ''source_task_id'') = Some w \<longrightarrow> w = J_str public)
    \<and> (expected_status ty \<noteq> None \<longrightarrow> json_get (str ''status'') d = J_str (task_state_name (the (expected_status ty))))"
proof (cases "ty \<in> set lifecycle_event_types \<or> ty = str ''task.snapshot''")
  case True
  then have "validate_lifecycle_data fromiso raw ty public = Inr d"
    using assms by (simp add: clean_event_data_def)
  note clean = lifecycle_clean [OF this]
  have "\<forall>r w. json_get (str ''pending_review'') d = J_obj r \<longrightarrow> map_of r (str ''source_task_id'') = Some w \<longrightarrow> w = J_str public"
    using review_clean [of _ public] clean(3) by metis
  then show ?thesis
    using clean(1,2,5) True by (auto simp: event_schema_def)
next
  case False
  have keys: "fst ` set d \<subseteq> event_schema ty"
  proof (cases "ty = str ''task.artifact_published''")
    case True
    then show ?thesis
      using assms False artifact_data_keys by (simp add: clean_event_data_def event_schema_def)
  next
    case other: False
    show ?thesis
    proof (cases "ty = str ''assistant.delta''")
      case True
      then show ?thesis
        using assms False by (auto simp: clean_event_data_def event_schema_def and_then_Inr)
    next
      case no_delta: False
      show ?thesis
        using assms False other no_delta
        by (cases "ty = str ''stream.end''")
          (auto simp: clean_event_data_def event_schema_def and_then_Inr split: json.splits if_splits)
    qed
  qed
  have "str ''error'' \<notin> event_schema ty" "str ''pending_review'' \<notin> event_schema ty"
    using False by (simp_all add: event_schema_def)
  then have "json_get (str ''error'') d = J_null" "json_get (str ''pending_review'') d = J_null"
    using keys by (auto intro: json_get_absent)
  moreover have "expected_status ty = None"
    using False by (simp add: expected_status_def lifecycle_event_types_def)
  ultimately show ?thesis
    using keys by simp
qed

text \<open>
  C38. An event of a remote Gateway that is accepted carries only what its schema names, in its data
  and in the objects of its review and artifacts: it was for the expected Task and run and now names
  the public Task; the error of a lifecycle event is the fixed public text exactly when the peer sent
  one, and a stream error has the fixed code and message whatever the peer wrote; a pending review
  points at the public Task, a lifecycle event has the status of its type, and the event can be
  encoded again.  This holds whatever instants \<open>fromisoformat\<close> accepts.
\<close>

theorem remote_event_sanitized:
  assumes "task_stream_event_from_gateway fromiso event expected public run = Inr e"
  shows "json_get (str ''task_id'') (ge_data event) = J_str expected \<and> json_get (str ''run_count'') (ge_data event) = J_int run
    \<and> se_task_id e = public \<and> se_run_count e = run \<and> se_event_type e = ge_event_type event \<and> se_event_id e = ge_event_id event
    \<and> fst ` set (se_data e) \<subseteq> event_schema (se_event_type e)
    \<and> json_get (str ''error'') (se_data e) \<in> {J_null, J_str (str ''Remote Gateway Task failed'')}
    \<and> (str ''error'' \<in> event_schema (se_event_type e) \<longrightarrow>
         (json_get (str ''error'') (se_data e) = J_null \<longleftrightarrow> json_get (str ''error'') (ge_data event) = J_null))
    \<and> (se_event_type e = str ''stream.error'' \<longrightarrow>
         se_data e = [(str ''code'', J_str (str ''upstream_task_stream_error'')),
                      (str ''message'', J_str (str ''Remote Gateway Task stream failed''))])
    \<and> review_sanitized public (json_get (str ''pending_review'') (se_data e))
    \<and> (str ''artifacts'' \<in> event_schema (se_event_type e) \<longrightarrow>
         listed (named_object artifact_names) (json_get (str ''artifacts'') (se_data e)))
    \<and> (str ''artifact'' \<in> event_schema (se_event_type e) \<longrightarrow>
         named_object artifact_names (json_get (str ''artifact'') (se_data e)))
    \<and> (expected_status (se_event_type e) \<noteq> None \<longrightarrow>
         json_get (str ''status'') (se_data e) = J_str (task_state_name (the (expected_status (se_event_type e)))))
    \<and> (\<exists>bs. encode_task_stream_event e = Inr bs)"
proof -
  let ?data = "filter (\<lambda>kv. fst kv \<notin> {str ''task_id'', str ''run_count'', str ''created_at''}) (ge_data event)"
  let ?event = "\<lambda>created data. \<lparr>se_event_type = ge_event_type event, se_task_id = public, se_run_count = run,
                se_created_at = created, se_data = data, se_event_id = ge_event_id event\<rparr>"
  from assms have checks: "json_get (str ''task_id'') (ge_data event) = J_str expected"
      "json_get (str ''run_count'') (ge_data event) = J_int run"
    and rest: "and_then (parse_timestamp fromiso (json_get (str ''created_at'') (ge_data event)) (str ''created_at'')) (\<lambda>created.
        and_then (clean_event_data fromiso (ge_event_type event) ?data public) (\<lambda>data.
          and_then (encode_task_stream_event (?event created data)) (\<lambda>_. Inr (?event created data)))) = Inr e"
    unfolding task_stream_event_from_gateway_def Let_def by (simp_all only: split: if_split_asm) simp_all
  from rest obtain created data bs where clean: "clean_event_data fromiso (ge_event_type event) ?data public = Inr data"
    and enc: "encode_task_stream_event (?event created data) = Inr bs" and e: "Inr (?event created data) = (Inr e :: sse_error + task_stream_event)"
    by (elim and_then_elim) (rule that, assumption+)
  from e have e: "e = ?event created data"
    by simp
  have keys: "fst ` set data \<subseteq> event_schema (ge_event_type event)"
    and error: "json_get (str ''error'') data \<in> {J_null, J_str (str ''Remote Gateway Task failed'')}"
    and status: "expected_status (ge_event_type event) \<noteq> None \<longrightarrow>
      json_get (str ''status'') data = J_str (task_state_name (the (expected_status (ge_event_type event))))"
    using clean_data [OF clean] by blast+
  have raw: "json_get (str ''error'') ?data = json_get (str ''error'') (ge_data event)"
    using json_get_filter [of "\<lambda>k. k \<notin> {str ''task_id'', str ''run_count'', str ''created_at''}" "str ''error''" "ge_data event"]
    by simp
  have "se_event_type e = str ''stream.error'' \<longrightarrow>
      data = [(str ''code'', J_str (str ''upstream_task_stream_error'')),
              (str ''message'', J_str (str ''Remote Gateway Task stream failed''))]"
    using clean clean_stream_error by (auto simp: e)
  then show ?thesis
    using checks enc keys error status clean_nested [OF clean keys] unfolding raw by (simp only: e) simp
qed

text \<open>An error event of a remote Gateway, as a concrete case.\<close>

definition sample_remote_event :: gateway_task_event where
  "sample_remote_event = \<lparr>ge_event_type = str ''stream.error'',
     ge_data = [(str ''task_id'', J_str (str ''r1'')), (str ''run_count'', J_int 1), (str ''created_at'', J_str (str ''2000'')),
       (str ''code'', J_str (str ''x'')), (str ''message'', J_str (str ''secret''))], ge_event_id = None\<rparr>"

definition sample_clock :: "pystr \<Rightarrow> (bool \<times> pystr) option" where
  "sample_clock s = (if s = str ''2000'' then Some (True, str ''2000-01-01'') else None)"

definition sample_relayed_event :: task_stream_event where
  "sample_relayed_event = \<lparr>se_event_type = str ''stream.error'', se_task_id = str ''p'', se_run_count = 1,
     se_created_at = str ''2000-01-01'', se_data = [(str ''code'', J_str (str ''upstream_task_stream_error'')),
       (str ''message'', J_str (str ''Remote Gateway Task stream failed''))], se_event_id = None\<rparr>"

lemma sample_relayed_data:
  "ge_data (gateway_event_of sample_relayed_event) =
     [(str ''task_id'', J_str (str ''p'')), (str ''run_count'', J_int 1), (str ''created_at'', J_str (str ''2000-01-01'')),
      (str ''code'', J_str (str ''upstream_task_stream_error'')), (str ''message'', J_str (str ''Remote Gateway Task stream failed''))]"
  by (simp add: gateway_event_of_def sample_relayed_event_def dict_put_def)

lemma sample_relayed_encodes: "\<exists>bs. encode_task_stream_event sample_relayed_event = Inr bs"
proof -
  let ?d = "ge_data (gateway_event_of sample_relayed_event)"
  have one: "dec_digits (Suc 0) = [49]"
    by (subst dec_digits.simps) simp
  have "utf8_encode (dumps_wire (J_obj ?d)) = Some (dumps_wire (J_obj ?d)) \<and> length (dumps_wire (J_obj ?d)) \<le> 200"
    unfolding sample_relayed_data
    by (simp add: dumps_wire_def quote_json_def wire_char_def join_def str_def dec_def one utf8_encode_def utf8_ascii)
  then have data: "utf8_encode (dumps_wire (J_obj ?d)) = Some (dumps_wire (J_obj ?d))"
      "length (dumps_wire (J_obj ?d)) \<le> 200"
    by blast+
  then have "utf8_encode (str ''data: '' @ dumps_wire (J_obj ?d)) = Some (str ''data: '' @ dumps_wire (J_obj ?d))"
    by (auto simp: utf8_encode_def utf8_bytes_Cons utf8_char_def str_def split: if_splits)
  moreover have "utf8_encode (str ''event: '' @ str ''stream.error'') = Some (str ''event: '' @ str ''stream.error'')"
    by (simp add: utf8_encode_def utf8_ascii str_def)
  moreover have "json_finite (J_obj ?d)"
    unfolding sample_relayed_data by simp
  moreover have "10 \<notin> set (str ''stream.error'')" "13 \<notin> set (str ''stream.error'')"
    by (simp_all add: str_def)
  moreover have "ge_event_type (gateway_event_of sample_relayed_event) = str ''stream.error''"
    "ge_event_id (gateway_event_of sample_relayed_event) = None"
    by (simp_all add: gateway_event_of_def sample_relayed_event_def)
  ultimately show ?thesis
    using data
    by (simp add: encode_task_stream_event_def encode_gateway_task_event_def Let_def sse_lines_def
        max_sse_event_bytes_def max_sse_line_bytes_def del: json_finite.simps)
qed

theorem remote_event_sanitized_witness:
  "task_stream_event_from_gateway sample_clock sample_remote_event (str ''r1'') (str ''p'') 1 = Inr sample_relayed_event
   \<and> fst ` set (se_data sample_relayed_event) \<subseteq> event_schema (se_event_type sample_relayed_event)"
proof
  obtain bs where "encode_task_stream_event sample_relayed_event = Inr bs"
    using sample_relayed_encodes by blast
  then show accepted: "task_stream_event_from_gateway sample_clock sample_remote_event (str ''r1'') (str ''p'') 1 = Inr sample_relayed_event"
    by (simp add: task_stream_event_from_gateway_def sample_remote_event_def supported_task_event_types_def
        lifecycle_event_types_def durable_wire_event_types_def json_get_def parse_timestamp_def sample_clock_def
        clean_event_data_def require_keys_def short_required_text_def bounded_required_text_def
        max_short_event_text_length_def max_event_text_length_def sample_relayed_event_def Let_def str_def)
  show "fst ` set (se_data sample_relayed_event) \<subseteq> event_schema (se_event_type sample_relayed_event)"
    using remote_event_sanitized [OF accepted] by blast
qed

section \<open>What a Gateway projects, another one accepts\<close>

definition short_ok :: "pystr \<Rightarrow> bool" where
  "short_ok t \<longleftrightarrow> t \<noteq> [] \<and> length t \<le> max_short_event_text_length \<and> scalar_text t"

lemma normalize_fixed: "scalar_text t \<Longrightarrow> normalize_task_event_text t = t"
  by (auto simp: normalize_task_event_text_def scalar_text_def list_ex_iff)

lemma short_accepted: "short_ok t \<Longrightarrow> short_required_text (J_str t) f = Inr t"
  by (simp add: short_ok_def short_required_text_def normalize_fixed)

lemma wire_len_bound: "c < 1114112 \<Longrightarrow> wire_len c \<le> 6"
proof -
  have u: "ulen (u_escape c) = 6"
    using u_escape_ascii [of _ c] ulen_ascii [of "u_escape c"] by (simp add: u_escape_def)
  have "ulen [c] \<le> 4"
    by (simp add: ulen_def utf8_bytes_def utf8_char_def)
  then show ?thesis
    by (simp add: wire_len_def wire_char_def u)
qed

lemma short_projected:
  assumes "pystr_ok s" and "s \<noteq> []"
  shows "short_ok (fst (bounded_short s))"
proof -
  let ?t = "normalize_task_event_text s"
  obtain n where n: "bounded_text max_short_event_text_length max_short_event_text_json_bytes (Some s) = (Some (take n ?t), take n ?t \<noteq> s)"
    and len: "n \<le> max_short_event_text_length"
    and longest: "\<forall>k > n. k \<le> max_short_event_text_length \<longrightarrow> k \<le> length s \<longrightarrow>
        max_short_event_text_json_bytes < json_encoded_size (J_str (take k ?t))"
    using bounded_text_longest [of max_short_event_text_json_bytes max_short_event_text_length s]
    by (auto simp: wire_limits)
  have t: "scalar_text ?t" "length ?t = length s"
    using normalize_scalar [OF assms(1)] by (simp_all add: normalize_task_event_text_def)
  obtain c r where c: "?t = c # r"
    using assms(2) t(2) by (cases ?t) auto
  then have "json_encoded_size (J_str (take 1 ?t)) \<le> 8"
    using wire_len_bound [of c] t(1) by (simp add: size_str scalar_text_def)
  then have "0 < n"
    using longest assms(2) by (cases n) (auto simp: wire_limits Suc_le_eq dest!: spec [of _ 1])
  then have "take n ?t \<noteq> []"
    using c by simp
  moreover have "fst (bounded_short s) = take n ?t"
    by (simp add: bounded_short_def n)
  ultimately show ?thesis
    using len scalar_take [OF t(1)] by (simp add: short_ok_def)
qed

lemma nonempty_short: "nonempty_str v = Some s \<Longrightarrow> pyval_ok v \<Longrightarrow> short_ok (fst (bounded_short s))"
  using nonempty_str_ok [of v s] short_projected [of s]
  by (auto simp: nonempty_str_def split: pyval.splits if_splits)

definition decision_ok :: "json \<Rightarrow> bool" where
  "decision_ok d \<longleftrightarrow> (\<exists>t. d = J_str t \<and> short_ok t)"

definition review_action_ok :: "json \<Rightarrow> bool" where
  "review_action_ok a \<longleftrightarrow> (\<exists>t. a = J_obj [(str ''name'', J_str t)] \<and> short_ok t)"

definition config_ok :: "json \<Rightarrow> bool" where
  "config_ok c \<longleftrightarrow> (\<exists>t ds. c = J_obj [(str ''action_name'', J_str t), (str ''allowed_decisions'', J_list ds)]
     \<and> short_ok t \<and> length ds \<le> max_review_decisions \<and> (\<forall>d \<in> set ds. decision_ok d))"

lemma decisions_shape:
  "\<forall>v \<in> set vs. pyval_ok v \<Longrightarrow> (\<forall>d \<in> set (fst (project_decisions vs tr)). decision_ok d)
     \<and> length (fst (project_decisions vs tr)) \<le> length vs"
proof (induction vs arbitrary: tr)
  case (Cons v vs)
  show ?case
  proof (cases "nonempty_str v")
    case None
    then show ?thesis
      using Cons by (auto simp: le_SucI)
  next
    case (Some s)
    have "decision_ok (J_str (fst (bounded_short s)))"
      using nonempty_short [OF Some] Cons.prems by (simp add: decision_ok_def)
    then show ?thesis
      using Cons Some by (simp add: case_prod_beta)
  qed
qed simp

lemma review_decisions_shape:
  "pyval_ok v \<Longrightarrow> (\<forall>d \<in> set (fst (project_review_decisions v)). decision_ok d)
     \<and> length (fst (project_review_decisions v)) \<le> max_review_decisions"
proof (cases v)
  case (PList vs)
  assume "pyval_ok v"
  then have "\<forall>v \<in> set (take max_review_decisions vs). pyval_ok v"
    using PList by (auto dest: in_set_takeD)
  from decisions_shape [OF this, of "max_review_decisions < length vs"] show ?thesis
    using PList by (simp add: project_review_decisions_def)
qed (simp_all add: project_review_decisions_def)

lemma actions_shape:
  "\<forall>v \<in> set items. pyval_ok v \<Longrightarrow> \<forall>a \<in> set acts. review_action_ok a
    \<Longrightarrow> (\<forall>a \<in> set (fst (project_actions p items acts tr)). review_action_ok a)
        \<and> length (fst (project_actions p items acts tr)) \<le> length acts + length items"
proof (induction items arbitrary: acts tr)
  case (Cons item rest)
  show ?case
  proof (cases "item_name (str ''name'') item")
    case None
    then show ?thesis
      using Cons.IH [OF _ Cons.prems(2), of True] Cons.prems
      by (simp add: project_actions_step le_SucI del: project_actions.simps)
  next
    case (Some dn)
    obtain d where item: "item = PDict d" "nonempty_str (dict_get (str ''name'') d) = Some (snd dn)"
      using Some by (auto simp: item_name_def split: pyval.splits)
    have "short_ok (fst (bounded_short (snd dn)))"
      by (rule nonempty_short [OF item(2) dict_get_ok]) (use Cons.prems item in simp)
    then have "\<forall>a \<in> set (acts @ [J_obj [(str ''name'', J_str (fst (bounded_short (snd dn))))]]). review_action_ok a"
      using Cons.prems(2) by (auto simp: review_action_ok_def)
    from Cons.IH [OF _ this] show ?thesis
      using Some Cons.prems
      by (simp add: project_actions_step Let_def case_prod_beta del: project_actions.simps)
  qed
qed simp

lemma configs_shape:
  "\<forall>v \<in> set items. pyval_ok v \<Longrightarrow> \<forall>c \<in> set confs. config_ok c
    \<Longrightarrow> (\<forall>c \<in> set (fst (project_configs p items confs tr)). config_ok c)
        \<and> length (fst (project_configs p items confs tr)) \<le> length confs + length items"
proof (induction items arbitrary: confs tr)
  case (Cons item rest)
  show ?case
  proof (cases "item_name (str ''action_name'') item")
    case None
    then show ?thesis
      using Cons.IH [OF _ Cons.prems(2), of True] Cons.prems
      by (simp add: project_configs_step le_SucI del: project_configs.simps)
  next
    case (Some dn)
    obtain d where item: "item = PDict d" "nonempty_str (dict_get (str ''action_name'') d) = Some (snd dn)" and d: "fst dn = d"
      using Some by (auto simp: item_name_def split: pyval.splits)
    have ok: "pyval_ok (PDict d)"
      using Cons.prems item by simp
    have "short_ok (fst (bounded_short (snd dn)))"
      by (rule nonempty_short [OF item(2) dict_get_ok [OF ok]])
    then have "\<forall>c \<in> set (confs @ [J_obj [(str ''action_name'', J_str (fst (bounded_short (snd dn)))), (str ''allowed_decisions'',
        J_list (fst (project_review_decisions (dict_get (str ''allowed_decisions'') (fst dn)))))]]). config_ok c"
      using Cons.prems(2) review_decisions_shape [OF dict_get_ok [OF ok], of "str ''allowed_decisions''"] d
      by (auto simp: config_ok_def)
    from Cons.IH [OF _ this] show ?thesis
      using Some Cons.prems
      by (simp add: project_configs_step Let_def case_prod_beta del: project_configs.simps)
  qed
qed simp

lemma each_same: "\<forall>x \<in> set xs. f x = Inr x \<Longrightarrow> each f xs = Inr xs"
  by (induction xs) simp_all

lemma each_decisions:
  "\<forall>d \<in> set ds. decision_ok d \<Longrightarrow> \<exists>ts. each (\<lambda>choice. short_required_text choice k) ds = Inr ts \<and> map J_str ts = ds"
proof (induction ds)
  case (Cons d ds)
  then obtain t where "d = J_str t" "short_ok t"
    by (auto simp: decision_ok_def)
  then show ?case
    using Cons by (auto simp: short_accepted)
qed simp

lemma action_accepted: "review_action_ok a \<Longrightarrow> validate_action_request a = Inr a"
  by (auto simp: review_action_ok_def validate_action_request_def json_get_def short_accepted)

lemma config_accepted:
  assumes "config_ok c"
  shows "validate_review_config c = Inr c"
proof -
  obtain t ds where c: "c = J_obj [(str ''action_name'', J_str t), (str ''allowed_decisions'', J_list ds)]" "short_ok t"
    "length ds \<le> max_review_decisions" "\<forall>d \<in> set ds. decision_ok d"
    using assms by (auto simp: config_ok_def)
  obtain ts where "each (\<lambda>choice. short_required_text choice (str ''allowed_decisions'')) ds = Inr ts" "map J_str ts = ds"
    using each_decisions [OF c(4)] by blast
  then show ?thesis
    using c(2,3) by (simp add: c(1) validate_review_config_def json_get_def short_accepted)
qed

text \<open>The members a projected review may have.\<close>

definition member_ok :: "pystr \<Rightarrow> json \<Rightarrow> bool" where
  "member_ok k v \<longleftrightarrow>
     k \<in> {str ''review_id'', str ''source_task_id''} \<and> decision_ok v
     \<or> k = str ''action_requests'' \<and> (\<exists>acts. v = J_list acts \<and> length acts \<le> max_review_items \<and> (\<forall>a \<in> set acts. review_action_ok a))
     \<or> k = str ''review_configs'' \<and> (\<exists>confs. v = J_list confs \<and> length confs \<le> max_review_items \<and> (\<forall>c \<in> set confs. config_ok c))"

definition members_ok :: "(pystr \<times> json) list \<Rightarrow> bool" where
  "members_ok p \<longleftrightarrow> (\<forall>kv \<in> set p. member_ok (fst kv) (snd kv))"

lemma members_put: "members_ok p \<Longrightarrow> member_ok k v \<Longrightarrow> members_ok (dict_put k v p)"
  by (auto simp: members_ok_def dict_put_def)

lemma review_id_members:
  assumes "members_ok (fst acc)" and "pyval_ok (PDict d)" and "key \<in> {str ''review_id'', str ''source_task_id''}"
  shows "members_ok (fst (project_review_id key d acc))"
proof (cases "nonempty_str (dict_get key d)")
  case (Some u)
  have "member_ok key (J_str (fst (bounded_short u)))"
    using nonempty_short [OF Some dict_get_ok [OF assms(2)]] assms(3) by (auto simp: member_ok_def decision_ok_def)
  then show ?thesis
    using Some members_put [OF assms(1)] by (simp add: project_review_id_def Let_def case_prod_beta)
qed (use assms in \<open>simp add: project_review_id_def Let_def case_prod_beta\<close>)

lemma items_ok: "pyval_ok (PDict d) \<Longrightarrow> dict_get k d = PList items \<Longrightarrow> \<forall>v \<in> set (take n items). pyval_ok v"
  using dict_get_ok [of d k] by (auto dest: in_set_takeD)

lemma review_actions_members:
  assumes "members_ok (fst acc)" and "pyval_ok (PDict d)"
  shows "members_ok (fst (project_review_actions d acc))"
proof (cases "dict_get (str ''action_requests'') d")
  case (PList items)
  let ?acts = "fst (project_actions (fst acc) (take max_review_items items) [] (snd acc))"
  have "\<forall>v \<in> set (take max_review_items items). pyval_ok v"
    by (rule items_ok [OF assms(2) PList])
  from actions_shape [OF this, of "[]"] have "member_ok (str ''action_requests'') (J_list ?acts)"
    by (auto simp: member_ok_def intro: le_trans)
  then show ?thesis
    using PList members_put [OF assms(1)] by (simp add: project_review_actions_def case_prod_beta)
qed (use assms in \<open>simp_all add: project_review_actions_def case_prod_beta\<close>)

lemma review_configs_members:
  assumes "members_ok (fst acc)" and "pyval_ok (PDict d)"
  shows "members_ok (fst (project_review_configs d acc))"
proof (cases "dict_get (str ''review_configs'') d")
  case (PList items)
  let ?confs = "fst (project_configs (fst acc) (take max_review_items items) [] (length items > max_review_items))"
  have "\<forall>v \<in> set (take max_review_items items). pyval_ok v"
    by (rule items_ok [OF assms(2) PList])
  from configs_shape [OF this, of "[]"] have "member_ok (str ''review_configs'') (J_list ?confs)"
    by (auto simp: member_ok_def intro: le_trans)
  then show ?thesis
    using PList members_put [OF assms(1)] by (simp add: project_review_configs_def case_prod_beta)
qed (use assms in \<open>simp_all add: project_review_configs_def case_prod_beta\<close>)

lemma review_shape:
  assumes "\<forall>d. v = Some d \<longrightarrow> pyval_ok (PDict d)"
  shows "fst (project_pending_review v) = J_null \<or> (\<exists>p. fst (project_pending_review v) = J_obj p \<and> p \<noteq> [] \<and> members_ok p)"
proof (cases "v = None \<or> v = Some []")
  case False
  then obtain d where d: "v = Some d" "d \<noteq> []" by auto
  then have ok: "pyval_ok (PDict d)" using assms by blast
  have "members_ok (fst (project_review_configs d (project_review_actions d
      (project_review_id (str ''source_task_id'') d (project_review_id (str ''review_id'') d ([], False))))))"
    by (intro review_configs_members review_actions_members review_id_members ok) (simp_all add: members_ok_def)
  then show ?thesis
    using d by (cases d) (auto simp: project_pending_review_def case_prod_beta)
qed (auto simp: project_pending_review_def)

lemma when_given_accepts:
  "(\<And>v. map_of p k = Some v \<Longrightarrow> \<exists>c. f v = Inr c) \<Longrightarrow> \<exists>m. when_given k p f = Inr m \<and> (m = [] \<longleftrightarrow> map_of p k = None)"
  by (cases "map_of p k") (fastforce simp: when_given_def)+

lemma list_accepted:
  "length vs \<le> n \<Longrightarrow> \<forall>v \<in> set vs. f v = Inr v \<Longrightarrow> validate_list m n f (J_list vs) = Inr (J_list vs)"
  by (simp add: validate_list_def each_same)

lemma member_cases:
  "member_ok (str ''review_id'') v \<Longrightarrow> decision_ok v" "member_ok (str ''source_task_id'') v \<Longrightarrow> decision_ok v"
  "member_ok (str ''action_requests'') v \<Longrightarrow> \<exists>acts. v = J_list acts \<and> length acts \<le> max_review_items \<and> (\<forall>a \<in> set acts. review_action_ok a)"
  "member_ok (str ''review_configs'') v \<Longrightarrow> \<exists>confs. v = J_list confs \<and> length confs \<le> max_review_items \<and> (\<forall>c \<in> set confs. config_ok c)"
  by (simp_all add: member_ok_def)

lemma text_accepted:
  assumes "decision_ok v" and "\<And>t. \<exists>c. g t = Inr c"
  shows "\<exists>c. and_then (short_required_text v k) g = Inr c"
  using assms by (auto simp: decision_ok_def short_accepted)

lemma review_accepted:
  assumes "members_ok p" and "p \<noteq> []"
  shows "\<exists>r. validate_pending_review (J_obj p) public = Inr (J_obj r) \<and> r \<noteq> []"
proof -
  have member: "member_ok k v" if "map_of p k = Some v" for k v
    using map_of_SomeD [OF that] assms(1) by (auto simp: members_ok_def)
  have keys: "fst ` set p \<subseteq> {str ''review_id'', str ''source_task_id'', str ''action_requests'', str ''review_configs''}"
    using assms(1) by (auto simp: members_ok_def member_ok_def)
  let ?f1 = "\<lambda>v. and_then (short_required_text v (str ''review_id'')) (\<lambda>t. Inr (J_str t))"
    and ?f2 = "\<lambda>v. and_then (short_required_text v (str ''source_task_id'')) (\<lambda>t. Inr (J_str public))"
    and ?f3 = "validate_list (str ''Remote review action_requests is invalid'') max_review_items validate_action_request"
    and ?f4 = "validate_list (str ''Remote review_configs is invalid'') max_review_items validate_review_config"
  have "\<exists>m. when_given (str ''review_id'') p ?f1 = Inr m \<and> (m = [] \<longleftrightarrow> map_of p (str ''review_id'') = None)"
  proof (rule when_given_accepts)
    fix v assume v: "map_of p (str ''review_id'') = Some v"
    show "\<exists>c. ?f1 v = Inr c"
      by (rule text_accepted [OF member_cases(1) [OF member [OF v]]]) simp
  qed
  then obtain m1 where m1: "when_given (str ''review_id'') p ?f1 = Inr m1" "m1 = [] \<longleftrightarrow> map_of p (str ''review_id'') = None"
    by (elim exE conjE) (rule that)
  have "\<exists>m. when_given (str ''source_task_id'') p ?f2 = Inr m \<and> (m = [] \<longleftrightarrow> map_of p (str ''source_task_id'') = None)"
  proof (rule when_given_accepts)
    fix v assume v: "map_of p (str ''source_task_id'') = Some v"
    show "\<exists>c. ?f2 v = Inr c"
      by (rule text_accepted [OF member_cases(2) [OF member [OF v]]]) simp
  qed
  then obtain m2 where m2: "when_given (str ''source_task_id'') p ?f2 = Inr m2" "m2 = [] \<longleftrightarrow> map_of p (str ''source_task_id'') = None"
    by (elim exE conjE) (rule that)
  have "\<exists>m. when_given (str ''action_requests'') p ?f3 = Inr m \<and> (m = [] \<longleftrightarrow> map_of p (str ''action_requests'') = None)"
  proof (rule when_given_accepts)
    fix v assume v: "map_of p (str ''action_requests'') = Some v"
    show "\<exists>c. ?f3 v = Inr c"
      using member_cases(3) [OF member [OF v]] list_accepted [of _ _ validate_action_request] action_accepted by blast
  qed
  then obtain m3 where m3: "when_given (str ''action_requests'') p ?f3 = Inr m3" "m3 = [] \<longleftrightarrow> map_of p (str ''action_requests'') = None"
    by (elim exE conjE) (rule that)
  have "\<exists>m. when_given (str ''review_configs'') p ?f4 = Inr m \<and> (m = [] \<longleftrightarrow> map_of p (str ''review_configs'') = None)"
  proof (rule when_given_accepts)
    fix v assume v: "map_of p (str ''review_configs'') = Some v"
    show "\<exists>c. ?f4 v = Inr c"
      using member_cases(4) [OF member [OF v]] list_accepted [of _ _ validate_review_config] config_accepted by blast
  qed
  then obtain m4 where m4: "when_given (str ''review_configs'') p ?f4 = Inr m4" "m4 = [] \<longleftrightarrow> map_of p (str ''review_configs'') = None"
    by (elim exE conjE) (rule that)
  obtain k v q where "p = (k, v) # q"
    using assms(2) by (cases p) auto
  then have "\<not> (m1 = [] \<and> m2 = [] \<and> m3 = [] \<and> m4 = [])"
    using keys by (auto simp: m1(2) m2(2) m3(2) m4(2) map_of_eq_None_iff)
  then show ?thesis
    using keys by (simp add: validate_pending_review_def m1(1) m2(1) m3(1) m4(1))
qed

definition artifact_named :: "artifact \<Rightarrow> bool" where
  "artifact_named a \<longleftrightarrow> af_artifact_id a \<noteq> [] \<and> af_name a \<noteq> [] \<and> af_content_type a \<noteq> [] \<and> 0 \<le> af_size a \<and> 0 \<le> af_run_count a"

lemma artifact_accepted:
  assumes "artifact_ok a" and "artifact_named a"
  shows "validate_artifact (fst (project_artifact a)) = Inr (fst (project_artifact a))"
proof -
  have texts: "short_ok (fst (bounded_short (af_artifact_id a)))" "short_ok (fst (bounded_short (af_name a)))"
    "short_ok (fst (bounded_short (af_content_type a)))"
    using assms by (simp_all add: short_projected artifact_ok_def artifact_named_def)
  obtain caption tr where caption: "bounded_text max_event_text_length max_artifact_caption_json_bytes (af_caption a) = (caption, tr)"
    by fastforce
  have "json_plain (json_opt caption)"
    by (rule bounded_text_plain [OF caption]) (use assms(1) in \<open>simp add: artifact_ok_def\<close>)
  then have "map_option normalize_task_event_text caption = caption"
    by (cases caption) (simp_all add: json_opt_def normalize_fixed)
  then have "(case json_opt caption of J_null \<Rightarrow> Some None | J_str s \<Rightarrow> Some (Some (normalize_task_event_text s)) | _ \<Rightarrow> None)
      = Some caption"
    by (cases caption) (simp_all add: json_opt_def)
  then show ?thesis
    using assms(2)
    by (simp add: project_artifact_def validate_artifact_def case_prod_beta Let_def caption json_get_def short_accepted [OF texts(1)]
        short_accepted [OF texts(2)] short_accepted [OF texts(3)] artifact_named_def insert_commute)
qed

lemma artifact_loop_items:
  "set (fst (artifact_loop values projected n tr)) \<subseteq> set projected \<union> (fst \<circ> project_artifact) ` set values
    \<and> length (fst (artifact_loop values projected n tr)) \<le> length projected + length values"
proof (induction "values" arbitrary: projected n tr)
  case (Cons a rest)
  show ?case
    using Cons [of "projected @ [fst (project_artifact a)]"] by (auto simp: case_prod_beta Let_def)
qed simp

lemma artifacts_accepted:
  assumes "\<forall>a \<in> set arts. artifact_ok a \<and> artifact_named a"
  shows "\<exists>j. validate_artifacts (J_list (fst (project_artifacts arts))) = Inr j"
proof -
  let ?items = "fst (project_artifacts arts)"
  have loop: "?items = fst (artifact_loop (take max_event_artifacts arts) [] 2 (length arts > max_event_artifacts))"
    by (simp add: project_artifacts_def case_prod_beta)
  have "set ?items \<subseteq> (fst \<circ> project_artifact) ` set arts" "length ?items \<le> max_event_artifacts"
    using artifact_loop_items [of "take max_event_artifacts arts" "[]" 2 "length arts > max_event_artifacts"]
    unfolding loop by (auto dest!: subsetD in_set_takeD)
  moreover from this(1) have "\<forall>v \<in> set ?items. validate_artifact v = Inr v"
    using assms artifact_accepted by fastforce
  ultimately show ?thesis
    by (simp add: validate_artifacts_def each_same)
qed

lemma isoformat_no_zulu: "90 \<notin> set (isoformat t)"
proof -
  have "90 \<notin> set (pad w i)" for w i
    using pad_chars [of 90 w i] by auto
  then show ?thesis
    by (auto simp: isoformat_def Let_def str_def split: prod.split)
qed

lemma timestamp_accepted:
  assumes "datetime_ok t" and "fromiso (isoformat t) = Some (True, isoformat t)"
  shows "parse_timestamp fromiso (J_str (isoformat t)) f = Inr (isoformat t)"
proof -
  have "concat (map (\<lambda>c. if c = 90 then str ''+00:00'' else [c]) s) = s" if "90 \<notin> set s" for s
    using that by (induction s) auto
  then show ?thesis
    using isoformat_text(1) [OF assms(1)] assms(2) isoformat_no_zulu by (simp add: parse_timestamp_def)
qed

lemma optional_accepted:
  assumes "\<forall>s. v = Some s \<longrightarrow> pystr_ok s" and "2 \<le> mb"
  shows "\<exists>t. bounded_optional_text (json_opt (fst (bounded_text max_event_text_length mb v))) f = Inr t"
proof (cases v)
  case None
  then show ?thesis
    by (simp add: bounded_optional_text_def bounded_text_def json_opt_def)
next
  case (Some s)
  obtain n where "fst (bounded_text max_event_text_length mb v) = Some (take n (normalize_task_event_text s))"
    "n \<le> max_event_text_length"
    using bounded_text_longest [OF assms(2), of max_event_text_length s] Some by auto
  then show ?thesis
    by (simp add: bounded_optional_text_def bounded_required_text_def json_opt_def)
qed

lemma status_accepted: "parse_remote_task_state (J_str (task_state_name st)) = Inr st"
  by (simp add: parse_remote_task_state_def parse_task_state_def Let_def)

lemma flags_accepted:
  "\<forall>k \<in> set ks. \<forall>v. map_of raw k = Some v \<longrightarrow> v = J_bool True \<Longrightarrow> \<exists>fs. each (validate_flag raw) ks = Inr fs"
proof (induction ks)
  case (Cons k ks)
  then obtain fs where "each (validate_flag raw) ks = Inr fs"
    by auto
  moreover obtain f where "validate_flag raw k = Inr f"
    using Cons.prems by (cases "map_of raw k") (auto simp: validate_flag_def)
  ultimately show ?case
    by simp
qed simp

lemma lifecycle_members:
  "json_get (str ''status'') (lifecycle_fields r now) = J_str (task_state_name (tk_state r))"
  "json_get (str ''last_result'') (lifecycle_fields r now)
     = json_opt (fst (bounded_text max_event_text_length max_lifecycle_text_json_bytes (tk_result r)))"
  "json_get (str ''error'') (lifecycle_fields r now)
     = json_opt (fst (bounded_text max_event_text_length max_lifecycle_text_json_bytes (tk_error r)))"
  "json_get (str ''updated_at'') (lifecycle_fields r now) = J_str (isoformat (tk_updated_at r))"
  "json_get (str ''pending_review'') (lifecycle_fields r now) = fst (project_pending_review (tk_pending_review r))"
  "json_get (str ''artifacts'') (lifecycle_fields r now) = J_list (fst (project_artifacts (tk_artifacts r)))"
  by (simp_all add: lifecycle_fields_def json_get_def case_prod_beta Let_def)

lemma lifecycle_flag_values:
  assumes "k \<in> set truncation_flags" and "map_of (lifecycle_fields r now) k = Some v"
  shows "v = J_bool True"
proof -
  have "(k, v) \<in> set (lifecycle_fields r now)"
    by (rule map_of_SomeD [OF assms(2)])
  then have "(k, v) \<in> set (drop 6 (lifecycle_fields r now))"
    using assms(1) by (auto simp: lifecycle_fields_def case_prod_beta Let_def truncation_flags_def)
  then show ?thesis
    using assms(1) by (cases now) (auto simp: lifecycle_fields_def case_prod_beta Let_def flag_def truncation_flags_def split: if_splits)
qed

lemma map_of_flag_other: "str key \<noteq> k \<Longrightarrow> map_of (flag key b @ rest) k = map_of rest k"
  by (simp add: flag_def)

lemma lifecycle_clock:
  "map_of (lifecycle_fields r now) (str ''observed_at'') = map_option (\<lambda>t. J_str (isoformat t)) now"
  "map_of (lifecycle_fields r now) (str ''reconciled'') = map_option (\<lambda>t. J_bool True) now"
  by (cases now; simp add: lifecycle_fields_def case_prod_beta Let_def flag_def)+

lemma lifecycle_schema: "require_keys lifecycle_required lifecycle_optional (lifecycle_fields r now) = Inr ()"
proof -
  have "fst ` set (lifecycle_fields r now) \<subseteq> lifecycle_required \<union> lifecycle_optional"
    using lifecycle_keys [of r now, unfolded set_map]
    by (rule order_trans) (simp add: lifecycle_required_def lifecycle_optional_def)
  moreover have "lifecycle_required \<subseteq> fst ` set (take 6 (lifecycle_fields r now))"
    by (simp add: lifecycle_fields_def case_prod_beta Let_def lifecycle_required_def)
  then have "lifecycle_required \<subseteq> fst ` set (lifecycle_fields r now)"
    using set_take_subset [of 6 "lifecycle_fields r now"] by blast
  ultimately show ?thesis
    by (simp add: require_keys_def)
qed

text \<open>
  What one Gateway projects, the validators of another accept: the data of every lifecycle event,
  of whatever record and however much of it was truncated, passes the schema, given that the
  artifacts have names and no negative numbers, that a Task waiting for a human has a review to show,
  and that \<open>fromisoformat\<close> reads what \<open>isoformat\<close> prints.
\<close>

theorem projection_accepted:
  assumes "record_ok r" and "\<forall>t. now = Some t \<longrightarrow> datetime_ok t"
    and "\<forall>a \<in> set (tk_artifacts r). artifact_named a"
    and "tk_state r = TS_waiting_for_human \<longrightarrow> fst (project_pending_review (tk_pending_review r)) \<noteq> J_null"
    and iso: "\<forall>t. datetime_ok t \<longrightarrow> fromiso (isoformat t) = Some (True, isoformat t)"
  shows "\<exists>data clean. lifecycle_event_data r now = Inr data
    \<and> clean_event_data fromiso (lifecycle_event_type (tk_state r)) data public = Inr clean"
proof -
  let ?data = "lifecycle_fields r now" and ?ty = "lifecycle_event_type (tk_state r)"
  have "json_encoded_size (J_obj ?data) \<le> max_durable_task_event_data_bytes"
    using assms(1,2) by (intro lifecycle_fields_size) (simp_all add: record_ok_def)
  then have data: "lifecycle_event_data r now = Inr ?data"
    by (simp add: lifecycle_event_data_def ensure_durable_event_data_fits_def)
  have texts: "\<forall>s. tk_result r = Some s \<longrightarrow> pystr_ok s" "\<forall>s. tk_error r = Some s \<longrightarrow> pystr_ok s"
    using assms(1) unfolding record_ok_def by blast+
  have budget: "2 \<le> max_lifecycle_text_json_bytes"
    by (simp add: wire_limits)
  obtain res where res: "bounded_optional_text (json_get (str ''last_result'') ?data) (str ''last_result'') = Inr res"
    unfolding lifecycle_members by (rule exE [OF optional_accepted [OF texts(1) budget, of "str ''last_result''"]])
      (rule that, simp only: lifecycle_members)
  obtain err where err: "bounded_optional_text (json_get (str ''error'') ?data) (str ''error'') = Inr err"
    unfolding lifecycle_members by (rule exE [OF optional_accepted [OF texts(2) budget, of "str ''error''"]])
      (rule that, simp only: lifecycle_members)
  have upd: "parse_timestamp fromiso (json_get (str ''updated_at'') ?data) (str ''updated_at'') = Inr (isoformat (tk_updated_at r))"
    unfolding lifecycle_members using assms(1) iso by (intro timestamp_accepted) (auto simp: record_ok_def)
  have "\<forall>d. tk_pending_review r = Some d \<longrightarrow> pyval_ok (PDict d)"
    using assms(1) unfolding record_ok_def by blast
  then obtain rev_json where review: "validate_pending_review (json_get (str ''pending_review'') ?data) public = Inr rev_json"
    "tk_state r = TS_waiting_for_human \<longrightarrow> json_truthy rev_json"
    unfolding lifecycle_members using review_shape [of "tk_pending_review r"] review_accepted [of _ public] assms(4)
    by (cases "fst (project_pending_review (tk_pending_review r)) = J_null")
      (auto simp: validate_pending_review_def [of J_null], fastforce)
  obtain arts where arts: "validate_artifacts (json_get (str ''artifacts'') ?data) = Inr arts"
    unfolding lifecycle_members using artifacts_accepted [of "tk_artifacts r"] assms(1,3) by (auto simp: record_ok_def)
  obtain flags where flags: "each (validate_flag ?data) truncation_flags = Inr flags"
    using flags_accepted [of truncation_flags ?data] lifecycle_flag_values by blast
  obtain obs where obs: "(case map_of ?data (str ''observed_at'') of
                 None \<Rightarrow> Inr []
               | Some v \<Rightarrow> and_then (parse_timestamp fromiso v (str ''observed_at'')) (\<lambda>t. Inr [(str ''observed_at'', J_str t)])) = Inr obs"
    using timestamp_accepted [of _ fromiso] iso assms(2) by (cases now) (auto simp: lifecycle_clock)
  have both: "(map_of ?data (str ''reconciled'') \<noteq> None) = (map_of ?data (str ''observed_at'') \<noteq> None)"
    by (simp add: lifecycle_clock)
  have want: "\<not> (case expected_status ?ty of None \<Rightarrow> False | Some st \<Rightarrow> tk_state r \<noteq> st)"
      "\<not> (?ty = str ''task.review_requested'' \<and> \<not> json_truthy rev_json)" "?ty \<in> set lifecycle_event_types"
    using review(2) by (cases "tk_state r"; simp add: expected_status_def lifecycle_event_types_def)+
  have "\<exists>clean. validate_lifecycle_data fromiso ?data ?ty public = Inr clean"
    unfolding validate_lifecycle_data_def lifecycle_schema and_then_simps lifecycle_members(1) status_accepted err res upd
      review(1) arts flags obs
    using both want by simp
  then show ?thesis
    using data want(3) by (auto simp: clean_event_data_def)
qed

lemma sample_review_projected: "fst (project_pending_review (tk_pending_review record_sample)) \<noteq> J_null"
proof -
  have grows: "fst ` set (fst acc) \<subseteq> fst ` set (fst (project_review_id k d acc))"
    "fst ` set (fst acc) \<subseteq> fst ` set (fst (project_review_actions d acc))"
    "fst ` set (fst acc) \<subseteq> fst ` set (fst (project_review_configs d acc))" for k d acc
    by (simp_all add: project_review_id_def project_review_actions_def project_review_configs_def case_prod_beta Let_def
        subset_insertI split: option.split pyval.split)
  have "str ''review_id'' \<in> fst ` set (fst (project_review_id (str ''review_id'') review_sample ([], False)))"
    by (simp add: project_review_id_def Let_def case_prod_beta review_sample_def dict_get_def nonempty_str_def)
  then have "str ''review_id'' \<in> fst ` set (fst (project_review_configs review_sample (project_review_actions review_sample
      (project_review_id (str ''source_task_id'') review_sample (project_review_id (str ''review_id'') review_sample ([], False))))))"
    by (rule subsetD [OF grows(3) subsetD [OF grows(2) subsetD [OF grows(1)]]])
  moreover have "review_sample \<noteq> []"
    by (simp add: review_sample_def)
  ultimately show ?thesis
    by (auto simp: record_sample_def project_pending_review_def case_prod_beta split: list.splits)
qed

theorem projection_accepted_witness:
  "tk_state record_sample = TS_waiting_for_human \<and>
   (\<exists>data clean. lifecycle_event_data record_sample None = Inr data
    \<and> clean_event_data (\<lambda>s. Some (True, s)) (lifecycle_event_type (tk_state record_sample)) data (str ''p'') = Inr clean)"
proof
  have "record_ok record_sample"
    by (simp add: record_ok_def record_sample_def review_sample_def datetime_ok_def pystr_ok_def artifact_ok_def str_def)
  moreover have "\<forall>a \<in> set (tk_artifacts record_sample). artifact_named a"
    by (simp add: record_sample_def artifact_named_def)
  ultimately show "\<exists>data clean. lifecycle_event_data record_sample None = Inr data
    \<and> clean_event_data (\<lambda>s. Some (True, s)) (lifecycle_event_type (tk_state record_sample)) data (str ''p'') = Inr clean"
    by (intro projection_accepted) (simp_all add: sample_review_projected)
qed (simp add: record_sample_def)

end
