(* ===== verification/Fallible_State.thy ===== *)
theory Fallible_State
  imports Ruyi_Prelude
begin

text \<open>
  Operations on a mutable object that may raise: the state after the call and the exception
  (\<open>Inl\<close>) or the value returned (\<open>Inr\<close>).  What was written before a \<open>raise\<close> stays written, as in
  Python.  \<open>wp c Q E s\<close> says that \<open>c\<close>, started in \<open>s\<close>, ends with \<open>Q\<close> of its value and state or
  raises with \<open>E\<close> of its exception and state.
\<close>

named_theorems wp_simps \<open>weakest preconditions of the primitive operations\<close>

type_synonym ('s, 'e, 'a) opn = "'s \<Rightarrow> 's \<times> ('e + 'a)"

definition op_ret :: "'a \<Rightarrow> ('s, 'e, 'a) opn" where
  "op_ret x = (\<lambda>s. (s, Inr x))"

definition op_raise :: "'e \<Rightarrow> ('s, 'e, 'a) opn" where
  "op_raise e = (\<lambda>s. (s, Inl e))"

definition op_bind :: "('s, 'e, 'a) opn \<Rightarrow> ('a \<Rightarrow> ('s, 'e, 'b) opn) \<Rightarrow> ('s, 'e, 'b) opn" where
  "op_bind c f = (\<lambda>s. case c s of (s', Inl e) \<Rightarrow> (s', Inl e) | (s', Inr x) \<Rightarrow> f x s')"

definition op_then :: "('s, 'e, 'a) opn \<Rightarrow> ('s, 'e, 'b) opn \<Rightarrow> ('s, 'e, 'b) opn" where
  "op_then c d = op_bind c (\<lambda>_. d)"

definition op_get :: "('s \<Rightarrow> 'a) \<Rightarrow> ('s, 'e, 'a) opn" where
  "op_get f = (\<lambda>s. (s, Inr (f s)))"

definition op_modify :: "('s \<Rightarrow> 's) \<Rightarrow> ('s, 'e, unit) opn" where
  "op_modify f = (\<lambda>s. (f s, Inr ()))"

definition op_lift :: "'e + 'a \<Rightarrow> ('s, 'e, 'a) opn" where
  "op_lift r = (\<lambda>s. (s, r))"

definition op_when :: "bool \<Rightarrow> ('s, 'e, unit) opn \<Rightarrow> ('s, 'e, unit) opn" where
  "op_when b c = (if b then c else op_ret ())"

fun op_each :: "('a \<Rightarrow> ('s, 'e, unit) opn) \<Rightarrow> 'a list \<Rightarrow> ('s, 'e, unit) opn" where
  "op_each f [] = op_ret ()"
| "op_each f (x # xs) = op_then (f x) (op_each f xs)"

text \<open>\<open>try: c except ...: h\<close>, where \<open>h e\<close> raises \<open>e\<close> again when no clause is for it.\<close>

definition op_handle :: "('s, 'e, 'a) opn \<Rightarrow> ('e \<Rightarrow> ('s, 'e, 'a) opn) \<Rightarrow> ('s, 'e, 'a) opn" where
  "op_handle c h = (\<lambda>s. case c s of (s', Inl e) \<Rightarrow> h e s' | (s', Inr x) \<Rightarrow> (s', Inr x))"

text \<open>The exception of one component as an exception of its caller.\<close>

definition lift_error :: "('e \<Rightarrow> 'f) \<Rightarrow> 'e + 'a \<Rightarrow> 'f + 'a" where
  "lift_error f r = (case r of Inl e \<Rightarrow> Inl (f e) | Inr x \<Rightarrow> Inr x)"

lemma lift_error_simps [simp]: "lift_error f (Inl e) = Inl (f e)" "lift_error f (Inr x) = Inr x"
  by (simp_all add: lift_error_def)

lemma lift_error_Inr [simp]: "lift_error f r = Inr x \<longleftrightarrow> r = Inr x"
  by (simp add: lift_error_def split: sum.split)

section \<open>Weakest preconditions\<close>

definition wp :: "('s, 'e, 'a) opn \<Rightarrow> ('a \<Rightarrow> 's \<Rightarrow> bool) \<Rightarrow> ('e \<Rightarrow> 's \<Rightarrow> bool) \<Rightarrow> 's \<Rightarrow> bool" where
  "wp c Q E s \<longleftrightarrow> (case c s of (s', Inl e) \<Rightarrow> E e s' | (s', Inr x) \<Rightarrow> Q x s')"

lemma wp_ret [wp_simps]: "wp (op_ret x) Q E = Q x"
  by (simp add: wp_def op_ret_def fun_eq_iff)

lemma wp_raise [wp_simps]: "wp (op_raise e) Q E = E e"
  by (simp add: wp_def op_raise_def fun_eq_iff)

lemma wp_bind [wp_simps]: "wp (op_bind c f) Q E = wp c (\<lambda>x. wp (f x) Q E) E"
  by (simp add: wp_def op_bind_def fun_eq_iff split: prod.split sum.split)

lemma wp_then [wp_simps]: "wp (op_then c d) Q E = wp c (\<lambda>_. wp d Q E) E"
  by (simp add: op_then_def wp_bind)

lemma wp_handle [wp_simps]: "wp (op_handle c h) Q E = wp c Q (\<lambda>e. wp (h e) Q E)"
  by (simp add: wp_def op_handle_def fun_eq_iff split: prod.split sum.split)

lemma wp_get [wp_simps]: "wp (op_get f) Q E s \<longleftrightarrow> Q (f s) s"
  by (simp add: wp_def op_get_def)

lemma wp_modify [wp_simps]: "wp (op_modify f) Q E s \<longleftrightarrow> Q () (f s)"
  by (simp add: wp_def op_modify_def)

lemma wp_lift [wp_simps]: "wp (op_lift r) Q E s \<longleftrightarrow> (case r of Inl e \<Rightarrow> E e s | Inr x \<Rightarrow> Q x s)"
  by (simp add: wp_def op_lift_def split: sum.split)

lemma wp_when [wp_simps]: "wp (op_when b c) Q E s \<longleftrightarrow> (if b then wp c Q E s else Q () s)"
  by (simp add: op_when_def wp_ret)

lemma wp_if [wp_simps]: "wp (if b then c else d) Q E s \<longleftrightarrow> (if b then wp c Q E s else wp d Q E s)"
  by simp

lemma wp_conseq:
  "wp c Q E s \<Longrightarrow> (\<And>x s'. Q x s' \<Longrightarrow> Q' x s') \<Longrightarrow> (\<And>e s'. E e s' \<Longrightarrow> E' e s') \<Longrightarrow> wp c Q' E' s"
  by (auto simp: wp_def split: prod.splits sum.splits)

lemma wp_conj: "wp c Q E s \<Longrightarrow> wp c Q' E' s \<Longrightarrow> wp c (\<lambda>x s. Q x s \<and> Q' x s) (\<lambda>e s. E e s \<and> E' e s) s"
  by (auto simp: wp_def split: prod.splits sum.splits)

text \<open>From the triple to the result of a run, and back.\<close>

lemma wp_run:
  "wp c Q E s \<Longrightarrow> c s = (s', r) \<Longrightarrow> (case r of Inl e \<Rightarrow> E e s' | Inr x \<Rightarrow> Q x s')"
  by (auto simp: wp_def)

lemma wpI:
  "(\<And>s' x. c s = (s', Inr x) \<Longrightarrow> Q x s') \<Longrightarrow> (\<And>s' e. c s = (s', Inl e) \<Longrightarrow> E e s') \<Longrightarrow> wp c Q E s"
  by (auto simp: wp_def split: prod.splits sum.splits)

lemma op_bind_Inr: "op_bind c f s = (s'', Inr y) \<longleftrightarrow> (\<exists>s' x. c s = (s', Inr x) \<and> f x s' = (s'', Inr y))"
  by (auto simp: op_bind_def split: prod.splits sum.splits)

end
