(* ===== verification/Task_Manager.thy ===== *)
theory Task_Manager
  imports Fallible_State Task_Database_Invariant Wire_Projection Run_Supervisor Delegation_Context
begin

text \<open>
  The single mutation boundary of Task life cycles: \<open>TaskManager\<close> of
  \<open>runtime/delegation/task_manager.py\<close> with \<open>runtime/delegation/remote_reconciliation.py\<close>.

  \<open>tm_tasks\<close> is \<open>_tasks\<close>.  A \<open>TaskRecord\<close> is a shared mutable object; every operation reaches it
  through its Task id, so an object is named by that id and an assignment to a field is
  \<open>edit_task\<close>.  \<open>tm_store\<close> is the task database when there is one; the event ledger exists
  exactly then, and its part in a write is the transaction it runs on the store (its in-process
  subscribers are \<open>Event_Ledger\<close>'s).  \<open>tm_faults\<close> says which of the coming transactions of the
  store fail and are rolled back (\<open>sqlite3.OperationalError\<close>: a full disk, a locked file); the
  empty list is a store that works.  \<open>tm_ticks\<close> counts the readings of the clock and of \<open>uuid4\<close>,
  which \<open>manager_env\<close> supplies with the Tasks of the event loop that are not done, \<open>uuid5\<close> and
  \<open>fromiso\<close>, the UTC instant that \<open>datetime.fromisoformat\<close> parses.
\<close>

section \<open>State\<close>

record manager_env =
  env_clock :: "nat \<Rightarrow> int"
  env_uuid4 :: "nat \<Rightarrow> pystr"
  env_uuid5 :: "pystr \<Rightarrow> pystr"
  env_fromiso :: "pystr \<Rightarrow> int option"
  env_live :: "handle list"

record manager =
  tm_tasks :: "(pystr \<times> task_record) list"
  tm_runs :: live_runs
  tm_store :: "task_db option"
  tm_settled_outbox :: bool
  tm_reviews :: "(pystr \<times> review_record) list"
  tm_next_review :: int
  tm_faults :: "bool list"
  tm_ticks :: nat

datatype manager_error =
    ME_store store_error
  | ME_store_unavailable
  | ME_python py_error
  | ME_unknown_task pystr
  | ME_root_budget pystr int int

type_synonym 'a manager_op = "(manager, manager_error, 'a) opn"

definition new_manager :: "task_db option \<Rightarrow> bool \<Rightarrow> bool list \<Rightarrow> manager" where
  "new_manager store settled_outbox_enabled faults =
     (let reviews = (case store of None \<Rightarrow> [] | Some db \<Rightarrow> list_pending_reviews None None db)
      in \<lparr>tm_tasks = [], tm_runs = [], tm_store = store,
          tm_settled_outbox = (settled_outbox_enabled \<and> store \<noteq> None),
          tm_reviews = foldl (\<lambda>d v. AList.update (rv_review_id v) v d) [] reviews,
          tm_next_review = foldl max 0 (map rv_ingest_sequence reviews) + 1,
          tm_faults = faults, tm_ticks = 0\<rparr>)"

definition tick :: "manager_env \<Rightarrow> int manager_op" where
  "tick env = (\<lambda>m. (m\<lparr>tm_ticks := Suc (tm_ticks m)\<rparr>, Inr (env_clock env (tm_ticks m))))"

definition fresh_id :: "manager_env \<Rightarrow> pystr manager_op" where
  "fresh_id env = (\<lambda>m. (m\<lparr>tm_ticks := Suc (tm_ticks m)\<rparr>, Inr (env_uuid4 env (tm_ticks m))))"

definition put_task :: "task_record \<Rightarrow> unit manager_op" where
  "put_task r = op_modify (\<lambda>m. m\<lparr>tm_tasks := AList.update (tk_task_id r) r (tm_tasks m)\<rparr>)"

text \<open>The object held for a Task id: its fields now, and an assignment to them.\<close>

definition the_task :: "pystr \<Rightarrow> task_record manager_op" where
  "the_task task_id = (\<lambda>m. case map_of (tm_tasks m) task_id of
       None \<Rightarrow> (m, Inl (ME_unknown_task task_id))
     | Some r \<Rightarrow> (m, Inr r))"

definition edit_task :: "pystr \<Rightarrow> (task_record \<Rightarrow> task_record) \<Rightarrow> unit manager_op" where
  "edit_task task_id f = op_bind (the_task task_id) (\<lambda>r.
     op_modify (\<lambda>m. m\<lparr>tm_tasks := AList.update task_id (f r) (tm_tasks m)\<rparr>))"

text \<open>\<open>if self._store is not None: self._store.w(...)\<close>: one transaction.\<close>

definition commit :: "(task_db \<Rightarrow> task_db \<times> (store_error + 'a)) \<Rightarrow> 'a option manager_op" where
  "commit w = (\<lambda>m. case tm_store m of
       None \<Rightarrow> (m, Inr None)
     | Some db \<Rightarrow>
         let m' = m\<lparr>tm_faults := tl (tm_faults m)\<rparr>
         in if tm_faults m \<noteq> [] \<and> hd (tm_faults m) then (m', Inl ME_store_unavailable)
            else (case w db of
                    (db', Inl e) \<Rightarrow> (m'\<lparr>tm_store := Some db'\<rparr>, Inl (ME_store e))
                  | (db', Inr x) \<Rightarrow> (m'\<lparr>tm_store := Some db'\<rparr>, Inr (Some x))))"

section \<open>Persistence\<close>

definition settled_outbox_intent :: "manager_env \<Rightarrow> task_record \<Rightarrow> outbox_intent option manager_op" where
  "settled_outbox_intent env r = op_get (\<lambda>m.
     if tm_settled_outbox m then build_settled_outbox_intent (env_uuid5 env) r else None)"

definition save_record :: "pystr \<Rightarrow> unit manager_op" where
  "save_record task_id = op_bind (the_task task_id) (\<lambda>r.
     op_then (commit (update_task r)) (op_ret ()))"

text \<open>The store corrects the delivered flag of the object it is given.\<close>

definition save_uncertain :: "pystr \<Rightarrow> unit manager_op" where
  "save_uncertain task_id = op_bind (the_task task_id) (\<lambda>r.
     op_bind (commit (update_uncertain_external_operation r)) (\<lambda>stored.
       case stored of None \<Rightarrow> op_ret () | Some r' \<Rightarrow> edit_task task_id (\<lambda>_. r')))"

definition save_rejected :: "manager_env \<Rightarrow> pystr \<Rightarrow> unit manager_op" where
  "save_rejected env task_id = op_bind (the_task task_id) (\<lambda>r.
     op_bind (settled_outbox_intent env r) (\<lambda>intent.
     op_then (commit (update_rejected_external_operation r intent)) (op_ret ())))"

definition event_data :: "task_record \<Rightarrow> (pystr \<times> json) list manager_op" where
  "event_data r = op_lift (lift_error ME_python (lifecycle_event_data r None))"

definition save_lifecycle :: "manager_env \<Rightarrow> pystr \<Rightarrow> unit manager_op" where
  "save_lifecycle env task_id = op_bind (op_get tm_store) (\<lambda>store.
     case store of
       None \<Rightarrow> save_record task_id
     | Some _ \<Rightarrow>
         op_bind (the_task task_id) (\<lambda>r.
         op_bind (event_data r) (\<lambda>data.
         op_bind (settled_outbox_intent env r) (\<lambda>intent.
         op_then (commit (update_task_with_event r
                    \<lparr>es_event_type = lifecycle_event_type (tk_state r), es_data = data,
                     es_created_at = tk_updated_at r\<rparr> intent))
           (op_ret ())))))"

section \<open>Loading\<close>

definition restore_stored_record :: "manager_env \<Rightarrow> task_record \<Rightarrow> task_record manager_op" where
  "restore_stored_record env stored = op_bind (tick env) (\<lambda>now.
     let r = task_record_for_restart now stored; task_id = tk_task_id r
     in op_then (put_task r) (op_then
          (if tk_external_operation r \<noteq> None then save_uncertain task_id
           else op_when (tk_state r \<noteq> tk_state stored \<or> tk_error r \<noteq> tk_error stored) (save_lifecycle env task_id))
          (the_task task_id)))"

definition restore_unless_live :: "manager_env \<Rightarrow> task_record \<Rightarrow> task_record manager_op" where
  "restore_unless_live env stored = op_bind (op_get (\<lambda>m. (map_of (tm_tasks m) (tk_task_id stored),
         live_is_active (tk_task_id stored) (env_live env) (tm_runs m)))) (\<lambda>(current, active).
     case current of
       Some r \<Rightarrow> if active then op_ret r else restore_stored_record env stored
     | None \<Rightarrow> restore_stored_record env stored)"

definition load_stored :: "manager_env \<Rightarrow> (task_db \<Rightarrow> task_record option) \<Rightarrow> task_record option manager_op" where
  "load_stored env query = op_bind (op_get tm_store) (\<lambda>store.
     case store of
       None \<Rightarrow> op_ret None
     | Some db \<Rightarrow>
         (case query db of
            None \<Rightarrow> op_ret None
          | Some stored \<Rightarrow> op_bind (restore_unless_live env stored) (\<lambda>r. op_ret (Some r))))"

definition load_task_by_id :: "manager_env \<Rightarrow> pystr \<Rightarrow> task_record option manager_op" where
  "load_task_by_id env task_id = load_stored env (task_at task_id)"

definition load_task_for_parent_thread :: "manager_env \<Rightarrow> pystr \<Rightarrow> pystr \<Rightarrow> task_record option manager_op" where
  "load_task_for_parent_thread env task_id parent_thread_id =
     load_stored env (task_by_parent_thread task_id parent_thread_id)"

definition load_rows :: "manager_env \<Rightarrow> (task_db \<Rightarrow> task_record list) \<Rightarrow> unit manager_op" where
  "load_rows env query = op_bind (op_get tm_store) (\<lambda>store.
     case store of
       None \<Rightarrow> op_ret ()
     | Some db \<Rightarrow> op_each (\<lambda>stored. op_then (restore_unless_live env stored) (op_ret ())) (query db))"

definition load_by_parent_thread_id :: "manager_env \<Rightarrow> pystr \<Rightarrow> unit manager_op" where
  "load_by_parent_thread_id env parent_thread_id = load_rows env (tasks_by_parent_thread parent_thread_id)"

definition get_task :: "manager_env \<Rightarrow> pystr \<Rightarrow> task_record manager_op" where
  "get_task env task_id = op_bind (op_get (\<lambda>m. map_of (tm_tasks m) task_id)) (\<lambda>known.
     case known of
       Some r \<Rightarrow> op_ret r
     | None \<Rightarrow> op_bind (load_task_by_id env task_id) (\<lambda>loaded.
         case loaded of Some r \<Rightarrow> op_ret r | None \<Rightarrow> op_raise (ME_unknown_task task_id)))"

definition list_manager_tasks :: "task_record list manager_op" where
  "list_manager_tasks = op_get (\<lambda>m. map snd (tm_tasks m))"

definition list_persisted_tasks :: "manager_env \<Rightarrow> task_record list manager_op" where
  "list_persisted_tasks env = op_then (load_rows env db_tasks) list_manager_tasks"

definition find_task :: "(task_record \<Rightarrow> bool) \<Rightarrow> task_record option manager_op" where
  "find_task P = op_get (\<lambda>m. find P (map snd (tm_tasks m)))"

definition find_by_thread_id :: "pystr \<Rightarrow> task_record option manager_op" where
  "find_by_thread_id thread_id = find_task (\<lambda>r. tk_thread_id r = thread_id)"

definition find_by_upstream_task_id :: "pystr \<Rightarrow> task_record option manager_op" where
  "find_by_upstream_task_id upstream_task_id = find_task (\<lambda>r. tk_upstream_task_id r = Some upstream_task_id)"

definition count_tasks_under_root :: "pystr \<Rightarrow> manager \<Rightarrow> int" where
  "count_tasks_under_root root_task_id m =
     (case tm_store m of
        Some db \<Rightarrow> count_under_root root_task_id db
      | None \<Rightarrow> int (length (filter (\<lambda>r. tk_root_task_id r = root_task_id) (map snd (tm_tasks m)))))"

section \<open>Reviews\<close>

text \<open>
  Equality of two JSON-like dicts (\<open>==\<close>): the order of the keys does not count, \<open>True\<close> and \<open>False\<close>
  are the numbers 1 and 0, an object equals itself.
\<close>

fun number_of :: "pyval \<Rightarrow> rat option" where
  "number_of (PBool b) = Some (if b then 1 else 0)"
| "number_of (PInt i) = Some (of_int i)"
| "number_of (PFloat r) = Some r"
| "number_of _ = None"

fun py_equal :: "pyval \<Rightarrow> pyval \<Rightarrow> bool" and lists_equal :: "pyval list \<Rightarrow> pyval list \<Rightarrow> bool"
  and items_equal :: "pydict \<Rightarrow> pydict \<Rightarrow> bool" where
  "py_equal (PList xs) b = (case b of PList ys \<Rightarrow> lists_equal xs ys | _ \<Rightarrow> False)"
| "py_equal (PDict d) b = (case b of PDict e \<Rightarrow> length d = length e \<and> items_equal d e | _ \<Rightarrow> False)"
| "py_equal a b = (a = b \<or> number_of a \<noteq> None \<and> number_of a = number_of b)"
| "lists_equal [] ys = (ys = [])"
| "lists_equal (x # xs) ys = (case ys of [] \<Rightarrow> False | y # ys' \<Rightarrow> py_equal x y \<and> lists_equal xs ys')"
| "items_equal [] e = True"
| "items_equal ((k, v) # d) e = (case map_of e k of None \<Rightarrow> False | Some w \<Rightarrow> py_equal v w \<and> items_equal d e)"

definition same_review :: "pydict option \<Rightarrow> pydict option \<Rightarrow> bool" where
  "same_review a b \<longleftrightarrow> a = b \<or>
     (case (a, b) of (Some d, Some e) \<Rightarrow> py_equal (PDict d) (PDict e) | _ \<Rightarrow> False)"

definition remember_review :: "review_record \<Rightarrow> manager \<Rightarrow> manager" where
  "remember_review v m = m\<lparr>tm_reviews := AList.update (rv_review_id v) v (tm_reviews m)\<rparr>"

definition forget_review :: "pystr \<Rightarrow> unit manager_op" where
  "forget_review review_id = op_modify (\<lambda>m. m\<lparr>tm_reviews := AList.delete review_id (tm_reviews m)\<rparr>)"

definition list_reviews :: "pystr option \<Rightarrow> pystr option \<Rightarrow> review_record list manager_op" where
  "list_reviews root_task_id task_id = (\<lambda>m. case tm_store m of
       Some db \<Rightarrow>
         let reviews = list_pending_reviews root_task_id task_id db
         in (foldl (\<lambda>m v. remember_review v m) m reviews, Inr reviews)
     | None \<Rightarrow>
         (m, Inr (sort_key (\<lambda>v. (rv_ingest_sequence v, rv_review_id v))
                (filter (\<lambda>v. (root_task_id = None \<or> root_task_id = Some (rv_root_task_id v))
                           \<and> (task_id = None \<or> task_id = Some (rv_task_id v))) (map snd (tm_reviews m))))))"

definition get_review :: "pystr \<Rightarrow> review_record option manager_op" where
  "get_review review_id = (\<lambda>m. case tm_store m of
       Some db \<Rightarrow> (case get_pending_review review_id db of
                    None \<Rightarrow> (m, Inr None)
                  | Some v \<Rightarrow> (remember_review v m, Inr (Some v)))
     | None \<Rightarrow> (m, Inr (map_of (tm_reviews m) review_id)))"

definition review_for_task :: "pystr \<Rightarrow> review_record option manager_op" where
  "review_for_task task_id = op_bind (list_reviews None (Some task_id)) (\<lambda>reviews.
     op_ret (case reviews of [] \<Rightarrow> None | v # _ \<Rightarrow> Some v))"

text \<open>\<open>except UnknownWorkerTaskError: return None\<close>.\<close>

definition find_by_review_id :: "manager_env \<Rightarrow> pystr \<Rightarrow> task_record option manager_op" where
  "find_by_review_id env review_id = op_bind (get_review review_id) (\<lambda>review.
     case review of
       None \<Rightarrow> op_ret None
     | Some v \<Rightarrow> (\<lambda>m. case get_task env (rv_task_id v) m of
           (m', Inl (ME_unknown_task _)) \<Rightarrow> (m', Inr None)
         | (m', Inl e) \<Rightarrow> (m', Inl e)
         | (m', Inr r) \<Rightarrow> (m', Inr (Some r))))"

definition review_ingest_sequence :: "review_record option \<Rightarrow> pystr \<Rightarrow> int manager_op" where
  "review_ingest_sequence current review_id = (\<lambda>m.
     case current of
       Some v \<Rightarrow>
         if rv_review_id v = review_id \<and> rv_ingest_sequence v > 0 then (m, Inr (rv_ingest_sequence v))
         else if tm_store m \<noteq> None then (m, Inr 0)
         else (m\<lparr>tm_next_review := tm_next_review m + 1\<rparr>, Inr (tm_next_review m))
     | None \<Rightarrow>
         if tm_store m \<noteq> None then (m, Inr 0)
         else (m\<lparr>tm_next_review := tm_next_review m + 1\<rparr>, Inr (tm_next_review m)))"

definition persisted_review :: "review_record \<Rightarrow> manager \<Rightarrow> review_record" where
  "persisted_review v m =
     (case tm_store m of
        None \<Rightarrow> v
      | Some db \<Rightarrow> (case get_pending_review (rv_review_id v) db of None \<Rightarrow> v | Some w \<Rightarrow> w))"

text \<open>The root object of a record's tree, named by its id; loading it may restore a stored row.\<close>

definition root_record :: "manager_env \<Rightarrow> pystr \<Rightarrow> pystr option manager_op" where
  "root_record env task_id = op_bind (the_task task_id) (\<lambda>r.
     if tk_root_task_id r = tk_task_id r then op_ret (Some (tk_task_id r))
     else op_bind (op_get (\<lambda>m. map_of (tm_tasks m) (tk_root_task_id r))) (\<lambda>known.
       case known of
         Some _ \<Rightarrow> op_ret (Some (tk_root_task_id r))
       | None \<Rightarrow> op_bind (load_task_by_id env (tk_root_task_id r)) (\<lambda>loaded.
           op_ret (map_option tk_task_id loaded))))"

text \<open>
  The review a root shows: the earliest pending one of its tree, marked with the Task it comes from
  when that is not the root itself.
\<close>

definition projected_review :: "pystr \<Rightarrow> review_record list \<Rightarrow> pydict option" where
  "projected_review root_id reviews =
     (case sort_key (\<lambda>v. (rv_created_at v, rv_review_id v))
             (filter (\<lambda>v. rv_root_task_id v = root_id) reviews) of
        [] \<Rightarrow> None
      | v # _ \<Rightarrow> Some (if rv_task_id v \<noteq> root_id
                    then dict_put (str ''source_task_id'') (PStr (rv_task_id v)) (rv_payload v)
                    else rv_payload v))"

definition project_root_review ::
  "manager_env \<Rightarrow> pystr \<Rightarrow> review_record list \<Rightarrow> (pystr option \<times> bool) manager_op" where
  "project_root_review env task_id reviews = op_bind (root_record env task_id) (\<lambda>owner.
     case owner of
       None \<Rightarrow> op_ret (None, False)
     | Some root_id \<Rightarrow>
         op_bind (the_task root_id) (\<lambda>rr.
         let projected = projected_review root_id reviews
         in if same_review (tk_pending_review rr) projected then op_ret (Some root_id, False)
            else op_bind (tick env) (\<lambda>now.
              op_then (edit_task root_id (\<lambda>r. r\<lparr>tk_pending_review := projected, tk_updated_at := now\<rparr>))
                (op_ret (Some root_id, True)))))"

definition transition_events ::
  "bool \<Rightarrow> pystr \<Rightarrow> pystr option \<Rightarrow> bool \<Rightarrow> (task_record \<times> event_spec) list manager_op" where
  "transition_events record_changed task_id owner root_changed =
     op_bind (the_task task_id) (\<lambda>r.
     op_bind (if record_changed
              then op_bind (event_data r) (\<lambda>data. op_ret [(r, \<lparr>es_event_type = lifecycle_event_type (tk_state r),
                     es_data = data, es_created_at = tk_updated_at r\<rparr>)])
              else op_ret []) (\<lambda>own.
     case owner of
       Some root_id \<Rightarrow>
         if root_changed \<and> root_id \<noteq> task_id then
           op_bind (the_task root_id) (\<lambda>rr.
           op_bind (event_data rr) (\<lambda>data.
             op_ret (own @ [(rr, \<lparr>es_event_type = (if tk_pending_review rr \<noteq> None
                                    then str ''task.review_requested'' else lifecycle_event_type (tk_state rr)),
                                  es_data = data, es_created_at = tk_updated_at rr\<rparr>)])))
         else op_ret own
     | None \<Rightarrow> op_ret own))"

definition changed_root :: "pystr \<Rightarrow> pystr option \<Rightarrow> bool \<Rightarrow> task_record option manager_op" where
  "changed_root task_id owner root_changed =
     (case owner of
        Some root_id \<Rightarrow>
          if root_changed \<and> root_id \<noteq> task_id
          then op_bind (the_task root_id) (\<lambda>rr. op_ret (Some rr)) else op_ret None
      | None \<Rightarrow> op_ret None)"

definition persist_review_transition ::
  "manager_env \<Rightarrow> pystr \<Rightarrow> review_record option \<Rightarrow> pystr option \<Rightarrow> bool \<Rightarrow> bool \<Rightarrow> unit manager_op" where
  "persist_review_transition env task_id review owner root_changed record_changed =
     op_bind (transition_events record_changed task_id owner root_changed) (\<lambda>events.
     op_bind (the_task task_id) (\<lambda>r.
     op_bind (changed_root task_id owner root_changed) (\<lambda>rr.
     op_bind (settled_outbox_intent env r) (\<lambda>intent.
     op_then (commit (update_review_transition r review rr events intent)) (op_ret ())))))"

section \<open>The memory transaction\<close>

text \<open>
  \<open>_review_memory_transaction\<close>: an exception puts back the fields of the objects it names, their
  run handles, the cache of reviews and the ingest counter, and is raised again.
\<close>

definition restore_object :: "manager \<Rightarrow> manager \<Rightarrow> pystr \<Rightarrow> manager" where
  "restore_object before m task_id =
     m\<lparr>tm_tasks := (case map_of (tm_tasks before) task_id of
           None \<Rightarrow> tm_tasks m
         | Some r \<Rightarrow> AList.update task_id r (tm_tasks m)),
       tm_runs := live_restore task_id (live_snapshot task_id (tm_runs before)) (tm_runs m)\<rparr>"

definition memory_transaction :: "pystr list \<Rightarrow> 'a manager_op \<Rightarrow> 'a manager_op" where
  "memory_transaction task_ids body = (\<lambda>m.
     case body m of
       (m', Inr x) \<Rightarrow> (m', Inr x)
     | (m', Inl e) \<Rightarrow>
         ((foldl (restore_object m) m' (dedup task_ids))\<lparr>tm_reviews := tm_reviews m,
            tm_next_review := tm_next_review m\<rparr>, Inl e))"

definition record_and_root :: "pystr \<Rightarrow> pystr option \<Rightarrow> pystr list" where
  "record_and_root task_id owner = task_id # (case owner of None \<Rightarrow> [] | Some r \<Rightarrow> [r])"

text \<open>The frame of a life cycle operation: its record, its root and the transaction over both.\<close>

definition in_transaction :: "manager_env \<Rightarrow> pystr \<Rightarrow> unit manager_op \<Rightarrow> unit manager_op" where
  "in_transaction env task_id body =
     op_then (get_task env task_id)
       (op_bind (root_record env task_id) (\<lambda>owner. memory_transaction (record_and_root task_id owner) body))"

definition clear_pending_review_and_save :: "manager_env \<Rightarrow> pystr \<Rightarrow> unit manager_op" where
  "clear_pending_review_and_save env task_id =
     op_bind (review_for_task task_id) (\<lambda>current.
     op_bind (the_task task_id) (\<lambda>r.
     case current of
       None \<Rightarrow>
         op_then
           (if tk_task_id r = tk_root_task_id r then
              op_bind (list_reviews (Some (tk_root_task_id r)) None) (\<lambda>reviews.
                op_then (project_root_review env task_id reviews) (op_ret ()))
            else edit_task task_id (\<lambda>r. r\<lparr>tk_pending_review := None\<rparr>))
           (save_lifecycle env task_id)
     | Some v \<Rightarrow>
         op_then (edit_task task_id (\<lambda>r. r\<lparr>tk_pending_review := None\<rparr>))
         (op_bind (list_reviews (Some (tk_root_task_id r)) None) (\<lambda>reviews.
          op_bind (project_root_review env task_id (filter (\<lambda>w. rv_review_id w \<noteq> rv_review_id v) reviews))
            (\<lambda>(owner, root_changed).
          op_then (persist_review_transition env task_id None owner root_changed True)
            (forget_review (rv_review_id v)))))))"

section \<open>Life cycle\<close>

record task_request =
  rq_task_id :: pystr
  rq_agent_name :: pystr
  rq_parent_task_id :: "pystr option"
  rq_root_task_id :: pystr
  rq_depth :: int
  rq_route_kind :: route_kind
  rq_upstream_task_id :: "pystr option"
  rq_parent_thread_id :: "pystr option"
  rq_webhook :: "pydict option"
  rq_context :: "delegation_context option"
  rq_permission_profile :: pystr
  rq_effective_skill_names :: "pystr list"
  rq_skill_view_path :: "pystr option"
  rq_skill_view_hash :: "pystr option"

definition requested_record :: "task_request \<Rightarrow> int \<Rightarrow> int \<Rightarrow> task_record" where
  "requested_record q created updated =
     \<lparr>tk_task_id = rq_task_id q, tk_agent_name = rq_agent_name q, tk_state = TS_pending,
      tk_thread_id = (if rq_route_kind q = RK_remote_ref then rq_task_id q
        else case rq_upstream_task_id q of Some (c # cs) \<Rightarrow> c # cs | _ \<Rightarrow> rq_task_id q),
      tk_parent_task_id = rq_parent_task_id q, tk_root_task_id = rq_root_task_id q, tk_depth = rq_depth q,
      tk_created_at = created, tk_updated_at = updated, tk_result = None, tk_error = None, tk_run_count = 0,
      tk_route_kind = rq_route_kind q, tk_upstream_task_id = rq_upstream_task_id q,
      tk_parent_thread_id = rq_parent_thread_id q, tk_mailbox_suppressed = False, tk_mailbox_delivered = False,
      tk_webhook = rq_webhook q, tk_delegation_root_id = map_option dc_root_id (rq_context q),
      tk_delegation_max_depth = map_option dc_max_depth (rq_context q),
      tk_delegation_max_tasks_per_root = map_option dc_max_tasks_per_root (rq_context q),
      tk_delegation_visited_nodes = (case rq_context q of None \<Rightarrow> [] | Some c \<Rightarrow> dc_visited_nodes c),
      tk_permission_profile = rq_permission_profile q, tk_effective_skill_names = rq_effective_skill_names q,
      tk_skill_view_path = rq_skill_view_path q, tk_skill_view_hash = rq_skill_view_hash q,
      tk_pending_review = None, tk_artifacts = [], tk_external_operation = None,
      tk_external_operation_identity = None, tk_external_operation_run_count = None,
      tk_external_outcome_uncertain = False, tk_mailbox_wakeup_sequence = 0\<rparr>"

definition memory_budget_error :: "task_record \<Rightarrow> manager \<Rightarrow> manager_error option" where
  "memory_budget_error r m =
     (case (tm_store m, tk_delegation_max_tasks_per_root r) of
        (None, Some limit) \<Rightarrow>
          if count_tasks_under_root (tk_root_task_id r) m \<ge> limit
          then Some (ME_root_budget (tk_root_task_id r) (count_tasks_under_root (tk_root_task_id r) m) limit)
          else None
      | _ \<Rightarrow> None)"

definition create_task_record :: "manager_env \<Rightarrow> task_request \<Rightarrow> task_record manager_op" where
  "create_task_record env q = op_bind (tick env) (\<lambda>created. op_bind (tick env) (\<lambda>updated.
     let r = requested_record q created updated; task_id = rq_task_id q
     in op_bind (op_get (\<lambda>m. (map_of (tm_tasks m) task_id, memory_budget_error r m, tm_store m)))
          (\<lambda>(known, budget, store).
        if known \<noteq> None
        then op_raise (ME_python (ValueError (str ''Task already exists: '' @ task_id)))
        else case budget of
          Some e \<Rightarrow> op_raise e
        | None \<Rightarrow>
            op_then
              (case store of
                 None \<Rightarrow> op_ret ()
               | Some _ \<Rightarrow> op_bind (event_data r) (\<lambda>data.
                   op_then (commit (insert_task_with_event r
                     \<lparr>es_event_type = str ''task.created'', es_data = data, es_created_at = tk_updated_at r\<rparr>))
                     (op_ret ())))
              (op_then (put_task r) (op_ret r)))))"

text \<open>Start of a run: the handle is registered under the loop's Tasks that are not done.\<close>

definition register_run :: "manager_env \<Rightarrow> pystr \<Rightarrow> handle \<Rightarrow> unit manager_op" where
  "register_run env task_id run_task = (\<lambda>m.
     case live_register task_id run_task (env_live env) (tm_runs m) of
       Inl e \<Rightarrow> (m, Inl (ME_python e))
     | Inr runs \<Rightarrow> (m\<lparr>tm_runs := runs\<rparr>, Inr ()))"

definition mark_running :: "manager_env \<Rightarrow> pystr \<Rightarrow> handle \<Rightarrow> int option \<Rightarrow> unit manager_op" where
  "mark_running env task_id run_task mailbox_wakeup_sequence = in_transaction env task_id
     (op_then (edit_task task_id (\<lambda>r. case mailbox_wakeup_sequence of
          None \<Rightarrow> r
        | Some n \<Rightarrow> r\<lparr>tk_mailbox_wakeup_sequence := max (tk_mailbox_wakeup_sequence r) n\<rparr>))
     (op_bind (tick env) (\<lambda>now.
      op_then (edit_task task_id (\<lambda>r. r\<lparr>tk_state := TS_running, tk_updated_at := now\<rparr>))
     (op_then (register_run env task_id run_task)
     (op_then (edit_task task_id (\<lambda>r. r\<lparr>tk_run_count := tk_run_count r + 1, tk_mailbox_suppressed := False,
          tk_mailbox_delivered := False, tk_error := None\<rparr>))
      (clear_pending_review_and_save env task_id))))))"

definition settle_with :: "manager_env \<Rightarrow> pystr \<Rightarrow> (task_record \<Rightarrow> task_record) \<Rightarrow> unit manager_op" where
  "settle_with env task_id f = in_transaction env task_id
     (op_bind (tick env) (\<lambda>now.
      op_then (edit_task task_id (\<lambda>r. (f r)\<lparr>tk_updated_at := now\<rparr>))
        (clear_pending_review_and_save env task_id)))"

definition mark_completed :: "manager_env \<Rightarrow> pystr \<Rightarrow> pystr \<Rightarrow> unit manager_op" where
  "mark_completed env task_id result = settle_with env task_id (\<lambda>r.
     r\<lparr>tk_state := TS_completed, tk_result := Some (normalize_task_event_text result), tk_error := None\<rparr>)"

definition mark_failed :: "manager_env \<Rightarrow> pystr \<Rightarrow> pystr \<Rightarrow> unit manager_op" where
  "mark_failed env task_id error = settle_with env task_id (\<lambda>r.
     r\<lparr>tk_state := TS_failed, tk_error := Some (normalize_task_event_text error)\<rparr>)"

definition reject_mailbox_run :: "manager_env \<Rightarrow> pystr \<Rightarrow> pystr \<Rightarrow> int \<Rightarrow> unit manager_op" where
  "reject_mailbox_run env task_id error mailbox_wakeup_sequence = settle_with env task_id (\<lambda>r.
     r\<lparr>tk_run_count := tk_run_count r + 1,
       tk_mailbox_wakeup_sequence := max (tk_mailbox_wakeup_sequence r) mailbox_wakeup_sequence,
       tk_mailbox_suppressed := False, tk_mailbox_delivered := False,
       tk_state := TS_failed, tk_result := None, tk_error := Some (normalize_task_event_text error)\<rparr>)"

definition mark_cancelled :: "manager_env \<Rightarrow> pystr \<Rightarrow> unit manager_op" where
  "mark_cancelled env task_id = settle_with env task_id (\<lambda>r. r\<lparr>tk_state := TS_cancelled, tk_error := None\<rparr>)"

definition mark_interrupted :: "manager_env \<Rightarrow> pystr \<Rightarrow> pystr \<Rightarrow> unit manager_op" where
  "mark_interrupted env task_id error = settle_with env task_id (\<lambda>r.
     r\<lparr>tk_state := TS_interrupted, tk_error := Some (normalize_task_event_text error)\<rparr>)"

definition add_artifact :: "manager_env \<Rightarrow> pystr \<Rightarrow> artifact \<Rightarrow> unit manager_op" where
  "add_artifact env task_id artifact = op_then (get_task env task_id)
     (op_then (edit_task task_id (\<lambda>r. r\<lparr>tk_artifacts := tk_artifacts r @ [artifact]\<rparr>))
     (op_bind (tick env) (\<lambda>now.
      op_then (edit_task task_id (\<lambda>r. r\<lparr>tk_updated_at := now\<rparr>))
     (op_bind (op_get tm_store) (\<lambda>store.
        case store of
          None \<Rightarrow> save_record task_id
        | Some _ \<Rightarrow> op_bind (the_task task_id) (\<lambda>r.
            op_bind (op_lift (lift_error ME_python (artifact_event_data r artifact))) (\<lambda>data.
            op_then (commit (update_task_with_event r
                \<lparr>es_event_type = str ''task.artifact_published'', es_data = data,
                 es_created_at = tk_updated_at r\<rparr> None)) (op_ret ()))))))))"

definition mark_mailbox_delivered :: "manager_env \<Rightarrow> pystr \<Rightarrow> unit manager_op" where
  "mark_mailbox_delivered env task_id = op_then (get_task env task_id)
     (op_then (edit_task task_id (\<lambda>r. r\<lparr>tk_mailbox_delivered := True\<rparr>)) (save_record task_id))"

definition observe_mailbox_delivered :: "manager_env \<Rightarrow> pystr \<Rightarrow> int \<Rightarrow> unit manager_op" where
  "observe_mailbox_delivered env task_id run_count = op_bind (get_task env task_id) (\<lambda>r.
     op_when (tk_run_count r = run_count) (edit_task task_id (\<lambda>r. r\<lparr>tk_mailbox_delivered := True\<rparr>)))"

definition mark_mailbox_suppressed :: "manager_env \<Rightarrow> pystr \<Rightarrow> unit manager_op" where
  "mark_mailbox_suppressed env task_id = op_then (get_task env task_id)
     (memory_transaction [task_id]
       (op_then (edit_task task_id (\<lambda>r. r\<lparr>tk_mailbox_suppressed := True\<rparr>))
       (op_bind (op_get tm_settled_outbox) (\<lambda>enabled.
        if enabled then op_bind (tick env) (\<lambda>now. op_bind (the_task task_id) (\<lambda>r.
          op_then (commit (suppress_settled_delivery r now)) (op_ret ())))
        else save_record task_id))))"

text \<open>The handles of the process: a request to cancel a run, and a handle given up.\<close>

definition manager_request_cancel :: "pystr \<Rightarrow> handle option manager_op" where
  "manager_request_cancel task_id = (\<lambda>m.
     let (runs, run) = live_request_cancel task_id (tm_runs m) in (m\<lparr>tm_runs := runs\<rparr>, Inr run))"

definition manager_discard_live_run :: "pystr \<Rightarrow> unit manager_op" where
  "manager_discard_live_run task_id = op_modify (\<lambda>m. m\<lparr>tm_runs := live_discard task_id (tm_runs m)\<rparr>)"

section \<open>Waiting for a human\<close>

text \<open>The identity of a review: the payload's, or a fresh one.\<close>

definition review_identity :: "manager_env \<Rightarrow> pydict \<Rightarrow> pystr manager_op" where
  "review_identity env payload =
     (case nonempty_str (dict_get (str ''review_id'') payload) of
        None \<Rightarrow> fresh_id env
      | Some s \<Rightarrow> op_ret (normalize_task_event_text s))"

definition foreign_review :: "pystr \<Rightarrow> pystr \<Rightarrow> review_record option \<Rightarrow> unit manager_op" where
  "foreign_review task_id review_id existing =
     (case existing of
        Some v \<Rightarrow> if rv_task_id v \<noteq> task_id
                  then op_raise (ME_python (ValueError (str ''Pending review already exists: '' @ review_id)))
                  else op_ret ()
      | None \<Rightarrow> op_ret ())"

definition ingest_pending_review ::
  "manager_env \<Rightarrow> pystr \<Rightarrow> pystr \<Rightarrow> pydict \<Rightarrow> review_record option \<Rightarrow> bool \<Rightarrow> unit manager_op" where
  "ingest_pending_review env task_id review_id payload current record_changed =
     op_bind (the_task task_id) (\<lambda>r.
     op_bind (review_ingest_sequence current review_id) (\<lambda>sequence.
     let review = \<lparr>rv_review_id = review_id, rv_task_id = task_id, rv_root_task_id = tk_root_task_id r,
           rv_payload = payload,
           rv_created_at = (case current of
               Some v \<Rightarrow> if rv_review_id v = review_id then rv_created_at v else tk_updated_at r
             | None \<Rightarrow> tk_updated_at r),
           rv_updated_at = tk_updated_at r, rv_ingest_sequence = sequence, rv_cursor_order_updated_at = None\<rparr>
     in op_bind (list_reviews (Some (tk_root_task_id r)) None) (\<lambda>reviews.
        op_bind (project_root_review env task_id (filter (\<lambda>w. rv_task_id w \<noteq> task_id) reviews @ [review]))
          (\<lambda>(owner, root_changed).
        op_then (persist_review_transition env task_id (Some review) owner root_changed record_changed)
       (op_then (case current of None \<Rightarrow> op_ret () | Some v \<Rightarrow> forget_review (rv_review_id v))
          (op_modify (\<lambda>m. remember_review (persisted_review review m) m)))))))"

definition mark_waiting_for_human :: "manager_env \<Rightarrow> pystr \<Rightarrow> pydict \<Rightarrow> unit manager_op" where
  "mark_waiting_for_human env task_id pending_review = op_then (get_task env task_id)
     (op_bind (review_identity env pending_review) (\<lambda>review_id.
      let payload = dict_put (str ''review_id'') (PStr review_id) pending_review
      in op_bind (get_review review_id) (\<lambda>existing.
         op_bind (review_for_task task_id) (\<lambda>current.
         op_then (foreign_review task_id review_id existing)
        (op_bind (root_record env task_id) (\<lambda>owner. memory_transaction (record_and_root task_id owner)
           (op_bind (tick env) (\<lambda>now.
            op_then (edit_task task_id (\<lambda>r. r\<lparr>tk_state := TS_waiting_for_human, tk_updated_at := now,
                tk_pending_review := Some payload, tk_error := None\<rparr>))
              (ingest_pending_review env task_id review_id payload current True)))))))))"

section \<open>Remote reconciliation\<close>

definition unresolved_operation :: "pystr \<Rightarrow> pystr \<Rightarrow> manager_error" where
  "unresolved_operation task_id operation = ME_python (RuntimeError
     (str ''Task '' @ [39] @ task_id @ [39] @ str '' has an unresolved remote '' @ operation @ str '' operation''))"

definition begin_external_operation ::
  "manager_env \<Rightarrow> pystr \<Rightarrow> pystr \<Rightarrow> pystr \<Rightarrow> bool \<Rightarrow> unit manager_op" where
  "begin_external_operation env task_id operation identity allow_replay =
     op_bind (get_task env task_id) (\<lambda>r.
     let op = normalize_task_event_text operation; ident = normalize_task_event_text identity
     in case tk_external_operation r of
          Some current \<Rightarrow>
            if allow_replay \<and> tk_external_outcome_uncertain r \<and> current = op
               \<and> tk_external_operation_identity r = Some ident
            then op_ret () else op_raise (unresolved_operation task_id current)
        | None \<Rightarrow>
            op_bind (root_record env task_id) (\<lambda>owner. memory_transaction (record_and_root task_id owner)
              (op_then (edit_task task_id (\<lambda>r. r\<lparr>tk_external_operation := Some op,
                   tk_external_operation_identity := Some ident,
                   tk_external_operation_run_count := Some (tk_run_count r),
                   tk_external_outcome_uncertain := True\<rparr>))
                (save_uncertain task_id))))"

definition clear_external_fields :: "task_record \<Rightarrow> task_record" where
  "clear_external_fields r =
     r\<lparr>tk_external_operation := None, tk_external_operation_identity := None,
       tk_external_operation_run_count := None, tk_external_outcome_uncertain := False\<rparr>"

definition reject_external_operation :: "manager_env \<Rightarrow> pystr \<Rightarrow> pystr \<Rightarrow> pystr \<Rightarrow> unit manager_op" where
  "reject_external_operation env task_id operation identity =
     op_bind (get_task env task_id) (\<lambda>r.
     if tk_external_operation r \<noteq> Some (normalize_task_event_text operation)
        \<or> tk_external_operation_identity r \<noteq> Some (normalize_task_event_text identity)
     then op_raise (ME_python (RuntimeError (str ''Task '' @ [39] @ task_id @ [39]
            @ str '' external operation identity changed before rejection'')))
     else op_bind (root_record env task_id) (\<lambda>owner. memory_transaction (record_and_root task_id owner)
            (op_then (edit_task task_id clear_external_fields) (save_rejected env task_id))))"

definition mark_record_uncertain :: "pystr \<Rightarrow> task_record \<Rightarrow> task_record" where
  "mark_record_uncertain operation r =
     r\<lparr>tk_state := TS_interrupted, tk_result := None,
       tk_error := Some (normalize_task_event_text (restart_error operation))\<rparr>"

definition mark_external_outcome_uncertain ::
  "manager_env \<Rightarrow> pystr \<Rightarrow> pystr \<Rightarrow> pystr \<Rightarrow> unit manager_op" where
  "mark_external_outcome_uncertain env task_id operation identity = in_transaction env task_id
     (op_then (edit_task task_id (\<lambda>r. (mark_record_uncertain operation r)
          \<lparr>tk_external_operation := Some (normalize_task_event_text operation),
           tk_external_operation_identity := Some (normalize_task_event_text identity),
           tk_external_operation_run_count := (case tk_external_operation_run_count r of
               None \<Rightarrow> Some (tk_run_count r) | Some n \<Rightarrow> Some n),
           tk_external_outcome_uncertain := True\<rparr>))
     (op_bind (tick env) (\<lambda>now.
      op_then (edit_task task_id (\<lambda>r. r\<lparr>tk_updated_at := now\<rparr>)) (save_uncertain task_id))))"

definition bind_uncertain_remote_task :: "manager_env \<Rightarrow> pystr \<Rightarrow> pystr \<Rightarrow> task_record manager_op" where
  "bind_uncertain_remote_task env task_id upstream_task_id =
     op_bind (get_task env task_id) (\<lambda>r.
     if \<not> (tk_route_kind r = RK_remote_ref \<and> tk_upstream_task_id r = None
           \<and> tk_external_outcome_uncertain r \<and> tk_external_operation r = Some (str ''create''))
     then op_raise (ME_python (ValueError (str ''Task '' @ [39] @ task_id @ [39]
            @ str '' cannot accept an upstream binding'')))
     else op_then (op_bind (root_record env task_id) (\<lambda>owner. memory_transaction (record_and_root task_id owner)
            (op_bind (tick env) (\<lambda>now.
             op_then (edit_task task_id (\<lambda>r. r\<lparr>tk_upstream_task_id := Some upstream_task_id,
                 tk_thread_id := tk_task_id r, tk_updated_at := now\<rparr>))
               (save_record task_id)))))
          (the_task task_id))"

definition set_remote_webhook_if_missing :: "manager_env \<Rightarrow> pystr \<Rightarrow> pydict \<Rightarrow> task_record manager_op" where
  "set_remote_webhook_if_missing env task_id webhook =
     op_bind (get_task env task_id) (\<lambda>r.
     if tk_webhook r \<noteq> None then op_ret r
     else op_then (op_bind (root_record env task_id) (\<lambda>owner. memory_transaction (record_and_root task_id owner)
            (op_bind (tick env) (\<lambda>now.
             op_then (edit_task task_id (\<lambda>r. r\<lparr>tk_webhook := Some webhook, tk_updated_at := now\<rparr>))
               (save_record task_id)))))
          (the_task task_id))"

text \<open>\<open>_validate_remote_task_state\<close> and \<open>_parse_task_timestamp\<close> of \<open>contracts.py\<close>.\<close>

definition validate_remote_task_state :: "pystr \<Rightarrow> pydict \<Rightarrow> py_error + task_state \<times> int" where
  "validate_remote_task_state task_id payload =
     (let invalid = (\<lambda>what. Inl (ValueError (str ''Remote task '' @ [39] @ task_id @ [39]
            @ str '' returned invalid '' @ what)))
      in case (case dict_get (str ''status'') payload of PStr s \<Rightarrow> task_state_of_name s | _ \<Rightarrow> None) of
           None \<Rightarrow> invalid (str ''status'')
         | Some status \<Rightarrow>
             (case dict_get (str ''run_count'') payload of
                PInt n \<Rightarrow> if n < 0 then invalid (str ''run_count'') else Inr (status, n)
              | _ \<Rightarrow> invalid (str ''run_count'')))"

definition replace_z :: "pystr \<Rightarrow> pystr" where
  "replace_z s = concat (map (\<lambda>c. if c = 90 then str ''+00:00'' else [c]) s)"

definition parse_task_timestamp :: "manager_env \<Rightarrow> pyval \<Rightarrow> int \<Rightarrow> int" where
  "parse_task_timestamp env value fallback =
     (case nonempty_str value of
        None \<Rightarrow> fallback
      | Some s \<Rightarrow> (case env_fromiso env (replace_z s) of None \<Rightarrow> fallback | Some t \<Rightarrow> t))"

definition effect_is_proven :: "task_record \<Rightarrow> pydict \<Rightarrow> task_state \<Rightarrow> int \<Rightarrow> bool" where
  "effect_is_proven r payload status run_count =
     (case tk_external_operation r of
        None \<Rightarrow> False
      | Some operation \<Rightarrow>
          if operation = str ''create'' then
            (case tk_upstream_task_id r of
               Some (c # cs) \<Rightarrow> dict_get (str ''task_id'') payload = PStr (c # cs)
             | _ \<Rightarrow> False)
          else (case tk_external_operation_run_count r of
            None \<Rightarrow> False
          | Some base \<Rightarrow>
              if operation = str ''send'' then run_count > base
              else if operation = str ''review'' then
                status \<noteq> TS_waiting_for_human \<and> run_count > base
                \<and> (case dict_get (str ''pending_review'') payload of
                     PDict d \<Rightarrow> dict_get (str ''review_id'') d
                   | _ \<Rightarrow> PNone) \<noteq> (case tk_external_operation_identity r of None \<Rightarrow> PNone | Some i \<Rightarrow> PStr i)
              else if operation = str ''cancel'' then status = TS_cancelled
              else False))"

definition public_pending_review :: "pystr \<Rightarrow> pyval \<Rightarrow> pydict option" where
  "public_pending_review task_id value =
     (case value of
        PDict d \<Rightarrow> Some (if map_of d (str ''source_task_id'') \<noteq> None
                       then dict_put (str ''source_task_id'') (PStr task_id) d else d)
      | _ \<Rightarrow> None)"

definition remote_fields ::
  "manager_env \<Rightarrow> pydict \<Rightarrow> task_state \<Rightarrow> int \<Rightarrow> task_record \<Rightarrow> task_record" where
  "remote_fields env payload status run_count r =
     (clear_external_fields r)
       \<lparr>tk_state := status, tk_thread_id := tk_task_id r,
        tk_result := (case dict_get (str ''last_result'') payload of
            PStr s \<Rightarrow> Some (normalize_task_event_text s) | _ \<Rightarrow> None),
        tk_error := (case dict_get (str ''error'') payload of
            PStr s \<Rightarrow> if status \<in> {TS_failed, TS_interrupted} then Some (str ''Remote Gateway Task failed'') else None
          | _ \<Rightarrow> None),
        tk_pending_review := public_pending_review (tk_task_id r) (dict_get (str ''pending_review'') payload),
        tk_run_count := run_count,
        tk_mailbox_suppressed := (if run_count \<noteq> tk_run_count r then False else tk_mailbox_suppressed r),
        tk_mailbox_delivered := (if run_count \<noteq> tk_run_count r then False else tk_mailbox_delivered r),
        tk_created_at := parse_task_timestamp env (dict_get (str ''created_at'') payload) (tk_created_at r),
        tk_updated_at := parse_task_timestamp env (dict_get (str ''updated_at'') payload) (tk_updated_at r)\<rparr>"

definition fingerprint_of :: "task_record \<Rightarrow> pystr manager_op" where
  "fingerprint_of r = op_lift (lift_error ME_python (public_task_event_fingerprint r))"

definition sync_accepted ::
  "manager_env \<Rightarrow> pystr \<Rightarrow> pydict \<Rightarrow> review_record option \<Rightarrow> pystr \<Rightarrow> task_state \<Rightarrow> int \<Rightarrow> unit manager_op" where
  "sync_accepted env task_id payload current previous_fingerprint status run_count =
     op_then (edit_task task_id (remote_fields env payload status run_count))
    (op_then (op_modify (\<lambda>m. m\<lparr>tm_runs := live_discard task_id (tm_runs m)\<rparr>))
    (op_bind (the_task task_id) (\<lambda>r.
     op_bind (fingerprint_of r) (\<lambda>fingerprint.
     let record_changed = (fingerprint \<noteq> previous_fingerprint)
     in case (tk_state r, tk_pending_review r) of
          (TS_waiting_for_human, Some pending) \<Rightarrow>
            op_bind (review_identity env pending) (\<lambda>review_id.
            let payload = dict_put (str ''review_id'') (PStr review_id) pending
            in op_then (edit_task task_id (\<lambda>r. r\<lparr>tk_pending_review := Some payload\<rparr>))
              (op_bind (get_review review_id) (\<lambda>matching.
               op_then (foreign_review task_id review_id matching)
                 (ingest_pending_review env task_id review_id payload current record_changed))))
        | _ \<Rightarrow>
            (case current of
               Some v \<Rightarrow>
                 op_bind (list_reviews (Some (tk_root_task_id r)) None) (\<lambda>reviews.
                 op_bind (project_root_review env task_id (filter (\<lambda>w. rv_review_id w \<noteq> rv_review_id v) reviews))
                   (\<lambda>(owner, root_changed).
                 op_then (persist_review_transition env task_id None owner root_changed record_changed)
                   (forget_review (rv_review_id v))))
             | None \<Rightarrow> if record_changed then save_lifecycle env task_id else save_record task_id)))))"

definition reconcile_remote_task :: "manager_env \<Rightarrow> pystr \<Rightarrow> pydict \<Rightarrow> unit manager_op" where
  "reconcile_remote_task env task_id payload =
     op_bind (get_task env task_id) (\<lambda>r.
     op_bind (review_for_task task_id) (\<lambda>current.
     op_bind (fingerprint_of r) (\<lambda>previous_fingerprint.
     op_bind (op_lift (lift_error ME_python (validate_remote_task_state task_id payload))) (\<lambda>(status, run_count).
     case tk_external_operation r of
       Some operation \<Rightarrow>
         if \<not> effect_is_proven r payload status run_count then
           op_then (edit_task task_id (mark_record_uncertain operation))
          (op_bind (tick env) (\<lambda>now.
           op_then (edit_task task_id (\<lambda>r. r\<lparr>tk_updated_at := now\<rparr>)) (save_uncertain task_id)))
         else sync_accepted env task_id payload current previous_fingerprint status run_count
     | None \<Rightarrow> sync_accepted env task_id payload current previous_fingerprint status run_count))))"

definition sync_remote_task :: "manager_env \<Rightarrow> pystr \<Rightarrow> pydict \<Rightarrow> task_record manager_op" where
  "sync_remote_task env task_id payload =
     op_then (in_transaction env task_id (reconcile_remote_task env task_id payload)) (the_task task_id)"

definition bind_and_sync_remote_task :: "manager_env \<Rightarrow> pystr \<Rightarrow> pystr \<Rightarrow> pydict \<Rightarrow> task_record manager_op" where
  "bind_and_sync_remote_task env task_id upstream_task_id payload =
     op_then (in_transaction env task_id
       (op_then (edit_task task_id (\<lambda>r. r\<lparr>tk_upstream_task_id := Some upstream_task_id,
                    tk_thread_id := tk_task_id r\<rparr>))
         (reconcile_remote_task env task_id payload)))
       (the_task task_id)"

end
