(* ===== verification/Manager_Transactions.thy ===== *)
theory Manager_Transactions
  imports Task_Manager Task_Store_Properties "HOL-Library.Multiset"
begin

text \<open>
  The reasoning behind the Task manager's transactions: what a body may change (\<open>frame\<close>), that the
  rollback puts it back (\<open>unchanged\<close>), that the objects in memory mirror their rows (\<open>mirrored\<close>)
  and which rows each write of the store touches (\<open>rows\<close>), with the weakest preconditions of the
  four ways a record is saved.
\<close>

section \<open>Frames\<close>

text \<open>
  \<open>scope k owner m\<close>: the record of \<open>k\<close> is in memory, and so is its root when \<open>owner\<close> names it; a
  \<open>rootless\<close> record has its root neither in memory nor in the store.
  \<open>frame k owner D m0 m\<close>: since \<open>m0\<close>, nothing changed but the objects of \<open>D\<close> (of the record and its
  root), the run handle of \<open>k\<close> and the cache of reviews.
\<close>

definition scope :: "pystr \<Rightarrow> pystr option \<Rightarrow> manager \<Rightarrow> bool" where
  "scope k owner m \<longleftrightarrow>
     (\<exists>r. map_of (tm_tasks m) k = Some r \<and> tk_task_id r = k \<and>
        (case owner of
           Some q \<Rightarrow> q = tk_root_task_id r \<and> (\<exists>rr. map_of (tm_tasks m) q = Some rr \<and> tk_task_id rr = q)
         | None \<Rightarrow> True))"

definition rootless :: "pystr \<Rightarrow> manager \<Rightarrow> bool" where
  "rootless k m \<longleftrightarrow> (\<forall>r. map_of (tm_tasks m) k = Some r \<longrightarrow> tk_root_task_id r \<noteq> k
     \<and> map_of (tm_tasks m) (tk_root_task_id r) = None
     \<and> (\<forall>db. tm_store m = Some db \<longrightarrow> task_at (tk_root_task_id r) db = None))"

definition frame :: "pystr \<Rightarrow> pystr option \<Rightarrow> pystr set \<Rightarrow> manager \<Rightarrow> manager \<Rightarrow> bool" where
  "frame k owner D m0 m \<longleftrightarrow>
     scope k owner m \<and> (rootless k m0 \<longrightarrow> rootless k m) \<and> tm_store m = tm_store m0 \<and> tm_settled_outbox m = tm_settled_outbox m0
     \<and> D \<subseteq> set (record_and_root k owner)
     \<and> (\<forall>q. q \<notin> D \<longrightarrow> map_of (tm_tasks m) q = map_of (tm_tasks m0) q)
     \<and> dom (map_of (tm_tasks m)) = dom (map_of (tm_tasks m0))
     \<and> (\<forall>q. q \<noteq> k \<longrightarrow> map_of (tm_runs m) q = map_of (tm_runs m0) q)"

lemma rootless_fields [simp]:
  "rootless k (m\<lparr>tm_ticks := n\<rparr>) = rootless k m" "rootless k (m\<lparr>tm_reviews := c\<rparr>) = rootless k m"
  "rootless k (m\<lparr>tm_next_review := i\<rparr>) = rootless k m" "rootless k (m\<lparr>tm_faults := f\<rparr>) = rootless k m"
  "rootless k (m\<lparr>tm_runs := rs\<rparr>) = rootless k m"
  by (simp_all add: rootless_def)

abbreviation whole :: "pystr \<Rightarrow> pystr option \<Rightarrow> pystr set" where
  "whole k owner \<equiv> set (record_and_root k owner)"

lemma frame_refl: "scope k owner m \<Longrightarrow> frame k owner {} m m"
  by (simp add: frame_def)

lemma frame_whole: "frame k owner D m0 m \<Longrightarrow> frame k owner (whole k owner) m0 m"
  by (auto simp: frame_def)

lemma frame_widen: "frame k owner D m0 m \<Longrightarrow> D \<subseteq> D' \<Longrightarrow> D' \<subseteq> whole k owner \<Longrightarrow> frame k owner D' m0 m"
  by (auto simp: frame_def)

lemma frame_fields [simp]:
  "frame k owner D m0 (m\<lparr>tm_ticks := n\<rparr>) = frame k owner D m0 m"
  "frame k owner D m0 (m\<lparr>tm_reviews := c\<rparr>) = frame k owner D m0 m"
  "frame k owner D m0 (m\<lparr>tm_next_review := i\<rparr>) = frame k owner D m0 m"
  "frame k owner D m0 (m\<lparr>tm_faults := f\<rparr>) = frame k owner D m0 m"
  by (cases owner; simp add: frame_def scope_def)+

lemma in_whole: "q \<in> whole k owner \<longleftrightarrow> q = k \<or> owner = Some q"
  by (auto simp: record_and_root_def split: option.splits)

lemma frame_present:
  assumes "frame k owner D m0 m" and "q \<in> whole k owner"
  obtains r where "map_of (tm_tasks m) q = Some r" "tk_task_id r = q"
  using assms by (auto simp: frame_def scope_def in_whole split: option.splits)

lemma frame_edit:
  assumes "frame k owner D m0 m" and "q \<in> whole k owner" and "map_of (tm_tasks m) q = Some r"
    and "tk_task_id r' = tk_task_id r" and "tk_root_task_id r' = tk_root_task_id r"
  shows "frame k owner (insert q D) m0 (m\<lparr>tm_tasks := AList.update q r' (tm_tasks m)\<rparr>)"
proof -
  have "scope k owner (m\<lparr>tm_tasks := AList.update q r' (tm_tasks m)\<rparr>)"
  proof -
    obtain rk where rk: "map_of (tm_tasks m) k = Some rk" "tk_task_id rk = k"
      using assms(1) by (auto simp: frame_def scope_def)
    have "scope k owner m"
      using assms(1) by (simp add: frame_def)
    then show ?thesis
      using assms(2-5) rk by (cases owner) (auto simp: scope_def in_whole update_conv')
  qed
  moreover have "rootless k m \<Longrightarrow> rootless k (m\<lparr>tm_tasks := AList.update q r' (tm_tasks m)\<rparr>)"
    using assms(3,5) by (auto simp: rootless_def update_conv' split: if_splits)
  moreover have "dom (map_of (tm_tasks (m\<lparr>tm_tasks := AList.update q r' (tm_tasks m)\<rparr>))) = dom (map_of (tm_tasks m))"
    using assms(3) by (auto simp: update_conv')
  ultimately show ?thesis
    using assms by (simp add: frame_def update_conv')
qed

lemma frame_runs:
  "frame k owner D m0 m \<Longrightarrow> (\<And>q. q \<noteq> k \<Longrightarrow> map_of runs q = map_of (tm_runs m) q) \<Longrightarrow>
    frame k owner D m0 (m\<lparr>tm_runs := runs\<rparr>)"
  by (cases owner) (simp_all add: frame_def scope_def)

section \<open>Rollback\<close>

definition unchanged :: "manager \<Rightarrow> manager \<Rightarrow> bool" where
  "unchanged m m' \<longleftrightarrow>
     map_of (tm_tasks m') = map_of (tm_tasks m) \<and> tm_store m' = tm_store m
     \<and> map_of (tm_runs m') = map_of (tm_runs m) \<and> tm_next_review m' = tm_next_review m
     \<and> tm_settled_outbox m' = tm_settled_outbox m"

lemma map_of_live_restore: "map_of (live_restore k (live_snapshot k runs0) runs) = (map_of runs)(k := map_of runs0 k)"
  by (auto simp: live_restore_def live_snapshot_def update_conv' delete_conv' fun_eq_iff restrict_map_def
      split: option.splits)

lemma restore_objects:
  "(\<And>q. q \<in> set ks \<Longrightarrow> map_of (tm_tasks m0) q \<noteq> None) \<Longrightarrow>
    map_of (tm_tasks (foldl (restore_object m0) m ks)) q
        = (if q \<in> set ks then map_of (tm_tasks m0) q else map_of (tm_tasks m) q)
    \<and> map_of (tm_runs (foldl (restore_object m0) m ks)) q
        = (if q \<in> set ks then map_of (tm_runs m0) q else map_of (tm_runs m) q)
    \<and> tm_store (foldl (restore_object m0) m ks) = tm_store m
    \<and> tm_settled_outbox (foldl (restore_object m0) m ks) = tm_settled_outbox m"
proof (induction ks arbitrary: m)
  case (Cons k ks)
  obtain r where r: "map_of (tm_tasks m0) k = Some r"
    using Cons.prems [of k] by auto
  have "map_of (tm_tasks (restore_object m0 m k)) = (map_of (tm_tasks m))(k \<mapsto> r)"
    and "map_of (tm_runs (restore_object m0 m k)) = (map_of (tm_runs m))(k := map_of (tm_runs m0) k)"
    and "tm_store (restore_object m0 m k) = tm_store m"
    and "tm_settled_outbox (restore_object m0 m k) = tm_settled_outbox m"
    by (simp_all add: restore_object_def r update_conv' map_of_live_restore)
  then show ?case
    using Cons.IH [of "restore_object m0 m k"] Cons.prems r by auto
qed simp

lemma wp_memory_transaction:
  assumes "scope k owner m"
    and "wp body Q (\<lambda>_. frame k owner (whole k owner) m) m"
  shows "wp (memory_transaction (record_and_root k owner) body) Q (\<lambda>_. unchanged m) m"
proof (rule wpI)
  fix m' x assume "memory_transaction (record_and_root k owner) body m = (m', Inr x)"
  then show "Q x m'"
    using assms(2) by (auto simp: memory_transaction_def wp_def split: prod.splits sum.splits)
next
  fix m' e assume "memory_transaction (record_and_root k owner) body m = (m', Inl e)"
  then obtain m1 where b: "body m = (m1, Inl e)" and m': "m' = (foldl (restore_object m) m1
      (dedup (record_and_root k owner)))\<lparr>tm_reviews := tm_reviews m, tm_next_review := tm_next_review m\<rparr>"
    by (auto simp: memory_transaction_def split: prod.splits sum.splits)
  have f: "frame k owner (whole k owner) m m1"
    using assms(2) b by (simp add: wp_def)
  have "map_of (tm_tasks m) q \<noteq> None" if "q \<in> whole k owner" for q
    using frame_present [OF frame_refl [OF assms(1)] that] by auto
  then have r: "map_of (tm_tasks m') q = (if q \<in> whole k owner then map_of (tm_tasks m) q else map_of (tm_tasks m1) q)
    \<and> map_of (tm_runs m') q = (if q \<in> whole k owner then map_of (tm_runs m) q else map_of (tm_runs m1) q)
    \<and> tm_store m' = tm_store m1 \<and> tm_settled_outbox m' = tm_settled_outbox m1" for q
    using restore_objects [of "dedup (record_and_root k owner)" m m1 q] by (simp add: m')
  show "unchanged m m'"
    using r f by (auto simp: unchanged_def frame_def fun_eq_iff in_whole m')
qed

section \<open>Steps inside a transaction\<close>

text \<open>
  Two kinds of steps: a quiet one leaves a frame whether it returns or raises; a commit that raises
  leaves one too, because the store rolled its transaction back.
\<close>

definition rolls_back :: "(task_db \<Rightarrow> task_db \<times> (store_error + 'a)) \<Rightarrow> bool" where
  "rolls_back w \<longleftrightarrow> (\<forall>db db' e. w db = (db', Inl e) \<longrightarrow> db' = db)"

lemma transact_Inl: "transact db x = (db', Inl e) \<Longrightarrow> db' = db"
  by (auto simp: transact_def split: sum.splits)

lemma rolls_back_writes [simp]:
  "rolls_back (update_task r)" "rolls_back (update_task_with_event r e i)"
  "rolls_back (update_uncertain_external_operation r)" "rolls_back (update_rejected_external_operation r i)"
  "rolls_back (suppress_settled_delivery r now)" "rolls_back (insert_task_with_event r e)"
  "rolls_back (update_review_transition r v x es i)"
  by (auto simp: rolls_back_def update_task_def update_task_with_event_def update_uncertain_external_operation_def
      update_rejected_external_operation_def suppress_settled_delivery_def insert_task_with_event_def
      update_review_transition_def dest: transact_Inl split: if_splits)

lemma wp_tick [wp_simps]: "wp (tick env) Q E m \<longleftrightarrow> Q (env_clock env (tm_ticks m)) (m\<lparr>tm_ticks := Suc (tm_ticks m)\<rparr>)"
  by (simp add: wp_def tick_def)

lemma wp_fresh_id [wp_simps]: "wp (fresh_id env) Q E m \<longleftrightarrow> Q (env_uuid4 env (tm_ticks m)) (m\<lparr>tm_ticks := Suc (tm_ticks m)\<rparr>)"
  by (simp add: wp_def fresh_id_def)

lemma wp_the_task [wp_simps]:
  "wp (the_task q) Q E m \<longleftrightarrow> (case map_of (tm_tasks m) q of None \<Rightarrow> E (ME_unknown_task q) m | Some r \<Rightarrow> Q r m)"
  by (simp add: wp_def the_task_def split: option.split)

lemma wp_edit_task [wp_simps]:
  "wp (edit_task q f) Q E m \<longleftrightarrow>
    (case map_of (tm_tasks m) q of None \<Rightarrow> E (ME_unknown_task q) m
     | Some r \<Rightarrow> Q () (m\<lparr>tm_tasks := AList.update q (f r) (tm_tasks m)\<rparr>))"
  by (simp add: edit_task_def wp_simps split: option.split)

lemma wp_the_task_in:
  assumes "frame k owner D m0 m" and "q \<in> whole k owner"
    and "\<And>r. map_of (tm_tasks m) q = Some r \<Longrightarrow> tk_task_id r = q \<Longrightarrow> Q r m"
  shows "wp (the_task q) Q E m"
proof -
  obtain r where "map_of (tm_tasks m) q = Some r" "tk_task_id r = q"
    using frame_present [OF assms(1,2)] .
  then show ?thesis
    using assms(3) by (simp add: wp_the_task)
qed

lemma wp_edit_task_in:
  assumes "frame k owner D m0 m" and "q \<in> whole k owner"
    and "\<And>r. tk_task_id (f r) = tk_task_id r" and "\<And>r. tk_root_task_id (f r) = tk_root_task_id r"
    and "\<And>r m'. map_of (tm_tasks m) q = Some r \<Longrightarrow> tk_task_id r = q
      \<Longrightarrow> map_of (tm_tasks m') = (map_of (tm_tasks m))(q \<mapsto> f r) \<Longrightarrow> tm_runs m' = tm_runs m
      \<Longrightarrow> frame k owner (insert q D) m0 m' \<Longrightarrow> Q () m'"
  shows "wp (edit_task q f) Q E m"
proof -
  obtain r where r: "map_of (tm_tasks m) q = Some r" "tk_task_id r = q"
    using frame_present [OF assms(1,2)] .
  show ?thesis
    using assms(5) [OF r] frame_edit [OF assms(1,2) r(1) assms(3,4)] r by (simp add: wp_edit_task update_conv')
qed

lemma wp_commit:
  assumes "frame k owner D m0 m" and "rolls_back w"
    and "tm_store m = None \<Longrightarrow> Q None m"
    and "\<And>db db' x m'. tm_store m = Some db \<Longrightarrow> w db = (db', Inr x) \<Longrightarrow> tm_store m' = Some db'
      \<Longrightarrow> tm_tasks m' = tm_tasks m \<Longrightarrow> tm_runs m' = tm_runs m \<Longrightarrow> tm_settled_outbox m' = tm_settled_outbox m
      \<Longrightarrow> Q (Some x) m'"
  shows "wp (commit w) Q (\<lambda>_. frame k owner (whole k owner) m0) m"
proof (cases "tm_store m")
  case None
  then show ?thesis
    using assms(3) by (simp add: wp_def commit_def)
next
  case (Some db)
  obtain db' res where w: "w db = (db', res)"
    by (cases "w db")
  have f: "frame k owner (whole k owner) m0 m"
    using frame_whole [OF assms(1)] .
  show ?thesis
  proof (cases res)
    case (Inl e)
    have "db' = db"
      using assms(2) w Inl by (auto simp: rolls_back_def)
    then have "m\<lparr>tm_faults := fs, tm_store := Some db'\<rparr> = m\<lparr>tm_faults := fs\<rparr>" for fs
      using Some by simp
    then show ?thesis
      using f Some w Inl by (simp add: wp_def commit_def Let_def)
  next
    case (Inr x)
    show ?thesis
      using assms(4) [OF Some, of db' x] f Some w Inr by (simp add: wp_def commit_def Let_def)
  qed
qed

lemma remember_reviews: "\<exists>c. foldl (\<lambda>m v. remember_review v m) m vs = m\<lparr>tm_reviews := c\<rparr>"
proof (induction vs arbitrary: m)
  case Nil
  show ?case
    by (rule exI [of _ "tm_reviews m"]) simp
next
  case (Cons v vs)
  obtain c where "foldl (\<lambda>m v. remember_review v m) (remember_review v m) vs = (remember_review v m)\<lparr>tm_reviews := c\<rparr>"
    using Cons.IH by blast
  then show ?case
    by (intro exI [of _ c]) (simp add: remember_review_def)
qed

lemma wp_list_reviews:
  assumes "\<And>vs c. (\<And>db. tm_store m = Some db \<Longrightarrow> vs = list_pending_reviews a b db) \<Longrightarrow> Q vs (m\<lparr>tm_reviews := c\<rparr>)"
  shows "wp (list_reviews a b) Q E m"
proof (cases "tm_store m")
  case None
  then show ?thesis
    using assms [of _ "tm_reviews m"] by (simp add: wp_def list_reviews_def)
next
  case (Some db)
  obtain c where "foldl (\<lambda>m v. remember_review v m) m (list_pending_reviews a b db) = m\<lparr>tm_reviews := c\<rparr>"
    using remember_reviews by blast
  then show ?thesis
    using Some assms [of "list_pending_reviews a b db" c] by (simp add: wp_def list_reviews_def Let_def)
qed

lemma wp_get_review:
  assumes "\<And>v c. (\<And>db. tm_store m = Some db \<Longrightarrow> v = get_pending_review i db) \<Longrightarrow> Q v (m\<lparr>tm_reviews := c\<rparr>)"
  shows "wp (get_review i) Q E m"
  using assms [of None "tm_reviews m"] assms [of "map_of (tm_reviews m) i" "tm_reviews m"] assms
  by (auto simp: wp_def get_review_def remember_review_def split: option.split)

lemma wp_review_for_task:
  assumes "\<And>v c. (\<And>db. tm_store m = Some db \<Longrightarrow> v = (case list_pending_reviews None (Some k) db of [] \<Rightarrow> None | w # _ \<Rightarrow> Some w))
    \<Longrightarrow> Q v (m\<lparr>tm_reviews := c\<rparr>)"
  shows "wp (review_for_task k) Q E m"
  unfolding review_for_task_def wp_bind by (rule wp_list_reviews) (auto simp: wp_ret intro!: assms)

lemma wp_root_record:
  assumes "frame k owner D m0 m" and "owner = None \<Longrightarrow> rootless k m0" and "Q owner m"
  shows "wp (root_record env k) Q E m"
proof (cases owner)
  case None
  then have "rootless k m"
    using assms(1,2) by (simp add: frame_def)
  moreover obtain r where "map_of (tm_tasks m) k = Some r" "tk_task_id r = k"
    using assms(1) by (auto simp: frame_def scope_def)
  ultimately show ?thesis
    using assms(3) None by (cases "tm_store m")
      (simp_all add: rootless_def root_record_def load_task_by_id_def load_stored_def wp_simps)
next
  case (Some q)
  then show ?thesis
    using assms by (auto simp: frame_def scope_def root_record_def wp_simps)
qed

section \<open>What a commit writes\<close>

definition rows :: "task_db \<Rightarrow> pystr \<Rightarrow> task_record option" where
  "rows db = (\<lambda>q. task_at q db)"

lemma rows_tasks: "db_tasks db' = db_tasks db \<Longrightarrow> rows db' = rows db"
  by (simp add: rows_def task_at_def)

lemma rows_update_task_locked: "update_task_locked r db = Inr db' \<Longrightarrow> rows db' = (rows db)(tk_task_id r \<mapsto> r)"
proof -
  assume u: "update_task_locked r db = Inr db'"
  let ?P = "\<lambda>t. tk_task_id t = tk_task_id r"
  have db': "db' = db\<lparr>db_tasks := rows_update ?P (\<lambda>_. r) (db_tasks db)\<rparr>"
    using u by (auto simp: update_task_locked_def split: if_splits)
  have "row_at tk_task_id q (db_tasks db') = map_option (\<lambda>t. if ?P t then r else t) (row_at tk_task_id q (db_tasks db))" for q
    unfolding db' by (simp add: row_at_rows_update)
  note row = this
  show ?thesis
  proof
    fix q
    have "tk_task_id t = q" if "row_at tk_task_id q (db_tasks db) = Some t" for t
      using row_at_SomeD [OF that] by simp
    then show "rows db' q = ((rows db)(tk_task_id r \<mapsto> r)) q"
      using task_at_updated [OF u] row [of q]
      by (cases "row_at tk_task_id q (db_tasks db)") (auto simp: rows_def task_at_def)
  qed
qed

lemma appended_event_tasks: "appended_event k n ty data t db = Inr (db', ev) \<Longrightarrow> db_tasks db' = db_tasks db"
  using appended_event_Inr by fastforce

lemma append_all_events_tasks: "append_all_events es db = Inr (db', evs) \<Longrightarrow> db_tasks db' = db_tasks db"
proof (induction es arbitrary: db db' evs)
  case (Cons e es)
  then show ?case
    by (cases e) (auto simp: and_then_Inr dest!: appended_event_tasks)
qed simp

lemma replace_review_tasks: "replace_review_locked k v db = Inr db' \<Longrightarrow> db_tasks db' = db_tasks db"
  by (auto simp: replace_review_locked_def and_then_Inr ingest_review_def Let_def split: option.splits if_splits)

lemma transact_Inr: "transact db x = (db', Inr y) \<longleftrightarrow> x = Inr (db', y)"
  by (auto simp: transact_def split: sum.splits)

lemma and_then_pair_elim:
  "and_then x (\<lambda>(a, b). f a b) = Inr y \<Longrightarrow> (\<And>a b. x = Inr (a, b) \<Longrightarrow> f a b = Inr y \<Longrightarrow> P) \<Longrightarrow> P"
  by (auto simp: and_then_Inr)

lemma rows_update_task: "update_task r db = (db', Inr x) \<Longrightarrow> rows db' = (rows db)(tk_task_id r \<mapsto> r)"
  unfolding update_task_def transact_Inr by (elim and_then_elim) (simp add: rows_update_task_locked)

lemma update_with_event_parts:
  assumes "update_task_with_event r e i db = (db', Inr x)"
  obtains db1 db2 where "update_task_locked r db = Inr db1"
    "appended_event (tk_task_id r) (tk_run_count r) (es_event_type e) (es_data e) (es_created_at e) db1 = Inr (db2, x)"
    "insert_intent_opt i db2 = Inr db'"
  using assms unfolding update_task_with_event_def transact_Inr
  by (elim and_then_pair_elim and_then_elim) (rule that, assumption+, simp_all)

lemma rows_update_with_event:
  assumes "update_task_with_event r e i db = (db', Inr x)"
  shows "rows db' = (rows db)(tk_task_id r \<mapsto> r)"
proof -
  obtain db1 db2 where 1: "update_task_locked r db = Inr db1"
    and 2: "appended_event (tk_task_id r) (tk_run_count r) (es_event_type e) (es_data e) (es_created_at e) db1 = Inr (db2, x)"
    and 3: "insert_intent_opt i db2 = Inr db'"
    using update_with_event_parts [OF assms] .
  have "rows db' = rows db1"
    by (rule rows_tasks) (use appended_event_tasks [OF 2] insert_intent_Inr [OF 3] in simp)
  then show ?thesis
    using rows_update_task_locked [OF 1] by simp
qed

lemma rows_rejected:
  assumes "update_rejected_external_operation r i db = (db', Inr x)"
  shows "rows db' = (rows db)(tk_task_id r \<mapsto> r)"
proof -
  obtain db1 where 1: "update_task_locked r db = Inr db1" and 2: "insert_intent_opt i db1 = Inr db'"
    using assms unfolding update_rejected_external_operation_def transact_Inr
    by (elim and_then_elim) (rule that, assumption+, simp)
  have "rows db' = rows db1"
    by (rule rows_tasks) (use insert_intent_Inr [OF 2] in simp)
  then show ?thesis
    using rows_update_task_locked [OF 1] by simp
qed

lemma rows_suppressed:
  assumes "suppress_settled_delivery r now db = (db', Inr x)"
  shows "rows db' = (rows db)(tk_task_id r \<mapsto> r)"
proof -
  obtain db1 where 1: "update_task_locked r db = Inr db1"
    and 2: "db' = retract_mailbox_for_task_run (tk_task_id r) (tk_run_count r) now
               (suppress_for_task_run (tk_task_id r) (tk_run_count r) db1)"
    using assms unfolding suppress_settled_delivery_def transact_Inr
    by (elim and_then_elim) (rule that, assumption, simp)
  have "rows db' = rows db1"
    by (rule rows_tasks) (simp add: 2 retract_mailbox_for_task_run_def suppress_for_task_run_def)
  then show ?thesis
    using rows_update_task_locked [OF 1] by simp
qed

lemma review_transition_parts:
  assumes "update_review_transition r v x es i db = (db', Inr evs)"
  obtains db1 db2 db3 db4 where "update_task_locked r db = Inr db1"
    "replace_review_locked (tk_task_id r) v db1 = Inr db2"
    "(case x of None \<Rightarrow> Inr db2
        | Some y \<Rightarrow> if tk_task_id y \<noteq> tk_task_id r then update_task_locked y db2 else Inr db2) = Inr db3"
    "append_all_events es db3 = Inr (db4, evs)" "insert_intent_opt i db4 = Inr db'"
proof -
  have "\<not> (case v of None \<Rightarrow> False | Some p \<Rightarrow> rv_task_id p \<noteq> tk_task_id r)"
    using assms by (auto simp: update_review_transition_def split: if_splits)
  then show thesis
    using assms unfolding update_review_transition_def
    by (simp only: if_False transact_Inr) (elim and_then_pair_elim and_then_elim, rule that, assumption+, simp_all)
qed

lemma rows_review_transition:
  assumes "update_review_transition r v x es i db = (db', Inr evs)"
  shows "rows db' = (case x of Some y \<Rightarrow> if tk_task_id y \<noteq> tk_task_id r
        then (rows db)(tk_task_id r \<mapsto> r, tk_task_id y \<mapsto> y) else (rows db)(tk_task_id r \<mapsto> r)
      | None \<Rightarrow> (rows db)(tk_task_id r \<mapsto> r))"
proof -
  obtain db1 db2 db3 db4 where 1: "update_task_locked r db = Inr db1"
    and 2: "replace_review_locked (tk_task_id r) v db1 = Inr db2"
    and 3: "(case x of None \<Rightarrow> Inr db2
        | Some y \<Rightarrow> if tk_task_id y \<noteq> tk_task_id r then update_task_locked y db2 else Inr db2) = Inr db3"
    and 4: "append_all_events es db3 = Inr (db4, evs)" and 5: "insert_intent_opt i db4 = Inr db'"
    using review_transition_parts [OF assms] .
  have "rows db' = rows db3"
    by (rule rows_tasks) (use append_all_events_tasks [OF 4] insert_intent_Inr [OF 5] in simp)
  moreover have "rows db2 = (rows db)(tk_task_id r \<mapsto> r)"
    using rows_update_task_locked [OF 1] rows_tasks [OF replace_review_tasks [OF 2]] by simp
  ultimately show ?thesis
    using 3 by (auto dest!: rows_update_task_locked split: option.splits if_splits)
qed

text \<open>The uncertain write also sets the delivered flag of the row, and returns the row as it is.\<close>

lemma rows_set_delivered:
  assumes "rows db = R(k \<mapsto> r\<lparr>tk_mailbox_delivered := d\<rparr>)" and "tk_task_id r = k" and "unique_key tk_task_id (db_tasks db)"
  shows "rows (set_delivered_flag k (tk_run_count r) b db) = R(k \<mapsto> r\<lparr>tk_mailbox_delivered := b\<rparr>)"
proof
  fix q
  let ?P = "\<lambda>t. tk_task_id t = k \<and> tk_run_count t = tk_run_count r"
  have s: "rows (set_delivered_flag k (tk_run_count r) b db) q =
      map_option (\<lambda>t. if ?P t then t\<lparr>tk_mailbox_delivered := b\<rparr> else t) (rows db q)"
    by (simp add: rows_def task_at_def set_delivered_flag_def row_at_rows_update)
  have "tk_task_id t = q" if "rows db q = Some t" for t
    using that row_at_SomeD by (fastforce simp: rows_def task_at_def)
  then show "rows (set_delivered_flag k (tk_run_count r) b db) q = (R(k \<mapsto> r\<lparr>tk_mailbox_delivered := b\<rparr>)) q"
    using s assms(1,2) by (auto simp: option.map_ident map_option_case split: option.split)
qed

lemma rows_discard_row:
  assumes "rows db = R(k \<mapsto> r\<lparr>tk_mailbox_delivered := d\<rparr>)" and "tk_task_id r = k" and "unique_key tk_task_id (db_tasks db)"
    and "ob_task_id x = k" and "ob_run_count x = tk_run_count r"
  shows "rows (fst (discard_uncertain_row x db)) = R(k \<mapsto> r\<lparr>tk_mailbox_delivered := snd (discard_uncertain_row x db)\<rparr>)
    \<and> unique_key tk_task_id (db_tasks (fst (discard_uncertain_row x db)))"
proof -
  have u: "unique_key tk_task_id (db_tasks (set_delivered_flag k n b d)) = unique_key tk_task_id (db_tasks d)" for n b d
    by (simp add: set_delivered_flag_def unique_key_rows_update)
  have "rows (set_delivered_flag k (tk_run_count r) b (db\<lparr>db_outbox := os\<rparr>)) = R(k \<mapsto> r\<lparr>tk_mailbox_delivered := b\<rparr>)"
    "rows (set_delivered_flag k (tk_run_count r) b (db\<lparr>db_mail := ms, db_outbox := os\<rparr>)) = R(k \<mapsto> r\<lparr>tk_mailbox_delivered := b\<rparr>)"
    for os ms b
    using assms(1-3) by (intro rows_set_delivered; simp add: rows_def task_at_def)+
  then show ?thesis
    using assms(3-5) by (simp add: discard_uncertain_row_def u)
qed

lemma rows_discard_loop:
  "rows db = R(k \<mapsto> r\<lparr>tk_mailbox_delivered := d\<rparr>) \<Longrightarrow> tk_task_id r = k \<Longrightarrow> unique_key tk_task_id (db_tasks db)
    \<Longrightarrow> \<forall>x \<in> set xs. ob_task_id x = k \<and> ob_run_count x = tk_run_count r
    \<Longrightarrow> rows (fst (discard_uncertain_loop xs db)) = R(k \<mapsto> r\<lparr>tk_mailbox_delivered :=
          (case map_of (rev (snd (discard_uncertain_loop xs db))) (k, tk_run_count r) of None \<Rightarrow> d | Some b \<Rightarrow> b)\<rparr>)"
proof (induction xs arbitrary: db d)
  case (Cons x xs)
  obtain db1 b where b: "discard_uncertain_row x db = (db1, b)"
    by (cases "discard_uncertain_row x db")
  obtain db2 outs where o: "discard_uncertain_loop xs db1 = (db2, outs)"
    by (cases "discard_uncertain_loop xs db1")
  have "rows db1 = R(k \<mapsto> r\<lparr>tk_mailbox_delivered := b\<rparr>)" "unique_key tk_task_id (db_tasks db1)"
    using rows_discard_row [OF Cons.prems(1-3), of x] Cons.prems(4) b by simp_all
  then have "rows (fst (discard_uncertain_loop xs db1)) = R(k \<mapsto> r\<lparr>tk_mailbox_delivered :=
      (case map_of (rev (snd (discard_uncertain_loop xs db1))) (k, tk_run_count r) of None \<Rightarrow> b | Some b \<Rightarrow> b)\<rparr>)"
    by (rule Cons.IH [OF _ Cons.prems(2)]) (use Cons.prems(4) in simp)
  then have "rows db2 = R(k \<mapsto> r\<lparr>tk_mailbox_delivered := (case map_of (rev outs) (k, tk_run_count r) of None \<Rightarrow> b | Some b \<Rightarrow> b)\<rparr>)"
    by (simp only: o fst_conv snd_conv)
  moreover have "fst (discard_uncertain_loop (x # xs) db) = db2"
    using b o by simp
  moreover have "map_of (rev (snd (discard_uncertain_loop (x # xs) db))) (k, tk_run_count r)
      = (case map_of (rev outs) (k, tk_run_count r) of None \<Rightarrow> Some b | Some c \<Rightarrow> Some c)"
    using b o Cons.prems(4) by (simp add: map_add_def split: option.split)
  ultimately show ?case
    by (cases "map_of (rev outs) (k, tk_run_count r)") (simp_all only: option.case)
qed simp

lemma rows_uncertain:
  assumes "db_inv db" and "update_uncertain_external_operation r db = (db', Inr r')"
  shows "rows db' = (rows db)(tk_task_id r \<mapsto> r') \<and> (\<exists>flag. r' = r\<lparr>tk_mailbox_delivered := flag\<rparr>)"
proof -
  let ?k = "tk_task_id r"
  obtain db1 where 1: "update_task_locked r db = Inr db1"
    and 2: "(let (db2, outcomes) = discard_invalid_uncertain (Some ?k) db1
        in case map_of (rev outcomes) (?k, tk_run_count r) of
             None \<Rightarrow> Inr (db2, r)
           | Some delivered \<Rightarrow>
               if tk_mailbox_delivered r \<noteq> delivered then
                 and_then (update_task_locked (r\<lparr>tk_mailbox_delivered := delivered\<rparr>) db2)
                   (\<lambda>db3. Inr (db3, r\<lparr>tk_mailbox_delivered := delivered\<rparr>))
               else Inr (db2, r)) = Inr (db', r')"
    using assms(2) unfolding update_uncertain_external_operation_def transact_Inr by (elim and_then_elim) (rule that)
  obtain db2 outs where d: "discard_invalid_uncertain (Some ?k) db1 = (db2, outs)"
    by (cases "discard_invalid_uncertain (Some ?k) db1")
  have rows1: "rows db1 = (rows db)(?k \<mapsto> r)"
    using rows_update_task_locked [OF 1] .
  have "db_inv db1"
    using write_keeps_update_task [of db r] assms(1) 1 by (simp add: write_keeps_def keeps_def)
  then have u: "unique_key tk_task_id (db_tasks db1)"
    by (simp add: db_inv_def)
  have "ob_task_id x = ?k \<and> ob_run_count x = tk_run_count r" if x: "x \<in> set (invalid_uncertain_rows (Some ?k) db1)" for x
  proof -
    obtain t where t: "task_at (ob_task_id x) db1 = Some t" "ob_run_count x = tk_run_count t" "tk_task_id t = ?k"
      using x by (auto simp: invalid_uncertain_rows_def split: option.splits)
    have "ob_task_id x = ?k"
      using row_at_SomeD [of tk_task_id "ob_task_id x" "db_tasks db1" t] t by (simp add: task_at_def)
    then show ?thesis
      using fun_cong [OF rows1, of ?k] t by (simp add: rows_def)
  qed
  then have "rows db2 = (rows db)(?k \<mapsto> r\<lparr>tk_mailbox_delivered :=
      (case map_of (rev outs) (?k, tk_run_count r) of None \<Rightarrow> tk_mailbox_delivered r | Some b \<Rightarrow> b)\<rparr>)"
    using rows_discard_loop [where db = db1 and R = "rows db" and k = ?k and r = r and d = "tk_mailbox_delivered r"
        and xs = "invalid_uncertain_rows (Some ?k) db1"]
      rows1 u d by (simp add: discard_invalid_uncertain_def)
  note rows2 = this
  show ?thesis
  proof (cases "map_of (rev outs) (?k, tk_run_count r)")
    case None
    then have "db' = db2" "r' = r"
      using 2 d by simp_all
    then show ?thesis
      using rows2 None by (auto intro: exI [of _ "tk_mailbox_delivered r"])
  next
    case (Some b)
    show ?thesis
    proof (cases "tk_mailbox_delivered r = b")
      case True
      then have "db' = db2" "r' = r"
        using 2 d Some by simp_all
      then show ?thesis
        using rows2 Some True by (auto intro: exI [of _ "tk_mailbox_delivered r"])
    next
      case False
      then have "update_task_locked (r\<lparr>tk_mailbox_delivered := b\<rparr>) db2 = Inr db'" and r': "r' = r\<lparr>tk_mailbox_delivered := b\<rparr>"
        using 2 d Some by (auto simp: and_then_Inr)
      then show ?thesis
        using rows_update_task_locked [of "r\<lparr>tk_mailbox_delivered := b\<rparr>" db2 db'] rows2 by auto
    qed
  qed
qed

section \<open>Memory mirrors the store\<close>

text \<open>
  What an object in memory may be: its row, or the row normalized by a restart whose own write
  failed.
\<close>

definition mirrors :: "task_db \<Rightarrow> task_record \<Rightarrow> bool" where
  "mirrors db r \<longleftrightarrow> (\<exists>stored. task_at (tk_task_id r) db = Some stored
     \<and> (r = stored \<or> (\<exists>now. r = task_record_for_restart now stored)))"

definition mirrored :: "manager \<Rightarrow> bool" where
  "mirrored m \<longleftrightarrow>
     (\<forall>q r. map_of (tm_tasks m) q = Some r \<longrightarrow> tk_task_id r = q)
     \<and> (\<forall>db. tm_store m = Some db \<longrightarrow> db_inv db \<and> (\<forall>q r. map_of (tm_tasks m) q = Some r \<longrightarrow> mirrors db r))"

lemma mirrored_unchanged: "mirrored m \<Longrightarrow> unchanged m m' \<Longrightarrow> mirrored m'"
  by (auto simp: mirrored_def unchanged_def)

lemma mirrored_commit:
  assumes "frame k owner D m0 m" and "mirrored m0" and "tm_store m = Some db" and "keeps db db'"
    and "tm_store m' = Some db'"
    and "\<And>q. q \<notin> D \<Longrightarrow> map_of (tm_tasks m') q = map_of (tm_tasks m) q"
    and "\<And>q r. q \<in> D \<Longrightarrow> map_of (tm_tasks m') q = Some r \<Longrightarrow> tk_task_id r = q \<and> rows db' q = Some r"
    and "\<And>q. q \<notin> D \<Longrightarrow> rows db' q = rows db q"
  shows "mirrored m'"
proof -
  have m0: "tm_store m0 = Some db" "db_inv db"
    using assms(1-3) by (simp_all add: frame_def mirrored_def)
  have "tk_task_id r = q \<and> mirrors db' r" if r: "map_of (tm_tasks m') q = Some r" for q r
  proof (cases "q \<in> D")
    case True
    then show ?thesis
      using assms(7) [OF True r] by (auto simp: mirrors_def rows_def)
  next
    case False
    then have r0: "map_of (tm_tasks m0) q = Some r" "map_of (tm_tasks m) q = Some r"
      using r assms(1) assms(6) [OF False] by (auto simp: frame_def)
    then have "tk_task_id r = q" "mirrors db r"
      using assms(2) m0 by (auto simp: mirrored_def)
    then show ?thesis
      using assms(8) [OF False] by (auto simp: mirrors_def rows_def)
  qed
  moreover have "db_inv db'"
    using assms(4) m0 by (simp add: keeps_def)
  ultimately show ?thesis
    using assms(5) by (auto simp: mirrored_def)
qed

lemma mirrored_memory_only:
  assumes "frame k owner D m0 m" and "mirrored m0" and "tm_store m = None"
  shows "mirrored m"
proof -
  have "tk_task_id r = q" if "map_of (tm_tasks m) q = Some r" for q r
  proof (cases "q \<in> whole k owner")
    case True
    then show ?thesis
      using frame_present [OF assms(1) True] that by auto
  next
    case False
    then have "map_of (tm_tasks m0) q = Some r"
      using assms(1) that by (auto simp: frame_def)
    then show ?thesis
      using assms(2) by (simp add: mirrored_def)
  qed
  then show ?thesis
    using assms(3) by (simp add: mirrored_def)
qed

lemma mirrored_fields [simp]:
  "mirrored (m\<lparr>tm_reviews := c\<rparr>) = mirrored m" "mirrored (m\<lparr>tm_next_review := i\<rparr>) = mirrored m"
  "mirrored (m\<lparr>tm_ticks := n\<rparr>) = mirrored m" "mirrored (m\<lparr>tm_runs := rs\<rparr>) = mirrored m"
  by (simp_all add: mirrored_def)

text \<open>The row of the record is the object.\<close>

definition in_step :: "pystr \<Rightarrow> manager \<Rightarrow> bool" where
  "in_step k m \<longleftrightarrow> (\<exists>r. map_of (tm_tasks m) k = Some r \<and> (\<forall>db. tm_store m = Some db \<longrightarrow> task_at k db = Some r))"

lemma in_step_fields [simp]:
  "in_step k (m\<lparr>tm_reviews := c\<rparr>) = in_step k m" "in_step k (m\<lparr>tm_runs := rs\<rparr>) = in_step k m"
  by (simp_all add: in_step_def)

section \<open>Durable transitions\<close>

text \<open>The row, its event and its settlement intent after a life cycle transition to \<open>r\<close>.\<close>

definition announced :: "task_record \<Rightarrow> event_row \<Rightarrow> bool" where
  "announced r row \<longleftrightarrow> te_task_id row = tk_task_id r \<and> te_run_count row = tk_run_count r
     \<and> te_event_type row = lifecycle_event_type (tk_state r) \<and> te_created_at row = tk_updated_at r
     \<and> (\<exists>data. lifecycle_event_data r None = Inr data \<and> te_data_json row = serialize_event_data data)"

definition settled_row :: "manager_env \<Rightarrow> bool \<Rightarrow> task_record \<Rightarrow> task_db \<Rightarrow> bool" where
  "settled_row env outbox r db \<longleftrightarrow> (outbox \<longrightarrow>
     (case build_settled_outbox_intent (env_uuid5 env) r of
        None \<Rightarrow> True | Some i \<Rightarrow> \<exists>q \<in> set (db_outbox db). row_matches_intent i q))"

definition durable :: "manager_env \<Rightarrow> bool \<Rightarrow> task_record \<Rightarrow> task_db \<Rightarrow> task_db \<Rightarrow> bool" where
  "durable env outbox r db db' \<longleftrightarrow>
     task_at (tk_task_id r) db' = Some r
     \<and> (\<exists>row es. db_events db' = db_events db @ row # es \<and> announced r row)
     \<and> settled_row env outbox r db'"

lemma keeps_db: "w = (db', x) \<Longrightarrow> keeps db (fst w) \<Longrightarrow> keeps db db'"
  by simp

lemma durable_lifecycle:
  assumes "update_task_with_event r \<lparr>es_event_type = lifecycle_event_type (tk_state r), es_data = data,
      es_created_at = tk_updated_at r\<rparr> intent db = (db', Inr ev)"
    and "lifecycle_event_data r None = Inr data"
    and "intent = (if outbox then build_settled_outbox_intent (env_uuid5 env) r else None)"
  shows "durable env outbox r db db' \<and> db_reviews db' = db_reviews db"
proof -
  obtain db1 db2 where 1: "update_task_locked r db = Inr db1"
    and 2: "appended_event (tk_task_id r) (tk_run_count r) (lifecycle_event_type (tk_state r)) data (tk_updated_at r) db1 = Inr (db2, ev)"
    and 3: "insert_intent_opt intent db2 = Inr db'"
    using update_with_event_parts [OF assms(1)] by auto
  have ev1: "db_events db1 = db_events db" "db_reviews db1 = db_reviews db"
    using 1 by (auto simp: update_task_locked_def split: if_splits)
  have "rows db' (tk_task_id r) = Some r"
    using rows_update_with_event [OF assms(1)] by simp
  moreover have "\<exists>row es. db_events db' = db_events db @ row # es \<and> announced r row"
    using appended_event_Inr [OF 2] insert_intent_Inr [OF 3] ev1 assms(2) by (simp add: announced_def)
  moreover have "settled_row env outbox r db'"
  proof (cases "build_settled_outbox_intent (env_uuid5 env) r")
    case None
    then show ?thesis
      by (simp add: settled_row_def)
  next
    case (Some i)
    have "\<exists>q \<in> set (db_outbox db'). row_matches_intent i q" if outbox
    proof -
      obtain q where "filter (same_outbox_identity i) (db_outbox db') = [q]" "row_matches_intent i q"
        using insert_intent_Inr [OF 3] Some assms(3) \<open>outbox\<close> by auto
      then show ?thesis
        by (metis filter_eq_ConsD in_set_conv_decomp)
    qed
    then show ?thesis
      using Some by (simp add: settled_row_def)
  qed
  moreover have "db_reviews db' = db_reviews db"
    using appended_event_Inr [OF 2] insert_intent_reviews [OF 3] ev1 by simp
  ultimately show ?thesis
    by (simp add: durable_def rows_def)
qed

lemma wp_event_data:
  "(\<And>data. lifecycle_event_data r None = Inr data \<Longrightarrow> Q data m) \<Longrightarrow> (\<And>e. E e m) \<Longrightarrow> wp (event_data r) Q E m"
  by (auto simp: event_data_def wp_lift split: sum.split)

lemma wp_settled_outbox_intent [wp_simps]:
  "wp (settled_outbox_intent env r) Q E m \<longleftrightarrow>
    Q (if tm_settled_outbox m then build_settled_outbox_intent (env_uuid5 env) r else None) m"
  by (simp add: settled_outbox_intent_def wp_get)

lemma wp_save_record:
  assumes "frame k owner {k} m0 m" and "mirrored m0"
  shows "wp (save_record k) (\<lambda>_ m'. mirrored m' \<and> in_step k m' \<and> tm_tasks m' = tm_tasks m)
    (\<lambda>_. frame k owner (whole k owner) m0) m"
  unfolding save_record_def wp_bind
proof (rule wp_the_task_in [OF assms(1)])
  fix r assume r: "map_of (tm_tasks m) k = Some r" "tk_task_id r = k"
  show "wp (op_then (commit (update_task r)) (op_ret ())) (\<lambda>_ m'. mirrored m' \<and> in_step k m' \<and> tm_tasks m' = tm_tasks m)
      (\<lambda>_. frame k owner (whole k owner) m0) m"
    unfolding wp_then wp_ret
  proof (rule wp_commit [OF assms(1)])
    assume "tm_store m = None"
    then show "mirrored m \<and> in_step k m \<and> tm_tasks m = tm_tasks m"
      using mirrored_memory_only [OF assms(1,2)] r by (simp add: in_step_def)
  next
    fix db db' x and m' :: manager
    assume s: "tm_store m = Some db" and w: "update_task r db = (db', Inr x)" and m': "tm_store m' = Some db'" "tm_tasks m' = tm_tasks m"
    have "mirrored m'"
      by (rule mirrored_commit [OF assms(1,2) s keeps_db [OF w keeps_update_task] m'(1)])
        (use m'(2) r rows_update_task [OF w] in auto)
    then show "mirrored m' \<and> in_step k m' \<and> tm_tasks m' = tm_tasks m"
      using m' r fun_cong [OF rows_update_task [OF w], of k] by (simp add: in_step_def rows_def)
  qed simp
qed (simp add: in_whole)

text \<open>The other writes of the record alone.\<close>

lemma wp_save_uncertain:
  assumes "frame k owner {k} m0 m" and "mirrored m0"
  shows "wp (save_uncertain k)
    (\<lambda>_ m'. mirrored m' \<and> in_step k m' \<and> (\<exists>r flag. map_of (tm_tasks m) k = Some r
        \<and> map_of (tm_tasks m') = (map_of (tm_tasks m))(k \<mapsto> r\<lparr>tk_mailbox_delivered := flag\<rparr>)))
    (\<lambda>_. frame k owner (whole k owner) m0) m"
  unfolding save_uncertain_def wp_bind
proof (rule wp_the_task_in [OF assms(1)])
  fix r assume r: "map_of (tm_tasks m) k = Some r" "tk_task_id r = k"
  show "wp (commit (update_uncertain_external_operation r))
      (\<lambda>x. wp (case x of None \<Rightarrow> op_ret () | Some r' \<Rightarrow> edit_task k (\<lambda>_. r'))
        (\<lambda>_ m'. mirrored m' \<and> in_step k m' \<and> (\<exists>r flag. map_of (tm_tasks m) k = Some r
            \<and> map_of (tm_tasks m') = (map_of (tm_tasks m))(k \<mapsto> r\<lparr>tk_mailbox_delivered := flag\<rparr>)))
        (\<lambda>_. frame k owner (whole k owner) m0)) (\<lambda>_. frame k owner (whole k owner) m0) m"
  proof (rule wp_commit [OF assms(1)])
    assume "tm_store m = None"
    then show "wp (case None of None \<Rightarrow> op_ret () | Some r' \<Rightarrow> edit_task k (\<lambda>_. r'))
        (\<lambda>_ m'. mirrored m' \<and> in_step k m' \<and> (\<exists>r flag. map_of (tm_tasks m) k = Some r
            \<and> map_of (tm_tasks m') = (map_of (tm_tasks m))(k \<mapsto> r\<lparr>tk_mailbox_delivered := flag\<rparr>)))
        (\<lambda>_. frame k owner (whole k owner) m0) m"
      using mirrored_memory_only [OF assms] r
        by (auto simp: wp_ret fun_upd_idem in_step_def intro!: exI [of _ "tk_mailbox_delivered r"])
  next
    fix db db' x and m' :: manager
    assume s: "tm_store m = Some db" and w: "update_uncertain_external_operation r db = (db', Inr x)"
      and m': "tm_store m' = Some db'" "tm_tasks m' = tm_tasks m"
    have "db_inv db"
      using assms s by (simp add: frame_def mirrored_def)
    note u = rows_uncertain [OF this w]
    let ?m = "m'\<lparr>tm_tasks := AList.update k x (tm_tasks m')\<rparr>"
    have at: "task_at k db' = Some x"
      using fun_cong [OF conjunct1 [OF u], of k] r by (simp add: rows_def)
    have "mirrored ?m"
      by (rule mirrored_commit [OF assms s keeps_db [OF w keeps_uncertain]])
        (use m' r u in \<open>auto simp: update_conv'\<close>)
    then show "wp (case Some x of None \<Rightarrow> op_ret () | Some r' \<Rightarrow> edit_task k (\<lambda>_. r'))
        (\<lambda>_ m'. mirrored m' \<and> in_step k m' \<and> (\<exists>r flag. map_of (tm_tasks m) k = Some r
            \<and> map_of (tm_tasks m') = (map_of (tm_tasks m))(k \<mapsto> r\<lparr>tk_mailbox_delivered := flag\<rparr>)))
        (\<lambda>_. frame k owner (whole k owner) m0) m'"
      using m' r at conjunct2 [OF u] by (auto simp: wp_edit_task update_conv' in_step_def)
  qed simp
qed (simp add: in_whole)

lemma wp_save_rejected:
  assumes "frame k owner {k} m0 m" and "mirrored m0"
  shows "wp (save_rejected env k) (\<lambda>_ m'. mirrored m' \<and> in_step k m' \<and> tm_tasks m' = tm_tasks m)
    (\<lambda>_. frame k owner (whole k owner) m0) m"
  unfolding save_rejected_def wp_bind
proof (rule wp_the_task_in [OF assms(1)])
  fix r assume r: "map_of (tm_tasks m) k = Some r" "tk_task_id r = k"
  show "wp (settled_outbox_intent env r)
      (\<lambda>i. wp (op_then (commit (update_rejected_external_operation r i)) (op_ret ()))
        (\<lambda>_ m'. mirrored m' \<and> in_step k m' \<and> tm_tasks m' = tm_tasks m) (\<lambda>_. frame k owner (whole k owner) m0))
      (\<lambda>_. frame k owner (whole k owner) m0) m"
    unfolding wp_settled_outbox_intent wp_then wp_ret
  proof (rule wp_commit [OF assms(1)])
    assume "tm_store m = None"
    then show "mirrored m \<and> in_step k m \<and> tm_tasks m = tm_tasks m"
      using mirrored_memory_only [OF assms] r by (simp add: in_step_def)
  next
    fix db db' x and m' :: manager
    assume s: "tm_store m = Some db" and m': "tm_store m' = Some db'" "tm_tasks m' = tm_tasks m"
      and w: "update_rejected_external_operation r
          (if tm_settled_outbox m then build_settled_outbox_intent (env_uuid5 env) r else None) db = (db', Inr x)"
    have "mirrored m'"
      by (rule mirrored_commit [OF assms s keeps_db [OF w keeps_rejected] m'(1)])
        (use m'(2) r rows_rejected [OF w] in auto)
    then show "mirrored m' \<and> in_step k m' \<and> tm_tasks m' = tm_tasks m"
      using m' r fun_cong [OF rows_rejected [OF w], of k] by (simp add: in_step_def rows_def)
  qed simp
qed (simp add: in_whole)

lemma wp_save_lifecycle:
  assumes "frame k owner {k} m0 m" and "mirrored m0"
  shows "wp (save_lifecycle env k)
    (\<lambda>_ m'. mirrored m' \<and> in_step k m' \<and> tm_tasks m' = tm_tasks m \<and>
      (\<forall>r db. map_of (tm_tasks m) k = Some r \<longrightarrow> tm_store m = Some db \<longrightarrow>
        (\<exists>db'. tm_store m' = Some db' \<and> durable env (tm_settled_outbox m) r db db' \<and> db_reviews db' = db_reviews db)))
    (\<lambda>_. frame k owner (whole k owner) m0) m"
proof (cases "tm_store m")
  case None
  show ?thesis
    unfolding save_lifecycle_def wp_bind wp_get
    using wp_conseq [OF wp_save_record [OF assms]] None by auto
next
  case (Some db)
  obtain r where r: "map_of (tm_tasks m) k = Some r" "tk_task_id r = k"
    using frame_present [OF assms(1), of k] by (auto simp: in_whole)
  show ?thesis
    unfolding save_lifecycle_def wp_bind wp_get Some option.case wp_the_task r(1)
  proof (rule wp_event_data)
    show "frame k owner (whole k owner) m0 m"
      by (rule frame_whole [OF assms(1)])
    fix data assume data: "lifecycle_event_data r None = Inr data"
    let ?e = "\<lparr>es_event_type = lifecycle_event_type (tk_state r), es_data = data, es_created_at = tk_updated_at r\<rparr>"
    let ?i = "if tm_settled_outbox m then build_settled_outbox_intent (env_uuid5 env) r else None"
    show "wp (settled_outbox_intent env r) (\<lambda>intent. wp (op_then (commit (update_task_with_event r ?e intent)) (op_ret ()))
        (\<lambda>_ m'. mirrored m' \<and> in_step k m' \<and> tm_tasks m' = tm_tasks m \<and>
          (\<forall>ra dba. Some r = Some ra \<longrightarrow> Some db = Some dba \<longrightarrow>
            (\<exists>db'. tm_store m' = Some db' \<and> durable env (tm_settled_outbox m) ra dba db' \<and> db_reviews db' = db_reviews dba)))
        (\<lambda>_. frame k owner (whole k owner) m0)) (\<lambda>_. frame k owner (whole k owner) m0) m"
      unfolding wp_settled_outbox_intent wp_then wp_ret
    proof (rule wp_commit [OF assms(1)])
      fix dba db' x and m' :: manager
      assume s: "tm_store m = Some dba" and w: "update_task_with_event r ?e ?i dba = (db', Inr x)"
        and m': "tm_store m' = Some db'" "tm_tasks m' = tm_tasks m"
      have "mirrored m'"
        by (rule mirrored_commit [OF assms s keeps_db [OF w keeps_update_task_with_event] m'(1)])
          (use m'(2) r rows_update_with_event [OF w] in auto)
      then show "mirrored m' \<and> in_step k m' \<and> tm_tasks m' = tm_tasks m \<and>
          (\<forall>ra dba. Some r = Some ra \<longrightarrow> Some db = Some dba \<longrightarrow>
            (\<exists>db'. tm_store m' = Some db' \<and> durable env (tm_settled_outbox m) ra dba db' \<and> db_reviews db' = db_reviews dba))"
        using m' durable_lifecycle [OF w data refl] s Some r by (auto simp: in_step_def durable_def)
    qed (use Some in auto)
  qed
qed

end
