(* ===== verification/Manager_Reviews.thy ===== *)
theory Manager_Reviews
  imports Manager_Transactions
begin

text \<open>
  Weakest preconditions of the review part of a transition (projecting the earliest review of the
  tree onto its root, taking a review in, dropping one) and of loading records from the store.
\<close>

section \<open>Reviews inside a transaction\<close>

lemma wp_project_root_review:
  assumes "frame k owner D m0 m" and "owner = None \<Longrightarrow> rootless k m0"
    and "owner = None \<Longrightarrow> Q (None, False) m"
    and "\<And>q rr. owner = Some q \<Longrightarrow> map_of (tm_tasks m) q = Some rr
      \<Longrightarrow> same_review (tk_pending_review rr) (projected_review q vs) \<Longrightarrow> Q (Some q, False) m"
    and "\<And>q rr now m'. owner = Some q \<Longrightarrow> map_of (tm_tasks m) q = Some rr
      \<Longrightarrow> map_of (tm_tasks m') = (map_of (tm_tasks m))(q \<mapsto> rr\<lparr>tk_pending_review := projected_review q vs, tk_updated_at := now\<rparr>)
      \<Longrightarrow> frame k owner (insert q D) m0 m' \<Longrightarrow> Q (Some q, True) m'"
  shows "wp (project_root_review env k vs) Q E m"
  unfolding project_root_review_def wp_bind
proof (rule wp_root_record [OF assms(1,2)], assumption, cases owner)
  case None
  then show "wp (case owner of None \<Rightarrow> op_ret (None, False) | Some root_id \<Rightarrow>
         op_bind (the_task root_id) (\<lambda>rr.
         let projected = projected_review root_id vs
         in if same_review (tk_pending_review rr) projected then op_ret (Some root_id, False)
            else op_bind (tick env) (\<lambda>now.
              op_then (edit_task root_id (\<lambda>r. r\<lparr>tk_pending_review := projected, tk_updated_at := now\<rparr>))
                (op_ret (Some root_id, True))))) Q E m"
    using assms(3) by (simp add: wp_ret)
next
  case (Some q)
  then have q: "q \<in> whole k owner"
    by (simp add: in_whole)
  show "wp (case owner of None \<Rightarrow> op_ret (None, False) | Some root_id \<Rightarrow>
         op_bind (the_task root_id) (\<lambda>rr.
         let projected = projected_review root_id vs
         in if same_review (tk_pending_review rr) projected then op_ret (Some root_id, False)
            else op_bind (tick env) (\<lambda>now.
              op_then (edit_task root_id (\<lambda>r. r\<lparr>tk_pending_review := projected, tk_updated_at := now\<rparr>))
                (op_ret (Some root_id, True))))) Q E m"
    unfolding Some option.case wp_bind Let_def
  proof (rule wp_the_task_in [OF assms(1) q])
    fix rr assume rr: "map_of (tm_tasks m) q = Some rr"
    let ?m = "m\<lparr>tm_ticks := Suc (tm_ticks m)\<rparr>"
    have f: "frame k owner D m0 ?m"
      using assms(1) by simp
    have "wp (edit_task q (\<lambda>r. r\<lparr>tk_pending_review := projected_review q vs, tk_updated_at := now\<rparr>))
        (\<lambda>_. Q (Some q, True)) E ?m" for now
      by (rule wp_edit_task_in [OF f q]; (rule assms(5) [OF Some rr])?) (use rr in auto)
    then show "wp (if same_review (tk_pending_review rr) (projected_review q vs) then op_ret (Some q, False)
        else op_bind (tick env) (\<lambda>now. op_then (edit_task q (\<lambda>r. r\<lparr>tk_pending_review := projected_review q vs, tk_updated_at := now\<rparr>))
          (op_ret (Some q, True)))) Q E m"
      using assms(4) [OF Some rr] by (simp add: wp_simps del: wp_edit_task)
  qed
qed

lemma wp_transition_events:
  assumes "frame k owner D m0 m" and "map_of (tm_tasks m) k = Some r"
    and "\<And>data tail. (changed \<Longrightarrow> lifecycle_event_data r None = Inr data) \<Longrightarrow>
      Q ((if changed then [(r, \<lparr>es_event_type = lifecycle_event_type (tk_state r), es_data = data,
                               es_created_at = tk_updated_at r\<rparr>)] else []) @ tail) m"
  shows "wp (transition_events changed k owner ch) Q (\<lambda>_. frame k owner (whole k owner) m0) m"
proof -
  let ?E = "\<lambda>_. frame k owner (whole k owner) m0"
  have e: "frame k owner (whole k owner) m0 m"
    by (rule frame_whole [OF assms(1)])
  let ?own = "\<lambda>data. [(r, \<lparr>es_event_type = lifecycle_event_type (tk_state r), es_data = data, es_created_at = tk_updated_at r\<rparr>)]"
  let ?rest = "\<lambda>own. case owner of
       Some root_id \<Rightarrow>
         if ch \<and> root_id \<noteq> k then
           op_bind (the_task root_id) (\<lambda>rr.
           op_bind (event_data rr) (\<lambda>data.
             op_ret (own @ [(rr, \<lparr>es_event_type = (if tk_pending_review rr \<noteq> None
                                    then str ''task.review_requested'' else lifecycle_event_type (tk_state rr)),
                                  es_data = data, es_created_at = tk_updated_at rr\<rparr>)])))
         else op_ret own
     | None \<Rightarrow> op_ret own"
  have rest: "wp (?rest own) Q ?E m" if own: "\<And>tail. Q (own @ tail) m" for own
  proof (cases "\<exists>q. owner = Some q \<and> ch \<and> q \<noteq> k")
    case False
    then show ?thesis
      using own [of "[]"] by (auto simp: wp_ret split: option.split)
  next
    case True
    then obtain q where q: "owner = Some q" "ch" "q \<noteq> k"
      by blast
    have "wp (the_task q) (\<lambda>rr. wp (event_data rr) (\<lambda>data. Q (own @ [(rr, \<lparr>es_event_type = (if tk_pending_review rr \<noteq> None
                then str ''task.review_requested'' else lifecycle_event_type (tk_state rr)),
              es_data = data, es_created_at = tk_updated_at rr\<rparr>)])) ?E) ?E m"
      by (rule wp_the_task_in [OF assms(1)]) (use q own e in \<open>auto simp: in_whole intro: wp_event_data\<close>)
    then show ?thesis
      using q by (simp add: wp_bind wp_ret)
  qed
  show ?thesis
  proof (cases changed)
    case False
    then show ?thesis
      using rest [of "[]"] assms(3) by (simp add: transition_events_def wp_bind wp_ret wp_the_task assms(2))
  next
    case True
    have "wp (event_data r) (\<lambda>data. wp (?rest (?own data)) Q ?E) ?E m"
      by (rule wp_event_data) (use rest assms(3) True e in auto)
    then show ?thesis
      using True by (simp add: transition_events_def wp_bind wp_ret wp_the_task assms(2))
  qed
qed

lemma durable_review_transition:
  assumes "update_review_transition r v x ((r, \<lparr>es_event_type = lifecycle_event_type (tk_state r), es_data = data,
      es_created_at = tk_updated_at r\<rparr>) # tail) intent db = (db', Inr evs)"
    and "lifecycle_event_data r None = Inr data"
    and "intent = (if outbox then build_settled_outbox_intent (env_uuid5 env) r else None)"
    and "case x of None \<Rightarrow> True | Some y \<Rightarrow> tk_task_id y \<noteq> tk_task_id r"
  shows "durable env outbox r db db'"
proof -
  let ?e = "\<lparr>es_event_type = lifecycle_event_type (tk_state r), es_data = data, es_created_at = tk_updated_at r\<rparr>"
  obtain db1 db2 db3 db4 where 1: "update_task_locked r db = Inr db1"
    and 2: "replace_review_locked (tk_task_id r) v db1 = Inr db2"
    and 3: "(case x of None \<Rightarrow> Inr db2
        | Some y \<Rightarrow> if tk_task_id y \<noteq> tk_task_id r then update_task_locked y db2 else Inr db2) = Inr db3"
    and 4: "append_all_events ((r, ?e) # tail) db3 = Inr (db4, evs)" and 5: "insert_intent_opt intent db4 = Inr db'"
    using review_transition_parts [OF assms(1)] .
  have "db_events db3 = db_events db"
  proof -
    have "db_events db1 = db_events db" "db_events db2 = db_events db1"
      using 1 2 by (auto simp: update_task_locked_def replace_review_locked_def and_then_Inr ingest_review_def Let_def
          split: if_splits option.splits)
    moreover have "db_events db3 = db_events db2"
      using 3 by (auto simp: update_task_locked_def split: if_splits option.splits)
    ultimately show ?thesis
      by simp
  qed
  moreover have "\<exists>row es. db_events db4 = db_events db3 @ row # es \<and> announced r row"
  proof -
    obtain d ev evs' where a: "appended_event (tk_task_id r) (tk_run_count r) (lifecycle_event_type (tk_state r)) data
        (tk_updated_at r) db3 = Inr (d, ev)" and b: "append_all_events tail d = Inr (db4, evs')"
      using 4 by (auto simp: and_then_Inr)
    have "\<exists>es. db_events db4 = db_events d @ es" if "append_all_events tail d = Inr (db4, evs')" for d db4 evs'
      using that
    proof (induction tail arbitrary: d db4 evs')
      case (Cons p tail)
      then obtain d1 ev1 ev2 where "appended_event (tk_task_id (fst p)) (tk_run_count (fst p)) (es_event_type (snd p))
          (es_data (snd p)) (es_created_at (snd p)) d = Inr (d1, ev1)" "append_all_events tail d1 = Inr (db4, ev2)"
        by (cases p) (auto simp: and_then_Inr)
      then show ?case
        using Cons.IH appended_event_Inr by fastforce
    qed simp
    then show ?thesis
      using appended_event_Inr [OF a] b assms(2) by (fastforce simp: announced_def)
  qed
  moreover have "task_at (tk_task_id r) db' = Some r"
    using fun_cong [OF rows_review_transition [OF assms(1)], of "tk_task_id r"] assms(4)
    by (auto simp: rows_def split: option.splits)
  moreover have "settled_row env outbox r db'"
  proof (cases "build_settled_outbox_intent (env_uuid5 env) r")
    case None
    then show ?thesis
      by (simp add: settled_row_def)
  next
    case (Some i)
    have "\<exists>q \<in> set (db_outbox db'). row_matches_intent i q" if outbox
    proof -
      obtain q where "filter (same_outbox_identity i) (db_outbox db') = [q]" "row_matches_intent i q"
        using insert_intent_Inr [OF 5] Some assms(3) \<open>outbox\<close> by auto
      then show ?thesis
        by (metis filter_eq_ConsD in_set_conv_decomp)
    qed
    then show ?thesis
      using Some by (simp add: settled_row_def)
  qed
  ultimately show ?thesis
    using insert_intent_Inr [OF 5] by (simp add: durable_def)
qed

definition review_written :: "pystr \<Rightarrow> review_record option \<Rightarrow> task_db \<Rightarrow> task_db \<Rightarrow> bool" where
  "review_written k review db db' \<longleftrightarrow> (\<exists>d1 d2. replace_review_locked k review d1 = Inr d2
     \<and> db_reviews d1 = db_reviews db \<and> db_last_review_sequence d1 = db_last_review_sequence db
     \<and> db_reviews db' = db_reviews d2)"

lemma transition_writes_review:
  assumes "update_review_transition r v x es i db = (db', Inr evs)"
  shows "review_written (tk_task_id r) v db db'"
proof -
  obtain db1 db2 db3 db4 where 1: "update_task_locked r db = Inr db1"
    and 2: "replace_review_locked (tk_task_id r) v db1 = Inr db2"
    and 3: "(case x of None \<Rightarrow> Inr db2
        | Some y \<Rightarrow> if tk_task_id y \<noteq> tk_task_id r then update_task_locked y db2 else Inr db2) = Inr db3"
    and 4: "append_all_events es db3 = Inr (db4, evs)" and 5: "insert_intent_opt i db4 = Inr db'"
    using review_transition_parts [OF assms] .
  have "db_reviews db3 = db_reviews db2"
    using 3 update_task_reviews by (auto split: option.splits if_splits)
  then have "db_reviews db' = db_reviews db2"
    using append_all_events_reviews [OF 4] insert_intent_reviews [OF 5] by simp
  then show ?thesis
    unfolding review_written_def using 2 update_task_reviews [OF 1] by blast
qed

lemma wp_changed_root:
  assumes "frame k owner D m0 m"
    and "\<And>x. (case x of None \<Rightarrow> \<not> (ch \<and> (\<exists>q. owner = Some q \<and> q \<noteq> k))
        | Some y \<Rightarrow> ch \<and> owner = Some (tk_task_id y) \<and> tk_task_id y \<noteq> k \<and> map_of (tm_tasks m) (tk_task_id y) = Some y)
      \<Longrightarrow> Q x m"
  shows "wp (changed_root k owner ch) Q E m"
proof (cases "\<exists>q. owner = Some q \<and> ch \<and> q \<noteq> k")
  case False
  then show ?thesis
    using assms(2) [of None] by (auto simp: changed_root_def wp_ret split: option.split)
next
  case True
  then obtain q where q: "owner = Some q" "ch" "q \<noteq> k"
    by blast
  have "wp (the_task q) (\<lambda>rr. Q (Some rr)) E m"
    by (rule wp_the_task_in [OF assms(1)]) (use q assms(2) in \<open>auto simp: in_whole\<close>)
  then show ?thesis
    using q by (simp add: changed_root_def wp_bind wp_ret)
qed

lemma wp_persist_review_transition:
  assumes "frame k owner D m0 m" and "mirrored m0" and r: "map_of (tm_tasks m) k = Some r" "tk_task_id r = k"
    and D: "D = (if ch then insert k (set_option owner) else {k})"
  shows "wp (persist_review_transition env k review owner ch changed)
    (\<lambda>_ m'. mirrored m' \<and> in_step k m' \<and> tm_tasks m' = tm_tasks m \<and>
      (\<forall>db. tm_store m = Some db \<longrightarrow> (\<exists>db'. tm_store m' = Some db' \<and> task_at k db' = Some r
        \<and> (changed \<longrightarrow> durable env (tm_settled_outbox m) r db db') \<and> review_written k review db db')))
    (\<lambda>_. frame k owner (whole k owner) m0) m"
  unfolding persist_review_transition_def wp_bind
proof (rule wp_transition_events [OF assms(1) r(1)])
  fix data tail
  let ?own = "if changed then [(r, \<lparr>es_event_type = lifecycle_event_type (tk_state r), es_data = data,
      es_created_at = tk_updated_at r\<rparr>)] else []"
  let ?Q = "\<lambda>_ m'. mirrored m' \<and> in_step k m' \<and> tm_tasks m' = tm_tasks m \<and>
      (\<forall>db. tm_store m = Some db \<longrightarrow> (\<exists>db'. tm_store m' = Some db' \<and> task_at k db' = Some r
        \<and> (changed \<longrightarrow> durable env (tm_settled_outbox m) r db db') \<and> review_written k review db db'))"
  let ?i = "if tm_settled_outbox m then build_settled_outbox_intent (env_uuid5 env) r else None"
  assume data: "changed \<Longrightarrow> lifecycle_event_data r None = Inr data"
  have commit: "wp (commit (update_review_transition r review x (?own @ tail) ?i)) (\<lambda>_. ?Q ())
      (\<lambda>_. frame k owner (whole k owner) m0) m"
    if x: "case x of None \<Rightarrow> \<not> (ch \<and> (\<exists>q. owner = Some q \<and> q \<noteq> k))
        | Some y \<Rightarrow> ch \<and> owner = Some (tk_task_id y) \<and> tk_task_id y \<noteq> k \<and> map_of (tm_tasks m) (tk_task_id y) = Some y" for x
  proof (rule wp_commit [OF assms(1)])
    assume "tm_store m = None"
    then show "?Q () m"
      using mirrored_memory_only [OF assms(1,2)] r by (simp add: in_step_def)
  next
    fix db db' evs and m' :: manager
    assume s: "tm_store m = Some db" and m': "tm_store m' = Some db'" "tm_tasks m' = tm_tasks m"
      and w: "update_review_transition r review x (?own @ tail) ?i db = (db', Inr evs)"
    note rw = rows_review_transition [OF w]
    have "mirrored m'"
    proof (rule mirrored_commit [OF assms(1,2) s keeps_db [OF w keeps_review_transition] m'(1)])
      fix q rq assume "q \<in> D" "map_of (tm_tasks m') q = Some rq"
      then have q: "q = k \<or> ch \<and> owner = Some q" "map_of (tm_tasks m) q = Some rq"
        using D m'(2) by (auto split: if_splits)
      show "tk_task_id rq = q \<and> rows db' q = Some rq"
      proof (cases "q = k")
        case True
        then show ?thesis
          using q(2) r x rw by (cases x) auto
      next
        case False
        then obtain y where "x = Some y" "tk_task_id y = q" "y = rq"
          using q x by (cases x) auto
        then show ?thesis
          using False r rw by simp
      qed
    next
      fix q assume "q \<notin> D"
      then have "q \<noteq> k" "\<And>y. x = Some y \<Longrightarrow> tk_task_id y \<noteq> q"
        using D x by (auto split: if_splits)
      then show "rows db' q = rows db q"
        using r rw by (cases x) auto
    qed (simp add: m'(2))
    moreover have "task_at k db' = Some r"
      using fun_cong [OF rw, of k] x r by (auto simp: rows_def split: option.splits if_splits)
    moreover have "durable env (tm_settled_outbox m) r db db'" if changed
    proof (rule durable_review_transition [OF _ data [OF that] refl])
      show "update_review_transition r review x ((r, \<lparr>es_event_type = lifecycle_event_type (tk_state r), es_data = data,
          es_created_at = tk_updated_at r\<rparr>) # tail) ?i db = (db', Inr evs)"
        using w that by simp
      show "case x of None \<Rightarrow> True | Some y \<Rightarrow> tk_task_id y \<noteq> tk_task_id r"
        using x r by (auto split: option.splits)
    qed
    ultimately show "?Q () m'"
      using m' transition_writes_review [OF w] r s by (auto simp: in_step_def)
  qed simp
  show "wp (the_task k) (\<lambda>ra. wp (changed_root k owner ch) (\<lambda>rr. wp (settled_outbox_intent env ra)
      (\<lambda>intent. wp (op_then (commit (update_review_transition ra review rr (?own @ tail) intent)) (op_ret ())) ?Q
        (\<lambda>_. frame k owner (whole k owner) m0)) (\<lambda>_. frame k owner (whole k owner) m0))
      (\<lambda>_. frame k owner (whole k owner) m0)) (\<lambda>_. frame k owner (whole k owner) m0) m"
    unfolding wp_the_task r(1) option.case
    by (rule wp_changed_root [OF assms(1)])
      (unfold wp_settled_outbox_intent wp_then wp_ret, erule commit)
qed

text \<open>The reviews of the manager are the table's.\<close>

lemma reviews_of_task:
  assumes "db_inv db"
  shows "list_pending_reviews None (Some k) db = (case row_at rv_task_id k (db_reviews db) of None \<Rightarrow> [] | Some v \<Rightarrow> [v])"
proof -
  have "filter (\<lambda>v. k = rv_task_id v) rows = (case row_at rv_task_id k rows of None \<Rightarrow> [] | Some v \<Rightarrow> [v])"
    if "unique_key rv_task_id rows" for rows
    using that by (induction rows) (auto simp: unique_key_def filter_empty_conv image_iff split: option.splits)
  from this [of "db_reviews db"] show ?thesis
    using assms by (simp add: list_pending_reviews_def db_inv_def reviews_ok_def split: option.splits)
qed

lemma projected_review_cong:
  assumes "mset (filter (\<lambda>v. rv_root_task_id v = q) xs) = mset (filter (\<lambda>v. rv_root_task_id v = q) ys)"
    and "unique_key rv_review_id ys"
  shows "projected_review q xs = projected_review q ys"
proof -
  let ?f = "\<lambda>v. (rv_created_at v, rv_review_id v)" and ?P = "\<lambda>v. rv_root_task_id v = q"
  have u: "unique_key rv_review_id (filter ?P ys)"
    using assms(2) by (rule unique_key_filter)
  have "sort_key ?f (filter ?P xs) = sort_key ?f (filter ?P ys)"
  proof (rule properties_for_sort_key)
    show "mset (sort_key ?f (filter ?P ys)) = mset (filter ?P xs)"
      using assms(1) by simp
    fix v assume "v \<in> set (sort_key ?f (filter ?P ys))"
    then have v: "v \<in> set (filter ?P ys)"
      by simp
    have one: "filter (\<lambda>x. ?f v = ?f x) zs = [v]" if "unique_key rv_review_id zs" "v \<in> set zs" for zs
      using that by (induction zs) (auto simp: unique_key_def filter_empty_conv, metis image_eqI)
    have ux: "unique_key rv_review_id (filter ?P xs)"
    proof -
      have "mset (map rv_review_id (filter ?P xs)) = mset (map rv_review_id (filter ?P ys))"
        using assms(1) by simp
      then show ?thesis
        using u unfolding unique_key_def by (metis mset_eq_imp_distinct_iff)
    qed
    have "v \<in> set (filter ?P xs)"
      using v assms(1) by (metis set_mset_mset)
    then show "filter (\<lambda>x. ?f v = ?f x) (sort_key ?f (filter ?P ys)) = filter (\<lambda>x. ?f v = ?f x) (filter ?P xs)"
    proof -
      have "mset (map rv_review_id (sort_key ?f (filter ?P ys))) = mset (map rv_review_id (filter ?P ys))"
        by simp
      then have "unique_key rv_review_id (sort_key ?f (filter ?P ys))"
        using u unfolding unique_key_def by (metis mset_eq_imp_distinct_iff)
      from one [OF this] one [OF ux] show ?thesis
        using v \<open>v \<in> set (filter ?P xs)\<close> by (simp only: set_sort)
    qed
  qed simp
  then show ?thesis
    by (simp add: projected_review_def)
qed

lemma projected_listed:
  assumes "db_inv db"
  shows "projected_review q (filter P (list_pending_reviews (Some q) None db)) = projected_review q (filter P (db_reviews db))"
proof (rule projected_review_cong)
  show "mset (filter (\<lambda>v. rv_root_task_id v = q) (filter P (list_pending_reviews (Some q) None db)))
      = mset (filter (\<lambda>v. rv_root_task_id v = q) (filter P (db_reviews db)))"
    by (auto simp: list_pending_reviews_def filter_filter_mset intro: filter_mset_cong)
  show "unique_key rv_review_id (filter P (db_reviews db))"
    using assms by (intro unique_key_filter) (simp add: db_inv_def reviews_ok_def)
qed

text \<open>The record apart from the review it shows and the time of that.\<close>

definition same_but_review :: "task_record \<Rightarrow> task_record \<Rightarrow> bool" where
  "same_but_review r r' \<longleftrightarrow> r'\<lparr>tk_pending_review := tk_pending_review r, tk_updated_at := tk_updated_at r\<rparr> = r"

definition root_shows :: "pystr option \<Rightarrow> manager \<Rightarrow> task_db \<Rightarrow> bool" where
  "root_shows owner m db \<longleftrightarrow> (\<forall>q rr. owner = Some q \<longrightarrow> map_of (tm_tasks m) q = Some rr \<longrightarrow>
     same_review (tk_pending_review rr) (projected_review q (db_reviews db)))"

definition cleared :: "manager_env \<Rightarrow> pystr \<Rightarrow> pystr option \<Rightarrow> manager \<Rightarrow> manager \<Rightarrow> bool" where
  "cleared env k owner m m' \<longleftrightarrow> mirrored m' \<and> in_step k m' \<and>
     (\<exists>r r'. map_of (tm_tasks m) k = Some r \<and> map_of (tm_tasks m') k = Some r' \<and> same_but_review r r' \<and>
       (owner \<noteq> Some k \<longrightarrow> tk_pending_review r' = None) \<and>
       (\<forall>db. tm_store m = Some db \<longrightarrow> (\<exists>db'. tm_store m' = Some db'
         \<and> durable env (tm_settled_outbox m) r' db db'
         \<and> db_reviews db' = rows_delete (\<lambda>v. rv_task_id v = k) (db_reviews db)
         \<and> (owner = Some k \<or> row_at rv_task_id k (db_reviews db) \<noteq> None \<longrightarrow> root_shows owner m' db'))))"

lemma same_review_refl [simp]: "same_review x x"
  by (simp add: same_review_def)

lemma clear_without_review:
  assumes "frame k owner {k} m0 m" and "mirrored m0"
    and none: "\<And>db. tm_store m = Some db \<Longrightarrow> row_at rv_task_id k (db_reviews db) = None"
    and r: "map_of (tm_tasks m) k = Some r"
    and m1: "frame k owner {k} m0 m1" "tm_store m1 = tm_store m" "tm_settled_outbox m1 = tm_settled_outbox m"
      "map_of (tm_tasks m1) k = Some r1" "same_but_review r r1" "owner \<noteq> Some k \<longrightarrow> tk_pending_review r1 = None"
    and shows1: "\<And>db. tm_store m = Some db \<Longrightarrow> owner = Some k \<Longrightarrow> same_review (tk_pending_review r1) (projected_review k (db_reviews db))"
  shows "wp (save_lifecycle env k) (\<lambda>_ m'. cleared env k owner m m') (\<lambda>_. frame k owner (whole k owner) m0) m1"
proof (rule wp_conseq [OF wp_save_lifecycle [OF m1(1) assms(2)]])
  fix u m'
  assume post: "mirrored m' \<and> in_step k m' \<and> tm_tasks m' = tm_tasks m1 \<and>
      (\<forall>r db. map_of (tm_tasks m1) k = Some r \<longrightarrow> tm_store m1 = Some db \<longrightarrow>
        (\<exists>db'. tm_store m' = Some db' \<and> durable env (tm_settled_outbox m1) r db db' \<and> db_reviews db' = db_reviews db))"
  have "rows_delete (\<lambda>v. rv_task_id v = k) (db_reviews db) = db_reviews db" if "tm_store m = Some db" for db
    using none [OF that] by (auto simp: rows_delete_def row_at_None filter_id_conv)
  then show "cleared env k owner m m'"
    using post m1 r none shows1 unfolding cleared_def root_shows_def by fastforce
qed assumption

lemma frame_store: "frame k owner D m0 m \<Longrightarrow> frame k owner D' m0 m' \<Longrightarrow> tm_store m' = tm_store m \<and> tm_settled_outbox m' = tm_settled_outbox m"
  by (simp add: frame_def)

lemma owner_root:
  "frame k owner D m0 m \<Longrightarrow> map_of (tm_tasks m) k = Some r \<Longrightarrow> owner = Some q \<Longrightarrow> tk_root_task_id r = q"
  by (auto simp: frame_def scope_def)

lemma owner_self:
  "frame k owner D m0 m \<Longrightarrow> (owner = None \<Longrightarrow> rootless k m0) \<Longrightarrow> map_of (tm_tasks m) k = Some r \<Longrightarrow> tk_task_id r = k
    \<Longrightarrow> owner = Some k \<longleftrightarrow> tk_root_task_id r = k"
  by (auto simp: frame_def scope_def rootless_def split: option.splits)

lemma wp_clear_none:
  assumes f: "frame k owner {k} m0 m" and mir: "mirrored m0" and lost: "owner = None \<Longrightarrow> rootless k m0"
    and none: "\<And>db. tm_store m = Some db \<Longrightarrow> row_at rv_task_id k (db_reviews db) = None"
    and r: "map_of (tm_tasks m) k = Some r" "tk_task_id r = k"
  shows "wp (op_then
      (if tk_task_id r = tk_root_task_id r then
         op_bind (list_reviews (Some (tk_root_task_id r)) None) (\<lambda>reviews.
           op_then (project_root_review env k reviews) (op_ret ()))
       else edit_task k (\<lambda>r. r\<lparr>tk_pending_review := None\<rparr>))
      (save_lifecycle env k)) (\<lambda>_ m'. cleared env k owner m m') (\<lambda>_. frame k owner (whole k owner) m0) m"
proof (cases "tk_root_task_id r = k")
  case False
  then have "owner \<noteq> Some k"
    using owner_self [OF f lost r] by simp
  moreover have "wp (edit_task k (\<lambda>r. r\<lparr>tk_pending_review := None\<rparr>)) (\<lambda>_. wp (save_lifecycle env k)
      (\<lambda>_ m'. cleared env k owner m m') (\<lambda>_. frame k owner (whole k owner) m0)) (\<lambda>_. frame k owner (whole k owner) m0) m"
    by (rule wp_edit_task_in [OF f], (simp_all add: in_whole)[3],
        rule clear_without_review [OF f mir none r(1)])
      (use r \<open>owner \<noteq> Some k\<close> frame_store [OF f] in \<open>auto simp: same_but_review_def\<close>)
  ultimately show ?thesis
    using False r(2) by (simp add: wp_then)
next
  case True
  then have o: "owner = Some k"
    using owner_self [OF f lost r] by simp
  have "wp (list_reviews (Some k) None) (\<lambda>vs. wp (project_root_review env k vs) (\<lambda>_. wp (save_lifecycle env k)
      (\<lambda>_ m'. cleared env k owner m m') (\<lambda>_. frame k owner (whole k owner) m0)) (\<lambda>_. frame k owner (whole k owner) m0))
      (\<lambda>_. frame k owner (whole k owner) m0) m"
  proof (rule wp_list_reviews)
    fix vs c
    let ?m = "m\<lparr>tm_reviews := c\<rparr>"
    assume vs: "\<And>db. tm_store m = Some db \<Longrightarrow> vs = list_pending_reviews (Some k) None db"
    have pv: "projected_review k vs = projected_review k (db_reviews db)" if "tm_store m = Some db" for db
      using projected_listed [of db k "\<lambda>_. True"] f mir that vs [OF that] by (simp add: frame_def mirrored_def)
    have f1: "frame k owner {k} m0 ?m"
      using f by simp
    show "wp (project_root_review env k vs) (\<lambda>_. wp (save_lifecycle env k)
        (\<lambda>_ m'. cleared env k owner m m') (\<lambda>_. frame k owner (whole k owner) m0)) (\<lambda>_. frame k owner (whole k owner) m0) ?m"
    proof (rule wp_project_root_review [OF f1 lost])
      fix q rr assume "owner = Some q" "map_of (tm_tasks ?m) q = Some rr" "same_review (tk_pending_review rr) (projected_review q vs)"
      then show "wp (save_lifecycle env k) (\<lambda>_ m'. cleared env k owner m m') (\<lambda>_. frame k owner (whole k owner) m0) ?m"
        by (intro clear_without_review [OF f mir none r(1) f1]) (use o r pv in \<open>auto simp: same_but_review_def\<close>)
    next
      fix q rr now and m' :: manager
      assume "owner = Some q" "map_of (tm_tasks ?m) q = Some rr" "frame k owner (insert q {k}) m0 m'"
        "map_of (tm_tasks m') = (map_of (tm_tasks ?m))(q \<mapsto> rr\<lparr>tk_pending_review := projected_review q vs, tk_updated_at := now\<rparr>)"
      then show "wp (save_lifecycle env k) (\<lambda>_ m'. cleared env k owner m m') (\<lambda>_. frame k owner (whole k owner) m0) m'"
        by (intro clear_without_review [OF f mir none r(1), of m'])
          (use o r pv frame_store [OF f] in \<open>auto simp: same_but_review_def\<close>)
    qed (use o in simp_all)
  qed
  then show ?thesis
    using True r(2) by (simp add: wp_then wp_bind wp_ret)
qed

lemma wp_clear_some:
  assumes f: "frame k owner {k} m0 m" and mir: "mirrored m0" and lost: "owner = None \<Longrightarrow> rootless k m0"
    and v: "\<And>db. tm_store m = Some db \<Longrightarrow> row_at rv_task_id k (db_reviews db) = Some v"
    and r: "map_of (tm_tasks m) k = Some r" "tk_task_id r = k"
  shows "wp (op_then (edit_task k (\<lambda>r. r\<lparr>tk_pending_review := None\<rparr>))
         (op_bind (list_reviews (Some (tk_root_task_id r)) None) (\<lambda>reviews.
          op_bind (project_root_review env k (filter (\<lambda>w. rv_review_id w \<noteq> rv_review_id v) reviews))
            (\<lambda>(owner, root_changed).
          op_then (persist_review_transition env k None owner root_changed True)
            (forget_review (rv_review_id v)))))) (\<lambda>_ m'. cleared env k owner m m')
    (\<lambda>_. frame k owner (whole k owner) m0) m"
proof -
  let ?E = "\<lambda>_. frame k owner (whole k owner) m0" and ?C = "\<lambda>_ m'. cleared env k owner m m'"
  let ?R = "\<lambda>w. rv_review_id w \<noteq> rv_review_id v"
  have inv: "db_inv db" if "tm_store m = Some db" for db
    using f mir that by (simp add: frame_def mirrored_def)
  have others: "filter ?R (db_reviews db) = rows_delete (\<lambda>w. rv_task_id w = k) (db_reviews db)" if s: "tm_store m = Some db" for db
  proof -
    have "rv_review_id w \<noteq> rv_review_id v \<longleftrightarrow> rv_task_id w \<noteq> k" if "w \<in> set (db_reviews db)" for w
      using row_at_SomeD [OF v [OF s]] inv [OF s] that unique_key_same [of rv_review_id "db_reviews db" w v]
        unique_key_same [of rv_task_id "db_reviews db" w v] by (auto simp: db_inv_def reviews_ok_def)
    then show ?thesis
      unfolding rows_delete_def by (rule filter_cong [OF refl])
  qed
  have persist: "wp (persist_review_transition env k None owner ch True) (\<lambda>_. wp (forget_review (rv_review_id v)) ?C ?E) ?E m2"
    if m2: "frame k owner D m0 m2" "D = (if ch then insert k (set_option owner) else {k})"
      "map_of (tm_tasks m2) k = Some r2" "same_but_review r r2" "owner \<noteq> Some k \<longrightarrow> tk_pending_review r2 = None"
      and shows2: "\<And>db. tm_store m = Some db \<Longrightarrow> root_shows owner m2 (db\<lparr>db_reviews := rows_delete (\<lambda>w. rv_task_id w = k) (db_reviews db)\<rparr>)"
    for ch D m2 r2
  proof (rule wp_conseq [OF wp_persist_review_transition [OF m2(1) mir m2(3) _ m2(2)]])
    have st: "tm_store m2 = tm_store m" "tm_settled_outbox m2 = tm_settled_outbox m"
      using frame_store [OF f m2(1)] by simp_all
    fix u m' assume post: "mirrored m' \<and> in_step k m' \<and> tm_tasks m' = tm_tasks m2 \<and>
      (\<forall>db. tm_store m2 = Some db \<longrightarrow> (\<exists>db'. tm_store m' = Some db' \<and> task_at k db' = Some r2
        \<and> (True \<longrightarrow> durable env (tm_settled_outbox m2) r2 db db') \<and> review_written k None db db'))"
    have "review_written k None db db' \<Longrightarrow> db_reviews db' = rows_delete (\<lambda>w. rv_task_id w = k) (db_reviews db)" for db db'
      by (auto simp: review_written_def replace_review_locked_def)
    then show "wp (forget_review (rv_review_id v)) ?C ?E m'"
      using post m2(3,4,5) r(1) st shows2 by (fastforce simp: forget_review_def wp_modify cleared_def root_shows_def)
  next
    show "tk_task_id r2 = k"
      using frame_present [OF m2(1), of k] m2(3) by (auto simp: in_whole)
  qed
  show ?thesis
    unfolding wp_then wp_bind
  proof (rule wp_edit_task_in [OF f])
    fix ra and m1 :: manager
    assume m1: "map_of (tm_tasks m) k = Some ra" "map_of (tm_tasks m1) = (map_of (tm_tasks m))(k \<mapsto> ra\<lparr>tk_pending_review := None\<rparr>)"
      "frame k owner (insert k {k}) m0 m1"
    show "wp (list_reviews (Some (tk_root_task_id r)) None)
      (\<lambda>vs. wp (project_root_review env k (filter ?R vs)) (\<lambda>x. wp (case x of (owner, root_changed) \<Rightarrow>
          op_then (persist_review_transition env k None owner root_changed True) (forget_review (rv_review_id v))) ?C ?E) ?E) ?E m1"
    proof (rule wp_list_reviews)
      fix vs c
      let ?m = "m1\<lparr>tm_reviews := c\<rparr>"
      have st: "tm_store m1 = tm_store m"
        using frame_store [OF f m1(3)] by simp
      assume vs: "\<And>db. tm_store m1 = Some db \<Longrightarrow> vs = list_pending_reviews (Some (tk_root_task_id r)) None db"
      have pv: "projected_review q (filter ?R vs) = projected_review q (rows_delete (\<lambda>w. rv_task_id w = k) (db_reviews db))"
        if "tm_store m = Some db" "owner = Some q" for db q
        using projected_listed [OF inv [OF that(1)], of q ?R] vs that owner_root [OF f r(1)] others st by simp
      have f1: "frame k owner {k} m0 ?m"
        using m1(3) by simp
      show "wp (project_root_review env k (filter ?R vs)) (\<lambda>x. wp (case x of (owner, root_changed) \<Rightarrow>
          op_then (persist_review_transition env k None owner root_changed True) (forget_review (rv_review_id v))) ?C ?E) ?E ?m"
      proof (rule wp_project_root_review [OF f1 lost])
        assume o: "owner = None"
        show "wp (case (None, False) of (owner, root_changed) \<Rightarrow> op_then (persist_review_transition env k None owner root_changed True)
            (forget_review (rv_review_id v))) ?C ?E ?m"
          using persist [OF f1, of False] m1 r(1) o by (simp add: wp_then same_but_review_def root_shows_def)
      next
        fix q rr assume q: "owner = Some q" "map_of (tm_tasks ?m) q = Some rr" "same_review (tk_pending_review rr) (projected_review q (filter ?R vs))"
        have "wp (persist_review_transition env k None owner False True) (\<lambda>_. wp (forget_review (rv_review_id v)) ?C ?E) ?E ?m"
          by (rule persist [OF f1, of False]) (use m1 r(1) q pv in \<open>auto simp: same_but_review_def root_shows_def\<close>)
        then show "wp (case (Some q, False) of (owner, root_changed) \<Rightarrow> op_then (persist_review_transition env k None owner root_changed True)
            (forget_review (rv_review_id v))) ?C ?E ?m"
          using q(1) by (simp add: wp_then)
      next
        fix q rr now and m' :: manager
        assume q: "owner = Some q" "map_of (tm_tasks ?m) q = Some rr" "frame k owner (insert q {k}) m0 m'"
          "map_of (tm_tasks m') = (map_of (tm_tasks ?m))(q \<mapsto> rr\<lparr>tk_pending_review := projected_review q (filter ?R vs), tk_updated_at := now\<rparr>)"
        obtain r2 where r2: "map_of (tm_tasks m') k = Some r2" "same_but_review r r2"
          "owner \<noteq> Some k \<longrightarrow> tk_pending_review r2 = None"
          using q m1 r(1) by (cases "q = k") (auto simp: same_but_review_def)
        have "wp (persist_review_transition env k None owner True True) (\<lambda>_. wp (forget_review (rv_review_id v)) ?C ?E) ?E m'"
          by (rule persist [OF q(3) _ r2]) (use q pv in \<open>auto simp: root_shows_def\<close>)
        then show "wp (case (Some q, True) of (owner, root_changed) \<Rightarrow> op_then (persist_review_transition env k None owner root_changed True)
            (forget_review (rv_review_id v))) ?C ?E m'"
          using q(1) by (simp add: wp_then)
      qed
    qed
  qed (simp_all add: in_whole)
qed

lemma wp_clear_pending_review:
  assumes f: "frame k owner {k} m0 m" and mir: "mirrored m0" and lost: "owner = None \<Longrightarrow> rootless k m0"
  shows "wp (clear_pending_review_and_save env k) (\<lambda>_ m'. cleared env k owner m m')
    (\<lambda>_. frame k owner (whole k owner) m0) m"
  unfolding clear_pending_review_and_save_def wp_bind
proof (rule wp_review_for_task)
  fix v c
  let ?m = "m\<lparr>tm_reviews := c\<rparr>"
  assume v: "\<And>db. tm_store m = Some db \<Longrightarrow> v = (case list_pending_reviews None (Some k) db of [] \<Rightarrow> None | w # _ \<Rightarrow> Some w)"
  have row: "row_at rv_task_id k (db_reviews db) = v" if "tm_store m = Some db" for db
  proof -
    have "db_inv db"
      using f mir that by (simp add: frame_def mirrored_def)
    then show ?thesis
      using v [OF that] reviews_of_task [of db k] by (simp split: option.splits)
  qed
  obtain r where r: "map_of (tm_tasks ?m) k = Some r" "tk_task_id r = k"
    using frame_present [OF f, of k] by (auto simp: in_whole)
  have f1: "frame k owner {k} m0 ?m"
    using f by simp
  have eq: "cleared env k owner ?m = cleared env k owner m"
    by (simp add: cleared_def fun_eq_iff)
  show "wp (the_task k) (\<lambda>r. wp (case v of
       None \<Rightarrow>
         op_then
           (if tk_task_id r = tk_root_task_id r then
              op_bind (list_reviews (Some (tk_root_task_id r)) None) (\<lambda>reviews.
                op_then (project_root_review env k reviews) (op_ret ()))
            else edit_task k (\<lambda>r. r\<lparr>tk_pending_review := None\<rparr>))
           (save_lifecycle env k)
     | Some v \<Rightarrow>
         op_then (edit_task k (\<lambda>r. r\<lparr>tk_pending_review := None\<rparr>))
         (op_bind (list_reviews (Some (tk_root_task_id r)) None) (\<lambda>reviews.
          op_bind (project_root_review env k (filter (\<lambda>w. rv_review_id w \<noteq> rv_review_id v) reviews))
            (\<lambda>(owner, root_changed).
          op_then (persist_review_transition env k None owner root_changed True)
            (forget_review (rv_review_id v))))))
      (\<lambda>_ m'. cleared env k owner m m') (\<lambda>_. frame k owner (whole k owner) m0))
      (\<lambda>_. frame k owner (whole k owner) m0) ?m"
  proof (cases v)
    case None
    show ?thesis
      unfolding wp_the_task r(1) option.case None
      by (rule wp_conseq [OF wp_clear_none [OF f1 mir lost _ r]]) (use row None in \<open>simp_all add: eq\<close>)
  next
    case (Some w)
    show ?thesis
      unfolding wp_the_task r(1) option.case Some
      by (rule wp_conseq [OF wp_clear_some [OF f1 mir lost _ r]]) (use row Some in \<open>simp_all add: eq\<close>)
  qed
qed

section \<open>Loading\<close>

lemma wp_commit_plain:
  assumes "rolls_back w"
    and "\<And>x m'. tm_tasks m' = tm_tasks m \<Longrightarrow> Q x m'"
    and "\<And>e m'. tm_tasks m' = tm_tasks m \<Longrightarrow> tm_store m' = tm_store m \<Longrightarrow> E e m'"
  shows "wp (commit w) Q E m"
proof (cases "tm_store m")
  case None
  then show ?thesis
    using assms(2) by (simp add: wp_def commit_def)
next
  case (Some db)
  obtain db' res where w: "w db = (db', res)"
    by (cases "w db")
  have "db' = db" if "res = Inl e" for e
    using assms(1) w that by (auto simp: rolls_back_def)
  then show ?thesis
    using assms(2,3) w Some by (cases res) (simp_all add: wp_def commit_def Let_def)
qed

lemma saves_fail_clean:
  assumes "map_of (tm_tasks m) q = Some r"
  shows "wp (save_uncertain q) (\<lambda>_ _. True) (\<lambda>_ m'. tm_tasks m' = tm_tasks m \<and> tm_store m' = tm_store m) m"
    and "wp (save_lifecycle env q) (\<lambda>_ _. True) (\<lambda>_ m'. tm_tasks m' = tm_tasks m \<and> tm_store m' = tm_store m) m"
  unfolding save_uncertain_def save_lifecycle_def save_record_def wp_bind wp_the_task assms option.case wp_get
  using assms
  by (auto simp: wp_bind wp_then wp_ret wp_settled_outbox_intent wp_edit_task wp_the_task split: option.split
      intro!: wp_commit_plain wp_event_data)

lemma mirrored_put:
  assumes "mirrored m" and "tm_store m = Some db" and "task_at q db = Some stored"
    and "map_of tasks = (map_of (tm_tasks m))(q \<mapsto> task_record_for_restart now stored)"
  shows "mirrored (m\<lparr>tm_ticks := n, tm_tasks := tasks\<rparr>)"
proof -
  have "tk_task_id stored = q"
    using row_at_SomeD assms(3) by (fastforce simp: task_at_def)
  moreover have "tk_task_id (task_record_for_restart now stored) = tk_task_id stored"
    by (auto simp: task_record_for_restart_def split: route_kind.split option.split)
  ultimately show ?thesis
    using assms by (auto simp: mirrored_def mirrors_def)
qed

lemma restart_id [simp]:
  "tk_task_id (task_record_for_restart now r) = tk_task_id r"
  "tk_root_task_id (task_record_for_restart now r) = tk_root_task_id r"
  by (auto simp: task_record_for_restart_def split: route_kind.split option.split)

lemma wp_restore:
  assumes mir: "mirrored m" and db: "tm_store m = Some db" and row: "task_at q db = Some stored"
    and Q: "\<And>r m'. mirrored m' \<Longrightarrow> map_of (tm_tasks m') q = Some r
      \<Longrightarrow> (\<And>p. p \<noteq> q \<Longrightarrow> map_of (tm_tasks m') p = map_of (tm_tasks m) p) \<Longrightarrow> Q r m'"
    and E: "\<And>e m'. mirrored m' \<Longrightarrow> E e m'"
  shows "wp (restore_stored_record env stored) Q E m"
proof -
  let ?n = "env_clock env (tm_ticks m)"
  let ?r = "task_record_for_restart ?n stored"
  have id: "tk_task_id stored = q"
    using row_at_SomeD row by (fastforce simp: task_at_def)
  let ?m = "m\<lparr>tm_ticks := Suc (tm_ticks m), tm_tasks := AList.update q ?r (tm_tasks m)\<rparr>"
  have m1: "mirrored ?m"
    by (rule mirrored_put [OF mir db row]) (simp add: update_conv')
  have at: "map_of (tm_tasks ?m) q = Some ?r"
    by (simp add: update_conv')
  have "scope q None ?m"
    using at id by (simp add: scope_def)
  then have f: "frame q None {q} ?m ?m"
    using frame_widen [OF frame_refl] by (simp add: in_whole)
  have fin: "wp (the_task q) Q E m'"
    if "mirrored m'" "\<And>p. p \<noteq> q \<Longrightarrow> map_of (tm_tasks m') p = map_of (tm_tasks ?m) p" "map_of (tm_tasks m') q \<noteq> None" for m'
    using that(3) Q [OF that(1)] that(2) by (auto simp: wp_the_task update_conv')
  have fail: "E e m'" if "tm_tasks m' = tm_tasks ?m \<and> tm_store m' = tm_store ?m" for e m'
    using m1 that by (intro E) (auto simp: mirrored_def)
  have uncertain: "wp (save_uncertain q) (\<lambda>_. wp (the_task q) Q E) E ?m"
    by (rule wp_conseq [OF wp_conj [OF wp_save_uncertain [OF f m1] saves_fail_clean(1) [OF at]]])
      (use fin fail in auto)
  have lifecycle: "wp (save_lifecycle env q) (\<lambda>_. wp (the_task q) Q E) E ?m"
    by (rule wp_conseq [OF wp_conj [OF wp_save_lifecycle [OF f m1] saves_fail_clean(2) [OF at]]])
      (use fin fail at in auto)
  have "wp (the_task q) Q E ?m"
    using fin [OF m1] at by simp
  then show ?thesis
    using uncertain lifecycle id
    by (simp add: restore_stored_record_def Let_def wp_bind wp_then wp_tick wp_when put_task_def wp_modify)
qed

text \<open>The record is in memory, and its root too.\<close>

definition loaded :: "pystr \<Rightarrow> manager \<Rightarrow> bool" where
  "loaded k m \<longleftrightarrow> (\<exists>r. map_of (tm_tasks m) k = Some r \<and> map_of (tm_tasks m) (tk_root_task_id r) \<noteq> None)"

lemma mirrored_id: "mirrored m \<Longrightarrow> map_of (tm_tasks m) q = Some r \<Longrightarrow> tk_task_id r = q"
  by (simp add: mirrored_def)

lemma wp_load_by_id:
  assumes mir: "mirrored m" and new: "map_of (tm_tasks m) q = None"
    and none: "(\<And>db. tm_store m = Some db \<Longrightarrow> task_at q db = None) \<Longrightarrow> Q None m"
    and some: "\<And>r m'. mirrored m' \<Longrightarrow> map_of (tm_tasks m') q = Some r
      \<Longrightarrow> (\<And>p. p \<noteq> q \<Longrightarrow> map_of (tm_tasks m') p = map_of (tm_tasks m) p) \<Longrightarrow> Q (Some r) m'"
    and E: "\<And>e m'. mirrored m' \<Longrightarrow> E e m'"
  shows "wp (load_task_by_id env q) Q E m"
proof (cases "\<exists>db stored. tm_store m = Some db \<and> task_at q db = Some stored")
  case False
  then have "Q None m"
    using none by (metis option.exhaust)
  then show ?thesis
    using False by (auto simp: load_task_by_id_def load_stored_def wp_simps split: option.split)
next
  case True
  then obtain db stored where db: "tm_store m = Some db" and row: "task_at q db = Some stored"
    by blast
  then have "tk_task_id stored = q"
    using row_at_SomeD by (fastforce simp: task_at_def)
  moreover have "wp (restore_stored_record env stored) (\<lambda>r. Q (Some r)) E m"
    using some E by (rule wp_restore [OF mir db row])
  ultimately show ?thesis
    using db row new by (simp add: load_task_by_id_def load_stored_def restore_unless_live_def wp_simps)
qed

lemma wp_get_task:
  assumes mir: "mirrored m"
    and Q: "\<And>r m'. mirrored m' \<Longrightarrow> map_of (tm_tasks m') k = Some r \<Longrightarrow> (map_of (tm_tasks m) k \<noteq> None \<Longrightarrow> m' = m) \<Longrightarrow> Q r m'"
    and E: "\<And>e m'. mirrored m' \<Longrightarrow> map_of (tm_tasks m) k = None \<Longrightarrow> E e m'"
  shows "wp (get_task env k) Q E m"
proof (cases "map_of (tm_tasks m) k")
  case None
  have "wp (load_task_by_id env k) (\<lambda>loaded. wp (case loaded of Some r \<Rightarrow> op_ret r | None \<Rightarrow> op_raise (ME_unknown_task k)) Q E) E m"
    by (rule wp_load_by_id [OF mir None]) (use Q E mir None in \<open>simp_all add: wp_ret wp_raise\<close>)
  then show ?thesis
    using None by (simp add: get_task_def wp_simps)
next
  case (Some r)
  then show ?thesis
    using Q mir by (simp add: get_task_def wp_simps)
qed

lemma wp_root:
  assumes mir: "mirrored m" and r: "map_of (tm_tasks m) k = Some r"
    and Q: "\<And>owner m'. mirrored m' \<Longrightarrow> scope k owner m' \<Longrightarrow> (owner = None \<Longrightarrow> rootless k m')
      \<Longrightarrow> (loaded k m \<Longrightarrow> m' = m) \<Longrightarrow> Q owner m'"
    and E: "\<And>e m'. mirrored m' \<Longrightarrow> \<not> loaded k m \<Longrightarrow> E e m'"
  shows "wp (root_record env k) Q E m"
proof -
  let ?q = "tk_root_task_id r"
  have id: "tk_task_id r = k"
    using mir r by (rule mirrored_id)
  show ?thesis
  proof (cases "map_of (tm_tasks m) ?q")
    case None
    then have q: "?q \<noteq> k" "\<not> loaded k m"
      using r by (auto simp: loaded_def)
    have "wp (load_task_by_id env ?q) (\<lambda>loaded. Q (map_option tk_task_id loaded)) E m"
    proof (rule wp_load_by_id [OF mir None])
      assume "\<And>db. tm_store m = Some db \<Longrightarrow> task_at ?q db = None"
      then show "Q (map_option tk_task_id None) m"
        using Q [OF mir, of None] r id q None by (simp add: scope_def rootless_def)
    next
      fix rr and m' :: manager
      assume m': "mirrored m'" "map_of (tm_tasks m') ?q = Some rr" "\<And>p. p \<noteq> ?q \<Longrightarrow> map_of (tm_tasks m') p = map_of (tm_tasks m) p"
      then have "tk_task_id rr = ?q"
        by (simp add: mirrored_id)
      then show "Q (map_option tk_task_id (Some rr)) m'"
        using Q [OF m'(1), of "Some ?q"] m' r id q by (simp add: scope_def)
    qed (use E q in simp)
    then show ?thesis
      using None r id q by (simp add: root_record_def wp_simps)
  next
    case (Some rr)
    then have "Q (Some ?q) m"
      using r id mirrored_id [OF mir Some] by (intro Q [OF mir]) (simp_all add: scope_def)
    then show ?thesis
      using Some r id by (auto simp: root_record_def wp_simps)
  qed
qed

lemma loaded_self: "map_of (tm_tasks m) k = Some r \<Longrightarrow> loaded k m \<Longrightarrow> map_of (tm_tasks m) k \<noteq> None"
  by simp

lemma wp_in_root_transaction:
  assumes mir: "mirrored m" and r: "map_of (tm_tasks m) k = Some r"
    and body: "\<And>owner m0. mirrored m0 \<Longrightarrow> scope k owner m0 \<Longrightarrow> (owner = None \<Longrightarrow> rootless k m0)
      \<Longrightarrow> (loaded k m \<Longrightarrow> m0 = m) \<Longrightarrow> wp body Q (\<lambda>_. frame k owner (whole k owner) m0) m0"
    and E: "\<And>e m'. mirrored m' \<Longrightarrow> (loaded k m \<Longrightarrow> unchanged m m') \<Longrightarrow> E e m'"
  shows "wp (op_bind (root_record env k) (\<lambda>owner. memory_transaction (record_and_root k owner) body)) Q E m"
  unfolding wp_bind
proof (rule wp_root [OF mir r])
  fix owner and m0 :: manager
  assume m0: "mirrored m0" "scope k owner m0" "owner = None \<Longrightarrow> rootless k m0" "loaded k m \<Longrightarrow> m0 = m"
  show "wp (memory_transaction (record_and_root k owner) body) Q E m0"
    by (rule wp_conseq [OF wp_memory_transaction [OF m0(2) body [OF m0]]])
      (use m0 E mirrored_unchanged [OF m0(1)] in auto)
qed (use E in simp)

lemma wp_in_transaction:
  assumes mir: "mirrored m"
    and body: "\<And>owner m0. mirrored m0 \<Longrightarrow> scope k owner m0 \<Longrightarrow> (owner = None \<Longrightarrow> rootless k m0)
      \<Longrightarrow> (loaded k m \<Longrightarrow> m0 = m) \<Longrightarrow> wp body Q (\<lambda>_. frame k owner (whole k owner) m0) m0"
    and E: "\<And>e m'. mirrored m' \<Longrightarrow> (loaded k m \<Longrightarrow> unchanged m m') \<Longrightarrow> E e m'"
  shows "wp (in_transaction env k body) Q E m"
  unfolding in_transaction_def wp_then
proof (rule wp_get_task [OF mir])
  fix r and m' :: manager
  assume m': "mirrored m'" "map_of (tm_tasks m') k = Some r" "map_of (tm_tasks m) k \<noteq> None \<Longrightarrow> m' = m"
  have same: "loaded k m \<Longrightarrow> m' = m"
    using m'(3) by (auto simp: loaded_def)
  show "wp (op_bind (root_record env k) (\<lambda>owner. memory_transaction (record_and_root k owner) body)) Q E m'"
    by (rule wp_in_root_transaction [OF m'(1,2)]) (use body E same in \<open>auto\<close>)
qed (use E in \<open>auto simp: loaded_def\<close>)

section \<open>Taking a review in\<close>

text \<open>What the projection reads of a review.\<close>

definition shown_alike :: "review_record \<Rightarrow> review_record \<Rightarrow> bool" where
  "shown_alike v w \<longleftrightarrow> rv_review_id v = rv_review_id w \<and> rv_task_id v = rv_task_id w
     \<and> rv_root_task_id v = rv_root_task_id w \<and> rv_payload v = rv_payload w \<and> rv_created_at v = rv_created_at w"

lemma sort_key_rel:
  assumes "list_all2 R xs ys" and "\<And>x y. R x y \<Longrightarrow> f x = f y"
  shows "list_all2 R (sort_key f xs) (sort_key f ys)"
proof -
  have "list_all2 R (insort_key f x us) (insort_key f y vs)" if "R x y" "list_all2 R us vs" for x y us vs
    using that(2) that(1) assms(2) by (induction us vs rule: list_all2_induct) auto
  note insort = this
  show ?thesis
    using assms(1) by (induction xs ys rule: list_all2_induct) (auto intro: insort)
qed

lemma filter_rel: "list_all2 R xs ys \<Longrightarrow> (\<And>x y. R x y \<Longrightarrow> P x = P y) \<Longrightarrow> list_all2 R (filter P xs) (filter P ys)"
  by (induction xs ys rule: list_all2_induct) auto

lemma projected_alike:
  assumes "list_all2 shown_alike xs ys"
  shows "projected_review q xs = projected_review q ys"
proof -
  let ?f = "\<lambda>v. (rv_created_at v, rv_review_id v)" and ?P = "\<lambda>v. rv_root_task_id v = q"
  have "list_all2 shown_alike (sort_key ?f (filter ?P xs)) (sort_key ?f (filter ?P ys))"
    by (intro sort_key_rel filter_rel assms) (auto simp: shown_alike_def)
  then show ?thesis
    unfolding projected_review_def by (auto simp: shown_alike_def list_all2_Cons1 split: list.splits)
qed

lemma projected_ingested:
  assumes inv: "db_inv db" and new: "\<forall>w \<in> set (rows_delete (\<lambda>w. rv_task_id w = k) (db_reviews db)). rv_review_id w \<noteq> rv_review_id v"
    and alike: "shown_alike v w"
  shows "projected_review q (filter (\<lambda>w. rv_task_id w \<noteq> k) (list_pending_reviews (Some q) None db) @ [v])
    = projected_review q (rows_delete (\<lambda>w. rv_task_id w = k) (db_reviews db) @ [w])"
proof -
  let ?P = "\<lambda>w. rv_task_id w \<noteq> k"
  have "projected_review q (filter ?P (list_pending_reviews (Some q) None db) @ [v])
      = projected_review q (filter ?P (db_reviews db) @ [v])"
  proof (rule projected_review_cong)
    show "mset (filter (\<lambda>v. rv_root_task_id v = q) (filter ?P (list_pending_reviews (Some q) None db) @ [v]))
        = mset (filter (\<lambda>v. rv_root_task_id v = q) (filter ?P (db_reviews db) @ [v]))"
      by (auto simp: list_pending_reviews_def filter_filter_mset intro: filter_mset_cong)
    have "unique_key rv_review_id (filter ?P (db_reviews db))"
      using inv by (intro unique_key_filter) (simp add: db_inv_def reviews_ok_def)
    then show "unique_key rv_review_id (filter ?P (db_reviews db) @ [v])"
      using new by (auto simp: unique_key_def rows_delete_def)
  qed
  also have "\<dots> = projected_review q (rows_delete (\<lambda>w. rv_task_id w = k) (db_reviews db) @ [w])"
    using alike by (intro projected_alike)
      (auto simp: rows_delete_def shown_alike_def intro!: list_all2_appendI list.rel_refl)
  finally show ?thesis .
qed

lemma review_written_row:
  assumes "review_written k (Some v) db db'"
  obtains n c where "db_reviews db' = rows_delete (\<lambda>w. rv_task_id w = k) (db_reviews db)
      @ [v\<lparr>rv_ingest_sequence := n, rv_cursor_order_updated_at := c\<rparr>]"
    and "\<forall>w \<in> set (rows_delete (\<lambda>w. rv_task_id w = k) (db_reviews db)). rv_review_id w \<noteq> rv_review_id v"
proof -
  obtain d1 d2 where "replace_review_locked k (Some v) d1 = Inr d2" "db_reviews d1 = db_reviews db" "db_reviews db' = db_reviews d2"
    using assms by (auto simp: review_written_def)
  then show ?thesis
    using that by (fastforce simp: replace_review_locked_def ingest_review_def and_then_Inr Let_def list_ex_iff
        split: if_splits option.splits)
qed

lemma wp_review_ingest_sequence:
  assumes "\<And>n i. Q n (m\<lparr>tm_next_review := i\<rparr>)"
  shows "wp (review_ingest_sequence current review_id) Q E m"
  using assms assms [of _ "tm_next_review m"] by (auto simp: wp_def review_ingest_sequence_def split: option.split)

definition ingested ::
  "manager_env \<Rightarrow> pystr \<Rightarrow> pystr option \<Rightarrow> bool \<Rightarrow> pystr \<Rightarrow> pydict \<Rightarrow> manager \<Rightarrow> manager \<Rightarrow> bool" where
  "ingested env k owner changed review_id payload m m' \<longleftrightarrow> mirrored m' \<and> in_step k m' \<and>
     (\<exists>r r'. map_of (tm_tasks m) k = Some r \<and> map_of (tm_tasks m') k = Some r' \<and> same_but_review r r' \<and>
       (\<forall>db. tm_store m = Some db \<longrightarrow> (\<exists>db' v. tm_store m' = Some db' \<and> task_at k db' = Some r'
         \<and> (changed \<longrightarrow> durable env (tm_settled_outbox m) r' db db')
         \<and> db_reviews db' = rows_delete (\<lambda>w. rv_task_id w = k) (db_reviews db) @ [v]
         \<and> rv_review_id v = review_id \<and> rv_task_id v = k \<and> rv_root_task_id v = tk_root_task_id r
         \<and> rv_payload v = payload \<and> rv_updated_at v = tk_updated_at r
         \<and> root_shows owner m' db')))"

lemma wp_ingest_pending_review:
  assumes f: "frame k owner {k} m0 m" and mir: "mirrored m0" and lost: "owner = None \<Longrightarrow> rootless k m0"
  shows "wp (ingest_pending_review env k review_id payload current changed)
    (\<lambda>_ m'. ingested env k owner changed review_id payload m m') (\<lambda>_. frame k owner (whole k owner) m0) m"
proof -
  let ?E = "\<lambda>_. frame k owner (whole k owner) m0" and ?I = "\<lambda>_ m'. ingested env k owner changed review_id payload m m'"
  obtain r where r: "map_of (tm_tasks m) k = Some r" "tk_task_id r = k"
    using frame_present [OF f, of k] by (auto simp: in_whole)
  define review where "review n = \<lparr>rv_review_id = review_id, rv_task_id = k, rv_root_task_id = tk_root_task_id r,
      rv_payload = payload,
      rv_created_at = (case current of
          Some v \<Rightarrow> if rv_review_id v = review_id then rv_created_at v else tk_updated_at r
        | None \<Rightarrow> tk_updated_at r),
      rv_updated_at = tk_updated_at r, rv_ingest_sequence = n, rv_cursor_order_updated_at = None\<rparr>" for n
  let ?tail = "\<lambda>n. op_then (case current of None \<Rightarrow> op_ret () | Some v \<Rightarrow> forget_review (rv_review_id v))
      (op_modify (\<lambda>m. remember_review (persisted_review (review n) m) m))"
  have inv: "db_inv db" if "tm_store m = Some db" for db
    using f mir that by (simp add: frame_def mirrored_def)
  have persist: "wp (persist_review_transition env k (Some (review n)) owner ch changed) (\<lambda>_. wp (?tail n) ?I ?E) ?E m2"
    if m2: "frame k owner D m0 m2" "D = (if ch then insert k (set_option owner) else {k})"
      "map_of (tm_tasks m2) k = Some r2" "same_but_review r r2"
      and shows2: "\<And>db q rr. tm_store m = Some db \<Longrightarrow> owner = Some q \<Longrightarrow> map_of (tm_tasks m2) q = Some rr \<Longrightarrow>
        same_review (tk_pending_review rr)
          (projected_review q (filter (\<lambda>w. rv_task_id w \<noteq> k) (list_pending_reviews (Some q) None db) @ [review n]))"
    for ch D m2 r2 n
  proof (rule wp_conseq [OF wp_persist_review_transition [OF m2(1) mir m2(3) _ m2(2)]])
    show "tk_task_id r2 = k"
      using frame_present [OF m2(1), of k] m2(3) by (auto simp: in_whole)
    have st: "tm_store m2 = tm_store m" "tm_settled_outbox m2 = tm_settled_outbox m"
      using frame_store [OF f m2(1)] by simp_all
    fix u m' assume post: "mirrored m' \<and> in_step k m' \<and> tm_tasks m' = tm_tasks m2 \<and>
      (\<forall>db. tm_store m2 = Some db \<longrightarrow> (\<exists>db'. tm_store m' = Some db' \<and> task_at k db' = Some r2
        \<and> (changed \<longrightarrow> durable env (tm_settled_outbox m2) r2 db db') \<and> review_written k (Some (review n)) db db'))"
    have "\<exists>db' v. tm_store m' = Some db' \<and> task_at k db' = Some r2
         \<and> (changed \<longrightarrow> durable env (tm_settled_outbox m) r2 db db')
         \<and> db_reviews db' = rows_delete (\<lambda>w. rv_task_id w = k) (db_reviews db) @ [v]
         \<and> rv_review_id v = review_id \<and> rv_task_id v = k \<and> rv_root_task_id v = tk_root_task_id r
         \<and> rv_payload v = payload \<and> rv_updated_at v = tk_updated_at r \<and> root_shows owner m' db'"
      if db: "tm_store m = Some db" for db
    proof -
      obtain db' where db': "tm_store m' = Some db'" "task_at k db' = Some r2"
        "changed \<longrightarrow> durable env (tm_settled_outbox m) r2 db db'" "review_written k (Some (review n)) db db'"
        using post st db by auto
      obtain i c where rows: "db_reviews db' = rows_delete (\<lambda>w. rv_task_id w = k) (db_reviews db)
          @ [(review n)\<lparr>rv_ingest_sequence := i, rv_cursor_order_updated_at := c\<rparr>]"
        and new: "\<forall>w \<in> set (rows_delete (\<lambda>w. rv_task_id w = k) (db_reviews db)). rv_review_id w \<noteq> rv_review_id (review n)"
        using review_written_row [OF db'(4)] .
      have "root_shows owner m' db'"
        using shows2 [OF db] post
        by (auto simp: root_shows_def rows projected_ingested [OF inv [OF db] new, of "(review n)\<lparr>rv_ingest_sequence := i,
            rv_cursor_order_updated_at := c\<rparr>"] shown_alike_def)
      then show ?thesis
        using db' rows by (auto simp: review_def)
    qed
    then have "ingested env k owner changed review_id payload m m'"
      using post m2(3,4) r(1) by (auto simp: ingested_def)
    then have i: "ingested env k owner changed review_id payload m (m'\<lparr>tm_reviews := c\<rparr>)" for c
      by (simp add: ingested_def root_shows_def)
    show "wp (?tail n) ?I ?E m'"
      using i by (auto simp: wp_then wp_ret wp_modify forget_review_def remember_review_def split: option.split)
  qed
  show ?thesis
    unfolding ingest_pending_review_def wp_bind wp_the_task r(1) option.case
  proof (rule wp_review_ingest_sequence)
    fix n i
    let ?m1 = "m\<lparr>tm_next_review := i\<rparr>"
    show "wp (let review = \<lparr>rv_review_id = review_id, rv_task_id = k, rv_root_task_id = tk_root_task_id r,
           rv_payload = payload,
           rv_created_at = (case current of
               Some v \<Rightarrow> if rv_review_id v = review_id then rv_created_at v else tk_updated_at r
             | None \<Rightarrow> tk_updated_at r),
           rv_updated_at = tk_updated_at r, rv_ingest_sequence = n, rv_cursor_order_updated_at = None\<rparr>
     in op_bind (list_reviews (Some (tk_root_task_id r)) None) (\<lambda>reviews.
        op_bind (project_root_review env k (filter (\<lambda>w. rv_task_id w \<noteq> k) reviews @ [review]))
          (\<lambda>(owner, root_changed).
        op_then (persist_review_transition env k (Some review) owner root_changed changed)
       (op_then (case current of None \<Rightarrow> op_ret () | Some v \<Rightarrow> forget_review (rv_review_id v))
          (op_modify (\<lambda>m. remember_review (persisted_review review m) m)))))) ?I ?E ?m1"
      unfolding Let_def review_def [symmetric] wp_bind
    proof (rule wp_list_reviews)
      fix vs c
      let ?m = "?m1\<lparr>tm_reviews := c\<rparr>"
      assume "\<And>db. tm_store ?m1 = Some db \<Longrightarrow> vs = list_pending_reviews (Some (tk_root_task_id r)) None db"
      then have vs: "vs = list_pending_reviews (Some q) None db" if "tm_store m = Some db" "owner = Some q" for db q
        using that owner_root [OF f r(1)] by simp
      let ?vs = "filter (\<lambda>w. rv_task_id w \<noteq> k) vs @ [review n]"
      have f1: "frame k owner {k} m0 ?m"
        using f by simp
      show "wp (project_root_review env k ?vs) (\<lambda>x. wp (case x of (owner, root_changed) \<Rightarrow>
          op_then (persist_review_transition env k (Some (review n)) owner root_changed changed) (?tail n)) ?I ?E) ?E ?m"
      proof (rule wp_project_root_review [OF f1 lost])
        assume o: "owner = None"
        show "wp (case (None, False) of (owner, root_changed) \<Rightarrow>
          op_then (persist_review_transition env k (Some (review n)) owner root_changed changed) (?tail n)) ?I ?E ?m"
          using persist [OF f1, of False r n] r(1) o by (simp add: wp_then [of "persist_review_transition _ _ _ _ _ _"] same_but_review_def)
      next
        fix q rr assume q: "owner = Some q" "map_of (tm_tasks ?m) q = Some rr" "same_review (tk_pending_review rr) (projected_review q ?vs)"
        have "wp (persist_review_transition env k (Some (review n)) owner False changed) (\<lambda>_. wp (?tail n) ?I ?E) ?E ?m"
          by (rule persist [OF f1, of False r n]) (use r(1) q vs in \<open>auto simp: same_but_review_def\<close>)
        then show "wp (case (Some q, False) of (owner, root_changed) \<Rightarrow>
          op_then (persist_review_transition env k (Some (review n)) owner root_changed changed) (?tail n)) ?I ?E ?m"
          using q(1) by (simp add: wp_then [of "persist_review_transition _ _ _ _ _ _"])
      next
        fix q rr now and m' :: manager
        assume q: "owner = Some q" "map_of (tm_tasks ?m) q = Some rr" "frame k owner (insert q {k}) m0 m'"
          "map_of (tm_tasks m') = (map_of (tm_tasks ?m))(q \<mapsto> rr\<lparr>tk_pending_review := projected_review q ?vs, tk_updated_at := now\<rparr>)"
        obtain r2 where r2: "map_of (tm_tasks m') k = Some r2" "same_but_review r r2"
          using q r(1) by (cases "q = k") (auto simp: same_but_review_def)
        have "wp (persist_review_transition env k (Some (review n)) owner True changed) (\<lambda>_. wp (?tail n) ?I ?E) ?E m'"
          by (rule persist [OF q(3) _ r2]) (use q vs in auto)
        then show "wp (case (Some q, True) of (owner, root_changed) \<Rightarrow>
          op_then (persist_review_transition env k (Some (review n)) owner root_changed changed) (?tail n)) ?I ?E m'"
          using q(1) by (simp add: wp_then [of "persist_review_transition _ _ _ _ _ _"])
      qed
    qed
  qed
qed

end
