(* ===== verification/Task_Manager_Properties.thy ===== *)
theory Task_Manager_Properties
  imports Manager_Reviews
begin

text \<open>
  What the Task manager guarantees: a transition under a memory transaction that raises leaves no
  trace in memory or in the store, the objects in memory mirror their rows whichever transactions
  fail (unless one of the two direct writes raises), and a transition that returns is durable
  together with its event and with the review its root shows.
\<close>

section \<open>Operations\<close>

text \<open>
  Where a transition that settles the record (\<open>f\<close> its assignments) leaves memory and the store: the
  row is the object, its event and its intent are written with it, the review of the record is gone
  and its root shows the earliest review that is left.
\<close>

definition settled :: "manager_env \<Rightarrow> pystr \<Rightarrow> (task_record \<Rightarrow> task_record) \<Rightarrow> manager \<Rightarrow> manager \<Rightarrow> bool" where
  "settled env k f m m' \<longleftrightarrow>
     (\<exists>r r'. map_of (tm_tasks m) k = Some r \<and> map_of (tm_tasks m') k = Some r' \<and> same_but_review (f r) r' \<and>
       (tk_root_task_id r \<noteq> k \<longrightarrow> tk_pending_review r' = None) \<and>
       (\<forall>db. tm_store m = Some db \<longrightarrow> (\<exists>db'. tm_store m' = Some db'
         \<and> durable env (tm_settled_outbox m) r' db db'
         \<and> db_reviews db' = rows_delete (\<lambda>v. rv_task_id v = k) (db_reviews db)
         \<and> (tk_root_task_id r = k \<or> row_at rv_task_id k (db_reviews db) \<noteq> None \<longrightarrow>
             root_shows (Some (tk_root_task_id r)) m' db'))))"

lemma loaded_owner:
  assumes "scope k owner m" and "owner = None \<Longrightarrow> rootless k m" and "loaded k m" and "map_of (tm_tasks m) k = Some r"
  shows "owner = Some (tk_root_task_id r)"
  using assms by (cases owner) (auto simp: scope_def rootless_def loaded_def)

lemma cleared_settled:
  assumes s: "scope k owner m" "owner = None \<Longrightarrow> rootless k m" "loaded k m"
    and f: "frame k owner D m m1" and r: "map_of (tm_tasks m) k = Some r"
    and r1: "map_of (tm_tasks m1) k = Some r1" "same_but_review (f r) r1"
    and c: "cleared env k owner m1 m'"
  shows "settled env k f m m'"
proof -
  have owner: "owner = Some (tk_root_task_id r)"
    by (rule loaded_owner [OF s r])
  moreover have "same_but_review (f r) r'" if "same_but_review r1 r'" for r'
    using that r1(2) by (cases "f r"; cases r1; cases r') (simp add: same_but_review_def)
  ultimately show ?thesis
    using c r r1 f unfolding cleared_def settled_def frame_def by fastforce
qed

lemma wp_settle_with:
  assumes mir: "mirrored m" and id: "\<And>r. tk_task_id (f r) = tk_task_id r" "\<And>r. tk_root_task_id (f r) = tk_root_task_id r"
  shows "wp (settle_with env k f) (\<lambda>_ m'. mirrored m' \<and> in_step k m' \<and> (loaded k m \<longrightarrow> settled env k f m m'))
    (\<lambda>_ m'. mirrored m' \<and> (loaded k m \<longrightarrow> unchanged m m')) m"
  unfolding settle_with_def
proof (rule wp_in_transaction [OF mir])
  fix owner and m0 :: manager
  assume m0: "mirrored m0" "scope k owner m0" "owner = None \<Longrightarrow> rootless k m0" "loaded k m \<Longrightarrow> m0 = m"
  let ?m = "m0\<lparr>tm_ticks := Suc (tm_ticks m0)\<rparr>"
  have f0: "frame k owner {} m0 ?m"
    using frame_refl [OF m0(2)] by simp
  show "wp (op_bind (tick env) (\<lambda>now. op_then (edit_task k (\<lambda>r. (f r)\<lparr>tk_updated_at := now\<rparr>))
      (clear_pending_review_and_save env k))) (\<lambda>_ m'. mirrored m' \<and> in_step k m' \<and> (loaded k m \<longrightarrow> settled env k f m m'))
      (\<lambda>_. frame k owner (whole k owner) m0) m0"
    unfolding wp_bind wp_tick wp_then
  proof (rule wp_edit_task_in [OF f0])
    fix r and m1 :: manager
    assume m1: "map_of (tm_tasks ?m) k = Some r" "tk_task_id r = k" "frame k owner {k} m0 m1"
      "map_of (tm_tasks m1) = (map_of (tm_tasks ?m))(k \<mapsto> (f r)\<lparr>tk_updated_at := env_clock env (tm_ticks m0)\<rparr>)"
    have r1: "map_of (tm_tasks m1) k = Some ((f r)\<lparr>tk_updated_at := env_clock env (tm_ticks m0)\<rparr>)"
      using m1(4) by simp
    show "wp (clear_pending_review_and_save env k) (\<lambda>_ m'. mirrored m' \<and> in_step k m' \<and> (loaded k m \<longrightarrow> settled env k f m m'))
        (\<lambda>_. frame k owner (whole k owner) m0) m1"
    proof (rule wp_conseq [OF wp_clear_pending_review [OF m1(3) m0(1) m0(3)]])
      fix u m' assume c: "cleared env k owner m1 m'"
      have "settled env k f m m'" if "loaded k m"
        using cleared_settled [OF m0(2,3) _ m1(3) _ r1 _ c] m1(1) m0(4) [OF that] that by (simp add: same_but_review_def)
      then show "mirrored m' \<and> in_step k m' \<and> (loaded k m \<longrightarrow> settled env k f m m')"
        using c by (simp add: cleared_def)
    qed
  qed (simp_all add: id in_whole)
qed simp

text \<open>
  \<open>sound S k c m\<close>: an operation on the record of \<open>k\<close> that returns leaves memory mirroring the store
  and \<open>S\<close>; one that raises leaves memory mirroring the store, and with the record and its root in
  memory it leaves everything as it was.
\<close>

definition sound :: "(manager \<Rightarrow> bool) \<Rightarrow> pystr \<Rightarrow> 'a manager_op \<Rightarrow> manager \<Rightarrow> bool" where
  "sound S k c m \<longleftrightarrow> wp c (\<lambda>_ m'. mirrored m' \<and> S m') (\<lambda>_ m'. mirrored m' \<and> (loaded k m \<longrightarrow> unchanged m m')) m"

abbreviation inside :: "pystr \<Rightarrow> pystr option \<Rightarrow> 'a manager_op \<Rightarrow> manager \<Rightarrow> manager \<Rightarrow> bool" where
  "inside k owner c m0 m \<equiv> wp c (\<lambda>_ m'. mirrored m' \<and> in_step k m') (\<lambda>_. frame k owner (whole k owner) m0) m"

lemma sound_settle_with:
  "mirrored m \<Longrightarrow> (\<And>r. tk_task_id (f r) = tk_task_id r) \<Longrightarrow> (\<And>r. tk_root_task_id (f r) = tk_root_task_id r)
    \<Longrightarrow> sound (in_step k) k (settle_with env k f) m"
  unfolding sound_def by (rule wp_conseq [OF wp_settle_with]) auto

lemma inside_saves:
  assumes "frame k owner {k} m0 m" and "mirrored m0"
  shows "inside k owner (save_record k) m0 m" "inside k owner (save_uncertain k) m0 m"
    "inside k owner (save_rejected env k) m0 m" "inside k owner (save_lifecycle env k) m0 m"
  by (auto intro: wp_conseq [OF wp_save_record [OF assms]] wp_conseq [OF wp_save_uncertain [OF assms]]
      wp_conseq [OF wp_save_rejected [OF assms]] wp_conseq [OF wp_save_lifecycle [OF assms]])

lemma inside_clear:
  "frame k owner {k} m0 m \<Longrightarrow> mirrored m0 \<Longrightarrow> (owner = None \<Longrightarrow> rootless k m0) \<Longrightarrow>
    inside k owner (clear_pending_review_and_save env k) m0 m"
  by (rule wp_conseq [OF wp_clear_pending_review]) (auto simp: cleared_def)

lemma inside_ingest:
  "frame k owner {k} m0 m \<Longrightarrow> mirrored m0 \<Longrightarrow> (owner = None \<Longrightarrow> rootless k m0) \<Longrightarrow>
    inside k owner (ingest_pending_review env k review_id payload current changed) m0 m"
  by (rule wp_conseq [OF wp_ingest_pending_review]) (auto simp: ingested_def)

lemma inside_edit:
  assumes "frame k owner D m0 m" and "D \<subseteq> {k}"
    and "\<And>r. tk_task_id (f r) = tk_task_id r" and "\<And>r. tk_root_task_id (f r) = tk_root_task_id r"
    and "\<And>m'. frame k owner {k} m0 m' \<Longrightarrow> Q () m'"
  shows "wp (edit_task k f) Q E m"
proof (rule wp_edit_task_in [OF assms(1) _ assms(3,4)])
  fix r and m' :: manager
  assume "frame k owner (insert k D) m0 m'"
  moreover have "insert k D = {k}"
    using assms(2) by auto
  ultimately show "Q () m'"
    using assms(5) by simp
qed (simp_all add: in_whole)

lemma sound_in_transaction:
  assumes "mirrored m"
    and "\<And>owner m0. mirrored m0 \<Longrightarrow> frame k owner {} m0 m0 \<Longrightarrow> (owner = None \<Longrightarrow> rootless k m0) \<Longrightarrow> inside k owner body m0 m0"
  shows "sound (in_step k) k (in_transaction env k body) m"
  unfolding sound_def by (rule wp_in_transaction [OF assms(1)]) (simp_all add: assms(2) frame_refl)

lemma sound_in_root_transaction:
  assumes "mirrored m" and "map_of (tm_tasks m) k = Some r"
    and "\<And>owner m0. mirrored m0 \<Longrightarrow> frame k owner {} m0 m0 \<Longrightarrow> (owner = None \<Longrightarrow> rootless k m0) \<Longrightarrow> inside k owner body m0 m0"
  shows "sound (in_step k) k (op_bind (root_record env k) (\<lambda>owner. memory_transaction (record_and_root k owner) body)) m"
  unfolding sound_def by (rule wp_in_root_transaction [OF assms(1,2)]) (simp_all add: assms(3) frame_refl)

lemma sound_get_task:
  assumes mir: "mirrored m"
    and next_op: "\<And>r m'. mirrored m' \<Longrightarrow> map_of (tm_tasks m') k = Some r \<Longrightarrow> sound S k (c r) m'"
  shows "sound S k (op_bind (get_task env k) c) m"
  unfolding sound_def wp_bind
proof (rule wp_get_task [OF mir])
  fix r and m' :: manager
  assume m': "mirrored m'" "map_of (tm_tasks m') k = Some r" "map_of (tm_tasks m) k \<noteq> None \<Longrightarrow> m' = m"
  have "loaded k m \<Longrightarrow> m' = m"
    using m'(3) by (auto simp: loaded_def)
  then show "wp (c r) (\<lambda>_ m'. mirrored m' \<and> S m') (\<lambda>_ m'. mirrored m' \<and> (loaded k m \<longrightarrow> unchanged m m')) m'"
    by (intro wp_conseq [OF next_op [OF m'(1,2), unfolded sound_def]]) auto
qed (auto simp: loaded_def)

lemma sound_weaken: "sound S k c m \<Longrightarrow> (\<And>m'. S m' \<Longrightarrow> S' m') \<Longrightarrow> sound S' k c m"
  unfolding sound_def by (erule wp_conseq) auto

lemma sound_ret: "mirrored m \<Longrightarrow> S m \<Longrightarrow> sound S k (op_ret x) m"
  by (simp add: sound_def wp_ret)

lemma sound_raise: "mirrored m \<Longrightarrow> sound S k (op_raise e) m"
  by (simp add: sound_def wp_raise unchanged_def)

lemma sound_then_object: "sound (in_step k) k c m \<Longrightarrow> sound (in_step k) k (op_then c (the_task k)) m"
  unfolding sound_def wp_then by (erule wp_conseq) (auto simp: wp_the_task in_step_def)

lemma sound_then_ret: "sound S k c m \<Longrightarrow> sound S k (op_then c (op_ret x)) m"
  unfolding sound_def wp_then wp_ret .

lemma wp_register_run:
  assumes "frame k owner D m0 m" and "\<And>m'. frame k owner D m0 m' \<Longrightarrow> Q () m'"
  shows "wp (register_run env k h) Q (\<lambda>_. frame k owner (whole k owner) m0) m"
proof (cases "live_register k h (env_live env) (tm_runs m)")
  case (Inl e)
  then show ?thesis
    using frame_whole [OF assms(1)] by (simp add: wp_def register_run_def)
next
  case (Inr runs)
  then have "map_of runs q = map_of (tm_runs m) q" if "q \<noteq> k" for q
    using that by (auto simp: live_register_def update_conv' split: option.splits if_splits)
  then show ?thesis
    using assms(2) [OF frame_runs [OF assms(1)]] Inr by (simp add: wp_def register_run_def)
qed

lemma sound_mark_running:
  assumes "mirrored m"
  shows "sound (in_step k) k (mark_running env k h n) m"
  unfolding mark_running_def
proof (rule sound_in_transaction [OF assms])
  fix owner and m0 :: manager
  assume m0: "mirrored m0" "frame k owner {} m0 m0" "owner = None \<Longrightarrow> rootless k m0"
  show "inside k owner (op_then (edit_task k (\<lambda>r. case n of
          None \<Rightarrow> r
        | Some n \<Rightarrow> r\<lparr>tk_mailbox_wakeup_sequence := max (tk_mailbox_wakeup_sequence r) n\<rparr>))
     (op_bind (tick env) (\<lambda>now.
      op_then (edit_task k (\<lambda>r. r\<lparr>tk_state := TS_running, tk_updated_at := now\<rparr>))
     (op_then (register_run env k h)
     (op_then (edit_task k (\<lambda>r. r\<lparr>tk_run_count := tk_run_count r + 1, tk_mailbox_suppressed := False,
          tk_mailbox_delivered := False, tk_error := None\<rparr>))
      (clear_pending_review_and_save env k)))))) m0 m0"
    unfolding wp_then wp_bind wp_tick
  proof (rule inside_edit [OF m0(2)])
    fix m1 assume f1: "frame k owner {k} m0 m1"
    have f2: "frame k owner {k} m0 (m1\<lparr>tm_ticks := Suc (tm_ticks m1)\<rparr>)"
      using f1 by simp
    show "wp (edit_task k (\<lambda>r. r\<lparr>tk_state := TS_running, tk_updated_at := env_clock env (tm_ticks m1)\<rparr>))
        (\<lambda>_. wp (register_run env k h) (\<lambda>_. wp (edit_task k (\<lambda>r. r\<lparr>tk_run_count := tk_run_count r + 1,
            tk_mailbox_suppressed := False, tk_mailbox_delivered := False, tk_error := None\<rparr>))
          (\<lambda>_. inside k owner (clear_pending_review_and_save env k) m0) (\<lambda>_. frame k owner (whole k owner) m0))
          (\<lambda>_. frame k owner (whole k owner) m0)) (\<lambda>_. frame k owner (whole k owner) m0) (m1\<lparr>tm_ticks := Suc (tm_ticks m1)\<rparr>)"
      by (rule inside_edit [OF f2], (simp_all)[3], rule wp_register_run, assumption,
          rule inside_edit, assumption, simp_all, rule inside_clear [OF _ m0(1,3)])
  qed (simp_all split: option.split)
qed

text \<open>The Tasks of the gateway: one assignment and one write.\<close>

lemma inside_step:
  assumes "mirrored m0" and "frame k owner {} m0 m" and "\<And>r. tk_task_id (f r) = tk_task_id r"
    and "\<And>r. tk_root_task_id (f r) = tk_root_task_id r"
  shows "inside k owner (op_then (edit_task k f) (save_record k)) m0 m"
    "inside k owner (op_then (edit_task k f) (save_uncertain k)) m0 m"
    "inside k owner (op_then (edit_task k f) (save_rejected env k)) m0 m"
  unfolding wp_then by (rule inside_edit [OF assms(2) _ assms(3,4)]; simp add: inside_saves assms(1))+

lemma sound_one_write:
  assumes mir: "mirrored m" and r: "map_of (tm_tasks m) k = Some r"
    and id: "\<And>r. tk_task_id (f r) = tk_task_id r" "\<And>r. tk_root_task_id (f r) = tk_root_task_id r"
  shows "sound (in_step k) k (op_bind (root_record env k) (\<lambda>owner. memory_transaction (record_and_root k owner)
      (op_then (edit_task k f) (save_uncertain k)))) m"
    and "sound (in_step k) k (op_bind (root_record env k) (\<lambda>owner. memory_transaction (record_and_root k owner)
      (op_then (edit_task k f) (save_rejected env k)))) m"
  by (rule sound_in_root_transaction [OF mir r], erule inside_step [OF _ _ id], assumption)+

lemma sound_timed_write:
  assumes mir: "mirrored m" and r: "map_of (tm_tasks m) k = Some r"
    and id: "\<And>now r. tk_task_id (f now r) = tk_task_id r" "\<And>now r. tk_root_task_id (f now r) = tk_root_task_id r"
  shows "sound (in_step k) k (op_bind (root_record env k) (\<lambda>owner. memory_transaction (record_and_root k owner)
      (op_bind (tick env) (\<lambda>now. op_then (edit_task k (f now)) (save_record k))))) m"
proof (rule sound_in_root_transaction [OF mir r])
  fix owner and m0 :: manager
  assume m0: "mirrored m0" "frame k owner {} m0 m0"
  have "frame k owner {} m0 (m0\<lparr>tm_ticks := Suc (tm_ticks m0)\<rparr>)"
    using m0(2) by simp
  from inside_step(1) [OF m0(1) this id]
  show "inside k owner (op_bind (tick env) (\<lambda>now. op_then (edit_task k (f now)) (save_record k))) m0 m0"
    by (simp add: wp_bind wp_tick)
qed

lemma sound_begin_external_operation:
  assumes "mirrored m"
  shows "sound (\<lambda>_. True) k (begin_external_operation env k operation identity replay) m"
  unfolding begin_external_operation_def
proof (rule sound_get_task [OF assms])
  fix r and m' :: manager
  assume m': "mirrored m'" "map_of (tm_tasks m') k = Some r"
  show "sound (\<lambda>_. True) k (let op = normalize_task_event_text operation; ident = normalize_task_event_text identity
     in case tk_external_operation r of
          Some current \<Rightarrow>
            if replay \<and> tk_external_outcome_uncertain r \<and> current = op
               \<and> tk_external_operation_identity r = Some ident
            then op_ret () else op_raise (unresolved_operation k current)
        | None \<Rightarrow>
            op_bind (root_record env k) (\<lambda>owner. memory_transaction (record_and_root k owner)
              (op_then (edit_task k (\<lambda>r. r\<lparr>tk_external_operation := Some op,
                   tk_external_operation_identity := Some ident,
                   tk_external_operation_run_count := Some (tk_run_count r),
                   tk_external_outcome_uncertain := True\<rparr>))
                (save_uncertain k)))) m'"
    using m' by (auto simp: Let_def sound_ret sound_raise split: option.split
        intro!: sound_weaken [OF sound_one_write(1)])
qed

lemma sound_reject_external_operation:
  "mirrored m \<Longrightarrow> sound (in_step k) k (reject_external_operation env k operation identity) m"
  unfolding reject_external_operation_def
  by (erule sound_get_task) (auto simp: sound_raise clear_external_fields_def intro!: sound_one_write(2))

lemma sound_bind_uncertain_remote_task:
  "mirrored m \<Longrightarrow> sound (in_step k) k (bind_uncertain_remote_task env k upstream) m"
  unfolding bind_uncertain_remote_task_def
  by (erule sound_get_task) (auto simp: sound_raise intro!: sound_then_object sound_timed_write)

lemma sound_set_remote_webhook_if_missing:
  "mirrored m \<Longrightarrow> sound (\<lambda>_. True) k (set_remote_webhook_if_missing env k webhook) m"
  unfolding set_remote_webhook_if_missing_def
  by (erule sound_get_task) (auto simp: sound_ret intro!: sound_weaken [OF sound_then_object] sound_timed_write)

lemma inside_uncertain:
  assumes "mirrored m0" and "frame k owner D m0 m" "D \<subseteq> {k}"
    and "\<And>r. tk_task_id (f r) = tk_task_id r" and "\<And>r. tk_root_task_id (f r) = tk_root_task_id r"
  shows "inside k owner (op_then (edit_task k f) (op_bind (tick env) (\<lambda>now.
      op_then (edit_task k (\<lambda>r. r\<lparr>tk_updated_at := now\<rparr>)) (save_uncertain k)))) m0 m"
  unfolding wp_then wp_bind wp_tick
proof (rule inside_edit [OF assms(2-5)])
  fix m1 assume "frame k owner {k} m0 m1"
  then have "frame k owner {k} m0 (m1\<lparr>tm_ticks := Suc (tm_ticks m1)\<rparr>)"
    by simp
  then show "wp (edit_task k (\<lambda>r. r\<lparr>tk_updated_at := env_clock env (tm_ticks m1)\<rparr>)) (\<lambda>_. inside k owner (save_uncertain k) m0)
      (\<lambda>_. frame k owner (whole k owner) m0) (m1\<lparr>tm_ticks := Suc (tm_ticks m1)\<rparr>)"
    by (rule inside_edit) (simp_all add: inside_saves assms(1))
qed

lemma sound_mark_external_outcome_uncertain:
  "mirrored m \<Longrightarrow> sound (in_step k) k (mark_external_outcome_uncertain env k operation identity) m"
  unfolding mark_external_outcome_uncertain_def
  by (erule sound_in_transaction) (auto simp: mark_record_uncertain_def intro!: inside_uncertain)

subsection \<open>Waiting for a human\<close>

text \<open>
  Where a review leaves memory and the store: the row waits, its event is written, the table holds
  the review under the identity of the payload, and the root shows the earliest review of the tree.
\<close>

definition asked :: "manager_env \<Rightarrow> pystr \<Rightarrow> pydict \<Rightarrow> manager \<Rightarrow> manager \<Rightarrow> bool" where
  "asked env k pending m m' \<longleftrightarrow>
     (\<exists>r r' review_id. map_of (tm_tasks m) k = Some r \<and> map_of (tm_tasks m') k = Some r'
       \<and> same_but_review (r\<lparr>tk_state := TS_waiting_for_human, tk_error := None\<rparr>) r'
       \<and> (\<forall>s. nonempty_str (dict_get (str ''review_id'') pending) = Some s \<longrightarrow> review_id = normalize_task_event_text s)
       \<and> (\<forall>db. tm_store m = Some db \<longrightarrow> (\<exists>db' v. tm_store m' = Some db'
           \<and> durable env (tm_settled_outbox m) r' db db'
           \<and> db_reviews db' = rows_delete (\<lambda>w. rv_task_id w = k) (db_reviews db) @ [v]
           \<and> rv_review_id v = review_id \<and> rv_task_id v = k \<and> rv_root_task_id v = tk_root_task_id r
           \<and> rv_payload v = dict_put (str ''review_id'') (PStr review_id) pending
           \<and> root_shows (Some (tk_root_task_id r)) m' db')))"

lemma wp_review_identity:
  assumes "\<And>i n. (\<And>s. nonempty_str (dict_get (str ''review_id'') payload) = Some s \<Longrightarrow> i = normalize_task_event_text s)
    \<Longrightarrow> Q i (m\<lparr>tm_ticks := n\<rparr>)"
  shows "wp (review_identity env payload) Q E m"
  using assms [of _ "tm_ticks m"] assms by (auto simp: review_identity_def wp_ret wp_fresh_id split: option.split)

lemma wp_foreign_review: "Q () m \<Longrightarrow> (\<And>e. E e m) \<Longrightarrow> wp (foreign_review k i existing) Q E m"
  by (auto simp: foreign_review_def wp_ret wp_raise split: option.split)

lemma quiet_fields [simp]:
  "loaded k (m\<lparr>tm_ticks := n\<rparr>) = loaded k m" "loaded k (m\<lparr>tm_reviews := c\<rparr>) = loaded k m"
  "unchanged (m\<lparr>tm_ticks := n\<rparr>) m' = unchanged m m'" "unchanged (m\<lparr>tm_reviews := c\<rparr>) m' = unchanged m m'"
  "asked env k p (m\<lparr>tm_ticks := n\<rparr>) m' = asked env k p m m'" "asked env k p (m\<lparr>tm_reviews := c\<rparr>) m' = asked env k p m m'"
  by (simp_all add: loaded_def unchanged_def asked_def)

lemma unchanged_refl [simp]: "unchanged m m"
  by (simp add: unchanged_def)

lemma wp_ask:
  assumes mir: "mirrored m" and r: "map_of (tm_tasks m) k = Some r"
    and i: "\<And>s. nonempty_str (dict_get (str ''review_id'') pending) = Some s \<Longrightarrow> review_id = normalize_task_event_text s"
  shows "wp (op_bind (root_record env k) (\<lambda>owner. memory_transaction (record_and_root k owner)
      (op_bind (tick env) (\<lambda>now.
       op_then (edit_task k (\<lambda>r. r\<lparr>tk_state := TS_waiting_for_human, tk_updated_at := now,
            tk_pending_review := Some (dict_put (str ''review_id'') (PStr review_id) pending), tk_error := None\<rparr>))
         (ingest_pending_review env k review_id (dict_put (str ''review_id'') (PStr review_id) pending) current True)))))
    (\<lambda>_ m'. mirrored m' \<and> in_step k m' \<and> (loaded k m \<longrightarrow> asked env k pending m m'))
    (\<lambda>_ m'. mirrored m' \<and> (loaded k m \<longrightarrow> unchanged m m')) m"
proof (rule wp_in_root_transaction [OF mir r])
  let ?p = "dict_put (str ''review_id'') (PStr review_id) pending"
  fix owner and m0 :: manager
  assume m0: "mirrored m0" "scope k owner m0" "owner = None \<Longrightarrow> rootless k m0" "loaded k m \<Longrightarrow> m0 = m"
  let ?m = "m0\<lparr>tm_ticks := Suc (tm_ticks m0)\<rparr>" and ?now = "env_clock env (tm_ticks m0)"
  have f0: "frame k owner {} m0 ?m"
    using frame_refl [OF m0(2)] by simp
  show "wp (op_bind (tick env) (\<lambda>now.
       op_then (edit_task k (\<lambda>r. r\<lparr>tk_state := TS_waiting_for_human, tk_updated_at := now,
            tk_pending_review := Some ?p, tk_error := None\<rparr>))
         (ingest_pending_review env k review_id ?p current True)))
    (\<lambda>_ m'. mirrored m' \<and> in_step k m' \<and> (loaded k m \<longrightarrow> asked env k pending m m'))
    (\<lambda>_. frame k owner (whole k owner) m0) m0"
    unfolding wp_bind wp_tick wp_then
  proof (rule wp_edit_task_in [OF f0])
    fix r0 :: task_record and m1 :: manager
    let ?r1 = "r0\<lparr>tk_state := TS_waiting_for_human, tk_updated_at := ?now, tk_pending_review := Some ?p, tk_error := None\<rparr>"
    assume m1: "map_of (tm_tasks ?m) k = Some r0" "frame k owner {k} m0 m1"
      "map_of (tm_tasks m1) = (map_of (tm_tasks ?m))(k \<mapsto> ?r1)"
    show "wp (ingest_pending_review env k review_id ?p current True)
        (\<lambda>_ m'. mirrored m' \<and> in_step k m' \<and> (loaded k m \<longrightarrow> asked env k pending m m'))
        (\<lambda>_. frame k owner (whole k owner) m0) m1"
    proof (rule wp_conseq [OF wp_ingest_pending_review [OF m1(2) m0(1,3)]])
      fix u m' assume c: "ingested env k owner True review_id ?p m1 m'"
      have "asked env k pending m m'" if l: "loaded k m"
      proof -
        have m: "m0 = m" "map_of (tm_tasks m) k = Some r0" "owner = Some (tk_root_task_id r0)"
          using m0(2,3,4) l m1(1) loaded_owner [of k owner m r0] by auto
        have st: "tm_store m1 = tm_store m" "tm_settled_outbox m1 = tm_settled_outbox m"
          using m1(2) m(1) by (simp_all add: frame_def)
        obtain rk r' where r': "map_of (tm_tasks m1) k = Some rk" "map_of (tm_tasks m') k = Some r'" "same_but_review rk r'"
          and db: "\<forall>db. tm_store m1 = Some db \<longrightarrow> (\<exists>db' v. tm_store m' = Some db' \<and> task_at k db' = Some r'
            \<and> (True \<longrightarrow> durable env (tm_settled_outbox m1) r' db db')
            \<and> db_reviews db' = rows_delete (\<lambda>w. rv_task_id w = k) (db_reviews db) @ [v]
            \<and> rv_review_id v = review_id \<and> rv_task_id v = k \<and> rv_root_task_id v = tk_root_task_id rk
            \<and> rv_payload v = ?p \<and> rv_updated_at v = tk_updated_at rk \<and> root_shows owner m' db')"
          using c unfolding ingested_def by blast
        have rk: "rk = ?r1"
          using r'(1) m1(3) by simp
        have root: "tk_root_task_id rk = tk_root_task_id r0"
          by (simp add: rk)
        have "same_but_review (r0\<lparr>tk_state := TS_waiting_for_human, tk_error := None\<rparr>) r'"
          using r'(3) unfolding rk by (cases r0; cases r') (simp add: same_but_review_def)
        then show ?thesis
          unfolding asked_def using m(2) r'(2) db [unfolded st root m(3)] i by blast
      qed
      then show "mirrored m' \<and> in_step k m' \<and> (loaded k m \<longrightarrow> asked env k pending m m')"
        using c by (simp add: ingested_def)
    qed
  qed (simp_all add: in_whole)
qed simp

lemma wp_mark_waiting_for_human:
  assumes mir: "mirrored m"
  shows "wp (mark_waiting_for_human env k pending)
    (\<lambda>_ m'. mirrored m' \<and> in_step k m' \<and> (loaded k m \<longrightarrow> asked env k pending m m'))
    (\<lambda>_ m'. mirrored m' \<and> (loaded k m \<longrightarrow> unchanged m m')) m"
  unfolding mark_waiting_for_human_def wp_then
proof (rule wp_get_task [OF mir])
  fix r and m1 :: manager
  assume m1: "mirrored m1" "map_of (tm_tasks m1) k = Some r" "map_of (tm_tasks m) k \<noteq> None \<Longrightarrow> m1 = m"
  have same: "loaded k m \<Longrightarrow> m1 = m"
    using m1(3) by (auto simp: loaded_def)
  let ?Q = "\<lambda>_ m'. mirrored m' \<and> in_step k m' \<and> (loaded k m \<longrightarrow> asked env k pending m m')"
    and ?E = "\<lambda>_ m'. mirrored m' \<and> (loaded k m \<longrightarrow> unchanged m m')"
  show "wp (op_bind (review_identity env pending) (\<lambda>review_id.
      let payload = dict_put (str ''review_id'') (PStr review_id) pending
      in op_bind (get_review review_id) (\<lambda>existing.
         op_bind (review_for_task k) (\<lambda>current.
         op_then (foreign_review k review_id existing)
        (op_bind (root_record env k) (\<lambda>owner. memory_transaction (record_and_root k owner)
           (op_bind (tick env) (\<lambda>now.
            op_then (edit_task k (\<lambda>r. r\<lparr>tk_state := TS_waiting_for_human, tk_updated_at := now,
                tk_pending_review := Some payload, tk_error := None\<rparr>))
              (ingest_pending_review env k review_id payload current True))))))))) ?Q ?E m1"
    unfolding wp_bind [of "review_identity _ _"] Let_def wp_bind [of "get_review _"] wp_bind [of "review_for_task _"] wp_then [of "foreign_review _ _ _"]
  proof (rule wp_review_identity, rule wp_get_review, rule wp_review_for_task, rule wp_foreign_review)
    fix i n v c v' c'
    assume i: "\<And>s. nonempty_str (dict_get (str ''review_id'') pending) = Some s \<Longrightarrow> i = normalize_task_event_text s"
    let ?m = "m1\<lparr>tm_ticks := n, tm_reviews := c, tm_reviews := c'\<rparr>"
    have mm: "mirrored ?m" "map_of (tm_tasks ?m) k = Some r"
      using m1 by simp_all
    show "wp (op_bind (root_record env k) (\<lambda>owner. memory_transaction (record_and_root k owner)
           (op_bind (tick env) (\<lambda>now.
            op_then (edit_task k (\<lambda>r. r\<lparr>tk_state := TS_waiting_for_human, tk_updated_at := now,
                tk_pending_review := Some (dict_put (str ''review_id'') (PStr i) pending), tk_error := None\<rparr>))
              (ingest_pending_review env k i (dict_put (str ''review_id'') (PStr i) pending) v' True))))) ?Q ?E ?m"
      by (rule wp_conseq [OF wp_ask [OF mm i]]) (use same in auto)
  next
    fix i n v c v' c' and e :: manager_error
    show "?E e (m1\<lparr>tm_ticks := n, tm_reviews := c, tm_reviews := c'\<rparr>)"
      using m1(1) same by (auto simp: unchanged_def)
  qed
qed (auto simp: loaded_def)

subsection \<open>Remote snapshots\<close>

abbreviation becomes :: "pystr \<Rightarrow> task_record \<Rightarrow> manager \<Rightarrow> bool" where
  "becomes k r m' \<equiv> mirrored m' \<and> in_step k m' \<and> (\<exists>r'. map_of (tm_tasks m') k = Some r' \<and> same_but_review r r')"

lemma same_but_review_trans: "same_but_review a b \<Longrightarrow> same_but_review b c \<Longrightarrow> same_but_review a c"
  by (cases a; cases b; cases c) (simp add: same_but_review_def)

lemma same_but_review_pending [simp]: "same_but_review (r\<lparr>tk_pending_review := p\<rparr>) r' = same_but_review r r'"
  by (cases r; cases r') (simp add: same_but_review_def)

lemma same_but_review_refl [simp]: "same_but_review r r"
  by (simp add: same_but_review_def)

lemma wp_remove_review:
  assumes f: "frame k owner {k} m0 m" and mir: "mirrored m0" and lost: "owner = None \<Longrightarrow> rootless k m0"
    and r: "map_of (tm_tasks m) k = Some r" "tk_task_id r = k"
  shows "wp (op_bind (list_reviews (Some (tk_root_task_id r)) None) (\<lambda>reviews.
      op_bind (project_root_review env k (filter P reviews)) (\<lambda>(owner, root_changed).
      op_then (persist_review_transition env k None owner root_changed changed) (forget_review i))))
    (\<lambda>_. becomes k r) (\<lambda>_. frame k owner (whole k owner) m0) m"
  unfolding wp_bind
proof (rule wp_list_reviews)
  fix vs c
  let ?m = "m\<lparr>tm_reviews := c\<rparr>"
  let ?E = "\<lambda>_. frame k owner (whole k owner) m0"
  have f1: "frame k owner {k} m0 ?m"
    using f by simp
  have persist: "wp (op_then (persist_review_transition env k None owner ch changed) (forget_review i)) (\<lambda>_. becomes k r) ?E m2"
    if m2: "frame k owner D m0 m2" "D = (if ch then insert k (set_option owner) else {k})"
      "map_of (tm_tasks m2) k = Some r2" "same_but_review r r2" for ch D m2 r2
  proof -
    have "tk_task_id r2 = k"
      using frame_present [OF m2(1), of k] m2(3) by (auto simp: in_whole)
    from wp_persist_review_transition [OF m2(1) mir m2(3) this m2(2)] show ?thesis
      unfolding wp_then forget_review_def wp_modify
      by (rule wp_conseq) (use m2(3,4) in auto)
  qed
  show "wp (project_root_review env k (filter P vs)) (\<lambda>x. wp (case x of (owner, root_changed) \<Rightarrow>
      op_then (persist_review_transition env k None owner root_changed changed) (forget_review i)) (\<lambda>_. becomes k r) ?E) ?E ?m"
  proof (rule wp_project_root_review [OF f1 lost])
    assume "owner = None"
    then show "wp (case (None, False) of (owner, root_changed) \<Rightarrow>
        op_then (persist_review_transition env k None owner root_changed changed) (forget_review i)) (\<lambda>_. becomes k r) ?E ?m"
      using persist [OF f1, of False r] r by simp
  next
    fix q rr assume "owner = Some q"
    then show "wp (case (Some q, False) of (owner, root_changed) \<Rightarrow>
        op_then (persist_review_transition env k None owner root_changed changed) (forget_review i)) (\<lambda>_. becomes k r) ?E ?m"
      using persist [OF f1, of False r] r by simp
  next
    fix q rr now and m' :: manager
    assume q: "owner = Some q" "map_of (tm_tasks ?m) q = Some rr" "frame k owner (insert q {k}) m0 m'"
      "map_of (tm_tasks m') = (map_of (tm_tasks ?m))(q \<mapsto> rr\<lparr>tk_pending_review := projected_review q (filter P vs), tk_updated_at := now\<rparr>)"
    obtain r2 where r2: "map_of (tm_tasks m') k = Some r2" "same_but_review r r2"
      using q r(1) by (cases "q = k") (auto simp: same_but_review_def)
    have "wp (op_then (persist_review_transition env k None owner True changed) (forget_review i)) (\<lambda>_. becomes k r) ?E m'"
      by (rule persist [OF q(3) _ r2]) (use q in auto)
    then show "wp (case (Some q, True) of (owner, root_changed) \<Rightarrow>
        op_then (persist_review_transition env k None owner root_changed changed) (forget_review i)) (\<lambda>_. becomes k r) ?E m'"
      using q(1) by simp
  qed
qed

lemma wp_fingerprint_of: "(\<And>x. Q x m) \<Longrightarrow> (\<And>e. E e m) \<Longrightarrow> wp (fingerprint_of r) Q E m"
  by (auto simp: fingerprint_of_def wp_lift split: sum.split)

lemma remote_fields_id [simp]:
  "tk_task_id (remote_fields env p st n r) = tk_task_id r" "tk_root_task_id (remote_fields env p st n r) = tk_root_task_id r"
  by (simp_all add: remote_fields_def clear_external_fields_def)

lemma wp_sync_accepted:
  assumes f: "frame k owner D m0 m" "D \<subseteq> {k}" and mir: "mirrored m0" and lost: "owner = None \<Longrightarrow> rootless k m0"
    and r: "map_of (tm_tasks m) k = Some r"
  shows "wp (sync_accepted env k payload current previous status n)
    (\<lambda>_. becomes k (remote_fields env payload status n r)) (\<lambda>_. frame k owner (whole k owner) m0) m"
  unfolding sync_accepted_def wp_then wp_bind wp_modify
proof (rule wp_edit_task_in [OF f(1)])
  let ?r = "remote_fields env payload status n r" and ?E = "\<lambda>_. frame k owner (whole k owner) m0"
  fix ra and m1 :: manager
  assume ra: "map_of (tm_tasks m) k = Some ra" "tk_task_id ra = k" and m1:
      "map_of (tm_tasks m1) = (map_of (tm_tasks m))(k \<mapsto> remote_fields env payload status n ra)"
      "frame k owner (insert k D) m0 m1"
  let ?m = "m1\<lparr>tm_runs := live_discard k (tm_runs m1)\<rparr>"
  have only: "insert k D = {k}"
    using f(2) by auto
  have f1: "frame k owner {k} m0 m1"
    using m1(2) unfolding only .
  have f2: "frame k owner {k} m0 ?m"
    by (rule frame_runs [OF f1]) (simp add: live_discard_def delete_conv')
  have at: "map_of (tm_tasks ?m) k = Some ?r" and id: "tk_task_id ?r = k"
    using ra r m1(1) by simp_all
  have save: "wp (save_lifecycle env k) (\<lambda>_. becomes k ?r) ?E ?m" "wp (save_record k) (\<lambda>_. becomes k ?r) ?E ?m"
    by (rule wp_conseq [OF wp_save_lifecycle [OF f2 mir]] wp_conseq [OF wp_save_record [OF f2 mir]]; use at in auto)+
  have ingest: "wp (op_bind (review_identity env pending) (\<lambda>review_id.
            let payload = dict_put (str ''review_id'') (PStr review_id) pending
            in op_then (edit_task k (\<lambda>r. r\<lparr>tk_pending_review := Some payload\<rparr>))
              (op_bind (get_review review_id) (\<lambda>matching.
               op_then (foreign_review k review_id matching)
                 (ingest_pending_review env k review_id payload cur changed))))) (\<lambda>_. becomes k ?r) ?E ?m" for pending changed cur
    unfolding wp_bind Let_def wp_then
  proof (rule wp_review_identity)
    fix i t
    let ?p = "dict_put (str ''review_id'') (PStr i) pending" and ?m3 = "?m\<lparr>tm_ticks := t\<rparr>"
    have f3: "frame k owner {k} m0 ?m3"
      using f2 by simp
    show "wp (edit_task k (\<lambda>r. r\<lparr>tk_pending_review := Some ?p\<rparr>)) (\<lambda>_. wp (get_review i) (\<lambda>matching.
        wp (foreign_review k i matching) (\<lambda>_. wp (ingest_pending_review env k i ?p cur changed) (\<lambda>_. becomes k ?r) ?E) ?E) ?E) ?E ?m3"
    proof (rule wp_edit_task_in [OF f3], simp_all only: in_whole, simp_all, rule wp_get_review, rule wp_foreign_review)
      fix rb v c and m4 :: manager
      assume m4: "map_of (tm_tasks m1) k = Some rb" "frame k owner {k} m0 m4"
        "map_of (tm_tasks m4) = (map_of (tm_tasks m1))(k \<mapsto> rb\<lparr>tk_pending_review := Some ?p\<rparr>)"
      have f5: "frame k owner {k} m0 (m4\<lparr>tm_reviews := c\<rparr>)"
        using m4(2) by simp
      show "wp (ingest_pending_review env k i ?p cur changed) (\<lambda>_. becomes k ?r) ?E (m4\<lparr>tm_reviews := c\<rparr>)"
        by (rule wp_conseq [OF wp_ingest_pending_review [OF f5 mir lost]])
          (use m4 at in \<open>auto simp: ingested_def\<close>)
      show "frame k owner (whole k owner) m0 (m4\<lparr>tm_reviews := c\<rparr>)"
        by (rule frame_whole [OF f5])
    qed
  qed
  note remove = wp_remove_review [OF f2 mir lost at id, unfolded remote_fields_id]
  show "wp (the_task k) (\<lambda>r. wp (fingerprint_of r) (\<lambda>fingerprint. wp (
     let record_changed = (fingerprint \<noteq> previous)
     in case (tk_state r, tk_pending_review r) of
          (TS_waiting_for_human, Some pending) \<Rightarrow>
            op_bind (review_identity env pending) (\<lambda>review_id.
            let payload = dict_put (str ''review_id'') (PStr review_id) pending
            in op_then (edit_task k (\<lambda>r. r\<lparr>tk_pending_review := Some payload\<rparr>))
              (op_bind (get_review review_id) (\<lambda>matching.
               op_then (foreign_review k review_id matching)
                 (ingest_pending_review env k review_id payload current record_changed))))
        | _ \<Rightarrow>
            (case current of
               Some v \<Rightarrow>
                 op_bind (list_reviews (Some (tk_root_task_id r)) None) (\<lambda>reviews.
                 op_bind (project_root_review env k (filter (\<lambda>w. rv_review_id w \<noteq> rv_review_id v) reviews))
                   (\<lambda>(owner, root_changed).
                 op_then (persist_review_transition env k None owner root_changed record_changed)
                   (forget_review (rv_review_id v))))
             | None \<Rightarrow> if record_changed then save_lifecycle env k else save_record k))
      (\<lambda>_. becomes k ?r) ?E) ?E) ?E ?m"
    unfolding wp_the_task at option.case Let_def
    by (rule wp_fingerprint_of)
      (auto simp: wp_if intro!: save ingest [unfolded Let_def] remove frame_whole [OF f2] split: task_state.split option.split)
qed (simp_all add: in_whole)

text \<open>
  What a remote snapshot makes of the record: with an operation whose effect the snapshot does not
  prove, nothing but the mark of an uncertain outcome; else the fields of the snapshot, the operation
  cleared.
\<close>

definition reconciled :: "manager_env \<Rightarrow> pydict \<Rightarrow> task_record \<Rightarrow> task_record \<Rightarrow> bool" where
  "reconciled env payload r r' \<longleftrightarrow> (\<exists>status n. validate_remote_task_state (tk_task_id r) payload = Inr (status, n) \<and>
     (case tk_external_operation r of
        Some operation \<Rightarrow>
          if effect_is_proven r payload status n then same_but_review (remote_fields env payload status n r) r'
          else (\<exists>now flag. r' = (mark_record_uncertain operation r)\<lparr>tk_updated_at := now, tk_mailbox_delivered := flag\<rparr>)
      | None \<Rightarrow> same_but_review (remote_fields env payload status n r) r'))"

lemma wp_reconcile_remote_task:
  assumes f: "frame k owner D m0 m" "D \<subseteq> {k}" and mir: "mirrored m0" and lost: "owner = None \<Longrightarrow> rootless k m0"
    and r: "map_of (tm_tasks m) k = Some r" "tk_task_id r = k"
  shows "wp (reconcile_remote_task env k payload)
    (\<lambda>_ m'. mirrored m' \<and> in_step k m' \<and> (\<exists>r'. map_of (tm_tasks m') k = Some r' \<and> reconciled env payload r r'))
    (\<lambda>_. frame k owner (whole k owner) m0) m"
proof -
  let ?Q = "\<lambda>_ m'. mirrored m' \<and> in_step k m' \<and> (\<exists>r'. map_of (tm_tasks m') k = Some r' \<and> reconciled env payload r r')"
    and ?E = "\<lambda>_. frame k owner (whole k owner) m0"
  have known: "wp (get_task env k) Q E m \<longleftrightarrow> Q r m" for Q E
    using r(1) by (simp add: get_task_def wp_simps)
  show ?thesis
    unfolding reconcile_remote_task_def wp_bind [of "get_task env k"] known wp_bind [of "review_for_task _"] wp_bind [of "fingerprint_of _"] wp_bind [of "op_lift _"]
  proof (rule wp_review_for_task, rule wp_fingerprint_of)
    fix current c previous
    let ?m = "m\<lparr>tm_reviews := c\<rparr>"
    have f1: "frame k owner D m0 ?m"
      using f(1) by simp
    have at: "map_of (tm_tasks ?m) k = Some r"
      using r(1) by simp
    show "?E e ?m" for e
      by (rule frame_whole [OF f1])
    have accepted: "wp (sync_accepted env k payload current previous status n) ?Q ?E ?m"
      if "validate_remote_task_state k payload = Inr (status, n)"
        "\<forall>operation. tk_external_operation r = Some operation \<longrightarrow> effect_is_proven r payload status n" for status n
      by (rule wp_conseq [OF wp_sync_accepted [OF f1 f(2) mir lost at]])
        (use that r(2) in \<open>auto simp: reconciled_def split: option.split\<close>)
    have uncertain: "wp (op_then (edit_task k (mark_record_uncertain operation))
        (op_bind (tick env) (\<lambda>now. op_then (edit_task k (\<lambda>r. r\<lparr>tk_updated_at := now\<rparr>)) (save_uncertain k)))) ?Q ?E ?m"
      if v: "validate_remote_task_state k payload = Inr (status, n)"
        "tk_external_operation r = Some operation" "\<not> effect_is_proven r payload status n" for status n operation
      unfolding wp_then wp_bind wp_tick
    proof (rule wp_edit_task_in [OF f1])
      fix ra and m1 :: manager
      assume m1: "map_of (tm_tasks ?m) k = Some ra" "map_of (tm_tasks m1) = (map_of (tm_tasks ?m))(k \<mapsto> mark_record_uncertain operation ra)"
        "frame k owner (insert k D) m0 m1"
      have only: "insert k D = {k}"
        using f(2) by auto
      have f2: "frame k owner {k} m0 (m1\<lparr>tm_ticks := Suc (tm_ticks m1)\<rparr>)"
        using m1(3) unfolding only by simp
      show "wp (edit_task k (\<lambda>r. r\<lparr>tk_updated_at := env_clock env (tm_ticks m1)\<rparr>)) (\<lambda>_. wp (save_uncertain k) ?Q ?E) ?E
          (m1\<lparr>tm_ticks := Suc (tm_ticks m1)\<rparr>)"
      proof (rule wp_edit_task_in [OF f2])
        fix rb and m2 :: manager
        let ?m1 = "m1\<lparr>tm_ticks := Suc (tm_ticks m1)\<rparr>"
        assume m2: "map_of (tm_tasks ?m1) k = Some rb" "frame k owner (insert k {k}) m0 m2"
          "map_of (tm_tasks m2) = (map_of (tm_tasks ?m1))(k \<mapsto> rb\<lparr>tk_updated_at := env_clock env (tm_ticks m1)\<rparr>)"
        have rb: "rb = mark_record_uncertain operation r"
          using m2(1) m1 r by simp
        have "reconciled env payload r (rb\<lparr>tk_updated_at := now, tk_mailbox_delivered := flag\<rparr>)" for now flag
          using v r(2) by (auto simp: reconciled_def rb)
        then show "wp (save_uncertain k) ?Q ?E m2"
          by (intro wp_conseq [OF wp_save_uncertain [OF m2(2) [unfolded insert_absorb2] mir]]) (use m2(3) in auto)
      qed (simp_all add: in_whole)
    qed (simp_all add: in_whole mark_record_uncertain_def)
    show "wp (op_lift (lift_error ME_python (validate_remote_task_state k payload))) (\<lambda>x. wp (case x of (status, run_count) \<Rightarrow>
       (case tk_external_operation r of
         Some operation \<Rightarrow>
           if \<not> effect_is_proven r payload status run_count then
             op_then (edit_task k (mark_record_uncertain operation))
            (op_bind (tick env) (\<lambda>now.
             op_then (edit_task k (\<lambda>r. r\<lparr>tk_updated_at := now\<rparr>)) (save_uncertain k)))
           else sync_accepted env k payload current previous status run_count
       | None \<Rightarrow> sync_accepted env k payload current previous status run_count)) ?Q ?E) ?E ?m"
      using frame_whole [OF f1]
      by (auto simp: wp_lift intro!: accepted uncertain split: sum.split option.split)
  qed
qed

text \<open>Both ways a snapshot comes in.\<close>

definition snapshot_taken :: "manager_env \<Rightarrow> pystr \<Rightarrow> pydict \<Rightarrow> (task_record \<Rightarrow> task_record) \<Rightarrow> manager \<Rightarrow> manager \<Rightarrow> bool" where
  "snapshot_taken env k payload f m m' \<longleftrightarrow> (\<forall>r. map_of (tm_tasks m) k = Some r \<longrightarrow>
     (\<exists>r'. map_of (tm_tasks m') k = Some r' \<and> reconciled env payload (f r) r'))"

lemma wp_sync_remote_task:
  assumes mir: "mirrored m"
  shows "wp (sync_remote_task env k payload)
    (\<lambda>r' m'. mirrored m' \<and> in_step k m' \<and> map_of (tm_tasks m') k = Some r' \<and> (loaded k m \<longrightarrow> snapshot_taken env k payload (\<lambda>r. r) m m'))
    (\<lambda>_ m'. mirrored m' \<and> (loaded k m \<longrightarrow> unchanged m m')) m"
  unfolding sync_remote_task_def wp_then
proof (rule wp_in_transaction [OF mir])
  fix owner and m0 :: manager
  assume m0: "mirrored m0" "scope k owner m0" "owner = None \<Longrightarrow> rootless k m0" "loaded k m \<Longrightarrow> m0 = m"
  obtain r where r: "map_of (tm_tasks m0) k = Some r" "tk_task_id r = k"
    using m0(2) by (auto simp: scope_def)
  show "wp (reconcile_remote_task env k payload) (\<lambda>_. wp (the_task k)
      (\<lambda>r' m'. mirrored m' \<and> in_step k m' \<and> map_of (tm_tasks m') k = Some r' \<and> (loaded k m \<longrightarrow> snapshot_taken env k payload (\<lambda>r. r) m m'))
      (\<lambda>_ m'. mirrored m' \<and> (loaded k m \<longrightarrow> unchanged m m'))) (\<lambda>_. frame k owner (whole k owner) m0) m0"
    by (rule wp_conseq [OF wp_reconcile_remote_task [OF frame_refl [OF m0(2)] _ m0(1,3) r]])
      (use m0(4) r in \<open>auto simp: wp_the_task snapshot_taken_def\<close>)
qed simp

lemma wp_bind_and_sync_remote_task:
  assumes mir: "mirrored m"
  shows "wp (bind_and_sync_remote_task env k upstream payload)
    (\<lambda>r' m'. mirrored m' \<and> in_step k m' \<and> map_of (tm_tasks m') k = Some r' \<and> (loaded k m \<longrightarrow>
       snapshot_taken env k payload (\<lambda>r. r\<lparr>tk_upstream_task_id := Some upstream, tk_thread_id := tk_task_id r\<rparr>) m m'))
    (\<lambda>_ m'. mirrored m' \<and> (loaded k m \<longrightarrow> unchanged m m')) m"
  unfolding bind_and_sync_remote_task_def wp_then
proof (rule wp_in_transaction [OF mir])
  let ?f = "\<lambda>r. r\<lparr>tk_upstream_task_id := Some upstream, tk_thread_id := tk_task_id r\<rparr>"
  let ?Q = "\<lambda>r' m'. mirrored m' \<and> in_step k m' \<and> map_of (tm_tasks m') k = Some r' \<and> (loaded k m \<longrightarrow> snapshot_taken env k payload ?f m m')"
    and ?E = "\<lambda>_ m'. mirrored m' \<and> (loaded k m \<longrightarrow> unchanged m m')"
  fix owner and m0 :: manager
  assume m0: "mirrored m0" "scope k owner m0" "owner = None \<Longrightarrow> rootless k m0" "loaded k m \<Longrightarrow> m0 = m"
  show "wp (op_then (edit_task k ?f) (reconcile_remote_task env k payload)) (\<lambda>_. wp (the_task k) ?Q ?E)
      (\<lambda>_. frame k owner (whole k owner) m0) m0"
    unfolding wp_then
  proof (rule wp_edit_task_in [OF frame_refl [OF m0(2)]])
    fix r and m1 :: manager
    assume m1: "map_of (tm_tasks m0) k = Some r" "tk_task_id r = k" "map_of (tm_tasks m1) = (map_of (tm_tasks m0))(k \<mapsto> ?f r)"
      "frame k owner {k} m0 m1"
    have at: "map_of (tm_tasks m1) k = Some (?f r)" and id: "tk_task_id (?f r) = k"
      using m1 by simp_all
    show "wp (reconcile_remote_task env k payload) (\<lambda>_. wp (the_task k) ?Q ?E) (\<lambda>_. frame k owner (whole k owner) m0) m1"
      by (rule wp_conseq [OF wp_reconcile_remote_task [OF m1(4) _ m0(1,3) at id]])
        (use m0(4) m1(1) in \<open>auto simp: wp_the_task snapshot_taken_def\<close>)
  qed (simp_all add: in_whole)
qed simp

subsection \<open>Creation and suppression\<close>

lemma sound_mark_mailbox_suppressed:
  assumes mir: "mirrored m"
  shows "sound (in_step k) k (mark_mailbox_suppressed env k) m"
  unfolding mark_mailbox_suppressed_def op_then_def
proof (rule sound_get_task [OF mir], fold op_then_def)
  fix r and m' :: manager
  assume m': "mirrored m'" "map_of (tm_tasks m') k = Some r"
  have s: "scope k None m'"
    using m' mirrored_id [OF m'] by (simp add: scope_def)
  let ?body = "op_then (edit_task k (\<lambda>r. r\<lparr>tk_mailbox_suppressed := True\<rparr>))
       (op_bind (op_get tm_settled_outbox) (\<lambda>enabled.
        if enabled then op_bind (tick env) (\<lambda>now. op_bind (the_task k) (\<lambda>r.
          op_then (commit (suppress_settled_delivery r now)) (op_ret ())))
        else save_record k))"
  have "inside k None ?body m' m'"
    unfolding wp_then wp_bind wp_get wp_if wp_tick wp_ret
  proof (rule inside_edit [OF frame_refl [OF s]])
    fix m1 assume f1: "frame k None {k} m' m1"
    let ?m = "m1\<lparr>tm_ticks := Suc (tm_ticks m1)\<rparr>" and ?now = "env_clock env (tm_ticks m1)"
    have f2: "frame k None {k} m' ?m"
      using f1 by simp
    have "wp (the_task k) (\<lambda>r. wp (commit (suppress_settled_delivery r ?now)) (\<lambda>_ m'. mirrored m' \<and> in_step k m') (\<lambda>_. frame k None (whole k None) m')) (\<lambda>_. frame k None (whole k None) m') ?m"
    proof (rule wp_the_task_in [OF f2], simp add: in_whole, rule wp_commit [OF f2])
      fix ra assume "map_of (tm_tasks ?m) k = Some ra" "tm_store ?m = None"
      then show "mirrored ?m \<and> in_step k ?m"
        using mirrored_memory_only [OF f2 m'(1)] by (simp add: wp_ret in_step_def)
    next
      fix ra db db' x and m2 :: manager
      assume ra: "map_of (tm_tasks ?m) k = Some ra" "tk_task_id ra = k" and s: "tm_store ?m = Some db"
        and w: "suppress_settled_delivery ra ?now db = (db', Inr x)" and m2: "tm_store m2 = Some db'" "tm_tasks m2 = tm_tasks ?m"
      have "mirrored m2"
        by (rule mirrored_commit [OF f2 m'(1) s keeps_db [OF w keeps_suppress_settled] m2(1)])
          (use m2(2) ra rows_suppressed [OF w] in auto)
      then show "mirrored m2 \<and> in_step k m2"
        using m2 ra fun_cong [OF rows_suppressed [OF w], of k] by (simp add: wp_ret in_step_def rows_def)
    qed simp
    then show "if tm_settled_outbox m1
        then wp (the_task k) (\<lambda>r. wp (commit (suppress_settled_delivery r ?now)) (\<lambda>_ m'. mirrored m' \<and> in_step k m') (\<lambda>_. frame k None (whole k None) m')) (\<lambda>_. frame k None (whole k None) m') ?m
        else inside k None (save_record k) m' m1"
      using inside_saves(1) [OF f1 m'(1)] by simp
  qed simp_all
  then have "wp (memory_transaction (record_and_root k None) ?body) (\<lambda>_ m'. mirrored m' \<and> in_step k m') (\<lambda>_. unchanged m') m'"
    by (rule wp_memory_transaction [OF s])
  then show "sound (in_step k) k (memory_transaction [k] ?body) m'"
    unfolding sound_def record_and_root_def option.case
    by (rule wp_conseq) (use mirrored_unchanged [OF m'(1)] in auto)
qed

lemma wp_commit_bare:
  assumes "rolls_back w" and "tm_store m = None \<Longrightarrow> Q None m"
    and "\<And>db db' x m'. tm_store m = Some db \<Longrightarrow> w db = (db', Inr x) \<Longrightarrow> tm_store m' = Some db'
      \<Longrightarrow> tm_tasks m' = tm_tasks m \<Longrightarrow> Q (Some x) m'"
    and "\<And>e m'. unchanged m m' \<Longrightarrow> E e m'"
  shows "wp (commit w) Q E m"
proof (cases "tm_store m")
  case None
  then show ?thesis
    using assms(2) by (simp add: wp_def commit_def)
next
  case (Some db)
  obtain db' res where w: "w db = (db', res)"
    by (cases "w db")
  have "db' = db" if "res = Inl e" for e
    using assms(1) w that by (auto simp: rolls_back_def)
  then show ?thesis
    using assms(3) [OF Some, of db'] assms(4) w Some
    by (cases res) (simp_all add: wp_def commit_def Let_def unchanged_def)
qed

lemma rows_insert_with_event:
  assumes "insert_task_with_event r e db = (db', Inr ev)"
  shows "rows db' = (rows db)(tk_task_id r \<mapsto> r)"
proof -
  obtain db1 where 1: "insert_task_locked r db = Inr db1"
    and 2: "appended_event (tk_task_id r) (tk_run_count r) (es_event_type e) (es_data e) (es_created_at e) db1 = Inr (db', ev)"
    using assms unfolding insert_task_with_event_def transact_Inr
    by (elim and_then_elim) (rule that, assumption+)
  have "rows db1 = (rows db)(tk_task_id r \<mapsto> r)"
    using 1 by (auto simp: insert_task_locked_def rows_def task_at_def row_at_snoc fun_eq_iff split: option.splits)
  then show ?thesis
    using rows_tasks [OF appended_event_tasks [OF 2]] by simp
qed

lemma wp_create_task_record:
  assumes mir: "mirrored m"
  shows "wp (create_task_record env q) (\<lambda>r m'. mirrored m' \<and> in_step (rq_task_id q) m' \<and> map_of (tm_tasks m') (rq_task_id q) = Some r)
    (\<lambda>_ m'. mirrored m' \<and> unchanged m m') m"
proof -
  let ?Q = "\<lambda>r m'. mirrored m' \<and> in_step (rq_task_id q) m' \<and> map_of (tm_tasks m') (rq_task_id q) = Some r"
    and ?E = "\<lambda>_ m'. mirrored m' \<and> unchanged m m'"
  let ?m = "m\<lparr>tm_ticks := Suc (Suc (tm_ticks m))\<rparr>"
  let ?k = "rq_task_id q" and ?r = "requested_record q (env_clock env (tm_ticks m)) (env_clock env (Suc (tm_ticks m)))"
  have id: "tk_task_id ?r = ?k"
    by (simp add: requested_record_def)
  have fails: "?E e ?m" for e :: manager_error
    using mir by (simp add: unchanged_def)
  have store: "wp (case tm_store m of None \<Rightarrow> op_ret () | Some _ \<Rightarrow> op_bind (event_data ?r) (\<lambda>data.
          op_then (commit (insert_task_with_event ?r \<lparr>es_event_type = str ''task.created'', es_data = data,
            es_created_at = tk_updated_at ?r\<rparr>)) (op_ret ()))) (\<lambda>_ m'. wp (op_then (put_task ?r) (op_ret ?r)) ?Q ?E m') ?E ?m"
    if new: "map_of (tm_tasks m) ?k = None"
  proof (cases "tm_store m")
    case None
    have "mirrored (?m\<lparr>tm_tasks := AList.update ?k ?r (tm_tasks m)\<rparr>)"
      using mir None id by (auto simp: mirrored_def update_conv')
    then show ?thesis
      using None id by (simp add: wp_ret wp_then put_task_def wp_modify in_step_def update_conv')
  next
    case (Some db)
    let ?e = "\<lambda>data. \<lparr>es_event_type = str ''task.created'', es_data = data, es_created_at = tk_updated_at ?r\<rparr>"
    have "wp (commit (insert_task_with_event ?r (?e data))) (\<lambda>_ m'. wp (op_then (put_task ?r) (op_ret ?r)) ?Q ?E m') ?E ?m" for data
    proof (rule wp_commit_bare)
      fix dba db' x and m' :: manager
      assume w: "insert_task_with_event ?r (?e data) dba = (db', Inr x)" and s: "tm_store ?m = Some dba"
        and m': "tm_store m' = Some db'" "tm_tasks m' = tm_tasks ?m"
      have at: "task_at p db' = (if p = ?k then Some ?r else task_at p dba)" for p
        using fun_cong [OF rows_insert_with_event [OF w], of p] by (simp add: rows_def id)
      have "db_inv db'"
        using keeps_db [OF w keeps_insert_task_with_event] mir s by (simp add: keeps_def mirrored_def)
      moreover have "mirrors db' r" if "map_of (tm_tasks m) p = Some r" for p r
      proof -
        have "mirrors dba r" "tk_task_id r = p" "p \<noteq> ?k"
          using mir that s new by (auto simp: mirrored_def)
        then show ?thesis
          by (simp add: mirrors_def at)
      qed
      moreover have "mirrors db' ?r"
        by (simp add: mirrors_def at id)
      ultimately have "mirrored (m'\<lparr>tm_tasks := AList.update ?k ?r (tm_tasks m')\<rparr>)"
        using mir m' id by (auto simp: mirrored_def update_conv' split: if_splits)
      then show "wp (op_then (put_task ?r) (op_ret ?r)) ?Q ?E m'"
        using m' id by (simp add: wp_ret wp_then put_task_def wp_modify in_step_def update_conv' at)
    next
      fix e and m' :: manager assume "unchanged ?m m'"
      then have u: "unchanged m m'"
        by simp
      then show "?E e m'"
        using mirrored_unchanged [OF mir] by blast
    qed (use Some in simp_all)
    then show ?thesis
      unfolding Some option.case wp_bind [of "event_data _"] wp_then [of "commit _"] wp_ret
      by (intro wp_event_data fails)
  qed
  show ?thesis
    unfolding create_task_record_def wp_bind wp_tick Let_def wp_get case_prod_conv
    using store fails by (auto simp: wp_raise wp_then split: option.split)
qed

subsection \<open>Writes outside a memory transaction\<close>

lemma wp_row_alone:
  assumes "mirrored m" and "map_of (tm_tasks m) k = Some r"
    and "\<And>m1. frame k None {} m m \<Longrightarrow> wp c (\<lambda>_ m'. mirrored m' \<and> in_step k m') (\<lambda>_ _. True) m"
  shows "wp c (\<lambda>_ m'. mirrored m') (\<lambda>_ _. True) m"
proof -
  have "scope k None m"
    using assms(2) mirrored_id [OF assms(1,2)] by (simp add: scope_def)
  then show ?thesis
    using wp_conseq [OF assms(3) [OF frame_refl]] by auto
qed

lemma wp_mark_mailbox_delivered:
  assumes mir: "mirrored m"
  shows "wp (mark_mailbox_delivered env k) (\<lambda>_ m'. mirrored m') (\<lambda>_ _. True) m"
  unfolding mark_mailbox_delivered_def wp_then
proof (rule wp_get_task [OF mir])
  fix r and m1 :: manager assume m1: "mirrored m1" "map_of (tm_tasks m1) k = Some r"
  have "wp (op_then (edit_task k (\<lambda>r. r\<lparr>tk_mailbox_delivered := True\<rparr>)) (save_record k)) (\<lambda>_ m'. mirrored m') (\<lambda>_ _. True) m1"
  proof (rule wp_row_alone [OF m1])
    assume f: "frame k None {} m1 m1"
    show "wp (op_then (edit_task k (\<lambda>r. r\<lparr>tk_mailbox_delivered := True\<rparr>)) (save_record k))
        (\<lambda>_ m'. mirrored m' \<and> in_step k m') (\<lambda>_ _. True) m1"
      unfolding wp_then
      by (rule inside_edit [OF f]) (auto intro: wp_conseq [OF inside_saves(1) [OF _ m1(1)]])
  qed
  then show "wp (edit_task k (\<lambda>r. r\<lparr>tk_mailbox_delivered := True\<rparr>)) (\<lambda>_. wp (save_record k) (\<lambda>_ m'. mirrored m') (\<lambda>_ _. True)) (\<lambda>_ _. True) m1"
    by (simp add: wp_then)
qed simp

lemma inside_publish:
  assumes f: "frame k owner {k} m0 m" and mir: "mirrored m0" and s: "tm_store m = Some db"
  shows "inside k owner (op_bind (the_task k) (\<lambda>r.
      op_bind (op_lift (lift_error ME_python (artifact_event_data r artifact))) (\<lambda>data.
      op_then (commit (update_task_with_event r
          \<lparr>es_event_type = str ''task.artifact_published'', es_data = data,
           es_created_at = tk_updated_at r\<rparr> None)) (op_ret ())))) m0 m"
  unfolding wp_bind
proof (rule wp_the_task_in [OF f])
  fix r assume r: "map_of (tm_tasks m) k = Some r" "tk_task_id r = k"
  show "wp (op_lift (lift_error ME_python (artifact_event_data r artifact)))
      (\<lambda>data. wp (op_then (commit (update_task_with_event r \<lparr>es_event_type = str ''task.artifact_published'', es_data = data,
           es_created_at = tk_updated_at r\<rparr> None)) (op_ret ())) (\<lambda>_ m'. mirrored m' \<and> in_step k m') (\<lambda>_. frame k owner (whole k owner) m0))
      (\<lambda>_. frame k owner (whole k owner) m0) m"
  proof (cases "artifact_event_data r artifact")
    case (Inl e)
    then show ?thesis
      using frame_whole [OF f] by (simp add: wp_lift)
  next
    case (Inr data)
    let ?e = "\<lparr>es_event_type = str ''task.artifact_published'', es_data = data, es_created_at = tk_updated_at r\<rparr>"
    have "wp (commit (update_task_with_event r ?e None)) (\<lambda>_ m'. mirrored m' \<and> in_step k m') (\<lambda>_. frame k owner (whole k owner) m0) m"
    proof (rule wp_commit [OF f])
      fix db db' x and m' :: manager
      assume s: "tm_store m = Some db" and w: "update_task_with_event r ?e None db = (db', Inr x)"
        and m': "tm_store m' = Some db'" "tm_tasks m' = tm_tasks m"
      have "mirrored m'"
        by (rule mirrored_commit [OF f mir s keeps_db [OF w keeps_update_task_with_event] m'(1)])
          (use m'(2) r rows_update_with_event [OF w] in auto)
      then show "mirrored m' \<and> in_step k m'"
        using m' r fun_cong [OF rows_update_with_event [OF w], of k] by (simp add: in_step_def rows_def)
    qed (use s in simp_all)
    then show ?thesis
      by (simp add: Inr wp_lift wp_then wp_ret)
  qed
qed (simp add: in_whole)

lemma wp_add_artifact:
  assumes mir: "mirrored m"
  shows "wp (add_artifact env k artifact) (\<lambda>_ m'. mirrored m') (\<lambda>_ _. True) m"
  unfolding add_artifact_def wp_then [of "get_task _ _"]
proof (rule wp_get_task [OF mir])
  fix r and m1 :: manager assume m1: "mirrored m1" "map_of (tm_tasks m1) k = Some r"
  let ?save = "\<lambda>store. case store of
          None \<Rightarrow> save_record k
        | Some _ \<Rightarrow> op_bind (the_task k) (\<lambda>r.
            op_bind (op_lift (lift_error ME_python (artifact_event_data r artifact))) (\<lambda>data.
            op_then (commit (update_task_with_event r
                \<lparr>es_event_type = str ''task.artifact_published'', es_data = data,
                 es_created_at = tk_updated_at r\<rparr> None)) (op_ret ())))"
  let ?c = "op_then (edit_task k (\<lambda>r. r\<lparr>tk_artifacts := tk_artifacts r @ [artifact]\<rparr>))
     (op_bind (tick env) (\<lambda>now. op_then (edit_task k (\<lambda>r. r\<lparr>tk_updated_at := now\<rparr>)) (op_bind (op_get tm_store) ?save)))"
  have saved: "wp (?save (tm_store m3)) (\<lambda>_ m'. mirrored m' \<and> in_step k m') (\<lambda>_ _. True) m3"
    if f3: "frame k None {k} m1 m3" for m3
  proof (cases "tm_store m3")
    case None
    then show ?thesis
      using wp_conseq [OF inside_saves(1) [OF f3 m1(1)]] by simp
  next
    case (Some db)
    then show ?thesis
      using wp_conseq [OF inside_publish [OF f3 m1(1) Some, of artifact]] by simp
  qed
  have "wp ?c (\<lambda>_ m'. mirrored m') (\<lambda>_ _. True) m1"
  proof (rule wp_row_alone [OF m1])
    assume f: "frame k None {} m1 m1"
    show "wp ?c (\<lambda>_ m'. mirrored m' \<and> in_step k m') (\<lambda>_ _. True) m1"
      unfolding wp_then wp_bind wp_tick wp_get
    proof (rule inside_edit [OF f])
      fix m2 assume "frame k None {k} m1 m2"
      then have f2: "frame k None {k} m1 (m2\<lparr>tm_ticks := Suc (tm_ticks m2)\<rparr>)"
        by simp
      show "wp (edit_task k (\<lambda>r. r\<lparr>tk_updated_at := env_clock env (tm_ticks m2)\<rparr>))
          (\<lambda>_ s. wp (?save (tm_store s)) (\<lambda>_ m'. mirrored m' \<and> in_step k m') (\<lambda>_ _. True) s) (\<lambda>_ _. True)
          (m2\<lparr>tm_ticks := Suc (tm_ticks m2)\<rparr>)"
        by (rule inside_edit [OF f2]) (simp_all add: saved)
    qed simp_all
  qed
  then show "wp ?c (\<lambda>_ m'. mirrored m') (\<lambda>_ _. True) m1" .
qed simp

subsection \<open>Loading\<close>

text \<open>Every row but the one of \<open>q\<close> is as it was in \<open>db\<close>.\<close>

definition others_kept :: "pystr \<Rightarrow> task_db \<Rightarrow> manager \<Rightarrow> bool" where
  "others_kept q db m \<longleftrightarrow> (\<exists>db'. tm_store m = Some db' \<and> (\<forall>p. p \<noteq> q \<longrightarrow> rows db' p = rows db p))"

lemma wp_commit_others:
  assumes "tm_store m = Some db" and "\<And>db' x p. w db = (db', Inr x) \<Longrightarrow> p \<noteq> q \<Longrightarrow> rows db' p = rows db p"
    and "\<And>x m'. others_kept q db m' \<Longrightarrow> tm_tasks m' = tm_tasks m \<Longrightarrow> Q x m'"
  shows "wp (commit w) Q (\<lambda>_ _. True) m"
proof -
  obtain db' res where w: "w db = (db', res)"
    by (cases "w db")
  then show ?thesis
    using assms by (cases res) (simp_all add: wp_def commit_def Let_def others_kept_def)
qed

lemma saves_keep_others:
  assumes r: "map_of (tm_tasks m) q = Some r" "tk_task_id r = q" and db: "tm_store m = Some db" "db_inv db"
  shows "wp (save_uncertain q) (\<lambda>_ m'. others_kept q db m' \<and> map_of (tm_tasks m') q \<noteq> None) (\<lambda>_ _. True) m"
    and "wp (save_lifecycle env q) (\<lambda>_ m'. others_kept q db m' \<and> map_of (tm_tasks m') q \<noteq> None) (\<lambda>_ _. True) m"
proof -
  show "wp (save_uncertain q) (\<lambda>_ m'. others_kept q db m' \<and> map_of (tm_tasks m') q \<noteq> None) (\<lambda>_ _. True) m"
    unfolding save_uncertain_def wp_bind wp_the_task r(1) option.case
    by (rule wp_commit_others [OF db(1)])
      (use r rows_uncertain [OF db(2)] in
        \<open>auto simp: wp_ret wp_edit_task update_conv' others_kept_def split: option.split dest!: rows_uncertain [OF db(2)]\<close>)
  show "wp (save_lifecycle env q) (\<lambda>_ m'. others_kept q db m' \<and> map_of (tm_tasks m') q \<noteq> None) (\<lambda>_ _. True) m"
    unfolding save_lifecycle_def wp_bind wp_get db(1) option.case wp_the_task r(1) event_data_def wp_lift
      wp_settled_outbox_intent wp_then wp_ret
    using r
    by (auto split: sum.split intro!: wp_commit_others [OF db(1)] dest!: rows_update_with_event)
qed

lemma wp_restore_others:
  assumes mir: "mirrored m" and db: "tm_store m = Some db" and row: "task_at q db = Some stored"
  shows "wp (restore_stored_record env stored) (\<lambda>_. others_kept q db) (\<lambda>_ _. True) m"
proof -
  let ?r = "task_record_for_restart (env_clock env (tm_ticks m)) stored"
  let ?m = "m\<lparr>tm_ticks := Suc (tm_ticks m), tm_tasks := AList.update q ?r (tm_tasks m)\<rparr>"
  have id: "tk_task_id stored = q"
    using row_at_SomeD row by (fastforce simp: task_at_def)
  have inv: "db_inv db"
    using mir db by (simp add: mirrored_def)
  have at: "map_of (tm_tasks ?m) q = Some ?r" "tk_task_id ?r = q" "tm_store ?m = Some db"
    using id db by (simp_all add: update_conv')
  note saves = saves_keep_others [OF at inv]
  have "wp (save_uncertain q) (\<lambda>_. wp (the_task q) (\<lambda>_. others_kept q db) (\<lambda>_ _. True)) (\<lambda>_ _. True) ?m"
    by (rule wp_conseq [OF saves(1)]) (auto simp: wp_the_task)
  moreover have "wp (save_lifecycle env q) (\<lambda>_. wp (the_task q) (\<lambda>_. others_kept q db) (\<lambda>_ _. True)) (\<lambda>_ _. True) ?m"
    by (rule wp_conseq [OF saves(2)]) (auto simp: wp_the_task)
  moreover have "wp (the_task q) (\<lambda>_. others_kept q db) (\<lambda>_ _. True) ?m"
    using at by (simp add: wp_the_task others_kept_def)
  ultimately show ?thesis
    using id by (simp add: restore_stored_record_def Let_def wp_bind wp_then wp_tick wp_when put_task_def wp_modify)
qed

lemma wp_restore_each:
  assumes "mirrored m" and "tm_store m = Some db" and "\<And>s. s \<in> set ss \<Longrightarrow> task_at (tk_task_id s) db = Some s"
    and "distinct (map tk_task_id ss)"
  shows "wp (op_each (\<lambda>stored. op_then (restore_unless_live env stored) (op_ret ())) ss) (\<lambda>_. mirrored) (\<lambda>_. mirrored) m"
  using assms
proof (induction ss arbitrary: m db)
  case Nil
  then show ?case
    by (simp add: wp_ret)
next
  case (Cons s ss)
  let ?rest = "wp (op_each (\<lambda>stored. op_then (restore_unless_live env stored) (op_ret ())) ss) (\<lambda>_. mirrored) (\<lambda>_. mirrored)"
  have row: "task_at (tk_task_id s) db = Some s"
    using Cons.prems(3) by simp
  have skip: "?rest m"
    using Cons.IH [OF Cons.prems(1,2)] Cons.prems(3,4) by simp
  have rest: "?rest m'" if m': "mirrored m'" "others_kept (tk_task_id s) db m'" for m'
  proof -
    obtain db' where db': "tm_store m' = Some db'" "\<And>p. p \<noteq> tk_task_id s \<Longrightarrow> rows db' p = rows db p"
      using m'(2) by (auto simp: others_kept_def)
    have "task_at (tk_task_id t) db' = Some t" if "t \<in> set ss" for t
    proof -
      have "tk_task_id t \<noteq> tk_task_id s"
        using Cons.prems(4) that by (metis distinct.simps(2) image_eqI list.map(2) list.set_map)
      then show ?thesis
        using db'(2) Cons.prems(3) that by (simp add: rows_def)
    qed
    then show ?thesis
      using Cons.IH [OF m'(1) db'(1)] Cons.prems(4) by simp
  qed
  have "wp (restore_stored_record env s) (\<lambda>_ m'. mirrored m' \<and> others_kept (tk_task_id s) db m') (\<lambda>_. mirrored) m"
    by (rule wp_conseq [OF wp_conj [OF wp_restore [OF Cons.prems(1,2) row] wp_restore_others [OF Cons.prems(1,2) row]]]) auto
  then have "wp (restore_stored_record env s) (\<lambda>_. ?rest) (\<lambda>_. mirrored) m"
    by (rule wp_conseq) (simp_all add: rest)
  then show ?case
    using skip by (auto simp: wp_then wp_bind wp_get wp_ret restore_unless_live_def split: option.split)
qed

lemma wp_load_rows:
  assumes "mirrored m" and "\<And>db. set (query db) \<subseteq> set (db_tasks db)" and "\<And>db. db_inv db \<Longrightarrow> distinct (map tk_task_id (query db))"
  shows "wp (load_rows env query) (\<lambda>_. mirrored) (\<lambda>_. mirrored) m"
proof (cases "tm_store m")
  case None
  then show ?thesis
    using assms(1) by (simp add: load_rows_def wp_bind wp_get wp_ret)
next
  case (Some db)
  have inv: "db_inv db"
    using assms(1) Some by (simp add: mirrored_def)
  then have "task_at (tk_task_id s) db = Some s" if "s \<in> set (query db)" for s
    using that assms(2) by (auto simp: task_at_def db_inv_def intro!: row_at_unique)
  then show ?thesis
    using wp_restore_each [OF assms(1) Some, of "query db" env] assms(3) [OF inv] Some
    by (simp add: load_rows_def wp_bind wp_get)
qed

lemma wp_load_stored:
  assumes "mirrored m" and "\<And>db s. db_inv db \<Longrightarrow> query db = Some s \<Longrightarrow> task_at (tk_task_id s) db = Some s"
  shows "wp (load_stored env query) (\<lambda>_. mirrored) (\<lambda>_. mirrored) m"
proof -
  have "wp (restore_stored_record env s) (\<lambda>_. mirrored) (\<lambda>_. mirrored) m"
    if "tm_store m = Some db" "query db = Some s" for db s
    by (rule wp_restore [OF assms(1) that(1) assms(2) [OF _ that(2)]]) (use assms(1) that in \<open>simp_all add: mirrored_def\<close>)
  then show ?thesis
    using assms(1) by (auto simp: load_stored_def restore_unless_live_def wp_bind wp_get wp_ret split: option.split)
qed

lemma wp_loads:
  assumes "mirrored m"
  shows "wp (load_task_by_id env k) (\<lambda>_. mirrored) (\<lambda>_. mirrored) m"
    and "wp (load_task_for_parent_thread env k thread) (\<lambda>_. mirrored) (\<lambda>_. mirrored) m"
    and "wp (load_by_parent_thread_id env thread) (\<lambda>_. mirrored) (\<lambda>_. mirrored) m"
    and "wp (list_persisted_tasks env) (\<lambda>_. mirrored) (\<lambda>_. mirrored) m"
proof -
  have at: "task_at (tk_task_id s) db = Some s" if "task_at k db = Some s" for k db s
    using row_at_SomeD that by (fastforce simp: task_at_def)
  show "wp (load_task_by_id env k) (\<lambda>_. mirrored) (\<lambda>_. mirrored) m"
    unfolding load_task_by_id_def by (rule wp_load_stored [OF assms]) (rule at)
  show "wp (load_task_for_parent_thread env k thread) (\<lambda>_. mirrored) (\<lambda>_. mirrored) m"
    unfolding load_task_for_parent_thread_def
    by (rule wp_load_stored [OF assms])
      (auto simp: task_by_parent_thread_def task_at_def db_inv_def find_Some_iff intro!: row_at_unique)
  show "wp (load_by_parent_thread_id env thread) (\<lambda>_. mirrored) (\<lambda>_. mirrored) m"
    unfolding load_by_parent_thread_id_def
    by (rule wp_load_rows [OF assms])
      (auto simp: tasks_by_parent_thread_def db_inv_def unique_key_def distinct_map_filter)
  show "wp (list_persisted_tasks env) (\<lambda>_. mirrored) (\<lambda>_. mirrored) m"
    unfolding list_persisted_tasks_def list_manager_tasks_def wp_then wp_get
    by (rule wp_load_rows [OF assms]) (auto simp: db_inv_def unique_key_def)
qed

lemma wp_find_by_review_id:
  assumes "mirrored m"
  shows "wp (find_by_review_id env review_id) (\<lambda>_. mirrored) (\<lambda>_. mirrored) m"
proof -
  have found: "mirrored (fst (get_task env k m'))" if "mirrored m'" for k m'
    using wp_get_task [OF that, of k "\<lambda>_. mirrored" "\<lambda>_. mirrored" env]
    by (auto simp: wp_def split: prod.splits sum.splits)
  have "wp (\<lambda>m. case get_task env k m of
           (m', Inl (ME_unknown_task _)) \<Rightarrow> (m', Inr None)
         | (m', Inl e) \<Rightarrow> (m', Inl e)
         | (m', Inr r) \<Rightarrow> (m', Inr (Some r))) (\<lambda>_. mirrored) (\<lambda>_. mirrored) m'" if "mirrored m'" for k m'
    using found [OF that, of k] by (auto simp: wp_def split: prod.splits sum.splits manager_error.splits)
  moreover have "mirrored m' \<and> True" if "mirrored m" "fst (get_review review_id m) = m'" for m'
    using that by (auto simp: get_review_def remember_review_def split: option.splits)
  ultimately show ?thesis
    unfolding find_by_review_id_def wp_bind
    by (auto simp: wp_def [of "get_review _"] wp_ret assms split: prod.splits sum.splits option.splits)
qed

section \<open>Calls\<close>

text \<open>
  The calls the runtime makes on the manager under their transactions; each is made with the clock,
  the identifiers and the live Tasks of that moment.
\<close>

datatype manager_call =
    Create_task task_request
  | Mark_running pystr handle "int option"
  | Mark_completed pystr pystr
  | Mark_failed pystr pystr
  | Reject_mailbox_run pystr pystr int
  | Mark_cancelled pystr
  | Mark_interrupted pystr pystr
  | Mark_mailbox_suppressed pystr
  | Mark_waiting_for_human pystr pydict
  | Begin_external_operation pystr pystr pystr bool
  | Reject_external_operation pystr pystr pystr
  | Mark_external_outcome_uncertain pystr pystr pystr
  | Bind_uncertain_remote_task pystr pystr
  | Set_remote_webhook_if_missing pystr pydict
  | Sync_remote_task pystr pydict
  | Bind_and_sync_remote_task pystr pystr pydict
  | Get_task pystr
  | Load_task pystr
  | Load_task_for_parent_thread pystr pystr
  | Load_by_parent_thread pystr
  | List_persisted_tasks
  | Find_by_review pystr
  | List_reviews "pystr option" "pystr option"
  | Request_cancel pystr
  | Discard_live_run pystr
  | Add_artifact pystr artifact
  | Mark_mailbox_delivered pystr

fun run_call :: "manager_env \<Rightarrow> manager_call \<Rightarrow> unit manager_op" where
  "run_call env (Create_task q) = op_then (create_task_record env q) (op_ret ())"
| "run_call env (Mark_running k run seq) = mark_running env k run seq"
| "run_call env (Mark_completed k result) = mark_completed env k result"
| "run_call env (Mark_failed k error) = mark_failed env k error"
| "run_call env (Reject_mailbox_run k error n) = reject_mailbox_run env k error n"
| "run_call env (Mark_cancelled k) = mark_cancelled env k"
| "run_call env (Mark_interrupted k error) = mark_interrupted env k error"
| "run_call env (Mark_mailbox_suppressed k) = mark_mailbox_suppressed env k"
| "run_call env (Mark_waiting_for_human k review) = mark_waiting_for_human env k review"
| "run_call env (Begin_external_operation k operation identity replay) =
     begin_external_operation env k operation identity replay"
| "run_call env (Reject_external_operation k operation identity) = reject_external_operation env k operation identity"
| "run_call env (Mark_external_outcome_uncertain k operation identity) =
     mark_external_outcome_uncertain env k operation identity"
| "run_call env (Bind_uncertain_remote_task k upstream) = op_then (bind_uncertain_remote_task env k upstream) (op_ret ())"
| "run_call env (Set_remote_webhook_if_missing k webhook) =
     op_then (set_remote_webhook_if_missing env k webhook) (op_ret ())"
| "run_call env (Sync_remote_task k payload) = op_then (sync_remote_task env k payload) (op_ret ())"
| "run_call env (Bind_and_sync_remote_task k upstream payload) =
     op_then (bind_and_sync_remote_task env k upstream payload) (op_ret ())"
| "run_call env (Get_task k) = op_then (get_task env k) (op_ret ())"
| "run_call env (Load_task k) = op_then (load_task_by_id env k) (op_ret ())"
| "run_call env (Load_task_for_parent_thread k thread) = op_then (load_task_for_parent_thread env k thread) (op_ret ())"
| "run_call env (Load_by_parent_thread thread) = load_by_parent_thread_id env thread"
| "run_call env List_persisted_tasks = op_then (list_persisted_tasks env) (op_ret ())"
| "run_call env (Find_by_review review_id) = op_then (find_by_review_id env review_id) (op_ret ())"
| "run_call env (List_reviews root_id task_id) = op_then (list_reviews root_id task_id) (op_ret ())"
| "run_call env (Request_cancel k) = op_then (manager_request_cancel k) (op_ret ())"
| "run_call env (Discard_live_run k) = manager_discard_live_run k"
| "run_call env (Add_artifact k artifact) = add_artifact env k artifact"
| "run_call env (Mark_mailbox_delivered k) = mark_mailbox_delivered env k"

text \<open>
  The calls that work inside a memory transaction, or create their record only after the write, or
  write nothing to the store; each with the Task it is about.  The others: the loads, which put a row
  in memory before they write its restart back, and the two writes that change the shared object
  outside any memory transaction.
\<close>

fun call_task :: "manager_call \<Rightarrow> pystr option" where
  "call_task (Create_task q) = Some (rq_task_id q)"
| "call_task (Mark_running k _ _) = Some k"
| "call_task (Mark_completed k _) = Some k"
| "call_task (Mark_failed k _) = Some k"
| "call_task (Reject_mailbox_run k _ _) = Some k"
| "call_task (Mark_cancelled k) = Some k"
| "call_task (Mark_interrupted k _) = Some k"
| "call_task (Mark_mailbox_suppressed k) = Some k"
| "call_task (Mark_waiting_for_human k _) = Some k"
| "call_task (Begin_external_operation k _ _ _) = Some k"
| "call_task (Reject_external_operation k _ _) = Some k"
| "call_task (Mark_external_outcome_uncertain k _ _) = Some k"
| "call_task (Bind_uncertain_remote_task k _) = Some k"
| "call_task (Set_remote_webhook_if_missing k _) = Some k"
| "call_task (Sync_remote_task k _) = Some k"
| "call_task (Bind_and_sync_remote_task k _ _) = Some k"
| "call_task (Get_task k) = Some k"
| "call_task (Request_cancel k) = Some k"
| "call_task (Discard_live_run k) = Some k"
| "call_task _ = None"

fun writes_directly :: "manager_call \<Rightarrow> bool" where
  "writes_directly (Add_artifact _ _) = True"
| "writes_directly (Mark_mailbox_delivered _) = True"
| "writes_directly _ = False"

definition run_calls :: "(manager_env \<times> manager_call) list \<Rightarrow> manager \<Rightarrow> manager" where
  "run_calls cs m = foldl (\<lambda>m (env, c). fst (run_call env c m)) m cs"

text \<open>Every direct write of a run returns; any other call may raise.\<close>

fun direct_writes_return :: "(manager_env \<times> manager_call) list \<Rightarrow> manager \<Rightarrow> bool" where
  "direct_writes_return [] m = True"
| "direct_writes_return ((env, c) # cs) m =
     (let (m', r) = run_call env c m in (writes_directly c \<longrightarrow> r = Inr ()) \<and> direct_writes_return cs m')"

lemma sound_from_wp:
  "wp c Q (\<lambda>_ m'. mirrored m' \<and> (loaded k m \<longrightarrow> unchanged m m')) m \<Longrightarrow> (\<And>x m'. Q x m' \<Longrightarrow> mirrored m' \<and> S m') \<Longrightarrow> sound S k c m"
  unfolding sound_def by (erule wp_conseq) auto

lemma sound_handles:
  assumes "mirrored m"
  shows "sound (\<lambda>_. True) k (manager_request_cancel k) m" "sound (\<lambda>_. True) k (manager_discard_live_run k) m"
  using assms
  by (simp_all add: sound_def wp_def manager_request_cancel_def manager_discard_live_run_def op_modify_def split: prod.split)

lemma sound_call:
  assumes mir: "mirrored m" and "call_task c = Some k"
  shows "sound (\<lambda>_. True) k (run_call env c) m"
proof -
  note weak = sound_weaken [where S' = "\<lambda>_. True"]
  show ?thesis
  proof (cases c)
    case (Create_task q)
    have "sound (\<lambda>_. True) (rq_task_id q) (create_task_record env q) m"
      by (rule sound_from_wp [OF wp_conseq [OF wp_create_task_record [OF mir]]]) auto
    then show ?thesis
      using Create_task assms(2) by (simp add: sound_then_ret)
  next
    case (Sync_remote_task k' p)
    have "sound (\<lambda>_. True) k (sync_remote_task env k p) m"
      by (rule sound_from_wp [OF wp_sync_remote_task [OF mir]]) auto
    then show ?thesis
      using Sync_remote_task assms(2) by (simp add: sound_then_ret)
  next
    case (Bind_and_sync_remote_task k' u p)
    have "sound (\<lambda>_. True) k (bind_and_sync_remote_task env k u p) m"
      by (rule sound_from_wp [OF wp_bind_and_sync_remote_task [OF mir]]) auto
    then show ?thesis
      using Bind_and_sync_remote_task assms(2) by (simp add: sound_then_ret)
  next
    case (Mark_waiting_for_human k' p)
    then show ?thesis
      using assms(2) by simp (rule sound_from_wp [OF wp_mark_waiting_for_human [OF mir]], auto)
  next
    case (Get_task k')
    then show ?thesis
      using assms(2) sound_get_task [OF mir, of k "\<lambda>_. True" "\<lambda>_. op_ret ()" env] by (simp add: op_then_def sound_ret)
  qed (use assms(2) in \<open>simp_all add: sound_then_ret sound_handles sound_begin_external_operation sound_set_remote_webhook_if_missing mir
      weak [OF sound_mark_running] weak [OF sound_reject_external_operation]
      weak [OF sound_mark_external_outcome_uncertain] weak [OF sound_bind_uncertain_remote_task]
      weak [OF sound_mark_mailbox_suppressed] mark_completed_def mark_failed_def reject_mailbox_run_def
      mark_cancelled_def mark_interrupted_def weak [OF sound_settle_with]\<close>)
qed

lemma run_call_mirrored:
  assumes mir: "mirrored m" and "writes_directly c \<longrightarrow> snd (run_call env c m) = Inr ()"
  shows "mirrored (fst (run_call env c m))"
proof -
  have kept: "mirrored (fst (run_call env c m))" if "wp (run_call env c) (\<lambda>_. mirrored) (\<lambda>_. mirrored) m"
    using that by (auto simp: wp_def split: prod.splits sum.splits)
  have returned: "mirrored (fst (run_call env c m))"
    if "wp (run_call env c) (\<lambda>_. mirrored) (\<lambda>_ _. True) m" "snd (run_call env c m) = Inr ()"
    using that by (auto simp: wp_def split: prod.splits sum.splits)
  show ?thesis
  proof (cases "call_task c")
    case (Some k)
    show ?thesis
      using sound_call [OF mir Some, of env] by (auto simp: sound_def wp_def split: prod.splits sum.splits)
  next
    case None
    show ?thesis
    proof (cases c)
      case (Add_artifact k a)
      then show ?thesis
        using returned wp_add_artifact [OF mir, of env k a] assms(2) by simp
    next
      case (Mark_mailbox_delivered k)
      then show ?thesis
        using returned wp_mark_mailbox_delivered [OF mir, of env k] assms(2) by simp
    next
      case (List_reviews a b)
      then show ?thesis
        using kept mir by (simp add: wp_then wp_ret wp_list_reviews)
    qed (use None kept in \<open>simp_all add: wp_then wp_ret wp_loads [OF mir] wp_find_by_review_id [OF mir]\<close>)
  qed
qed

lemma unlisted_creation: "mirrored m \<Longrightarrow> create_task_record env q m = (m', Inl e) \<Longrightarrow> unchanged m m'"
  using wp_run [OF wp_create_task_record] by fastforce

section \<open>A working store\<close>

text \<open>The next transaction of the store does not fail.\<close>

definition store_works :: "manager \<Rightarrow> bool" where
  "store_works m \<longleftrightarrow> (case tm_faults m of [] \<Rightarrow> True | fails # _ \<Rightarrow> \<not> fails)"

lemma wp_commit_works:
  assumes "store_works m" and "tm_store m = Some db" and "w db = (db', Inr x)" and "\<And>m'. Q (Some x) m'"
  shows "wp (commit w) Q E m"
  using assms by (cases "tm_faults m") (simp_all add: wp_def commit_def Let_def store_works_def)

lemma event_appended:
  assumes "record_ok r"
  obtains data db' ev where "lifecycle_event_data r None = Inr data" and "appended_event k n ty data t db = Inr (db', ev)"
    "db_tasks db' = db_tasks db" "db_outbox db' = db_outbox db"
proof -
  let ?d = "lifecycle_fields r None"
  have "json_encoded_size (J_obj ?d) \<le> max_durable_task_event_data_bytes"
    using assms by (intro lifecycle_fields_size) (simp_all add: record_ok_def)
  then have 1: "lifecycle_event_data r None = Inr ?d"
    by (simp add: lifecycle_event_data_def ensure_durable_event_data_fits_def)
  have "json_plain (J_obj ?d)"
    using assms by (intro lifecycle_fields_plain) simp_all
  from json_loads_compact [OF json_plain_sort_keys [OF this]]
  have "json_loads (serialize_event_data ?d) = Some (json_sort_keys (J_obj ?d))"
    by (simp add: serialize_event_data_def dumps_compact_sorted_def)
  then show ?thesis
    using that [OF 1] by (simp add: appended_event_def append_event_locked_def row_to_event_def Let_def)
qed

definition fresh_settlement :: "manager_env \<Rightarrow> bool \<Rightarrow> task_record \<Rightarrow> task_db \<Rightarrow> bool" where
  "fresh_settlement env outbox r db \<longleftrightarrow> (outbox \<longrightarrow>
     (case build_settled_outbox_intent (env_uuid5 env) r of
        None \<Rightarrow> True | Some i \<Rightarrow> \<not> list_ex (same_outbox_identity i) (db_outbox db)))"

lemma intent_inserted:
  assumes "\<not> list_ex (same_outbox_identity i) (db_outbox db)" and "task_at (so_task_id i) db \<noteq> None"
  shows "\<exists>db'. insert_intent_opt (Some i) db = Inr db'"
proof -
  have "filter (same_outbox_identity i) (db_outbox db) = []"
    using assms(1) by (auto simp: filter_empty_conv list_ex_iff)
  moreover have "same_outbox_identity i (intent_row i)" "row_matches_intent i (intent_row i)"
    by (simp_all add: same_outbox_identity_def row_matches_intent_def intent_row_def)
  ultimately show ?thesis
    using assms by (simp add: insert_intent_opt_def insert_outbox_locked_def Let_def)
qed

lemma save_lifecycle_returns:
  assumes works: "store_works m" and s: "tm_store m = Some db" and inv: "db_inv db"
    and r: "map_of (tm_tasks m) k = Some r" "tk_task_id r = k" and row: "task_at k db \<noteq> None"
    and ok: "record_ok r" and fresh: "fresh_settlement env (tm_settled_outbox m) r db"
  shows "wp (save_lifecycle env k) (\<lambda>_ _. True) (\<lambda>_ _. False) m"
proof -
  let ?i = "if tm_settled_outbox m then build_settled_outbox_intent (env_uuid5 env) r else None"
  obtain stored where "task_at k db = Some stored" "tk_task_id stored = k"
    using row row_at_SomeD by (fastforce simp: task_at_def)
  then have "rows_count (\<lambda>t. tk_task_id t = k) (db_tasks db) = 1"
    using rows_count_key [of tk_task_id "db_tasks db" "\<lambda>t. tk_task_id t = k" k] inv by (simp add: db_inv_def task_at_def)
  then obtain db1 where 1: "update_task_locked r db = Inr db1" "db_outbox db1 = db_outbox db"
    by (simp add: update_task_locked_def r(2))
  have "task_at k db1 = Some r"
    using fun_cong [OF rows_update_task_locked [OF 1(1)], of k] r(2) by (simp add: rows_def)
  obtain data db2 ev where 2: "lifecycle_event_data r None = Inr data"
    "appended_event k (tk_run_count r) (lifecycle_event_type (tk_state r)) data (tk_updated_at r) db1 = Inr (db2, ev)"
    "db_tasks db2 = db_tasks db1" "db_outbox db2 = db_outbox db1"
    by (rule event_appended [OF ok, of k "tk_run_count r" "lifecycle_event_type (tk_state r)" "tk_updated_at r" db1])
  have "\<exists>db'. insert_intent_opt ?i db2 = Inr db'"
  proof (cases ?i)
    case None
    then show ?thesis
      by (simp add: insert_intent_opt_def)
  next
    case (Some i)
    then have i: "tm_settled_outbox m" "build_settled_outbox_intent (env_uuid5 env) r = Some i"
      by (auto split: if_splits)
    then have "so_task_id i = k"
      using r(2) by (auto simp: build_settled_outbox_intent_def Let_def split: option.splits if_splits)
    moreover have "task_at k db2 = Some r"
      using 2(3) \<open>task_at k db1 = Some r\<close> by (simp add: task_at_def)
    ultimately show ?thesis
      using fresh i intent_inserted [of i db2] 1(2) 2(4) unfolding Some by (simp add: fresh_settlement_def)
  qed
  then obtain db' where 3: "insert_intent_opt ?i db2 = Inr db'" ..
  let ?w = "update_task_with_event r \<lparr>es_event_type = lifecycle_event_type (tk_state r), es_data = data,
      es_created_at = tk_updated_at r\<rparr> ?i"
  have "?w db = (db', Inr ev)"
    using 1(1) 2(2) 3 r(2) by (simp add: update_task_with_event_def transact_def)
  then have "wp (commit ?w) (\<lambda>_ _. True) (\<lambda>_ _. False) m"
    by (intro wp_commit_works [where w = ?w, OF works s]) simp_all
  then show ?thesis
    by (simp add: save_lifecycle_def wp_bind wp_get s wp_the_task r(1) event_data_def wp_lift 2(1) wp_settled_outbox_intent
        wp_then wp_ret)
qed

lemma fresh_settlement_fields [simp]:
  "fresh_settlement env outbox (r\<lparr>tk_updated_at := t\<rparr>) db = fresh_settlement env outbox r db"
  "fresh_settlement env outbox (r\<lparr>tk_pending_review := p\<rparr>) db = fresh_settlement env outbox r db"
  by (auto simp: fresh_settlement_def build_settled_outbox_intent_def same_outbox_identity_def Let_def list_ex_iff split: option.split)

lemma record_ok_fields:
  "record_ok r \<Longrightarrow> datetime_ok t \<Longrightarrow> record_ok (r\<lparr>tk_updated_at := t\<rparr>)"
  "record_ok r \<Longrightarrow> record_ok (r\<lparr>tk_pending_review := None\<rparr>)"
  by (simp_all add: record_ok_def)

lemma wp_memory_transaction_returns: "wp body Q (\<lambda>_ _. False) m \<Longrightarrow> wp (memory_transaction ks body) Q E m"
  by (auto simp: memory_transaction_def wp_def split: prod.splits sum.splits)

lemma wp_memory_transaction_raises:
  "wp body (\<lambda>_ _. False) (\<lambda>e _. E e) m \<Longrightarrow> wp (memory_transaction ks body) Q (\<lambda>e _. E e) m"
  by (auto simp: memory_transaction_def wp_def split: prod.splits sum.splits)

lemma store_works_fields [simp]:
  "store_works (m\<lparr>tm_ticks := n\<rparr>) = store_works m" "store_works (m\<lparr>tm_tasks := ts\<rparr>) = store_works m"
  by (simp_all add: store_works_def)

lemma settle_returns:
  assumes mir: "mirrored m" and loaded: "loaded k m" and works: "store_works m" and s: "tm_store m = Some db"
    and r: "map_of (tm_tasks m) k = Some r"
    and id: "tk_task_id (f r) = tk_task_id r" "tk_root_task_id (f r) = tk_root_task_id r"
    and none: "\<forall>v \<in> set (db_reviews db). rv_task_id v \<noteq> k \<and> rv_root_task_id v \<noteq> tk_root_task_id r"
    and ok: "record_ok (f r)" "\<forall>n. datetime_ok (env_clock env n)"
    and fresh: "fresh_settlement env (tm_settled_outbox m) (f r) db"
  shows "wp (settle_with env k f) (\<lambda>_ _. True) (\<lambda>_ _. False) m"
proof -
  have k: "tk_task_id r = k"
    using mir r by (rule mirrored_id)
  have inv: "db_inv db" and "mirrors db r"
    using mir s r by (simp_all add: mirrored_def)
  then have row: "task_at k db \<noteq> None"
    using k by (auto simp: mirrors_def)
  have mine: "list_pending_reviews None (Some k) db = []" and tree: "list_pending_reviews (Some (tk_root_task_id r)) None db = []"
  proof -
    have "filter (\<lambda>v. k = rv_task_id v) (db_reviews db) = []"
      "filter (\<lambda>v. tk_root_task_id r = rv_root_task_id v) (db_reviews db) = []"
      using none by (auto simp: filter_empty_conv)
    then show "list_pending_reviews None (Some k) db = []" "list_pending_reviews (Some (tk_root_task_id r)) None db = []"
      by (simp_all add: list_pending_reviews_def)
  qed
  let ?t = "env_clock env (tm_ticks m)"
  let ?r = "(f r)\<lparr>tk_updated_at := ?t\<rparr>"
  let ?m = "m\<lparr>tm_ticks := Suc (tm_ticks m), tm_tasks := AList.update k ?r (tm_tasks m)\<rparr>"
  have save: "wp (save_lifecycle env k) (\<lambda>_ _. True) (\<lambda>_ _. False) m2"
    if "tm_store m2 = tm_store m" "tm_faults m2 = tm_faults m" "tm_settled_outbox m2 = tm_settled_outbox m"
      "map_of (tm_tasks m2) k = Some (?r\<lparr>tk_pending_review := None, tk_updated_at := env_clock env n\<rparr>)" for m2 n
    by (rule save_lifecycle_returns [OF _ _ inv that(4) _ row])
      (use works s k id ok fresh that in \<open>simp_all add: record_ok_fields store_works_def\<close>)
  have projection: "projected_review q [] = None" for q
    by (simp add: projected_review_def)
  have same: "same_review p None \<longleftrightarrow> p = None" for p
    by (auto simp: same_review_def split: option.splits)
  have at: "map_of (tm_tasks ?m) k = Some ?r" and st: "tm_store ?m = Some db"
    using s by (simp_all add: update_conv')
  have no_review: "wp (review_for_task k) Q E ?m \<longleftrightarrow> Q None ?m" for Q E
    using st mine by (simp add: review_for_task_def wp_bind wp_ret) (simp add: wp_def list_reviews_def)
  have clear: "wp (clear_pending_review_and_save env k) (\<lambda>_ _. True) (\<lambda>_ _. False) ?m"
  proof (cases "tk_root_task_id r = k")
    case False
    have "wp (save_lifecycle env k) (\<lambda>_ _. True) (\<lambda>_ _. False)
        (?m\<lparr>tm_tasks := AList.update k (?r\<lparr>tk_pending_review := None\<rparr>) (tm_tasks ?m)\<rparr>)"
      by (rule save [of _ "tm_ticks m"]) (simp_all add: update_conv')
    then show ?thesis
      using False k id
      by (simp add: clear_pending_review_and_save_def wp_bind no_review wp_the_task wp_then wp_edit_task at update_conv')
  next
    case True
    have none_left: "wp (list_reviews (Some k) None) Q E ?m \<longleftrightarrow> Q [] ?m" for Q E
      using st tree True by (simp add: wp_def list_reviews_def)
    have kept: "wp (save_lifecycle env k) (\<lambda>_ _. True) (\<lambda>_ _. False) ?m" if "tk_pending_review ?r = None"
      by (rule save [of _ "tm_ticks m"]) (use that in \<open>simp_all add: update_conv'\<close>)
    have cleared: "wp (save_lifecycle env k) (\<lambda>_ _. True) (\<lambda>_ _. False)
        (?m\<lparr>tm_ticks := Suc (Suc (tm_ticks m)), tm_tasks := AList.update k
          (?r\<lparr>tk_pending_review := None, tk_updated_at := env_clock env (Suc (tm_ticks m))\<rparr>) (tm_tasks ?m)\<rparr>)"
      by (rule save [of _ "Suc (tm_ticks m)"]) (simp_all add: update_conv')
    show ?thesis
      using True k id kept cleared
      by (simp add: clear_pending_review_and_save_def wp_bind no_review wp_the_task wp_then wp_edit_task at wp_ret none_left
          project_root_review_def root_record_def projection same wp_tick Let_def update_conv')
  qed
  show ?thesis
    using loaded r k s clear
    by (auto simp: settle_with_def in_transaction_def wp_then wp_bind get_task_def wp_get root_record_def wp_the_task wp_ret
        loaded_def wp_tick wp_edit_task intro!: wp_memory_transaction_returns)
qed

lemma update_task_works:
  assumes "unique_key tk_task_id (db_tasks db)" and "task_at (tk_task_id r) db \<noteq> None"
  obtains db1 where "update_task_locked r db = Inr db1" "unique_key tk_task_id (db_tasks db1)"
    "rows db1 = (rows db)(tk_task_id r \<mapsto> r)" "db_reviews db1 = db_reviews db" "db_outbox db1 = db_outbox db"
    "db_last_review_sequence db1 = db_last_review_sequence db"
proof -
  obtain stored where "task_at (tk_task_id r) db = Some stored" "tk_task_id stored = tk_task_id r"
    using assms(2) row_at_SomeD by (fastforce simp: task_at_def)
  then have "rows_count (\<lambda>t. tk_task_id t = tk_task_id r) (db_tasks db) = 1"
    using rows_count_key [of tk_task_id "db_tasks db" "\<lambda>t. tk_task_id t = tk_task_id r" "tk_task_id r"] assms(1)
    by (simp add: task_at_def)
  then obtain db1 where db1: "update_task_locked r db = Inr db1"
    and "db1 = db\<lparr>db_tasks := rows_update (\<lambda>t. tk_task_id t = tk_task_id r) (\<lambda>_. r) (db_tasks db)\<rparr>"
    by (simp add: update_task_locked_def)
  then show ?thesis
    using that [OF db1] rows_update_task_locked [OF db1] assms(1) by (simp add: unique_key_rows_update)
qed

lemma first_review_written:
  assumes u: "unique_key tk_task_id (db_tasks db)" and rows: "task_at (tk_task_id r) db \<noteq> None" "task_at (tk_task_id x) db \<noteq> None"
    and none: "db_reviews db = []" "db_last_review_sequence db < 2 ^ 63 - 1"
    and v: "rv_task_id v = tk_task_id r" and ok: "record_ok r" "record_ok x"
    and d: "lifecycle_event_data r None = Inr d1" "lifecycle_event_data x None = Inr d2"
  shows "\<exists>db' evs. update_review_transition r (Some v) (Some x)
      [(r, \<lparr>es_event_type = ty1, es_data = d1, es_created_at = t1\<rparr>), (x, \<lparr>es_event_type = ty2, es_data = d2, es_created_at = t2\<rparr>)]
      None db = (db', Inr evs)"
proof -
  obtain db1 where 1: "update_task_locked r db = Inr db1" "unique_key tk_task_id (db_tasks db1)"
    "rows db1 = (rows db)(tk_task_id r \<mapsto> r)" "db_reviews db1 = []" "db_last_review_sequence db1 < 2 ^ 63 - 1"
    using none by (auto intro: update_task_works [OF u rows(1)])
  have "\<exists>db2. replace_review_locked (tk_task_id r) (Some v) db1 = Inr db2 \<and> db_tasks db2 = db_tasks db1"
    using 1(4,5) by (simp add: replace_review_locked_def ingest_review_def rows_delete_def Let_def)
  then obtain db2 where 2: "replace_review_locked (tk_task_id r) (Some v) db1 = Inr db2" "db_tasks db2 = db_tasks db1"
    by blast
  have "task_at (tk_task_id x) db2 \<noteq> None"
    using fun_cong [OF 1(3), of "tk_task_id x"] rows(2) 2(2) by (auto simp: rows_def task_at_def split: if_splits)
  then obtain db3 where 3: "update_task_locked x db2 = Inr db3"
    using update_task_works [of db2 x] 1(2) 2(2) by metis
  obtain db4 ev1 where 4: "appended_event (tk_task_id r) (tk_run_count r) ty1 d1 t1 (if tk_task_id x \<noteq> tk_task_id r then db3 else db2) = Inr (db4, ev1)"
    by (rule event_appended [OF ok(1), of "tk_task_id r" "tk_run_count r" ty1 t1 "if tk_task_id x \<noteq> tk_task_id r then db3 else db2"])
      (use d in auto)
  obtain db5 ev2 where 5: "appended_event (tk_task_id x) (tk_run_count x) ty2 d2 t2 db4 = Inr (db5, ev2)"
    by (rule event_appended [OF ok(2), of "tk_task_id x" "tk_run_count x" ty2 t2 db4]) (use d in auto)
  show ?thesis
    using 1(1) 2(1) 3 4 5 v
    by (auto simp: update_review_transition_def transact_def insert_intent_opt_def)
qed

lemma record_ok_review: "record_ok r \<Longrightarrow> pyval_ok (PDict d) \<Longrightarrow> record_ok (r\<lparr>tk_pending_review := Some d\<rparr>)"
  by (simp add: record_ok_def)

lemma put_ok: "pyval_ok (PDict d) \<Longrightarrow> pyval_ok v \<Longrightarrow> pyval_ok (PDict (dict_put i v d))"
  by (auto simp: dict_put_def)

lemma ask_returns:
  assumes mir: "mirrored m" and works: "store_works m" and s: "tm_store m = Some db"
    and r: "map_of (tm_tasks m) k = Some r" and q: "tk_root_task_id r \<noteq> k" "map_of (tm_tasks m) (tk_root_task_id r) = Some rr"
    and shown: "tk_pending_review rr = None"
    and none: "db_reviews db = []" "db_last_review_sequence db < 2 ^ 63 - 1"
    and ok: "record_ok r" "record_ok rr" "\<forall>n. datetime_ok (env_clock env n)" "pyval_ok (PDict pending)"
      "\<forall>n. pystr_ok (env_uuid4 env n)" "pystr_ok k"
    and given: "nonempty_str (dict_get (str ''review_id'') pending) = None"
  shows "wp (mark_waiting_for_human env k pending) (\<lambda>_ _. True) (\<lambda>_ _. False) m"
proof -
  let ?q = "tk_root_task_id r" and ?i = "env_uuid4 env (tm_ticks m)" and ?n = "tm_ticks m"
  let ?p = "dict_put (str ''review_id'') (PStr ?i) pending"
  let ?sp = "dict_put (str ''source_task_id'') (PStr k) ?p"
  let ?r = "r\<lparr>tk_state := TS_waiting_for_human, tk_updated_at := env_clock env (Suc ?n), tk_pending_review := Some ?p, tk_error := None\<rparr>"
  let ?rr = "rr\<lparr>tk_pending_review := Some ?sp, tk_updated_at := env_clock env (Suc (Suc ?n))\<rparr>"
  have k: "tk_task_id r = k" "tk_task_id rr = ?q"
    using mirrored_id [OF mir r] mirrored_id [OF mir q(2)] by simp_all
  have inv: "db_inv db" and "mirrors db r" "mirrors db rr"
    using mir s r q(2) by (simp_all add: mirrored_def)
  then have rows: "task_at k db \<noteq> None" "task_at ?q db \<noteq> None"
    using k by (auto simp: mirrors_def)
  have p_ok: "pyval_ok (PDict ?p)" "pyval_ok (PDict ?sp)"
    using ok(4,5,6) by (intro put_ok; simp)+
  have r_ok: "record_ok ?r" "record_ok ?rr"
    using ok(1-3) p_ok by (simp_all add: record_ok_def)
  obtain d1 where d1: "lifecycle_event_data ?r None = Inr d1"
    by (rule event_appended [OF r_ok(1), of k 0 "[]" 0 db])
  obtain d2 where d2: "lifecycle_event_data ?rr None = Inr d2"
    by (rule event_appended [OF r_ok(2), of k 0 "[]" 0 db])
  have quiet: "build_settled_outbox_intent u ?r = None" for u
    by (auto simp: build_settled_outbox_intent_def settled_task_states_def split: option.split)
  have persist: "wp (persist_review_transition env k (Some v) (Some ?q) True True) (\<lambda>_ _. True) (\<lambda>_ _. False) m2"
    if m2: "tm_store m2 = Some db" "tm_faults m2 = tm_faults m" "map_of (tm_tasks m2) k = Some ?r" "map_of (tm_tasks m2) ?q = Some ?rr"
      and v: "rv_task_id v = k" for m2 v
  proof -
    let ?w = "update_review_transition ?r (Some v) (Some ?rr)
      [(?r, \<lparr>es_event_type = lifecycle_event_type TS_waiting_for_human, es_data = d1, es_created_at = env_clock env (Suc ?n)\<rparr>),
       (?rr, \<lparr>es_event_type = str ''task.review_requested'', es_data = d2, es_created_at = env_clock env (Suc (Suc ?n))\<rparr>)] None"
    have "\<exists>db' evs. ?w db = (db', Inr evs)"
      by (rule first_review_written) (use inv none rows v k r_ok d1 d2 in \<open>simp_all add: db_inv_def\<close>)
    then obtain db' evs where w: "?w db = (db', Inr evs)"
      by blast
    have "store_works m2"
      using works m2(2) by (simp add: store_works_def)
    then have "wp (commit ?w) (\<lambda>_ _. True) (\<lambda>_ _. False) m2"
      by (rule wp_commit_works [where w = ?w, OF _ m2(1) w]) simp
    then show ?thesis
      using q(1) d1 d2 m2
      by (simp add: persist_review_transition_def transition_events_def changed_root_def event_data_def wp_bind wp_then wp_ret
          wp_the_task wp_lift wp_settled_outbox_intent quiet)
  qed
  let ?m1 = "m\<lparr>tm_ticks := Suc (Suc ?n), tm_tasks := AList.update k ?r (tm_tasks m)\<rparr>"
  have shows_new: "\<not> same_review None (Some d)" for d
    by (simp add: same_review_def)
  have projection: "projected_review ?q [v] = Some (dict_put (str ''source_task_id'') (PStr k) (rv_payload v))"
    if "rv_root_task_id v = ?q" "rv_task_id v = k" for v
    using that q(1) by (simp add: projected_review_def)
  have empty: "list_pending_reviews a b db = []" for a b
    by (simp add: list_pending_reviews_def none(1))
  have none_listed: "wp (list_reviews a b) Q E m' \<longleftrightarrow> Q [] m'" if "tm_store m' = Some db" for a b Q E m'
    using that by (simp add: wp_def list_reviews_def empty)
  have sequence: "wp (review_ingest_sequence None i) Q E m' \<longleftrightarrow> Q 0 m'" if "tm_store m' = Some db" for i Q E m'
    using that by (simp add: wp_def review_ingest_sequence_def)
  have ingest: "wp (ingest_pending_review env k ?i ?p None True) (\<lambda>_ _. True) (\<lambda>_ _. False) ?m1"
    using q s k shown
    by (simp add: ingest_pending_review_def wp_bind wp_then wp_ret wp_the_task wp_modify update_conv' sequence none_listed
        project_root_review_def root_record_def wp_get projection shows_new wp_tick wp_edit_task persist Let_def)
  have no_review: "wp (get_review i) Q E m' \<longleftrightarrow> Q None m'" if "tm_store m' = Some db" for i Q E m'
    using that none(1) by (simp add: wp_def get_review_def get_pending_review_def)
  have no_own_review: "wp (review_for_task k) Q E m' \<longleftrightarrow> Q None m'" if "tm_store m' = Some db" for Q E m'
    using that by (simp add: review_for_task_def wp_bind wp_ret none_listed)
  have known: "wp (get_task env k) Q E m \<longleftrightarrow> Q r m" for Q E
    using r by (simp add: get_task_def wp_bind wp_get wp_ret)
  have identity: "wp (review_identity env pending) Q E m \<longleftrightarrow> Q ?i (m\<lparr>tm_ticks := Suc ?n\<rparr>)" for Q E
    using given by (simp add: review_identity_def wp_fresh_id)
  show ?thesis
    using r q k s ingest
    by (simp add: mark_waiting_for_human_def wp_then wp_bind known identity no_review no_own_review foreign_review_def wp_ret
        Let_def root_record_def wp_the_task wp_get wp_tick wp_edit_task wp_memory_transaction_returns)
qed

text \<open>A snapshot that shows no review, for a record without one, is taken while the store works.\<close>

lemma snapshot_returns:
  assumes mir: "mirrored m" and loaded: "loaded k m" and works: "store_works m" and s: "tm_store m = Some db"
    and r: "map_of (tm_tasks m) k = Some r" and v: "validate_remote_task_state k payload = Inr (status, n)"
    and proven: "\<forall>operation. tk_external_operation r = Some operation \<longrightarrow> effect_is_proven r payload status n"
    and none: "db_reviews db = []" and status: "status \<noteq> TS_waiting_for_human"
    and ok: "record_ok r" "record_ok (remote_fields env payload status n r)"
    and fresh: "fresh_settlement env (tm_settled_outbox m) (remote_fields env payload status n r) db"
  shows "wp (sync_remote_task env k payload) (\<lambda>_ _. True) (\<lambda>_ _. False) m"
proof -
  let ?r = "remote_fields env payload status n r"
  have k: "tk_task_id r = k"
    using mir r by (rule mirrored_id)
  have inv: "db_inv db" and "mirrors db r"
    using mir s r by (simp_all add: mirrored_def)
  then have row: "task_at k db \<noteq> None"
    using k by (auto simp: mirrors_def)
  have none_listed: "wp (list_reviews a b) Q E m \<longleftrightarrow> Q [] m" for a b Q E
    using s none by (simp add: wp_def list_reviews_def list_pending_reviews_def)
  have print: "\<exists>x. fingerprint_of r' = op_ret x" if fits: "record_ok r'" for r'
  proof -
    obtain d where "lifecycle_event_data r' None = Inr d"
      by (rule event_appended [OF fits, of k 0 "[]" 0 db])
    then show ?thesis
      by (auto simp: fingerprint_of_def public_task_event_fingerprint_def op_lift_def op_ret_def)
  qed
  obtain x where x: "fingerprint_of r = op_ret x"
    using print [OF ok(1)] by blast
  obtain y where y: "fingerprint_of ?r = op_ret y"
    using print [OF ok(2)] by blast
  let ?m = "m\<lparr>tm_tasks := AList.update k ?r (tm_tasks m), tm_runs := live_discard k (tm_runs m)\<rparr>"
  have at: "map_of (tm_tasks ?m) k = Some ?r" and st: "tm_store ?m = Some db" and w: "store_works ?m"
    using s works by (simp_all add: update_conv' store_works_def)
  have object: "wp (the_task k) (\<lambda>_ _. True) (\<lambda>_ _. False) m' \<longleftrightarrow> map_of (tm_tasks m') k \<noteq> None" for m'
    by (auto simp: wp_the_task split: option.split)
  have lifecycle: "wp (save_lifecycle env k) (\<lambda>_ m'. map_of (tm_tasks m') k \<noteq> None) (\<lambda>_ _. False) ?m"
  proof -
    have sc: "scope k None ?m"
      using at k by (simp add: scope_def)
    have "wp (save_lifecycle env k) (\<lambda>_ _. True) (\<lambda>_ _. False) ?m"
      using fresh k by (intro save_lifecycle_returns [OF w st inv at _ row ok(2)]) simp_all
    moreover have "wp (save_lifecycle env k) (\<lambda>_ m'. tm_tasks m' = tm_tasks ?m) (\<lambda>_ _. True) ?m"
      unfolding save_lifecycle_def save_record_def wp_bind wp_get st option.case wp_the_task at
      by (auto simp: wp_settled_outbox_intent wp_then wp_ret intro!: wp_event_data wp_commit_plain)
    ultimately show ?thesis
      by (rule wp_conseq [OF wp_conj]) (use at in auto)
  qed
  have plain: "wp (save_record k) (\<lambda>_ m'. map_of (tm_tasks m') k \<noteq> None) (\<lambda>_ _. False) ?m"
  proof -
    obtain db1 where "update_task_locked ?r db = Inr db1"
      by (rule update_task_works [of db ?r]) (use inv row k in \<open>auto simp: db_inv_def\<close>)
    then have "update_task ?r db = (db1, Inr ())"
      by (simp add: update_task_def transact_def)
    then have "wp (commit (update_task ?r)) (\<lambda>_ _. True) (\<lambda>_ _. False) ?m"
      by (intro wp_commit_works [where w = "update_task ?r", OF w st]) simp_all
    moreover have "wp (commit (update_task ?r)) (\<lambda>_ m'. tm_tasks m' = tm_tasks ?m) (\<lambda>_ _. True) ?m"
      by (intro wp_commit_plain) simp_all
    ultimately have "wp (commit (update_task ?r)) (\<lambda>_ m'. map_of (tm_tasks m') k \<noteq> None) (\<lambda>_ _. False) ?m"
      by (rule wp_conseq [OF wp_conj]) (use at in auto)
    then show ?thesis
      by (simp add: save_record_def wp_bind wp_the_task update_conv' wp_then wp_ret)
  qed
  have taken: "tk_state ?r = status"
    by (simp add: remote_fields_def)
  have accepted: "wp (sync_accepted env k payload None x status n) (\<lambda>_ m'. map_of (tm_tasks m') k \<noteq> None) (\<lambda>_ _. False) m"
    using lifecycle plain status r taken y
    by (cases status)
      (simp_all add: sync_accepted_def wp_then wp_bind wp_edit_task wp_modify wp_the_task y wp_ret Let_def update_conv')
  have "wp (reconcile_remote_task env k payload) (\<lambda>_ m'. map_of (tm_tasks m') k \<noteq> None) (\<lambda>_ _. False) m"
    using r v proven accepted
    by (auto simp: reconcile_remote_task_def wp_bind get_task_def wp_get wp_ret review_for_task_def none_listed x wp_lift
        split: option.split)
  then have "wp (reconcile_remote_task env k payload) (\<lambda>_. wp (the_task k) (\<lambda>_ _. True) (\<lambda>_ _. False)) (\<lambda>_ _. False) m"
    by (simp only: object [abs_def])
  then show ?thesis
    using loaded r k
    by (auto simp: sync_remote_task_def in_transaction_def wp_then wp_bind get_task_def wp_get root_record_def wp_the_task [of "tk_task_id r" _ _ m]
        wp_the_task [of k _ _ m] wp_ret loaded_def intro!: wp_memory_transaction_returns)
qed

section \<open>Properties\<close>

text \<open>
  C6. A creation, a life cycle transition, a step of a remote operation or a reconciliation
  (\<open>call_task\<close>) that raises, because its transaction failed, its arguments are refused or a run is
  already active, leaves no trace, provided the record and its root are in memory when it starts (a
  creation needs neither): the records in memory, their run handles, the ingest counter and the whole
  database are what they were before the call.  The calls outside this list do not roll the memory
  back: the loads, \<open>add_artifact\<close> (\<open>artifact_kept_after_failure\<close> below) and \<open>mark_mailbox_delivered\<close>.
\<close>

theorem failed_call_leaves_no_trace:
  assumes "mirrored m" and "call_task c = Some k" and "loaded k m \<or> (\<exists>q. c = Create_task q)"
    and "run_call env c m = (m', Inl e)"
  shows "unchanged m m'"
proof (cases "\<exists>q. c = Create_task q")
  case True
  then obtain q where q: "c = Create_task q" ..
  have "wp (run_call env c) (\<lambda>_ _. True) (\<lambda>_ m'. unchanged m m') m"
    unfolding q run_call.simps wp_then by (rule wp_conseq [OF wp_create_task_record [OF assms(1)]]) (simp_all add: wp_ret)
  then show ?thesis
    using assms(4) by (simp add: wp_def)
next
  case False
  then show ?thesis
    using sound_call [OF assms(1,2), of env] assms(3,4) by (simp add: sound_def wp_def)
qed

text \<open>
  C7. Over any sequence of the manager's calls (\<open>manager_call\<close>), whichever transactions of the store fail, as long as
  none of the two direct writes (\<open>add_artifact\<close>, \<open>mark_mailbox_delivered\<close>) raises: the objects in
  memory mirror their rows, each being its row, or its row as a restart normalizes it, and the keys
  of the database stay unique.  The manager is the only writer of the store here: the operations of
  the settlement outbox and the settlement worker are not among the calls, nor is
  \<open>observe_mailbox_delivered\<close>, which copies to memory what that worker has committed.
\<close>

theorem manager_mirrors_store:
  assumes "db_inv db" and "direct_writes_return cs (new_manager (Some db) outbox faults)"
  shows "mirrored (run_calls cs (new_manager (Some db) outbox faults))"
proof -
  have "mirrored m \<Longrightarrow> direct_writes_return cs m \<Longrightarrow> mirrored (run_calls cs m)" for m
    unfolding run_calls_def
  proof (induction cs arbitrary: m)
    case (Cons ec cs)
    obtain env c where "ec = (env, c)"
      by (cases ec)
    with Cons.prems Cons.IH [of "fst (run_call env c m)"] run_call_mirrored [of m c env] show ?case
      by (auto simp: case_prod_unfold Let_def)
  qed simp
  moreover have "mirrored (new_manager (Some db) outbox faults)"
    using assms by (simp add: new_manager_def mirrored_def Let_def)
  ultimately show ?thesis
    using assms(2) by blast
qed

text \<open>
  C8. A settlement that returns is durable in one piece: the row of the Task is the settled object, the
  life cycle event and the settlement intent of that very record are in the database with it, the
  Task has no pending review left, and its root shows the earliest review that remains in the tree.
\<close>

theorem settlement_durable:
  assumes "mirrored m" and "loaded k m"
    and "(settle, f) \<in> set
      [(mark_completed env k text', \<lambda>r. r\<lparr>tk_state := TS_completed, tk_result := Some (normalize_task_event_text text'), tk_error := None\<rparr>),
       (mark_failed env k text', \<lambda>r. r\<lparr>tk_state := TS_failed, tk_error := Some (normalize_task_event_text text')\<rparr>),
       (mark_cancelled env k, \<lambda>r. r\<lparr>tk_state := TS_cancelled, tk_error := None\<rparr>),
       (mark_interrupted env k text', \<lambda>r. r\<lparr>tk_state := TS_interrupted, tk_error := Some (normalize_task_event_text text')\<rparr>)]"
    and "settle m = (m', Inr ())"
  shows "settled env k f m m'"
proof -
  have "settle = settle_with env k f" "\<And>r. tk_task_id (f r) = tk_task_id r" "\<And>r. tk_root_task_id (f r) = tk_root_task_id r"
    using assms(3) by (auto simp: mark_completed_def mark_failed_def mark_cancelled_def mark_interrupted_def)
  then show ?thesis
    using wp_settle_with [OF assms(1), of f env k] assms(2,4) by (simp add: wp_def)
qed

text \<open>
  C10. The completion of a Task returns, and leaves it settled, when the next transaction of the store
  does not fail, the record and its root are in memory, neither the Task nor its tree has a pending
  review, no other intent of the settlement outbox holds the identity of this settlement
  (\<open>fresh_settlement\<close>), and the texts and times of the record, the result and the clock are values
  Python's encoders accept (\<open>record_ok\<close>, \<open>pystr_ok\<close>, \<open>datetime_ok\<close>).  Under these conditions neither the
  size of the result nor anything else of the record makes the manager raise.
\<close>

theorem completion_returns:
  assumes "mirrored m" and "loaded k m" and "store_works m" and "tm_store m = Some db"
    and "map_of (tm_tasks m) k = Some r"
    and "\<forall>v \<in> set (db_reviews db). rv_task_id v \<noteq> k \<and> rv_root_task_id v \<noteq> tk_root_task_id r"
    and "record_ok r" and "pystr_ok result" and "\<forall>n. datetime_ok (env_clock env n)"
    and "fresh_settlement env (tm_settled_outbox m) (r\<lparr>tk_state := TS_completed\<rparr>) db"
  shows "\<exists>m'. mark_completed env k result m = (m', Inr ())
    \<and> settled env k (\<lambda>r. r\<lparr>tk_state := TS_completed, tk_result := Some (normalize_task_event_text result), tk_error := None\<rparr>) m m'"
proof -
  let ?f = "\<lambda>r. r\<lparr>tk_state := TS_completed, tk_result := Some (normalize_task_event_text result), tk_error := None\<rparr>"
  have "pystr_ok (normalize_task_event_text result)"
    using normalize_scalar [OF assms(8)] by (auto simp: scalar_text_def pystr_ok_def)
  then have "record_ok (?f r)"
    using assms(7) by (simp add: record_ok_def)
  moreover have "fresh_settlement env (tm_settled_outbox m) (?f r) db"
    using assms(10)
    by (auto simp: fresh_settlement_def build_settled_outbox_intent_def same_outbox_identity_def Let_def list_ex_iff split: option.splits)
  ultimately have "wp (settle_with env k ?f) (\<lambda>_ _. True) (\<lambda>_ _. False) m"
    using assms(9) by (intro settle_returns [OF assms(1-5) _ _ assms(6)]) simp_all
  from wp_conj [OF this wp_settle_with [OF assms(1), of ?f env k]] show ?thesis
    using assms(2) by (auto simp: mark_completed_def wp_def split: prod.splits sum.splits)
qed

text \<open>
  C11. A request for review that returns is durable in one piece: the row of the Task waits, its event is
  written, the table holds one review for the Task, under the identity the payload gives, and the
  root of the tree shows the earliest pending review.
\<close>

theorem review_request_durable:
  assumes "mirrored m" and "loaded k m" and "mark_waiting_for_human env k pending m = (m', Inr ())"
  shows "asked env k pending m m'"
  using wp_mark_waiting_for_human [OF assms(1), of env k pending] assms(2,3) by (simp add: wp_def)

text \<open>
  C12. A remote snapshot clears a recorded operation only on evidence that it took effect: the snapshot
  names the Task the operation created, counts a run beyond the one the operation started from, has
  left the review that was answered, or is cancelled.
\<close>

theorem operation_cleared_on_evidence:
  assumes "mirrored m" and "loaded k m" and "map_of (tm_tasks m) k = Some r" and "tk_external_operation r = Some operation"
    and "sync_remote_task env k payload m = (m', Inr r')" and "tk_external_operation r' = None"
  shows "operation = str ''create'' \<and> (\<exists>t. tk_upstream_task_id r = Some t \<and> t \<noteq> [] \<and> dict_get (str ''task_id'') payload = PStr t)
    \<or> operation = str ''cancel'' \<and> dict_get (str ''status'') payload = PStr (str ''cancelled'')
    \<or> operation \<in> {str ''send'', str ''review''}
      \<and> (\<exists>n base. dict_get (str ''run_count'') payload = PInt n \<and> tk_external_operation_run_count r = Some base \<and> base < n)
      \<and> (operation = str ''review'' \<longrightarrow> dict_get (str ''status'') payload \<noteq> PStr (str ''waiting_for_human''))"
proof -
  have "map_of (tm_tasks m') k = Some r'" "snapshot_taken env k payload (\<lambda>r. r) m m'"
    using wp_sync_remote_task [OF assms(1), of env k payload] assms(2,5) by (simp_all add: wp_def)
  then have "reconciled env payload r r'"
    using assms(3) by (auto simp: snapshot_taken_def)
  moreover have "tk_external_operation ((mark_record_uncertain operation r)\<lparr>tk_updated_at := now, tk_mailbox_delivered := flag\<rparr>) = Some operation" for now flag
    using assms(4) by (simp add: mark_record_uncertain_def)
  ultimately obtain status n where v: "validate_remote_task_state (tk_task_id r) payload = Inr (status, n)"
    and proven: "effect_is_proven r payload status n"
    using assms(4,6) by (force simp: reconciled_def split: if_splits)
  have named: "task_state_of_name name = Some st \<Longrightarrow> name = task_state_name st" for name st
    by (auto simp: task_state_of_name_def find_Some_iff)
  have "dict_get (str ''status'') payload = PStr (task_state_name status)" "dict_get (str ''run_count'') payload = PInt n"
    using v by (auto simp: validate_remote_task_state_def Let_def dest: named split: option.splits pyval.splits if_splits)
  moreover have "task_state_name status = str ''waiting_for_human'' \<longleftrightarrow> status = TS_waiting_for_human"
    by (cases status) (simp_all add: str_def)
  ultimately show ?thesis
    using proven assms(4)
    by (auto simp: effect_is_proven_def split: option.splits list.splits if_splits)
qed

lemma wp_commit_fails:
  "tm_store m = Some db \<Longrightarrow> tm_faults m = True # fs \<Longrightarrow> wp (commit w) Q E m \<longleftrightarrow> E ME_store_unavailable (m\<lparr>tm_faults := fs\<rparr>)"
  by (simp add: wp_def commit_def Let_def)

text \<open>
  The artifact of a failed publication stays on the record in memory: \<open>add_artifact\<close> changes the
  shared object outside a memory transaction, so when the write of the store fails the caller gets
  the error and the database keeps the old row, but the object still lists the artifact.
\<close>

theorem artifact_kept_after_failure:
  assumes "map_of (tm_tasks m) k = Some r" and "tm_store m = Some db" and "tm_faults m = True # faults"
  shows "\<exists>m' e r'. add_artifact env k artifact m = (m', Inl e) \<and> tm_store m' = Some db
    \<and> map_of (tm_tasks m') k = Some r' \<and> tk_artifacts r' = tk_artifacts r @ [artifact]"
proof -
  have "wp (add_artifact env k artifact) (\<lambda>_ _. False)
      (\<lambda>_ m'. tm_store m' = Some db \<and> (\<exists>r'. map_of (tm_tasks m') k = Some r' \<and> tk_artifacts r' = tk_artifacts r @ [artifact])) m"
    using assms
    by (auto simp: add_artifact_def wp_simps get_task_def update_conv' wp_commit_fails split: sum.split)
  then show ?thesis
    by (auto simp: wp_def split: prod.splits sum.splits)
qed

section \<open>Concrete runs\<close>

definition sample_env :: manager_env where
  "sample_env = \<lparr>env_clock = (\<lambda>n. 100), env_uuid4 = (\<lambda>n. str ''v''), env_uuid5 = sample_uuid,
     env_fromiso = (\<lambda>_. None), env_live = []\<rparr>"

definition managed_root :: task_record where
  "managed_root = sample_task\<lparr>tk_task_id := str ''p'', tk_parent_task_id := None, tk_state := TS_running, tk_result := None\<rparr>"

definition managed_child :: task_record where
  "managed_child = sample_task\<lparr>tk_state := TS_running, tk_result := None\<rparr>"

definition remote_child :: task_record where
  "remote_child = managed_child\<lparr>tk_route_kind := RK_remote_ref, tk_external_operation := Some (str ''send''),
     tk_external_operation_identity := Some (str ''i''), tk_external_operation_run_count := Some 1,
     tk_external_outcome_uncertain := True\<rparr>"

definition managed :: "task_record \<Rightarrow> bool list \<Rightarrow> manager" where
  "managed child faults = \<lparr>tm_tasks = [(str ''p'', managed_root), (str ''c'', child)], tm_runs = [],
     tm_store = Some (empty_db\<lparr>db_tasks := [managed_root, child]\<rparr>), tm_settled_outbox = True,
     tm_reviews = [], tm_next_review = 1, tm_faults = faults, tm_ticks = 0\<rparr>"

lemma managed_root_ids [simp]: "tk_task_id managed_root = str ''p''" "tk_root_task_id managed_root = str ''p''"
  "tk_pending_review managed_root = None"
  by (simp_all add: managed_root_def sample_task_def)

lemma managed_child_idle [simp]: "tk_external_operation managed_child = None"
  by (simp add: managed_child_def sample_task_def)

lemma sample_clock [simp]: "env_clock sample_env n = 100"
  by (simp add: sample_env_def)

lemma managed_child_ids [simp]: "tk_task_id managed_child = str ''c''" "tk_root_task_id managed_child = str ''p''"
  "tk_task_id remote_child = str ''c''" "tk_root_task_id remote_child = str ''p''"
  by (simp_all add: managed_child_def remote_child_def sample_task_def)

lemma two_ids [simp]: "str ''p'' \<noteq> str ''c''" "str ''c'' \<noteq> str ''p''"
  by (simp_all add: str_def)

lemma managed_ok:
  assumes "tk_task_id child = str ''c''" and "tk_root_task_id child = str ''p''"
  shows "mirrored (managed child faults)" "loaded (str ''c'') (managed child faults)"
  using assms
  by (auto simp: mirrored_def loaded_def managed_def mirrors_def task_at_def empty_db_def db_inv_def outbox_ok_def mail_ok_def
      events_ok_def reviews_ok_def unique_key_def mail_keys_def)

lemma managed_records_ok:
  "record_ok managed_child" "record_ok managed_root" "record_ok remote_child" "datetime_ok 100" "pystr_ok (str ''c'')"
  by (auto simp: record_ok_def managed_child_def managed_root_def remote_child_def sample_task_def datetime_ok_def pystr_ok_def str_def)

lemma managed_at [simp]: "map_of (tm_tasks (managed child faults)) (str ''c'') = Some child"
  "map_of (tm_tasks (managed child faults)) (str ''p'') = Some managed_root"
  "tm_store (managed child faults) = Some (empty_db\<lparr>db_tasks := [managed_root, child]\<rparr>)"
  "tm_faults (managed child faults) = faults"
  by (simp_all add: managed_def)

theorem failed_call_leaves_no_trace_witness:
  "\<exists>m'. run_call sample_env (Begin_external_operation (str ''c'') (str ''send'') (str ''i'') False) (managed managed_child [True])
      = (m', Inl ME_store_unavailable) \<and> unchanged (managed managed_child [True]) m'"
proof -
  let ?c = "Begin_external_operation (str ''c'') (str ''send'') (str ''i'') False"
  have "wp (run_call sample_env ?c) (\<lambda>_ _. False) (\<lambda>e _. e = ME_store_unavailable) (managed managed_child [True])"
    by (auto simp: begin_external_operation_def wp_bind get_task_def wp_get wp_ret root_record_def wp_the_task Let_def
        wp_then wp_edit_task save_uncertain_def update_conv' wp_commit_fails intro!: wp_memory_transaction_raises)
  then obtain m' where "run_call sample_env ?c (managed managed_child [True]) = (m', Inl ME_store_unavailable)"
    by (auto simp: wp_def split: prod.splits sum.splits)
  with failed_call_leaves_no_trace [OF managed_ok(1) _ _ this] managed_ok(2) show ?thesis
    by auto
qed

theorem manager_mirrors_store_witness:
  "mirrored (run_calls
     [(sample_env, Mark_mailbox_delivered (str ''c'')), (sample_env, Mark_completed (str ''c'') (str ''ok''))]
     (new_manager (Some (empty_db\<lparr>db_tasks := [managed_root, sample_task]\<rparr>)) True [False, True]))"
proof (rule manager_mirrors_store)
  show "db_inv (empty_db\<lparr>db_tasks := [managed_root, sample_task]\<rparr>)"
    using managed_ok(1) [of sample_task "[]"] by (simp add: mirrored_def sample_task_def)
  have "tk_task_id sample_task = str ''c''" "task_record_for_restart now sample_task = sample_task"
    "tk_external_operation sample_task = None" for now
    by (simp_all add: sample_task_def task_record_for_restart_def executing_task_states_def active_task_states_def)
  then have "wp (run_call sample_env (Mark_mailbox_delivered (str ''c''))) (\<lambda>_ _. True) (\<lambda>_ _. False)
      (new_manager (Some (empty_db\<lparr>db_tasks := [managed_root, sample_task]\<rparr>)) True [False, True])"
    by (simp add: mark_mailbox_delivered_def wp_simps get_task_def load_task_by_id_def load_stored_def restore_unless_live_def
        restore_stored_record_def new_manager_def Let_def put_task_def task_at_def update_conv' save_record_def
        wp_commit_works store_works_def update_task_def update_task_locked_def transact_def)
  then have "snd (run_call sample_env (Mark_mailbox_delivered (str ''c''))
      (new_manager (Some (empty_db\<lparr>db_tasks := [managed_root, sample_task]\<rparr>)) True [False, True])) = Inr ()"
    by (auto simp: wp_def split: prod.splits sum.splits)
  then show "direct_writes_return
     [(sample_env, Mark_mailbox_delivered (str ''c'')), (sample_env, Mark_completed (str ''c'') (str ''ok''))]
     (new_manager (Some (empty_db\<lparr>db_tasks := [managed_root, sample_task]\<rparr>)) True [False, True])"
    by (simp add: case_prod_unfold Let_def del: run_call.simps)
qed

lemma sample_fresh: "fresh_settlement sample_env outbox r (empty_db\<lparr>db_tasks := ts\<rparr>)"
  by (auto simp: fresh_settlement_def empty_db_def split: option.split)

theorem completion_returns_witness:
  "\<exists>m'. mark_completed sample_env (str ''c'') (str ''ok'') (managed managed_child [False]) = (m', Inr ())
    \<and> settled sample_env (str ''c'') (\<lambda>r. r\<lparr>tk_state := TS_completed, tk_result := Some (normalize_task_event_text (str ''ok'')),
        tk_error := None\<rparr>) (managed managed_child [False]) m'"
  by (rule completion_returns [where r = managed_child and db = "empty_db\<lparr>db_tasks := [managed_root, managed_child]\<rparr>"])
    (simp_all add: managed_ok managed_records_ok store_works_def sample_fresh, simp_all add: empty_db_def pystr_ok_def str_def)

theorem settlement_durable_witness:
  "\<exists>m'. mark_completed sample_env (str ''c'') (str ''ok'') (managed managed_child []) = (m', Inr ())
    \<and> settled sample_env (str ''c'') (\<lambda>r. r\<lparr>tk_state := TS_completed, tk_result := Some (normalize_task_event_text (str ''ok'')),
        tk_error := None\<rparr>) (managed managed_child []) m'"
proof -
  have "wp (mark_completed sample_env (str ''c'') (str ''ok'')) (\<lambda>_ _. True) (\<lambda>_ _. False) (managed managed_child [])"
    unfolding mark_completed_def
    by (rule settle_returns [where r = managed_child and db = "empty_db\<lparr>db_tasks := [managed_root, managed_child]\<rparr>"])
      (use managed_records_ok in \<open>simp_all add: managed_ok store_works_def sample_fresh record_ok_def pystr_ok_def
        normalize_task_event_text_def\<close>, simp_all add: empty_db_def str_def)
  then obtain m' where "mark_completed sample_env (str ''c'') (str ''ok'') (managed managed_child []) = (m', Inr ())"
    by (auto simp: wp_def split: prod.splits sum.splits)
  moreover from this have "settled sample_env (str ''c'') (\<lambda>r. r\<lparr>tk_state := TS_completed,
      tk_result := Some (normalize_task_event_text (str ''ok'')), tk_error := None\<rparr>) (managed managed_child []) m'"
    by (intro settlement_durable [where settle = "mark_completed sample_env (str ''c'') (str ''ok'')" and text' = "str ''ok''"])
      (simp_all add: managed_ok)
  ultimately show ?thesis
    by blast
qed

theorem review_request_durable_witness:
  "\<exists>m'. mark_waiting_for_human sample_env (str ''c'') [] (managed managed_child []) = (m', Inr ())
    \<and> asked sample_env (str ''c'') [] (managed managed_child []) m'"
proof -
  have "wp (mark_waiting_for_human sample_env (str ''c'') []) (\<lambda>_ _. True) (\<lambda>_ _. False) (managed managed_child [])"
    by (rule ask_returns [where r = managed_child and rr = managed_root and db = "empty_db\<lparr>db_tasks := [managed_root, managed_child]\<rparr>"])
      (simp_all add: managed_ok managed_records_ok store_works_def,
        simp_all add: empty_db_def dict_get_def nonempty_str_def sample_env_def pystr_ok_def str_def)
  then obtain m' where "mark_waiting_for_human sample_env (str ''c'') [] (managed managed_child []) = (m', Inr ())"
    by (auto simp: wp_def split: prod.splits sum.splits)
  with review_request_durable [OF managed_ok this] show ?thesis
    by simp
qed

definition sent_payload :: pydict where
  "sent_payload = [(str ''status'', PStr (str ''running'')), (str ''run_count'', PInt 2)]"

theorem operation_cleared_on_evidence_witness:
  "\<exists>m' r'. sync_remote_task sample_env (str ''c'') sent_payload (managed remote_child []) = (m', Inr r')
    \<and> tk_external_operation r' = None
    \<and> (\<exists>n base. dict_get (str ''run_count'') sent_payload = PInt n \<and> tk_external_operation_run_count remote_child = Some base \<and> base < n)"
proof -
  let ?m = "managed remote_child []"
  have v: "validate_remote_task_state (str ''c'') sent_payload = Inr (TS_running, 2)"
    by code_simp
  have proven: "effect_is_proven remote_child sent_payload TS_running 2"
    by (simp add: effect_is_proven_def remote_child_def str_def)
  have ok: "record_ok (remote_fields sample_env sent_payload TS_running 2 remote_child)"
    using managed_records_ok(3)
    by (simp add: record_ok_def remote_fields_def clear_external_fields_def sent_payload_def dict_get_def parse_task_timestamp_def
        nonempty_str_def public_pending_review_def str_def)
  have "wp (sync_remote_task sample_env (str ''c'') sent_payload) (\<lambda>_ _. True) (\<lambda>_ _. False) ?m"
    by (rule snapshot_returns [where r = remote_child and db = "empty_db\<lparr>db_tasks := [managed_root, remote_child]\<rparr>" and status = TS_running and n = 2])
      (use v proven ok in \<open>simp_all add: managed_ok managed_records_ok store_works_def sample_fresh\<close>, simp_all add: empty_db_def)
  then obtain m' r' where run: "sync_remote_task sample_env (str ''c'') sent_payload ?m = (m', Inr r')"
    by (auto simp: wp_def split: prod.splits sum.splits)
  have "snapshot_taken sample_env (str ''c'') sent_payload (\<lambda>r. r) ?m m'" "map_of (tm_tasks m') (str ''c'') = Some r'"
    using wp_sync_remote_task [OF managed_ok(1), of remote_child sample_env "str ''c''" sent_payload "[]"] run managed_ok(2) [of remote_child "[]"]
    by (simp_all add: wp_def)
  then have "reconciled sample_env sent_payload remote_child r'"
    by (simp add: snapshot_taken_def)
  then have "same_but_review (remote_fields sample_env sent_payload TS_running 2 remote_child) r'"
    using v proven by (auto simp: reconciled_def remote_child_def split: if_splits)
  then have "tk_external_operation r' = tk_external_operation (remote_fields sample_env sent_payload TS_running 2 remote_child)"
    unfolding same_but_review_def by (drule_tac arg_cong [where f = tk_external_operation]) simp
  then have cleared: "tk_external_operation r' = None"
    by (simp add: remote_fields_def clear_external_fields_def)
  have "tk_external_operation remote_child = Some (str ''send'')"
    by (simp add: remote_child_def)
  from operation_cleared_on_evidence [OF managed_ok managed_at(1) this run cleared] run cleared show ?thesis
    by (auto simp: str_def)
qed

theorem artifact_kept_after_failure_witness:
  "\<exists>m' e r'. add_artifact sample_env (str ''c'') \<lparr> af_artifact_id = str ''f1'', af_path = str ''/f'', af_name = str ''f'',
       af_caption = None, af_content_type = str ''text/plain'', af_size = 3, af_run_count = 1 \<rparr> (managed managed_child [True]) = (m', Inl e)
    \<and> tm_store m' = tm_store (managed managed_child [True])
    \<and> map_of (tm_tasks m') (str ''c'') = Some r' \<and> tk_artifacts r' \<noteq> []"
  using artifact_kept_after_failure [of "managed managed_child [True]" "str ''c''" managed_child _ "[]" sample_env
      "\<lparr> af_artifact_id = str ''f1'', af_path = str ''/f'', af_name = str ''f'',
       af_caption = None, af_content_type = str ''text/plain'', af_size = 3, af_run_count = 1 \<rparr>"]
  by fastforce

end
