(* ===== verification/Gateway_Errors.thy ===== *)
theory Gateway_Errors
  imports Task_Model
begin

text \<open>
  The errors of the Gateway: \<open>gateway/errors.py\<close>, the sanitising of what crosses the boundary
  to a remote Gateway (\<open>gateway/public_errors.py\<close>) and the classification of a failed create
  (\<open>gateway/create_errors.py\<close>).

  A \<open>details\<close> dict is its list of items; \<open>details or None\<close> makes the empty dict \<open>None\<close>.  The
  exceptions a create may raise are the constructors of \<open>effect_exn\<close>; those whose class derives
  from \<open>ValueError\<close> are named by \<open>is_value_error\<close>.
\<close>

section \<open>Errors\<close>

datatype effect_disposition = ED_not_dispatched | ED_authoritative_rejection | ED_outcome_unknown

record gateway_error =
  ge_code :: pystr
  ge_message :: pystr
  ge_details :: "pydict option"
  ge_kind :: "pystr option"
  ge_effect_disposition :: "effect_disposition option"

definition gateway_error_of :: "pystr \<Rightarrow> pystr \<Rightarrow> gateway_error" where
  "gateway_error_of code message =
     \<lparr>ge_code = code, ge_message = message, ge_details = None, ge_kind = None,
      ge_effect_disposition = None\<rparr>"

datatype a2a_boundary = AB_not_dispatched | AB_possibly_dispatched

record a2a_error =
  a2_status_code :: int
  a2_code :: pystr
  a2_message :: pystr
  a2_details :: "pydict option"
  a2_effect_boundary :: a2a_boundary

text \<open>The exceptions of the runtime the Gateway tells apart; \<open>E_other\<close> is any other \<open>Exception\<close>.\<close>

datatype effect_exn =
    E_unknown_agent
  | E_executor_not_implemented pystr
  | E_max_depth int int
  | E_max_tasks pystr int int
  | E_client a2a_error
  | E_unknown_task
  | E_value
  | E_other

fun is_value_error :: "effect_exn \<Rightarrow> bool" where
  "is_value_error (E_client _) = False"
| "is_value_error E_other = False"
| "is_value_error _ = True"

section \<open>Public errors\<close>

definition safe_upstream_codes :: "pystr list" where
  "safe_upstream_codes =
     [str ''agent_unavailable'', str ''runtime_unavailable'', str ''task_events_unavailable'',
      str ''task_history_unavailable'', str ''task_not_found'', str ''upstream_gateway_error'']"

definition operation_messages :: "(pystr \<times> pystr) list" where
  "operation_messages =
     [(str ''create'', str ''Remote Gateway Task creation failed''),
      (str ''get'', str ''Remote Gateway Task refresh failed''),
      (str ''send'', str ''Remote Gateway Task input failed''),
      (str ''cancel'', str ''Remote Gateway Task cancellation failed''),
      (str ''review'', str ''Remote Gateway review submission failed''),
      (str ''messages'', str ''Remote Gateway Task message request failed''),
      (str ''events'', str ''Remote Gateway Task event request failed'')]"

fun route_state_name :: "route_state \<Rightarrow> pystr" where
  "route_state_name RS_pending = str ''pending''"
| "route_state_name RS_active = str ''active''"
| "route_state_name RS_failed = str ''failed''"
| "route_state_name RS_uncertain = str ''uncertain''"

text \<open>\<open>d[key] = value\<close>: an existing key keeps its place.\<close>

fun dict_set :: "pystr \<Rightarrow> pyval \<Rightarrow> pydict \<Rightarrow> pydict" where
  "dict_set k v [] = [(k, v)]"
| "dict_set k v ((k', v') # d) = (if k' = k then (k, v) # d else (k', v') # dict_set k v d)"

definition public_route_details :: "route_record option \<Rightarrow> pystr option \<Rightarrow> pydict" where
  "public_route_details route task_id =
     (case task_id of
        None \<Rightarrow> []
      | Some t \<Rightarrow>
          [(str ''task_id'', PStr t), (str ''task_url'', PStr (str ''/tasks/'' @ t))]
          @ (case route of
               None \<Rightarrow> []
             | Some r \<Rightarrow> [(str ''route_state'', PStr (route_state_name (rt_route_state r)))]))"

definition dict_or_none :: "pydict \<Rightarrow> pydict option" where
  "dict_or_none d = (if d = [] then None else Some d)"

text \<open>The run counts a peer may report: non-negative integers, and no booleans.\<close>

definition copy_run_count :: "pydict \<Rightarrow> pystr \<Rightarrow> pydict \<Rightarrow> pydict" where
  "copy_run_count peer key details =
     (case dict_get key peer of
        PInt i \<Rightarrow> if i \<ge> 0 then dict_set key (PInt i) details else details
      | _ \<Rightarrow> details)"

definition public_upstream_error ::
  "a2a_error \<Rightarrow> pystr \<Rightarrow> route_record option \<Rightarrow> pystr option \<Rightarrow> gateway_error" where
  "public_upstream_error exc operation route task_id =
     (let public_id = (case route of Some r \<Rightarrow> Some (rt_task_id r) | None \<Rightarrow> task_id);
          details = public_route_details route public_id;
          bad_request = a2_status_code exc = 400 \<and> a2_code exc = str ''invalid_request''
      in if operation = str ''messages'' \<and> bad_request
           then (gateway_error_of (str ''invalid_request'')
                   (str ''Remote Gateway rejected the Task message request''))
                  \<lparr>ge_details := dict_or_none details\<rparr>
         else if operation = str ''events'' \<and> bad_request
           then (gateway_error_of (str ''invalid_request'')
                   (str ''Remote Gateway rejected the Task event request''))
                  \<lparr>ge_details := dict_or_none details\<rparr>
         else if operation = str ''events'' \<and> a2_status_code exc = 409
             \<and> a2_code exc = str ''task_run_mismatch''
           then (let peer = (case a2_details exc of None \<Rightarrow> [] | Some d \<Rightarrow> d);
                     details = copy_run_count peer (str ''current_run_count'')
                       (copy_run_count peer (str ''requested_run_count'') details)
                 in (gateway_error_of (str ''task_run_mismatch'')
                       (str ''Remote Gateway Task run does not match the requested run''))
                      \<lparr>ge_details := dict_or_none details\<rparr>)
         else (gateway_error_of
                 (if a2_code exc \<in> set safe_upstream_codes then a2_code exc
                  else str ''upstream_gateway_error'')
                 (case map_of operation_messages operation of
                    None \<Rightarrow> str ''Remote Gateway Task operation failed'' | Some m \<Rightarrow> m))
                \<lparr>ge_kind := Some (str ''upstream_failure''), ge_details := dict_or_none details\<rparr>)"

definition public_upstream_payload_error ::
  "route_record option \<Rightarrow> pystr option \<Rightarrow> gateway_error" where
  "public_upstream_payload_error route task_id =
     (let public_id = (case route of Some r \<Rightarrow> Some (rt_task_id r) | None \<Rightarrow> task_id)
      in (gateway_error_of (str ''upstream_gateway_error'')
            (str ''Remote Gateway returned an invalid Task payload''))
           \<lparr>ge_kind := Some (str ''upstream_failure''),
            ge_details := dict_or_none (public_route_details route public_id)\<rparr>)"

definition public_remote_record :: "task_record \<Rightarrow> task_record" where
  "public_remote_record record0 =
     record0\<lparr>tk_thread_id := tk_task_id record0,
       tk_error := (case tk_error record0 of
                      None \<Rightarrow> None | Some _ \<Rightarrow> Some (str ''Remote Gateway Task failed'')),
       tk_pending_review :=
         (case tk_pending_review record0 of
            None \<Rightarrow> None
          | Some review \<Rightarrow>
              Some (if str ''source_task_id'' \<in> fst ` set review
                    then dict_set (str ''source_task_id'') (PStr (tk_task_id record0)) review
                    else review))\<rparr>"

text \<open>
  \<open>public_create_route_error\<close> is given the error of a create or a text (\<open>error_text\<close>): both are
  the only arguments its callers pass.
\<close>

datatype error_text = Error_of gateway_error | Error_text pystr

fun public_create_route_error :: "error_text \<Rightarrow> route_kind \<Rightarrow> pystr" where
  "public_create_route_error err RK_remote_ref = str ''Remote Gateway Task creation failed''"
| "public_create_route_error (Error_of e) RK_local = ge_message e"
| "public_create_route_error (Error_text t) RK_local = t"

section \<open>The classification of a failed create\<close>

definition delegation_depth_error :: "int \<Rightarrow> int \<Rightarrow> gateway_error" where
  "delegation_depth_error current_depth max_depth =
     gateway_error_of (str ''delegation_depth_exceeded'')
       (str ''Delegation depth limit exceeded: current_depth='' @ dec current_depth
        @ str '' max_depth='' @ dec max_depth)"

definition delegation_budget_error :: "pystr \<Rightarrow> int \<Rightarrow> int \<Rightarrow> gateway_error" where
  "delegation_budget_error root_task_id current_count max_tasks_per_root =
     gateway_error_of (str ''delegation_budget_exhausted'')
       (str ''Task budget exhausted: root_task_id='' @ root_task_id
        @ str '' current_count='' @ dec current_count
        @ str '' max_tasks_per_root='' @ dec max_tasks_per_root)"

definition with_disposition :: "gateway_error \<Rightarrow> effect_disposition \<Rightarrow> gateway_error" where
  "with_disposition err disposition = err\<lparr>ge_effect_disposition := Some disposition\<rparr>"

definition client_disposition :: "a2a_error \<Rightarrow> effect_disposition" where
  "client_disposition exc =
     (if a2_effect_boundary exc = AB_not_dispatched then ED_not_dispatched
      else if 400 \<le> a2_status_code exc \<and> a2_status_code exc < 500 then ED_authoritative_rejection
      else ED_outcome_unknown)"

definition create_effect_error :: "effect_exn \<Rightarrow> pystr \<Rightarrow> route_kind \<Rightarrow> gateway_error" where
  "create_effect_error exc agent_name kind =
     (let payload =
            with_disposition (public_upstream_payload_error None None)
              (if kind = RK_remote_ref then ED_outcome_unknown else ED_authoritative_rejection)
      in case exc of
        E_unknown_agent \<Rightarrow>
          with_disposition
            (gateway_error_of (str ''runtime_unavailable'')
               ((if kind = RK_local then str ''Local runtime'' else str ''Runtime'')
                @ str '' is not configured for agent '' @ [39] @ agent_name @ [39]))
            ED_authoritative_rejection
      | E_executor_not_implemented msg \<Rightarrow>
          with_disposition (gateway_error_of (str ''remote_executor_not_implemented'') msg)
            ED_authoritative_rejection
      | E_max_depth current_depth max_depth \<Rightarrow>
          with_disposition (delegation_depth_error current_depth max_depth)
            ED_authoritative_rejection
      | E_max_tasks root_task_id current_count max_tasks_per_root \<Rightarrow>
          with_disposition (delegation_budget_error root_task_id current_count max_tasks_per_root)
            ED_authoritative_rejection
      | E_client e \<Rightarrow>
          with_disposition (public_upstream_error e (str ''create'') None None)
            (client_disposition e)
      | E_unknown_task \<Rightarrow> payload
      | E_value \<Rightarrow> payload
      | E_other \<Rightarrow>
          with_disposition
            (gateway_error_of (str ''task_creation_failed'') (str ''Gateway Task creation failed''))
            ED_outcome_unknown)"

end
