(* ===== verification/Create_Workflow.thy ===== *)
theory Create_Workflow
  imports Gateway_Errors Gateway_Routes Delegation_Context Fallible_State
begin

text \<open>
  The durable creation of a Gateway Task: \<open>gateway/create_route_workflow.py\<close>
  (\<open>CreateRouteWorkflow\<close>, \<open>RouteRecordPort\<close>) with the reservations of
  \<open>gateway/route_reservations.py\<close> and \<open>recover_create_effect_error\<close> of
  \<open>gateway/create_errors.py\<close>, over the route store of \<open>Gateway_Routes\<close>.

  The state is the route table and, as history, the calls of \<open>spawn_task\<close> with whether each
  may have reached its executor.  Every awaited call has a place (\<open>call_site\<close>), and the
  environment says what becomes of it there: it returns, it raises without an effect (an
  unavailable database), the request is cancelled at it, or the process stops at it, the last two
  before or after the effect.  What \<open>AgentControl\<close> answers is the environment's.  A cancelled
  cleanup goes on (\<open>shield_durable_cleanup\<close>), so within a cleanup no call is cancelled.

  The workflow also updates the route object it reserved (\<open>_fail_reservation\<close>,
  \<open>_activate\<close>); no later step reads what it writes, but the upstream id of \<open>_activate\<close>, which
  is passed on here.
\<close>

section \<open>State and environment\<close>

record spawn_call =
  sp_agent_name :: pystr
  sp_input_content :: pystr
  sp_webhook :: "pydict option"
  sp_delegation_context :: "delegation_context option"
  sp_task_id :: pystr
  sp_attachments :: "pydict list option"
  sp_metadata :: "pydict option"
  sp_idempotency_key :: "pystr option"

record create_world =
  cw_routes :: route_table
  cw_spawned :: "(spawn_call \<times> bool) list"

datatype call_outcome =
    Call_returns
  | Call_fails
  | Call_cancelled bool
  | Call_stops bool

text \<open>The places; the flag tells the reconciliation of a cleanup from any other.\<close>

datatype call_site =
    At_reserve | At_evidence | At_reconcile_evidence bool | At_settle bool | At_settle_read bool
  | At_before_effect | At_mark_started | At_spawn | At_restore | At_fail | At_fail_read | At_activate

datatype create_exn =
    X_gateway gateway_error
  | X_effect effect_exn
  | X_store route_error
  | X_cancelled
  | X_stopped

record create_env =
  en_call :: "call_site \<Rightarrow> call_outcome"
  en_now :: "call_site \<Rightarrow> int"
  en_clock :: int
  en_uuid :: pystr
  en_idempotent :: "pystr \<Rightarrow> bool option"
  en_spawn :: "spawn_call \<Rightarrow> effect_exn + task_record"
  en_local :: "pystr \<Rightarrow> effect_exn + task_record"
  en_ensure :: "route_record \<Rightarrow> effect_exn + task_record"
  en_refresh :: "pystr \<Rightarrow> effect_exn + task_record"

type_synonym 'a copn = "(create_world, create_exn, 'a) opn"

text \<open>A call of the route store at a place.\<close>

definition store_call ::
  "create_env \<Rightarrow> call_site \<Rightarrow> (int \<Rightarrow> route_table \<Rightarrow> route_table \<times> (route_error + 'a)) \<Rightarrow> 'a copn" where
  "store_call env site f w =
     (let (rows, result) = f (en_now env site) (cw_routes w);
          after = w\<lparr>cw_routes := rows\<rparr>
      in case en_call env site of
           Call_returns \<Rightarrow> (after, lift_error X_store result)
         | Call_fails \<Rightarrow> (w, Inl (X_effect E_other))
         | Call_cancelled eff \<Rightarrow> (if eff then after else w, Inl X_cancelled)
         | Call_stops eff \<Rightarrow> (if eff then after else w, Inl X_stopped))"

definition store_read ::
  "create_env \<Rightarrow> call_site \<Rightarrow> (route_table \<Rightarrow> route_error + 'a) \<Rightarrow> 'a copn" where
  "store_read env site f = store_call env site (\<lambda>_ rows. (rows, f rows))"

text \<open>\<open>except Exception\<close>, which takes neither a cancellation nor the end of the process.\<close>

fun is_exception :: "create_exn \<Rightarrow> bool" where
  "is_exception X_cancelled = False"
| "is_exception X_stopped = False"
| "is_exception _ = True"

definition except_exception :: "'a copn \<Rightarrow> (create_exn \<Rightarrow> 'a copn) \<Rightarrow> 'a copn" where
  "except_exception c h = op_handle c (\<lambda>e. if is_exception e then h e else op_raise e)"

section \<open>Reservations\<close>

definition create_evidence_policy :: "route_kind \<Rightarrow> bool \<Rightarrow> bool \<Rightarrow> pystr \<times> pystr" where
  "create_evidence_policy kind external_key remote_replay_safe =
     (let key_scope = (if external_key then str ''external''
                       else if remote_replay_safe then str ''generated'' else str ''none'')
      in if kind = RK_local then (key_scope, str ''local_task_identity'')
         else (key_scope, if remote_replay_safe then str ''ruyi_gateway_v1'' else str ''never''))"

definition reservation_record :: "route_record \<Rightarrow> task_record" where
  "reservation_record route =
     \<lparr>tk_task_id = rt_task_id route, tk_agent_name = rt_agent_name route,
      tk_state = (if rt_route_state route = RS_failed then TS_failed else TS_interrupted),
      tk_thread_id = rt_task_id route, tk_parent_task_id = None,
      tk_root_task_id = rt_task_id route, tk_depth = 1, tk_created_at = rt_created_at route,
      tk_updated_at = rt_updated_at route, tk_result = None,
      tk_error = Some (str ''Gateway Task route is '' @ route_state_name (rt_route_state route)),
      tk_run_count = 0, tk_route_kind = rt_route_kind route, tk_upstream_task_id = None,
      tk_parent_thread_id = None, tk_mailbox_suppressed = False, tk_mailbox_delivered = False,
      tk_webhook = rt_webhook route, tk_delegation_root_id = None,
      tk_delegation_max_depth = None, tk_delegation_max_tasks_per_root = None,
      tk_delegation_visited_nodes = [], tk_permission_profile = [],
      tk_effective_skill_names = [], tk_skill_view_path = None, tk_skill_view_hash = None,
      tk_pending_review = None, tk_artifacts = [], tk_external_operation = None,
      tk_external_operation_identity = None, tk_external_operation_run_count = None,
      tk_external_outcome_uncertain = False, tk_mailbox_wakeup_sequence = 0\<rparr>"

definition identity_details ::
  "pystr \<Rightarrow> pystr \<Rightarrow> bool \<Rightarrow> bool \<Rightarrow> pystr \<Rightarrow> pydict" where
  "identity_details task_id route_state queryable retryable effect_outcome =
     [(str ''task_id'', PStr task_id), (str ''route_state'', PStr route_state),
      (str ''task_queryable'', PBool queryable), (str ''create_retryable'', PBool retryable),
      (str ''effect_outcome'', PStr effect_outcome)]
     @ (if queryable then [(str ''task_url'', PStr (str ''/tasks/'' @ task_id))] else [])"

definition with_route_identity ::
  "gateway_error \<Rightarrow> route_record option \<Rightarrow> pystr \<Rightarrow> bool \<Rightarrow> pystr option \<Rightarrow> pystr \<Rightarrow> gateway_error" where
  "with_route_identity err route task_id retryable route_state effect_outcome =
     (let durable_state =
            (case route of
               Some r \<Rightarrow> route_state_name (rt_route_state r)
             | None \<Rightarrow> (if nonempty_opt route_state then the route_state else str ''unknown''))
      in \<lparr>ge_code = ge_code err, ge_message = ge_message err,
          ge_details = Some (identity_details task_id durable_state (route \<noteq> None) retryable
                               effect_outcome),
          ge_kind = ge_kind err, ge_effect_disposition = ge_effect_disposition err\<rparr>)"

definition route_persistence_error ::
  "pystr \<Rightarrow> pystr \<Rightarrow> bool \<Rightarrow> bool \<Rightarrow> pystr \<Rightarrow> gateway_error" where
  "route_persistence_error task_id route_state queryable retryable effect_outcome =
     (gateway_error_of (str ''route_persistence_failed'')
        (str ''Gateway could not durably transition the Task route''))
       \<lparr>ge_details := Some (identity_details task_id route_state queryable retryable effect_outcome)\<rparr>"

definition has_durable_create_effect :: "task_record \<Rightarrow> route_kind \<Rightarrow> bool" where
  "has_durable_create_effect record0 kind =
     (if kind = RK_remote_ref then nonempty_opt (tk_upstream_task_id record0)
      else tk_run_count record0 > 0 \<and> tk_state record0 \<noteq> TS_pending)"

definition has_active_route_binding :: "route_record \<Rightarrow> bool" where
  "has_active_route_binding route \<longleftrightarrow>
     rt_route_state route = RS_active
     \<and> (rt_route_kind route \<noteq> RK_remote_ref \<or> nonempty_opt (rt_upstream_task_id route))"

definition settle_interrupted_route ::
  "create_env \<Rightarrow> bool \<Rightarrow> route_record \<Rightarrow> bool \<Rightarrow> bool \<Rightarrow> route_record copn" where
  "settle_interrupted_route env live route effect_exists no_effect =
     (let state = (if effect_exists then RS_active else if no_effect then RS_failed else RS_uncertain);
          err = (if state = RS_failed then Some (str ''Gateway Task creation did not start'')
                 else if state = RS_uncertain then Some (str ''Gateway Task creation was interrupted'')
                 else None)
      in except_exception
           (store_call env (At_settle live)
              (transition_route (rt_task_id route) state
                 (if effect_exists then Some (rt_task_id route) else rt_upstream_task_id route) err))
           (\<lambda>_. op_bind (store_read env (At_settle_read live) (get_route (rt_task_id route)))
              (\<lambda>durable. op_ret (case durable of None \<Rightarrow> route | Some r \<Rightarrow> r))))"

text \<open>Only a Task unknown to the runtime is missing; any other exception goes on.\<close>

definition local_record :: "create_env \<Rightarrow> pystr \<Rightarrow> task_record option copn" where
  "local_record env task_id =
     (case en_local env task_id of
        Inr r \<Rightarrow> op_ret (Some r)
      | Inl e \<Rightarrow> if e = E_unknown_task then op_ret None else op_raise (X_effect e))"

definition reconcile_pending_create ::
  "create_env \<Rightarrow> bool \<Rightarrow> route_record \<Rightarrow> route_record copn" where
  "reconcile_pending_create env live route =
     (let reconcilable_local = rt_route_kind route = RK_local \<and> rt_route_state route = RS_active
      in if rt_route_state route \<noteq> RS_pending \<and> \<not> reconcilable_local then op_ret route
         else op_bind (store_read env (At_reconcile_evidence live) (get_create_evidence (rt_task_id route)))
           (\<lambda>evidence.
              if rt_route_kind route = RK_remote_ref
              then (if (case evidence of None \<Rightarrow> False
                        | Some e \<Rightarrow> ce_effect_boundary e = str ''reserved'' \<or> permits_remote_replay e)
                    then op_ret route
                    else settle_interrupted_route env live route False False)
              else op_bind (local_record env (rt_task_id route))
                (\<lambda>found.
                   let effect_exists =
                         (case found of None \<Rightarrow> False | Some r \<Rightarrow> has_durable_create_effect r RK_local)
                   in if reconcilable_local \<and> effect_exists then op_ret route
                      else settle_interrupted_route env live route effect_exists
                             (live \<or> (case evidence of None \<Rightarrow> False
                                      | Some e \<Rightarrow> ce_effect_boundary e = str ''reserved'')))))"

section \<open>The record of a route\<close>

definition task_not_found :: "pystr \<Rightarrow> gateway_error" where
  "task_not_found task_id =
     gateway_error_of (str ''task_not_found'') (str ''Task '' @ [39] @ task_id @ [39] @ str '' does not exist'')"

definition port_ensure :: "create_env \<Rightarrow> route_record \<Rightarrow> create_exn + task_record" where
  "port_ensure env route =
     (if \<not> has_active_route_binding route then Inr (reservation_record route)
      else if rt_route_kind route \<noteq> RK_remote_ref then
        (case en_local env (rt_task_id route) of
           Inr r \<Rightarrow> Inr r
         | Inl e \<Rightarrow> if e = E_unknown_task then Inl (X_gateway (task_not_found (rt_task_id route)))
                    else Inl (X_effect e))
      else
        (case en_ensure env route of
           Inr r \<Rightarrow> Inr (public_remote_record r)
         | Inl e \<Rightarrow>
             if e = E_unknown_agent then
               Inl (X_gateway (gateway_error_of (str ''runtime_unavailable'')
                      (str ''Runtime is not configured for agent '' @ [39] @ rt_agent_name route @ [39])))
             else if is_value_error e then Inl (X_gateway (public_upstream_payload_error (Some route) None))
             else Inl (X_effect e)))"

definition port_read :: "create_env \<Rightarrow> route_record \<Rightarrow> bool \<Rightarrow> create_exn + task_record" where
  "port_read env route refresh_remote =
     (if \<not> has_active_route_binding route then Inr (reservation_record route)
      else if rt_route_kind route \<noteq> RK_remote_ref \<or> \<not> refresh_remote then port_ensure env route
      else and_then (port_ensure env route)
        (\<lambda>_. case en_refresh env (rt_task_id route) of
               Inr r \<Rightarrow> Inr (public_remote_record r)
             | Inl E_unknown_task \<Rightarrow> Inl (X_gateway (task_not_found (rt_task_id route)))
             | Inl (E_client e) \<Rightarrow> Inl (X_gateway (public_upstream_error e (str ''get'') (Some route) None))
             | Inl e \<Rightarrow>
                 if is_value_error e then Inl (X_gateway (public_upstream_payload_error (Some route) None))
                 else Inl (X_effect e)))"

section \<open>The workflow\<close>

record create_request =
  rq_agent_name :: pystr
  rq_route_kind :: route_kind
  rq_input_content :: pystr
  rq_metadata :: pydict
  rq_webhook :: "pydict option"
  rq_delegation_context :: "delegation_context option"
  rq_attachments :: "pydict list option"
  rq_task_id :: "pystr option"
  rq_idempotency_key :: "pystr option"
  rq_before_effect :: bool

definition request_task_id :: "create_env \<Rightarrow> create_request \<Rightarrow> pystr" where
  "request_task_id env req = (case rq_task_id req of Some t \<Rightarrow> t | None \<Rightarrow> en_uuid env)"

definition reservation_of :: "create_env \<Rightarrow> create_request \<Rightarrow> pystr \<Rightarrow> route_record" where
  "reservation_of env req task_id =
     \<lparr>rt_task_id = task_id, rt_agent_name = rq_agent_name req, rt_metadata = rq_metadata req,
      rt_route_kind = rq_route_kind req,
      rt_upstream_task_id = (if rq_route_kind req = RK_local then Some task_id else None),
      rt_webhook = rq_webhook req, rt_route_state = RS_pending, rt_route_error = None,
      rt_created_at = en_clock env, rt_updated_at = en_clock env\<rparr>"

definition create_idempotency_guaranteed :: "create_env \<Rightarrow> pystr \<Rightarrow> bool" where
  "create_idempotency_guaranteed env agent_name =
     (case en_idempotent env agent_name of None \<Rightarrow> False | Some b \<Rightarrow> b)"

definition spawn_kwargs :: "create_request \<Rightarrow> pystr \<Rightarrow> bool \<Rightarrow> spawn_call" where
  "spawn_kwargs req task_id remote_replay_safe =
     (let remote = rq_route_kind req = RK_remote_ref
      in \<lparr>sp_agent_name = rq_agent_name req, sp_input_content = rq_input_content req,
          sp_webhook = rq_webhook req, sp_delegation_context = rq_delegation_context req,
          sp_task_id = task_id,
          sp_attachments =
            (if remote then Some (case rq_attachments req of None \<Rightarrow> [] | Some a \<Rightarrow> a) else None),
          sp_metadata = (if remote then Some (rq_metadata req) else None),
          sp_idempotency_key =
            (case rq_idempotency_key req of
               Some k \<Rightarrow> Some k
             | None \<Rightarrow> if remote \<and> remote_replay_safe then Some (str ''gateway-create:'' @ task_id)
                       else None)\<rparr>)"

definition prior_creation_error :: "pystr \<Rightarrow> route_record \<Rightarrow> gateway_error" where
  "prior_creation_error task_id route =
     with_route_identity
       (gateway_error_of (str ''task_creation_not_retryable'')
          (str ''Gateway Task creation previously ended with route state '' @ [39]
           @ route_state_name (rt_route_state route) @ [39]))
       (Some route) task_id False None
       (if rt_route_state route = RS_uncertain then str ''uncertain'' else str ''not_started'')"

definition reserve_step ::
  "create_env \<Rightarrow> route_record \<Rightarrow> pystr \<Rightarrow> pystr \<Rightarrow> (route_record \<times> create_evidence option) copn" where
  "reserve_step env route key_scope replay_policy =
     op_bind
       (except_exception
          (op_bind (store_call env At_reserve (reserve_route route key_scope replay_policy))
             (\<lambda>reserved. op_bind (store_read env At_evidence (get_create_evidence (rt_task_id route)))
                (\<lambda>evidence. op_ret (reserved, evidence))))
          (\<lambda>_. op_raise (X_gateway (route_persistence_error (rt_task_id route) (str ''unpersisted'')
                                       False True (str ''not_started'')))))
       (\<lambda>(reserved, evidence).
          if (case evidence of None \<Rightarrow> True | Some e \<Rightarrow> ce_effect_boundary e \<noteq> str ''reserved'')
          then op_bind (reconcile_pending_create env False reserved)
                 (\<lambda>reserved. op_ret (reserved, evidence))
          else op_ret (reserved, evidence))"

definition fail_reservation ::
  "create_env \<Rightarrow> route_record \<Rightarrow> error_text \<Rightarrow> bool \<Rightarrow> route_record option copn" where
  "fail_reservation env route err uncertain =
     except_exception
       (op_bind
          (store_call env At_fail
             (transition_route (rt_task_id route) (if uncertain then RS_uncertain else RS_failed)
                (rt_upstream_task_id route)
                (Some (public_create_route_error err (rt_route_kind route)))))
          (\<lambda>updated. op_ret (Some updated)))
       (\<lambda>_. except_exception (store_read env At_fail_read (get_route (rt_task_id route)))
              (\<lambda>_. op_ret None))"

text \<open>Within a cleanup nothing is cancelled: \<open>shield_durable_cleanup\<close> waits for its end.\<close>

definition shielded :: "create_env \<Rightarrow> create_env" where
  "shielded env = env\<lparr>en_call := (\<lambda>site. case en_call env site of
     Call_cancelled _ \<Rightarrow> Call_returns | outcome \<Rightarrow> outcome)\<rparr>"

definition cleanup_interrupted :: "create_env \<Rightarrow> route_record \<Rightarrow> unit copn" where
  "cleanup_interrupted env reservation =
     op_bind (reconcile_pending_create (shielded env) True reservation) (\<lambda>_. op_ret ())"

text \<open>\<open>except BaseException: await cleanup; raise\<close>; the end of the process runs no handler.\<close>

definition reraise_cleaned :: "create_env \<Rightarrow> route_record \<Rightarrow> create_exn \<Rightarrow> 'a copn" where
  "reraise_cleaned env reservation e =
     (if e = X_stopped then op_raise e
      else op_then (cleanup_interrupted env reservation) (op_raise e))"

definition boundary_failure :: "create_env \<Rightarrow> route_record \<Rightarrow> pystr \<Rightarrow> pystr \<Rightarrow> 'a copn" where
  "boundary_failure env reservation task_id message =
     op_bind (fail_reservation env reservation (Error_text message) False)
       (\<lambda>durable. op_raise (X_gateway (route_persistence_error task_id
          (case durable of None \<Rightarrow> str ''unknown'' | Some r \<Rightarrow> route_state_name (rt_route_state r))
          (durable \<noteq> None) False (str ''not_started''))))"

definition run_boundary :: "create_env \<Rightarrow> unit copn \<Rightarrow> route_record \<Rightarrow> pystr \<Rightarrow> pystr \<Rightarrow> unit copn" where
  "run_boundary env operation reservation task_id message =
     op_handle operation
       (\<lambda>e. if is_exception e then boundary_failure env reservation task_id message
            else reraise_cleaned env reservation e)"

text \<open>The callback \<open>before_effect\<close> writes the command ledger, which the routes do not see.\<close>

definition before_effect_call :: "create_env \<Rightarrow> unit copn" where
  "before_effect_call env = store_read env At_before_effect (\<lambda>_. Inr ())"

definition effect_boundary :: "create_env \<Rightarrow> bool \<Rightarrow> route_record \<Rightarrow> pystr \<Rightarrow> unit copn" where
  "effect_boundary env before_effect reservation task_id =
     op_then
       (op_when before_effect
          (run_boundary env (before_effect_call env) reservation task_id
             (str ''Gateway command effect boundary could not be persisted'')))
       (run_boundary env
          (op_bind (store_call env At_mark_started (mark_create_effect_started task_id)) (\<lambda>_. op_ret ()))
          reservation task_id
          (str ''Gateway create effect boundary could not be persisted''))"

definition recover_create_effect_error ::
  "create_env \<Rightarrow> effect_exn \<Rightarrow> create_request \<Rightarrow> pystr \<Rightarrow> bool \<Rightarrow> route_record \<Rightarrow> gateway_error copn" where
  "recover_create_effect_error env exc req task_id remote_replay_safe reservation =
     (let err = create_effect_error exc (rq_agent_name req) (rq_route_kind req);
          disposition = ge_effect_disposition err;
          unknown = disposition = Some ED_outcome_unknown;
          answer = (\<lambda>durable retryable.
            with_route_identity err durable task_id retryable
              (Some (route_state_name (rt_route_state reservation)))
              (if unknown then str ''uncertain'' else str ''not_started''))
      in if disposition = Some ED_not_dispatched
         then op_bind
           (except_exception (store_call env At_restore (restore_create_not_dispatched task_id))
              (\<lambda>_. op_raise (X_gateway (route_persistence_error task_id (str ''unknown'') True False
                                           (str ''not_started'')))))
           (\<lambda>durable. op_ret (answer (Some durable) True))
         else
           let retryable = unknown \<and> rq_idempotency_key req \<noteq> None
                 \<and> rq_route_kind req = RK_remote_ref \<and> remote_replay_safe
           in if retryable then op_ret (answer (Some reservation) True)
              else op_bind (fail_reservation env reservation (Error_of err) unknown)
                     (\<lambda>durable. op_ret (answer durable False)))"

definition may_have_arrived :: "effect_exn + task_record \<Rightarrow> bool" where
  "may_have_arrived result =
     (case result of Inl (E_client e) \<Rightarrow> a2_effect_boundary e \<noteq> AB_not_dispatched | _ \<Rightarrow> True)"

text \<open>The call of \<open>control.spawn_task\<close>, which is noted in the history.\<close>

definition spawn_task_call :: "create_env \<Rightarrow> spawn_call \<Rightarrow> task_record copn" where
  "spawn_task_call env call w =
     (let noted = (\<lambda>arrived. w\<lparr>cw_spawned := cw_spawned w @ [(call, arrived)]\<rparr>)
      in case en_call env At_spawn of
           Call_returns \<Rightarrow> (noted (may_have_arrived (en_spawn env call)), lift_error X_effect (en_spawn env call))
         | Call_fails \<Rightarrow> (noted True, Inl (X_effect E_other))
         | Call_cancelled eff \<Rightarrow> (noted eff, Inl X_cancelled)
         | Call_stops eff \<Rightarrow> (noted eff, Inl X_stopped))"

definition spawn_step ::
  "create_env \<Rightarrow> create_request \<Rightarrow> pystr \<Rightarrow> spawn_call \<Rightarrow> route_record \<Rightarrow> bool \<Rightarrow> task_record copn" where
  "spawn_step env req task_id call reservation remote_replay_safe =
     op_handle (spawn_task_call env call)
       (\<lambda>e. case e of
          X_effect exc \<Rightarrow>
            op_bind (recover_create_effect_error env exc req task_id remote_replay_safe reservation)
              (\<lambda>err. op_raise (X_gateway err))
        | _ \<Rightarrow> reraise_cleaned env reservation e)"

definition reject_effect :: "create_env \<Rightarrow> gateway_error \<Rightarrow> route_record \<Rightarrow> pystr \<Rightarrow> 'a copn" where
  "reject_effect env err reservation task_id =
     op_bind (fail_reservation env reservation (Error_of err) True)
       (\<lambda>durable. op_raise (X_gateway (with_route_identity err durable task_id False
          (Some (route_state_name (rt_route_state reservation))) (str ''uncertain''))))"

definition validate_effect ::
  "create_env \<Rightarrow> route_kind \<Rightarrow> task_record \<Rightarrow> route_record \<Rightarrow> pystr \<Rightarrow> unit copn" where
  "validate_effect env kind record0 reservation task_id =
     (if kind = RK_remote_ref \<and> \<not> nonempty_opt (tk_upstream_task_id record0)
        then reject_effect env (public_upstream_payload_error None (Some task_id)) reservation task_id
      else if \<not> has_durable_create_effect record0 kind
        then reject_effect env
               (gateway_error_of (str ''task_effect_not_durable'')
                  (str ''Gateway Task effect has no durable run or remote binding''))
               reservation task_id
      else op_ret ())"

definition effect_binding :: "task_record \<Rightarrow> pystr option" where
  "effect_binding record0 =
     (if nonempty_opt (tk_upstream_task_id record0) then tk_upstream_task_id record0
      else Some (tk_task_id record0))"

definition activate_step :: "create_env \<Rightarrow> route_record \<Rightarrow> task_record \<Rightarrow> pystr \<Rightarrow> route_record copn" where
  "activate_step env reservation record0 task_id =
     except_exception
       (store_call env At_activate (transition_route task_id RS_active (effect_binding record0) None))
       (\<lambda>_. op_bind
          (fail_reservation env (reservation\<lparr>rt_upstream_task_id := effect_binding record0\<rparr>)
             (Error_text (str ''Task effect completed but route activation failed'')) True)
          (\<lambda>durable. op_raise (X_gateway (route_persistence_error task_id
             (case durable of None \<Rightarrow> str ''unknown'' | Some r \<Rightarrow> route_state_name (rt_route_state r))
             (durable \<noteq> None) False (str ''completed'')))))"

record routed_task =
  rd_record :: task_record
  rd_route :: route_record

text \<open>The second half of \<open>run\<close>, from the spawned record on.\<close>

definition complete_create ::
  "create_env \<Rightarrow> create_request \<Rightarrow> route_record \<Rightarrow> task_record \<Rightarrow> pystr \<Rightarrow> routed_task copn" where
  "complete_create env req reservation record0 task_id =
     op_then (validate_effect env (rq_route_kind req) record0 reservation task_id)
       (op_bind (activate_step env reservation record0 task_id)
          (\<lambda>route. op_ret
             \<lparr>rd_record = (if rq_route_kind req = RK_remote_ref then public_remote_record record0
                          else record0),
              rd_route = route\<rparr>))"

definition run_create :: "create_env \<Rightarrow> create_request \<Rightarrow> routed_task copn" where
  "run_create env req =
     (let task_id = request_task_id env req;
          remote_replay_safe = rq_route_kind req = RK_remote_ref
            \<and> create_idempotency_guaranteed env (rq_agent_name req);
          (key_scope, replay_policy) =
            create_evidence_policy (rq_route_kind req) (rq_idempotency_key req \<noteq> None) remote_replay_safe
      in op_bind (reserve_step env (reservation_of env req task_id) key_scope replay_policy)
        (\<lambda>(reservation, evidence).
           if rt_route_state reservation = RS_active
             then op_bind (op_lift (port_read env reservation True))
                    (\<lambda>r. op_ret \<lparr>rd_record = r, rd_route = reservation\<rparr>)
           else if rt_route_state reservation \<in> {RS_failed, RS_uncertain}
             then op_raise (X_gateway (prior_creation_error task_id reservation))
           else
             op_then (effect_boundary env (rq_before_effect req) reservation task_id)
               (op_bind
                  (spawn_step env req task_id (spawn_kwargs req task_id remote_replay_safe)
                     reservation remote_replay_safe)
                  (\<lambda>r. complete_create env req reservation r task_id))))"

end
