(* ===== verification/Create_Once.thy ===== *)
theory Create_Once
  imports Create_Workflow
begin

text \<open>
  What the create workflow guarantees of the effect it starts: over any history of creates,
  reconciliations and restarts, with calls failing, requests cancelled and the process
  stopping anywhere, the create of a remote Task that may not be replayed reaches its peer at
  most once, as long as the settlement of an interrupted reservation is not refused by the
  database.
\<close>

named_theorems create_wp \<open>triples of the operations of the workflow\<close>

section \<open>One row under the operations of the store\<close>

text \<open>A transition never inserts, and leaves the create evidence of the row alone.\<close>

definition evidence_kept :: "route_row option \<Rightarrow> route_row option \<Rightarrow> bool" where
  "evidence_kept a b =
     (case (a, b) of
        (None, None) \<Rightarrow> True
      | (Some r, Some r') \<Rightarrow> route_grows r r' \<and> ro_effect_boundary r' = ro_effect_boundary r
      | _ \<Rightarrow> False)"

lemma evidence_kept_refl [simp]: "evidence_kept a a"
  by (auto simp: evidence_kept_def split: option.splits)

lemma save_route_row:
  assumes "row_at ro_task_id (rt_task_id route) rows \<noteq> None"
  shows "evidence_kept (row_at ro_task_id k rows) (row_at ro_task_id k (fst (save_route route now rows)))"
proof (cases "validate_active_binding route")
  case (Inl e)
  then show ?thesis by (simp add: save_route_def)
next
  case (Inr u)
  obtain ex where ex: "row_at ro_task_id (rt_task_id route) rows = Some ex" using assms by auto
  show ?thesis
  proof (cases "k = rt_task_id route")
    case True
    then show ?thesis
      using Inr ex row_at_SomeD [OF ex]
      by (cases "ro_upstream_task_id ex"; cases "rt_upstream_task_id route")
        (auto simp: save_route_def Let_def coalesce_def route_grows_def evidence_kept_def row_simps)
  next
    case False
    then show ?thesis
      using Inr ex
      by (auto simp: save_route_def Let_def evidence_kept_def row_simps dest: row_at_SomeD
          split: option.splits)
  qed
qed

lemma get_route_SomeD:
  "get_route k rows = Inr (Some route) \<Longrightarrow>
    \<exists>r. row_at ro_task_id k rows = Some r \<and> rt_task_id route = k
      \<and> rt_agent_name route = ro_agent_name r \<and> rt_route_kind route = ro_route_kind r
      \<and> rt_upstream_task_id route = ro_upstream_task_id r \<and> rt_route_state route = ro_route_state r"
  by (auto simp: get_route_def row_to_route_def Let_def dest: row_at_SomeD
      split: option.splits sum.splits)

lemma transition_row:
  "evidence_kept (row_at ro_task_id k rows)
     (row_at ro_task_id k (fst (transition_route t st upstream err now rows)))"
  by (auto simp: transition_route_def dest!: get_route_SomeD intro!: save_route_row
      split: sum.splits option.splits)

lemma reserve_row_other:
  "rt_task_id route \<noteq> k \<Longrightarrow>
    row_at ro_task_id k (fst (reserve_route route scope policy now rows)) = row_at ro_task_id k rows"
  by (auto simp: reserve_route_def Let_def insert_saved_route_def row_at_snoc split: sum.splits option.splits)

lemma mark_row:
  "row_at ro_task_id k (fst (mark_create_effect_started t now rows)) = row_at ro_task_id k rows
   \<or> (\<exists>r. t = k \<and> row_at ro_task_id k rows = Some r
        \<and> row_at ro_task_id k (fst (mark_create_effect_started t now rows)) =
             Some (r\<lparr>ro_effect_boundary := str ''started'', ro_updated_at := now\<rparr>))"
  by (cases "row_at ro_task_id k rows")
    (auto simp: mark_create_effect_started_def Let_def row_simps dest: row_at_SomeD)

lemma restore_row_other:
  "t \<noteq> k \<Longrightarrow> row_at ro_task_id k (fst (restore_create_not_dispatched t now rows)) = row_at ro_task_id k rows"
  by (cases "row_at ro_task_id k rows")
    (auto simp: restore_create_not_dispatched_def Let_def row_simps dest: row_at_SomeD)

lemma restore_row_kept:
  "rel_option (\<lambda>r r'. ro_route_kind r' = ro_route_kind r \<and> ro_key_scope r' = ro_key_scope r
      \<and> ro_replay_policy r' = ro_replay_policy r)
     (row_at ro_task_id k rows) (row_at ro_task_id k (fst (restore_create_not_dispatched t now rows)))"
  by (cases "row_at ro_task_id k rows")
    (auto simp: restore_create_not_dispatched_def Let_def row_simps dest: row_at_SomeD)

section \<open>The invariant of a create that may not be replayed\<close>

definition arrivals :: "pystr \<Rightarrow> create_world \<Rightarrow> nat" where
  "arrivals k w = length (filter (\<lambda>(call, arrived). sp_task_id call = k \<and> arrived) (cw_spawned w))"

definition unreplayable :: "route_row \<Rightarrow> bool" where
  "unreplayable r \<longleftrightarrow> ro_route_kind r = RK_remote_ref
     \<and> \<not> (ro_key_scope r = str ''external'' \<and> ro_replay_policy r = str ''ruyi_gateway_v1'')"

definition once_row :: "nat \<Rightarrow> route_row option \<Rightarrow> bool" where
  "once_row n row =
     (case row of
        None \<Rightarrow> n = 0
      | Some r \<Rightarrow> unreplayable r \<and> n \<le> 1
          \<and> (ro_route_state r = RS_pending \<and> ro_effect_boundary r = str ''reserved'' \<longrightarrow> n = 0))"

definition once :: "pystr \<Rightarrow> create_world \<Rightarrow> bool" where
  "once k w \<longleftrightarrow> route_inv (cw_routes w) \<and> once_row (arrivals k w) (row_at ro_task_id k (cw_routes w))"

lemma arrivals_routes [simp]: "arrivals k (w\<lparr>cw_routes := rows\<rparr>) = arrivals k w"
  by (simp add: arrivals_def)

lemma arrivals_snoc:
  "arrivals k (w\<lparr>cw_spawned := cw_spawned w @ [(call, b)]\<rparr>) =
     arrivals k w + (if sp_task_id call = k \<and> b then 1 else 0)"
  by (simp add: arrivals_def)

lemma once_row_kept: "evidence_kept a b \<Longrightarrow> once_row n a \<Longrightarrow> once_row n b"
  using allowed_pending
  by (fastforce simp: evidence_kept_def once_row_def route_grows_def unreplayable_def
      split: option.splits)

lemma once_transition:
  "once k w \<Longrightarrow> once k (w\<lparr>cw_routes := fst (transition_route t st upstream err now (cw_routes w))\<rparr>)"
  using once_row_kept [OF transition_row] by (simp add: once_def transition_route_inv)

lemma once_mark:
  "once k w \<Longrightarrow> once k (w\<lparr>cw_routes := fst (mark_create_effect_started t now (cw_routes w))\<rparr>)"
  using mark_row [of k t now "cw_routes w"]
  by (auto simp: once_def mark_started_inv once_row_def unreplayable_def)

lemma once_restore:
  "once k w \<Longrightarrow> t = k \<longrightarrow> arrivals k w = 0 \<Longrightarrow>
    once k (w\<lparr>cw_routes := fst (restore_create_not_dispatched t now (cw_routes w))\<rparr>)"
  using restore_row_kept [of k "cw_routes w" t now] restore_row_other [of t k now "cw_routes w"]
  by (cases "t = k") (auto simp: once_def restore_inv once_row_def unreplayable_def option.rel_sel
      split: option.splits)

lemma once_reserve:
  assumes "once k w"
    and "rt_task_id route = k \<longrightarrow> rt_route_kind route = RK_remote_ref
           \<and> \<not> (scope = str ''external'' \<and> policy = str ''ruyi_gateway_v1'')"
  shows "once k (w\<lparr>cw_routes := fst (reserve_route route scope policy now (cw_routes w))\<rparr>)"
proof (cases "rt_task_id route = k \<and> row_at ro_task_id k (cw_routes w) = None")
  case True
  then show ?thesis
    using assms reserve_route_inv [of "cw_routes w" route scope policy now]
    by (auto simp: once_def once_row_def reserve_route_def Let_def insert_saved_route_def row_at_snoc
        unreplayable_def split: sum.splits)
next
  case False
  then have "row_at ro_task_id k (fst (reserve_route route scope policy now (cw_routes w)))
      = row_at ro_task_id k (cw_routes w)"
    using reserve_row_other [of route k scope policy now "cw_routes w"]
    by (cases "rt_task_id route = k") (auto simp: reserve_route_def split: sum.splits option.splits)
  then show ?thesis using assms(1) by (simp add: once_def reserve_route_inv)
qed

section \<open>Triples\<close>

lemma wp_store_call:
  "wp (store_call env site f) Q E w \<longleftrightarrow>
     (let after = w\<lparr>cw_routes := fst (f (en_now env site) (cw_routes w))\<rparr>
      in case en_call env site of
           Call_returns \<Rightarrow> (case snd (f (en_now env site) (cw_routes w)) of
                              Inl e \<Rightarrow> E (X_store e) after | Inr x \<Rightarrow> Q x after)
         | Call_fails \<Rightarrow> E (X_effect E_other) w
         | Call_cancelled eff \<Rightarrow> E X_cancelled (if eff then after else w)
         | Call_stops eff \<Rightarrow> E X_stopped (if eff then after else w))"
  by (auto simp: wp_def store_call_def Let_def split: prod.splits sum.splits call_outcome.splits)

lemma wp_store_read:
  "wp (store_read env site f) Q E w \<longleftrightarrow>
     (case en_call env site of
           Call_returns \<Rightarrow> (case f (cw_routes w) of Inl e \<Rightarrow> E (X_store e) w | Inr x \<Rightarrow> Q x w)
         | Call_fails \<Rightarrow> E (X_effect E_other) w
         | Call_cancelled eff \<Rightarrow> E X_cancelled w
         | Call_stops eff \<Rightarrow> E X_stopped w)"
  by (simp add: store_read_def wp_store_call Let_def split: call_outcome.split)

lemma wp_spawn_call:
  "wp (spawn_task_call env call) Q E w \<longleftrightarrow>
     (let noted = (\<lambda>arrived. w\<lparr>cw_spawned := cw_spawned w @ [(call, arrived)]\<rparr>)
      in case en_call env At_spawn of
           Call_returns \<Rightarrow> (case en_spawn env call of
               Inl e \<Rightarrow> E (X_effect e) (noted (may_have_arrived (Inl e)))
             | Inr r \<Rightarrow> Q r (noted True))
         | Call_fails \<Rightarrow> E (X_effect E_other) (noted True)
         | Call_cancelled eff \<Rightarrow> E X_cancelled (noted eff)
         | Call_stops eff \<Rightarrow> E X_stopped (noted eff))"
  by (auto simp: wp_def spawn_task_call_def Let_def may_have_arrived_def
      split: call_outcome.splits sum.splits)

text \<open>Operations that keep a predicate of the state, however they end.\<close>

definition stays :: "(create_world \<Rightarrow> bool) \<Rightarrow> 'a copn \<Rightarrow> bool" where
  "stays P c \<longleftrightarrow> (\<forall>w. P w \<longrightarrow> wp c (\<lambda>_. P) (\<lambda>_. P) w)"

lemma stays_wp: "stays P c \<Longrightarrow> P w \<Longrightarrow> wp c (\<lambda>_. P) (\<lambda>_. P) w"
  by (simp add: stays_def)

lemma stays_ret [create_wp]: "stays P (op_ret x)"
  by (simp add: stays_def wp_simps)

lemma stays_raise [create_wp]: "stays P (op_raise e)"
  by (simp add: stays_def wp_simps)

lemma stays_lift [create_wp]: "stays P (op_lift r)"
  by (simp add: stays_def wp_simps split: sum.split)

lemma stays_bind [create_wp]: "stays P c \<Longrightarrow> (\<And>x. stays P (f x)) \<Longrightarrow> stays P (op_bind c f)"
  unfolding stays_def wp_bind by (blast intro: wp_conseq)

lemma stays_then [create_wp]: "stays P c \<Longrightarrow> stays P d \<Longrightarrow> stays P (op_then c d)"
  by (simp add: op_then_def stays_bind)

lemma stays_handle: "stays P c \<Longrightarrow> (\<And>e. stays P (h e)) \<Longrightarrow> stays P (op_handle c h)"
  unfolding stays_def wp_handle by (blast intro: wp_conseq)

lemma stays_local [create_wp]: "stays P (local_record env t)"
  by (auto simp: stays_def local_record_def wp_simps split: sum.split)

lemma stays_except [create_wp]: "stays P c \<Longrightarrow> (\<And>e. stays P (h e)) \<Longrightarrow> stays P (except_exception c h)"
  by (auto simp: except_exception_def intro!: stays_handle stays_raise)

lemma stays_read [create_wp]: "stays P (store_read env site f)"
  by (simp add: stays_def wp_store_read split: call_outcome.split sum.split)

text \<open>
  A predicate of the state that the transitions of a route and the start of its effect keep is
  kept by every part of the workflow but the reservation, the spawn and the reset of an
  undispatched create.
\<close>

locale stable_state =
  fixes P :: "create_world \<Rightarrow> bool"
  assumes transition: "P w \<Longrightarrow> P (w\<lparr>cw_routes := fst (transition_route t st upstream err now (cw_routes w))\<rparr>)"
    and mark: "P w \<Longrightarrow> P (w\<lparr>cw_routes := fst (mark_create_effect_started t now (cw_routes w))\<rparr>)"
begin

lemma stays_store:
  "(\<And>w now. P w \<Longrightarrow> P (w\<lparr>cw_routes := fst (f now (cw_routes w))\<rparr>)) \<Longrightarrow> stays P (store_call env site f)"
  by (auto simp: stays_def wp_store_call Let_def split: call_outcome.split sum.split)

lemma stays_transition [create_wp]: "stays P (store_call env site (transition_route t st upstream err))"
  by (rule stays_store) (rule transition)

lemma stays_mark [create_wp]: "stays P (store_call env site (mark_create_effect_started t))"
  by (rule stays_store) (rule mark)

lemma stays_settle [create_wp]:
  "stays P (settle_interrupted_route env live route effect_exists no_effect)"
  unfolding settle_interrupted_route_def Let_def by (intro create_wp)

lemma stays_reconcile [create_wp]: "stays P (reconcile_pending_create env live route)"
  by (auto simp: reconcile_pending_create_def Let_def intro!: create_wp)

lemma stays_fail [create_wp]: "stays P (fail_reservation env route err uncertain)"
  unfolding fail_reservation_def by (intro create_wp)

lemma stays_boundary_failure [create_wp]:
  "stays P (boundary_failure env reservation task_id message)"
  unfolding boundary_failure_def by (intro create_wp)

lemma stays_reraise [create_wp]: "stays P (reraise_cleaned env reservation e)"
  by (auto simp: reraise_cleaned_def cleanup_interrupted_def intro!: create_wp)

lemma stays_run_boundary [create_wp]:
  "stays P c \<Longrightarrow> stays P (run_boundary env c reservation task_id message)"
  by (auto simp: run_boundary_def intro!: stays_handle create_wp)

lemma stays_boundary [create_wp]: "stays P (effect_boundary env before reservation task_id)"
  by (auto simp: effect_boundary_def op_when_def before_effect_call_def intro!: create_wp)

lemma stays_reject [create_wp]: "stays P (reject_effect env err reservation task_id)"
  unfolding reject_effect_def by (intro create_wp)

lemma stays_complete [create_wp]: "stays P (complete_create env req reservation r task_id)"
  by (auto simp: complete_create_def validate_effect_def activate_step_def intro!: create_wp)

end

definition once_with :: "pystr \<Rightarrow> (spawn_call \<times> bool) list \<Rightarrow> create_world \<Rightarrow> bool" where
  "once_with k calls w \<longleftrightarrow> once k w \<and> cw_spawned w = calls"

interpretation once: stable_state "once_with k calls" for k calls
  by unfold_locales (auto simp: once_with_def once_transition once_mark)

interpretation calls: stable_state "\<lambda>w. cw_spawned w = calls" for calls
  by unfold_locales simp_all

section \<open>The stages of a create\<close>

text \<open>A route object that agrees with its row.\<close>

definition route_of_row :: "route_record \<Rightarrow> route_row \<Rightarrow> bool" where
  "route_of_row route r \<longleftrightarrow> rt_task_id route = ro_task_id r \<and> rt_agent_name route = ro_agent_name r
     \<and> rt_route_kind route = ro_route_kind r \<and> rt_route_state route = ro_route_state r
     \<and> rt_upstream_task_id route = ro_upstream_task_id r"

lemma get_route_of_row:
  "get_route k rows = Inr (Some route) \<Longrightarrow> \<exists>r. row_at ro_task_id k rows = Some r \<and> route_of_row route r"
  using get_route_SomeD [of k rows route] row_at_SomeD [of ro_task_id k rows]
  by (fastforce simp: route_of_row_def)

lemma reserve_route_row:
  "snd (reserve_route route scope policy now rows) = Inr res \<Longrightarrow>
    \<exists>r. row_at ro_task_id (rt_task_id route) (fst (reserve_route route scope policy now rows)) = Some r
      \<and> route_of_row res r"
  by (auto simp: reserve_route_def Let_def insert_saved_route_def route_of_row_def row_to_route_def
      row_at_snoc dest: row_at_SomeD split: sum.splits option.splits if_splits)

text \<open>Settling a pending route as uncertain succeeds when the database takes the write.\<close>

lemma settle_uncertain:
  assumes "route_inv rows" and "row_at ro_task_id k rows = Some r" and "ro_route_state r = RS_pending"
  shows "\<exists>rows' route. transition_route k RS_uncertain (ro_upstream_task_id r) err now rows = (rows', Inr route)
    \<and> rt_route_state route = RS_uncertain
    \<and> (\<exists>r'. row_at ro_task_id k rows' = Some r' \<and> ro_route_state r' = RS_uncertain)"
proof -
  have k: "ro_task_id r = k" using row_at_SomeD [OF assms(2)] by simp
  show ?thesis
    using assms k
    by (cases "ro_upstream_task_id r")
      (auto simp: transition_route_def get_route_def row_to_route_def Let_def save_route_def
        validate_active_binding_def row_simps coalesce_def)
qed

lemma reconcile_started:
  assumes "once_with k calls w" and "row_at ro_task_id k (cw_routes w) = Some r"
    and "route_of_row route r" and "ro_effect_boundary r \<noteq> str ''reserved''"
    and "en_call env (At_settle False) \<noteq> Call_fails"
  shows "wp (reconcile_pending_create env False route)
    (\<lambda>route' w'. once_with k calls w' \<and> rt_route_state route' \<noteq> RS_pending)
    (\<lambda>_. once_with k calls) w"
proof (cases "ro_route_state r = RS_pending")
  case False
  have "unreplayable r" using assms(1,2) by (simp add: once_with_def once_def once_row_def)
  then show ?thesis
    using False assms(1,3)
    by (simp add: reconcile_pending_create_def route_of_row_def unreplayable_def wp_simps)
next
  case True
  have inv: "route_inv (cw_routes w)" and un: "unreplayable r"
    using assms(1,2) by (simp_all add: once_with_def once_def once_row_def)
  have k: "ro_task_id r = k" using row_at_SomeD [OF assms(2)] by simp
  have after: "once_with k calls (w\<lparr>cw_routes := fst (transition_route k RS_uncertain (ro_upstream_task_id r)
      err now (cw_routes w))\<rparr>)" for err now
    using assms(1) once_transition by (simp add: once_with_def)
  have settle: "wp (settle_interrupted_route env False route False False)
    (\<lambda>route' w'. once_with k calls w' \<and> rt_route_state route' \<noteq> RS_pending)
    (\<lambda>_. once_with k calls) w"
    using settle_uncertain [OF inv assms(2) True,
        of "Some (str ''Gateway Task creation was interrupted'')" "en_now env (At_settle False)"]
      after [of "Some (str ''Gateway Task creation was interrupted'')" "en_now env (At_settle False)"]
      assms(1,3,5) k
    by (auto simp: settle_interrupted_route_def Let_def except_exception_def wp_simps wp_store_call
        route_of_row_def split: call_outcome.split)
  show ?thesis
    using settle True un assms(1-4) get_evidence_bound [OF route_inv_at [OF inv assms(2)] assms(2)] k
    by (auto simp: reconcile_pending_create_def wp_simps wp_store_read route_of_row_def unreplayable_def
        permits_remote_replay_def row_evidence_def split: call_outcome.split)
qed

text \<open>What a run may assume of its task: a remote create that is not both keyed and idempotent.\<close>

definition unkeyed :: "create_env \<Rightarrow> create_request \<Rightarrow> bool" where
  "unkeyed env req \<longleftrightarrow> rq_route_kind req = RK_remote_ref
     \<and> \<not> (rq_idempotency_key req \<noteq> None \<and> create_idempotency_guaranteed env (rq_agent_name req))"

definition settles :: "create_env \<Rightarrow> bool" where
  "settles env \<longleftrightarrow> en_call env (At_settle False) \<noteq> Call_fails"

lemma reserve_step_once:
  assumes "once_with k calls w" and "rt_task_id route = t"
    and key: "t = k \<longrightarrow> rt_route_kind route = RK_remote_ref
           \<and> \<not> (scope = str ''external'' \<and> policy = str ''ruyi_gateway_v1'') \<and> settles env"
  shows "wp (reserve_step env route scope policy)
    (\<lambda>(res, ev) w'. once_with k calls w' \<and> (t = k \<and> rt_route_state res = RS_pending \<longrightarrow> arrivals k w' = 0))
    (\<lambda>_. once_with k calls) w"
proof -
  let ?w = "\<lambda>now. w\<lparr>cw_routes := fst (reserve_route route scope policy now (cw_routes w))\<rparr>"
  have o: "once_with k calls (?w now)" for now
    using assms(1) key once_reserve [of k w route scope policy now] assms(2)
    by (auto simp: once_with_def)
  have rest: "wp (op_bind (store_read env At_evidence (get_create_evidence t))
      (\<lambda>ev. if (case ev of None \<Rightarrow> True | Some e \<Rightarrow> ce_effect_boundary e \<noteq> str ''reserved'')
            then op_bind (reconcile_pending_create env False res) (\<lambda>res. op_ret (res, ev))
            else op_ret (res, ev)))
    (\<lambda>(res, ev) w'. once_with k calls w' \<and> (t = k \<and> rt_route_state res = RS_pending \<longrightarrow> arrivals k w' = 0))
    (\<lambda>_. once_with k calls) (?w now)"
    if res: "snd (reserve_route route scope policy now (cw_routes w)) = Inr res" for now res
  proof (cases "t = k")
    case False
    show ?thesis
      using False o [of now] stays_wp [OF once.stays_reconcile o [of now], of env False res]
      by (auto simp: wp_simps wp_store_read split: call_outcome.split sum.split)
  next
    case True
    obtain r where r: "row_at ro_task_id k (cw_routes (?w now)) = Some r" "route_of_row res r"
      using reserve_route_row [OF res] True assms(2) by auto
    have inv: "route_inv (cw_routes (?w now))" and row: "once_row (arrivals k (?w now)) (Some r)"
      using o [of now] r by (simp_all add: once_with_def once_def)
    have ev: "get_create_evidence k (cw_routes (?w now)) = Inr (Some (row_evidence r))"
      by (rule get_evidence_bound [OF route_inv_at [OF inv r(1)] r(1)])
    show ?thesis
    proof (cases "ro_effect_boundary r = str ''reserved''")
      case True
      then show ?thesis
        using ev o [of now] row r(2) \<open>t = k\<close>
        by (simp add: wp_simps wp_store_read row_evidence_def once_row_def route_of_row_def
            split: call_outcome.split)
    next
      case False
      have "wp (reconcile_pending_create env False res)
        (\<lambda>route' w'. once_with k calls w' \<and> rt_route_state route' \<noteq> RS_pending)
        (\<lambda>_. once_with k calls) (?w now)"
        using key \<open>t = k\<close> by (intro reconcile_started [OF o r False]) (simp add: settles_def)
      then have "wp (reconcile_pending_create env False res)
        (\<lambda>route' w'. once_with k calls w' \<and> (rt_route_state route' = RS_pending \<longrightarrow> arrivals k w' = 0))
        (\<lambda>_. once_with k calls) (?w now)"
        by (rule wp_conseq) auto
      then show ?thesis
        using ev o [of now] False \<open>t = k\<close>
        by (simp add: wp_simps wp_store_read row_evidence_def split: call_outcome.split)
    qed
  qed
  show ?thesis
  proof (cases "en_call env At_reserve = Call_returns")
    case False
    then show ?thesis
      using o assms(1)
      by (auto simp: reserve_step_def except_exception_def wp_simps wp_store_call Let_def
          split: call_outcome.split)
  next
    case True
    let ?now = "en_now env At_reserve"
    show ?thesis
    proof (cases "snd (reserve_route route scope policy ?now (cw_routes w))")
      case (Inl e)
      then show ?thesis
        using o [of ?now] True
        by (simp add: reserve_step_def except_exception_def wp_simps wp_store_call Let_def)
    next
      case (Inr res)
      then show ?thesis
        using o [of ?now] True rest [OF Inr] assms(2)
        by (cases "en_call env At_evidence")
          (auto simp: reserve_step_def except_exception_def wp_simps wp_store_call wp_store_read Let_def
            split: sum.split)
    qed
  qed
qed

text \<open>The handlers always raise.\<close>

lemma boundary_failure_raises:
  "once_with k calls w \<Longrightarrow>
    wp (boundary_failure env reservation t message) Q (\<lambda>_. once_with k calls) w"
  unfolding boundary_failure_def wp_simps by (rule stays_wp [OF once.stays_fail])

lemma reraise_raises:
  "once_with k calls w \<Longrightarrow> wp (reraise_cleaned env reservation e) Q (\<lambda>_. once_with k calls) w"
  using stays_wp [OF once.stays_reconcile, of k calls w "shielded env" True reservation]
  by (simp add: reraise_cleaned_def cleanup_interrupted_def wp_simps)

lemma run_boundary_once:
  "wp c Q (\<lambda>_. once_with k calls) w \<Longrightarrow>
    wp (run_boundary env c reservation t message) Q (\<lambda>_. once_with k calls) w"
  unfolding run_boundary_def wp_handle
  by (erule wp_conseq) (auto simp: wp_if intro: boundary_failure_raises reraise_raises)

lemma mark_row_started:
  assumes "route_inv rows" and "snd (mark_create_effect_started k now rows) = Inr ev"
  shows "\<exists>r. row_at ro_task_id k (fst (mark_create_effect_started k now rows)) = Some r
    \<and> ro_effect_boundary r = str ''started''"
proof -
  let ?P = "\<lambda>r. ro_task_id r = k \<and> ro_route_state r = RS_pending
                 \<and> ro_effect_boundary r \<in> {str ''reserved'', str ''started''}"
  have u: "unique_key ro_task_id rows" using assms(1) by (simp add: route_inv_def)
  have "rows_count ?P rows = 1"
    using assms(2) by (auto simp: mark_create_effect_started_def Let_def split: if_splits)
  then obtain r where "r \<in> set rows" "?P r"
    using rows_count_pos [of ?P rows] by auto
  then have "row_at ro_task_id k rows = Some r" "?P r"
    using row_at_unique [OF u, of r] by auto
  then have "row_at ro_task_id k (rows_update ?P (\<lambda>r. r\<lparr>ro_effect_boundary := str ''started'',
      ro_updated_at := now\<rparr>) rows) = Some (r\<lparr>ro_effect_boundary := str ''started'', ro_updated_at := now\<rparr>)"
    by (simp add: row_simps)
  then show ?thesis
    using \<open>rows_count ?P rows = 1\<close> by (simp add: mark_create_effect_started_def Let_def)
qed

lemma boundary_once:
  assumes "once_with k calls w"
  shows "wp (effect_boundary env before reservation t)
    (\<lambda>_ w'. once_with k calls w' \<and> (t = k \<longrightarrow>
       (\<exists>r. row_at ro_task_id k (cw_routes w') = Some r \<and> ro_effect_boundary r = str ''started'')))
    (\<lambda>_. once_with k calls) w"
proof -
  let ?Q = "\<lambda>_ w'. once_with k calls w' \<and> (t = k \<longrightarrow>
       (\<exists>r. row_at ro_task_id k (cw_routes w') = Some r \<and> ro_effect_boundary r = str ''started''))"
  have mark: "wp (run_boundary env
      (op_bind (store_call env At_mark_started (mark_create_effect_started t)) (\<lambda>_. op_ret ()))
      reservation t message) ?Q (\<lambda>_. once_with k calls) u"
    if u: "once_with k calls u" for u message
    using u once_mark [of k u t] mark_row_started [of "cw_routes u" t]
    by (intro run_boundary_once)
      (auto simp: wp_simps wp_store_call Let_def once_with_def once_def split: call_outcome.split sum.split)
  have "stays (once_with k calls) (op_when before (run_boundary env (before_effect_call env) reservation t message))"
    for message
    by (auto simp: op_when_def before_effect_call_def intro!: create_wp)
  then show ?thesis
    unfolding effect_boundary_def wp_then
    using assms mark by (blast intro: wp_conseq stays_wp)
qed

lemma recover_once:
  assumes "once_with k calls w"
    and "t = k \<longrightarrow> \<not> may_have_arrived (Inl exc) \<longrightarrow> arrivals k w = 0"
  shows "wp (recover_create_effect_error env exc req t safe reservation)
    (\<lambda>_. once_with k calls) (\<lambda>_. once_with k calls) w"
proof (cases "ge_effect_disposition (create_effect_error exc (rq_agent_name req) (rq_route_kind req))
    = Some ED_not_dispatched")
  case True
  then have "\<not> may_have_arrived (Inl exc)"
    by (cases exc) (auto simp: create_effect_error_def with_disposition_def client_disposition_def
        may_have_arrived_def Let_def split: if_splits)
  then show ?thesis
    using True assms once_restore [of k w t]
    by (auto simp: recover_create_effect_error_def Let_def except_exception_def wp_simps wp_store_call
        once_with_def split: call_outcome.split sum.split)
next
  case False
  then show ?thesis
    using assms(1) stays_wp [OF once.stays_fail assms(1)]
    by (auto simp: recover_create_effect_error_def Let_def wp_simps)
qed

lemma once_spawned:
  assumes "once k w"
    and "sp_task_id call = k \<longrightarrow> arrivals k w = 0 \<and>
       (\<exists>r. row_at ro_task_id k (cw_routes w) = Some r \<and> ro_effect_boundary r = str ''started'')"
  shows "once k (w\<lparr>cw_spawned := cw_spawned w @ [(call, b)]\<rparr>)"
  using assms by (auto simp: once_def arrivals_snoc once_row_def split: option.splits)

lemma spawn_once:
  assumes "once k w" and "sp_task_id call = t"
    and t: "t = k \<longrightarrow> arrivals k w = 0 \<and>
       (\<exists>r. row_at ro_task_id k (cw_routes w) = Some r \<and> ro_effect_boundary r = str ''started'')"
  shows "wp (spawn_step env req t call reservation safe) (\<lambda>_. once k) (\<lambda>_. once k) w"
proof -
  let ?w = "\<lambda>b. w\<lparr>cw_spawned := cw_spawned w @ [(call, b)]\<rparr>"
  have o: "once_with k (cw_spawned (?w b)) (?w b)" for b
    using once_spawned [OF assms(1), of call b] t assms(2) by (auto simp: once_with_def)
  have weak: "wp c (\<lambda>_. once k) (\<lambda>_. once k) u" if "wp c (\<lambda>_. once_with k calls) (\<lambda>_. once_with k calls) u"
    for c :: "'z copn" and calls u
    using that by (rule wp_conseq) (auto simp: once_with_def)
  have interrupted: "wp (reraise_cleaned env reservation e :: task_record copn) (\<lambda>_. once k) (\<lambda>_. once k) (?w b)" for e b
    by (rule weak [OF reraise_raises [OF o]])
  have failed: "wp (recover_create_effect_error env exc req t safe reservation) (\<lambda>_. once k) (\<lambda>_. once k)
      (?w (may_have_arrived (Inl exc)))" for exc
    using t assms(2) by (intro weak [OF recover_once [OF o]]) (auto simp: arrivals_snoc)
  show ?thesis
    using o failed interrupted failed [of E_other]
    by (auto simp: spawn_step_def wp_simps wp_spawn_call Let_def once_with_def may_have_arrived_def
        split: call_outcome.split sum.split)
qed

lemma once_with_arrivals: "once_with k calls w \<Longrightarrow> once_with k calls w' \<Longrightarrow> arrivals k w' = arrivals k w"
  by (simp add: once_with_def arrivals_def)

lemma run_create_once:
  assumes "once k w" and "request_task_id env req = k \<longrightarrow> unkeyed env req \<and> settles env"
  shows "wp (run_create env req) (\<lambda>_. once k) (\<lambda>_. once k) w"
proof -
  let ?t = "request_task_id env req"
  let ?safe = "rq_route_kind req = RK_remote_ref \<and> create_idempotency_guaranteed env (rq_agent_name req)"
  let ?calls = "cw_spawned w"
  have o: "once_with k ?calls w" using assms(1) by (simp add: once_with_def)
  have weak: "wp c (\<lambda>_. once k) (\<lambda>_. once k) u" if "wp c (\<lambda>_. once_with k calls) (\<lambda>_. once_with k calls) u"
    for c :: "'z copn" and calls u
    using that by (rule wp_conseq) (auto simp: once_with_def)
  have complete: "wp (complete_create env req res r ?t) (\<lambda>_. once k) (\<lambda>_. once k) u" if "once k u" for res r u
    by (rule weak, rule stays_wp [OF once.stays_complete, of k "cw_spawned u"]) (simp add: once_with_def that)
  have spawned: "wp (op_bind (spawn_step env req ?t (spawn_kwargs req ?t ?safe) res ?safe)
        (\<lambda>r. complete_create env req res r ?t)) (\<lambda>_. once k) (\<lambda>_. once k) u"
    if "once k u" "?t = k \<longrightarrow> arrivals k u = 0 \<and>
       (\<exists>r. row_at ro_task_id k (cw_routes u) = Some r \<and> ro_effect_boundary r = str ''started'')" for res u
    unfolding wp_bind
    by (rule wp_conseq [OF spawn_once [OF that(1) _ that(2)]])
      (auto simp: spawn_kwargs_def Let_def intro: complete)
  have effect: "wp (op_then (effect_boundary env before res ?t)
      (op_bind (spawn_step env req ?t (spawn_kwargs req ?t ?safe) res ?safe)
        (\<lambda>r. complete_create env req res r ?t))) (\<lambda>_. once k) (\<lambda>_. once k) u"
    if u: "once_with k ?calls u" and zero: "?t = k \<longrightarrow> arrivals k u = 0" for res before u
    unfolding wp_then
  proof (rule wp_conseq [OF boundary_once [OF u, of env before res ?t]])
    fix x u'
    assume a: "once_with k ?calls u' \<and> (?t = k \<longrightarrow>
       (\<exists>r. row_at ro_task_id k (cw_routes u') = Some r \<and> ro_effect_boundary r = str ''started''))"
    then show "wp (op_bind (spawn_step env req ?t (spawn_kwargs req ?t ?safe) res ?safe)
        (\<lambda>r. complete_create env req res r ?t)) (\<lambda>_. once k) (\<lambda>_. once k) u'"
      using zero once_with_arrivals [OF u] by (intro spawned) (auto simp: once_with_def)
  qed (simp add: once_with_def)
  obtain scope policy where pol: "create_evidence_policy (rq_route_kind req)
      (rq_idempotency_key req \<noteq> None) ?safe = (scope, policy)"
    by fastforce
  have key: "?t = k \<longrightarrow> rt_route_kind (reservation_of env req ?t) = RK_remote_ref
      \<and> \<not> (scope = str ''external'' \<and> policy = str ''ruyi_gateway_v1'') \<and> settles env"
    using assms(2) pol
    by (auto simp: reservation_of_def unkeyed_def create_evidence_policy_def Let_def split: if_splits)
  have tid: "rt_task_id (reservation_of env req ?t) = ?t"
    by (simp add: reservation_of_def)
  show ?thesis
    unfolding run_create_def Let_def pol case_prod_conv
  proof (subst wp_bind, rule wp_conseq [OF reserve_step_once [OF o tid key]], goal_cases)
    case (1 x u)
    obtain res ev where x: "x = (res, ev)" by (cases x)
    have u: "once_with k ?calls u" "?t = k \<and> rt_route_state res = RS_pending \<longrightarrow> arrivals k u = 0"
      using 1 x by simp_all
    have ok: "once k u" using u(1) by (simp add: once_with_def)
    show ?case
    proof (cases "rt_route_state res")
      case RS_pending
      then show ?thesis using effect [OF u(1)] u(2) x by simp
    qed (use ok x in \<open>simp_all add: wp_simps split: sum.split\<close>)
  qed (simp add: once_with_def)
qed

section \<open>Histories\<close>

text \<open>
  What a Gateway does to its routes: it runs a create, reconciles a route it looks up, or starts
  again after it stopped.  \<open>allowed\<close> restricts the creates of the history.
\<close>

inductive create_step ::
  "(create_env \<Rightarrow> create_request \<Rightarrow> bool) \<Rightarrow> create_world \<Rightarrow> create_world \<Rightarrow> bool"
  for allowed where
  step_create: "allowed env req \<Longrightarrow> create_step allowed w (fst (run_create env req w))"
| step_lookup: "get_route t (cw_routes w) = Inr (Some route) \<Longrightarrow>
    create_step allowed w (fst (reconcile_pending_create env False route w))"
| step_startup: "create_step allowed w (w\<lparr>cw_routes := startup_routes (cw_routes w)\<rparr>)"

inductive_cases create_stepE: "create_step allowed w w'"

definition empty_world :: create_world where
  "empty_world = \<lparr>cw_routes = [], cw_spawned = []\<rparr>"

lemma wp_fst: "wp c (\<lambda>_. P) (\<lambda>_. P) w \<longleftrightarrow> P (fst (c w))"
  by (auto simp: wp_def split: prod.split sum.split)

lemma startup_row_None:
  "route_inv rows \<Longrightarrow> row_at ro_task_id k rows = None \<Longrightarrow> row_at ro_task_id k (startup_routes rows) = None"
  by (simp add: startup_routes_def row_simps normalize_bound route_inv_def)

lemma once_startup: "once k w \<Longrightarrow> once k (w\<lparr>cw_routes := startup_routes (cw_routes w)\<rparr>)"
proof (cases "row_at ro_task_id k (cw_routes w)")
  case None
  then show "once k w \<Longrightarrow> ?thesis"
    by (simp add: once_def startup_inv startup_row_None)
next
  case (Some r)
  assume o: "once k w"
  then have "route_inv (cw_routes w)" by (simp add: once_def)
  from row_at_startup [OF this Some] o Some show ?thesis
    by (auto simp: once_def startup_inv once_row_def unreplayable_def row_evidence_def restart_state_def
        split: if_splits)
qed

lemma create_step_once:
  assumes "create_step allowed w w'" and "once k w"
    and "\<And>env req. allowed env req \<Longrightarrow> request_task_id env req = k \<Longrightarrow> unkeyed env req \<and> settles env"
  shows "once k w'"
  using assms(1)
proof cases
  case (step_create env req)
  then show ?thesis
    using run_create_once [of k w env req] assms(2,3) by (simp add: wp_fst)
next
  case (step_lookup t route env)
  have "wp (reconcile_pending_create env False route) (\<lambda>_. once_with k (cw_spawned w))
      (\<lambda>_. once_with k (cw_spawned w)) w"
    by (rule stays_wp [OF once.stays_reconcile]) (simp add: once_with_def assms(2))
  then show ?thesis using step_lookup by (simp add: wp_fst once_with_def)
next
  case step_startup
  then show ?thesis using once_startup [OF assms(2)] by simp
qed

lemma create_steps_once:
  assumes "(create_step allowed)\<^sup>*\<^sup>* empty_world w"
    and "\<And>env req. allowed env req \<Longrightarrow> request_task_id env req = k \<Longrightarrow> unkeyed env req \<and> settles env"
  shows "once k w"
  using assms(1)
proof (induction rule: rtranclp_induct)
  case base
  then show ?case
    by (simp add: once_def empty_world_def once_row_def arrivals_def route_inv_def unique_key_def)
next
  case (step v w)
  then show ?case using create_step_once assms(2) by blast
qed

section \<open>Properties\<close>

text \<open>
  C2. The create of a remote Task that is not both keyed by the caller and idempotent at the
  peer reaches the peer at most once, over any history of creates, look-ups and restarts in which
  every create of this Task is unkeyed in that sense and the database never refuses the settlement of
  an interrupted reservation of it (\<open>settles\<close>); every other call may fail, requests may be cancelled
  and the process may stop at any point.  The proviso is needed: \<open>refused_settlement_repeats_effect\<close>.
\<close>

theorem remote_create_at_most_once:
  assumes "(create_step allowed)\<^sup>*\<^sup>* empty_world w"
    and "\<And>env req. allowed env req \<Longrightarrow> request_task_id env req = k \<Longrightarrow> unkeyed env req \<and> settles env"
  shows "length (filter (\<lambda>(call, arrived). sp_task_id call = k \<and> arrived) (cw_spawned w)) \<le> 1"
  using create_steps_once [OF assms(1), of k] assms(2)
  by (auto simp: once_def once_row_def arrivals_def split: option.splits)

end
