(* ===== verification/Create_Outcomes.thy ===== *)
theory Create_Outcomes
  imports Create_Once
begin

text \<open>
  What a create tells its caller: a Task it returns is bound by an active route, an error that
  says the effect did not start is true, and a route that left \<open>pending\<close> is never spawned
  again.  Two theorems show histories the workflow does not exclude: a look-up that spoils a
  create in flight, and an effect repeated because a settlement was refused.
\<close>

section \<open>Routes that left the pending state\<close>

definition left_pending :: "pystr \<Rightarrow> create_world \<Rightarrow> bool" where
  "left_pending k w \<longleftrightarrow>
     (case row_at ro_task_id k (cw_routes w) of None \<Rightarrow> False | Some r \<Rightarrow> ro_route_state r \<noteq> RS_pending)"

definition left_with :: "pystr \<Rightarrow> (spawn_call \<times> bool) list \<Rightarrow> create_world \<Rightarrow> bool" where
  "left_with k calls w \<longleftrightarrow> left_pending k w \<and> cw_spawned w = calls"

lemma left_pending_grows:
  assumes "table_grows (cw_routes w) rows" and "left_pending k w"
  shows "left_pending k (w\<lparr>cw_routes := rows\<rparr>)"
proof -
  obtain r where r: "row_at ro_task_id k (cw_routes w) = Some r" "ro_route_state r \<noteq> RS_pending"
    using assms(2) by (auto simp: left_pending_def split: option.splits)
  then obtain r' where "row_at ro_task_id k rows = Some r'" "route_grows r r'"
    using assms(1) by (force simp: table_grows_def split: option.splits)
  moreover from this(2) have "ro_route_state r' \<noteq> RS_pending"
    using r(2) allowed_pending [of "ro_route_state r"] unfolding route_grows_def by metis
  ultimately show ?thesis by (simp add: left_pending_def)
qed

interpretation left: stable_state "left_with k calls" for k calls
proof
  show "left_with k calls (w\<lparr>cw_routes := fst (transition_route t st upstream err now (cw_routes w))\<rparr>)"
    if "left_with k calls w" for w t st upstream err now
    using that left_pending_grows [OF route_step_grows [OF step_transition]]
    by (simp add: left_with_def)
  show "left_with k calls (w\<lparr>cw_routes := fst (mark_create_effect_started t now (cw_routes w))\<rparr>)"
    if "left_with k calls w" for w t now
    using that left_pending_grows [OF route_step_grows [OF step_started]]
    by (simp add: left_with_def)
qed

text \<open>What a transition returns is its row.\<close>

lemma transition_result:
  assumes "snd (transition_route t st upstream err now rows) = Inr route"
  shows "\<exists>r. row_at ro_task_id t (fst (transition_route t st upstream err now rows)) = Some r
    \<and> route_of_row route r \<and> ro_route_state r = st
    \<and> (nonempty_opt upstream \<longrightarrow> ro_upstream_task_id r = upstream)"
proof (cases "get_route t rows")
  case (Inl e)
  then show ?thesis using assms by (simp add: transition_route_def)
next
  case (Inr found)
  then obtain found' where f: "get_route t rows = Inr (Some found')"
    using assms by (cases found) (simp_all add: transition_route_def)
  obtain r where r: "row_at ro_task_id t rows = Some r" "route_of_row found' r"
    using get_route_of_row [OF f] by blast
  have k: "ro_task_id r = t" using row_at_SomeD [OF r(1)] by simp
  show ?thesis
    using assms f r k
    by (cases "ro_upstream_task_id r"; cases upstream)
      (auto simp: transition_route_def save_route_def Let_def route_of_row_def coalesce_def row_simps
        split: if_splits sum.splits)
qed

lemma settle_left:
  assumes "left_with k calls w" and "rt_task_id route = k" and "rt_route_state route \<noteq> RS_pending"
  shows "wp (settle_interrupted_route env live route effect_exists no_effect)
    (\<lambda>route' w'. left_with k calls w' \<and> rt_route_state route' \<noteq> RS_pending)
    (\<lambda>_. left_with k calls) w"
proof -
  let ?st = "if effect_exists then RS_active else if no_effect then RS_failed else RS_uncertain"
  have keep: "left_with k calls (w\<lparr>cw_routes := fst (transition_route t st up err now (cw_routes w))\<rparr>)"
    for t st up err now
    using left.transition [OF assms(1)] .
  have read: "wp (op_bind (store_read env site (get_route k))
        (\<lambda>durable. op_ret (case durable of None \<Rightarrow> route | Some r \<Rightarrow> r)))
      (\<lambda>route' w'. left_with k calls w' \<and> rt_route_state route' \<noteq> RS_pending) (\<lambda>_. left_with k calls) u"
    if u: "left_with k calls u" for u site
    using u assms(3)
    by (auto simp: wp_simps wp_store_read left_with_def left_pending_def
        split: call_outcome.split sum.split option.splits dest!: get_route_SomeD)
  show ?thesis
    unfolding settle_interrupted_route_def Let_def except_exception_def assms(2) wp_handle wp_store_call
    using keep read [OF keep] read [OF assms(1)] assms(1)
    by (auto simp: wp_simps split: call_outcome.split sum.split
        dest!: transition_result simp: route_of_row_def)
qed

lemma reconcile_left:
  assumes "left_with k calls w" and "rt_task_id route = k" and "rt_route_state route \<noteq> RS_pending"
  shows "wp (reconcile_pending_create env live route)
    (\<lambda>route' w'. left_with k calls w' \<and> rt_route_state route' \<noteq> RS_pending)
    (\<lambda>_. left_with k calls) w"
  using settle_left [OF assms] assms
  by (auto simp: reconcile_pending_create_def local_record_def Let_def wp_simps wp_store_read
      split: call_outcome.split sum.split option.split)

lemma reserve_left:
  assumes "left_with (rt_task_id route) calls w"
  shows "wp (reserve_step env route scope policy)
    (\<lambda>(res, ev) w'. left_with (rt_task_id route) calls w' \<and> rt_route_state res \<noteq> RS_pending)
    (\<lambda>_. left_with (rt_task_id route) calls) w"
proof -
  let ?k = "rt_task_id route" let ?now = "en_now env At_reserve"
  have "row_at ro_task_id ?k (cw_routes w) \<noteq> None"
    using assms by (auto simp: left_with_def left_pending_def split: option.splits)
  then have same: "fst (reserve_route route scope policy now (cw_routes w)) = cw_routes w" for now
    by (auto simp: reserve_route_def split: sum.splits option.splits)
  have res: "rt_task_id res = ?k \<and> rt_route_state res \<noteq> RS_pending"
    if "snd (reserve_route route scope policy now (cw_routes w)) = Inr res" for now res
    using reserve_route_row [OF that] assms same
    by (auto simp: left_with_def left_pending_def route_of_row_def dest: row_at_SomeD)
  show ?thesis
    using assms same res reconcile_left [OF assms]
    by (cases "snd (reserve_route route scope policy ?now (cw_routes w))"; cases "en_call env At_evidence")
      (auto simp: reserve_step_def except_exception_def wp_simps wp_store_call wp_store_read Let_def
        split: call_outcome.split sum.split)
qed

lemma run_create_left:
  assumes "left_with (request_task_id env req) calls w"
  shows "wp (run_create env req) (\<lambda>_. left_with (request_task_id env req) calls)
    (\<lambda>_. left_with (request_task_id env req) calls) w"
proof -
  let ?t = "request_task_id env req"
  let ?safe = "rq_route_kind req = RK_remote_ref \<and> create_idempotency_guaranteed env (rq_agent_name req)"
  obtain scope policy where pol: "create_evidence_policy (rq_route_kind req)
      (rq_idempotency_key req \<noteq> None) ?safe = (scope, policy)"
    by fastforce
  have tid: "rt_task_id (reservation_of env req ?t) = ?t" by (simp add: reservation_of_def)
  have r: "wp (reserve_step env (reservation_of env req ?t) scope policy)
    (\<lambda>(res, ev) w'. left_with ?t calls w' \<and> rt_route_state res \<noteq> RS_pending) (\<lambda>_. left_with ?t calls) w"
    using reserve_left [of "reservation_of env req ?t" calls w env scope policy] assms
    unfolding tid by simp
  show ?thesis
    unfolding run_create_def Let_def pol case_prod_conv
  proof (subst wp_bind, rule wp_conseq [OF r], goal_cases)
    case (1 x u)
    obtain res ev where x: "x = (res, ev)" by (cases x)
    show ?case
      using 1 x by (cases "rt_route_state res") (simp_all add: wp_simps split: sum.split)
  qed simp
qed

section \<open>What an error says of the effect\<close>

definition effect_outcome :: "gateway_error \<Rightarrow> pyval" where
  "effect_outcome e = (case ge_details e of None \<Rightarrow> PNone | Some d \<Rightarrow> dict_get (str ''effect_outcome'') d)"

text \<open>
  An answer that shows that the executor did not accept the call: no runtime or executor for the
  agent, a delegation limit, a 4xx reply of the peer, or, for a local Task, a value refused before
  the run.  A 5xx reply, an unreadable answer of a peer and any other exception prove nothing.
\<close>

fun refusal :: "route_kind \<Rightarrow> effect_exn \<Rightarrow> bool" where
  "refusal kind (E_client e) = (400 \<le> a2_status_code e \<and> a2_status_code e < 500)"
| "refusal kind E_unknown_task = (kind \<noteq> RK_remote_ref)"
| "refusal kind E_value = (kind \<noteq> RK_remote_ref)"
| "refusal kind E_other = False"
| "refusal kind _ = True"

text \<open>Every call noted after \<open>calls\<close> that arrived was refused.\<close>

definition refused_since ::
  "create_env \<Rightarrow> create_request \<Rightarrow> (spawn_call \<times> bool) list \<Rightarrow> create_world \<Rightarrow> bool" where
  "refused_since env req calls w \<longleftrightarrow>
     (\<exists>new. cw_spawned w = calls @ new
        \<and> (\<forall>(call, arrived) \<in> set new. arrived \<longrightarrow>
             (\<exists>exc. en_spawn env call = Inl exc \<and> refusal (rq_route_kind req) exc)))"

definition honest ::
  "create_env \<Rightarrow> create_request \<Rightarrow> (spawn_call \<times> bool) list \<Rightarrow> create_exn \<Rightarrow> create_world \<Rightarrow> bool" where
  "honest env req calls e w \<longleftrightarrow>
     (\<forall>ge. e = X_gateway ge \<and> effect_outcome ge = PStr (str ''not_started'') \<longrightarrow> refused_since env req calls w)"

lemma refused_none: "cw_spawned w = calls \<Longrightarrow> refused_since env req calls w"
  by (simp add: refused_since_def)

lemma honest_none: "cw_spawned w = calls \<Longrightarrow> honest env req calls e w"
  by (simp add: honest_def refused_none)

lemma identity_outcome: "dict_get (str ''effect_outcome'') (identity_details t st q r out) = PStr out"
  by (simp add: identity_details_def dict_get_def)

lemma route_identity_outcome [simp]:
  "effect_outcome (with_route_identity err route t r st out) = PStr out"
  by (simp add: with_route_identity_def effect_outcome_def identity_outcome Let_def)

lemma persistence_outcome [simp]: "effect_outcome (route_persistence_error t st q r out) = PStr out"
  by (simp add: route_persistence_error_def effect_outcome_def identity_outcome gateway_error_of_def)

text \<open>Operations that raise no error of the Gateway themselves.\<close>

fun is_gateway :: "create_exn \<Rightarrow> bool" where
  "is_gateway (X_gateway _) = True"
| "is_gateway _ = False"

definition plain :: "'a copn \<Rightarrow> bool" where
  "plain c \<longleftrightarrow> (\<forall>w. wp c (\<lambda>_ _. True) (\<lambda>e _. \<not> is_gateway e) w)"

named_theorems plain_intros \<open>operations that raise no Gateway error\<close>

lemma plain_ret [plain_intros]: "plain (op_ret x)"
  by (simp add: plain_def wp_simps)

lemma plain_bind [plain_intros]: "plain c \<Longrightarrow> (\<And>x. plain (f x)) \<Longrightarrow> plain (op_bind c f)"
  unfolding plain_def wp_bind by (blast intro: wp_conseq)

lemma plain_store [plain_intros]: "plain (store_call env site f)"
  by (auto simp: plain_def wp_store_call Let_def split: call_outcome.split sum.split)

lemma plain_read [plain_intros]: "plain (store_read env site f)"
  by (simp add: store_read_def plain_store)

lemma plain_except [plain_intros]: "plain c \<Longrightarrow> (\<And>e. plain (h e)) \<Longrightarrow> plain (except_exception c h)"
  unfolding plain_def except_exception_def wp_handle
  by (intro allI, rule wp_conseq, erule spec) (auto simp: wp_if wp_raise)

lemma plain_fail [plain_intros]: "plain (fail_reservation env route err uncertain)"
  unfolding fail_reservation_def by (intro plain_intros)

lemma plain_settle [plain_intros]:
  "plain (settle_interrupted_route env live route effect_exists no_effect)"
  unfolding settle_interrupted_route_def Let_def by (intro plain_intros)

lemma plain_local [plain_intros]: "plain (local_record env t)"
  by (auto simp: plain_def local_record_def wp_simps split: sum.split)

lemma plain_reconcile [plain_intros]: "plain (reconcile_pending_create env live route)"
  by (auto simp: reconcile_pending_create_def Let_def intro!: plain_intros)

lemma plain_wp: "plain c \<Longrightarrow> (\<And>x w'. Q x w') \<Longrightarrow> (\<And>e w'. \<not> is_gateway e \<Longrightarrow> E e w') \<Longrightarrow> wp c Q E w"
  unfolding plain_def by (blast intro: wp_conseq)

lemma honest_plain: "\<not> is_gateway e \<Longrightarrow> honest env req calls e w"
  by (cases e) (simp_all add: honest_def)

lemma honest_reraise:
  "\<not> is_exception e \<Longrightarrow> wp (reraise_cleaned env reservation e) Q (honest env' req calls) w"
  unfolding reraise_cleaned_def cleanup_interrupted_def
  by (cases e) (auto simp: wp_simps intro!: plain_wp [OF plain_reconcile] honest_plain)

lemma honest_fail:
  "(\<And>d. effect_outcome (g d) \<noteq> PStr (str ''not_started'')) \<Longrightarrow>
    wp (op_bind (fail_reservation env route err uncertain) (\<lambda>d. op_raise (X_gateway (g d)))) Q
      (honest env' req calls) w"
  by (auto simp: wp_simps honest_def intro!: plain_wp [OF plain_fail] dest: honest_plain)

lemma honest_complete:
  "wp (complete_create env req reservation r t) (\<lambda>_ _. True) (honest env req calls) w"
proof -
  have reject: "wp (reject_effect env err reservation t) Q (honest env req calls) u" for Q err u
    unfolding reject_effect_def by (rule honest_fail) simp
  have activate: "wp (activate_step env reservation r t) (\<lambda>_ _. True) (honest env req calls) u" for u
    unfolding activate_step_def except_exception_def wp_handle
    by (intro plain_wp [OF plain_store]) (auto simp: wp_if wp_raise intro!: honest_fail honest_plain)
  show ?thesis
    unfolding complete_create_def validate_effect_def
    by (auto simp: wp_simps intro!: reject wp_conseq [OF activate])
qed

lemma refused_same:
  "refused_since env req calls w \<Longrightarrow> cw_spawned w' = cw_spawned w \<Longrightarrow> refused_since env req calls w'"
  by (simp add: refused_since_def)

lemma refused_honest: "refused_since env req calls w \<Longrightarrow> honest env req calls e w"
  by (simp add: honest_def)

lemma honest_recover:
  assumes "refused_since env req calls w \<or>
    ge_effect_disposition (create_effect_error exc (rq_agent_name req) (rq_route_kind req)) = Some ED_outcome_unknown"
  shows "wp (op_bind (recover_create_effect_error env' exc req t safe reservation) (\<lambda>err. op_raise (X_gateway err)))
    Q (honest env req calls) w"
proof (cases "ge_effect_disposition (create_effect_error exc (rq_agent_name req) (rq_route_kind req))
    = Some ED_outcome_unknown")
  case True
  show ?thesis
    using True honest_fail [of "\<lambda>d. with_route_identity (create_effect_error exc (rq_agent_name req) (rq_route_kind req))
        d t False (Some (route_state_name (rt_route_state reservation))) (str ''uncertain'')"
      env' reservation "Error_of (create_effect_error exc (rq_agent_name req) (rq_route_kind req))" True Q env req calls w]
    by (auto simp: recover_create_effect_error_def Let_def wp_simps honest_def)
next
  case False
  then have r: "refused_since env req calls w" using assms by simp
  have h: "honest env req calls e u" if "cw_spawned u = cw_spawned w" for e u
    by (rule refused_honest [OF refused_same [OF r that]])
  have fail: "wp (fail_reservation env' reservation err uncertain) (\<lambda>_ u. cw_spawned u = cw_spawned w)
      (\<lambda>_ u. cw_spawned u = cw_spawned w) w" for err uncertain
    by (rule stays_wp [OF calls.stays_fail]) simp
  have fail': "wp (fail_reservation env' reservation err uncertain)
      (\<lambda>d. honest env req calls (X_gateway (g d))) (honest env req calls) w" for err uncertain g
    by (rule wp_conseq [OF fail]) (auto intro: h)
  show ?thesis
    using False
    by (auto simp: recover_create_effect_error_def Let_def except_exception_def wp_simps wp_store_call
        intro!: h fail' split: call_outcome.split sum.split)
qed

lemma honest_spawn:
  assumes "cw_spawned w = calls"
  shows "wp (spawn_step env req t call reservation safe) (\<lambda>_ _. True) (honest env req calls) w"
proof -
  let ?w = "\<lambda>b. w\<lparr>cw_spawned := cw_spawned w @ [(call, b)]\<rparr>"
  have "refused_since env req calls (?w (may_have_arrived (Inl exc)))
      \<or> ge_effect_disposition (create_effect_error exc (rq_agent_name req) (rq_route_kind req)) = Some ED_outcome_unknown"
    if "en_spawn env call = Inl exc" for exc
    using that assms
    by (cases exc) (auto simp: refused_since_def create_effect_error_def with_disposition_def Let_def
        client_disposition_def may_have_arrived_def)
  moreover have "ge_effect_disposition (create_effect_error E_other (rq_agent_name req) (rq_route_kind req))
      = Some ED_outcome_unknown"
    by (simp add: create_effect_error_def with_disposition_def Let_def)
  ultimately show ?thesis
    by (auto simp: spawn_step_def wp_handle wp_spawn_call Let_def may_have_arrived_def
        intro!: honest_recover honest_reraise split: call_outcome.split sum.split)
qed

lemma stays_calls_reserve: "stays (\<lambda>w. cw_spawned w = calls) (reserve_step env route scope policy)"
  unfolding reserve_step_def
  by (auto intro!: create_wp calls.stays_store split: prod.split)

lemma honest_boundary:
  assumes "cw_spawned w = calls"
  shows "wp (effect_boundary env before reservation t) (\<lambda>_ u. cw_spawned u = calls) (honest env req calls) w"
  using stays_wp [of "\<lambda>w. cw_spawned w = calls", OF calls.stays_boundary assms]
  by (rule wp_conseq) (auto intro: honest_none)

lemma run_create_honest:
  assumes "cw_spawned w = calls"
  shows "wp (run_create env req) (\<lambda>_ _. True) (honest env req calls) w"
proof -
  let ?t = "request_task_id env req"
  let ?safe = "rq_route_kind req = RK_remote_ref \<and> create_idempotency_guaranteed env (rq_agent_name req)"
  obtain scope policy where pol: "create_evidence_policy (rq_route_kind req)
      (rq_idempotency_key req \<noteq> None) ?safe = (scope, policy)"
    by fastforce
  have effect: "wp (op_then (effect_boundary env before res ?t)
      (op_bind (spawn_step env req ?t (spawn_kwargs req ?t ?safe) res ?safe)
        (\<lambda>r. complete_create env req res r ?t))) (\<lambda>_ _. True) (honest env req calls) u"
    if "cw_spawned u = calls" for u res before
    unfolding wp_then wp_bind
    by (rule wp_conseq [OF honest_boundary [OF that]])
      (auto intro!: wp_conseq [OF honest_spawn] honest_complete)
  show ?thesis
    unfolding run_create_def Let_def pol case_prod_conv
  proof (subst wp_bind, rule wp_conseq [OF stays_wp [OF stays_calls_reserve assms]], goal_cases)
    case (1 x u)
    obtain res ev where x: "x = (res, ev)" by (cases x)
    show ?case
      using 1 effect [OF 1] x by (auto simp: wp_simps honest_none split: sum.split)
  qed (rule honest_none)
qed

section \<open>What a created Task is bound to\<close>

definition route_stored :: "pystr \<Rightarrow> route_record \<Rightarrow> create_world \<Rightarrow> bool" where
  "route_stored t route w \<longleftrightarrow> (\<exists>r. row_at ro_task_id t (cw_routes w) = Some r \<and> route_of_row route r)"

lemma route_stored_id: "route_stored t route w \<Longrightarrow> rt_task_id route = t"
  by (auto simp: route_stored_def route_of_row_def dest: row_at_SomeD)

lemma settle_stored:
  assumes "row_at ro_task_id t (cw_routes w) \<noteq> None" and "rt_task_id route = t"
  shows "wp (settle_interrupted_route env live route effect_exists no_effect)
    (route_stored t) (\<lambda>_ _. True) w"
proof -
  have there: "row_at ro_task_id t (fst (transition_route t st up err now (cw_routes w))) \<noteq> None"
    for st up err now
    using assms(1) transition_row [of t "cw_routes w" t st up err now]
    by (auto simp: evidence_kept_def split: option.splits)
  have read: "wp (op_bind (store_read env site (get_route t))
        (\<lambda>durable. op_ret (case durable of None \<Rightarrow> route | Some r \<Rightarrow> r))) (route_stored t) (\<lambda>_ _. True) u"
    if "row_at ro_task_id t (cw_routes u) \<noteq> None" for u site
    using that
    by (auto simp: wp_simps wp_store_read route_stored_def split: call_outcome.split sum.split option.splits
        dest!: get_route_of_row) (auto simp: get_route_def split: option.splits sum.splits)
  show ?thesis
    unfolding settle_interrupted_route_def Let_def except_exception_def assms(2) wp_handle wp_store_call
    using read [of w] assms(1) read there
    by (auto simp: wp_simps route_stored_def split: call_outcome.split sum.split dest!: transition_result)
qed

lemma reconcile_stored:
  assumes "route_stored t route w"
  shows "wp (reconcile_pending_create env live route) (route_stored t) (\<lambda>_ _. True) w"
proof -
  have "row_at ro_task_id t (cw_routes w) \<noteq> None" using assms by (auto simp: route_stored_def)
  from settle_stored [OF this route_stored_id [OF assms]] assms show ?thesis
    by (auto simp: reconcile_pending_create_def local_record_def Let_def wp_simps wp_store_read
        split: call_outcome.split sum.split option.split)
qed

lemma reserve_stored:
  "wp (reserve_step env route scope policy) (\<lambda>(res, ev). route_stored (rt_task_id route) res) (\<lambda>_ _. True) w"
proof (cases "snd (reserve_route route scope policy (en_now env At_reserve) (cw_routes w))")
  case (Inl e)
  then show ?thesis
    by (auto simp: reserve_step_def except_exception_def wp_simps wp_store_call Let_def split: call_outcome.split)
next
  case (Inr res)
  let ?w = "w\<lparr>cw_routes := fst (reserve_route route scope policy (en_now env At_reserve) (cw_routes w))\<rparr>"
  have "route_stored (rt_task_id route) res ?w"
    using reserve_route_row [OF Inr] by (simp add: route_stored_def)
  then show ?thesis
    using Inr reconcile_stored [of "rt_task_id route" res ?w env False]
    by (cases "en_call env At_evidence")
      (auto simp: reserve_step_def except_exception_def wp_simps wp_store_call wp_store_read Let_def
        split: call_outcome.split sum.split)
qed

definition for_request :: "create_env \<Rightarrow> create_request \<Rightarrow> spawn_call \<Rightarrow> bool" where
  "for_request env req call \<longleftrightarrow>
     sp_task_id call = request_task_id env req \<and> sp_agent_name call = rq_agent_name req
     \<and> sp_input_content call = rq_input_content req"

text \<open>A row holds the id its executor answered with: its upstream id, or the id of a local Task.\<close>

definition answer_bound :: "task_record \<Rightarrow> route_row \<Rightarrow> bool" where
  "answer_bound result r \<longleftrightarrow>
     (if nonempty_opt (tk_upstream_task_id result) then ro_upstream_task_id r = tk_upstream_task_id result
      else tk_task_id result \<noteq> [] \<longrightarrow> ro_upstream_task_id r = Some (tk_task_id result))"

definition bound_to ::
  "create_env \<Rightarrow> create_request \<Rightarrow> (spawn_call \<times> bool) list \<Rightarrow> route_record \<Rightarrow> create_world \<Rightarrow> bool" where
  "bound_to env req calls route w \<longleftrightarrow>
     (\<exists>r. row_at ro_task_id (request_task_id env req) (cw_routes w) = Some r \<and> route_of_row route r
        \<and> ro_route_state r = RS_active
        \<and> (cw_spawned w = calls
           \<or> (\<exists>call result. cw_spawned w = calls @ [(call, True)] \<and> for_request env req call
                \<and> en_spawn env call = Inr result
                \<and> has_durable_create_effect result (rq_route_kind req)
                \<and> answer_bound result r)))"

lemma wp_True [simp]: "wp c (\<lambda>_ _. True) (\<lambda>_ _. True) w"
  by (auto simp: wp_def split: prod.split sum.split)

lemma activate_bound:
  "wp (activate_step env reservation result t)
    (\<lambda>route u. cw_spawned u = cw_spawned w \<and> (\<exists>r. row_at ro_task_id t (cw_routes u) = Some r
       \<and> route_of_row route r \<and> ro_route_state r = RS_active
       \<and> answer_bound result r))
    (\<lambda>_ _. True) w"
  by (auto simp: activate_step_def except_exception_def wp_simps wp_store_call Let_def answer_bound_def
      effect_binding_def split: call_outcome.split sum.split dest!: transition_result)

lemma complete_bound:
  assumes "cw_spawned w = calls @ [(call, True)]" and "en_spawn env call = Inr result"
    and "for_request env req call"
  shows "wp (complete_create env req reservation result (request_task_id env req))
    (\<lambda>rd. bound_to env req calls (rd_route rd)) (\<lambda>_ _. True) w"
proof (cases "has_durable_create_effect result (rq_route_kind req)")
  case False
  then show ?thesis
    by (auto simp: complete_create_def validate_effect_def reject_effect_def wp_simps)
next
  case True
  then have v: "validate_effect env (rq_route_kind req) result reservation (request_task_id env req) = op_ret ()"
    by (auto simp: validate_effect_def has_durable_create_effect_def)
  show ?thesis
    unfolding complete_create_def v
    using assms True
    by (auto simp: wp_simps bound_to_def intro!: wp_conseq [OF activate_bound])
qed

lemma spawn_bound:
  assumes "cw_spawned w = calls"
  shows "wp (spawn_step env req t call reservation safe)
    (\<lambda>result u. cw_spawned u = calls @ [(call, True)] \<and> en_spawn env call = Inr result) (\<lambda>_ _. True) w"
proof -
  have raises: "wp (op_bind c (\<lambda>e. op_raise (g e))) Q (\<lambda>_ _. True) u" for c :: "'x copn" and g Q u
    by (simp add: wp_simps)
  have again: "wp (reraise_cleaned env reservation e) Q (\<lambda>_ _. True) u" for e Q u
    by (simp add: reraise_cleaned_def wp_simps)
  show ?thesis
    using assms
    by (auto simp: spawn_step_def wp_handle wp_spawn_call Let_def intro!: raises again
        split: call_outcome.split sum.split)
qed

lemma run_create_bound:
  assumes "cw_spawned w = calls"
  shows "wp (run_create env req) (\<lambda>rd. bound_to env req calls (rd_route rd)) (\<lambda>_ _. True) w"
proof -
  let ?t = "request_task_id env req"
  let ?safe = "rq_route_kind req = RK_remote_ref \<and> create_idempotency_guaranteed env (rq_agent_name req)"
  obtain scope policy where pol: "create_evidence_policy (rq_route_kind req)
      (rq_idempotency_key req \<noteq> None) ?safe = (scope, policy)"
    by fastforce
  have effect: "wp (op_then (effect_boundary env before res ?t)
      (op_bind (spawn_step env req ?t (spawn_kwargs req ?t ?safe) res ?safe)
        (\<lambda>r. complete_create env req res r ?t))) (\<lambda>rd. bound_to env req calls (rd_route rd)) (\<lambda>_ _. True) u"
    if "cw_spawned u = calls" for u res before
    unfolding wp_then wp_bind
    by (rule wp_conseq [OF stays_wp [of "\<lambda>w. cw_spawned w = calls", OF calls.stays_boundary that]])
      (auto simp: for_request_def spawn_kwargs_def Let_def intro!: wp_conseq [OF spawn_bound] complete_bound)
  have reserve: "wp (reserve_step env (reservation_of env req ?t) scope policy)
      (\<lambda>x u. cw_spawned u = calls \<and> route_stored ?t (fst x) u) (\<lambda>_ _. True) w"
    using wp_conj [OF stays_wp [OF stays_calls_reserve assms]
        reserve_stored [of env "reservation_of env req ?t" scope policy w]]
    by (rule wp_conseq) (auto simp: reservation_of_def split: prod.splits)
  show ?thesis
    unfolding run_create_def Let_def pol case_prod_conv
  proof (subst wp_bind, rule wp_conseq [OF reserve], goal_cases)
    case (1 x u)
    obtain res ev where x: "x = (res, ev)" by (cases x)
    then show ?case
      using 1 effect [of u]
      by (auto simp: wp_simps bound_to_def route_stored_def route_of_row_def split: sum.split)
  qed simp
qed

section \<open>A look-up during a create\<close>

definition smooth :: "create_env \<Rightarrow> bool" where
  "smooth env \<longleftrightarrow> (\<forall>site. en_call env site = Call_returns)"

lemma smooth_call [simp]: "smooth env \<Longrightarrow> en_call env site = Call_returns"
  by (simp add: smooth_def)

definition in_flight :: "pystr \<Rightarrow> route_row \<Rightarrow> create_world \<Rightarrow> bool" where
  "in_flight k r w \<longleftrightarrow> route_inv (cw_routes w) \<and> row_at ro_task_id k (cw_routes w) = Some r
     \<and> unreplayable r \<and> ro_route_state r = RS_pending \<and> ro_effect_boundary r = str ''started''
     \<and> ro_upstream_task_id r = None"

lemma reconcile_in_flight:
  assumes "in_flight k r w" and "route_of_row route r" and "smooth env"
  shows "wp (reconcile_pending_create env False route)
    (\<lambda>route' w'. rt_route_state route' = RS_uncertain \<and> route_inv (cw_routes w')
       \<and> (\<exists>r'. row_at ro_task_id k (cw_routes w') = Some r' \<and> ro_route_state r' = RS_uncertain))
    (\<lambda>_ _. False) w"
proof -
  let ?err = "Some (str ''Gateway Task creation was interrupted'')"
  let ?now = "en_now env (At_settle False)"
  have inv: "route_inv (cw_routes w)" and at: "row_at ro_task_id k (cw_routes w) = Some r"
    and pend: "ro_route_state r = RS_pending" and un: "unreplayable r"
    using assms(1) by (simp_all add: in_flight_def)
  have k: "ro_task_id r = k" using row_at_SomeD [OF at] by simp
  have ev: "get_create_evidence k (cw_routes w) = Inr (Some (row_evidence r))"
    by (rule get_evidence_bound [OF route_inv_at [OF inv at] at])
  have inv': "route_inv (fst (transition_route k RS_uncertain (ro_upstream_task_id r) ?err ?now (cw_routes w)))"
    by (rule transition_route_inv [OF inv])
  show ?thesis
    using settle_uncertain [OF inv at pend, of ?err ?now] assms(2,3) k ev pend un inv'
    by (auto simp: reconcile_pending_create_def local_record_def settle_interrupted_route_def Let_def except_exception_def
        wp_simps wp_store_call wp_store_read route_of_row_def unreplayable_def permits_remote_replay_def
        row_evidence_def assms(1)[unfolded in_flight_def])
qed

lemma activate_uncertain:
  assumes "row_at ro_task_id k rows = Some r" and "ro_route_state r = RS_uncertain"
  shows "\<exists>e. transition_route k RS_active upstream err now rows = (rows, Inl e)"
proof -
  have k: "ro_task_id r = k" using row_at_SomeD [OF assms(1)] by simp
  show ?thesis
    using assms k
    by (auto simp: transition_route_def get_route_def row_to_route_def Let_def save_route_def
        validate_active_binding_def split: sum.splits)
qed

lemma complete_uncertain:
  assumes "row_at ro_task_id k (cw_routes w) = Some r" and "ro_route_state r = RS_uncertain"
    and "smooth env" and "has_durable_create_effect result (rq_route_kind req)"
  shows "wp (complete_create env req reservation result k) (\<lambda>_ _. False)
    (\<lambda>e _. \<exists>ge. e = X_gateway ge \<and> ge_code ge = str ''route_persistence_failed''
       \<and> effect_outcome ge = PStr (str ''completed'')) w"
proof -
  have v: "validate_effect env (rq_route_kind req) result reservation k = op_ret ()"
    using assms(4) by (auto simp: validate_effect_def has_durable_create_effect_def)
  obtain e where "transition_route k RS_active (effect_binding result) None (en_now env At_activate) (cw_routes w)
      = (cw_routes w, Inl e)"
    using activate_uncertain [OF assms(1,2)] by blast
  then show ?thesis
    using assms(3)
    by (auto simp: complete_create_def v activate_step_def except_exception_def fail_reservation_def wp_simps
        wp_store_call wp_store_read Let_def route_persistence_error_def gateway_error_of_def
        effect_outcome_def identity_outcome split: sum.split)
qed

lemma complete_pending:
  assumes "in_flight k r w" and "smooth env" and "ro_route_kind r = rq_route_kind req"
    and "has_durable_create_effect result (rq_route_kind req)"
  shows "wp (complete_create env req reservation result k)
    (\<lambda>rd w'. \<exists>r'. row_at ro_task_id k (cw_routes w') = Some r' \<and> ro_route_state r' = RS_active)
    (\<lambda>_ _. False) w"
proof -
  have kind: "rq_route_kind req = RK_remote_ref"
    using assms(1,3) by (simp add: in_flight_def unreplayable_def)
  have v: "validate_effect env (rq_route_kind req) result reservation k = op_ret ()"
    using assms(4) by (auto simp: validate_effect_def has_durable_create_effect_def)
  have at: "row_at ro_task_id k (cw_routes w) = Some r" "ro_task_id r = k"
    using assms(1) row_at_SomeD [of ro_task_id k "cw_routes w" r] by (auto simp: in_flight_def)
  obtain route where r: "snd (transition_route k RS_active (effect_binding result) None
      (en_now env At_activate) (cw_routes w)) = Inr route"
    using assms(1,4) kind at
    by (atomize_elim) (auto simp: in_flight_def has_durable_create_effect_def effect_binding_def transition_route_def
        get_route_def row_to_route_def Let_def save_route_def validate_active_binding_def)
  show ?thesis
    using assms(2) r transition_result [OF r]
    by (auto simp: complete_create_def v activate_step_def except_exception_def wp_simps wp_store_call Let_def)
qed

section \<open>Properties\<close>

text \<open>
  C3. A create that returns a Task has stored it: the route of the Task is active and is the one
  returned, and either nothing was spawned (the Task existed already) or exactly one call was
  spawned, for this Task and agent, its executor answered with a durable run or remote binding, and
  the route is bound to the id the executor answered with, remote or local.
\<close>

theorem created_task_is_bound:
  assumes "run_create env req w = (w', Inr routed)"
  shows "\<exists>r. row_at ro_task_id (request_task_id env req) (cw_routes w') = Some r
    \<and> rt_task_id (rd_route routed) = ro_task_id r \<and> ro_route_state r = RS_active
    \<and> (cw_spawned w' = cw_spawned w
       \<or> (\<exists>call result. cw_spawned w' = cw_spawned w @ [(call, True)]
            \<and> sp_task_id call = request_task_id env req \<and> sp_agent_name call = rq_agent_name req
            \<and> en_spawn env call = Inr result
            \<and> has_durable_create_effect result (rq_route_kind req)
            \<and> (if nonempty_opt (tk_upstream_task_id result)
               then ro_upstream_task_id r = tk_upstream_task_id result
               else tk_task_id result \<noteq> [] \<longrightarrow> ro_upstream_task_id r = Some (tk_task_id result))))"
  using wp_run [OF run_create_bound [of w "cw_spawned w" env req] assms]
  by (fastforce simp: bound_to_def route_of_row_def answer_bound_def for_request_def)

text \<open>
  C4. An error that tells the caller that the effect did not start is true: whatever fails, every
  call this create spawned and that may have reached its executor was answered by a refusal: no
  runtime or executor for the agent, a delegation limit, a 4xx reply, or, for a local Task, a
  refused value; never by a 5xx reply, an unreadable answer of a peer or any other exception.
\<close>

theorem not_started_is_true:
  assumes "run_create env req w = (w', Inl (X_gateway err))"
    and "effect_outcome err = PStr (str ''not_started'')"
  shows "\<exists>new. cw_spawned w' = cw_spawned w @ new
    \<and> (\<forall>(call, arrived) \<in> set new. arrived \<longrightarrow>
         (\<exists>exc. en_spawn env call = Inl exc \<and> refusal (rq_route_kind req) exc))"
  using wp_run [OF run_create_honest [of w "cw_spawned w" env req] assms(1)] assms(2)
  by (simp add: honest_def refused_since_def)

text \<open>
  C5. A route that left the pending state is never spawned again, whatever the create finds, and
  it does not become pending again.
\<close>

theorem settled_route_not_respawned:
  assumes "row_at ro_task_id (request_task_id env req) (cw_routes w) = Some r"
    and "ro_route_state r \<noteq> RS_pending"
  shows "cw_spawned (fst (run_create env req w)) = cw_spawned w
    \<and> (\<exists>r'. row_at ro_task_id (request_task_id env req) (cw_routes (fst (run_create env req w))) = Some r'
         \<and> ro_route_state r' \<noteq> RS_pending)"
proof -
  have "left_with (request_task_id env req) (cw_spawned w) w"
    using assms by (simp add: left_with_def left_pending_def)
  from run_create_left [OF this] show ?thesis
    by (simp add: wp_fst left_with_def left_pending_def split: option.splits)
qed

text \<open>
  A look-up spoils a create in flight: while a remote create that may not be replayed waits
  for its peer, reading the route settles it as uncertain, and the create, which would have been
  activated, is then reported as a persistence failure of a completed effect although no call of
  the store fails.
\<close>

theorem lookup_spoils_create:
  assumes "in_flight k r w" and "get_route k (cw_routes w) = Inr (Some route)"
    and "smooth env" and "smooth env'" and "rq_route_kind req = RK_remote_ref"
    and "nonempty_opt (tk_upstream_task_id result)"
  shows "(\<exists>w1 route1 w2 err. reconcile_pending_create env False route w = (w1, Inr route1)
        \<and> rt_route_state route1 = RS_uncertain
        \<and> complete_create env' req reservation result k w1 = (w2, Inl (X_gateway err))
        \<and> ge_code err = str ''route_persistence_failed'' \<and> effect_outcome err = PStr (str ''completed''))
    \<and> (\<exists>w3 routed r'. complete_create env' req reservation result k w = (w3, Inr routed)
        \<and> row_at ro_task_id k (cw_routes w3) = Some r' \<and> ro_route_state r' = RS_active)"
    (is "?spoiled \<and> ?activated")
proof -
  have dur: "has_durable_create_effect result (rq_route_kind req)"
    using assms(5,6) by (simp add: has_durable_create_effect_def)
  have rr: "route_of_row route r"
    using get_route_of_row [OF assms(2)] assms(1) by (auto simp: in_flight_def)
  obtain w1 route1 r1 where 1: "reconcile_pending_create env False route w = (w1, Inr route1)"
      "rt_route_state route1 = RS_uncertain" "row_at ro_task_id k (cw_routes w1) = Some r1"
      "ro_route_state r1 = RS_uncertain"
    using reconcile_in_flight [OF assms(1) rr assms(3)]
    by (cases "reconcile_pending_create env False route w") (auto simp: wp_def split: sum.splits)
  moreover obtain w2 err where "complete_create env' req reservation result k w1 = (w2, Inl (X_gateway err))"
      "ge_code err = str ''route_persistence_failed''" "effect_outcome err = PStr (str ''completed'')"
    using complete_uncertain [OF 1(3,4) assms(4) dur, of reservation]
    by (cases "complete_create env' req reservation result k w1") (auto simp: wp_def split: sum.splits)
  ultimately have ?spoiled
    by blast
  have kind: "ro_route_kind r = rq_route_kind req"
    using assms(1,5) by (simp add: in_flight_def unreplayable_def)
  have ?activated
    using complete_pending [OF assms(1,4) kind dur, of reservation]
    by (cases "complete_create env' req reservation result k w") (auto simp: wp_def split: sum.splits)
  with \<open>?spoiled\<close> show ?thesis ..
qed

definition demo_env :: create_env where
  "demo_env =
     \<lparr>en_call = (\<lambda>_. Call_returns), en_now = (\<lambda>_. 7),
      en_clock = 7, en_uuid = str ''u'', en_idempotent = (\<lambda>_. Some False), en_spawn = (\<lambda>_. Inl E_other),
      en_local = (\<lambda>_. Inl E_unknown_task), en_ensure = (\<lambda>_. Inl E_value), en_refresh = (\<lambda>_. Inl E_value)\<rparr>"

definition demo_request :: create_request where
  "demo_request = \<lparr>rq_agent_name = str ''peer'', rq_route_kind = RK_remote_ref, rq_input_content = [],
     rq_metadata = [], rq_webhook = None, rq_delegation_context = None, rq_attachments = None,
     rq_task_id = Some (str ''t1''), rq_idempotency_key = None, rq_before_effect = True\<rparr>"

text \<open>A history of two creates of the same request.\<close>

lemma two_creates:
  "(create_step (\<lambda>env req. env = E \<and> req = R))\<^sup>*\<^sup>* w (fst (run_create E R (fst (run_create E R w))))"
proof -
  have step: "create_step (\<lambda>env req. env = E \<and> req = R) v (fst (run_create E R v))" for v
    by (rule step_create) simp
  show ?thesis
    by (rule converse_rtranclp_into_rtranclp, rule step, rule r_into_rtranclp, rule step)
qed

definition refusing_env :: create_env where
  "refusing_env =
     \<lparr>en_call = (\<lambda>site. if site = At_fail \<or> site = At_settle False then Call_fails else Call_returns),
      en_now = (\<lambda>_. 7), en_clock = 7, en_uuid = str ''u'', en_idempotent = (\<lambda>_. Some False),
      en_spawn = (\<lambda>_. Inl E_other),
      en_local = (\<lambda>_. Inl E_unknown_task), en_ensure = (\<lambda>_. Inl E_value), en_refresh = (\<lambda>_. Inl E_value)\<rparr>"

definition repeated_world :: create_world where
  "repeated_world = fst (run_create refusing_env demo_request
     (fst (run_create refusing_env demo_request empty_world)))"

lemma repeated_calls:
  "map (\<lambda>c. sp_task_id (fst c)) (cw_spawned repeated_world) = [str ''t1'', str ''t1'']"
  by code_simp

lemma repeated_arrivals: "map snd (cw_spawned repeated_world) = [True, True]"
  by code_simp

text \<open>
  Why the bound on creates supposes that settlements are taken: when the database refuses the
  settlement of an interrupted reservation, the next create of the same Task finds it still
  pending and spawns the effect again, although the first may have arrived.
\<close>

theorem refused_settlement_repeats_effect:
  "(create_step (\<lambda>env req. env = refusing_env \<and> req = demo_request))\<^sup>*\<^sup>* empty_world repeated_world
   \<and> unkeyed refusing_env demo_request
   \<and> map (\<lambda>c. sp_task_id (fst c)) (cw_spawned repeated_world) = [str ''t1'', str ''t1'']
   \<and> map snd (cw_spawned repeated_world) = [True, True]"
  unfolding repeated_world_def
  by (intro conjI two_creates repeated_calls [unfolded repeated_world_def]
      repeated_arrivals [unfolded repeated_world_def])
    (simp add: unkeyed_def refusing_env_def demo_env_def demo_request_def)

section \<open>Witnesses\<close>

definition bound_record :: task_record where
  "bound_record = (reservation_record \<lparr>rt_task_id = str ''t1'', rt_agent_name = str ''peer'',
     rt_metadata = [], rt_route_kind = RK_remote_ref, rt_upstream_task_id = None, rt_webhook = None,
     rt_route_state = RS_pending, rt_route_error = None, rt_created_at = 1, rt_updated_at = 1\<rparr>)
     \<lparr>tk_upstream_task_id := Some (str ''up'')\<rparr>"

definition created_world :: create_world where
  "created_world = fst (run_create (demo_env\<lparr>en_spawn := \<lambda>_. Inr bound_record\<rparr>) demo_request empty_world)"

lemma created_task_is_bound_witness:
  "\<exists>routed r. snd (run_create (demo_env\<lparr>en_spawn := \<lambda>_. Inr bound_record\<rparr>) demo_request empty_world) = Inr routed
     \<and> row_at ro_task_id (str ''t1'') (cw_routes created_world) = Some r \<and> ro_route_state r = RS_active"
proof -
  have "case snd (run_create (demo_env\<lparr>en_spawn := \<lambda>_. Inr bound_record\<rparr>) demo_request empty_world) of Inl _ \<Rightarrow> False | Inr _ \<Rightarrow> True"
    by code_simp
  then obtain routed where r: "run_create (demo_env\<lparr>en_spawn := \<lambda>_. Inr bound_record\<rparr>) demo_request empty_world
      = (created_world, Inr routed)"
    by (cases "run_create (demo_env\<lparr>en_spawn := \<lambda>_. Inr bound_record\<rparr>) demo_request empty_world")
      (auto simp: created_world_def split: sum.splits)
  have "request_task_id (demo_env\<lparr>en_spawn := \<lambda>_. Inr bound_record\<rparr>) demo_request = str ''t1''"
    by code_simp
  with created_task_is_bound [OF r] r show ?thesis by auto
qed

lemma settled_route_not_respawned_witness:
  "cw_spawned (fst (run_create demo_env demo_request created_world))
     = cw_spawned created_world"
proof -
  have "case row_at ro_task_id (str ''t1'') (cw_routes created_world) of
      None \<Rightarrow> False | Some r \<Rightarrow> ro_route_state r \<noteq> RS_pending"
    by code_simp
  then obtain r where r: "row_at ro_task_id (str ''t1'') (cw_routes created_world) = Some r"
      "ro_route_state r \<noteq> RS_pending"
    by (auto split: option.splits)
  have t: "request_task_id demo_env demo_request = str ''t1''"
    by code_simp
  show ?thesis
    using settled_route_not_respawned [of demo_env demo_request
        created_world r] r t
    by simp
qed

definition refused_reply :: effect_exn where
  "refused_reply = E_client \<lparr>a2_status_code = 422, a2_code = [], a2_message = [], a2_details = None,
     a2_effect_boundary = AB_possibly_dispatched\<rparr>"

lemma gateway_case:
  "(case r of Inl (X_gateway e) \<Rightarrow> P e | _ \<Rightarrow> False) \<Longrightarrow> \<exists>e. r = Inl (X_gateway e) \<and> P e"
  by (auto split: sum.splits create_exn.splits)

lemma not_started_is_true_witness:
  "\<exists>call. cw_spawned (fst (run_create (demo_env\<lparr>en_spawn := \<lambda>_. Inl refused_reply\<rparr>) demo_request empty_world)) = [(call, True)]
     \<and> (\<exists>exc. en_spawn (demo_env\<lparr>en_spawn := \<lambda>_. Inl refused_reply\<rparr>) call = Inl exc
          \<and> refusal RK_remote_ref exc)"
proof -
  let ?run = "run_create (demo_env\<lparr>en_spawn := \<lambda>_. Inl refused_reply\<rparr>) demo_request empty_world"
  have "case snd ?run of Inl (X_gateway e) \<Rightarrow> effect_outcome e = PStr (str ''not_started'') | _ \<Rightarrow> False"
    by code_simp
  from gateway_case [OF this] obtain e where
    e: "snd ?run = Inl (X_gateway e)" "effect_outcome e = PStr (str ''not_started'')"
    by blast
  have r: "?run = (fst ?run, Inl (X_gateway e))"
    by (rule prod_eqI) (simp_all only: fst_conv snd_conv e(1))
  have "map snd (cw_spawned (fst ?run)) = [True]" by code_simp
  then obtain call where c: "cw_spawned (fst ?run) = [(call, True)]" by auto
  have "\<exists>new. cw_spawned (fst ?run) = cw_spawned empty_world @ new
    \<and> (\<forall>(call, arrived) \<in> set new. arrived \<longrightarrow>
         (\<exists>exc. en_spawn (demo_env\<lparr>en_spawn := \<lambda>_. Inl refused_reply\<rparr>) call = Inl exc
            \<and> refusal (rq_route_kind demo_request) exc))"
    by (rule not_started_is_true [OF r e(2)])
  then show ?thesis
    unfolding c by (simp add: empty_world_def demo_request_def)
qed

definition flight_row :: route_row where
  "flight_row = demo_row\<lparr>ro_key_scope := str ''none'', ro_replay_policy := str ''never'',
     ro_effect_boundary := str ''started''\<rparr>"

definition flight_world :: create_world where
  "flight_world = \<lparr>cw_routes = [flight_row], cw_spawned = []\<rparr>"

lemma lookup_spoils_create_witness:
  "\<exists>w1 route1 err w2. reconcile_pending_create demo_env False (demo_route\<lparr>rt_created_at := 5, rt_updated_at := 5\<rparr>) flight_world = (w1, Inr route1)
     \<and> complete_create demo_env demo_request demo_route bound_record (str ''t1'') w1
         = (w2, Inl (X_gateway err))"
proof -
  have f: "in_flight (str ''t1'') flight_row flight_world"
    by (simp add: in_flight_def flight_world_def flight_row_def demo_row_def route_inv_def unique_key_def
        row_bound_def unreplayable_def create_key_scopes_def create_replay_policies_def
        create_effect_boundaries_def)
  have g: "get_route (str ''t1'') (cw_routes flight_world)
      = Inr (Some (demo_route\<lparr>rt_created_at := 5, rt_updated_at := 5\<rparr>))"
    by code_simp
  have s: "smooth demo_env" by (simp add: smooth_def demo_env_def)
  show ?thesis
    using lookup_spoils_create [OF f g s s, of demo_request bound_record demo_route]
    by (auto simp: demo_request_def bound_record_def)
qed

definition recovering_env :: create_env where
  "recovering_env = demo_env\<lparr>en_call := (\<lambda>site. if site = At_fail then Call_fails else Call_returns)\<rparr>"

definition recovered_world :: create_world where
  "recovered_world = fst (run_create recovering_env demo_request
     (fst (run_create recovering_env demo_request empty_world)))"

lemma remote_create_at_most_once_witness:
  "length (filter (\<lambda>(call, arrived). sp_task_id call = str ''t1'' \<and> arrived) (cw_spawned recovered_world)) \<le> 1"
proof -
  have "(create_step (\<lambda>env req. env = recovering_env \<and> req = demo_request))\<^sup>*\<^sup>* empty_world recovered_world"
    unfolding recovered_world_def by (rule two_creates)
  moreover have "unkeyed recovering_env demo_request \<and> settles recovering_env"
    by (simp add: unkeyed_def settles_def recovering_env_def demo_env_def demo_request_def)
  ultimately show ?thesis
    using remote_create_at_most_once [of "\<lambda>env req. env = recovering_env \<and> req = demo_request"
        recovered_world "str ''t1''"] by blast
qed

end
