(* ===== verification/Delegation_Policy.thy ===== *)
theory Delegation_Policy
  imports Task_Manager
begin

text \<open>
  The policy of delegation trees: \<open>DelegationPolicy\<close> of \<open>runtime/delegation/policy.py\<close>, over the
  Task manager and the delegation context.  It finds the Task that delegates, gives a new Task its
  place in the tree, and enforces the depth.

  A \<open>RunnableConfig\<close> is its \<open>configurable\<close> dict, \<open>None\<close> when the config is empty or absent.  Of a
  registered agent the policy reads only the permission profile of a local worker.  The lock of a
  tree is the number of the lock made for its root.
\<close>

section \<open>The policy\<close>

record delegation_policy =
  dp_node_id :: pystr
  dp_max_depth :: int
  dp_max_tasks_per_root :: int
  dp_default_profile :: pystr
  dp_locks :: "(pystr \<times> nat) list"

datatype policy_error =
    PE_manager manager_error
  | PE_context context_error
  | PE_value pystr
  | PE_max_depth int int

type_synonym 'a policy_op = "(manager, policy_error, 'a) opn"

definition of_manager :: "'a manager_op \<Rightarrow> 'a policy_op" where
  "of_manager c = (\<lambda>m. let (m', r) = c m in (m', lift_error PE_manager r))"

definition new_policy :: "pystr \<Rightarrow> int \<Rightarrow> int \<Rightarrow> pystr \<Rightarrow> policy_error + delegation_policy" where
  "new_policy node_id max_depth max_tasks_per_root profile =
     (if max_depth < 1 then Inl (PE_value (str ''max_delegation_depth must be at least 1''))
      else if max_tasks_per_root < 1 then Inl (PE_value (str ''max_tasks_per_root must be at least 1''))
      else Inr \<lparr>dp_node_id = node_id, dp_max_depth = max_depth,
                dp_max_tasks_per_root = max_tasks_per_root, dp_default_profile = profile, dp_locks = []\<rparr>)"

text \<open>\<open>value if isinstance(value, str) and value else None\<close> of a field of the config.\<close>

definition config_str :: "pystr \<Rightarrow> pydict option \<Rightarrow> pystr option" where
  "config_str key config =
     (case config of
        None \<Rightarrow> None
      | Some configurable \<Rightarrow>
          (case as_str (dict_get key configurable) of
             Some (c # cs) \<Rightarrow> Some (c # cs) | _ \<Rightarrow> None))"

definition extract_parent_thread_id :: "pydict option \<Rightarrow> pystr option" where
  "extract_parent_thread_id config = config_str (str ''thread_id'') config"

definition extract_parent_task_record ::
  "manager_env \<Rightarrow> pydict option \<Rightarrow> task_record option manager_op" where
  "extract_parent_task_record env config =
     (case (config_str (str ''task_id'') config, config_str (str ''thread_id'') config) of
        (Some task_id, thread) \<Rightarrow>
          op_handle (op_bind (get_task env task_id) (\<lambda>r. op_ret (Some r)))
            (\<lambda>e. case e of
               ME_unknown_task _ \<Rightarrow>
                 (case thread of
                    None \<Rightarrow> op_raise e
                  | Some thread_id \<Rightarrow>
                      op_bind (find_by_thread_id thread_id)
                        (\<lambda>fallback. case fallback of None \<Rightarrow> op_raise e | Some r \<Rightarrow> op_ret (Some r)))
             | _ \<Rightarrow> op_raise e)
      | (None, Some thread_id) \<Rightarrow> find_by_thread_id thread_id
      | (None, None) \<Rightarrow> op_ret None)"

definition root_context :: "delegation_policy \<Rightarrow> pystr \<Rightarrow> policy_error + delegation_context" where
  "root_context P task_id =
     lift_error PE_context
       (build_root_context (dp_node_id P) task_id (dp_max_depth P) (dp_max_tasks_per_root P))"

definition delegation_context_from_record ::
  "delegation_policy \<Rightarrow> task_record \<Rightarrow> policy_error + delegation_context" where
  "delegation_context_from_record P r =
     (case (tk_delegation_root_id r, tk_delegation_max_depth r, tk_delegation_max_tasks_per_root r) of
        (Some root_id, Some max_depth, Some max_tasks) \<Rightarrow>
          if tk_delegation_visited_nodes r \<noteq> []
          then Inr \<lparr>dc_root_id = root_id, dc_depth = tk_depth r, dc_max_depth = max_depth,
                    dc_max_tasks_per_root = max_tasks,
                    dc_visited_nodes = tk_delegation_visited_nodes r\<rparr>
          else root_context P (tk_root_task_id r)
      | _ \<Rightarrow> root_context P (tk_root_task_id r))"

definition resolve_task_tree_context ::
  "delegation_policy \<Rightarrow> manager_env \<Rightarrow> pystr \<Rightarrow> pystr option \<Rightarrow> delegation_context option \<Rightarrow>
   (pystr \<times> int \<times> delegation_context) policy_op" where
  "resolve_task_tree_context P env task_id parent_task_id context =
     (case (parent_task_id, context) of
        (None, Some c) \<Rightarrow> op_ret (dc_root_id c, dc_depth c, c)
      | (None, None) \<Rightarrow> op_bind (op_lift (root_context P task_id)) (\<lambda>c. op_ret (task_id, 1, c))
      | (Some _, Some _) \<Rightarrow>
          op_raise (PE_value (str ''delegation_context cannot be combined with parent_task_id''))
      | (Some parent, None) \<Rightarrow>
          op_bind (of_manager (get_task env parent)) (\<lambda>p.
            let depth = tk_depth p + 1
            in op_bind (op_lift (delegation_context_from_record P p)) (\<lambda>c.
                 op_ret (tk_root_task_id p, depth, build_child_context c depth))))"

definition resolve_permission_profile ::
  "delegation_policy \<Rightarrow> manager_env \<Rightarrow> pystr option \<Rightarrow> pystr option \<Rightarrow> pystr manager_op" where
  "resolve_permission_profile P env worker_profile parent_task_id =
     (case (nonempty_opt worker_profile, parent_task_id) of
        (True, _) \<Rightarrow> op_ret (the worker_profile)
      | (False, None) \<Rightarrow> op_ret (dp_default_profile P)
      | (False, Some parent) \<Rightarrow>
          op_bind (get_task env parent) (\<lambda>p.
            op_ret (if tk_permission_profile p \<noteq> [] then tk_permission_profile p
                    else dp_default_profile P)))"

definition enforce_delegation_depth :: "int \<Rightarrow> int \<Rightarrow> policy_error + unit" where
  "enforce_delegation_depth depth max_depth =
     (if depth > max_depth then Inl (PE_max_depth depth max_depth) else Inr ())"

text \<open>\<open>get_root_budget_lock\<close>: the policy with the lock made for a new root, and the lock.\<close>

definition get_root_budget_lock :: "pystr \<Rightarrow> delegation_policy \<Rightarrow> delegation_policy \<times> nat" where
  "get_root_budget_lock rid P =
     (case map_of (dp_locks P) rid of
        Some lock \<Rightarrow> (P, lock)
      | None \<Rightarrow> (P\<lparr>dp_locks := dp_locks P @ [(rid, length (dp_locks P))]\<rparr>, length (dp_locks P)))"

definition format_depth_limit_error :: "int \<Rightarrow> int \<Rightarrow> pystr" where
  "format_depth_limit_error current_depth max_depth =
     str ''Delegation depth limit exceeded: current_depth='' @ dec current_depth
     @ str '' max_depth='' @ dec max_depth
     @ str ''. You have reached the maximum delegation depth. Complete the remaining work yourself, or return partial results to your caller. Do not attempt to spawn more agents.''"

definition format_task_budget_error :: "pystr \<Rightarrow> int \<Rightarrow> int \<Rightarrow> pystr" where
  "format_task_budget_error root_task_id current_count max_tasks_per_root =
     str ''Task budget exhausted: root_task_id='' @ root_task_id
     @ str '' current_count='' @ dec current_count
     @ str '' max_tasks_per_root='' @ dec max_tasks_per_root
     @ str ''. This delegation tree has reached its task limit. Complete the remaining work yourself, or return partial results to your caller.''"

definition prepare_delegation_metadata ::
  "delegation_policy \<Rightarrow> pydict \<Rightarrow> context_error + pydict \<times> delegation_context option" where
  "prepare_delegation_metadata P metadata =
     parse_inbound_metadata (dp_node_id P) (dp_max_depth P) (dp_max_tasks_per_root P) metadata"

section \<open>Chains of delegation\<close>

text \<open>
  A record of a new Task takes its place in the tree from the policy; and what the policy reads of
  a record, which no later operation assigns.
\<close>

definition placed :: "task_record \<Rightarrow> pystr \<Rightarrow> pystr \<times> int \<times> delegation_context \<Rightarrow> bool" where
  "placed r task_id place \<longleftrightarrow>
     (case place of (rid, depth, c) \<Rightarrow>
        \<exists>q created updated. r = requested_record q created updated \<and> rq_task_id q = task_id
          \<and> rq_root_task_id q = rid \<and> rq_depth q = depth \<and> rq_context q = Some c)"

definition same_place :: "task_record \<Rightarrow> task_record \<Rightarrow> bool" where
  "same_place a b \<longleftrightarrow> tk_root_task_id b = tk_root_task_id a \<and> tk_depth b = tk_depth a
     \<and> tk_delegation_root_id b = tk_delegation_root_id a
     \<and> tk_delegation_max_depth b = tk_delegation_max_depth a
     \<and> tk_delegation_max_tasks_per_root b = tk_delegation_max_tasks_per_root a
     \<and> tk_delegation_visited_nodes b = tk_delegation_visited_nodes a"

text \<open>
  The Tasks from a delegated one up to the root of its tree on this Gateway.  A context that came in
  with the request has passed \<open>parse_inbound_metadata\<close>: its depth is positive and it names the nodes
  it visited.
\<close>

inductive chain :: "delegation_policy \<Rightarrow> manager_env \<Rightarrow> task_record list \<Rightarrow> bool" for P env where
  chain_root:
    "resolve_task_tree_context P env task_id None context m = (m', Inr place) \<Longrightarrow>
     enforce_delegation_depth (fst (snd place)) (dc_max_depth (snd (snd place))) = Inr () \<Longrightarrow>
     (case context of None \<Rightarrow> True | Some c \<Rightarrow> 1 \<le> dc_depth c \<and> dc_visited_nodes c \<noteq> []) \<Longrightarrow>
     placed r task_id place \<Longrightarrow> chain P env [r]"
| chain_child:
    "chain P env (p # ps) \<Longrightarrow>
     get_task env (tk_task_id p) m = (m1, Inr p') \<Longrightarrow> same_place p p' \<Longrightarrow>
     resolve_task_tree_context P env task_id (Some (tk_task_id p)) None m = (m', Inr place) \<Longrightarrow>
     enforce_delegation_depth (fst (snd place)) (dc_max_depth (snd (snd place))) = Inr () \<Longrightarrow>
     placed r task_id place \<Longrightarrow> chain P env (r # p # ps)"

text \<open>A record that keeps its context: it restores to what it was created with.\<close>

definition in_tree :: "pystr \<Rightarrow> delegation_context \<Rightarrow> task_record \<Rightarrow> bool" where
  "in_tree rid c r \<longleftrightarrow> tk_root_task_id r = rid \<and> 1 \<le> tk_depth r \<and> tk_depth r \<le> dc_max_depth c
     \<and> tk_delegation_root_id r = Some (dc_root_id c)
     \<and> tk_delegation_max_depth r = Some (dc_max_depth c)
     \<and> tk_delegation_max_tasks_per_root r = Some (dc_max_tasks_per_root c)
     \<and> tk_delegation_visited_nodes r = dc_visited_nodes c \<and> dc_visited_nodes c \<noteq> []"

lemma in_tree_context:
  "in_tree rid c r \<Longrightarrow> delegation_context_from_record P r = Inr (c\<lparr>dc_depth := tk_depth r\<rparr>)"
  by (simp add: in_tree_def delegation_context_from_record_def)

lemma in_tree_same: "in_tree rid c r \<Longrightarrow> same_place r r' \<Longrightarrow> in_tree rid c r'"
  by (simp add: in_tree_def same_place_def)

lemma placed_in_tree:
  assumes "placed r t (rid, depth, c)" and "1 \<le> depth" and "depth \<le> dc_max_depth c'"
    and "c = c'\<lparr>dc_depth := depth\<rparr>" and "dc_visited_nodes c' \<noteq> []"
  shows "in_tree rid c' r \<and> tk_depth r = depth"
  using assms by (auto simp: placed_def requested_record_def in_tree_def)

lemma root_context_nodes:
  "root_context P t = Inr c \<Longrightarrow> dc_visited_nodes c \<noteq> [] \<and> dc_depth c = 1"
  by (auto simp: root_context_def build_root_context_def lift_error_def split: sum.splits)

lemma resolve_child:
  assumes "resolve_task_tree_context P env t (Some parent) None m = (m', Inr place)"
    and "get_task env parent m = (m1, Inr p)" and "delegation_context_from_record P p = Inr c"
  shows "place = (tk_root_task_id p, tk_depth p + 1, c\<lparr>dc_depth := tk_depth p + 1\<rparr>)"
  using assms
  by (auto simp: resolve_task_tree_context_def of_manager_def op_bind_def op_lift_def op_ret_def
      build_child_context_def Let_def)

lemma resolve_root:
  assumes "resolve_task_tree_context P env t None context m = (m', Inr (rid, depth, c))"
    and "case context of None \<Rightarrow> True | Some c \<Rightarrow> 1 \<le> dc_depth c \<and> dc_visited_nodes c \<noteq> []"
  shows "1 \<le> depth \<and> dc_depth c = depth \<and> dc_visited_nodes c \<noteq> []"
  using assms root_context_nodes [of P t]
  by (auto simp: resolve_task_tree_context_def op_bind_def op_lift_def op_ret_def
      split: option.splits sum.splits)

text \<open>All Tasks of a chain are in one tree, and their depths count down to its root.\<close>

lemma chain_in_tree:
  "chain P env rs \<Longrightarrow> \<exists>rid c. (\<forall>r \<in> set rs. in_tree rid c r)
     \<and> tk_depth (hd rs) \<ge> int (length rs) \<and> rs \<noteq> []"
proof (induction rule: chain.induct)
  case (chain_root task_id ctx m m' place r)
  obtain rid depth c where p: "place = (rid, depth, c)" by (cases place)
  have d: "1 \<le> depth \<and> dc_depth c = depth \<and> dc_visited_nodes c \<noteq> []"
    using resolve_root chain_root(1,3) p by blast
  have "in_tree rid c r \<and> tk_depth r = depth"
    using chain_root(2,4) d p by (intro placed_in_tree) (auto simp: enforce_delegation_depth_def split: if_splits)
  then show ?case using d by (intro exI [of _ rid] exI [of _ c]) simp
next
  case (chain_child p ps m m1 p' task_id m' place r)
  then obtain rid c where t: "\<forall>x \<in> set (p # ps). in_tree rid c x" "int (length (p # ps)) \<le> tk_depth p"
    by auto
  have p': "in_tree rid c p'" "tk_depth p' = tk_depth p"
    using t(1) chain_child(3) by (auto intro: in_tree_same simp: same_place_def)
  have place: "place = (tk_root_task_id p', tk_depth p' + 1, c\<lparr>dc_depth := tk_depth p' + 1\<rparr>)"
    using resolve_child [OF chain_child(4,2) in_tree_context [OF p'(1)]] by simp
  have "in_tree rid c r \<and> tk_depth r = tk_depth p' + 1"
    using chain_child(5,6) place p'(1)
    by (intro placed_in_tree) (auto simp: in_tree_def enforce_delegation_depth_def split: if_splits)
  then show ?case
    using t p'(2) by (intro exI [of _ rid] exI [of _ c]) auto
qed

text \<open>
  C28. A chain of delegations stays in its tree and within its depth: every Task of it restores to
  the same context but for the depth, names the same root, and the chain is no longer than the
  depth the context allows.
\<close>

theorem delegation_chain_bounded:
  assumes "chain P env rs"
  shows "\<exists>rid c. int (length rs) \<le> dc_max_depth c
    \<and> (\<forall>r \<in> set rs. tk_root_task_id r = rid \<and> 1 \<le> tk_depth r \<and> tk_depth r \<le> dc_max_depth c
         \<and> delegation_context_from_record P r = Inr (c\<lparr>dc_depth := tk_depth r\<rparr>))"
proof -
  obtain rid c where t: "\<forall>r \<in> set rs. in_tree rid c r" "tk_depth (hd rs) \<ge> int (length rs)" "rs \<noteq> []"
    using chain_in_tree [OF assms] by blast
  then have "tk_depth (hd rs) \<le> dc_max_depth c" by (simp add: in_tree_def)
  with t show ?thesis
    by (intro exI [of _ rid] exI [of _ c]) (auto simp: in_tree_context, auto simp: in_tree_def)
qed

section \<open>Witness\<close>

definition chain_policy :: delegation_policy where
  "chain_policy = \<lparr>dp_node_id = str ''n'', dp_max_depth = 2, dp_max_tasks_per_root = 5,
     dp_default_profile = str ''ask'', dp_locks = []\<rparr>"

definition chain_env :: manager_env where
  "chain_env = \<lparr>env_clock = (\<lambda>_. 0), env_uuid4 = (\<lambda>_. []), env_uuid5 = (\<lambda>s. s),
     env_fromiso = (\<lambda>_. None), env_live = []\<rparr>"

definition chain_context :: "int \<Rightarrow> delegation_context" where
  "chain_context depth = \<lparr>dc_root_id = str ''n:t1'', dc_depth = depth, dc_max_depth = 2,
     dc_max_tasks_per_root = 5, dc_visited_nodes = [str ''n'']\<rparr>"

definition chain_request :: "pystr \<Rightarrow> int \<Rightarrow> task_request" where
  "chain_request task_id depth =
     \<lparr>rq_task_id = task_id, rq_agent_name = str ''w'', rq_parent_task_id = None, rq_root_task_id = str ''t1'',
      rq_depth = depth, rq_route_kind = RK_local, rq_upstream_task_id = None, rq_parent_thread_id = None,
      rq_webhook = None, rq_context = Some (chain_context depth), rq_permission_profile = [],
      rq_effective_skill_names = [], rq_skill_view_path = None, rq_skill_view_hash = None\<rparr>"

definition chain_task :: "pystr \<Rightarrow> int \<Rightarrow> task_record" where
  "chain_task task_id depth = requested_record (chain_request task_id depth) 0 0"

lemma chain_task_placed:
  "placed (chain_task t d) t (str ''t1'', d, chain_context d)"
  unfolding placed_def chain_task_def by (force simp: chain_request_def)

definition chain_manager :: manager where
  "chain_manager = (new_manager None False [])\<lparr>tm_tasks := [(str ''t1'', chain_task (str ''t1'') 1)]\<rparr>"

lemma chain_of_two: "chain chain_policy chain_env [chain_task (str ''t2'') 2, chain_task (str ''t1'') 1]"
proof (rule chain_child)
  show "chain chain_policy chain_env [chain_task (str ''t1'') 1]"
  proof (rule chain_root [OF _ _ _ chain_task_placed])
    show "resolve_task_tree_context chain_policy chain_env (str ''t1'') None None chain_manager
        = (chain_manager, Inr (str ''t1'', 1, chain_context 1))"
      by code_simp
  qed (simp_all add: enforce_delegation_depth_def chain_context_def)
  have id: "tk_task_id (chain_task (str ''t1'') 1) = str ''t1''" by code_simp
  show "get_task chain_env (tk_task_id (chain_task (str ''t1'') 1)) chain_manager
      = (chain_manager, Inr (chain_task (str ''t1'') 1))"
    unfolding id by (simp add: get_task_def op_bind_def op_get_def op_ret_def chain_manager_def)
  show "resolve_task_tree_context chain_policy chain_env (str ''t2'') (Some (tk_task_id (chain_task (str ''t1'') 1)))
      None chain_manager = (chain_manager, Inr (str ''t1'', 2, chain_context 2))"
    unfolding id
    by (simp add: resolve_task_tree_context_def of_manager_def get_task_def op_bind_def op_get_def op_ret_def
        op_lift_def chain_manager_def chain_task_def requested_record_def chain_request_def chain_context_def
        delegation_context_from_record_def build_child_context_def Let_def)
  show "placed (chain_task (str ''t2'') 2) (str ''t2'') (str ''t1'', 2, chain_context 2)"
    by (rule chain_task_placed)
qed (simp_all add: enforce_delegation_depth_def chain_context_def same_place_def)

lemma delegation_chain_bounded_witness:
  "\<exists>c. 2 \<le> dc_max_depth c
     \<and> delegation_context_from_record chain_policy (chain_task (str ''t2'') 2)
         = Inr (c\<lparr>dc_depth := tk_depth (chain_task (str ''t2'') 2)\<rparr>)"
  using delegation_chain_bounded [OF chain_of_two] by (auto simp del: One_nat_def)

end
