(* ===== verification/Spec2Isabelle.thy ===== *)
theory Spec2Isabelle
  imports Task_Model Permission_Policy Event_Receipts Gateway_Commands Gateway_Routes Channel_Delivery
    Delegation_Context Task_Store_Properties Task_Watch Telegram_Text Channel_Sessions Run_Supervisor
    Remote_Events Task_Manager_Properties Create_Outcomes Delegation_Policy
begin

text \<open>
  Verification library of ruyi-agent, the program under \<open>src/src/ruyi_agent\<close>: a Gateway that runs
  agent Tasks, delegates them to other agents and Gateways, and reports them to chat channels.  What
  the library models is the part of the program whose errors would lose, repeat or misreport work:
  the durable stores, the life cycle of Tasks, the protocol between Gateways, the permission policy
  and the channel watch.  Paths below are relative to \<open>src/src/ruyi_agent\<close>.

  \<^bold>\<open>The program and its parts\<close>

  A request reaches the Gateway under an idempotency key (\<open>gateway_command_store\<close>), is bound to a
  route (\<open>gateway_route_store\<close>) and becomes a Task.  The Task manager (\<open>task_manager\<close>) owns the records
  of all Tasks in memory and writes each transition to the task database in one transaction: the
  row, its life cycle event, the pending review and the intent to report the settlement.  The run
  supervisor (\<open>run_supervisor\<close>) admits and ends the asyncio Tasks that execute runs.  A Task may
  delegate to a child, with a context that bounds depth and number (\<open>delegation/context\<close>); the
  settlement of the child travels over the settled outbox and the task mailbox to its parent.  A
  remote Gateway sees a Task through events, projected (\<open>gateway_protocol/projection\<close>), encoded as a
  server-sent stream and validated on the other side (\<open>gateway_protocol/sse\<close>).  A channel (Feishu,
  Telegram) takes each platform event once (\<open>event_receipts\<close>), watches the run (\<open>task_watch\<close>) and
  delivers its outcome under a lease (\<open>channel_delivery_store\<close>).

  \<^bold>\<open>Theories and sources\<close>

  \<^item> \<open>Ruyi_Prelude\<close>: strings, table rows and errors shared by all; \<open>Fallible_State\<close>: operations on a
    mutable object that may raise, with weakest preconditions; \<open>Lease_Spec\<close>: the contract of a durable
    claim, as locales that the three claiming stores interpret.
  \<^item> \<open>Task_Model\<close>: \<open>task_models.py\<close>.
  \<^item> \<open>Shell_Lexer\<close>, \<open>Permission_Policy\<close>: \<open>shlex\<close> as used by \<open>control_plane/permissions.py\<close>, and that file.
  \<^item> \<open>Event_Receipts\<close>, \<open>Gateway_Commands\<close>, \<open>Gateway_Routes\<close>, \<open>Channel_Delivery\<close>, \<open>Channel_Sessions\<close>: the
    stores \<open>channels/event_receipts.py\<close> and \<open>storage/gateway_command_store.py\<close>,
    \<open>gateway_route_store.py\<close>, \<open>channel_delivery_store.py\<close>, \<open>channel_session_store.py\<close>.
  \<^item> \<open>Gateway_Errors\<close>, \<open>Create_Workflow\<close>: the errors of the Gateway (\<open>errors\<close>, \<open>public_errors\<close>,
    \<open>create_errors\<close>) and the creation of a Task (\<open>create_route_workflow\<close>, \<open>route_reservations\<close>), all
    under \<open>gateway\<close>, over \<open>Gateway_Routes\<close>; \<open>Create_Once\<close> and \<open>Create_Outcomes\<close> hold what they guarantee.
  \<^item> \<open>Task_Store\<close>, \<open>Mailbox_Store\<close>: the task database of \<open>storage/task_schema.py\<close> with its
    repositories (\<open>task_repository\<close>, \<open>task_event_repository\<close>, \<open>settled_outbox\<close>, \<open>task_unit_of_work\<close>,
    \<open>task_review_uow\<close>, \<open>task_store\<close>, \<open>mailbox_store\<close>).  \<open>Task_Database_Invariant\<close> states the invariant of
    the database and what every operation keeps; \<open>Task_Store_Properties\<close> and \<open>Settlement_Delivery\<close>
    hold the properties.
  \<^item> \<open>Task_Manager\<close>: \<open>runtime/delegation/task_manager.py\<close> and \<open>remote_reconciliation.py\<close>.
    \<open>Manager_Transactions\<close> and \<open>Manager_Reviews\<close> reason about its transactions;
    \<open>Task_Manager_Properties\<close> holds the properties.
  \<^item> \<open>Run_Supervisor\<close>: \<open>run_supervisor.py\<close> and \<open>live_runs.py\<close> of \<open>runtime/delegation\<close>, as a step relation
    whose labelled steps simulate an admission gate.
  \<^item> \<open>Delegation_Context\<close>, \<open>Delegation_Policy\<close>: \<open>runtime/delegation/context.py\<close> and \<open>policy.py\<close>.
  \<^item> \<open>Json_Text\<close>, \<open>Json_Parse\<close>, \<open>Wire_Codec\<close>: the part of \<open>json\<close>, UTF-8 and base64 the program uses.
  \<^item> \<open>Wire_Projection\<close>: \<open>gateway_protocol/projection.py\<close>, \<open>cursor.py\<close> and the limits of \<open>contracts.py\<close>;
    \<open>Sse_Stream\<close>: the stream codec of \<open>sse.py\<close>; \<open>Remote_Events\<close>: the take-over of remote events.
  \<^item> \<open>Task_Watch\<close>: \<open>channels/task_watch.py\<close>; \<open>Telegram_Text\<close>: \<open>channels/telegram/formatting.py\<close>.

  \<^bold>\<open>How the code appears\<close>

  A dataclass is a record, an enumeration of literals a datatype, a dict the association list of its
  items in insertion order.  A store operation maps the tables to the tables and its result; a raise
  is the \<open>Inl\<close> of a sum whose errors are named after the exceptions.  A transaction either commits or
  leaves its database, so a failing operation of the model returns the database it was given.  The
  Task manager mutates shared objects: an object is named by its Task id, every operation returns
  the state with the value or the exception, and what was assigned before a raise stays assigned,
  until \<open>memory_transaction\<close> puts it back as the code does.  A list of faults says which of the coming
  transactions of the store fail.  Instants are integers, UTC microseconds; seconds that are
  Python floats are rationals.  The clock, \<open>uuid4\<close>, the jitter and the answers of other processes are
  arguments of the operation that reads them.  An \<open>await\<close> is a boundary between steps: the run
  supervisor is a relation over such steps, the channel watch a list of moments.  The create workflow
  runs in an environment that decides for every awaited call whether it returns, fails, is cancelled
  or is the last of the process; creates of one Task are taken one after the other, as the command
  ledger runs them.

  What the source takes from elsewhere is a parameter: \<open>uuid5\<close> and \<open>datetime.fromisoformat\<close> are functions,
  the latter assumed, where a round trip needs it, to read what \<open>isoformat\<close> writes.

  \<^bold>\<open>What the lemmas show\<close>

  \<^item> Leases: a stale token is refused without effect, and a live claim survives what others do.
  \<^item> Commands, routes, deliveries: an unsafe effect is not issued again unless the workflow takes it
    back, a completed command replays its response, a binding never changes, a delivery is confirmed
    in order by its claimant only, each step under the live lease of its token.
  \<^item> Creates: a remote create that may not be replayed reaches its peer at most once while the database
    does not refuse the settlement of an interrupted one, a returned Task is bound to what its
    executor answered, an error that reports no effect is true, and a settled route is not spawned again.
  \<^item> Delegation: along any chain of Gateways the limits only shrink, and a chain of Tasks stays within
    its depth.
  \<^item> Task database: keys stay unique under all operations, a settlement is delivered once and not
    after suppression, events are stable under their cursor, a tree that grows by budgeted inserts
    stays within every budget stored in it.
  \<^item> Task manager: a transition under a memory transaction that raises leaves no trace; memory mirrors
    the store whichever transactions fail, unless one of the two direct writes (\<open>add_artifact\<close>,
    \<open>mark_mailbox_delivered\<close>) raises; a transition that returns is durable together with its event,
    intent and projected review, and a completion does return under the conditions its property names;
    a remote operation is cleared on evidence only.
  \<^item> Run supervisor: every call that returns is a step of the gate under the label of the call, nothing
    is admitted after the shutdown began and all runs have ended when it is over, and a permit is spent
    once and cleaned up by its owner only.
  \<^item> Protocol: projections fit the wire, streams arrive as exact prefixes in any chunking, remote
    events are accepted exactly after sanitizing, and one side accepts what the other projects.
  \<^item> Policy: a deny rule wins, an allowed command was allowed by a rule or default.
  \<^item> Watch: the end of a run is reported at most once, and a watch whose polls see the run settled ends
    within a budget of polls, whatever it saw before.

  \<^bold>\<open>Bounds and fuel\<close>

  The JSON scanner runs on fuel \<open>2 * length s + 1\<close>, which \<open>parse_value_fuel\<close> shows to be enough for
  every text.  The watch runs on the list of its moments, so it always ends in the model; the
  termination property bounds the moments it needs.  SQLite integers are unbounded in the model but
  for the review sequence, whose overflow the code meets at \<open>2 ^ 63 - 1\<close>.

  \<^bold>\<open>Findings\<close>

  \<open>lookup_spoils_create\<close>, \<open>refused_settlement_repeats_effect\<close>, \<open>artifact_kept_after_failure\<close>,
  \<open>ampersand_tail_unreviewed\<close> and \<open>late_failure_interrupts_successor\<close> state behaviour of
  the code that it does not mean to have.

  \<^bold>\<open>Not modelled\<close>

  SQLite itself, schema creation and legacy migrations that copy rows; asyncio beyond the steps named
  above: a wait on the condition of the run supervisor is a guard of its step, so \<open>notify_all\<close> and a
  wake-up that is missed do not appear, and nothing is claimed of when a waiting shutdown goes on; HTTP clients and servers, LangGraph agents and their middleware, the Feishu and Telegram
  SDKs, file system scans of skills, configuration files and command line.  They are input and output
  around the modelled core, or code of other packages.
\<close>

end
